(* ===== verification/Go_Float.thy ===== *)
theory Go_Float
  imports Prelude
begin

text \<open>
  Go's floating-point numbers as rationals: after an operation the exact result is rounded to the nearest
  number with a significand of \<open>p\<close> bits (24 for \<open>float32\<close>, 53 for \<open>float64\<close>), ties to even, and a
  conversion to an integer truncates. The exponent has no bounds here: durations, positions and counts
  are far from the largest number, and a result below the smallest normal one is the only difference.
\<close>

section \<open>Definitions\<close>

fun bit_length :: "nat \<Rightarrow> nat" where
  "bit_length n = (if n = 0 then 0 else Suc (bit_length (n div 2)))"

declare bit_length.simps [simp del]

definition round_even :: "rat \<Rightarrow> int" where
  "round_even q =
     (let f = \<lfloor>q\<rfloor>; r = q - of_int f in
      if r < 1 / 2 then f else if 1 / 2 < r then f + 1 else if even f then f else f + 1)"

text \<open>The least \<open>e\<close> with \<open>\<bar>q\<bar> < 2\<^sup>e\<close>, from the lengths of numerator and denominator.\<close>

definition float_exponent :: "rat \<Rightarrow> int" where
  "float_exponent q =
     (case quotient_of q of (n, d) \<Rightarrow>
        let k = int (bit_length (nat \<bar>n\<bar>)) - int (bit_length (nat d))
        in if \<bar>q\<bar> < 2 powi k then k else k + 1)"

definition round_float :: "nat \<Rightarrow> rat \<Rightarrow> rat" where
  "round_float p q = (let u = 2 powi (float_exponent q - int p) in of_int (round_even (q / u)) * u)"

definition truncate_rat :: "rat \<Rightarrow> int" where
  "truncate_rat q = (if q < 0 then \<lceil>q\<rceil> else \<lfloor>q\<rfloor>)"

text \<open>Integer division, which truncates too.\<close>

definition go_quot :: "int \<Rightarrow> int \<Rightarrow> int" where
  "go_quot a b = truncate_rat (Fract a b)"

section \<open>Integers are exact\<close>

lemma truncate_rat_of_int [simp]: "truncate_rat (of_int n) = n"
  by (simp add: truncate_rat_def)

lemma truncate_rat_numeral [simp]:
  "truncate_rat (numeral w) = numeral w" "truncate_rat 0 = 0" "truncate_rat 1 = 1" "truncate_rat (- numeral w) = - numeral w"
  by (simp_all add: truncate_rat_def)

lemma round_even_of_int [simp]: "round_even (of_int n) = n"
  by (simp add: round_even_def)

lemma bit_length_le: "n < 2 ^ p \<Longrightarrow> bit_length n \<le> p"
proof (induction p arbitrary: n)
  case 0
  then show ?case by (simp add: bit_length.simps)
next
  case (Suc p)
  then have "n div 2 < 2 ^ p" by (simp add: less_mult_imp_div_less mult.commute)
  with Suc.IH show ?case by (simp add: bit_length.simps [of n])
qed

lemma bit_length_one: "bit_length 1 = 1"
  by (simp add: bit_length.simps)

lemma float_exponent_of_int:
  assumes "\<bar>n\<bar> < 2 ^ p"
  shows "float_exponent (of_int n) \<le> int p"
proof -
  have "bit_length (nat \<bar>n\<bar>) \<le> p" using assms by (intro bit_length_le) (simp add: nat_less_iff)
  then show ?thesis
    using bit_length_one by (simp add: float_exponent_def Let_def quotient_of_int)
qed

lemma round_float_of_int:
  assumes "\<bar>n\<bar> < 2 ^ p"
  shows "round_float p (of_int n) = of_int n"
proof -
  define k where "k = nat (int p - float_exponent (of_int n))"
  have "float_exponent (of_int n) - int p = - int k" using float_exponent_of_int [OF assms] by (simp add: k_def)
  then have u: "2 powi (float_exponent (of_int n) - int p) = (1 / 2 ^ k :: rat)"
    by (simp only: power_int_minus power_int_of_nat inverse_eq_divide)
  have "(of_int n :: rat) / (1 / 2 ^ k) = of_int (n * 2 ^ k)" by simp
  then show ?thesis unfolding round_float_def u Let_def by (simp only: round_even_of_int) simp
qed

text \<open>Rounding is monotone enough: the error is at most half a unit, and a sign is kept.\<close>

lemma round_even_error: "\<bar>of_int (round_even q) - q\<bar> \<le> 1 / 2"
proof -
  have "of_int \<lfloor>q\<rfloor> \<le> q" "q < of_int \<lfloor>q\<rfloor> + 1" by linarith+
  then show ?thesis by (auto simp: round_even_def Let_def)
qed

lemma round_even_nonneg: "0 \<le> q \<Longrightarrow> 0 \<le> round_even q"
  by (auto simp: round_even_def Let_def)

lemma round_float_nonneg: "0 \<le> q \<Longrightarrow> 0 \<le> round_float p q"
  by (auto simp: round_float_def Let_def intro!: mult_nonneg_nonneg round_even_nonneg divide_nonneg_nonneg)

end
