(* ===== verification/Media_Model.thy ===== *)
theory Media_Model
  imports Prelude
begin

text \<open>
  The part of the data model (\<open>model/mediafile.go\<close>, \<open>model/player.go\<close>,
  \<open>model/transcoding.go\<close>, \<open>core/ffmpeg/ffmpeg.go\<close>) that the components read, and the inference of
  a track's codec. A \<open>*int\<close> is an \<open>int option\<close> (\<open>None\<close> is nil); a \<open>time.Time\<close> is the number of
  nanoseconds since the Unix epoch; a \<open>float32\<close> duration is its exact rational value.
\<close>

type_synonym time = int

definition second :: int where "second = 1000000000"

text \<open>The zero \<open>time.Time\<close>: January 1 of the year 1.\<close>

definition zero_time :: time where "zero_time = - 62135596800 * second"

record MediaFile =
  mf_ID :: string
  mf_LibraryID :: int
  mf_Path :: string
  mf_Title :: string
  mf_Artist :: string
  mf_AlbumID :: string
  mf_AlbumArtistID :: string
  mf_Size :: int
  mf_Suffix :: string
  mf_Duration :: rat
  mf_BitRate :: int
  mf_SampleRate :: int
  mf_BitDepth :: "int option"
  mf_Channels :: int
  mf_Codec :: string
  mf_ProbeData :: string
  mf_RoleArtists :: "string list"
  mf_UpdatedAt :: time

record Player =
  pl_ID :: string
  pl_MaxBitRate :: int
  pl_ScrobbleEnabled :: bool

record Transcoding =
  tr_TargetFormat :: string
  tr_Command :: string
  tr_DefaultBitRate :: int

record AudioProbeResult =
  pr_Codec :: string
  pr_Profile :: string
  pr_BitRate :: int
  pr_SampleRate :: int
  pr_BitDepth :: int
  pr_Channels :: int

text \<open>\<open>gg.V\<close>: the value behind a pointer, or zero.\<close>

definition gg_V :: "int option \<Rightarrow> int" where
  "gg_V p = (case p of None \<Rightarrow> 0 | Some v \<Rightarrow> v)"

definition inferCodecFromSuffix :: "MediaFile \<Rightarrow> string" where
  "inferCodecFromSuffix mf =
     (let s = go_lower (mf_Suffix mf) in
      if s \<in> {''mp3'', ''mpga''} then ''mp3''
      else if s = ''mp2'' then ''mp2''
      else if s \<in> {''ogg'', ''oga''} then ''vorbis''
      else if s = ''opus'' then ''opus''
      else if s = ''mpc'' then ''mpc''
      else if s = ''wma'' then ''wma''
      else if s = ''flac'' then ''flac''
      else if s = ''wav'' then ''pcm''
      else if s \<in> {''aif'', ''aiff'', ''aifc''} then ''pcm''
      else if s = ''ape'' then ''ape''
      else if s \<in> {''wv'', ''wvp''} then ''wv''
      else if s = ''tta'' then ''tta''
      else if s = ''tak'' then ''tak''
      else if s = ''shn'' then ''shn''
      else if s \<in> {''dsf'', ''dff''} then ''dsd''
      else if s = ''m4a'' then (if gg_V (mf_BitDepth mf) > 0 then ''alac'' else ''aac'')
      else if s \<in> {''m4b'', ''m4p'', ''m4r''} then ''aac''
      else '''')"

definition AudioCodec :: "MediaFile \<Rightarrow> string" where
  "AudioCodec mf =
     (if mf_Codec mf \<noteq> '''' then go_lower (mf_Codec mf) else inferCodecFromSuffix mf)"

text \<open>A media file with every field at Go's zero value, from which examples are built.\<close>

definition zero_MediaFile :: MediaFile where
  "zero_MediaFile =
     \<lparr>mf_ID = [], mf_LibraryID = 0, mf_Path = [], mf_Title = [], mf_Artist = [], mf_AlbumID = [],
      mf_AlbumArtistID = [], mf_Size = 0, mf_Suffix = [], mf_Duration = 0, mf_BitRate = 0,
      mf_SampleRate = 0, mf_BitDepth = None, mf_Channels = 0, mf_Codec = [], mf_ProbeData = [],
      mf_RoleArtists = [], mf_UpdatedAt = 0\<rparr>"

text \<open>The inferred codec is always one of the names the stream code knows, in lower case.\<close>

lemma inferCodecFromSuffix_lower: "go_lower (inferCodecFromSuffix mf) = inferCodecFromSuffix mf"
  unfolding inferCodecFromSuffix_def Let_def
  by (simp add: go_lower_def to_lower_char_def byte_def)

lemma AudioCodec_lower: "go_lower (AudioCodec mf) = AudioCodec mf"
  by (simp add: AudioCodec_def inferCodecFromSuffix_lower)

end
