(* ===== verification/Playback_Queue.thy ===== *)
theory Playback_Queue
  imports Media_Model
begin

text \<open>
  The play queue of the jukebox, \<open>core/playback/queue.go\<close>. The queue is a list of media files and
  the index of the current one, -1 when there is none. Reading or slicing out of range is a panic of
  the runtime and therefore a value of the model (\<open>Inl IndexOutOfRange\<close>).

  \<open>rand.Shuffle\<close> runs Fisher-Yates from the last position down; the random source is the parameter
  \<open>rnd\<close>, where \<open>rnd n\<close> is the number the generator returns for the bound \<open>n\<close>.
\<close>

record Queue =
  q_Index :: int
  q_Items :: "MediaFile list"

definition NewQueue :: Queue where
  "NewQueue = \<lparr>q_Index = -1, q_Items = []\<rparr>"

definition Queue_Current :: "Queue \<Rightarrow> go_panic + MediaFile option" where
  "Queue_Current q =
     (if q_Index q = -1 then Inr None
      else if q_Index q \<ge> int (length (q_Items q)) then Inr None
      else if q_Index q < 0 then Inl IndexOutOfRange
      else Inr (Some (q_Items q ! nat (q_Index q))))"

definition Queue_Get :: "Queue \<Rightarrow> MediaFile list" where
  "Queue_Get q = q_Items q"

definition Queue_Size :: "Queue \<Rightarrow> int" where
  "Queue_Size q = int (length (q_Items q))"

definition Queue_IsEmpty :: "Queue \<Rightarrow> bool" where
  "Queue_IsEmpty q = (int (length (q_Items q)) < 1)"

definition Queue_Clear :: "Queue \<Rightarrow> Queue" where
  "Queue_Clear q = q\<lparr>q_Index := -1, q_Items := []\<rparr>"

definition Queue_Set :: "MediaFile list \<Rightarrow> Queue \<Rightarrow> Queue" where
  "Queue_Set items q = (let q' = Queue_Clear q in q'\<lparr>q_Items := q_Items q' @ items\<rparr>)"

definition Queue_Add :: "MediaFile list \<Rightarrow> Queue \<Rightarrow> Queue" where
  "Queue_Add items q =
     (let q' = q\<lparr>q_Items := q_Items q @ items\<rparr>
      in if q_Index q' = -1 \<and> length (q_Items q') > 0 then q'\<lparr>q_Index := 0\<rparr> else q')"

text \<open>The search loop; the \<open>error\<close> it returns beside -1 is the value \<open>None\<close>.\<close>

definition getMediaFileIndexByID :: "string \<Rightarrow> Queue \<Rightarrow> nat option" where
  "getMediaFileIndexByID i q = find_index (\<lambda>item. mf_ID item = i) (q_Items q)"

definition backup_id :: "MediaFile option \<Rightarrow> string" where
  "backup_id cur = (case cur of None \<Rightarrow> '''' | Some mf \<Rightarrow> mf_ID mf)"

text \<open>
  The tail that \<open>Remove\<close> and \<open>Shuffle\<close> share: look the saved ID up and store the index found, or -1.
\<close>

definition reindex :: "string \<Rightarrow> Queue \<Rightarrow> Queue" where
  "reindex i q =
     (case getMediaFileIndexByID i q of
        Some k \<Rightarrow> q\<lparr>q_Index := int k\<rparr>
      | None \<Rightarrow> q\<lparr>q_Index := -1\<rparr>)"

definition Queue_Remove :: "int \<Rightarrow> Queue \<Rightarrow> go_panic + Queue" where
  "Queue_Remove idx q =
     (case Queue_Current q of
        Inl p \<Rightarrow> Inl p
      | Inr cur \<Rightarrow>
          if idx < 0 \<or> idx \<ge> int (length (q_Items q)) then Inl IndexOutOfRange
          else Inr (reindex (backup_id cur)
                      (q\<lparr>q_Items := remove_nth (nat idx) (q_Items q)\<rparr>)))"

definition swap :: "nat \<Rightarrow> nat \<Rightarrow> 'a list \<Rightarrow> 'a list" where
  "swap i j xs = xs[i := xs ! j, j := xs ! i]"

fun go_shuffle :: "(nat \<Rightarrow> nat) \<Rightarrow> nat \<Rightarrow> 'a list \<Rightarrow> 'a list" where
  "go_shuffle rnd 0 xs = xs"
| "go_shuffle rnd (Suc i) xs = go_shuffle rnd i (swap (Suc i) (rnd (Suc (Suc i))) xs)"

definition Queue_Shuffle :: "(nat \<Rightarrow> nat) \<Rightarrow> Queue \<Rightarrow> go_panic + Queue" where
  "Queue_Shuffle rnd q =
     (case Queue_Current q of
        Inl p \<Rightarrow> Inl p
      | Inr cur \<Rightarrow>
          Inr (reindex (backup_id cur)
                 (q\<lparr>q_Items := go_shuffle rnd (length (q_Items q) - 1) (q_Items q)\<rparr>)))"

definition Queue_SetIndex :: "int \<Rightarrow> Queue \<Rightarrow> Queue" where
  "Queue_SetIndex idx q = q\<lparr>q_Index := max 0 (min idx (int (length (q_Items q)) - 1))\<rparr>"

definition IsAtLastElement :: "Queue \<Rightarrow> bool" where
  "IsAtLastElement q = (q_Index q + 1 \<ge> int (length (q_Items q)))"

definition IncreaseIndex :: "Queue \<Rightarrow> Queue" where
  "IncreaseIndex q = (if \<not> IsAtLastElement q then Queue_SetIndex (q_Index q + 1) q else q)"

section \<open>The index invariant\<close>

text \<open>
  The index is -1, or points at an item, or is 0 on an empty queue (what \<open>SetIndex\<close> leaves there).
\<close>

definition queue_inv :: "Queue \<Rightarrow> bool" where
  [inv_defs]: "queue_inv q \<longleftrightarrow>
     -1 \<le> q_Index q \<and> (q_Index q < int (length (q_Items q)) \<or> q_Index q = 0)"

text \<open>What the generator promises: a number below the bound it is given.\<close>

definition rand_ok :: "(nat \<Rightarrow> nat) \<Rightarrow> bool" where
  "rand_ok rnd \<longleftrightarrow> (\<forall>n > 0. rnd n < n)"

lemma Queue_Current_no_panic: "queue_inv q \<Longrightarrow> \<exists>cur. Queue_Current q = Inr cur"
  by (auto simp: Queue_Current_def inv_defs)

lemma Queue_Current_Some:
  "Queue_Current q = Inr (Some m) \<longleftrightarrow>
   0 \<le> q_Index q \<and> q_Index q < int (length (q_Items q)) \<and> m = q_Items q ! nat (q_Index q)"
  by (auto simp: Queue_Current_def)

lemma NewQueue_inv: "queue_inv NewQueue"
  by (simp add: NewQueue_def inv_defs)

lemma Queue_Clear_inv: "queue_inv (Queue_Clear q)"
  by (simp add: Queue_Clear_def inv_defs)

lemma Queue_Set_inv: "queue_inv (Queue_Set items q)"
  by (simp add: Queue_Set_def Queue_Clear_def inv_defs)

lemma Queue_Add_inv: "queue_inv q \<Longrightarrow> queue_inv (Queue_Add items q)"
  by (auto simp: Queue_Add_def inv_defs Let_def)

lemma Queue_SetIndex_inv: "queue_inv (Queue_SetIndex idx q)"
  by (auto simp: Queue_SetIndex_def inv_defs)

lemma IncreaseIndex_inv: "queue_inv q \<Longrightarrow> queue_inv (IncreaseIndex q)"
  by (simp add: IncreaseIndex_def Queue_SetIndex_inv)

lemma reindex_inv:
  "queue_inv (reindex i q)"
  by (auto simp: reindex_def getMediaFileIndexByID_def inv_defs dest!: find_index_Some split: option.splits)

lemma Queue_Remove_inv: "Queue_Remove idx q = Inr q' \<Longrightarrow> queue_inv q'"
  by (auto simp: Queue_Remove_def reindex_inv split: sum.splits if_splits)

lemma Queue_Shuffle_inv: "Queue_Shuffle rnd q = Inr q' \<Longrightarrow> queue_inv q'"
  by (auto simp: Queue_Shuffle_def reindex_inv split: sum.splits)

lemma Queue_Remove_total:
  "queue_inv q \<Longrightarrow> (\<exists>q'. Queue_Remove idx q = Inr q') \<longleftrightarrow> 0 \<le> idx \<and> idx < Queue_Size q"
  using Queue_Current_no_panic [of q] by (auto simp: Queue_Remove_def Queue_Size_def split: if_splits)

lemma Queue_Shuffle_total: "queue_inv q \<Longrightarrow> \<exists>q'. Queue_Shuffle rnd q = Inr q'"
  using Queue_Current_no_panic [of q] by (auto simp: Queue_Shuffle_def)

lemmas queue_invs =
  NewQueue_inv Queue_Clear_inv Queue_Set_inv Queue_Add_inv Queue_SetIndex_inv IncreaseIndex_inv
  Queue_Remove_inv Queue_Shuffle_inv

section \<open>The current track across changes of the queue\<close>

lemma mset_swap_list: "i < length xs \<Longrightarrow> j < length xs \<Longrightarrow> mset (swap i j xs) = mset xs"
  by (simp add: swap_def mset_swap)

lemma length_swap [simp]: "length (swap i j xs) = length xs"
  by (simp add: swap_def)

lemma mset_go_shuffle:
  "rand_ok rnd \<Longrightarrow> i < length xs \<or> i = 0 \<Longrightarrow> mset (go_shuffle rnd i xs) = mset xs"
proof (induction rnd i xs rule: go_shuffle.induct)
  case (1 rnd xs)
  then show ?case by simp
next
  case (2 rnd i xs)
  have "rnd (Suc (Suc i)) < Suc (Suc i)"
    using "2.prems"(1) by (simp add: rand_ok_def)
  moreover have "Suc i < length xs" using "2.prems"(2) by simp
  ultimately have "mset (swap (Suc i) (rnd (Suc (Suc i))) xs) = mset xs"
    by (intro mset_swap_list) simp_all
  with "2.IH" "2.prems" show ?case by simp
qed

lemma getMediaFileIndexByID_Some:
  assumes "getMediaFileIndexByID i q = Some k"
  shows "k < length (q_Items q)" and "mf_ID (q_Items q ! k) = i"
  using find_index_Some assms by (auto simp: getMediaFileIndexByID_def)

lemma Queue_Current_reindexed:
  assumes "m \<in> set (q_Items q)" and "inj_on mf_ID (set (q_Items q))"
  shows "Queue_Current (reindex (mf_ID m) q) = Inr (Some m)"
proof (cases "getMediaFileIndexByID (mf_ID m) q")
  case None
  with assms(1) show ?thesis by (auto simp: getMediaFileIndexByID_def find_index_None)
next
  case (Some k)
  note found = getMediaFileIndexByID_Some [OF Some]
  then have "q_Items q ! k = m"
    using assms by (auto intro: inj_onD)
  with Some found show ?thesis by (simp add: reindex_def Queue_Current_Some)
qed

lemma q_Items_reindex [simp]: "q_Items (reindex i q) = q_Items q"
  by (simp add: reindex_def split: option.split)

lemma Queue_Remove_keeps:
  assumes cur: "Queue_Current q = Inr (Some m)" and d: "distinct (map mf_ID (q_Items q))"
    and idx: "0 \<le> idx" "idx < Queue_Size q" "idx \<noteq> q_Index q"
    and q': "Queue_Remove idx q = Inr q'"
  shows "Queue_Current q' = Inr (Some m)"
proof -
  let ?xs = "q_Items q" let ?i = "nat idx" let ?c = "nat (q_Index q)"
  let ?ys = "remove_nth ?i ?xs"
  from cur have c: "?c < length ?xs" "m = ?xs ! ?c" by (auto simp: Queue_Current_Some)
  have i: "?i < length ?xs" "?i \<noteq> ?c"
    using idx cur by (auto simp: Queue_Size_def Queue_Current_Some)
  let ?j = "if ?c < ?i then ?c else ?c - 1"
  have "?j < length ?xs - 1" using c(1) i by auto
  moreover have "?ys ! ?j = m"
  proof (cases "?c < ?i")
    case True
    then have "?c < length ?xs - 1" using i(1) by linarith
    with True c i show ?thesis by (subst nth_remove_nth) simp_all
  next
    case False
    with i(2) obtain k where "?c = Suc k" "?i \<le> k" by (cases ?c) auto
    with c i show ?thesis by (simp add: nth_remove_nth)
  qed
  ultimately have "m \<in> set ?ys" by (metis i(1) length_remove_nth nth_mem)
  moreover have "inj_on mf_ID (set ?ys)"
    using d set_remove_nth_subset [of ?i ?xs] by (auto simp: distinct_map intro: inj_on_subset)
  ultimately show ?thesis
    using q' cur idx
      Queue_Current_reindexed [of m "q\<lparr>q_Items := ?ys\<rparr>"]
    by (auto simp: Queue_Remove_def backup_id_def Queue_Size_def split: if_splits)
qed

lemma Queue_Remove_current:
  assumes cur: "Queue_Current q = Inr (Some m)" and d: "distinct (map mf_ID (q_Items q))"
    and q': "Queue_Remove (q_Index q) q = Inr q'"
  shows "q_Index q' = -1"
proof -
  let ?xs = "q_Items q" let ?c = "nat (q_Index q)"
  from cur have c: "?c < length ?xs" "m = ?xs ! ?c" "0 \<le> q_Index q" by (auto simp: Queue_Current_Some)
  have "mf_ID m \<notin> set (remove_nth ?c (map mf_ID ?xs))"
    using nth_notin_remove_nth [OF d, of ?c] c by simp
  then have "\<forall>x \<in> set (remove_nth ?c ?xs). mf_ID x \<noteq> mf_ID m"
    by (metis imageI list.set_map remove_nth_map)
  then have "getMediaFileIndexByID (mf_ID m) (q\<lparr>q_Items := remove_nth ?c ?xs\<rparr>) = None"
    by (simp add: getMediaFileIndexByID_def find_index_None)
  with q' cur c show ?thesis
    by (auto simp: Queue_Remove_def reindex_def backup_id_def split: if_splits)
qed

lemma Queue_Shuffle_result:
  assumes rnd: "rand_ok rnd" and q': "Queue_Shuffle rnd q = Inr q'"
  shows "mset (q_Items q') = mset (q_Items q)"
proof -
  have "q_Items q = [] \<or> length (q_Items q) - 1 < length (q_Items q)" by (cases "q_Items q") auto
  then have "mset (go_shuffle rnd (length (q_Items q) - 1) (q_Items q)) = mset (q_Items q)"
    using mset_go_shuffle [OF rnd, of "length (q_Items q) - 1" "q_Items q"] by auto
  with q' show ?thesis
    by (auto simp: Queue_Shuffle_def split: sum.splits)
qed

lemma Queue_Shuffle_keeps:
  assumes rnd: "rand_ok rnd" and d: "distinct (map mf_ID (q_Items q))"
    and cur: "Queue_Current q = Inr (Some m)" and q': "Queue_Shuffle rnd q = Inr q'"
  shows "Queue_Current q' = Inr (Some m)"
proof -
  let ?ys = "go_shuffle rnd (length (q_Items q) - 1) (q_Items q)"
  from cur have "m \<in> set (q_Items q)" by (auto simp: Queue_Current_Some)
  moreover from q' have "q_Items q' = ?ys"
    by (auto simp: Queue_Shuffle_def split: sum.splits)
  ultimately have "m \<in> set ?ys" "set ?ys = set (q_Items q)"
    using Queue_Shuffle_result [OF rnd q'] by (metis set_mset_mset)+
  with d q' cur Queue_Current_reindexed [of m "q\<lparr>q_Items := ?ys\<rparr>"] show ?thesis
    by (auto simp: Queue_Shuffle_def backup_id_def distinct_map)
qed

section \<open>Properties\<close>

text \<open>
  With distinct IDs, removing the item at a valid index deletes exactly that item;
  the current track stays the current track, and if it was the one removed there is no current
  track afterwards.
\<close>

lemma Queue_Remove_correct:
  assumes "Queue_Current q = Inr (Some m)" and "distinct (map mf_ID (q_Items q))"
    and "0 \<le> idx" and "idx < Queue_Size q"
  shows "\<exists>q'. Queue_Remove idx q = Inr q' \<and> q_Items q' = remove_nth (nat idx) (q_Items q) \<and>
           Queue_Current q' = Inr (if idx = q_Index q then None else Some m)"
proof -
  define q' where "q' = reindex (mf_ID m) (q\<lparr>q_Items := remove_nth (nat idx) (q_Items q)\<rparr>)"
  have q': "Queue_Remove idx q = Inr q'" "q_Items q' = remove_nth (nat idx) (q_Items q)"
    using assms by (simp_all add: q'_def Queue_Remove_def Queue_Size_def backup_id_def)
  show ?thesis
  proof (cases "idx = q_Index q")
    case True
    have "q_Index q' = -1"
      using assms(1,2) q'(1) [unfolded True] by (rule Queue_Remove_current)
    then have "Queue_Current q' = Inr None" by (simp add: Queue_Current_def)
    with True q' show ?thesis by auto
  next
    case False
    with Queue_Remove_keeps [OF assms False q'(1)] q' show ?thesis by auto
  qed
qed

lemma Queue_Remove_correct_witness:
  "let a = zero_MediaFile\<lparr>mf_ID := ''a''\<rparr>; b = zero_MediaFile\<lparr>mf_ID := ''b''\<rparr>;
       q = \<lparr>q_Index = 1, q_Items = [a, b]\<rparr>
   in \<exists>q'. Queue_Remove 0 q = Inr q' \<and> Queue_Current q' = Inr (Some b)"
proof -
  let ?b = "zero_MediaFile\<lparr>mf_ID := ''b''\<rparr>"
  let ?q = "\<lparr>q_Index = 1, q_Items = [zero_MediaFile\<lparr>mf_ID := ''a''\<rparr>, ?b]\<rparr>"
  have "Queue_Current ?q = Inr (Some ?b)" by (simp add: Queue_Current_def)
  from Queue_Remove_correct [OF this, of 0] show ?thesis by (auto simp: Queue_Size_def)
qed

text \<open>
  Shuffling, whatever numbers the generator returns within its bounds, permutes the
  items, never panics on a well-formed queue and, with distinct IDs, keeps the current track.
\<close>

lemma Queue_Shuffle_correct:
  assumes "rand_ok rnd" and "queue_inv q"
  shows "\<exists>q'. Queue_Shuffle rnd q = Inr q' \<and> mset (q_Items q') = mset (q_Items q) \<and> queue_inv q' \<and>
           (\<forall>m. Queue_Current q = Inr (Some m) \<longrightarrow> distinct (map mf_ID (q_Items q)) \<longrightarrow>
                Queue_Current q' = Inr (Some m))"
proof -
  obtain q' where q': "Queue_Shuffle rnd q = Inr q'"
    using Queue_Shuffle_total [OF assms(2)] by blast
  with Queue_Shuffle_result [OF assms(1) q'] Queue_Shuffle_inv [OF q']
    Queue_Shuffle_keeps [OF assms(1) _ _ q'] show ?thesis by blast
qed

lemma Queue_Shuffle_correct_witness:
  "let q = \<lparr>q_Index = 0, q_Items = [zero_MediaFile\<lparr>mf_ID := ''a''\<rparr>, zero_MediaFile\<lparr>mf_ID := ''b''\<rparr>]\<rparr>
   in \<exists>q'. Queue_Shuffle (\<lambda>n. 0) q = Inr q' \<and> Queue_Current q' = Queue_Current q"
proof -
  let ?a = "zero_MediaFile\<lparr>mf_ID := ''a''\<rparr>"
  let ?q = "\<lparr>q_Index = 0, q_Items = [?a, zero_MediaFile\<lparr>mf_ID := ''b''\<rparr>]\<rparr>"
  have "Queue_Current ?q = Inr (Some ?a)" by (simp add: Queue_Current_def)
  moreover have "rand_ok (\<lambda>n. 0)" "queue_inv ?q" by (simp_all add: rand_ok_def inv_defs)
  ultimately show ?thesis using Queue_Shuffle_correct [of "\<lambda>n. 0" ?q] by auto
qed

text \<open>
  When a track occurs twice, removing another item makes the first occurrence the
  current one, because the position is found again by ID: the queue a, b, a at its third item is at
  its first after item 1 is removed.
\<close>

lemma Queue_Remove_duplicate_jumps:
  "let a = zero_MediaFile\<lparr>mf_ID := ''a''\<rparr>; b = zero_MediaFile\<lparr>mf_ID := ''b''\<rparr>
   in Queue_Remove 1 \<lparr>q_Index = 2, q_Items = [a, b, a]\<rparr> = Inr \<lparr>q_Index = 0, q_Items = [a, a]\<rparr>"
  by (simp add: Let_def Queue_Remove_def Queue_Current_def reindex_def remove_nth_def
      getMediaFileIndexByID_def backup_id_def)

end
