(* ===== verification/Playback_Device.thy ===== *)
theory Playback_Device
  imports Playback_Queue
begin

text \<open>
  The jukebox device, \<open>core/playback/device.go\<close>, and the mpv track it drives,
  \<open>core/playback/mpv/track.go\<close>.

  The device talks to its track through the Go interface \<open>Track\<close>. In the model the interface is a
  record of operations, an argument of every device command: \<open>tk_New\<close> is \<open>mpv.NewTrack\<close> (it can
  fail), the others are the methods. Each command takes its own record, so successive calls may
  answer differently, as a process on the other side of a socket does. Commands return the reported
  status, the error (\<open>None\<close> is nil) and the device after the call; a panic of the runtime is \<open>Inl\<close>.
  \<open>pd_Calls\<close> is a history of the tracks opened and closed, which the code does not keep: it makes
  "no mpv process is left behind" a statement about the state.
\<close>

section \<open>The state\<close>

record 'tr TrackOps =
  tk_New :: "string \<Rightarrow> MediaFile \<Rightarrow> string + 'tr"
  tk_IsPlaying :: "'tr \<Rightarrow> bool"
  tk_SetVolume :: "rat \<Rightarrow> 'tr \<Rightarrow> 'tr"
  tk_Pause :: "'tr \<Rightarrow> 'tr"
  tk_Unpause :: "'tr \<Rightarrow> 'tr"
  tk_Position :: "'tr \<Rightarrow> int"
  tk_SetPosition :: "int \<Rightarrow> 'tr \<Rightarrow> string option \<times> 'tr"

datatype track_call = Opened | Closed

record 'tr playbackDevice =
  pd_Name :: string
  pd_DeviceName :: string
  pd_PlaybackQueue :: Queue
  pd_Gain :: rat
  pd_ActiveTrack :: "'tr option"
  pd_TrackSwitcher :: bool
  pd_Calls :: "track_call list"

record DeviceStatus =
  ds_CurrentIndex :: int
  ds_Playing :: bool
  ds_Gain :: rat
  ds_Position :: int

datatype device_error =
    MediaFileError string
  | NoCurrentTrack
  | TrackError string
  | PositionError string

type_synonym 'tr command = "go_panic + DeviceStatus \<times> device_error option \<times> 'tr playbackDevice"

section \<open>The commands\<close>

definition DefaultGain :: rat where "DefaultGain = 1"

definition zero_DeviceStatus :: DeviceStatus where
  "zero_DeviceStatus = \<lparr>ds_CurrentIndex = 0, ds_Playing = False, ds_Gain = 0, ds_Position = 0\<rparr>"

definition isPlaying :: "'tr TrackOps \<Rightarrow> 'tr playbackDevice \<Rightarrow> bool" where
  "isPlaying ops pd = (case pd_ActiveTrack pd of None \<Rightarrow> False | Some t \<Rightarrow> tk_IsPlaying ops t)"

definition getStatus :: "'tr TrackOps \<Rightarrow> 'tr playbackDevice \<Rightarrow> DeviceStatus" where
  "getStatus ops pd =
     \<lparr>ds_CurrentIndex = q_Index (pd_PlaybackQueue pd),
      ds_Playing = isPlaying ops pd,
      ds_Gain = pd_Gain pd,
      ds_Position = (case pd_ActiveTrack pd of None \<Rightarrow> 0 | Some t \<Rightarrow> tk_Position ops t)\<rparr>"

definition NewPlaybackDevice :: "string \<Rightarrow> string \<Rightarrow> 'tr playbackDevice" where
  "NewPlaybackDevice name deviceName =
     \<lparr>pd_Name = name, pd_DeviceName = deviceName, pd_PlaybackQueue = NewQueue,
      pd_Gain = DefaultGain, pd_ActiveTrack = None, pd_TrackSwitcher = False, pd_Calls = []\<rparr>"

definition close_track :: "'tr playbackDevice \<Rightarrow> 'tr playbackDevice" where
  "close_track pd = pd\<lparr>pd_ActiveTrack := None, pd_Calls := pd_Calls pd @ [Closed]\<rparr>"

definition switchActiveTrackByIndex ::
    "'tr TrackOps \<Rightarrow> int \<Rightarrow> 'tr playbackDevice \<Rightarrow> go_panic + device_error option \<times> 'tr playbackDevice"
where
  "switchActiveTrackByIndex ops index pd =
     (let pd' = pd\<lparr>pd_PlaybackQueue := Queue_SetIndex index (pd_PlaybackQueue pd)\<rparr> in
      case Queue_Current (pd_PlaybackQueue pd') of
        Inl p \<Rightarrow> Inl p
      | Inr None \<Rightarrow> Inr (Some NoCurrentTrack, pd')
      | Inr (Some currentTrack) \<Rightarrow>
          (case tk_New ops (pd_DeviceName pd') currentTrack of
             Inl e \<Rightarrow> Inr (Some (TrackError e), pd')
           | Inr track \<Rightarrow>
               Inr (None, pd'\<lparr>pd_ActiveTrack := Some (tk_SetVolume ops (pd_Gain pd') track),
                             pd_Calls := pd_Calls pd' @ [Opened]\<rparr>)))"

definition unpause_active :: "'tr TrackOps \<Rightarrow> 'tr playbackDevice \<Rightarrow> 'tr playbackDevice" where
  "unpause_active ops pd = pd\<lparr>pd_ActiveTrack := map_option (tk_Unpause ops) (pd_ActiveTrack pd)\<rparr>"

definition pause_active :: "'tr TrackOps \<Rightarrow> 'tr playbackDevice \<Rightarrow> 'tr playbackDevice" where
  "pause_active ops pd = pd\<lparr>pd_ActiveTrack := map_option (tk_Pause ops) (pd_ActiveTrack pd)\<rparr>"

definition Device_Get ::
    "'tr TrackOps \<Rightarrow> 'tr playbackDevice \<Rightarrow> MediaFile list \<times> DeviceStatus \<times> device_error option" where
  "Device_Get ops pd = (Queue_Get (pd_PlaybackQueue pd), getStatus ops pd, None)"

definition Device_Status :: "'tr TrackOps \<Rightarrow> 'tr playbackDevice \<Rightarrow> DeviceStatus \<times> device_error option" where
  "Device_Status ops pd = (getStatus ops pd, None)"

definition Device_Start :: "'tr TrackOps \<Rightarrow> 'tr playbackDevice \<Rightarrow> 'tr command" where
  "Device_Start ops pd0 =
     (let pd = pd0\<lparr>pd_TrackSwitcher := True\<rparr> in
      if pd_ActiveTrack pd \<noteq> None then
        (if isPlaying ops pd then Inr (getStatus ops pd, None, pd)
         else let pd' = unpause_active ops pd in Inr (getStatus ops pd', None, pd'))
      else if \<not> Queue_IsEmpty (pd_PlaybackQueue pd) then
        (case switchActiveTrackByIndex ops (q_Index (pd_PlaybackQueue pd)) pd of
           Inl p \<Rightarrow> Inl p
         | Inr (Some e, pd') \<Rightarrow> Inr (getStatus ops pd', Some e, pd')
         | Inr (None, pd') \<Rightarrow>
             if pd_ActiveTrack pd' = None then Inl NilDereference
             else let pd'' = unpause_active ops pd' in Inr (getStatus ops pd'', None, pd''))
      else Inr (getStatus ops pd, None, pd))"

definition Device_Stop :: "'tr TrackOps \<Rightarrow> 'tr playbackDevice \<Rightarrow> 'tr command" where
  "Device_Stop ops pd = (let pd' = pause_active ops pd in Inr (getStatus ops pd', None, pd'))"

definition seek_and_restart ::
    "'tr TrackOps \<Rightarrow> bool \<Rightarrow> int \<Rightarrow> 'tr playbackDevice \<Rightarrow> 'tr command" where
  "seek_and_restart ops wasPlaying offset pd =
     (case pd_ActiveTrack pd of
        None \<Rightarrow> Inl NilDereference
      | Some t \<Rightarrow>
          (case tk_SetPosition ops offset t of
             (Some e, t') \<Rightarrow>
               let pd' = pd\<lparr>pd_ActiveTrack := Some t'\<rparr>
               in Inr (getStatus ops pd', Some (PositionError e), pd')
           | (None, t') \<Rightarrow>
               let pd' = pd\<lparr>pd_ActiveTrack := Some t'\<rparr>
               in if wasPlaying then
                    (case Device_Start ops pd' of
                       Inl p \<Rightarrow> Inl p
                     | Inr (_, Some e, pd'') \<Rightarrow> Inr (getStatus ops pd'', Some e, pd'')
                     | Inr (_, None, pd'') \<Rightarrow> Inr (getStatus ops pd'', None, pd''))
                  else Inr (getStatus ops pd', None, pd')))"

definition Device_Skip :: "'tr TrackOps \<Rightarrow> int \<Rightarrow> int \<Rightarrow> 'tr playbackDevice \<Rightarrow> 'tr command" where
  "Device_Skip ops index offset pd =
     (let wasPlaying = isPlaying ops pd;
          pd1 = (if pd_ActiveTrack pd \<noteq> None \<and> wasPlaying then pause_active ops pd else pd);
          pd2 = (if index \<noteq> q_Index (pd_PlaybackQueue pd1) \<and> pd_ActiveTrack pd1 \<noteq> None
                 then close_track pd1 else pd1)
      in if pd_ActiveTrack pd2 = None then
           (case switchActiveTrackByIndex ops index pd2 of
              Inl p \<Rightarrow> Inl p
            | Inr (Some e, pd3) \<Rightarrow> Inr (getStatus ops pd3, Some e, pd3)
            | Inr (None, pd3) \<Rightarrow> seek_and_restart ops wasPlaying offset pd3)
         else seek_and_restart ops wasPlaying offset pd2)"

text \<open>\<open>getMF\<close> is \<open>PlaybackServer.GetMediaFile\<close>, a query of the data store.\<close>

fun load_items :: "(string \<Rightarrow> string + MediaFile) \<Rightarrow> string list \<Rightarrow> string + MediaFile list" where
  "load_items getMF [] = Inr []"
| "load_items getMF (i # is) =
     (case getMF i of
        Inl e \<Rightarrow> Inl e
      | Inr mf \<Rightarrow> (case load_items getMF is of Inl e \<Rightarrow> Inl e | Inr mfs \<Rightarrow> Inr (mf # mfs)))"

definition Device_Add ::
    "'tr TrackOps \<Rightarrow> (string \<Rightarrow> string + MediaFile) \<Rightarrow> string list \<Rightarrow> 'tr playbackDevice \<Rightarrow> 'tr command"
where
  "Device_Add ops getMF ids pd =
     (if length ids < 1 then Inr (getStatus ops pd, None, pd)
      else case load_items getMF ids of
             Inl e \<Rightarrow> Inr (zero_DeviceStatus, Some (MediaFileError e), pd)
           | Inr items \<Rightarrow>
               let pd' = pd\<lparr>pd_PlaybackQueue := Queue_Add items (pd_PlaybackQueue pd)\<rparr>
               in Inr (getStatus ops pd', None, pd'))"

definition Device_Clear :: "'tr TrackOps \<Rightarrow> 'tr playbackDevice \<Rightarrow> 'tr command" where
  "Device_Clear ops pd =
     (let pd1 = (if pd_ActiveTrack pd \<noteq> None then close_track (pause_active ops pd) else pd);
          pd2 = pd1\<lparr>pd_PlaybackQueue := Queue_Clear (pd_PlaybackQueue pd1)\<rparr>
      in Inr (getStatus ops pd2, None, pd2))"

definition Device_Set ::
    "'tr TrackOps \<Rightarrow> (string \<Rightarrow> string + MediaFile) \<Rightarrow> string list \<Rightarrow> 'tr playbackDevice \<Rightarrow> 'tr command"
where
  "Device_Set ops getMF ids pd =
     (case Device_Clear ops pd of
        Inl p \<Rightarrow> Inl p
      | Inr (_, Some e, pd') \<Rightarrow> Inr (getStatus ops pd', Some e, pd')
      | Inr (_, None, pd') \<Rightarrow> Device_Add ops getMF ids pd')"

definition Device_Remove :: "'tr TrackOps \<Rightarrow> int \<Rightarrow> 'tr playbackDevice \<Rightarrow> 'tr command" where
  "Device_Remove ops index pd =
     (let pd1 = (if isPlaying ops pd \<and> q_Index (pd_PlaybackQueue pd) = index
                 then pause_active ops pd else pd)
      in if index > -1 \<and> index < Queue_Size (pd_PlaybackQueue pd1) then
           (case Queue_Remove index (pd_PlaybackQueue pd1) of
              Inl p \<Rightarrow> Inl p
            | Inr q \<Rightarrow> let pd2 = pd1\<lparr>pd_PlaybackQueue := q\<rparr> in Inr (getStatus ops pd2, None, pd2))
         else Inr (getStatus ops pd1, None, pd1))"

definition Device_Shuffle :: "'tr TrackOps \<Rightarrow> (nat \<Rightarrow> nat) \<Rightarrow> 'tr playbackDevice \<Rightarrow> 'tr command" where
  "Device_Shuffle ops rnd pd =
     (if Queue_Size (pd_PlaybackQueue pd) > 1 then
        (case Queue_Shuffle rnd (pd_PlaybackQueue pd) of
           Inl p \<Rightarrow> Inl p
         | Inr q \<Rightarrow> let pd' = pd\<lparr>pd_PlaybackQueue := q\<rparr> in Inr (getStatus ops pd', None, pd'))
      else Inr (getStatus ops pd, None, pd))"

definition Device_SetGain :: "'tr TrackOps \<Rightarrow> rat \<Rightarrow> 'tr playbackDevice \<Rightarrow> 'tr command" where
  "Device_SetGain ops gain pd =
     (let pd' = pd\<lparr>pd_ActiveTrack := map_option (tk_SetVolume ops gain) (pd_ActiveTrack pd),
                  pd_Gain := gain\<rparr>
      in Inr (getStatus ops pd', None, pd'))"

text \<open>One round of \<open>trackSwitcherGoroutine\<close>: what it does with a signal on \<open>PlaybackDone\<close>.\<close>

definition track_done :: "'tr TrackOps \<Rightarrow> 'tr playbackDevice \<Rightarrow> go_panic + 'tr playbackDevice" where
  "track_done ops pd =
     (let pd1 = (if pd_ActiveTrack pd \<noteq> None then close_track pd else pd)
      in if \<not> IsAtLastElement (pd_PlaybackQueue pd1) then
           (let pd2 = pd1\<lparr>pd_PlaybackQueue := IncreaseIndex (pd_PlaybackQueue pd1)\<rparr>
            in case switchActiveTrackByIndex ops (q_Index (pd_PlaybackQueue pd2)) pd2 of
                 Inl p \<Rightarrow> Inl p
               | Inr (_, pd3) \<Rightarrow> Inr (unpause_active ops pd3))
         else Inr pd1)"

section \<open>The invariant of the device\<close>

definition open_tracks :: "track_call list \<Rightarrow> int" where
  "open_tracks calls = int (count_list calls Opened) - int (count_list calls Closed)"

definition device_inv :: "'tr playbackDevice \<Rightarrow> bool" where
  "device_inv pd \<longleftrightarrow>
     queue_inv (pd_PlaybackQueue pd) \<and>
     open_tracks (pd_Calls pd) = (if pd_ActiveTrack pd = None then 0 else 1)"

lemma open_tracks_Nil [simp]: "open_tracks [] = 0"
  by (simp add: open_tracks_def)

lemma open_tracks_snoc [simp]:
  "open_tracks (calls @ [Opened]) = open_tracks calls + 1"
  "open_tracks (calls @ [Closed]) = open_tracks calls - 1"
  by (simp_all add: open_tracks_def)

lemma device_inv_new: "device_inv (NewPlaybackDevice name dn)"
  by (simp add: device_inv_def NewPlaybackDevice_def NewQueue_inv)

lemma device_inv_queue:
  "device_inv pd \<Longrightarrow> queue_inv q \<Longrightarrow> device_inv (pd\<lparr>pd_PlaybackQueue := q\<rparr>)"
  by (simp add: device_inv_def)

lemma device_inv_queueD: "device_inv pd \<Longrightarrow> queue_inv (pd_PlaybackQueue pd)"
  by (simp add: device_inv_def)

lemma device_inv_switcher [simp]:
  "device_inv (pd\<lparr>pd_TrackSwitcher := b\<rparr>) = device_inv pd"
  by (simp add: device_inv_def)

lemma device_inv_unpause [simp]: "device_inv (unpause_active ops pd) = device_inv pd"
  by (simp add: device_inv_def unpause_active_def)

lemma device_inv_pause [simp]: "device_inv (pause_active ops pd) = device_inv pd"
  by (simp add: device_inv_def pause_active_def)

lemma active_pause [simp]:
  "pd_ActiveTrack (pause_active ops pd) = map_option (tk_Pause ops) (pd_ActiveTrack pd)"
  by (simp add: pause_active_def)

lemma device_inv_close:
  "device_inv pd \<Longrightarrow> pd_ActiveTrack pd \<noteq> None \<Longrightarrow> device_inv (close_track pd)"
  by (simp add: device_inv_def close_track_def)

lemma active_close [simp]: "pd_ActiveTrack (close_track pd) = None"
  by (simp add: close_track_def)

lemma switchActiveTrackByIndex_inv:
  assumes "device_inv pd" and "pd_ActiveTrack pd = None"
  shows "\<exists>e pd'. switchActiveTrackByIndex ops index pd = Inr (e, pd') \<and> device_inv pd' \<and>
           (e = None \<longleftrightarrow> pd_ActiveTrack pd' \<noteq> None)"
proof -
  let ?q = "Queue_SetIndex index (pd_PlaybackQueue pd)"
  let ?pd = "pd\<lparr>pd_PlaybackQueue := ?q\<rparr>"
  obtain cur where cur: "Queue_Current ?q = Inr cur"
    using Queue_Current_no_panic [OF Queue_SetIndex_inv] by blast
  have inv: "device_inv ?pd" using assms(1) Queue_SetIndex_inv by (rule device_inv_queue)
  then have opened: "device_inv (?pd\<lparr>pd_ActiveTrack := Some t, pd_Calls := pd_Calls pd @ [Opened]\<rparr>)" for t
    using assms(2) by (simp add: device_inv_def)
  show ?thesis
  proof (cases cur)
    case None
    with cur inv assms(2) show ?thesis by (simp add: switchActiveTrackByIndex_def)
  next
    case (Some m)
    with cur inv opened assms(2) show ?thesis
      by (cases "tk_New ops (pd_DeviceName pd) m") (simp_all add: switchActiveTrackByIndex_def)
  qed
qed

lemma Device_Start_keeps:
  assumes "device_inv pd"
  shows "\<exists>st e pd'. Device_Start ops pd = Inr (st, e, pd') \<and> device_inv pd'"
proof -
  let ?pd = "pd\<lparr>pd_TrackSwitcher := True\<rparr>"
  have inv: "device_inv ?pd" using assms by simp
  show ?thesis
  proof (cases "pd_ActiveTrack pd")
    case None
    then have "pd_ActiveTrack ?pd = None" by simp
    from switchActiveTrackByIndex_inv [OF inv this, of ops "q_Index (pd_PlaybackQueue pd)"]
    show ?thesis using inv None
      by (auto simp: Device_Start_def Let_def split: option.splits)
  next
    case (Some t)
    with inv show ?thesis by (auto simp: Device_Start_def Let_def)
  qed
qed

lemma seek_and_restart_keeps:
  assumes "device_inv pd" and "pd_ActiveTrack pd \<noteq> None"
  shows "\<exists>st e pd'. seek_and_restart ops w offset pd = Inr (st, e, pd') \<and> device_inv pd'"
proof -
  from assms(2) obtain t where t: "pd_ActiveTrack pd = Some t" by blast
  obtain err t' where pos: "tk_SetPosition ops offset t = (err, t')" by fastforce
  have inv: "device_inv (pd\<lparr>pd_ActiveTrack := Some t'\<rparr>)"
    using assms(1) t by (simp add: device_inv_def)
  from Device_Start_keeps [OF inv, of ops] obtain st e pd' where
    "Device_Start ops (pd\<lparr>pd_ActiveTrack := Some t'\<rparr>) = Inr (st, e, pd')" "device_inv pd'" by blast
  with t pos inv show ?thesis
    by (cases e) (auto simp: seek_and_restart_def Let_def split: option.splits)
qed

lemma Device_Skip_keeps:
  assumes "device_inv pd"
  shows "\<exists>st e pd'. Device_Skip ops index offset pd = Inr (st, e, pd') \<and> device_inv pd'"
proof -
  let ?w = "isPlaying ops pd"
  define pd1 where "pd1 = (if pd_ActiveTrack pd \<noteq> None \<and> ?w then pause_active ops pd else pd)"
  define pd2 where "pd2 = (if index \<noteq> q_Index (pd_PlaybackQueue pd1) \<and> pd_ActiveTrack pd1 \<noteq> None
                           then close_track pd1 else pd1)"
  have "device_inv pd1" using assms by (simp add: pd1_def)
  then have inv2: "device_inv pd2" by (simp add: pd2_def device_inv_close)
  have skip: "Device_Skip ops index offset pd =
      (if pd_ActiveTrack pd2 = None then
         (case switchActiveTrackByIndex ops index pd2 of
            Inl p \<Rightarrow> Inl p
          | Inr (Some e, pd3) \<Rightarrow> Inr (getStatus ops pd3, Some e, pd3)
          | Inr (None, pd3) \<Rightarrow> seek_and_restart ops ?w offset pd3)
       else seek_and_restart ops ?w offset pd2)"
    by (simp only: Device_Skip_def Let_def pd1_def pd2_def)
  show ?thesis
  proof (cases "pd_ActiveTrack pd2 = None")
    case True
    from switchActiveTrackByIndex_inv [OF inv2 True, of ops index] obtain e pd3 where
      sw: "switchActiveTrackByIndex ops index pd2 = Inr (e, pd3)" "device_inv pd3"
        "e = None \<longleftrightarrow> pd_ActiveTrack pd3 \<noteq> None" by blast
    with True seek_and_restart_keeps [OF sw(2), of ops ?w offset] show ?thesis
      by (cases e) (simp_all add: skip)
  next
    case False
    from seek_and_restart_keeps [OF inv2 False] show ?thesis by (simp only: skip False if_False)
  qed
qed

lemma Device_Remove_keeps:
  assumes "device_inv pd"
  shows "\<exists>st e pd'. Device_Remove ops index pd = Inr (st, e, pd') \<and> device_inv pd'"
proof -
  define pd1 where "pd1 = (if isPlaying ops pd \<and> q_Index (pd_PlaybackQueue pd) = index
                           then pause_active ops pd else pd)"
  have inv: "device_inv pd1" using assms by (simp add: pd1_def)
  then have "queue_inv (pd_PlaybackQueue pd1)" by (simp add: device_inv_def)
  from Queue_Remove_total [OF this, of index] Queue_Remove_inv inv show ?thesis
    unfolding Device_Remove_def Let_def pd1_def [symmetric]
    by (cases "index > -1 \<and> index < Queue_Size (pd_PlaybackQueue pd1)")
      (auto intro!: device_inv_queue)
qed

lemma Device_Shuffle_keeps:
  assumes "device_inv pd"
  shows "\<exists>st e pd'. Device_Shuffle ops rnd pd = Inr (st, e, pd') \<and> device_inv pd'"
proof -
  have "queue_inv (pd_PlaybackQueue pd)" using assms by (simp add: device_inv_def)
  from Queue_Shuffle_total [OF this, of rnd] Queue_Shuffle_inv assms show ?thesis
    by (auto simp: Device_Shuffle_def Let_def intro!: device_inv_queue)
qed

lemma Device_Add_keeps:
  "device_inv pd \<Longrightarrow> \<exists>st e pd'. Device_Add ops getMF ids pd = Inr (st, e, pd') \<and> device_inv pd'"
  by (cases "load_items getMF ids")
    (simp_all add: Device_Add_def Let_def device_inv_queue Queue_Add_inv device_inv_queueD)

lemma Device_Clear_keeps:
  "device_inv pd \<Longrightarrow> \<exists>st pd'. Device_Clear ops pd = Inr (st, None, pd') \<and> device_inv pd'"
  by (cases "pd_ActiveTrack pd")
    (simp_all add: Device_Clear_def Let_def device_inv_queue device_inv_close Queue_Clear_inv)

lemma Device_Set_keeps:
  assumes "device_inv pd"
  shows "\<exists>st e pd'. Device_Set ops getMF ids pd = Inr (st, e, pd') \<and> device_inv pd'"
  using Device_Clear_keeps [OF assms, of ops] Device_Add_keeps
  by (fastforce simp: Device_Set_def)

text \<open>
  The contract all commands share: from a good state a command does not panic and leaves a good
  state. It is stated once and interpreted for each command.
\<close>

locale device_command =
  fixes cmd :: "'tr playbackDevice \<Rightarrow> 'tr command"
  assumes keeps: "device_inv pd \<Longrightarrow> \<exists>st e pd'. cmd pd = Inr (st, e, pd') \<and> device_inv pd'"
begin

lemma no_panic: "device_inv pd \<Longrightarrow> cmd pd \<noteq> Inl p"
  using keeps by fastforce

lemma result_inv: "device_inv pd \<Longrightarrow> cmd pd = Inr (st, e, pd') \<Longrightarrow> device_inv pd'"
  using keeps by fastforce

end

interpretation start_cmd: device_command "Device_Start ops" for ops
  by unfold_locales (rule Device_Start_keeps)

interpretation stop_cmd: device_command "Device_Stop ops" for ops
  by unfold_locales (simp add: Device_Stop_def Let_def)

interpretation skip_cmd: device_command "Device_Skip ops index offset" for ops index offset
  by unfold_locales (rule Device_Skip_keeps)

interpretation add_cmd: device_command "Device_Add ops getMF ids" for ops getMF ids
  by unfold_locales (rule Device_Add_keeps)

interpretation clear_cmd: device_command "Device_Clear ops" for ops
  by unfold_locales (use Device_Clear_keeps in blast)

interpretation set_cmd: device_command "Device_Set ops getMF ids" for ops getMF ids
  by unfold_locales (rule Device_Set_keeps)

interpretation remove_cmd: device_command "Device_Remove ops index" for ops index
  by unfold_locales (rule Device_Remove_keeps)

interpretation shuffle_cmd: device_command "Device_Shuffle ops rnd" for ops rnd
  by unfold_locales (rule Device_Shuffle_keeps)

interpretation gain_cmd: device_command "Device_SetGain ops gain" for ops gain
  by unfold_locales (simp add: Device_SetGain_def Let_def device_inv_def)

lemma track_done_keeps:
  assumes "device_inv pd"
  shows "\<exists>pd'. track_done ops pd = Inr pd' \<and> device_inv pd'"
proof -
  define pd1 where "pd1 = (if pd_ActiveTrack pd \<noteq> None then close_track pd else pd)"
  have inv1: "device_inv pd1" and none1: "pd_ActiveTrack pd1 = None"
    using assms by (simp_all add: pd1_def device_inv_close)
  let ?pd2 = "pd1\<lparr>pd_PlaybackQueue := IncreaseIndex (pd_PlaybackQueue pd1)\<rparr>"
  have inv2: "device_inv ?pd2" and none2: "pd_ActiveTrack ?pd2 = None"
    using inv1 none1 by (simp_all add: device_inv_def IncreaseIndex_inv)
  from switchActiveTrackByIndex_inv [OF inv2 none2, of ops "q_Index (pd_PlaybackQueue ?pd2)"] inv1
  show ?thesis
    unfolding track_done_def pd1_def [symmetric] Let_def by auto
qed

section \<open>Runs of the device\<close>

text \<open>One step is a command or, once the goroutine runs, the end of a track.\<close>

inductive device_step :: "'tr playbackDevice \<Rightarrow> 'tr playbackDevice \<Rightarrow> bool" where
  start: "Device_Start ops pd = Inr (st, e, pd') \<Longrightarrow> device_step pd pd'"
| stop: "Device_Stop ops pd = Inr (st, e, pd') \<Longrightarrow> device_step pd pd'"
| skip: "Device_Skip ops index offset pd = Inr (st, e, pd') \<Longrightarrow> device_step pd pd'"
| add: "Device_Add ops getMF ids pd = Inr (st, e, pd') \<Longrightarrow> device_step pd pd'"
| clear: "Device_Clear ops pd = Inr (st, e, pd') \<Longrightarrow> device_step pd pd'"
| set: "Device_Set ops getMF ids pd = Inr (st, e, pd') \<Longrightarrow> device_step pd pd'"
| remove: "Device_Remove ops index pd = Inr (st, e, pd') \<Longrightarrow> device_step pd pd'"
| shuffle: "Device_Shuffle ops rnd pd = Inr (st, e, pd') \<Longrightarrow> device_step pd pd'"
| gain: "Device_SetGain ops g pd = Inr (st, e, pd') \<Longrightarrow> device_step pd pd'"
| track_done: "pd_TrackSwitcher pd \<Longrightarrow> track_done ops pd = Inr pd' \<Longrightarrow> device_step pd pd'"

inductive device_reachable :: "'tr playbackDevice \<Rightarrow> bool" where
  new: "device_reachable (NewPlaybackDevice name dn)"
| step: "device_reachable pd \<Longrightarrow> device_step pd pd' \<Longrightarrow> device_reachable pd'"

lemmas command_invs =
  start_cmd.result_inv stop_cmd.result_inv skip_cmd.result_inv add_cmd.result_inv
  clear_cmd.result_inv set_cmd.result_inv remove_cmd.result_inv shuffle_cmd.result_inv
  gain_cmd.result_inv

lemma device_step_inv: "device_step pd pd' \<Longrightarrow> device_inv pd \<Longrightarrow> device_inv pd'"
proof (induction rule: device_step.induct)
  case (track_done pd ops pd')
  then show ?case using track_done_keeps [of pd ops] by auto
qed (blast intro: command_invs)+

lemma device_reachable_inv: "device_reachable pd \<Longrightarrow> device_inv pd"
  by (induction rule: device_reachable.induct) (blast intro: device_inv_new device_step_inv)+

section \<open>What a finished track does\<close>

lemma IncreaseIndex_next:
  "\<not> IsAtLastElement q \<Longrightarrow> queue_inv q \<Longrightarrow> IncreaseIndex q = q\<lparr>q_Index := q_Index q + 1\<rparr>"
  by (auto simp: IncreaseIndex_def IsAtLastElement_def Queue_SetIndex_def inv_defs)

lemma SetIndex_in_range:
  "0 \<le> i \<Longrightarrow> i < int (length (q_Items q)) \<Longrightarrow> Queue_SetIndex i q = q\<lparr>q_Index := i\<rparr>"
  by (simp add: Queue_SetIndex_def)

section \<open>Properties\<close>


definition bool_ops :: "bool TrackOps" where
  "bool_ops = \<lparr>tk_New = (\<lambda>_ _. Inr False), tk_IsPlaying = id, tk_SetVolume = (\<lambda>_ t. t),
              tk_Pause = (\<lambda>_. False), tk_Unpause = (\<lambda>_. True), tk_Position = (\<lambda>_. 0),
              tk_SetPosition = (\<lambda>_ t. (None, t))\<rparr>"

definition song :: "string \<Rightarrow> MediaFile" where
  "song i = zero_MediaFile\<lparr>mf_ID := i\<rparr>"

definition two_songs :: "bool playbackDevice" where
  "two_songs = (NewPlaybackDevice ''jukebox'' ''auto'')
     \<lparr>pd_PlaybackQueue := \<lparr>q_Index = 0, q_Items = [song ''a'', song ''b'']\<rparr>,
      pd_TrackSwitcher := True, pd_ActiveTrack := Some True, pd_Calls := [Opened]\<rparr>"

lemma two_songs_reachable: "device_reachable two_songs"
proof -
  let ?new = "NewPlaybackDevice ''jukebox'' ''auto'' :: bool playbackDevice"
  let ?q = "\<lparr>q_Index = 0, q_Items = [song ''a'', song ''b'']\<rparr>"
  let ?loaded = "?new\<lparr>pd_PlaybackQueue := ?q\<rparr>"
  have "Device_Add bool_ops (\<lambda>i. Inr (song i)) [''a'', ''b''] ?new =
          Inr (getStatus bool_ops ?loaded, None, ?loaded)"
    by (simp add: Device_Add_def NewPlaybackDevice_def NewQueue_def Queue_Add_def Let_def)
  then have "device_step ?new ?loaded" by (rule device_step.add)
  moreover have "Device_Start bool_ops ?loaded = Inr (getStatus bool_ops two_songs, None, two_songs)"
    by (simp add: Device_Start_def NewPlaybackDevice_def two_songs_def Queue_IsEmpty_def
        switchActiveTrackByIndex_def Queue_SetIndex_def Queue_Current_def bool_ops_def
        unpause_active_def Let_def)
  then have "device_step ?loaded two_songs" by (rule device_step.start)
  ultimately show ?thesis by (blast intro: device_reachable.intros)
qed


text \<open>
  When a track ends, the device closes it and, unless it was the last of the queue,
  moves to the next index and plays that item; the queue is otherwise unchanged. After the last
  item the device is idle and the queue keeps its position.
\<close>

lemma track_done_advances:
  assumes "device_reachable pd"
  shows "if IsAtLastElement (pd_PlaybackQueue pd)
         then \<exists>pd'. track_done ops pd = Inr pd' \<and> pd_ActiveTrack pd' = None \<and>
                pd_PlaybackQueue pd' = pd_PlaybackQueue pd
         else \<exists>pd'. track_done ops pd = Inr pd' \<and>
                pd_PlaybackQueue pd' = (pd_PlaybackQueue pd)\<lparr>q_Index := q_Index (pd_PlaybackQueue pd) + 1\<rparr> \<and>
                pd_ActiveTrack pd' =
                  (case tk_New ops (pd_DeviceName pd)
                          (q_Items (pd_PlaybackQueue pd) ! nat (q_Index (pd_PlaybackQueue pd) + 1)) of
                     Inl _ \<Rightarrow> None
                   | Inr t \<Rightarrow> Some (tk_Unpause ops (tk_SetVolume ops (pd_Gain pd) t)))"
proof -
  let ?q = "pd_PlaybackQueue pd"
  have inv: "queue_inv ?q" using device_reachable_inv [OF assms] by (rule device_inv_queueD)
  define pd1 where "pd1 = (if pd_ActiveTrack pd \<noteq> None then close_track pd else pd)"
  have pd1: "pd_ActiveTrack pd1 = None" "pd_PlaybackQueue pd1 = ?q" "pd_Gain pd1 = pd_Gain pd"
    "pd_DeviceName pd1 = pd_DeviceName pd" by (auto simp: pd1_def close_track_def)
  have done_def: "track_done ops pd =
      (if \<not> IsAtLastElement (pd_PlaybackQueue pd1) then
         (let pd2 = pd1\<lparr>pd_PlaybackQueue := IncreaseIndex (pd_PlaybackQueue pd1)\<rparr>
          in case switchActiveTrackByIndex ops (q_Index (pd_PlaybackQueue pd2)) pd2 of
               Inl p \<Rightarrow> Inl p
             | Inr (_, pd3) \<Rightarrow> Inr (unpause_active ops pd3))
       else Inr pd1)"
    by (simp only: track_done_def pd1_def Let_def)
  show ?thesis
  proof (cases "IsAtLastElement ?q")
    case True
    with pd1 show ?thesis by (simp add: done_def)
  next
    case False
    then have range: "0 \<le> q_Index ?q + 1" "q_Index ?q + 1 < int (length (q_Items ?q))"
      using inv by (auto simp: IsAtLastElement_def inv_defs)
    then have "Queue_Current (?q\<lparr>q_Index := q_Index ?q + 1\<rparr>) = Inr (Some (q_Items ?q ! nat (q_Index ?q + 1)))"
      by (simp add: Queue_Current_Some)
    with False pd1 range show ?thesis
      by (simp add: done_def Let_def IncreaseIndex_next [OF False inv]
          switchActiveTrackByIndex_def SetIndex_in_range unpause_active_def split: sum.split)
  qed
qed

lemma track_done_advances_witness:
  "\<exists>pd'. track_done bool_ops two_songs = Inr pd' \<and> q_Index (pd_PlaybackQueue pd') = 1 \<and>
     pd_ActiveTrack pd' = Some True"
  using track_done_advances [OF two_songs_reachable, of bool_ops]
  by (auto simp: two_songs_def IsAtLastElement_def NewPlaybackDevice_def bool_ops_def)

text \<open>
  \<open>Set\<close> always empties the queue and closes the active track first: after it, no track is
  active whatever was playing, and when one ID cannot be loaded the queue is left empty. (The
  comment on \<open>Set\<close> says it does not change the currently playing track.)
\<close>

lemma Device_Set_stops_current:
  assumes "Device_Set ops getMF ids pd = Inr (st, e, pd')"
  shows "pd_ActiveTrack pd' = None \<and>
         (case load_items getMF ids of
            Inl err \<Rightarrow> e = Some (MediaFileError err) \<and> q_Items (pd_PlaybackQueue pd') = []
          | Inr items \<Rightarrow> e = None \<and> q_Items (pd_PlaybackQueue pd') = items \<and>
              q_Index (pd_PlaybackQueue pd') = (if items = [] then -1 else 0))"
proof -
  have "pd_ActiveTrack pd = None \<or> pd_ActiveTrack pd \<noteq> None" by blast
  moreover have "load_items getMF [] = Inr []" by simp
  ultimately show ?thesis using assms
    by (cases "load_items getMF ids"; cases "pd_ActiveTrack pd"; cases ids)
      (auto simp: Device_Set_def Device_Clear_def Device_Add_def Queue_Clear_def Queue_Add_def
        Let_def close_track_def)
qed

lemma Device_Set_stops_current_witness:
  "case Device_Set bool_ops (\<lambda>i. Inr (song i)) [''c''] two_songs of
     Inr (st, e, pd') \<Rightarrow> pd_ActiveTrack pd' = None \<and> q_Items (pd_PlaybackQueue pd') = [song ''c'']
   | Inl p \<Rightarrow> False"
proof -
  obtain st e pd' where "Device_Set bool_ops (\<lambda>i. Inr (song i)) [''c''] two_songs = Inr (st, e, pd')"
    using set_cmd.keeps [OF device_reachable_inv [OF two_songs_reachable]] by blast
  with Device_Set_stops_current [OF this] show ?thesis by simp
qed

end
