(* ===== verification/Stream_Codec.thy ===== *)
theory Stream_Codec
  imports Media_Model
begin

text \<open>
  Names of codecs and containers: \<open>core/stream/codec.go\<close> (what a codec can carry) and
  \<open>core/stream/aliases.go\<close> (which names mean the same format).
\<close>

section \<open>Codec facts\<close>

definition normalizeProbeCodec :: "string \<Rightarrow> string" where
  "normalizeProbeCodec codec =
     (let c = go_lower codec in
      if has_prefix c ''dsd'' then ''dsd''
      else if has_prefix c ''pcm_'' then ''pcm''
      else c)"

definition isLosslessFormat :: "string \<Rightarrow> bool" where
  "isLosslessFormat format =
     (go_lower format \<in> {''flac'', ''alac'', ''wav'', ''aiff'', ''ape'', ''wv'', ''wavpack'', ''tta'',
                          ''tak'', ''shn'', ''dsd'', ''pcm''})"

definition normalizeSourceSampleRate :: "int \<Rightarrow> string \<Rightarrow> int" where
  "normalizeSourceSampleRate sampleRate codec =
     (if equal_fold codec ''dsd'' \<and> sampleRate > 0 then sampleRate div 8 else sampleRate)"

definition targetBitDepth :: "int \<Rightarrow> string \<Rightarrow> bool \<Rightarrow> int" where
  "targetBitDepth srcBitDepth srcCodec targetIsLossless =
     (if \<not> targetIsLossless then 0
      else if equal_fold srcCodec ''dsd'' \<and> srcBitDepth = 1 then 24
      else srcBitDepth)"

definition codecFixedOutputSampleRate :: "string \<Rightarrow> int" where
  "codecFixedOutputSampleRate codec = (if go_lower codec = ''opus'' then 48000 else 0)"

definition codecMaxSampleRate :: "string \<Rightarrow> int" where
  "codecMaxSampleRate codec =
     (if go_lower codec = ''mp3'' then 48000
      else if go_lower codec = ''aac'' then 96000
      else 0)"

definition codecMaxChannels :: "string \<Rightarrow> int" where
  "codecMaxChannels codec =
     (if go_lower codec = ''mp3'' then 2
      else if go_lower codec = ''opus'' then 8
      else 0)"

section \<open>Aliases\<close>

text \<open>
  The maps are filled by a double loop over groups of names; the first name of a group is its
  canonical name. A lookup of a name in no group gives the zero value, the empty string.
\<close>

type_synonym aliases = "string \<rightharpoonup> string"

fun add_group :: "aliases \<Rightarrow> string \<Rightarrow> string list \<Rightarrow> aliases" where
  "add_group m canonical [] = m"
| "add_group m canonical (name # names) = add_group (m(name \<mapsto> canonical)) canonical names"

fun build_aliases :: "aliases \<Rightarrow> string list list \<Rightarrow> aliases" where
  "build_aliases m [] = m"
| "build_aliases m (g # gs) = build_aliases (add_group m (hd g) g) gs"

definition containerAliasGroups :: aliases where
  "containerAliasGroups = build_aliases Map.empty
     [[''aac'', ''adts'', ''m4a'', ''mp4'', ''m4b'', ''m4p''],
      [''mpeg'', ''mp3'', ''mp2''],
      [''ogg'', ''oga'', ''opus''],
      [''aif'', ''aiff''],
      [''asf'', ''wma''],
      [''mpc'', ''mpp''],
      [''wv'']]"

definition codecAliasGroups :: aliases where
  "codecAliasGroups = build_aliases Map.empty
     [[''aac'', ''adts''],
      [''ac3'', ''ac-3''],
      [''eac3'', ''e-ac3'', ''e-ac-3'', ''eac-3''],
      [''mpc7'', ''musepack7''],
      [''mpc8'', ''musepack8''],
      [''wma1'', ''wmav1''],
      [''wma2'', ''wmav2''],
      [''wmalossless'', ''wma9lossless''],
      [''wmapro'', ''wma9pro''],
      [''shn'', ''shorten''],
      [''mp4als'', ''als'']]"

definition alias_of :: "aliases \<Rightarrow> string \<Rightarrow> string" where
  "alias_of m name = (case m name of None \<Rightarrow> '''' | Some c \<Rightarrow> c)"

fun match_candidates :: "string \<Rightarrow> string \<Rightarrow> string list \<Rightarrow> aliases \<Rightarrow> bool" where
  "match_candidates value canonical [] aliases = False"
| "match_candidates value canonical (c # cs) aliases =
     (if go_lower c = value then True
      else if canonical \<noteq> '''' \<and> alias_of aliases (go_lower c) = canonical then True
      else match_candidates value canonical cs aliases)"

definition matchesWithAliases :: "string \<Rightarrow> string list \<Rightarrow> aliases \<Rightarrow> bool" where
  "matchesWithAliases value candidates aliases =
     (let v = go_lower value in match_candidates v (alias_of aliases v) candidates aliases)"

definition matchesContainer :: "string \<Rightarrow> string list \<Rightarrow> bool" where
  "matchesContainer suffix containers = matchesWithAliases suffix containers containerAliasGroups"

definition matchesCodec :: "string \<Rightarrow> string list \<Rightarrow> bool" where
  "matchesCodec codec codecs = matchesWithAliases codec codecs codecAliasGroups"

definition IsAACCodec :: "string \<Rightarrow> bool" where
  "IsAACCodec name = (matchesCodec name [''aac''] \<or> matchesContainer name [''aac''])"

definition containsIgnoreCase :: "string list \<Rightarrow> string \<Rightarrow> bool" where
  "containsIgnoreCase slice s = list_ex (\<lambda>item. equal_fold item s) slice"

section \<open>Lemmas\<close>

text \<open>Two names mean the same format under an alias map.\<close>

definition same_format :: "aliases \<Rightarrow> string \<Rightarrow> string \<Rightarrow> bool" where
  "same_format m a b \<longleftrightarrow>
     go_lower a = go_lower b \<or>
     alias_of m (go_lower a) \<noteq> '''' \<and> alias_of m (go_lower a) = alias_of m (go_lower b)"

lemma matchesWithAliases_iff:
  "matchesWithAliases v cs m \<longleftrightarrow> (\<exists>c \<in> set cs. same_format m v c)"
proof -
  have "match_candidates (go_lower v) (alias_of m (go_lower v)) cs m \<longleftrightarrow> (\<exists>c \<in> set cs. same_format m v c)"
    by (induction cs) (auto simp: same_format_def)
  then show ?thesis by (simp add: matchesWithAliases_def)
qed

lemma same_format_refl [simp]: "same_format m a a"
  by (simp add: same_format_def)

lemma same_format_sym: "same_format m a b \<Longrightarrow> same_format m b a"
  by (auto simp: same_format_def)

lemma same_format_trans: "same_format m a b \<Longrightarrow> same_format m b c \<Longrightarrow> same_format m a c"
  by (auto simp: same_format_def)

lemma same_format_lower [simp]:
  "same_format m (go_lower a) b = same_format m a b"
  "same_format m a (go_lower b) = same_format m a b"
  by (simp_all add: same_format_def)

lemma matchesCodec_single: "matchesCodec a [b] = same_format codecAliasGroups a b"
  by (simp add: matchesCodec_def matchesWithAliases_iff)

lemma matchesContainer_single: "matchesContainer a [b] = same_format containerAliasGroups a b"
  by (simp add: matchesContainer_def matchesWithAliases_iff)

lemma containsIgnoreCase_iff: "containsIgnoreCase xs s \<longleftrightarrow> (\<exists>x \<in> set xs. equal_fold x s)"
  by (simp add: containsIgnoreCase_def list_ex_iff)

lemma isLosslessFormat_lower [simp]: "isLosslessFormat (go_lower s) = isLosslessFormat s"
  by (simp add: isLosslessFormat_def)

lemma codec_limits_nonneg [simp]:
  "0 \<le> codecMaxSampleRate c" "0 \<le> codecMaxChannels c" "0 \<le> codecFixedOutputSampleRate c"
  by (simp_all add: codecMaxSampleRate_def codecMaxChannels_def codecFixedOutputSampleRate_def)

lemma normalizeSourceSampleRate_le:
  "0 \<le> r \<Longrightarrow> normalizeSourceSampleRate r c \<le> r \<and> 0 \<le> normalizeSourceSampleRate r c"
  by (auto simp: normalizeSourceSampleRate_def)

section \<open>Properties\<close>

text \<open>
  Matching a name against a list of names is matching one of them, and for both
  tables, of containers and of codecs, "is accepted for" is an equivalence of names that ignores
  case: it is reflexive, symmetric and transitive.
\<close>

lemma matches_is_equivalence:
  "(matchesContainer v cs \<longleftrightarrow> (\<exists>c \<in> set cs. matchesContainer v [c])) \<and>
   (matchesCodec v cs \<longleftrightarrow> (\<exists>c \<in> set cs. matchesCodec v [c])) \<and>
   equivp (\<lambda>a b. matchesContainer a [b]) \<and> equivp (\<lambda>a b. matchesCodec a [b]) \<and>
   matchesContainer (go_lower v) cs = matchesContainer v cs \<and>
   matchesCodec (go_lower v) cs = matchesCodec v cs"
proof -
  have "equivp (same_format m)" for m
    by (rule equivpI) (auto intro: reflpI sympI transpI same_format_sym same_format_trans)
  then show ?thesis
    by (auto simp: matchesContainer_single matchesCodec_single matchesContainer_def matchesCodec_def
        matchesWithAliases_iff)
qed

text \<open>
  The names that resolve to AAC are exactly those of the AAC groups, in any case;
  in particular an MP4 container counts and the ALAC codec does not.
\<close>

lemma IsAACCodec_iff:
  "IsAACCodec name \<longleftrightarrow>
   go_lower name \<in> {''aac'', ''adts'', ''m4a'', ''mp4'', ''m4b'', ''m4p''}"
  by (auto simp: IsAACCodec_def matchesCodec_single matchesContainer_single same_format_def
      alias_of_def containerAliasGroups_def codecAliasGroups_def go_lower_def to_lower_char_def byte_def)

end
