(* ===== verification/Stream_Limits.thy ===== *)
theory Stream_Limits
  imports Stream_Codec
begin

text \<open>
  Codec limitations a client declares, \<open>core/stream/limitations.go\<close>, on the types of
  \<open>core/stream/types.go\<close>. The setter closures of the code become returned values: a limitation
  returns its result and, when it adjusts, the value it sets.
\<close>

record Limitation =
  lim_Name :: string
  lim_Comparison :: string
  lim_Values :: "string list"
  lim_Required :: bool

record Details =
  d_Container :: string
  d_Codec :: string
  d_Profile :: string
  d_Bitrate :: int
  d_SampleRate :: int
  d_BitDepth :: int
  d_Channels :: int
  d_Duration :: rat
  d_Size :: int
  d_IsLossless :: bool

abbreviation "ComparisonEquals \<equiv> ''Equals''"
abbreviation "ComparisonNotEquals \<equiv> ''NotEquals''"
abbreviation "ComparisonLessThanEqual \<equiv> ''LessThanEqual''"
abbreviation "ComparisonGreaterThanEqual \<equiv> ''GreaterThanEqual''"
abbreviation "LimitationAudioChannels \<equiv> ''audioChannels''"
abbreviation "LimitationAudioBitrate \<equiv> ''audioBitrate''"
abbreviation "LimitationAudioProfile \<equiv> ''audioProfile''"
abbreviation "LimitationAudioSamplerate \<equiv> ''audioSamplerate''"
abbreviation "LimitationAudioBitdepth \<equiv> ''audioBitdepth''"

datatype adjustResult = adjustNone | adjustAdjusted | adjustCannotFit

definition parseInt :: "string \<Rightarrow> int option" where
  "parseInt s = (case atoi s of None \<Rightarrow> None | Some v \<Rightarrow> if v < 0 then None else Some v)"

fun any_equal :: "int \<Rightarrow> string list \<Rightarrow> bool" where
  "any_equal current [] = False"
| "any_equal current (v # vs) =
     (case parseInt v of
        Some limit \<Rightarrow> if current = limit then True else any_equal current vs
      | None \<Rightarrow> any_equal current vs)"

text \<open>The second loop of \<open>Equals\<close>; the accumulator is \<open>closest\<close> once \<open>found\<close>.\<close>

fun closest_below :: "int \<Rightarrow> string list \<Rightarrow> int option \<Rightarrow> int option" where
  "closest_below current [] closest = closest"
| "closest_below current (v # vs) closest =
     (case parseInt v of
        Some limit \<Rightarrow>
          if limit < current
          then closest_below current vs
                 (case closest of None \<Rightarrow> Some limit
                                | Some c \<Rightarrow> if limit > c then Some limit else Some c)
          else closest_below current vs closest
      | None \<Rightarrow> closest_below current vs closest)"

definition applyIntLimitation :: "string \<Rightarrow> string list \<Rightarrow> int \<Rightarrow> adjustResult \<times> int option" where
  "applyIntLimitation comparison values current =
     (case values of
        [] \<Rightarrow> (adjustNone, None)
      | v0 # _ \<Rightarrow>
          if comparison = ComparisonLessThanEqual then
            (case parseInt v0 of
               None \<Rightarrow> (adjustNone, None)
             | Some limit \<Rightarrow> if current \<le> limit then (adjustNone, None) else (adjustAdjusted, Some limit))
          else if comparison = ComparisonGreaterThanEqual then
            (case parseInt v0 of
               None \<Rightarrow> (adjustNone, None)
             | Some limit \<Rightarrow> if current \<ge> limit then (adjustNone, None) else (adjustCannotFit, None))
          else if comparison = ComparisonEquals then
            (if any_equal current values then (adjustNone, None)
             else case closest_below current values None of
                    Some c \<Rightarrow> (adjustAdjusted, Some c)
                  | None \<Rightarrow> (adjustCannotFit, None))
          else if comparison = ComparisonNotEquals then
            (if any_equal current values then (adjustCannotFit, None) else (adjustNone, None))
          else (adjustNone, None))"

definition checkIntLimitation :: "int \<Rightarrow> string \<Rightarrow> string list \<Rightarrow> bool" where
  "checkIntLimitation value comparison values = (fst (applyIntLimitation comparison values value) = adjustNone)"

definition checkStringLimitation :: "string \<Rightarrow> string \<Rightarrow> string list \<Rightarrow> bool" where
  "checkStringLimitation value comparison values =
     (if comparison = ComparisonEquals then list_ex (\<lambda>v. equal_fold value v) values
      else if comparison = ComparisonNotEquals then \<not> list_ex (\<lambda>v. equal_fold value v) values
      else True)"

text \<open>One limitation against a stream: its outcome and reason; \<open>None\<close> is the \<open>continue\<close>.\<close>

definition check_one :: "Details \<Rightarrow> Limitation \<Rightarrow> (bool \<times> string) option" where
  "check_one src lm =
     (if lim_Name lm = LimitationAudioChannels then
        Some (checkIntLimitation (d_Channels src) (lim_Comparison lm) (lim_Values lm), ''audio channels not supported'')
      else if lim_Name lm = LimitationAudioSamplerate then
        Some (checkIntLimitation (d_SampleRate src) (lim_Comparison lm) (lim_Values lm), ''audio samplerate not supported'')
      else if lim_Name lm = LimitationAudioBitrate then
        Some (checkIntLimitation (d_Bitrate src) (lim_Comparison lm) (lim_Values lm), ''audio bitrate not supported'')
      else if lim_Name lm = LimitationAudioBitdepth then
        Some (checkIntLimitation (d_BitDepth src) (lim_Comparison lm) (lim_Values lm), ''audio bitdepth not supported'')
      else if lim_Name lm = LimitationAudioProfile then
        Some (checkStringLimitation (d_Profile src) (lim_Comparison lm) (lim_Values lm), ''audio profile not supported'')
      else None)"

fun checkLimitations :: "Details \<Rightarrow> Limitation list \<Rightarrow> string" where
  "checkLimitations src [] = ''''"
| "checkLimitations src (lm # lims) =
     (case check_one src lm of
        None \<Rightarrow> checkLimitations src lims
      | Some (ok, reason) \<Rightarrow>
          if \<not> ok \<and> lim_Required lm then reason else checkLimitations src lims)"

definition applyLimitation :: "int \<Rightarrow> Limitation \<Rightarrow> Details \<Rightarrow> adjustResult \<times> Details" where
  "applyLimitation sourceBitrate lm ts =
     (if lim_Name lm = LimitationAudioChannels then
        (case applyIntLimitation (lim_Comparison lm) (lim_Values lm) (d_Channels ts) of
           (r, None) \<Rightarrow> (r, ts) | (r, Some v) \<Rightarrow> (r, ts\<lparr>d_Channels := v\<rparr>))
      else if lim_Name lm = LimitationAudioBitrate then
        (case applyIntLimitation (lim_Comparison lm) (lim_Values lm)
                (if d_Bitrate ts = 0 then sourceBitrate else d_Bitrate ts) of
           (r, None) \<Rightarrow> (r, ts) | (r, Some v) \<Rightarrow> (r, ts\<lparr>d_Bitrate := v\<rparr>))
      else if lim_Name lm = LimitationAudioSamplerate then
        (case applyIntLimitation (lim_Comparison lm) (lim_Values lm) (d_SampleRate ts) of
           (r, None) \<Rightarrow> (r, ts) | (r, Some v) \<Rightarrow> (r, ts\<lparr>d_SampleRate := v\<rparr>))
      else if lim_Name lm = LimitationAudioBitdepth \<and> d_BitDepth ts > 0 then
        (case applyIntLimitation (lim_Comparison lm) (lim_Values lm) (d_BitDepth ts) of
           (r, None) \<Rightarrow> (r, ts) | (r, Some v) \<Rightarrow> (r, ts\<lparr>d_BitDepth := v\<rparr>))
      else (adjustNone, ts))"

section \<open>A reference for integer limitations\<close>

text \<open>The numbers a list of values allows, and what a comparison demands of a value.\<close>

definition allowed :: "string list \<Rightarrow> int set" where
  "allowed values = {n. \<exists>v \<in> set values. parseInt v = Some n}"

definition satisfies :: "string \<Rightarrow> string list \<Rightarrow> int \<Rightarrow> bool" where
  "satisfies comparison values x \<longleftrightarrow>
     values = [] \<or>
     (if comparison = ComparisonLessThanEqual then
        (case parseInt (hd values) of None \<Rightarrow> True | Some limit \<Rightarrow> x \<le> limit)
      else if comparison = ComparisonGreaterThanEqual then
        (case parseInt (hd values) of None \<Rightarrow> True | Some limit \<Rightarrow> limit \<le> x)
      else if comparison = ComparisonEquals then x \<in> allowed values
      else if comparison = ComparisonNotEquals then x \<notin> allowed values
      else True)"

lemma parseInt_nonneg: "parseInt s = Some n \<Longrightarrow> 0 \<le> n"
  by (auto simp: parseInt_def split: option.splits if_splits)

lemma allowed_Nil [simp]: "allowed [] = {}"
  by (simp add: allowed_def)

lemma allowed_Cons:
  "allowed (v # vs) = (case parseInt v of None \<Rightarrow> allowed vs | Some n \<Rightarrow> insert n (allowed vs))"
  by (auto simp: allowed_def split: option.split)

lemma finite_allowed: "finite (allowed vs)"
  by (induction vs) (simp_all add: allowed_Cons split: option.split)

lemma any_equal_iff: "any_equal x vs \<longleftrightarrow> x \<in> allowed vs"
  by (induction vs) (auto simp: allowed_Cons split: option.split)

lemma closest_below_acc:
  "closest_below x vs acc =
     (let below = {n \<in> allowed vs. n < x} \<union> set_option acc
      in if below = {} then None else Some (Max below))"
proof (induction vs arbitrary: acc)
  case Nil
  show ?case by (cases acc) simp_all
next
  case (Cons v vs)
  show ?case
  proof (cases "parseInt v")
    case None
    then show ?thesis by (simp add: Cons.IH allowed_Cons)
  next
    case (Some n)
    let ?A = "{k \<in> allowed vs. k < x}"
    have fin: "finite ?A" using finite_allowed by simp
    have ins: "{k \<in> allowed (v # vs). k < x} = (if n < x then insert n ?A else ?A)"
      using Some by (auto simp: allowed_Cons)
    have acc': "Max (insert (max n c) ?A) = Max (insert n (insert c ?A))" for c
      using fin by (rule Max_insert_max)
    show ?thesis
    proof (cases "n < x")
      case True
      have "(if n > c then Some n else Some c) = Some (max n c)" for c by (simp add: max_def)
      with True Some acc' show ?thesis
        by (cases acc) (simp_all add: Cons.IH ins Let_def Un_insert_right insert_commute)
    next
      case False
      with Some show ?thesis by (simp add: Cons.IH ins)
    qed
  qed
qed

lemma closest_below_None: "closest_below x vs None = None \<longleftrightarrow> (\<forall>n \<in> allowed vs. \<not> n < x)"
  by (auto simp: closest_below_acc Let_def)

lemma closest_below_Some:
  assumes "closest_below x vs None = Some c"
  shows "c \<in> allowed vs" and "c < x" and "\<And>n. n \<in> allowed vs \<Longrightarrow> n < x \<Longrightarrow> n \<le> c"
proof -
  let ?A = "{n \<in> allowed vs. n < x}"
  have "?A \<noteq> {}" and c: "c = Max ?A"
    using assms by (auto simp: closest_below_acc Let_def split: if_splits)
  moreover have "finite ?A" using finite_allowed by simp
  ultimately have "c \<in> ?A" using Max_in by blast
  then show "c \<in> allowed vs" "c < x" by auto
  show "\<And>n. n \<in> allowed vs \<Longrightarrow> n < x \<Longrightarrow> n \<le> c" using c \<open>finite ?A\<close> by simp
qed

text \<open>
  The three outcomes of an integer limitation: the value is fine; it is lowered to the greatest
  value that satisfies the limitation; no value at or below it does.
\<close>

lemma applyIntLimitation_None:
  "applyIntLimitation cmp vs x = (adjustNone, w) \<Longrightarrow> satisfies cmp vs x \<and> w = None"
  by (auto simp: applyIntLimitation_def satisfies_def any_equal_iff split: list.splits option.splits if_splits)

lemma applyIntLimitation_Adjusted:
  assumes "applyIntLimitation cmp vs x = (adjustAdjusted, w)"
  shows "\<exists>v. w = Some v \<and> v < x \<and> 0 \<le> v \<and> satisfies cmp vs v \<and> \<not> satisfies cmp vs x \<and>
           (\<forall>n. satisfies cmp vs n \<longrightarrow> n < x \<longrightarrow> n \<le> v)"
proof -
  obtain v0 vs' where vs: "vs = v0 # vs'"
    using assms by (cases vs) (auto simp: applyIntLimitation_def)
  consider "cmp = ComparisonLessThanEqual" | "cmp = ComparisonEquals"
    using assms by (auto simp: applyIntLimitation_def vs split: option.splits if_splits)
  then show ?thesis
  proof cases
    case 1
    with assms obtain limit where "parseInt v0 = Some limit" "limit < x" "w = Some limit"
      by (auto simp: applyIntLimitation_def vs split: option.splits if_splits)
    with 1 show ?thesis by (simp add: vs satisfies_def parseInt_nonneg)
  next
    case 2
    with assms obtain c where c: "closest_below x vs None = Some c" "w = Some c" "x \<notin> allowed vs"
      by (auto simp: applyIntLimitation_def vs any_equal_iff simp del: closest_below.simps any_equal.simps
          split: option.splits if_splits)
    moreover have "0 \<le> c" using closest_below_Some(1) [OF c(1)] by (auto simp: allowed_def parseInt_nonneg)
    ultimately show ?thesis using 2 closest_below_Some [OF c(1)] vs by (auto simp: satisfies_def)
  qed
qed

lemma applyIntLimitation_CannotFit:
  assumes "applyIntLimitation cmp vs x = (adjustCannotFit, w)"
  shows "w = None \<and> \<not> satisfies cmp vs x \<and>
         (cmp \<noteq> ComparisonNotEquals \<longrightarrow> (\<forall>n. satisfies cmp vs n \<longrightarrow> x < n))"
proof -
  obtain v0 vs' where vs: "vs = v0 # vs'"
    using assms by (cases vs) (auto simp: applyIntLimitation_def)
  consider "cmp = ComparisonGreaterThanEqual" | "cmp = ComparisonEquals" | "cmp = ComparisonNotEquals"
    using assms by (auto simp: applyIntLimitation_def vs split: option.splits if_splits)
  then show ?thesis
  proof cases
    case 2
    with assms have "closest_below x vs None = None" "w = None" "x \<notin> allowed vs"
      by (auto simp: applyIntLimitation_def vs any_equal_iff simp del: closest_below.simps any_equal.simps
          split: option.splits if_splits)
    moreover from this have "x < n" if "n \<in> allowed vs" for n
      using that by (metis closest_below_None linorder_neqE)
    ultimately show ?thesis using 2 vs by (simp add: satisfies_def)
  qed (use assms in \<open>auto simp: applyIntLimitation_def vs satisfies_def any_equal_iff
          split: option.splits if_splits\<close>)
qed

lemma checkIntLimitation_iff: "checkIntLimitation x cmp vs \<longleftrightarrow> satisfies cmp vs x"
proof -
  obtain r w where r: "applyIntLimitation cmp vs x = (r, w)" by fastforce
  then show ?thesis
    using applyIntLimitation_None [of cmp vs x] applyIntLimitation_Adjusted [of cmp vs x]
      applyIntLimitation_CannotFit [of cmp vs x]
    by (cases r) (auto simp: checkIntLimitation_def)
qed

text \<open>What a limitation says of a stream, over the field it names.\<close>

definition lim_holds :: "Details \<Rightarrow> Limitation \<Rightarrow> bool" where
  "lim_holds src lm \<longleftrightarrow>
     (lim_Name lm = LimitationAudioChannels \<longrightarrow> satisfies (lim_Comparison lm) (lim_Values lm) (d_Channels src)) \<and>
     (lim_Name lm = LimitationAudioSamplerate \<longrightarrow> satisfies (lim_Comparison lm) (lim_Values lm) (d_SampleRate src)) \<and>
     (lim_Name lm = LimitationAudioBitrate \<longrightarrow> satisfies (lim_Comparison lm) (lim_Values lm) (d_Bitrate src)) \<and>
     (lim_Name lm = LimitationAudioBitdepth \<longrightarrow> satisfies (lim_Comparison lm) (lim_Values lm) (d_BitDepth src)) \<and>
     (lim_Name lm = LimitationAudioProfile \<longrightarrow> checkStringLimitation (d_Profile src) (lim_Comparison lm) (lim_Values lm))"

lemma check_one_holds:
  "lim_holds src lm \<longleftrightarrow> (case check_one src lm of None \<Rightarrow> True | Some (ok, reason) \<Rightarrow> ok)"
  by (auto simp: lim_holds_def check_one_def checkIntLimitation_iff)

lemma check_one_reason: "check_one src lm = Some (ok, reason) \<Longrightarrow> reason \<noteq> ''''"
  by (auto simp: check_one_def split: if_splits)

lemma checkLimitations_ok_iff:
  "checkLimitations src lims = '''' \<longleftrightarrow> (\<forall>lm \<in> set lims. lim_Required lm \<longrightarrow> lim_holds src lm)"
  by (induction lims) (auto simp: check_one_holds dest: check_one_reason split: option.splits)

text \<open>Applying a limitation only lowers values, and only the field it names.\<close>

lemma applyLimitation_lowers:
  assumes "applyLimitation sb lm ts = (r, ts')"
  shows "d_Channels ts' \<le> d_Channels ts" and "d_SampleRate ts' \<le> d_SampleRate ts"
    and "d_BitDepth ts' \<le> d_BitDepth ts"
    and "d_Codec ts' = d_Codec ts" and "d_Container ts' = d_Container ts"
    and "d_IsLossless ts' = d_IsLossless ts"
    and "r \<noteq> adjustAdjusted \<Longrightarrow> ts' = ts"
    and "d_Bitrate ts \<noteq> 0 \<Longrightarrow> d_Bitrate ts' \<le> d_Bitrate ts"
    and "lim_Name lm \<noteq> LimitationAudioBitrate \<or> r \<noteq> adjustAdjusted \<Longrightarrow> d_Bitrate ts' = d_Bitrate ts"
proof -
  have adj: "\<exists>v. w = Some v \<and> v < x" if "applyIntLimitation c vs x = (adjustAdjusted, w)" for c vs x w
    using applyIntLimitation_Adjusted [OF that] by blast
  have none: "w = None" if "applyIntLimitation c vs x = (r, w)" "r \<noteq> adjustAdjusted" for c vs x w r
    using that applyIntLimitation_None applyIntLimitation_CannotFit by (cases r) blast+
  note facts = adj none
  show "d_Channels ts' \<le> d_Channels ts" "d_SampleRate ts' \<le> d_SampleRate ts"
    "d_BitDepth ts' \<le> d_BitDepth ts"
    "d_Codec ts' = d_Codec ts" "d_Container ts' = d_Container ts" "d_IsLossless ts' = d_IsLossless ts"
    "r \<noteq> adjustAdjusted \<Longrightarrow> ts' = ts"
    "d_Bitrate ts \<noteq> 0 \<Longrightarrow> d_Bitrate ts' \<le> d_Bitrate ts"
    "lim_Name lm \<noteq> LimitationAudioBitrate \<or> r \<noteq> adjustAdjusted \<Longrightarrow> d_Bitrate ts' = d_Bitrate ts"
    using assms
    by (cases r; force simp: applyLimitation_def dest: facts split: if_splits prod.splits option.splits)+
qed

section \<open>Properties\<close>

text \<open>
  An integer limitation either leaves a value that satisfies it, or lowers the value
  to the greatest non-negative one below it that satisfies it, or reports that it cannot fit; then
  the value violates it and, unless the comparison is \<open>NotEquals\<close>, only greater values satisfy it.
  Checking a value is the same as asking whether it satisfies the limitation.
\<close>

lemma applyIntLimitation_spec:
  "(case applyIntLimitation cmp vs x of
      (adjustNone, w) \<Rightarrow> w = None \<and> satisfies cmp vs x
    | (adjustAdjusted, w) \<Rightarrow>
        (\<exists>v. w = Some v \<and> v < x \<and> 0 \<le> v \<and> satisfies cmp vs v \<and> \<not> satisfies cmp vs x \<and>
             (\<forall>n. satisfies cmp vs n \<and> n < x \<longrightarrow> n \<le> v))
    | (adjustCannotFit, w) \<Rightarrow>
        w = None \<and> \<not> satisfies cmp vs x \<and>
        (cmp = ComparisonNotEquals \<or> (\<forall>n. satisfies cmp vs n \<longrightarrow> x < n))) \<and>
   checkIntLimitation x cmp vs = satisfies cmp vs x"
proof -
  obtain r w where r: "applyIntLimitation cmp vs x = (r, w)" by fastforce
  show ?thesis
  proof (cases r)
    case adjustNone
    with r applyIntLimitation_None show ?thesis by (simp add: checkIntLimitation_iff)
  next
    case adjustAdjusted
    with applyIntLimitation_Adjusted [of cmp vs x w] r show ?thesis
      by (simp add: checkIntLimitation_iff) blast
  next
    case adjustCannotFit
    with applyIntLimitation_CannotFit [of cmp vs x w] r show ?thesis
      by (simp add: checkIntLimitation_iff) blast
  qed
qed

lemma applyIntLimitation_spec_witness:
  "applyIntLimitation ''Equals'' [''44100'', ''48000'', ''x''] 96000 = (adjustAdjusted, Some 48000) \<and>
   \<not> satisfies ''Equals'' [''44100'', ''48000'', ''x''] 96000"
proof -
  have "applyIntLimitation ''Equals'' [''44100'', ''48000'', ''x''] 96000 = (adjustAdjusted, Some 48000)"
    by (simp add: applyIntLimitation_def parseInt_def atoi_def max_int64_def is_digit_def byte_def Let_def)
  with applyIntLimitation_spec [of "''Equals''" "[''44100'', ''48000'', ''x'']" 96000]
  show ?thesis by simp
qed

end
