(* ===== verification/Stream_Decider.thy ===== *)
theory Stream_Decider
  imports Stream_Limits
begin

text \<open>
  The transcoding decision, \<open>core/stream/decider.go\<close>, with the client description of
  \<open>core/stream/types.go\<close> and the built-in transcodings of \<open>consts/consts.go\<close>.

  What the service reaches outside this code is the record \<open>decider_env\<close>: the transcoding table of
  the data store, ffprobe (whether it is available and what it reports), the JSON encoding of a probe
  result and the configuration flag for probing. Log calls are left out.
\<close>

section \<open>Types\<close>

record DirectPlayProfile =
  dp_Containers :: "string list"
  dp_AudioCodecs :: "string list"
  dp_Protocols :: "string list"
  dp_MaxAudioChannels :: int

record Profile =
  p_Container :: string
  p_AudioCodec :: string
  p_Protocol :: string
  p_MaxAudioChannels :: int

record CodecProfile =
  cp_Type :: string
  cp_Name :: string
  cp_Limitations :: "Limitation list"

record ClientInfo =
  ci_Name :: string
  ci_Platform :: string
  ci_MaxAudioBitrate :: int
  ci_MaxTranscodingAudioBitrate :: int
  ci_DirectPlayProfiles :: "DirectPlayProfile list"
  ci_TranscodingProfiles :: "Profile list"
  ci_CodecProfiles :: "CodecProfile list"

record TranscodeDecision =
  td_MediaID :: string
  td_CanDirectPlay :: bool
  td_CanTranscode :: bool
  td_TranscodeReasons :: "string list"
  td_ErrorReason :: string
  td_TargetFormat :: string
  td_TargetBitrate :: int
  td_TargetChannels :: int
  td_TargetSampleRate :: int
  td_TargetBitDepth :: int
  td_SourceStream :: Details
  td_SourceUpdatedAt :: time
  td_TranscodeStream :: "Details option"

abbreviation "ProtocolHTTP \<equiv> ''http''"
abbreviation "CodecProfileTypeAudio \<equiv> ''AudioCodec''"

record decider_env =
  env_FindByFormat :: "string \<Rightarrow> Transcoding option"
  env_IsProbeAvailable :: bool
  env_ProbeAudioStream :: "MediaFile \<Rightarrow> string + AudioProbeResult"
  env_Marshal :: "AudioProbeResult \<Rightarrow> string + string"
  env_Unmarshal :: "string \<Rightarrow> AudioProbeResult option"
  env_DevEnableMediaFileProbe :: bool

section \<open>Client limits and forced formats\<close>

definition CapBitrate :: "int \<Rightarrow> ClientInfo \<Rightarrow> bool \<times> ClientInfo" where
  "CapBitrate maxKbps ci =
     (if maxKbps \<le> 0 then (False, ci)
      else
        let c1 = (ci_MaxAudioBitrate ci = 0 \<or> maxKbps < ci_MaxAudioBitrate ci);
            ci1 = (if c1 then ci\<lparr>ci_MaxAudioBitrate := maxKbps\<rparr> else ci);
            c2 = (ci_MaxTranscodingAudioBitrate ci1 = 0 \<or> maxKbps < ci_MaxTranscodingAudioBitrate ci1);
            ci2 = (if c2 then ci1\<lparr>ci_MaxTranscodingAudioBitrate := maxKbps\<rparr> else ci1)
        in (c1 \<or> c2, ci2))"

text \<open>\<open>resolveTargetFormat\<close>: the response container and the target format.\<close>

definition resolveTargetFormat :: "Profile \<Rightarrow> string \<times> string" where
  "resolveTargetFormat profile =
     (let responseContainer = go_lower (p_Container profile);
          targetFormat = (if p_AudioCodec profile \<noteq> '''' then go_lower (p_AudioCodec profile)
                          else responseContainer)
      in if targetFormat = '''' then ('''', '''')
         else ((if responseContainer = '''' then targetFormat else responseContainer), targetFormat))"

fun force_profiles :: "string \<Rightarrow> Profile list \<Rightarrow> Profile list \<times> DirectPlayProfile list" where
  "force_profiles targetFormat [] = ([], [])"
| "force_profiles targetFormat (p # ps) =
     (let (container, format) = resolveTargetFormat p;
          (matched, directPlay) = force_profiles targetFormat ps
      in if \<not> matchesContainer format [targetFormat] then (matched, directPlay)
         else (p # matched,
               \<lparr>dp_Containers = [container], dp_AudioCodecs = [format], dp_Protocols = [ProtocolHTTP],
                dp_MaxAudioChannels = p_MaxAudioChannels p\<rparr> # directPlay))"

definition ForceFormat :: "string \<Rightarrow> ClientInfo \<Rightarrow> bool \<times> ClientInfo" where
  "ForceFormat targetFormat ci =
     (if targetFormat = '''' then (False, ci)
      else
        let (matched, directPlay) = force_profiles targetFormat (ci_TranscodingProfiles ci)
        in if matched = [] then (False, ci)
           else (True, ci\<lparr>ci_TranscodingProfiles := matched, ci_DirectPlayProfiles := directPlay\<rparr>))"

definition DirectPlayProfile_String :: "DirectPlayProfile \<Rightarrow> string" where
  "DirectPlayProfile_String p =
     (let c = join '','' (dp_Containers p);
          containers = (if c = '''' then ''*'' else c);
          codecs = join '','' (dp_AudioCodecs p)
      in if codecs = '''' then ''['' @ containers @ '']''
         else ''['' @ containers @ ''/'' @ codecs @ '']'')"

section \<open>The source stream\<close>

definition parseProbeData :: "decider_env \<Rightarrow> string \<Rightarrow> AudioProbeResult option" where
  "parseProbeData env data = (if data = '''' then None else env_Unmarshal env data)"

definition buildSourceStream :: "decider_env \<Rightarrow> MediaFile \<Rightarrow> AudioProbeResult option \<Rightarrow> Details" where
  "buildSourceStream env mf probe0 =
     (let probe = (case probe0 of None \<Rightarrow> parseProbeData env (mf_ProbeData mf) | Some p \<Rightarrow> Some p);
          sd = \<lparr>d_Container = mf_Suffix mf, d_Codec = '''', d_Profile = '''', d_Bitrate = 0, d_SampleRate = 0,
                d_BitDepth = 0, d_Channels = 0, d_Duration = mf_Duration mf, d_Size = mf_Size mf,
                d_IsLossless = False\<rparr>;
          sd' = (case probe of
                   Some p \<Rightarrow> sd\<lparr>d_Codec := normalizeProbeCodec (pr_Codec p), d_Profile := pr_Profile p,
                               d_Bitrate := pr_BitRate p, d_SampleRate := pr_SampleRate p,
                               d_BitDepth := pr_BitDepth p, d_Channels := pr_Channels p\<rparr>
                 | None \<Rightarrow> sd\<lparr>d_Codec := AudioCodec mf, d_Bitrate := mf_BitRate mf,
                              d_SampleRate := mf_SampleRate mf, d_BitDepth := gg_V (mf_BitDepth mf),
                              d_Channels := mf_Channels mf\<rparr>)
      in sd'\<lparr>d_IsLossless := isLosslessFormat (d_Codec sd')\<rparr>)"

text \<open>
  \<open>ensureProbed\<close> also stores the encoded result in the media file it was given; a failed write to the
  data store is only logged. The result is an error, or the probe result (none when there is nothing
  to do), with the media file afterwards.
\<close>

definition ensureProbed ::
    "decider_env \<Rightarrow> MediaFile \<Rightarrow> (string + AudioProbeResult option) \<times> MediaFile" where
  "ensureProbed env mf =
     (if mf_ProbeData mf \<noteq> '''' then (Inr None, mf)
      else if \<not> env_DevEnableMediaFileProbe env then (Inr None, mf)
      else case env_ProbeAudioStream env mf of
             Inl e \<Rightarrow> (Inl (''probing media file '' @ mf_ID mf @ '': '' @ e), mf)
           | Inr result \<Rightarrow>
               (case env_Marshal env result of
                  Inl e \<Rightarrow> (Inl (''marshaling probe result for '' @ mf_ID mf @ '': '' @ e), mf)
                | Inr data \<Rightarrow> (Inr (Some result), mf\<lparr>mf_ProbeData := data\<rparr>)))"

section \<open>Direct play\<close>

definition matchesPCMWAVBridge :: "Details \<Rightarrow> DirectPlayProfile \<Rightarrow> bool" where
  "matchesPCMWAVBridge src profile =
     (equal_fold (d_Codec src) ''pcm'' \<and> equal_fold (d_Container src) ''wav'' \<and>
      containsIgnoreCase (dp_AudioCodecs profile) ''wav'')"

fun check_codec_profiles :: "Details \<Rightarrow> CodecProfile list \<Rightarrow> string" where
  "check_codec_profiles src [] = ''''"
| "check_codec_profiles src (cp # cps) =
     (if equal_fold (cp_Type cp) CodecProfileTypeAudio \<and> matchesCodec (d_Codec src) [cp_Name cp] then
        (let reason = checkLimitations src (cp_Limitations cp)
         in if reason \<noteq> '''' then reason else check_codec_profiles src cps)
      else check_codec_profiles src cps)"

definition checkDirectPlayProfile :: "Details \<Rightarrow> DirectPlayProfile \<Rightarrow> ClientInfo \<Rightarrow> string" where
  "checkDirectPlayProfile src profile clientInfo =
     (if length (dp_Protocols profile) > 0 \<and> \<not> containsIgnoreCase (dp_Protocols profile) ProtocolHTTP then
        ''protocol not supported''
      else if length (dp_Containers profile) > 0 \<and> \<not> matchesContainer (d_Container src) (dp_Containers profile) then
        ''container '' @ [CHR 0x27] @ d_Container src @ [CHR 0x27] @ '' not supported by profile '' @
          DirectPlayProfile_String profile
      else if length (dp_AudioCodecs profile) > 0 \<and> \<not> matchesCodec (d_Codec src) (dp_AudioCodecs profile) \<and>
              \<not> matchesPCMWAVBridge src profile then
        ''audio codec '' @ [CHR 0x27] @ d_Codec src @ [CHR 0x27] @ '' not supported by profile '' @
          DirectPlayProfile_String profile
      else if dp_MaxAudioChannels profile > 0 \<and> d_Channels src > dp_MaxAudioChannels profile then
        ''audio channels '' @ itoa (d_Channels src) @ '' not supported by profile '' @
          DirectPlayProfile_String profile @ '' (max '' @ itoa (dp_MaxAudioChannels profile) @ '')''
      else check_codec_profiles src (ci_CodecProfiles clientInfo))"

text \<open>The loop over the direct play profiles, with the reasons collected so far.\<close>

fun try_direct_play ::
    "Details \<Rightarrow> ClientInfo \<Rightarrow> DirectPlayProfile list \<Rightarrow> string list \<Rightarrow> bool \<times> string list" where
  "try_direct_play src ci [] reasons = (False, reasons)"
| "try_direct_play src ci (profile # profiles) reasons =
     (let reason = checkDirectPlayProfile src profile ci
      in if reason = '''' then (True, []) else try_direct_play src ci profiles (reasons @ [reason]))"

section \<open>Transcoding\<close>

record default_transcoding =
  dt_Name :: string
  dt_TargetFormat :: string
  dt_DefaultBitRate :: int
  dt_Command :: string

definition DefaultTranscodings :: "default_transcoding list" where
  "DefaultTranscodings =
     [\<lparr>dt_Name = ''mp3 audio'', dt_TargetFormat = ''mp3'', dt_DefaultBitRate = 192,
       dt_Command = ''ffmpeg -ss %t -i %s -map 0:a:0 -map_metadata 0 -map_metadata 0:s:a:0 -b:a %bk -v 0 -f mp3 -''\<rparr>,
      \<lparr>dt_Name = ''opus audio'', dt_TargetFormat = ''opus'', dt_DefaultBitRate = 128,
       dt_Command = ''ffmpeg -ss %t -i %s -map 0:a:0 -map_metadata 0 -map_metadata 0:s:a:0 -b:a %bk -v 0 -c:a libopus -f opus -''\<rparr>,
      \<lparr>dt_Name = ''aac audio'', dt_TargetFormat = ''aac'', dt_DefaultBitRate = 256,
       dt_Command = ''ffmpeg -ss %t -i %s -map 0:a:0 -map_metadata 0 -map_metadata 0:s:a:0 -b:a %bk -v 0 -c:a aac -f adts -''\<rparr>,
      \<lparr>dt_Name = ''flac audio'', dt_TargetFormat = ''flac'', dt_DefaultBitRate = 0,
       dt_Command = ''ffmpeg -ss %t -i %s -map 0:a:0 -map_metadata 0 -map_metadata 0:s:a:0 -v 0 -c:a flac -f flac -''\<rparr>]"

definition fallbackBitrate :: int where "fallbackBitrate = 256"

definition lookupDefaultBitrate :: "decider_env \<Rightarrow> string \<Rightarrow> int" where
  "lookupDefaultBitrate env format =
     (let builtin = (case find (\<lambda>dt. dt_TargetFormat dt = format \<and> dt_DefaultBitRate dt > 0) DefaultTranscodings of
                       Some dt \<Rightarrow> dt_DefaultBitRate dt
                     | None \<Rightarrow> fallbackBitrate)
      in case env_FindByFormat env format of
           Some t \<Rightarrow> if tr_DefaultBitRate t > 0 then tr_DefaultBitRate t else builtin
         | None \<Rightarrow> builtin)"

definition LookupTranscodeCommand :: "decider_env \<Rightarrow> string \<Rightarrow> string" where
  "LookupTranscodeCommand env format =
     (let builtin = (case find (\<lambda>dt. dt_TargetFormat dt = format) DefaultTranscodings of
                       Some dt \<Rightarrow> dt_Command dt
                     | None \<Rightarrow> '''')
      in case env_FindByFormat env format of
           Some t \<Rightarrow> if tr_Command t \<noteq> '''' then tr_Command t else builtin
         | None \<Rightarrow> builtin)"

text \<open>\<open>computeBitrate\<close> and \<open>applyCodecLimitations\<close>: \<open>None\<close> rejects the profile.\<close>

definition computeBitrate ::
    "decider_env \<Rightarrow> Details \<Rightarrow> string \<Rightarrow> bool \<Rightarrow> ClientInfo \<Rightarrow> Details \<Rightarrow> Details option" where
  "computeBitrate env src targetFormat targetIsLossless ci ts =
     (let base =
        (if d_IsLossless src then
           (if \<not> targetIsLossless then
              (if ci_MaxTranscodingAudioBitrate ci > 0 then Some (ts\<lparr>d_Bitrate := ci_MaxTranscodingAudioBitrate ci\<rparr>)
               else if ci_MaxAudioBitrate ci > 0 then Some (ts\<lparr>d_Bitrate := ci_MaxAudioBitrate ci\<rparr>)
               else Some (ts\<lparr>d_Bitrate := lookupDefaultBitrate env targetFormat\<rparr>))
            else if ci_MaxAudioBitrate ci > 0 \<and> d_Bitrate src > ci_MaxAudioBitrate ci then None
            else Some ts)
         else Some (ts\<lparr>d_Bitrate := d_Bitrate src\<rparr>))
      in case base of
           None \<Rightarrow> None
         | Some ts' \<Rightarrow>
             Some (if ci_MaxAudioBitrate ci > 0 \<and> d_Bitrate ts' > 0 \<and> d_Bitrate ts' > ci_MaxAudioBitrate ci
                   then ts'\<lparr>d_Bitrate := ci_MaxAudioBitrate ci\<rparr> else ts'))"

fun apply_limitations :: "int \<Rightarrow> bool \<Rightarrow> Limitation list \<Rightarrow> Details \<Rightarrow> Details option" where
  "apply_limitations sourceBitrate targetIsLossless [] ts = Some ts"
| "apply_limitations sourceBitrate targetIsLossless (lm # lms) ts =
     (case applyLimitation sourceBitrate lm ts of
        (result, ts') \<Rightarrow>
          if equal_fold (lim_Name lm) LimitationAudioBitrate \<and> targetIsLossless \<and> result = adjustAdjusted then None
          else if result = adjustCannotFit then None
          else apply_limitations sourceBitrate targetIsLossless lms ts')"

fun apply_codec_profiles :: "int \<Rightarrow> string \<Rightarrow> bool \<Rightarrow> CodecProfile list \<Rightarrow> Details \<Rightarrow> Details option" where
  "apply_codec_profiles sourceBitrate targetCodec targetIsLossless [] ts = Some ts"
| "apply_codec_profiles sourceBitrate targetCodec targetIsLossless (cp # cps) ts =
     (if \<not> equal_fold (cp_Type cp) CodecProfileTypeAudio then
        apply_codec_profiles sourceBitrate targetCodec targetIsLossless cps ts
      else if \<not> matchesCodec targetCodec [cp_Name cp] then
        apply_codec_profiles sourceBitrate targetCodec targetIsLossless cps ts
      else case apply_limitations sourceBitrate targetIsLossless (cp_Limitations cp) ts of
             None \<Rightarrow> None
           | Some ts' \<Rightarrow> apply_codec_profiles sourceBitrate targetCodec targetIsLossless cps ts')"

definition applyCodecLimitations :: "int \<Rightarrow> bool \<Rightarrow> ClientInfo \<Rightarrow> Details \<Rightarrow> Details option" where
  "applyCodecLimitations sourceBitrate targetIsLossless ci ts =
     apply_codec_profiles sourceBitrate (d_Codec ts) targetIsLossless (ci_CodecProfiles ci) ts"

text \<open>The stream before bitrate and client limits: what the target codec itself imposes.\<close>

definition codec_stream :: "Details \<Rightarrow> Profile \<Rightarrow> string \<Rightarrow> string \<Rightarrow> bool \<Rightarrow> Details" where
  "codec_stream src profile responseContainer targetFormat targetIsLossless =
     (let ts0 = \<lparr>d_Container = responseContainer, d_Codec = go_lower (p_AudioCodec profile), d_Profile = '''',
                 d_Bitrate = 0, d_SampleRate = normalizeSourceSampleRate (d_SampleRate src) (d_Codec src),
                 d_BitDepth = targetBitDepth (d_BitDepth src) (d_Codec src) targetIsLossless,
                 d_Channels = d_Channels src, d_Duration = 0, d_Size = 0, d_IsLossless = targetIsLossless\<rparr>;
          ts1 = (if d_Codec ts0 = '''' then ts0\<lparr>d_Codec := targetFormat\<rparr> else ts0);
          fixedRate = codecFixedOutputSampleRate (d_Codec ts1);
          ts2 = (if fixedRate > 0 then ts1\<lparr>d_SampleRate := fixedRate\<rparr> else ts1);
          maxRate = codecMaxSampleRate (d_Codec ts2);
          ts3 = (if maxRate > 0 \<and> d_SampleRate ts2 > maxRate then ts2\<lparr>d_SampleRate := maxRate\<rparr> else ts2);
          maxCh = codecMaxChannels (d_Codec ts3)
      in if maxCh > 0 \<and> d_Channels ts3 > maxCh then ts3\<lparr>d_Channels := maxCh\<rparr> else ts3)"

definition computeTranscodedStream ::
    "decider_env \<Rightarrow> Details \<Rightarrow> Profile \<Rightarrow> ClientInfo \<Rightarrow> (Details \<times> string) option" where
  "computeTranscodedStream env src profile ci =
     (if p_Protocol profile \<noteq> '''' \<and> \<not> equal_fold (p_Protocol profile) ProtocolHTTP then None
      else
        let (responseContainer, targetFormat) = resolveTargetFormat profile in
        if targetFormat = '''' then None
        else if LookupTranscodeCommand env targetFormat = '''' then None
        else
          let targetIsLossless = isLosslessFormat targetFormat in
          if \<not> d_IsLossless src \<and> targetIsLossless then None
          else
            case computeBitrate env src targetFormat targetIsLossless ci
                   (codec_stream src profile responseContainer targetFormat targetIsLossless) of
              None \<Rightarrow> None
            | Some ts \<Rightarrow>
                let ts' = (if p_MaxAudioChannels profile > 0 \<and> d_Channels ts > p_MaxAudioChannels profile
                           then ts\<lparr>d_Channels := p_MaxAudioChannels profile\<rparr> else ts)
                in case applyCodecLimitations (d_Bitrate src) targetIsLossless ci ts' of
                     None \<Rightarrow> None
                   | Some ts'' \<Rightarrow> Some (ts'', targetFormat))"

fun first_transcode ::
    "decider_env \<Rightarrow> Details \<Rightarrow> ClientInfo \<Rightarrow> Profile list \<Rightarrow> (Details \<times> string) option" where
  "first_transcode env src ci [] = None"
| "first_transcode env src ci (profile # profiles) =
     (case computeTranscodedStream env src profile ci of
        Some r \<Rightarrow> Some r
      | None \<Rightarrow> first_transcode env src ci profiles)"

section \<open>The decision\<close>

definition decide :: "decider_env \<Rightarrow> MediaFile \<Rightarrow> AudioProbeResult option \<Rightarrow> ClientInfo \<Rightarrow> TranscodeDecision" where
  "decide env mf probe ci =
     (let src = buildSourceStream env mf probe;
          d0 = \<lparr>td_MediaID = mf_ID mf, td_CanDirectPlay = False, td_CanTranscode = False,
                td_TranscodeReasons = [], td_ErrorReason = '''', td_TargetFormat = '''', td_TargetBitrate = 0,
                td_TargetChannels = 0, td_TargetSampleRate = 0, td_TargetBitDepth = 0,
                td_SourceStream = src, td_SourceUpdatedAt = mf_UpdatedAt mf, td_TranscodeStream = None\<rparr>;
          (direct, reasons) =
            (if ci_MaxAudioBitrate ci > 0 \<and> d_Bitrate src > ci_MaxAudioBitrate ci
             then (False, [''audio bitrate not supported''])
             else try_direct_play src ci (ci_DirectPlayProfiles ci) []);
          d1 = d0\<lparr>td_CanDirectPlay := direct, td_TranscodeReasons := reasons\<rparr>
      in if direct then d1
         else case first_transcode env src ci (ci_TranscodingProfiles ci) of
                Some (ts, transcodeFormat) \<Rightarrow>
                  d1\<lparr>td_CanTranscode := True, td_TargetFormat := transcodeFormat,
                     td_TargetBitrate := d_Bitrate ts, td_TargetChannels := d_Channels ts,
                     td_TargetSampleRate := d_SampleRate ts, td_TargetBitDepth := d_BitDepth ts,
                     td_TranscodeStream := Some ts\<rparr>
              | None \<Rightarrow> d1\<lparr>td_ErrorReason := ''no compatible playback profile found''\<rparr>)"

definition MakeDecision ::
    "decider_env \<Rightarrow> MediaFile \<Rightarrow> ClientInfo \<Rightarrow> bool \<Rightarrow> (string + TranscodeDecision) \<times> MediaFile" where
  "MakeDecision env mf ci skipProbe =
     (if \<not> skipProbe \<and> env_IsProbeAvailable env then
        (case ensureProbed env mf of
           (Inl e, mf') \<Rightarrow> (Inl e, mf')
         | (Inr probe, mf') \<Rightarrow> (Inr (decide env mf' probe ci), mf'))
      else (Inr (decide env mf None ci), mf))"

end
