(* ===== verification/Stream_Decider_Props.thy ===== *)
theory Stream_Decider_Props
  imports Stream_Decider
begin

text \<open>
  What the transcoding decision guarantees: when a file is played directly, how a transcoded stream
  is bounded by the source, the codec, the profile and the client, and how the client limits are
  lowered.
\<close>

section \<open>Direct play\<close>

text \<open>When a profile lets a stream be played as it is, stated without the order of the checks.\<close>

definition codec_profile_applies :: "string \<Rightarrow> CodecProfile \<Rightarrow> bool" where
  "codec_profile_applies codec cp \<longleftrightarrow>
     equal_fold (cp_Type cp) CodecProfileTypeAudio \<and> same_format codecAliasGroups codec (cp_Name cp)"

definition direct_play_ok :: "Details \<Rightarrow> DirectPlayProfile \<Rightarrow> ClientInfo \<Rightarrow> bool" where
  "direct_play_ok src p ci \<longleftrightarrow>
     (dp_Protocols p = [] \<or> (\<exists>x \<in> set (dp_Protocols p). equal_fold x ProtocolHTTP)) \<and>
     (dp_Containers p = [] \<or> (\<exists>c \<in> set (dp_Containers p). same_format containerAliasGroups (d_Container src) c)) \<and>
     (dp_AudioCodecs p = [] \<or> (\<exists>c \<in> set (dp_AudioCodecs p). same_format codecAliasGroups (d_Codec src) c) \<or>
        matchesPCMWAVBridge src p) \<and>
     (dp_MaxAudioChannels p \<le> 0 \<or> d_Channels src \<le> dp_MaxAudioChannels p) \<and>
     (\<forall>cp \<in> set (ci_CodecProfiles ci). codec_profile_applies (d_Codec src) cp \<longrightarrow>
        (\<forall>lm \<in> set (cp_Limitations cp). lim_Required lm \<longrightarrow> lim_holds src lm))"

lemma check_codec_profiles_ok:
  "check_codec_profiles src cps = '''' \<longleftrightarrow>
   (\<forall>cp \<in> set cps. codec_profile_applies (d_Codec src) cp \<longrightarrow>
      (\<forall>lm \<in> set (cp_Limitations cp). lim_Required lm \<longrightarrow> lim_holds src lm))"
  by (induction cps)
    (auto simp: codec_profile_applies_def matchesCodec_single checkLimitations_ok_iff Let_def)

lemma checkDirectPlayProfile_ok:
  "checkDirectPlayProfile src p ci = '''' \<longleftrightarrow> direct_play_ok src p ci"
  by (auto simp: checkDirectPlayProfile_def direct_play_ok_def check_codec_profiles_ok
      containsIgnoreCase_iff matchesContainer_def matchesCodec_def matchesWithAliases_iff not_le not_less)

lemma try_direct_play_fst:
  "fst (try_direct_play src ci ps reasons) \<longleftrightarrow> (\<exists>p \<in> set ps. direct_play_ok src p ci)"
  by (induction ps arbitrary: reasons) (auto simp: checkDirectPlayProfile_ok Let_def)

lemma try_direct_play_snd:
  "snd (try_direct_play src ci ps reasons) =
     (if \<exists>p \<in> set ps. direct_play_ok src p ci then []
      else reasons @ map (\<lambda>p. checkDirectPlayProfile src p ci) ps)"
  by (induction ps arbitrary: reasons) (auto simp: checkDirectPlayProfile_ok Let_def)

section \<open>The transcoded stream\<close>

lemma resolveTargetFormat_nonempty:
  "resolveTargetFormat p = (c, f) \<Longrightarrow> f \<noteq> '''' \<Longrightarrow> c \<noteq> '''' \<and> go_lower f = f \<and> go_lower c = c"
  by (auto simp: resolveTargetFormat_def Let_def split: if_splits)

lemma lookupDefaultBitrate_pos: "0 < lookupDefaultBitrate env f"
  by (auto simp: lookupDefaultBitrate_def Let_def fallbackBitrate_def find_Some_iff split: option.split)

lemma codec_stream_bounds:
  fixes src p rc tf ll
  defines "ts \<equiv> codec_stream src p rc tf ll"
  shows "d_Channels ts \<le> d_Channels src" and "d_Container ts = rc" and "d_IsLossless ts = ll"
    and "d_Bitrate ts = 0"
    and "d_Codec ts = (if p_AudioCodec p = '''' then tf else go_lower (p_AudioCodec p))"
    and "0 < codecMaxChannels (d_Codec ts) \<Longrightarrow> d_Channels ts \<le> codecMaxChannels (d_Codec ts)"
    and "0 < codecMaxSampleRate (d_Codec ts) \<Longrightarrow> d_SampleRate ts \<le> codecMaxSampleRate (d_Codec ts)"
  unfolding ts_def codec_stream_def Let_def by (simp_all, auto)

text \<open>Two streams where the second one was derived from the first by lowering values.\<close>

definition lowered :: "Details \<Rightarrow> Details \<Rightarrow> bool" where
  "lowered ts ts' \<longleftrightarrow>
     d_Channels ts' \<le> d_Channels ts \<and> d_SampleRate ts' \<le> d_SampleRate ts \<and> d_BitDepth ts' \<le> d_BitDepth ts \<and>
     d_Codec ts' = d_Codec ts \<and> d_Container ts' = d_Container ts \<and> d_IsLossless ts' = d_IsLossless ts"

lemma lowered_refl [simp]: "lowered ts ts"
  by (simp add: lowered_def)

lemma lowered_trans: "lowered a b \<Longrightarrow> lowered b c \<Longrightarrow> lowered a c"
  by (simp add: lowered_def)

lemma computeBitrate_frame:
  assumes "computeBitrate env src tf ll ci ts = Some ts'"
  shows "lowered ts ts' \<and> lowered ts' ts"
  using assms by (auto simp: computeBitrate_def Let_def lowered_def split: if_splits option.splits)

lemma computeBitrate_bounds:
  assumes "computeBitrate env src tf ll ci ts = Some ts'" and "d_Bitrate ts = 0"
  shows "0 < ci_MaxAudioBitrate ci \<Longrightarrow> d_Bitrate ts' \<le> ci_MaxAudioBitrate ci"
    and "d_IsLossless src \<Longrightarrow> ll \<Longrightarrow> d_Bitrate ts' = 0"
    and "d_IsLossless src \<Longrightarrow> \<not> ll \<Longrightarrow> 0 < d_Bitrate ts'"
    and "\<not> d_IsLossless src \<Longrightarrow> d_Bitrate ts' \<le> d_Bitrate src"
    and "\<not> d_IsLossless src \<Longrightarrow> d_Bitrate ts' = 0 \<Longrightarrow> d_Bitrate src = 0"
    and "d_IsLossless src \<Longrightarrow> ll \<Longrightarrow> 0 < ci_MaxAudioBitrate ci \<Longrightarrow> d_Bitrate src \<le> ci_MaxAudioBitrate ci"
  using assms lookupDefaultBitrate_pos [of env tf]
  by (auto simp: computeBitrate_def Let_def not_less split: if_splits)

lemma applyLimitation_lowered: "applyLimitation sb lm ts = (r, ts') \<Longrightarrow> lowered ts ts'"
  using applyLimitation_lowers(1-6) by (simp add: lowered_def)

lemma apply_limitations_Cons_Some:
  "apply_limitations sb ll (lm # lms) ts = Some ts'' \<longleftrightarrow>
   (\<exists>r ts'. applyLimitation sb lm ts = (r, ts') \<and> r \<noteq> adjustCannotFit \<and>
      \<not> (equal_fold (lim_Name lm) LimitationAudioBitrate \<and> ll \<and> r = adjustAdjusted) \<and>
      apply_limitations sb ll lms ts' = Some ts'')"
  by (auto split: prod.split)

lemma apply_limitations_lowered: "apply_limitations sb ll lms ts = Some ts' \<Longrightarrow> lowered ts ts'"
proof (induction lms arbitrary: ts)
  case Nil
  then show ?case by simp
next
  case (Cons lm lms)
  then obtain r ts1 where "applyLimitation sb lm ts = (r, ts1)" "apply_limitations sb ll lms ts1 = Some ts'"
    unfolding apply_limitations_Cons_Some by blast
  then show ?case using Cons.IH applyLimitation_lowered lowered_trans by blast
qed

lemma apply_codec_profiles_Cons_Some:
  "apply_codec_profiles sb codec ll (cp # cps) ts = Some ts'' \<longleftrightarrow>
   (if codec_profile_applies codec cp
    then \<exists>ts'. apply_limitations sb ll (cp_Limitations cp) ts = Some ts' \<and>
           apply_codec_profiles sb codec ll cps ts' = Some ts''
    else apply_codec_profiles sb codec ll cps ts = Some ts'')"
  by (auto simp: codec_profile_applies_def matchesCodec_single split: option.split)

lemma apply_codec_profiles_lowered:
  "apply_codec_profiles sb codec ll cps ts = Some ts' \<Longrightarrow> lowered ts ts'"
proof (induction cps arbitrary: ts)
  case Nil
  then show ?case by simp
next
  case (Cons cp cps)
  then show ?case
    unfolding apply_codec_profiles_Cons_Some
    by (auto dest: apply_limitations_lowered intro: lowered_trans split: if_splits)
qed

text \<open>
  The bitrate: a limitation lowers a non-zero bitrate. A bitrate of zero stands for "as the source",
  so a client that lists the bitrate 0 can make a later limitation raise it again; the bound holds
  for clients that do not.
\<close>

definition no_zero_bitrate :: "ClientInfo \<Rightarrow> bool" where
  "no_zero_bitrate ci \<longleftrightarrow>
     (\<forall>cp \<in> set (ci_CodecProfiles ci). \<forall>lm \<in> set (cp_Limitations cp).
        lim_Name lm = LimitationAudioBitrate \<longrightarrow> 0 \<notin> allowed (lim_Values lm))"

definition bitrate_known :: "int \<Rightarrow> bool \<Rightarrow> Details \<Rightarrow> bool" where
  "bitrate_known sb ll ts \<longleftrightarrow> d_Bitrate ts \<noteq> 0 \<or> sb \<le> 0 \<or> ll"

lemma satisfies_value_allowed:
  "applyIntLimitation cmp vs x = (adjustAdjusted, Some v) \<Longrightarrow> v \<in> allowed vs"
proof -
  assume a: "applyIntLimitation cmp vs x = (adjustAdjusted, Some v)"
  obtain v0 vs' where vs: "vs = v0 # vs'" using a by (cases vs) (auto simp: applyIntLimitation_def)
  with a show ?thesis
    by (auto simp: applyIntLimitation_def allowed_def simp del: closest_below.simps any_equal.simps
        dest!: closest_below_Some(1) split: option.splits if_splits)
qed

lemma applyLimitation_bitrate:
  assumes a: "applyLimitation sb lm ts = (r, ts')" and k: "bitrate_known sb ll ts"
    and nz: "lim_Name lm = LimitationAudioBitrate \<longrightarrow> 0 \<notin> allowed (lim_Values lm)"
    and ok: "\<not> (equal_fold (lim_Name lm) LimitationAudioBitrate \<and> ll \<and> r = adjustAdjusted)"
  shows "d_Bitrate ts' \<le> d_Bitrate ts \<and> bitrate_known sb ll ts'"
proof (cases "lim_Name lm = LimitationAudioBitrate \<and> r = adjustAdjusted")
  case False
  then have "d_Bitrate ts' = d_Bitrate ts" using applyLimitation_lowers(9) [OF a] by blast
  with k show ?thesis by (simp add: bitrate_known_def)
next
  case True
  let ?x = "if d_Bitrate ts = 0 then sb else d_Bitrate ts"
  from True a obtain w where w: "applyIntLimitation (lim_Comparison lm) (lim_Values lm) ?x = (adjustAdjusted, w)"
      "case w of None \<Rightarrow> ts' = ts | Some v \<Rightarrow> ts' = ts\<lparr>d_Bitrate := v\<rparr>"
    by (auto simp: applyLimitation_def split: prod.splits option.splits)
  from applyIntLimitation_Adjusted [OF w(1)] obtain v where v: "w = Some v" "v < ?x" "0 \<le> v" by blast
  have ll: "\<not> ll" using ok True by simp
  have "v \<in> allowed (lim_Values lm)" using satisfies_value_allowed w(1) v(1) by simp
  then have "v \<noteq> 0" using nz True by metis
  moreover have "d_Bitrate ts \<noteq> 0" using v k ll by (auto simp: bitrate_known_def split: if_splits)
  ultimately show ?thesis using w(2) v by (simp add: bitrate_known_def)
qed

lemma apply_limitations_bitrate:
  assumes "apply_limitations sb ll lms ts = Some ts'" and "bitrate_known sb ll ts"
    and "\<forall>lm \<in> set lms. lim_Name lm = LimitationAudioBitrate \<longrightarrow> 0 \<notin> allowed (lim_Values lm)"
  shows "d_Bitrate ts' \<le> d_Bitrate ts \<and> bitrate_known sb ll ts'"
  using assms
proof (induction lms arbitrary: ts)
  case Nil
  then show ?case by simp
next
  case (Cons lm lms)
  from Cons.prems(1) obtain r ts1 where 1: "applyLimitation sb lm ts = (r, ts1)"
      "\<not> (equal_fold (lim_Name lm) LimitationAudioBitrate \<and> ll \<and> r = adjustAdjusted)"
      "apply_limitations sb ll lms ts1 = Some ts'"
    unfolding apply_limitations_Cons_Some by blast
  have "d_Bitrate ts1 \<le> d_Bitrate ts \<and> bitrate_known sb ll ts1"
    using applyLimitation_bitrate [OF 1(1) Cons.prems(2) _ 1(2)] Cons.prems(3) by simp
  with Cons.IH [OF 1(3)] Cons.prems(3) show ?case by fastforce
qed

lemma apply_codec_profiles_bitrate:
  assumes "apply_codec_profiles sb codec ll cps ts = Some ts'" and "bitrate_known sb ll ts"
    and "\<forall>cp \<in> set cps. \<forall>lm \<in> set (cp_Limitations cp).
           lim_Name lm = LimitationAudioBitrate \<longrightarrow> 0 \<notin> allowed (lim_Values lm)"
  shows "d_Bitrate ts' \<le> d_Bitrate ts \<and> bitrate_known sb ll ts'"
  using assms
proof (induction cps arbitrary: ts)
  case Nil
  then show ?case by simp
next
  case (Cons cp cps)
  show ?case
  proof (cases "codec_profile_applies codec cp")
    case True
    with Cons.prems(1) obtain ts1 where 1: "apply_limitations sb ll (cp_Limitations cp) ts = Some ts1"
        "apply_codec_profiles sb codec ll cps ts1 = Some ts'"
      unfolding apply_codec_profiles_Cons_Some by auto
    have "d_Bitrate ts1 \<le> d_Bitrate ts \<and> bitrate_known sb ll ts1"
      using apply_limitations_bitrate [OF 1(1) Cons.prems(2)] Cons.prems(3) by simp
    with Cons.IH [OF 1(2)] Cons.prems(3) show ?thesis by fastforce
  next
    case False
    with Cons show ?thesis unfolding apply_codec_profiles_Cons_Some by simp
  qed
qed

text \<open>An upper limit, once applied, keeps holding: later limitations only lower the value.\<close>

definition upper_limit_holds :: "Limitation \<Rightarrow> Details \<Rightarrow> bool" where
  "upper_limit_holds lm ts \<longleftrightarrow>
     lim_Comparison lm = ComparisonLessThanEqual \<longrightarrow>
     (lim_Name lm = LimitationAudioChannels \<longrightarrow>
        satisfies ComparisonLessThanEqual (lim_Values lm) (d_Channels ts)) \<and>
     (lim_Name lm = LimitationAudioSamplerate \<longrightarrow>
        satisfies ComparisonLessThanEqual (lim_Values lm) (d_SampleRate ts))"

lemma satisfies_le_mono:
  "satisfies ComparisonLessThanEqual vs x \<Longrightarrow> y \<le> x \<Longrightarrow> satisfies ComparisonLessThanEqual vs y"
  by (auto simp: satisfies_def split: option.splits)

lemma upper_limit_lowered: "upper_limit_holds lm ts \<Longrightarrow> lowered ts ts' \<Longrightarrow> upper_limit_holds lm ts'"
  by (auto simp: upper_limit_holds_def lowered_def intro: satisfies_le_mono)

lemma applyIntLimitation_satisfies:
  assumes "applyIntLimitation cmp vs x = (r, w)" and "r \<noteq> adjustCannotFit"
  shows "satisfies cmp vs (case w of None \<Rightarrow> x | Some v \<Rightarrow> v)"
  using assms applyIntLimitation_None [of cmp vs x w] applyIntLimitation_Adjusted [of cmp vs x w]
  by (cases r) auto

lemma applyLimitation_upper:
  assumes "applyLimitation sb lm ts = (r, ts')" and "r \<noteq> adjustCannotFit"
  shows "upper_limit_holds lm ts'"
proof -
  note sat = applyIntLimitation_satisfies [OF _ assms(2)]
  from assms(1) show ?thesis
    by (auto simp: upper_limit_holds_def applyLimitation_def dest!: sat split: prod.splits option.splits)
qed

lemma apply_limitations_upper:
  "apply_limitations sb ll lms ts = Some ts' \<Longrightarrow> \<forall>lm \<in> set lms. upper_limit_holds lm ts'"
proof (induction lms arbitrary: ts)
  case Nil
  then show ?case by simp
next
  case (Cons lm lms)
  then obtain r ts1 where 1: "applyLimitation sb lm ts = (r, ts1)" "r \<noteq> adjustCannotFit"
      "apply_limitations sb ll lms ts1 = Some ts'"
    unfolding apply_limitations_Cons_Some by blast
  have "upper_limit_holds lm ts'"
    using applyLimitation_upper [OF 1(1,2)] apply_limitations_lowered [OF 1(3)] by (rule upper_limit_lowered)
  with Cons.IH [OF 1(3)] show ?case by simp
qed

lemma apply_codec_profiles_upper:
  "apply_codec_profiles sb codec ll cps ts = Some ts' \<Longrightarrow> cp \<in> set cps \<Longrightarrow>
   codec_profile_applies codec cp \<Longrightarrow> lm \<in> set (cp_Limitations cp) \<Longrightarrow> upper_limit_holds lm ts'"
proof (induction cps arbitrary: ts)
  case Nil
  then show ?case by simp
next
  case (Cons c cps)
  show ?case
  proof (cases "codec_profile_applies codec c")
    case True
    with Cons.prems(1) obtain ts1 where 1: "apply_limitations sb ll (cp_Limitations c) ts = Some ts1"
        "apply_codec_profiles sb codec ll cps ts1 = Some ts'"
      unfolding apply_codec_profiles_Cons_Some by auto
    show ?thesis
    proof (cases "cp = c")
      case True
      then have "upper_limit_holds lm ts1" using apply_limitations_upper [OF 1(1)] Cons.prems(4) by simp
      then show ?thesis using apply_codec_profiles_lowered [OF 1(2)] by (rule upper_limit_lowered)
    next
      case False
      with Cons.prems Cons.IH [OF 1(2)] show ?thesis by simp
    qed
  next
    case False
    with Cons show ?thesis unfolding apply_codec_profiles_Cons_Some by auto
  qed
qed

section \<open>From one profile to the decision\<close>

lemma computeTranscodedStream_steps:
  assumes "computeTranscodedStream env src p ci = Some (ts, f)"
  obtains rc ts1 ts2 where "resolveTargetFormat p = (rc, f)" and "f \<noteq> ''''"
    and "p_Protocol p = '''' \<or> equal_fold (p_Protocol p) ProtocolHTTP"
    and "LookupTranscodeCommand env f \<noteq> ''''"
    and "isLosslessFormat f \<longrightarrow> d_IsLossless src"
    and "computeBitrate env src f (isLosslessFormat f) ci
           (codec_stream src p rc f (isLosslessFormat f)) = Some ts1"
    and "ts2 = (if p_MaxAudioChannels p > 0 \<and> d_Channels ts1 > p_MaxAudioChannels p
                then ts1\<lparr>d_Channels := p_MaxAudioChannels p\<rparr> else ts1)"
    and "apply_codec_profiles (d_Bitrate src) (d_Codec ts2) (isLosslessFormat f) (ci_CodecProfiles ci) ts2 = Some ts"
proof -
  obtain rc f' where r: "resolveTargetFormat p = (rc, f')" by fastforce
  show thesis
    using assms that [of rc]
    by (auto simp: computeTranscodedStream_def r Let_def applyCodecLimitations_def
        split: if_splits option.splits)
qed

text \<open>Everything a transcoded stream is bounded by.\<close>

definition stream_within :: "decider_env \<Rightarrow> Details \<Rightarrow> Profile \<Rightarrow> ClientInfo \<Rightarrow> Details \<Rightarrow> string \<Rightarrow> bool" where
  "stream_within env src p ci ts f \<longleftrightarrow>
     snd (resolveTargetFormat p) = f \<and> f \<noteq> '''' \<and> LookupTranscodeCommand env f \<noteq> '''' \<and>
     (p_Protocol p = '''' \<or> equal_fold (p_Protocol p) ProtocolHTTP) \<and>
     d_IsLossless ts = isLosslessFormat f \<and> (d_IsLossless ts \<longrightarrow> d_IsLossless src) \<and>
     d_Channels ts \<le> d_Channels src \<and>
     (0 < p_MaxAudioChannels p \<longrightarrow> d_Channels ts \<le> p_MaxAudioChannels p) \<and>
     (0 < codecMaxChannels (d_Codec ts) \<longrightarrow> d_Channels ts \<le> codecMaxChannels (d_Codec ts)) \<and>
     (0 < codecMaxSampleRate (d_Codec ts) \<longrightarrow> d_SampleRate ts \<le> codecMaxSampleRate (d_Codec ts)) \<and>
     (\<forall>cp \<in> set (ci_CodecProfiles ci). codec_profile_applies (d_Codec ts) cp \<longrightarrow>
        (\<forall>lm \<in> set (cp_Limitations cp). upper_limit_holds lm ts))"

definition bitrate_within :: "Details \<Rightarrow> ClientInfo \<Rightarrow> Details \<Rightarrow> bool" where
  "bitrate_within src ci ts \<longleftrightarrow>
     (0 < ci_MaxAudioBitrate ci \<longrightarrow> d_Bitrate ts \<le> ci_MaxAudioBitrate ci) \<and>
     (\<not> d_IsLossless src \<longrightarrow> d_Bitrate ts \<le> d_Bitrate src) \<and>
     (d_IsLossless ts \<and> 0 < ci_MaxAudioBitrate ci \<longrightarrow> d_Bitrate src \<le> ci_MaxAudioBitrate ci)"

lemma computeTranscodedStream_within:
  assumes "computeTranscodedStream env src p ci = Some (ts, f)"
  shows "stream_within env src p ci ts f"
proof -
  obtain rc ts1 ts2 where r: "resolveTargetFormat p = (rc, f)" "f \<noteq> ''''"
      "p_Protocol p = '''' \<or> equal_fold (p_Protocol p) ProtocolHTTP" "LookupTranscodeCommand env f \<noteq> ''''"
      "isLosslessFormat f \<longrightarrow> d_IsLossless src"
    and b: "computeBitrate env src f (isLosslessFormat f) ci
              (codec_stream src p rc f (isLosslessFormat f)) = Some ts1"
    and ts2: "ts2 = (if p_MaxAudioChannels p > 0 \<and> d_Channels ts1 > p_MaxAudioChannels p
                then ts1\<lparr>d_Channels := p_MaxAudioChannels p\<rparr> else ts1)"
    and l: "apply_codec_profiles (d_Bitrate src) (d_Codec ts2) (isLosslessFormat f) (ci_CodecProfiles ci) ts2 = Some ts"
    using assms by (rule computeTranscodedStream_steps)
  let ?ts0 = "codec_stream src p rc f (isLosslessFormat f)"
  note cs = codec_stream_bounds [of src p rc f "isLosslessFormat f"]
  have low1: "lowered ?ts0 ts1"
    using computeBitrate_frame [OF b] by (rule conjunct1)
  have low: "lowered ts1 ts2" "lowered ts2 ts"
     apply (simp add: ts2 lowered_def)
    apply (rule apply_codec_profiles_lowered [OF l])
    done
  have l0: "lowered ?ts0 ts" by (rule lowered_trans [OF lowered_trans [OF low1 low(1)] low(2)])
  have codec: "d_Codec ts = d_Codec ?ts0" "d_Codec ts2 = d_Codec ts"
    using l0 low(2) by (simp_all add: lowered_def)
  have ch: "d_Channels ts \<le> d_Channels ts2" "d_Channels ts \<le> d_Channels ?ts0"
      "d_SampleRate ts \<le> d_SampleRate ?ts0" "d_IsLossless ts = isLosslessFormat f"
    using l0 low(2) cs(3) by (simp_all add: lowered_def)
  have "0 < p_MaxAudioChannels p \<longrightarrow> d_Channels ts2 \<le> p_MaxAudioChannels p" by (simp add: ts2)
  moreover have "\<forall>cp \<in> set (ci_CodecProfiles ci). codec_profile_applies (d_Codec ts) cp \<longrightarrow>
        (\<forall>lm \<in> set (cp_Limitations cp). upper_limit_holds lm ts)"
    using apply_codec_profiles_upper [OF l] codec(2) by simp
  ultimately show ?thesis
    using r ch cs(1,6,7) codec(1) by (auto simp: stream_within_def)
qed

lemma computeTranscodedStream_bitrate:
  assumes "computeTranscodedStream env src p ci = Some (ts, f)" and nz: "no_zero_bitrate ci"
  shows "bitrate_within src ci ts"
proof -
  obtain rc ts1 ts2 where r: "isLosslessFormat f \<longrightarrow> d_IsLossless src"
    and b: "computeBitrate env src f (isLosslessFormat f) ci
              (codec_stream src p rc f (isLosslessFormat f)) = Some ts1"
    and ts2: "ts2 = (if p_MaxAudioChannels p > 0 \<and> d_Channels ts1 > p_MaxAudioChannels p
                then ts1\<lparr>d_Channels := p_MaxAudioChannels p\<rparr> else ts1)"
    and l: "apply_codec_profiles (d_Bitrate src) (d_Codec ts2) (isLosslessFormat f) (ci_CodecProfiles ci) ts2 = Some ts"
    using assms(1) by (rule computeTranscodedStream_steps)
  note bb = computeBitrate_bounds [OF b codec_stream_bounds(4)]
  have ll: "d_IsLossless ts = isLosslessFormat f"
    using computeTranscodedStream_within [OF assms(1)] by (simp add: stream_within_def)
  have "bitrate_known (d_Bitrate src) (isLosslessFormat f) ts2"
  proof (cases "d_IsLossless src")
    case True
    then show ?thesis using bb(3) by (cases "isLosslessFormat f") (simp_all add: bitrate_known_def ts2)
  next
    case False
    then show ?thesis using bb(5) by (cases "d_Bitrate ts1 = 0") (simp_all add: bitrate_known_def ts2)
  qed
  then have "d_Bitrate ts \<le> d_Bitrate ts2"
    using apply_codec_profiles_bitrate [OF l] nz by (auto simp: no_zero_bitrate_def)
  then have "d_Bitrate ts \<le> d_Bitrate ts1" by (simp add: ts2 split: if_splits)
  with bb ll r show ?thesis by (auto simp: bitrate_within_def)
qed

lemma first_transcode_Some:
  "first_transcode env src ci ps = Some (ts, f) \<Longrightarrow>
   \<exists>p \<in> set ps. computeTranscodedStream env src p ci = Some (ts, f)"
  by (induction ps) (auto split: option.splits)

lemma first_transcode_None:
  "first_transcode env src ci ps = None \<longleftrightarrow> (\<forall>p \<in> set ps. computeTranscodedStream env src p ci = None)"
  by (induction ps) (auto split: option.splits)

lemma decide_SourceStream: "td_SourceStream (decide env mf probe ci) = buildSourceStream env mf probe"
  by (simp add: decide_def Let_def split: prod.split option.split)

lemma decide_direct:
  "td_CanDirectPlay (decide env mf probe ci) \<longleftrightarrow>
     (let src = buildSourceStream env mf probe in
      (ci_MaxAudioBitrate ci \<le> 0 \<or> d_Bitrate src \<le> ci_MaxAudioBitrate ci) \<and>
      (\<exists>p \<in> set (ci_DirectPlayProfiles ci). direct_play_ok src p ci))"
  unfolding try_direct_play_fst [symmetric, where reasons = "[]"]
  by (auto simp: decide_def Let_def split: prod.split option.split)

lemma decide_transcode:
  assumes "td_CanTranscode (decide env mf probe ci)"
  shows "\<exists>p ts. p \<in> set (ci_TranscodingProfiles ci) \<and>
           td_TranscodeStream (decide env mf probe ci) = Some ts \<and>
           computeTranscodedStream env (buildSourceStream env mf probe) p ci =
             Some (ts, td_TargetFormat (decide env mf probe ci)) \<and>
           td_TargetBitrate (decide env mf probe ci) = d_Bitrate ts \<and>
           td_TargetChannels (decide env mf probe ci) = d_Channels ts \<and>
           td_TargetSampleRate (decide env mf probe ci) = d_SampleRate ts \<and>
           td_TargetBitDepth (decide env mf probe ci) = d_BitDepth ts"
  using assms
  by (auto simp: decide_def Let_def dest!: first_transcode_Some split: prod.splits if_splits option.splits)

lemma decide_outcome:
  fixes env mf probe ci
  defines "d \<equiv> decide env mf probe ci"
  shows "(td_CanDirectPlay d, td_CanTranscode d, td_ErrorReason d \<noteq> '''') \<in>
           {(True, False, False), (False, True, False), (False, False, True)}"
    and "td_CanDirectPlay d \<Longrightarrow> td_TranscodeReasons d = []"
    and "td_ErrorReason d \<noteq> '''' \<longleftrightarrow> \<not> td_CanDirectPlay d \<and>
           (\<forall>p \<in> set (ci_TranscodingProfiles ci).
              computeTranscodedStream env (td_SourceStream d) p ci = None)"
proof -
  let ?src = "buildSourceStream env mf probe"
  show "(td_CanDirectPlay d, td_CanTranscode d, td_ErrorReason d \<noteq> '''') \<in>
           {(True, False, False), (False, True, False), (False, False, True)}"
    by (auto simp: d_def decide_def Let_def split: prod.split option.split)
  show "td_CanDirectPlay d \<Longrightarrow> td_TranscodeReasons d = []"
    using try_direct_play_fst [of ?src ci "ci_DirectPlayProfiles ci" "[]"]
      try_direct_play_snd [of ?src ci "ci_DirectPlayProfiles ci" "[]"]
    by (auto simp: d_def decide_def Let_def split: prod.splits if_splits option.splits)
  show "td_ErrorReason d \<noteq> '''' \<longleftrightarrow> \<not> td_CanDirectPlay d \<and>
           (\<forall>p \<in> set (ci_TranscodingProfiles ci).
              computeTranscodedStream env (td_SourceStream d) p ci = None)"
    unfolding first_transcode_None [symmetric]
    by (auto simp: d_def decide_def Let_def split: prod.split option.split)
qed

lemma MakeDecision_Inr:
  assumes "MakeDecision env mf ci skip = (Inr d, mf')"
  shows "\<exists>probe. d = decide env mf' probe ci"
  using assms by (auto simp: MakeDecision_def split: if_splits prod.splits sum.splits)

section \<open>Capped and forced clients\<close>

lemma CapBitrate_limits:
  assumes "0 < k"
  shows "ci_MaxAudioBitrate (snd (CapBitrate k ci)) =
           (if ci_MaxAudioBitrate ci = 0 then k else min k (ci_MaxAudioBitrate ci))"
    and "ci_MaxTranscodingAudioBitrate (snd (CapBitrate k ci)) =
           (if ci_MaxTranscodingAudioBitrate ci = 0 then k else min k (ci_MaxTranscodingAudioBitrate ci))"
    and "ci_CodecProfiles (snd (CapBitrate k ci)) = ci_CodecProfiles ci"
    and "fst (CapBitrate k ci) \<longleftrightarrow> snd (CapBitrate k ci) \<noteq> ci"
  using assms by (auto simp: CapBitrate_def Let_def min_def split: if_splits dest: arg_cong [of _ _ ci_MaxAudioBitrate]
      arg_cong [of _ _ ci_MaxTranscodingAudioBitrate])

lemma force_profiles_eq:
  "fst (force_profiles t ps) = filter (\<lambda>p. matchesContainer (snd (resolveTargetFormat p)) [t]) ps"
  by (induction ps) (auto simp: Let_def split: prod.splits)

lemma ForceFormat_profiles:
  assumes "ForceFormat t ci = (True, ci')"
  shows "ci_TranscodingProfiles ci' =
           filter (\<lambda>p. matchesContainer (snd (resolveTargetFormat p)) [t]) (ci_TranscodingProfiles ci)"
    and "ci_TranscodingProfiles ci' \<noteq> []"
    and "ci_DirectPlayProfiles ci' = snd (force_profiles t (ci_TranscodingProfiles ci))"
  using assms force_profiles_eq [of t "ci_TranscodingProfiles ci"]
  by (auto simp: ForceFormat_def Let_def split: if_splits prod.splits)

lemma force_profiles_direct:
  "dp \<in> set (snd (force_profiles t ps)) \<Longrightarrow>
   \<exists>f. dp_AudioCodecs dp = [f] \<and> matchesContainer f [t]"
  by (induction ps) (auto simp: Let_def split: prod.splits if_splits)

section \<open>Properties\<close>

text \<open>An example: a FLAC file, a client that plays MP3 and Opus, and the built-in transcodings.\<close>

definition ex_env :: decider_env where
  "ex_env = \<lparr>env_FindByFormat = (\<lambda>_. None), env_IsProbeAvailable = False,
             env_ProbeAudioStream = (\<lambda>_. Inl ''no ffprobe''), env_Marshal = (\<lambda>_. Inr ''''),
             env_Unmarshal = (\<lambda>_. None), env_DevEnableMediaFileProbe = False\<rparr>"

definition ex_flac :: MediaFile where
  "ex_flac = zero_MediaFile\<lparr>mf_ID := ''1'', mf_Suffix := ''flac'', mf_BitRate := 900, mf_SampleRate := 96000,
                            mf_Channels := 6\<rparr>"

definition ex_client :: ClientInfo where
  "ex_client = \<lparr>ci_Name = ''web'', ci_Platform = '''', ci_MaxAudioBitrate = 320, ci_MaxTranscodingAudioBitrate = 0,
     ci_DirectPlayProfiles = [\<lparr>dp_Containers = [''mp3''], dp_AudioCodecs = [], dp_Protocols = [''http''],
                               dp_MaxAudioChannels = 2\<rparr>],
     ci_TranscodingProfiles = [\<lparr>p_Container = ''mp3'', p_AudioCodec = ''mp3'', p_Protocol = ''http'',
                                p_MaxAudioChannels = 2\<rparr>],
     ci_CodecProfiles = []\<rparr>"

lemmas decider_eval =
  decide_def Let_def buildSourceStream_def parseProbeData_def AudioCodec_def inferCodecFromSuffix_def gg_V_def
  checkDirectPlayProfile_def containsIgnoreCase_def matchesContainer_def matchesCodec_def
  matchesWithAliases_def alias_of_def containerAliasGroups_def codecAliasGroups_def
  DirectPlayProfile_String_def computeTranscodedStream_def resolveTargetFormat_def
  LookupTranscodeCommand_def lookupDefaultBitrate_def DefaultTranscodings_def
  computeBitrate_def applyCodecLimitations_def codec_stream_def isLosslessFormat_def
  normalizeSourceSampleRate_def targetBitDepth_def codecFixedOutputSampleRate_def codecMaxSampleRate_def
  codecMaxChannels_def go_lower_def to_lower_char_def byte_def equal_fold_def
  ex_env_def ex_flac_def ex_client_def zero_MediaFile_def

lemma ex_decision:
  "td_CanTranscode (decide ex_env ex_flac None ex_client) \<and>
   td_TargetFormat (decide ex_env ex_flac None ex_client) = ''mp3''"
  by (simp add: decider_eval)

lemma ex_MakeDecision:
  "MakeDecision ex_env ex_flac ex_client False = (Inr (decide ex_env ex_flac None ex_client), ex_flac)"
  by (simp add: MakeDecision_def ex_env_def)

text \<open>
  C1 (equivalence): a file is played directly exactly when the source is within the client's global
  bitrate limit and some direct play profile accepts its protocol, container, codec (or the PCM in WAV
  bridge) and channels, and every required limitation of a codec profile for the source's codec holds,
  whatever the order in which the code tests them.
\<close>

theorem MakeDecision_direct_play:
  assumes "MakeDecision env mf ci skip = (Inr d, mf')"
  shows "td_CanDirectPlay d \<longleftrightarrow>
           (ci_MaxAudioBitrate ci \<le> 0 \<or> d_Bitrate (td_SourceStream d) \<le> ci_MaxAudioBitrate ci) \<and>
           (\<exists>p \<in> set (ci_DirectPlayProfiles ci). direct_play_ok (td_SourceStream d) p ci)"
proof -
  obtain probe where "d = decide env mf' probe ci" using MakeDecision_Inr [OF assms] ..
  then show ?thesis by (simp add: decide_direct decide_SourceStream Let_def)
qed

theorem MakeDecision_direct_play_witness:
  "MakeDecision ex_env ex_flac ex_client False = (Inr (decide ex_env ex_flac None ex_client), ex_flac) \<and>
   \<not> td_CanDirectPlay (decide ex_env ex_flac None ex_client)"
proof -
  have "ci_MaxAudioBitrate ex_client = 320" "d_Bitrate (buildSourceStream ex_env ex_flac None) = 900"
    by (simp_all add: decider_eval)
  with MakeDecision_direct_play [OF ex_MakeDecision] show ?thesis
    by (simp add: ex_MakeDecision decide_SourceStream)
qed

text \<open>
  C4 (safety): every decision has exactly one outcome: direct play, transcoding, or an error reason;
  direct play carries no transcode reasons, and the error is given only when every transcoding profile
  of the client was tried and rejected.
\<close>

theorem MakeDecision_outcome:
  assumes "MakeDecision env mf ci skip = (Inr d, mf')"
  shows "(td_CanDirectPlay d, td_CanTranscode d, td_ErrorReason d \<noteq> '''') \<in>
           {(True, False, False), (False, True, False), (False, False, True)} \<and>
         (td_CanDirectPlay d \<longrightarrow> td_TranscodeReasons d = []) \<and>
         (td_ErrorReason d \<noteq> '''' \<longleftrightarrow> \<not> td_CanDirectPlay d \<and>
            (\<forall>p \<in> set (ci_TranscodingProfiles ci).
               computeTranscodedStream env (td_SourceStream d) p ci = None))"
proof -
  obtain probe where d: "d = decide env mf' probe ci" using MakeDecision_Inr [OF assms] ..
  show ?thesis
    using decide_outcome [of env mf' probe ci] unfolding d by (intro conjI impI)
qed

theorem MakeDecision_outcome_witness:
  "td_CanTranscode (decide ex_env ex_flac None ex_client) \<and>
   td_ErrorReason (decide ex_env ex_flac None ex_client) = ''''"
  using MakeDecision_outcome [OF ex_MakeDecision] ex_decision by auto



lemma no_zero_bitrate_cap: "0 < k \<Longrightarrow> no_zero_bitrate ci \<Longrightarrow> no_zero_bitrate (snd (CapBitrate k ci))"
  by (simp add: no_zero_bitrate_def CapBitrate_limits)



text \<open>
  When a format is forced, a transcoding decision targets a name of that format, and
  a file is played directly only if its codec is an accepted name for a profile of that format.
\<close>

lemma ForceFormat_decision:
  assumes "ForceFormat t ci = (True, ci')" and "MakeDecision env mf ci' skip = (Inr d, mf')"
  shows "(td_CanTranscode d \<longrightarrow> matchesContainer (td_TargetFormat d) [t]) \<and>
         (td_CanDirectPlay d \<longrightarrow>
            (\<exists>f. matchesContainer f [t] \<and>
               (matchesCodec (d_Codec (td_SourceStream d)) [f] \<or>
                equal_fold (d_Codec (td_SourceStream d)) ''pcm'' \<and> equal_fold f ''wav'')))"
proof -
  note f = ForceFormat_profiles [OF assms(1)]
  obtain probe where d: "d = decide env mf' probe ci'" using MakeDecision_Inr [OF assms(2)] ..
  have "matchesContainer (td_TargetFormat d) [t]" if "td_CanTranscode d"
    using decide_transcode [of env mf' probe ci'] that computeTranscodedStream_within f(1)
    unfolding d stream_within_def by fastforce
  moreover have "\<exists>f. matchesContainer f [t] \<and>
               (matchesCodec (d_Codec (td_SourceStream d)) [f] \<or>
                equal_fold (d_Codec (td_SourceStream d)) ''pcm'' \<and> equal_fold f ''wav'')"
    if dp: "td_CanDirectPlay d"
  proof -
    obtain p where p: "p \<in> set (ci_DirectPlayProfiles ci')" "direct_play_ok (td_SourceStream d) p ci'"
      using dp by (auto simp: d decide_direct decide_SourceStream Let_def)
    obtain g where g: "dp_AudioCodecs p = [g]" "matchesContainer g [t]"
      using force_profiles_direct [OF p(1) [unfolded f(3)]] by blast
    with p(2) show ?thesis
      by (auto simp: direct_play_ok_def matchesCodec_single matchesPCMWAVBridge_def containsIgnoreCase_iff)
  qed
  ultimately show ?thesis by blast
qed

lemma ForceFormat_decision_witness:
  "fst (ForceFormat ''mp3'' ex_client) \<and>
   matchesContainer (td_TargetFormat (decide ex_env ex_flac None (snd (ForceFormat ''mp3'' ex_client)))) [''mp3'']"
proof -
  have 1: "ForceFormat ''mp3'' ex_client = (True, snd (ForceFormat ''mp3'' ex_client))"
    by (simp add: ForceFormat_def decider_eval)
  have "td_CanTranscode (decide ex_env ex_flac None (snd (ForceFormat ''mp3'' ex_client)))"
    by (simp add: ForceFormat_def decider_eval)
  moreover have "MakeDecision ex_env ex_flac (snd (ForceFormat ''mp3'' ex_client)) True =
      (Inr (decide ex_env ex_flac None (snd (ForceFormat ''mp3'' ex_client))), ex_flac)"
    by (simp add: MakeDecision_def)
  ultimately show ?thesis using ForceFormat_decision [OF 1, of ex_env ex_flac True] arg_cong [OF 1, of fst] by simp
qed

text \<open>
  Limitations are applied one after the other and are not tested again, so a stream
  can break one that was met earlier: a client that refuses two channels and then limits channels to
  two gets a stream of two channels.
\<close>

lemma apply_limitations_order_matters:
  "let no2 = \<lparr>lim_Name = LimitationAudioChannels, lim_Comparison = ComparisonNotEquals, lim_Values = [''2''],
              lim_Required = True\<rparr>;
       max2 = \<lparr>lim_Name = LimitationAudioChannels, lim_Comparison = ComparisonLessThanEqual, lim_Values = [''2''],
               lim_Required = True\<rparr>
   in apply_limitations sb ll [no2, max2] (ts\<lparr>d_Channels := 6\<rparr>) = Some (ts\<lparr>d_Channels := 2\<rparr>) \<and>
      \<not> lim_holds (ts\<lparr>d_Channels := 2\<rparr>) no2 \<and>
      apply_limitations sb ll [max2, no2] (ts\<lparr>d_Channels := 6\<rparr>) = None"
  by (simp add: Let_def applyLimitation_def applyIntLimitation_def lim_holds_def satisfies_def allowed_def
      parseInt_def atoi_def max_int64_def is_digit_def byte_def equal_fold_def go_lower_def to_lower_char_def)

end
