(* ===== verification/Stream_Legacy.thy ===== *)
theory Stream_Legacy
  imports Stream_Decider_Props
begin

text \<open>
  From a stream request to its parameters: the translation of the legacy parameters
  (\<open>core/stream/legacy_client.go\<close>) and the server-side override (\<open>applyServerOverride\<close> of
  \<open>core/stream/decider.go\<close>). The request context is the pair of its player and its transcoding, each
  present or not, and \<open>conf.Server.DefaultDownsamplingFormat\<close> is an argument.
\<close>

section \<open>Definitions\<close>

record Request =
  rq_Format :: string
  rq_BitRate :: int
  rq_SampleRate :: int
  rq_BitDepth :: int
  rq_Channels :: int
  rq_Offset :: int

record req_ctx =
  ctx_Player :: "Player option"
  ctx_Transcoding :: "Transcoding option"

definition zero_Request :: Request where
  "zero_Request = \<lparr>rq_Format = '''', rq_BitRate = 0, rq_SampleRate = 0, rq_BitDepth = 0, rq_Channels = 0,
                   rq_Offset = 0\<rparr>"

definition http_profile :: "string list \<Rightarrow> string list \<Rightarrow> DirectPlayProfile" where
  "http_profile containers codecs =
     \<lparr>dp_Containers = containers, dp_AudioCodecs = codecs, dp_Protocols = [ProtocolHTTP], dp_MaxAudioChannels = 0\<rparr>"

definition format_profile :: "string \<Rightarrow> Profile" where
  "format_profile f = \<lparr>p_Container = f, p_AudioCodec = f, p_Protocol = ProtocolHTTP, p_MaxAudioChannels = 0\<rparr>"

definition buildLegacyClientInfo :: "string \<Rightarrow> MediaFile \<Rightarrow> string \<Rightarrow> int \<Rightarrow> int \<Rightarrow> ClientInfo" where
  "buildLegacyClientInfo defaultFormat mf reqFormat reqBitRate playerMaxBitRate =
     (let ci = \<lparr>ci_Name = ''legacy'', ci_Platform = '''', ci_MaxAudioBitrate = 0, ci_MaxTranscodingAudioBitrate = 0,
                ci_DirectPlayProfiles = [], ci_TranscodingProfiles = [], ci_CodecProfiles = []\<rparr>;
          targetFormat =
            (if reqFormat \<noteq> '''' then reqFormat
             else if reqBitRate > 0 \<and> reqBitRate < mf_BitRate mf \<and> defaultFormat \<noteq> '''' then defaultFormat
             else if playerMaxBitRate > 0 \<and> playerMaxBitRate < mf_BitRate mf \<and> defaultFormat \<noteq> '''' then defaultFormat
             else '''')
      in if targetFormat \<noteq> '''' then
           (let ci1 = (if reqFormat = '''' \<or> equal_fold reqFormat (mf_Suffix mf)
                       then ci\<lparr>ci_DirectPlayProfiles := [http_profile [mf_Suffix mf] [AudioCodec mf]]\<rparr> else ci);
                ci2 = ci1\<lparr>ci_TranscodingProfiles := [format_profile targetFormat]\<rparr>
            in if reqBitRate > 0
               then ci2\<lparr>ci_MaxAudioBitrate := reqBitRate, ci_MaxTranscodingAudioBitrate := reqBitRate\<rparr> else ci2)
         else ci\<lparr>ci_DirectPlayProfiles := [http_profile [] []]\<rparr>)"

definition applyServerOverride :: "req_ctx \<Rightarrow> ClientInfo \<Rightarrow> Transcoding \<Rightarrow> ClientInfo" where
  "applyServerOverride ctx original trc =
     (let maxBitRate = (case ctx_Player ctx of
                          Some player \<Rightarrow> if pl_MaxBitRate player > 0 then pl_MaxBitRate player else tr_DefaultBitRate trc
                        | None \<Rightarrow> tr_DefaultBitRate trc)
      in \<lparr>ci_Name = ci_Name original, ci_Platform = ci_Platform original,
          ci_MaxAudioBitrate = maxBitRate, ci_MaxTranscodingAudioBitrate = maxBitRate,
          ci_DirectPlayProfiles = [http_profile [tr_TargetFormat trc] [tr_TargetFormat trc]],
          ci_TranscodingProfiles = [format_profile (tr_TargetFormat trc)],
          ci_CodecProfiles = []\<rparr>)"

text \<open>The client that \<open>resolve\<close> decides for, and \<open>resolve\<close>: \<open>None\<close> is its \<open>ok = false\<close>.\<close>

definition override_client :: "req_ctx \<Rightarrow> ClientInfo \<Rightarrow> ClientInfo" where
  "override_client ctx clientInfo =
     (case ctx_Transcoding ctx of
        Some trc \<Rightarrow>
          if tr_TargetFormat trc \<noteq> '''' then applyServerOverride ctx clientInfo trc
          else (case ctx_Player ctx of
                  Some player \<Rightarrow> (case CapBitrate (pl_MaxBitRate player) clientInfo of
                                    (changed, modified) \<Rightarrow> if changed then modified else clientInfo)
                | None \<Rightarrow> clientInfo)
      | None \<Rightarrow>
          (case ctx_Player ctx of
             Some player \<Rightarrow> (case CapBitrate (pl_MaxBitRate player) clientInfo of
                               (changed, modified) \<Rightarrow> if changed then modified else clientInfo)
           | None \<Rightarrow> clientInfo))"

definition resolve :: "decider_env \<Rightarrow> req_ctx \<Rightarrow> MediaFile \<Rightarrow> ClientInfo \<Rightarrow> int \<Rightarrow> Request option" where
  "resolve env ctx mf clientInfo offset =
     (let req = zero_Request\<lparr>rq_Offset := offset\<rparr> in
      case fst (MakeDecision env mf (override_client ctx clientInfo) True) of
        Inl err \<Rightarrow> Some (req\<lparr>rq_Format := ''raw''\<rparr>)
      | Inr decision \<Rightarrow>
          if td_CanDirectPlay decision then Some (req\<lparr>rq_Format := ''raw''\<rparr>)
          else if td_CanTranscode decision then
            Some (req\<lparr>rq_Format := td_TargetFormat decision, rq_BitRate := td_TargetBitrate decision,
                      rq_SampleRate := td_TargetSampleRate decision, rq_BitDepth := td_TargetBitDepth decision,
                      rq_Channels := td_TargetChannels decision\<rparr>)
          else None)"

text \<open>
  \<open>ResolveRequest\<close> calls itself with the default downsampling format; the second call cannot take the
  same branch again, which is why it ends.
\<close>

function ResolveRequest ::
    "decider_env \<Rightarrow> string \<Rightarrow> req_ctx \<Rightarrow> MediaFile \<Rightarrow> string \<Rightarrow> int \<Rightarrow> int \<Rightarrow> Request" where
  "ResolveRequest env defaultFormat ctx mf reqFormat reqBitRate offset =
     (let req = zero_Request\<lparr>rq_Offset := offset\<rparr> in
      if reqFormat = ''raw'' then req\<lparr>rq_Format := ''raw''\<rparr>
      else
        let playerMaxBitRate = (case ctx_Player ctx of Some player \<Rightarrow> pl_MaxBitRate player | None \<Rightarrow> 0);
            clientInfo = buildLegacyClientInfo defaultFormat mf reqFormat reqBitRate playerMaxBitRate
        in case resolve env ctx mf clientInfo offset of
             Some resolved \<Rightarrow> resolved
           | None \<Rightarrow>
               if reqFormat \<noteq> '''' \<and> defaultFormat \<noteq> '''' \<and> \<not> equal_fold reqFormat defaultFormat
               then ResolveRequest env defaultFormat ctx mf defaultFormat reqBitRate offset
               else req\<lparr>rq_Format := ''raw''\<rparr>)"
  by pat_completeness auto
termination
  by (relation "measure (\<lambda>(env, defaultFormat, ctx, mf, reqFormat, _).
                           if equal_fold reqFormat defaultFormat then 0 else 1)") auto

declare ResolveRequest.simps [simp del]

definition ResolveClientRequest ::
    "decider_env \<Rightarrow> req_ctx \<Rightarrow> MediaFile \<Rightarrow> ClientInfo \<Rightarrow> int \<Rightarrow> Request" where
  "ResolveClientRequest env ctx mf clientInfo offset =
     (case resolve env ctx mf clientInfo offset of
        Some req \<Rightarrow> req
      | None \<Rightarrow> zero_Request\<lparr>rq_Format := ''raw'', rq_Offset := offset\<rparr>)"

section \<open>The client that is decided for\<close>

lemma CapBitrate_unchanged: "\<not> fst (CapBitrate k ci) \<Longrightarrow> snd (CapBitrate k ci) = ci"
  by (auto simp: CapBitrate_def Let_def split: if_splits)

lemma override_client_eq:
  "override_client ctx ci =
     (case ctx_Transcoding ctx of
        Some trc \<Rightarrow> if tr_TargetFormat trc \<noteq> '''' then applyServerOverride ctx ci trc
                    else (case ctx_Player ctx of Some pl \<Rightarrow> snd (CapBitrate (pl_MaxBitRate pl) ci) | None \<Rightarrow> ci)
      | None \<Rightarrow> (case ctx_Player ctx of Some pl \<Rightarrow> snd (CapBitrate (pl_MaxBitRate pl) ci) | None \<Rightarrow> ci))"
  using CapBitrate_unchanged [of _ ci]
  by (auto simp: override_client_def split: option.split prod.split) (metis fst_conv snd_conv)+

text \<open>The format the server forces on the request, if any, and the cap of its player.\<close>

definition forced_format :: "req_ctx \<Rightarrow> string option" where
  "forced_format ctx =
     (case ctx_Transcoding ctx of
        Some trc \<Rightarrow> if tr_TargetFormat trc \<noteq> '''' then Some (tr_TargetFormat trc) else None
      | None \<Rightarrow> None)"

definition player_cap :: "req_ctx \<Rightarrow> int" where
  "player_cap ctx = (case ctx_Player ctx of Some pl \<Rightarrow> pl_MaxBitRate pl | None \<Rightarrow> 0)"

lemma override_client_forced:
  assumes "forced_format ctx = Some f"
  shows "ci_TranscodingProfiles (override_client ctx ci) = [format_profile f]"
    and "ci_CodecProfiles (override_client ctx ci) = []"
    and "0 < player_cap ctx \<Longrightarrow> ci_MaxAudioBitrate (override_client ctx ci) = player_cap ctx"
  using assms
  by (auto simp: forced_format_def override_client_def applyServerOverride_def player_cap_def Let_def
      split: option.splits if_splits)

lemma CapBitrate_profiles [simp]:
  "ci_TranscodingProfiles (snd (CapBitrate k ci)) = ci_TranscodingProfiles ci"
  "ci_DirectPlayProfiles (snd (CapBitrate k ci)) = ci_DirectPlayProfiles ci"
  "ci_CodecProfiles (snd (CapBitrate k ci)) = ci_CodecProfiles ci"
  by (simp_all add: CapBitrate_def Let_def)

lemma CapBitrate_zero [simp]: "k \<le> 0 \<Longrightarrow> CapBitrate k ci = (False, ci)"
  by (simp add: CapBitrate_def)

lemma override_client_free:
  assumes "forced_format ctx = None"
  shows "override_client ctx ci = snd (CapBitrate (player_cap ctx) ci)"
  using assms by (auto simp: forced_format_def override_client_eq player_cap_def split: option.splits if_splits)

section \<open>What a resolved request holds\<close>

definition raw_request :: "int \<Rightarrow> Request" where
  "raw_request offset = zero_Request\<lparr>rq_Format := ''raw'', rq_Offset := offset\<rparr>"

lemma raw_request_eq: "zero_Request\<lparr>rq_Offset := n\<rparr>\<lparr>rq_Format := ''raw''\<rparr> = raw_request n"
  by (simp add: raw_request_def)

text \<open>A request to transcode, as a decision for the client \<open>ci\<close> filled it in.\<close>

definition transcode_request :: "decider_env \<Rightarrow> Details \<Rightarrow> ClientInfo \<Rightarrow> Request \<Rightarrow> bool" where
  "transcode_request env src ci r \<longleftrightarrow>
     (\<exists>p ts. p \<in> set (ci_TranscodingProfiles ci) \<and>
        computeTranscodedStream env src p ci = Some (ts, rq_Format r) \<and> rq_BitRate r = d_Bitrate ts \<and>
        rq_SampleRate r = d_SampleRate ts \<and> rq_BitDepth r = d_BitDepth ts \<and> rq_Channels r = d_Channels ts)"

lemma MakeDecision_skip: "MakeDecision env mf ci True = (Inr (decide env mf None ci), mf)"
  by (simp add: MakeDecision_def)

lemma resolve_Some:
  assumes "resolve env ctx mf ci offset = Some r"
  shows "r = raw_request offset \<or>
         rq_Offset r = offset \<and> transcode_request env (buildSourceStream env mf None) (override_client ctx ci) r"
proof (cases "td_CanDirectPlay (decide env mf None (override_client ctx ci))")
  case True
  with assms show ?thesis by (auto simp: resolve_def MakeDecision_skip Let_def raw_request_def)
next
  case False
  let ?d = "decide env mf None (override_client ctx ci)"
  from False assms have t: "td_CanTranscode ?d"
      and r: "r = zero_Request\<lparr>rq_Offset := offset, rq_Format := td_TargetFormat ?d, rq_BitRate := td_TargetBitrate ?d,
                      rq_SampleRate := td_TargetSampleRate ?d, rq_BitDepth := td_TargetBitDepth ?d,
                      rq_Channels := td_TargetChannels ?d\<rparr>"
    by (auto simp: resolve_def MakeDecision_skip Let_def split: if_splits)
  from decide_transcode [OF t] show ?thesis unfolding transcode_request_def r by auto
qed

lemma format_profile_target:
  "computeTranscodedStream env src (format_profile f) ci = Some (ts, g) \<Longrightarrow>
   g = go_lower f \<and> LookupTranscodeCommand env g \<noteq> ''''"
  by (drule computeTranscodedStream_within)
    (auto simp: stream_within_def resolveTargetFormat_def format_profile_def Let_def)

lemma legacy_client:
  fixes df mf rf rb pb
  defines "ci \<equiv> buildLegacyClientInfo df mf rf rb pb"
  shows "ci_CodecProfiles ci = []"
    and "set (ci_TranscodingProfiles ci) \<subseteq> {format_profile (if rf = '''' then df else rf)}"
    and "ci_TranscodingProfiles ci \<noteq> [] \<Longrightarrow> ci_MaxAudioBitrate ci = max 0 rb"
    and "0 \<le> ci_MaxAudioBitrate ci"
  by (auto simp: ci_def buildLegacyClientInfo_def Let_def)

lemma no_zero_bitrate_Nil: "ci_CodecProfiles ci = [] \<Longrightarrow> no_zero_bitrate ci"
  by (simp add: no_zero_bitrate_def)

text \<open>The guarantees of one resolved request for a requested format and bitrate.\<close>

definition request_ok ::
    "decider_env \<Rightarrow> req_ctx \<Rightarrow> string set \<Rightarrow> int \<Rightarrow> Request \<Rightarrow> bool" where
  "request_ok env ctx formats reqBitRate r \<longleftrightarrow>
     LookupTranscodeCommand env (rq_Format r) \<noteq> '''' \<and>
     (0 < player_cap ctx \<longrightarrow> rq_BitRate r \<le> player_cap ctx) \<and>
     (case forced_format ctx of
        Some f \<Rightarrow> rq_Format r = go_lower f
      | None \<Rightarrow> rq_Format r \<in> go_lower ` formats \<and> (0 < reqBitRate \<longrightarrow> rq_BitRate r \<le> reqBitRate))"

lemma transcode_request_ok:
  assumes "transcode_request env src (override_client ctx (buildLegacyClientInfo df mf rf rb pb)) r"
  shows "request_ok env ctx {if rf = '''' then df else rf} rb r"
proof -
  let ?ci = "buildLegacyClientInfo df mf rf rb pb"
  let ?co = "override_client ctx ?ci"
  obtain p ts where p: "p \<in> set (ci_TranscodingProfiles ?co)"
      "computeTranscodedStream env src p ?co = Some (ts, rq_Format r)" "rq_BitRate r = d_Bitrate ts"
    using assms unfolding transcode_request_def by blast
  show ?thesis
  proof (cases "forced_format ctx")
    case (Some f)
    note o = override_client_forced [OF Some, of ?ci]
    have "bitrate_within src ?co ts"
      using computeTranscodedStream_bitrate [OF p(2) no_zero_bitrate_Nil [OF o(2)]] .
    with o p format_profile_target [of env src f ?co ts] Some show ?thesis
      by (auto simp: request_ok_def bitrate_within_def)
  next
    case None
    have o: "?co = snd (CapBitrate (player_cap ctx) ?ci)" using None by (rule override_client_free)
    have pf: "p = format_profile (if rf = '''' then df else rf)" and ne: "ci_TranscodingProfiles ?ci \<noteq> []"
      using p(1) legacy_client(2) [of df mf rf rb pb] unfolding o by auto
    have "no_zero_bitrate ?co" by (rule no_zero_bitrate_Nil) (simp add: o legacy_client(1))
    then have b: "bitrate_within src ?co ts" by (rule computeTranscodedStream_bitrate [OF p(2)])
    have m: "ci_MaxAudioBitrate ?ci = max 0 rb" by (rule legacy_client(3) [OF ne])
    have "0 < player_cap ctx \<longrightarrow> rq_BitRate r \<le> player_cap ctx"
      using b m p(3) unfolding o by (auto simp: bitrate_within_def CapBitrate_limits max_def min_def split: if_splits)
    moreover have "0 < rb \<longrightarrow> rq_BitRate r \<le> rb"
      using b m p(3) unfolding o
      by (cases "0 < player_cap ctx") (auto simp: bitrate_within_def CapBitrate_limits split: if_splits)
    ultimately show ?thesis
      using format_profile_target [OF p(2) [unfolded pf]] None by (auto simp: request_ok_def)
  qed
qed

lemma request_ok_mono: "request_ok env ctx F rb r \<Longrightarrow> F \<subseteq> G \<Longrightarrow> request_ok env ctx G rb r"
  by (auto simp: request_ok_def split: option.splits)

lemma ResolveRequest_first:
  assumes "resolve env ctx mf (buildLegacyClientInfo df mf rf rb pb) offset = Some r"
  shows "r = raw_request offset \<or> rq_Offset r = offset \<and> request_ok env ctx {rf, df} rb r"
  using resolve_Some [OF assms] request_ok_mono [OF transcode_request_ok, of env _ ctx df mf rf rb pb r "{rf, df}"]
  by (cases "rf = ''''") auto

text \<open>A lossy target with a known command is never refused when there are no codec profiles.\<close>

lemma computeTranscodedStream_lossy:
  assumes "f \<noteq> ''''" "LookupTranscodeCommand env (go_lower f) \<noteq> ''''" "\<not> isLosslessFormat f" "ci_CodecProfiles ci = []"
  shows "\<exists>ts. computeTranscodedStream env src (format_profile f) ci = Some (ts, go_lower f)"
  using assms
  by (simp add: computeTranscodedStream_def format_profile_def resolveTargetFormat_def Let_def
      applyCodecLimitations_def computeBitrate_def)

section \<open>Properties\<close>

text \<open>
  A legacy request always resolves: to the raw file, or to a transcode whose format has a
  command, is the one the server forces (else the requested one or the default downsampling format), and
  whose bitrate is within the cap of the player and, unless the server forces a format, within the
  requested bitrate. The offset is always the one asked for.
\<close>

lemma ResolveRequest_ok:
  "let r = ResolveRequest env df ctx mf rf rb offset
   in r = raw_request offset \<or> rq_Offset r = offset \<and> request_ok env ctx {rf, df} rb r"
proof (induction env df ctx mf rf rb offset rule: ResolveRequest.induct)
  case (1 env df ctx mf rf rb offset)
  let ?ci = "buildLegacyClientInfo df mf rf rb (case ctx_Player ctx of Some pl \<Rightarrow> pl_MaxBitRate pl | None \<Rightarrow> 0)"
  consider "rf = ''raw''" | r where "rf \<noteq> ''raw''" "resolve env ctx mf ?ci offset = Some r"
    | "rf \<noteq> ''raw''" "resolve env ctx mf ?ci offset = None" by fastforce
  then show ?case
  proof cases
    case 1
    then show ?thesis by (subst ResolveRequest.simps) (simp add: raw_request_eq)
  next
    case 2
    with ResolveRequest_first [OF 2(2)] show ?thesis by (subst ResolveRequest.simps) simp
  next
    case 3
    show ?thesis
    proof (cases "rf \<noteq> '''' \<and> df \<noteq> '''' \<and> \<not> equal_fold rf df")
      case True
      with "1.IH" [OF refl 3(1) refl refl 3(2) True]
      have "let r = ResolveRequest env df ctx mf df rb offset
            in r = raw_request offset \<or> rq_Offset r = offset \<and> request_ok env ctx {rf, df} rb r"
        by (auto simp: Let_def intro: request_ok_mono)
      with 3 True show ?thesis by (subst ResolveRequest.simps) simp
    next
      case False
      with 3 show ?thesis by (subst ResolveRequest.simps) (auto simp: raw_request_eq)
    qed
  qed
qed

text \<open>
  The bitrate cap of a player downsamples on its own: a request that names no format,
  for a file whose bitrate is above the cap, is transcoded to the default downsampling format at a
  bitrate within the cap, whenever that format is lossy and has a command.
\<close>

lemma ResolveRequest_cap_downsamples:
  assumes "0 < player_cap ctx" and "player_cap ctx < mf_BitRate mf" and "forced_format ctx = None"
    and "mf_ProbeData mf = ''''" and "df \<noteq> ''''" and "\<not> isLosslessFormat df"
    and "LookupTranscodeCommand env (go_lower df) \<noteq> ''''"
  shows "let r = ResolveRequest env df ctx mf '''' rb offset
         in rq_Format r = go_lower df \<and> rq_BitRate r \<le> player_cap ctx \<and> rq_Offset r = offset"
proof -
  let ?k = "player_cap ctx"
  let ?ci = "buildLegacyClientInfo df mf '''' rb ?k"
  let ?co = "override_client ctx ?ci" and ?src = "buildSourceStream env mf None"
  let ?d = "decide env mf None ?co"
  have co: "?co = snd (CapBitrate ?k ?ci)" by (rule override_client_free [OF assms(3)])
  have tp: "ci_TranscodingProfiles ?co = [format_profile df]" and cp: "ci_CodecProfiles ?co = []"
    using assms(1,2,5) unfolding co by (simp_all add: buildLegacyClientInfo_def Let_def)
  have m: "0 < ci_MaxAudioBitrate ?co" "ci_MaxAudioBitrate ?co \<le> ?k"
    using assms(1) legacy_client(4) [of df mf "''''" rb ?k]
    unfolding co by (auto simp: CapBitrate_limits(1) [OF assms(1)] min_def split: if_splits)
  have "d_Bitrate ?src = mf_BitRate mf" using assms(4) by (simp add: buildSourceStream_def parseProbeData_def Let_def)
  then have nd: "\<not> td_CanDirectPlay ?d" using m assms(2) by (simp add: decide_direct Let_def)
  obtain ts where "computeTranscodedStream env ?src (format_profile df) ?co = Some (ts, go_lower df)"
    using computeTranscodedStream_lossy [OF assms(5,7,6) cp] by blast
  then have "td_CanTranscode ?d" "td_TargetFormat ?d = go_lower df"
    using nd tp by (auto simp: decide_def Let_def split: if_splits prod.splits)
  with nd obtain r where r: "resolve env ctx mf ?ci offset = Some r" "rq_Format r = go_lower df"
      "rq_BitRate r = td_TargetBitrate ?d" "rq_Offset r = offset"
    by (auto simp: resolve_def MakeDecision_skip Let_def)
  have "td_TargetBitrate ?d \<le> ?k"
  proof -
    obtain p ts' where "computeTranscodedStream env ?src p ?co = Some (ts', go_lower df)"
        "td_TargetBitrate ?d = d_Bitrate ts'"
      using decide_transcode [OF \<open>td_CanTranscode ?d\<close>] \<open>td_TargetFormat ?d = go_lower df\<close> by auto
    with computeTranscodedStream_bitrate [OF _ no_zero_bitrate_Nil [OF cp]] m show ?thesis
      by (fastforce simp: bitrate_within_def)
  qed
  moreover have "ResolveRequest env df ctx mf '''' rb offset = r"
    using r(1) by (subst ResolveRequest.simps) (simp add: player_cap_def Let_def)
  ultimately show ?thesis using r by (simp add: Let_def)
qed

definition ex_ctx :: req_ctx where
  "ex_ctx = \<lparr>ctx_Player = Some \<lparr>pl_ID = ''p'', pl_MaxBitRate = 96, pl_ScrobbleEnabled = True\<rparr>, ctx_Transcoding = None\<rparr>"

lemma ResolveRequest_cap_downsamples_witness:
  "rq_Format (ResolveRequest ex_env ''opus'' ex_ctx ex_flac '''' 0 7) = ''opus'' \<and>
   rq_BitRate (ResolveRequest ex_env ''opus'' ex_ctx ex_flac '''' 0 7) \<le> 96"
proof -
  have "player_cap ex_ctx = 96" "forced_format ex_ctx = None"
    by (simp_all add: player_cap_def forced_format_def ex_ctx_def)
  moreover have "mf_BitRate ex_flac = 900" "mf_ProbeData ex_flac = ''''"
    by (simp_all add: ex_flac_def zero_MediaFile_def)
  moreover have "\<not> isLosslessFormat ''opus''" "go_lower ''opus'' = ''opus''"
      "LookupTranscodeCommand ex_env ''opus'' \<noteq> ''''"
    by (simp_all add: decider_eval)
  ultimately show ?thesis
    using ResolveRequest_cap_downsamples [of ex_ctx ex_flac "''opus''" ex_env 0 7] by (simp add: Let_def)
qed

end
