(* ===== verification/Stream_Token.thy ===== *)
theory Stream_Token
  imports Stream_Legacy Go_Float
begin

text \<open>
  The signed token a client gets with a transcode decision and sends back with the stream request:
  \<open>core/stream/token.go\<close> over \<open>EncodeToken\<close> and \<open>DecodeAndVerifyToken\<close> of \<open>core/auth/auth.go\<close>.
  A claims map is an association list (later writes in front); a verified token is one too, whose
  numbers are \<open>float64\<close> values. Signing and verification are those of the JWT library: the record
  \<open>jwt_lib\<close>, with the hypothesis \<open>jwt_faithful\<close> that a token it signed is verified, until it expires,
  with the claims it was signed with.
\<close>

section \<open>Numbers as \<open>float64\<close>\<close>

definition float64_of_int :: "int \<Rightarrow> rat" where
  "float64_of_int i = round_float 53 (of_int i)"

lemma float64_exact: "\<bar>i\<bar> < 2 ^ 53 \<Longrightarrow> truncate_rat (float64_of_int i) = i"
  by (simp add: float64_of_int_def round_float_of_int)

section \<open>Definitions\<close>

datatype claim = CStr string | CBool bool | CInt int

datatype token_claim = TStr string | TBool bool | TFloat rat

type_synonym claims = "(string \<times> claim) list"
type_synonym jwt_token = "(string \<times> token_claim) list"

datatype token_error = ErrTokenInvalid string | ErrTokenStale

record params =
  pa_MediaID :: string
  pa_DirectPlay :: bool
  pa_TargetFormat :: string
  pa_TargetBitrate :: int
  pa_TargetChannels :: int
  pa_TargetSampleRate :: int
  pa_TargetBitDepth :: int
  pa_SourceUpdatedAt :: time

text \<open>Whole seconds.\<close>

definition truncate_second :: "time \<Rightarrow> time" where "truncate_second t = t div second * second"

definition unix :: "time \<Rightarrow> int" where "unix t = t div second"

definition tokenTTL :: int where "tokenTTL = 48 * 3600 * second"

text \<open>A guarded write to a map.\<close>

definition put_if :: "bool \<Rightarrow> string \<Rightarrow> claim \<Rightarrow> claims \<Rightarrow> claims" where
  "put_if b k v m = (if b then (k, v) # m else m)"

definition toClaimsMap :: "time \<Rightarrow> TranscodeDecision \<Rightarrow> claims" where
  "toClaimsMap now d =
     (let m0 = [(''mid'', CStr (td_MediaID d)), (''ua'', CInt (unix (truncate_second (td_SourceUpdatedAt d)))),
                (''exp'', CInt (unix (now + tokenTTL)))];
          m1 = put_if (td_CanDirectPlay d) ''dp'' (CBool True) m0
      in if td_CanTranscode d \<and> td_TargetFormat d \<noteq> '''' then
           (let m2 = put_if True ''f'' (CStr (td_TargetFormat d)) m1;
                m3 = put_if (td_TargetBitrate d \<noteq> 0) ''b'' (CInt (td_TargetBitrate d)) m2;
                m4 = put_if (td_TargetChannels d \<noteq> 0) ''ch'' (CInt (td_TargetChannels d)) m3;
                m5 = put_if (td_TargetSampleRate d \<noteq> 0) ''sr'' (CInt (td_TargetSampleRate d)) m4
            in put_if (td_TargetBitDepth d \<noteq> 0) ''bd'' (CInt (td_TargetBitDepth d)) m5)
         else m1)"

text \<open>\<open>token.Get\<close> into a variable of one type: an error when the claim is absent or of another type.\<close>

definition get_string :: "jwt_token \<Rightarrow> string \<Rightarrow> string option" where
  "get_string tok k = (case map_of tok k of Some (TStr s) \<Rightarrow> Some s | _ \<Rightarrow> None)"

definition get_bool :: "jwt_token \<Rightarrow> string \<Rightarrow> bool option" where
  "get_bool tok k = (case map_of tok k of Some (TBool b) \<Rightarrow> Some b | _ \<Rightarrow> None)"

definition getIntClaim :: "jwt_token \<Rightarrow> string \<Rightarrow> int" where
  "getIntClaim tok k = (case map_of tok k of Some (TFloat f) \<Rightarrow> truncate_rat f | _ \<Rightarrow> 0)"

definition paramsFromToken :: "jwt_token \<Rightarrow> token_error + params" where
  "paramsFromToken tok =
     (let mediaID = (case get_string tok ''mid'' of Some mid \<Rightarrow> mid | None \<Rightarrow> '''') in
      if mediaID = '''' then Inl (ErrTokenInvalid ''missing media ID'')
      else
        let dp = (case get_bool tok ''dp'' of Some b \<Rightarrow> b | None \<Rightarrow> False);
            ua = getIntClaim tok ''ua'';
            updatedAt = (if ua \<noteq> 0 then ua * second else zero_time)
        in if updatedAt = zero_time then Inl (ErrTokenInvalid ''missing source timestamp'')
           else Inr \<lparr>pa_MediaID = mediaID, pa_DirectPlay = dp,
                     pa_TargetFormat = (case get_string tok ''f'' of Some f \<Rightarrow> f | None \<Rightarrow> ''''),
                     pa_TargetBitrate = getIntClaim tok ''b'', pa_TargetChannels = getIntClaim tok ''ch'',
                     pa_TargetSampleRate = getIntClaim tok ''sr'', pa_TargetBitDepth = getIntClaim tok ''bd'',
                     pa_SourceUpdatedAt = updatedAt\<rparr>)"

record jwt_lib =
  jwt_Encode :: "claims \<Rightarrow> string + string"
  jwt_Verify :: "time \<Rightarrow> string \<Rightarrow> string + jwt_token"

definition EncodeToken :: "jwt_lib \<Rightarrow> claims \<Rightarrow> string + string" where
  "EncodeToken jwt m = jwt_Encode jwt ((''iss'', CStr ''ND'') # m)"

definition CreateTranscodeParams :: "jwt_lib \<Rightarrow> time \<Rightarrow> TranscodeDecision \<Rightarrow> string + string" where
  "CreateTranscodeParams jwt now d = EncodeToken jwt (toClaimsMap now d)"

definition parseTranscodeParams :: "jwt_lib \<Rightarrow> time \<Rightarrow> string \<Rightarrow> token_error + params" where
  "parseTranscodeParams jwt now tokenStr =
     (case jwt_Verify jwt now tokenStr of Inl e \<Rightarrow> Inl (ErrTokenInvalid e) | Inr tok \<Rightarrow> paramsFromToken tok)"

definition ResolveRequestFromToken ::
    "jwt_lib \<Rightarrow> time \<Rightarrow> string \<Rightarrow> MediaFile \<Rightarrow> int \<Rightarrow> token_error + Request" where
  "ResolveRequestFromToken jwt now tokenStr mf offset =
     (case parseTranscodeParams jwt now tokenStr of
        Inl e \<Rightarrow> Inl (case e of ErrTokenInvalid m \<Rightarrow> ErrTokenInvalid m | ErrTokenStale \<Rightarrow> ErrTokenInvalid '''')
      | Inr p \<Rightarrow>
          if pa_MediaID p \<noteq> mf_ID mf then Inl (ErrTokenInvalid ''token mediaID does not match'')
          else if truncate_second (mf_UpdatedAt mf) \<noteq> pa_SourceUpdatedAt p then Inl ErrTokenStale
          else
            let req = zero_Request\<lparr>rq_Offset := offset\<rparr> in
            Inr (if \<not> pa_DirectPlay p \<and> pa_TargetFormat p \<noteq> '''' then
                   req\<lparr>rq_Format := pa_TargetFormat p, rq_BitRate := pa_TargetBitrate p,
                       rq_SampleRate := pa_TargetSampleRate p, rq_BitDepth := pa_TargetBitDepth p,
                       rq_Channels := pa_TargetChannels p\<rparr>
                 else req))"

section \<open>Round trip\<close>

fun token_claim_of :: "claim \<Rightarrow> token_claim" where
  "token_claim_of (CStr s) = TStr s"
| "token_claim_of (CBool b) = TBool b"
| "token_claim_of (CInt i) = TFloat (float64_of_int i)"

definition decoded :: "claims \<Rightarrow> jwt_token" where
  "decoded m = map (\<lambda>(k, c). (k, token_claim_of c)) m"

definition jwt_faithful :: "jwt_lib \<Rightarrow> bool" where
  "jwt_faithful jwt \<longleftrightarrow>
     (\<forall>m s e now. jwt_Encode jwt m = Inr s \<longrightarrow> map_of m ''exp'' = Some (CInt e) \<longrightarrow> unix now < e \<longrightarrow>
        jwt_Verify jwt now s = Inr (decoded m))"

lemma map_of_decoded: "map_of (decoded m) k = map_option token_claim_of (map_of m k)"
  by (induction m) (auto simp: decoded_def)

lemma map_of_put_if: "map_of (put_if b k v m) k' = (if b \<and> k = k' then Some v else map_of m k')"
  by (simp add: put_if_def)

lemma map_of_toClaimsMap:
  fixes now d iss
  defines "m \<equiv> map_of ((''iss'', iss) # toClaimsMap now d)"
    and "t \<equiv> td_CanTranscode d \<and> td_TargetFormat d \<noteq> ''''"
  shows "m ''mid'' = Some (CStr (td_MediaID d))"
    and "m ''ua'' = Some (CInt (unix (td_SourceUpdatedAt d)))"
    and "m ''exp'' = Some (CInt (unix (now + tokenTTL)))"
    and "m ''dp'' = (if td_CanDirectPlay d then Some (CBool True) else None)"
    and "m ''f'' = (if t then Some (CStr (td_TargetFormat d)) else None)"
    and "m ''b'' = (if t \<and> td_TargetBitrate d \<noteq> 0 then Some (CInt (td_TargetBitrate d)) else None)"
    and "m ''ch'' = (if t \<and> td_TargetChannels d \<noteq> 0 then Some (CInt (td_TargetChannels d)) else None)"
    and "m ''sr'' = (if t \<and> td_TargetSampleRate d \<noteq> 0 then Some (CInt (td_TargetSampleRate d)) else None)"
    and "m ''bd'' = (if t \<and> td_TargetBitDepth d \<noteq> 0 then Some (CInt (td_TargetBitDepth d)) else None)"
  unfolding m_def t_def toClaimsMap_def Let_def unix_def truncate_second_def second_def
  by (simp_all add: map_of_put_if)

text \<open>The numbers of a decision fit in the mantissa of a \<open>float64\<close>.\<close>

definition small_numbers :: "TranscodeDecision \<Rightarrow> bool" where
  "small_numbers d \<longleftrightarrow>
     (\<forall>n \<in> {td_TargetBitrate d, td_TargetChannels d, td_TargetSampleRate d, td_TargetBitDepth d,
             unix (td_SourceUpdatedAt d)}. \<bar>n\<bar> < 2 ^ 53)"

lemma getIntClaim_decoded:
  "map_of m k = (if P then Some (CInt n) else None) \<Longrightarrow> \<bar>n\<bar> < 2 ^ 53 \<Longrightarrow>
   getIntClaim (decoded m) k = (if P then n else 0)"
  by (simp add: getIntClaim_def map_of_decoded float64_exact)

lemma truncate_second_unix: "truncate_second t = unix t * second"
  by (simp add: truncate_second_def unix_def)

lemma paramsFromToken_roundtrip:
  assumes "small_numbers d" and "td_MediaID d \<noteq> ''''" and "unix (td_SourceUpdatedAt d) \<notin> {0, unix zero_time}"
  defines "t \<equiv> td_CanTranscode d \<and> td_TargetFormat d \<noteq> ''''"
  shows "paramsFromToken (decoded ((''iss'', iss) # toClaimsMap now d)) =
     Inr \<lparr>pa_MediaID = td_MediaID d, pa_DirectPlay = td_CanDirectPlay d,
          pa_TargetFormat = (if t then td_TargetFormat d else ''''),
          pa_TargetBitrate = (if t then td_TargetBitrate d else 0),
          pa_TargetChannels = (if t then td_TargetChannels d else 0),
          pa_TargetSampleRate = (if t then td_TargetSampleRate d else 0),
          pa_TargetBitDepth = (if t then td_TargetBitDepth d else 0),
          pa_SourceUpdatedAt = truncate_second (td_SourceUpdatedAt d)\<rparr>"
proof -
  let ?m = "(''iss'', iss) # toClaimsMap now d"
  note m = map_of_toClaimsMap [of iss now d, folded t_def]
  have i: "getIntClaim (decoded ?m) ''b'' = (if t then td_TargetBitrate d else 0)"
      "getIntClaim (decoded ?m) ''ch'' = (if t then td_TargetChannels d else 0)"
      "getIntClaim (decoded ?m) ''sr'' = (if t then td_TargetSampleRate d else 0)"
      "getIntClaim (decoded ?m) ''bd'' = (if t then td_TargetBitDepth d else 0)"
    using assms(1) getIntClaim_decoded [OF m(6)] getIntClaim_decoded [OF m(7)] getIntClaim_decoded [OF m(8)]
      getIntClaim_decoded [OF m(9)]
    by (auto simp: small_numbers_def)
  have ua: "getIntClaim (decoded ?m) ''ua'' = unix (td_SourceUpdatedAt d)"
    using m(2) assms(1) by (simp del: map_of.simps add: getIntClaim_def map_of_decoded float64_exact small_numbers_def)
  have s: "get_string (decoded ?m) ''mid'' = Some (td_MediaID d)"
      "get_bool (decoded ?m) ''dp'' = (if td_CanDirectPlay d then Some True else None)"
      "get_string (decoded ?m) ''f'' = (if t then Some (td_TargetFormat d) else None)"
    unfolding get_string_def get_bool_def map_of_decoded m by simp_all
  have "unix (td_SourceUpdatedAt d) * second \<noteq> zero_time"
    using assms(3) by (auto simp: unix_def zero_time_def second_def)
  then show ?thesis
    using assms(2,3) unfolding paramsFromToken_def Let_def i ua s by (simp add: truncate_second_unix)
qed

text \<open>
  C39 (roundtrip): a transcode token, used before it expires, gives back the decision it was made from:
  the request has the decision's target format, bitrate, sample rate, bit depth and channels (and none
  of them for direct play), a token for another file is invalid, and one for a file changed since (to
  the second) is stale. The file must have an id and a modification time other than the epoch and the
  zero time, and the JWT library must return the claims it signed.
\<close>

theorem ResolveRequestFromToken_roundtrip:
  assumes "jwt_faithful jwt" and "CreateTranscodeParams jwt now d = Inr s"
    and "unix now' < unix (now + tokenTTL)" and "small_numbers d" and "td_MediaID d \<noteq> ''''"
    and "unix (td_SourceUpdatedAt d) \<notin> {0, unix zero_time}"
  shows "ResolveRequestFromToken jwt now' s mf offset =
     (if mf_ID mf \<noteq> td_MediaID d then Inl (ErrTokenInvalid ''token mediaID does not match'')
      else if unix (mf_UpdatedAt mf) \<noteq> unix (td_SourceUpdatedAt d) then Inl ErrTokenStale
      else Inr (if \<not> td_CanDirectPlay d \<and> td_CanTranscode d \<and> td_TargetFormat d \<noteq> ''''
                then \<lparr>rq_Format = td_TargetFormat d, rq_BitRate = td_TargetBitrate d,
                      rq_SampleRate = td_TargetSampleRate d, rq_BitDepth = td_TargetBitDepth d,
                      rq_Channels = td_TargetChannels d, rq_Offset = offset\<rparr>
                else zero_Request\<lparr>rq_Offset := offset\<rparr>))"
proof -
  let ?m = "(''iss'', CStr ''ND'') # toClaimsMap now d"
  have "jwt_Verify jwt now' s = Inr (decoded ?m)"
    using assms(1-3) map_of_toClaimsMap(3) [of "CStr ''ND''" now d]
    unfolding jwt_faithful_def CreateTranscodeParams_def EncodeToken_def by blast
  then have p: "parseTranscodeParams jwt now' s = paramsFromToken (decoded ?m)"
    by (simp add: parseTranscodeParams_def)
  have "second \<noteq> 0" by (simp add: second_def)
  then show ?thesis
    unfolding ResolveRequestFromToken_def p paramsFromToken_roundtrip [OF assms(4-6)]
    by (auto simp: truncate_second_unix zero_Request_def)
qed

definition ex_jwt :: jwt_lib where
  "ex_jwt =
     (let m = (''iss'', CStr ''ND'') # toClaimsMap 0 (decide ex_env (ex_flac\<lparr>mf_UpdatedAt := 5 * second\<rparr>) None ex_client)
      in \<lparr>jwt_Encode = (\<lambda>c. if c = m then Inr ''tok'' else Inl ''no key''),
          jwt_Verify = (\<lambda>_ s. if s = ''tok'' then Inr (decoded m) else Inl ''bad signature'')\<rparr>)"

theorem ResolveRequestFromToken_roundtrip_witness:
  "\<exists>r. ResolveRequestFromToken ex_jwt second ''tok'' (ex_flac\<lparr>mf_UpdatedAt := 5 * second\<rparr>) 3 = Inr r \<and>
       rq_Format r = ''mp3'' \<and> rq_Offset r = 3"
proof -
  let ?mf = "ex_flac\<lparr>mf_UpdatedAt := 5 * second\<rparr>"
  let ?d = "decide ex_env ?mf None ex_client"
  have d: "td_CanTranscode ?d" "\<not> td_CanDirectPlay ?d" "td_TargetFormat ?d = ''mp3''" "td_MediaID ?d = ''1''"
      "td_TargetBitrate ?d = 320" "td_TargetChannels ?d = 2" "td_TargetSampleRate ?d = 48000" "td_TargetBitDepth ?d = 0"
      "td_SourceUpdatedAt ?d = 5 * second"
    by (simp_all add: decider_eval)
  have "jwt_faithful ex_jwt" by (simp add: jwt_faithful_def ex_jwt_def Let_def)
  moreover have "CreateTranscodeParams ex_jwt 0 ?d = Inr ''tok''"
    by (simp add: CreateTranscodeParams_def EncodeToken_def ex_jwt_def Let_def)
  moreover have "unix second < unix (0 + tokenTTL)" "small_numbers ?d" "unix (td_SourceUpdatedAt ?d) \<notin> {0, unix zero_time}"
    unfolding small_numbers_def d by (simp_all add: unix_def second_def tokenTTL_def zero_time_def)
  moreover have "mf_ID ?mf = ''1''" by (simp add: ex_flac_def)
  ultimately show ?thesis
    using ResolveRequestFromToken_roundtrip [of ex_jwt 0 ?d "''tok''" second ?mf 3] by (simp add: d)
qed

end
