(* ===== verification/Go_Concurrency.thy ===== *)
theory Go_Concurrency
  imports Prelude
begin

text \<open>
  Goroutines and the buffered channels and counters they share. A component with concurrent callers is
  a step relation on a state that holds the shared variables and a list with one entry per call in
  progress; a step is one critical section or one channel operation of one call. A channel of empty
  structs is its number of elements: a send is a step only while there is room, a receive only while
  there is an element.

  The locale \<open>token_pool\<close> is the contract of a counter that guards a resource: what the shared variable
  says is taken is what the calls in progress hold, and it never exceeds the capacity.
\<close>

section \<open>Reachable states\<close>

inductive reachable :: "'s \<Rightarrow> ('s \<Rightarrow> 's \<Rightarrow> bool) \<Rightarrow> 's \<Rightarrow> bool" for start step where
  reachable_start: "reachable start step start"
| reachable_step: "reachable start step s \<Longrightarrow> step s s' \<Longrightarrow> reachable start step s'"

lemma reachable_invariant:
  assumes "reachable start step s" and "I start" and "\<And>s s'. I s \<Longrightarrow> step s s' \<Longrightarrow> I s'"
  shows "I s"
  using assms(1) by induction (auto intro: assms(2,3))

section \<open>Calls in progress\<close>

definition calls :: "('a \<Rightarrow> bool) \<Rightarrow> 'a list \<Rightarrow> nat" where
  "calls P xs = length (filter P xs)"

lemma calls_Nil [simp]: "calls P [] = 0"
  by (simp add: calls_def)

lemma calls_Cons [simp]: "calls P (x # xs) = (if P x then 1 else 0) + calls P xs"
  by (simp add: calls_def)

lemma calls_append [simp]: "calls P (xs @ ys) = calls P xs + calls P ys"
  by (simp add: calls_def)

lemma calls_update:
  "i < length xs \<Longrightarrow>
   int (calls P (xs[i := y])) = int (calls P xs) - (if P (xs ! i) then 1 else 0) + (if P y then 1 else 0)"
proof (induction xs arbitrary: i)
  case Nil
  then show ?case by simp
next
  case (Cons x xs)
  then show ?case by (cases i) auto
qed

lemma calls_update_same:
  "i < length xs \<Longrightarrow> P (xs ! i) = P y \<Longrightarrow> calls P (xs[i := y]) = calls P xs"
  using calls_update [of i xs P y] by (simp split: if_splits)

lemma calls_pos: "i < length xs \<Longrightarrow> P (xs ! i) \<Longrightarrow> 0 < calls P xs"
  by (auto simp: calls_def filter_empty_conv intro: nth_mem)

lemma calls_mono: "(\<And>x. x \<in> set xs \<Longrightarrow> P x \<Longrightarrow> Q x) \<Longrightarrow> calls P xs \<le> calls Q xs"
  by (induction xs) auto

lemma calls_zero: "calls P xs = 0 \<longleftrightarrow> (\<forall>x \<in> set xs. \<not> P x)"
  by (induction xs) auto

lemma calls_cong: "(\<And>x. x \<in> set xs \<Longrightarrow> P x = Q x) \<Longrightarrow> calls P xs = calls Q xs"
  by (induction xs) auto

section \<open>Guarded resources\<close>

locale token_pool =
  fixes start :: 's and step :: "'s \<Rightarrow> 's \<Rightarrow> bool" and wf :: "'s \<Rightarrow> bool" and taken :: "'s \<Rightarrow> int"
    and held :: "'s \<Rightarrow> nat" and cap :: int
  assumes cap_nonneg: "0 \<le> cap"
    and start_wf: "wf start"
    and start_empty: "taken start = 0 \<and> held start = 0"
    and step_wf: "step s s' \<Longrightarrow> wf s \<Longrightarrow> wf s'"
    and step_balanced: "step s s' \<Longrightarrow> wf s \<Longrightarrow> taken s = int (held s) \<Longrightarrow> taken s' = int (held s')"
    and step_capped: "step s s' \<Longrightarrow> wf s \<Longrightarrow> taken s \<le> cap \<Longrightarrow> taken s' \<le> cap"
begin

lemma wf_reachable: "reachable start step s \<Longrightarrow> wf s"
  by (induction rule: reachable.induct) (auto intro: start_wf step_wf)

lemma taken_held: "reachable start step s \<Longrightarrow> taken s = int (held s)"
  by (induction rule: reachable.induct) (simp_all add: start_empty step_balanced wf_reachable)

lemma taken_cap: "reachable start step s \<Longrightarrow> taken s \<le> cap"
  by (induction rule: reachable.induct) (auto simp: start_empty cap_nonneg intro: step_capped wf_reachable)

lemma held_cap: "reachable start step s \<Longrightarrow> int (held s) \<le> cap"
  using taken_held taken_cap by metis

lemma none_held: "reachable start step s \<Longrightarrow> held s = 0 \<Longrightarrow> taken s = 0"
  by (simp add: taken_held)

lemma some_taken: "reachable start step s \<Longrightarrow> 0 < held s \<Longrightarrow> 0 < taken s"
  by (simp add: taken_held)

end

end
