(* ===== verification/Transcode_Limiter.thy ===== *)
theory Transcode_Limiter
  imports Go_Concurrency
begin

text \<open>
  The limiter of concurrent transcodes, \<open>core/stream/limiter.go\<close>: a buffered channel for the global cap
  and a map of counters for the cap per user. \<open>Acquire\<close> is two atomic steps, the reservation for the user
  under the mutex and the non-blocking send to the global channel, and the release function is two as
  well, the receive and \<open>releasePerUser\<close>. The calls of several goroutines interleave at these steps.
\<close>

section \<open>State and operations\<close>

record limiter =
  tl_maxPerUser :: int
  tl_capacity :: "nat option"
  tl_global :: nat
  tl_perUser :: "string \<rightharpoonup> int"

text \<open>\<open>NewTranscodeLimiter\<close>: \<open>None\<close> is the limiter that does nothing.\<close>

definition NewTranscodeLimiter :: "int \<Rightarrow> int \<Rightarrow> limiter option" where
  "NewTranscodeLimiter maxConcurrent maxPerUser =
     (if maxConcurrent \<le> 0 \<and> maxPerUser \<le> 0 then None
      else Some \<lparr>tl_maxPerUser = maxPerUser,
                 tl_capacity = (if maxConcurrent > 0 then Some (nat maxConcurrent) else None),
                 tl_global = 0, tl_perUser = Map.empty\<rparr>)"

definition user_count :: "limiter \<Rightarrow> string \<Rightarrow> int" where
  "user_count l user = (case tl_perUser l user of None \<Rightarrow> 0 | Some n \<Rightarrow> n)"

definition perUserActive :: "limiter \<Rightarrow> string \<Rightarrow> bool" where
  "perUserActive l user = (tl_maxPerUser l > 0 \<and> user \<noteq> '''')"

text \<open>The first critical section of \<open>Acquire\<close>; \<open>None\<close> is the rejection.\<close>

definition reserve_user :: "limiter \<Rightarrow> string \<Rightarrow> limiter option" where
  "reserve_user l user =
     (if perUserActive l user then
        (if user_count l user \<ge> tl_maxPerUser l then None
         else Some (l\<lparr>tl_perUser := (tl_perUser l)(user \<mapsto> user_count l user + 1)\<rparr>))
      else Some l)"

definition releasePerUser :: "limiter \<Rightarrow> string \<Rightarrow> limiter" where
  "releasePerUser l user =
     (let n = user_count l user - 1
      in l\<lparr>tl_perUser := (if n \<le> 0 then (tl_perUser l)(user := None) else (tl_perUser l)(user \<mapsto> n))\<rparr>)"

text \<open>The send in the \<open>select\<close>; \<open>None\<close> is its \<open>default\<close> branch.\<close>

definition send_global :: "limiter \<Rightarrow> limiter option" where
  "send_global l =
     (case tl_capacity l of
        None \<Rightarrow> Some l
      | Some c \<Rightarrow> if tl_global l < c then Some (l\<lparr>tl_global := tl_global l + 1\<rparr>) else None)"

text \<open>The receive of the release function; \<open>None\<close> would block.\<close>

definition receive_global :: "limiter \<Rightarrow> limiter option" where
  "receive_global l =
     (case tl_capacity l of
        None \<Rightarrow> Some l
      | Some c \<Rightarrow> if tl_global l > 0 then Some (l\<lparr>tl_global := tl_global l - 1\<rparr>) else None)"

text \<open>One call alone: \<open>Acquire\<close> and the first call of the release function it returns.\<close>

definition Acquire :: "limiter \<Rightarrow> string \<Rightarrow> limiter \<times> bool" where
  "Acquire l user =
     (case reserve_user l user of
        None \<Rightarrow> (l, False)
      | Some l1 \<Rightarrow>
          (case send_global l1 of
             Some l2 \<Rightarrow> (l2, True)
           | None \<Rightarrow> ((if perUserActive l user then releasePerUser l1 user else l1), False)))"

definition release :: "limiter \<Rightarrow> string \<Rightarrow> limiter option" where
  "release l user =
     map_option (\<lambda>l1. if perUserActive l user then releasePerUser l1 user else l1) (receive_global l)"

section \<open>Interleaved calls\<close>

datatype phase = Reserved | Undo | Holding | Released | Finished | Rejected

type_synonym call = "string \<times> phase"

type_synonym limiter_state = "limiter \<times> call list"

inductive limiter_step :: "limiter_state \<Rightarrow> limiter_state \<Rightarrow> bool" where
  reserve: "reserve_user l u = Some l' \<Longrightarrow> limiter_step (l, cs) (l', cs @ [(u, Reserved)])"
| refuse: "reserve_user l u = None \<Longrightarrow> limiter_step (l, cs) (l, cs @ [(u, Rejected)])"
| send: "i < length cs \<Longrightarrow> cs ! i = (u, Reserved) \<Longrightarrow> send_global l = Some l' \<Longrightarrow>
         limiter_step (l, cs) (l', cs[i := (u, Holding)])"
| full: "i < length cs \<Longrightarrow> cs ! i = (u, Reserved) \<Longrightarrow> send_global l = None \<Longrightarrow>
         limiter_step (l, cs) (l, cs[i := (u, Undo)])"
| undo: "i < length cs \<Longrightarrow> cs ! i = (u, Undo) \<Longrightarrow>
         limiter_step (l, cs) ((if perUserActive l u then releasePerUser l u else l), cs[i := (u, Rejected)])"
| receive: "i < length cs \<Longrightarrow> cs ! i = (u, Holding) \<Longrightarrow> receive_global l = Some l' \<Longrightarrow>
         limiter_step (l, cs) (l', cs[i := (u, Released)])"
| finish: "i < length cs \<Longrightarrow> cs ! i = (u, Released) \<Longrightarrow>
         limiter_step (l, cs) ((if perUserActive l u then releasePerUser l u else l), cs[i := (u, Finished)])"

inductive_cases limiter_stepE: "limiter_step (l, cs) s'"

text \<open>A second call of a release function finds \<open>released\<close> set and changes nothing: it is no step.\<close>

definition in_transcode :: "call \<Rightarrow> bool" where "in_transcode c \<longleftrightarrow> snd c = Holding"

definition counted_for :: "string \<Rightarrow> call \<Rightarrow> bool" where
  "counted_for u c \<longleftrightarrow> fst c = u \<and> snd c \<in> {Reserved, Undo, Holding, Released}"

definition start_limiter :: "int \<Rightarrow> int \<Rightarrow> limiter_state" where
  "start_limiter mc mu =
     (\<lparr>tl_maxPerUser = mu, tl_capacity = (if mc > 0 then Some (nat mc) else None), tl_global = 0,
       tl_perUser = Map.empty\<rparr>, [])"

section \<open>The caps as token pools\<close>

lemmas limiter_ops = reserve_user_def send_global_def receive_global_def releasePerUser_def Let_def

definition configured :: "int \<Rightarrow> int \<Rightarrow> limiter_state \<Rightarrow> bool" where
  "configured mc mu s \<longleftrightarrow>
     tl_maxPerUser (fst s) = mu \<and> tl_capacity (fst s) = (if mc > 0 then Some (nat mc) else None)"

lemma reserve_user_Some:
  assumes "reserve_user l u = Some l'"
  shows "tl_global l' = tl_global l" and "tl_capacity l' = tl_capacity l" and "tl_maxPerUser l' = tl_maxPerUser l"
    and "user_count l' v = user_count l v + (if perUserActive l u \<and> v = u then 1 else 0)"
    and "perUserActive l u \<Longrightarrow> user_count l u < tl_maxPerUser l"
  using assms by (auto simp: reserve_user_def user_count_def split: if_splits)

lemma releasePerUser_frame [simp]:
  "tl_global (releasePerUser l u) = tl_global l" "tl_capacity (releasePerUser l u) = tl_capacity l"
  "tl_maxPerUser (releasePerUser l u) = tl_maxPerUser l"
  by (simp_all add: releasePerUser_def Let_def)

lemma user_count_release:
  "0 < user_count l u \<Longrightarrow> user_count (releasePerUser l u) v = user_count l v - (if v = u then 1 else 0)"
  by (simp add: releasePerUser_def user_count_def Let_def)

lemma send_global_Some:
  assumes "send_global l = Some l'"
  shows "int (tl_global l') = int (tl_global l) + (if tl_capacity l = None then 0 else 1)"
    and "tl_capacity l' = tl_capacity l" and "tl_maxPerUser l' = tl_maxPerUser l" and "user_count l' v = user_count l v"
    and "tl_capacity l = Some c \<Longrightarrow> tl_global l' \<le> c"
  using assms by (auto simp: send_global_def user_count_def split: if_splits option.splits)

lemma receive_global_Some:
  assumes "receive_global l = Some l'"
  shows "int (tl_global l') = int (tl_global l) - (if tl_capacity l = None then 0 else 1)"
    and "tl_capacity l' = tl_capacity l" and "tl_maxPerUser l' = tl_maxPerUser l" and "user_count l' v = user_count l v"
  using assms by (auto simp: receive_global_def user_count_def split: if_splits option.splits)

lemma configured_step: "limiter_step s s' \<Longrightarrow> configured mc mu s \<Longrightarrow> configured mc mu s'"
  by (induction rule: limiter_step.induct)
    (auto simp: configured_def reserve_user_Some send_global_Some receive_global_Some)

lemma configured_start: "configured mc mu (start_limiter mc mu)"
  by (simp add: configured_def start_limiter_def)

definition global_held :: "int \<Rightarrow> limiter_state \<Rightarrow> nat" where
  "global_held mc s = (if mc > 0 then calls in_transcode (snd s) else 0)"

lemma global_balanced:
  assumes "limiter_step s s'" and "configured mc mu s" and "int (tl_global (fst s)) = int (global_held mc s)"
  shows "int (tl_global (fst s')) = int (global_held mc s')"
  using assms
  by cases (auto simp: configured_def global_held_def in_transcode_def calls_update calls_update_same reserve_user_Some(1)
      send_global_Some(1) receive_global_Some(1))

lemma global_capped:
  assumes "limiter_step s s'" and "configured mc mu s" and "int (tl_global (fst s)) \<le> max 0 mc"
  shows "int (tl_global (fst s')) \<le> max 0 mc"
  using assms
proof cases
  case (send i cs u l l')
  show ?thesis
  proof (cases "mc > 0")
    case True
    then have "tl_global l' \<le> nat mc"
      using send_global_Some(5) [OF send(5), of "nat mc"] assms(2) send(1) by (simp add: configured_def)
    with True send(2) show ?thesis by simp
  next
    case False
    with send_global_Some(1) [OF send(5)] assms(2,3) send(1,2) show ?thesis by (simp add: configured_def)
  qed
qed (auto simp: configured_def reserve_user_Some(1) receive_global_Some(1))

interpretation global: token_pool "start_limiter mc mu" limiter_step "configured mc mu"
    "\<lambda>s. int (tl_global (fst s))" "global_held mc" "max 0 mc" for mc mu
  by unfold_locales
    (simp_all add: configured_start configured_step global_balanced global_capped,
     simp add: start_limiter_def global_held_def)

definition user_held :: "int \<Rightarrow> string \<Rightarrow> limiter_state \<Rightarrow> nat" where
  "user_held mu u s = (if mu > 0 \<and> u \<noteq> '''' then calls (counted_for u) (snd s) else 0)"

lemma user_balanced:
  assumes "limiter_step s s'" and "configured mc mu s" and "user_count (fst s) v = int (user_held mu v s)"
  shows "user_count (fst s') v = int (user_held mu v s')"
proof -
  have pos: "0 < user_count l u"
    if "s = (l, cs)" "i < length cs" "counted_for u (cs ! i)" "perUserActive l u" "v = u" for l cs i u
    using calls_pos [of i cs "counted_for u"] that assms(2,3)
    by (simp add: user_held_def configured_def perUserActive_def)
  have other: "user_count (releasePerUser l u) v = user_count l v" if "v \<noteq> u" for l u
    using that by (simp add: releasePerUser_def user_count_def Let_def)
  from assms(1) show ?thesis
  proof cases
    case (reserve l u l' cs)
    with assms(2,3) show ?thesis
      by (auto simp: user_held_def counted_for_def configured_def perUserActive_def reserve_user_Some(4) [OF reserve(3)])
  next
    case (undo i cs u l)
    with assms(2,3) pos [of l cs i u] other [of u l] show ?thesis
      by (cases "v = u")
        (auto simp: user_held_def counted_for_def configured_def perUserActive_def calls_update calls_update_same
          user_count_release)
  next
    case (finish i cs u l)
    with assms(2,3) pos [of l cs i u] other [of u l] show ?thesis
      by (cases "v = u")
        (auto simp: user_held_def counted_for_def configured_def perUserActive_def calls_update calls_update_same
          user_count_release)
  qed (use assms(3) in \<open>auto simp: user_held_def counted_for_def calls_update_same send_global_Some(4)
        receive_global_Some(4)\<close>)
qed

lemma user_count_nonneg_release: "0 \<le> user_count l v \<Longrightarrow> 0 \<le> user_count (releasePerUser l u) v"
  by (simp add: releasePerUser_def user_count_def Let_def)

lemma user_capped:
  assumes "limiter_step s s'" and "configured mc mu s" and "user_count (fst s) v \<le> max 0 mu"
  shows "user_count (fst s') v \<le> max 0 mu"
proof -
  have rel: "user_count (releasePerUser l u) v \<le> max 0 mu" if "user_count l v \<le> max 0 mu" for l u
    using that by (auto simp: releasePerUser_def user_count_def Let_def)
  from assms show ?thesis
    by cases (auto simp: reserve_user_Some(4) send_global_Some(4) receive_global_Some(4) rel configured_def
        dest: reserve_user_Some(5))
qed

interpretation user: token_pool "start_limiter mc mu" limiter_step "configured mc mu"
    "\<lambda>s. user_count (fst s) u" "user_held mu u" "max 0 mu" for mc mu u
  by unfold_locales
    (simp_all add: configured_start configured_step user_balanced user_capped,
     simp add: start_limiter_def user_held_def user_count_def)

section \<open>Properties\<close>

definition no_zero_entries :: "limiter \<Rightarrow> bool" where
  "no_zero_entries l \<longleftrightarrow> (\<forall>u n. tl_perUser l u = Some n \<longrightarrow> 0 < n)"

lemma no_zero_entries_ops:
  assumes "no_zero_entries l"
  shows "reserve_user l u = Some l' \<Longrightarrow> no_zero_entries l'" and "no_zero_entries (releasePerUser l u)"
    and "send_global l = Some l' \<Longrightarrow> no_zero_entries l'" and "receive_global l = Some l' \<Longrightarrow> no_zero_entries l'"
  using assms
  by (auto simp: no_zero_entries_def limiter_ops user_count_def split: if_splits option.splits) (smt (verit))+

lemma no_zero_entries_reachable: "reachable (start_limiter mc mu) limiter_step s \<Longrightarrow> no_zero_entries (fst s)"
proof (rule reachable_invariant [where I = "\<lambda>s. no_zero_entries (fst s)"], assumption)
  show "no_zero_entries (fst (start_limiter mc mu))"
    by (simp add: no_zero_entries_def start_limiter_def)
  show "no_zero_entries (fst s')" if "no_zero_entries (fst s)" "limiter_step s s'" for s s'
    using that(2,1) by cases (auto intro: no_zero_entries_ops)
qed

text \<open>
  C21 (safety): however the calls interleave, at most \<open>maxConcurrent\<close> transcodes run at once and at most
  \<open>maxPerUser\<close> of one named user (each cap only when it is positive), a release never blocks on the
  channel, and once every call has ended the channel is empty and the map has no entry.
\<close>

theorem transcode_limiter_safe:
  assumes r: "reachable (start_limiter mc mu) limiter_step (l, cs)"
  shows "(0 < mc \<longrightarrow> int (calls in_transcode cs) \<le> mc) \<and>
         (\<forall>u. 0 < mu \<and> u \<noteq> '''' \<longrightarrow> int (calls (\<lambda>c. in_transcode c \<and> fst c = u) cs) \<le> mu) \<and>
         (\<forall>i < length cs. in_transcode (cs ! i) \<longrightarrow> receive_global l \<noteq> None) \<and>
         ((\<forall>c \<in> set cs. snd c \<in> {Finished, Rejected}) \<longrightarrow> tl_global l = 0 \<and> tl_perUser l = Map.empty)"
proof (intro conjI allI impI)
  show "int (calls in_transcode cs) \<le> mc" if "0 < mc"
    using global.held_cap [OF r] that by (simp add: global_held_def)
  show "int (calls (\<lambda>c. in_transcode c \<and> fst c = u) cs) \<le> mu" if "0 < mu \<and> u \<noteq> ''''" for u
  proof -
    have "calls (\<lambda>c. in_transcode c \<and> fst c = u) cs \<le> calls (counted_for u) cs"
      by (rule calls_mono) (auto simp: in_transcode_def counted_for_def)
    then show ?thesis using user.held_cap [OF r, of u] that by (simp add: user_held_def)
  qed
  have conf: "configured mc mu (l, cs)" using r by (rule global.wf_reachable)
  show "receive_global l \<noteq> None" if "i < length cs" "in_transcode (cs ! i)" for i
  proof (cases "mc > 0")
    case True
    with that global.some_taken [OF r] calls_pos [of i cs in_transcode] conf show ?thesis
      by (simp add: receive_global_def configured_def global_held_def)
  next
    case False
    with conf show ?thesis by (simp add: receive_global_def configured_def)
  qed
  assume ended: "\<forall>c \<in> set cs. snd c \<in> {Finished, Rejected}"
  then have "calls in_transcode cs = 0" "\<And>u. calls (counted_for u) cs = 0"
    by (auto simp: calls_zero in_transcode_def counted_for_def)
  then have "global_held mc (l, cs) = 0" and u: "\<And>u. user_held mu u (l, cs) = 0"
    by (simp_all add: global_held_def user_held_def)
  then show "tl_global l = 0" using global.none_held [OF r] by simp
  have "tl_perUser l u = None" for u
    using user.none_held [OF r u [of u]] no_zero_entries_reachable [OF r]
    by (cases "tl_perUser l u") (auto simp: user_count_def no_zero_entries_def)
  then show "tl_perUser l = Map.empty" by auto
qed

lemma ex_limiter_run:
  "reachable (start_limiter 1 1) limiter_step
     (\<lparr>tl_maxPerUser = 1, tl_capacity = Some 1, tl_global = 1, tl_perUser = [''u'' \<mapsto> 1]\<rparr>,
      [(''u'', Holding), (''u'', Rejected)])"
proof -
  let ?l = "\<lambda>g m. \<lparr>tl_maxPerUser = 1, tl_capacity = Some 1, tl_global = g, tl_perUser = m\<rparr>"
  have "reachable (start_limiter 1 1) limiter_step (?l 0 Map.empty, [])"
    using reachable_start [of "start_limiter 1 1" limiter_step] by (simp add: start_limiter_def)
  moreover have "limiter_step (?l 0 Map.empty, []) (?l 0 [''u'' \<mapsto> 1], [] @ [(''u'', Reserved)])"
    by (rule limiter_step.reserve) (simp add: reserve_user_def perUserActive_def user_count_def)
  moreover have "limiter_step (?l 0 [''u'' \<mapsto> 1], [(''u'', Reserved)])
      (?l 1 [''u'' \<mapsto> 1], [(''u'', Reserved)][0 := (''u'', Holding)])"
    by (rule limiter_step.send) (simp_all add: send_global_def)
  moreover have "limiter_step (?l 1 [''u'' \<mapsto> 1], [(''u'', Holding)]) (?l 1 [''u'' \<mapsto> 1], [(''u'', Holding)] @ [(''u'', Rejected)])"
    by (rule limiter_step.refuse) (simp add: reserve_user_def perUserActive_def user_count_def)
  ultimately show ?thesis by (simp, blast intro: reachable_step)
qed

theorem transcode_limiter_safe_witness:
  "int (calls in_transcode [(''u'', Holding), (''u'', Rejected)]) \<le> 1 \<and>
   receive_global \<lparr>tl_maxPerUser = 1, tl_capacity = Some 1, tl_global = 1, tl_perUser = [''u'' \<mapsto> 1]\<rparr> \<noteq> None"
  using transcode_limiter_safe [OF ex_limiter_run] by (force simp: in_transcode_def)

lemma send_receive: "send_global l = Some l' \<Longrightarrow> receive_global l' = Some l"
  by (auto simp: send_global_def receive_global_def split: option.splits if_splits)

lemma reserve_undo:
  assumes "no_zero_entries l" and "reserve_user l u = Some l1"
  shows "(if perUserActive l u then releasePerUser l1 u else l1) = l"
proof -
  have "0 < n" if "tl_perUser l u = Some n" for n
    using assms(1) that by (simp add: no_zero_entries_def)
  then show ?thesis
    using assms(2)
    by (cases "tl_perUser l u")
      (auto simp: reserve_user_def releasePerUser_def user_count_def Let_def fun_upd_idem split: if_splits)
qed

text \<open>
  \<open>Acquire\<close> succeeds exactly when the user is below the cap per user and the channel has
  room; a refused call leaves the limiter as it was, and a release after a successful one restores it.
\<close>

lemma Acquire_spec:
  assumes "no_zero_entries l" and "Acquire l u = (l', ok)"
  shows "(ok \<longleftrightarrow> (perUserActive l u \<longrightarrow> user_count l u < tl_maxPerUser l) \<and>
                   (\<forall>c. tl_capacity l = Some c \<longrightarrow> tl_global l < c)) \<and>
         (\<not> ok \<longrightarrow> l' = l) \<and> (ok \<longrightarrow> release l' u = Some l)"
proof (cases "reserve_user l u")
  case None
  then have "perUserActive l u" "\<not> user_count l u < tl_maxPerUser l"
    by (auto simp: reserve_user_def split: if_splits)
  with None assms(2) show ?thesis by (auto simp: Acquire_def)
next
  case (Some l1)
  note res = reserve_user_Some [OF Some] and undo = reserve_undo [OF assms(1) Some]
  have act: "perUserActive l1 u = perUserActive l u" by (simp add: perUserActive_def res(3))
  show ?thesis
  proof (cases "send_global l1")
    case None
    then have "\<exists>c. tl_capacity l = Some c \<and> \<not> tl_global l < c"
      by (auto simp: send_global_def res split: option.splits if_splits)
    moreover have "l' = l" "\<not> ok" using assms(2) undo by (auto simp: Acquire_def Some None)
    ultimately show ?thesis by blast
  next
    case 2: (Some l2)
    have "perUserActive l2 u = perUserActive l u"
      by (simp add: perUserActive_def send_global_Some(3) [OF 2] res(3))
    then have "release l2 u = Some l" using undo by (simp add: release_def send_receive [OF 2])
    moreover have "\<forall>c. tl_capacity l = Some c \<longrightarrow> tl_global l < c"
      using 2 by (auto simp: send_global_def res split: if_splits)
    moreover have "l' = l2" "ok" using assms(2) by (auto simp: Acquire_def Some 2)
    ultimately show ?thesis using res(5) by blast
  qed
qed

lemma Acquire_spec_witness:
  "snd (Acquire \<lparr>tl_maxPerUser = 2, tl_capacity = Some 1, tl_global = 0, tl_perUser = Map.empty\<rparr> ''u'') \<and>
   release (fst (Acquire \<lparr>tl_maxPerUser = 2, tl_capacity = Some 1, tl_global = 0, tl_perUser = Map.empty\<rparr> ''u'')) ''u'' =
     Some \<lparr>tl_maxPerUser = 2, tl_capacity = Some 1, tl_global = 0, tl_perUser = Map.empty\<rparr>"
  using Acquire_spec [of "\<lparr>tl_maxPerUser = 2, tl_capacity = Some 1, tl_global = 0, tl_perUser = Map.empty\<rparr>" "''u''"
      "fst (Acquire \<lparr>tl_maxPerUser = 2, tl_capacity = Some 1, tl_global = 0, tl_perUser = Map.empty\<rparr> ''u'')" True]
  by (simp add: no_zero_entries_def Acquire_def reserve_user_def send_global_def perUserActive_def user_count_def)

end
