(* ===== verification/Throttle.thy ===== *)
theory Throttle
  imports Go_Concurrency
begin

text \<open>
  The request throttle, \<open>server/throttle_backlog.go\<close>: two channels of tokens, one for running handlers
  and one for admitted requests (running or waiting). A request takes a backlog token, then waits for a
  token until its timer fires or its context is done; the response is buffered, the tokens go back before
  it is written to the client. The timer and the end of the context are choices of the environment.
\<close>

section \<open>The channels\<close>

record requestThrottle =
  th_limit :: nat
  th_backlogLimit :: nat
  th_tokens :: nat
  th_backlogTokens :: nat

definition ThrottleBacklog :: "nat \<Rightarrow> nat \<Rightarrow> requestThrottle" where
  "ThrottleBacklog limit backlogLimit =
     \<lparr>th_limit = limit, th_backlogLimit = backlogLimit, th_tokens = limit, th_backlogTokens = limit + backlogLimit\<rparr>"

text \<open>Receive from a channel of tokens and send to it; \<open>None\<close> when the operation would block.\<close>

definition take_token :: "requestThrottle \<Rightarrow> requestThrottle option" where
  "take_token t = (if th_tokens t > 0 then Some (t\<lparr>th_tokens := th_tokens t - 1\<rparr>) else None)"

definition put_token :: "requestThrottle \<Rightarrow> requestThrottle option" where
  "put_token t = (if th_tokens t < th_limit t then Some (t\<lparr>th_tokens := th_tokens t + 1\<rparr>) else None)"

definition take_backlog :: "requestThrottle \<Rightarrow> requestThrottle option" where
  "take_backlog t =
     (if th_backlogTokens t > 0 then Some (t\<lparr>th_backlogTokens := th_backlogTokens t - 1\<rparr>) else None)"

definition put_backlog :: "requestThrottle \<Rightarrow> requestThrottle option" where
  "put_backlog t =
     (if th_backlogTokens t < th_limit t + th_backlogLimit t
      then Some (t\<lparr>th_backlogTokens := th_backlogTokens t + 1\<rparr>) else None)"

section \<open>Requests in progress\<close>

datatype throttle_error = ErrThrottleCapacityExceeded | ErrThrottleTimeout | ContextError

text \<open>
  \<open>Waiting\<close>: has a backlog token. \<open>GivingUp\<close>: about to return it. \<open>Running\<close>: has both tokens.
  \<open>Half\<close>: the release function has returned the token, not yet the backlog token.
\<close>

datatype throttle_phase = Waiting | GivingUp throttle_error | Running | Half | Served | Refused throttle_error

type_synonym throttle_state = "requestThrottle \<times> throttle_phase list"

inductive throttle_step :: "throttle_state \<Rightarrow> throttle_state \<Rightarrow> bool" where
  admit: "take_backlog t = Some t' \<Longrightarrow> throttle_step (t, rs) (t', rs @ [Waiting])"
| exceeded: "take_backlog t = None \<Longrightarrow> throttle_step (t, rs) (t, rs @ [Refused ErrThrottleCapacityExceeded])"
| cancelled: "throttle_step (t, rs) (t, rs @ [Refused ContextError])"
| run: "i < length rs \<Longrightarrow> rs ! i = Waiting \<Longrightarrow> take_token t = Some t' \<Longrightarrow>
        throttle_step (t, rs) (t', rs[i := Running])"
| give_up: "i < length rs \<Longrightarrow> rs ! i = Waiting \<Longrightarrow> e \<in> {ErrThrottleTimeout, ContextError} \<Longrightarrow>
        throttle_step (t, rs) (t, rs[i := GivingUp e])"
| gone: "i < length rs \<Longrightarrow> rs ! i = GivingUp e \<Longrightarrow> put_backlog t = Some t' \<Longrightarrow>
        throttle_step (t, rs) (t', rs[i := Refused e])"
| release: "i < length rs \<Longrightarrow> rs ! i = Running \<Longrightarrow> put_token t = Some t' \<Longrightarrow>
        throttle_step (t, rs) (t', rs[i := Half])"
| served: "i < length rs \<Longrightarrow> rs ! i = Half \<Longrightarrow> put_backlog t = Some t' \<Longrightarrow>
        throttle_step (t, rs) (t', rs[i := Served])"

definition admitted :: "throttle_phase \<Rightarrow> bool" where
  "admitted p = (case p of Waiting \<Rightarrow> True | GivingUp _ \<Rightarrow> True | Running \<Rightarrow> True | Half \<Rightarrow> True | _ \<Rightarrow> False)"

lemma admitted_simps [simp]:
  "admitted Waiting" "admitted (GivingUp e)" "admitted Running" "admitted Half" "\<not> admitted Served"
  "\<not> admitted (Refused e)"
  by (simp_all add: admitted_def)

section \<open>The buffered response\<close>

record bufferedResponseWriter =
  bw_header :: "(string \<times> string) list"
  bw_body :: string
  bw_code :: nat

definition new_buffer :: bufferedResponseWriter where
  "new_buffer = \<lparr>bw_header = [], bw_body = '''', bw_code = 0\<rparr>"

definition buffer_Write :: "string \<Rightarrow> bufferedResponseWriter \<Rightarrow> bufferedResponseWriter" where
  "buffer_Write b w = w\<lparr>bw_body := bw_body w @ b\<rparr>"

definition buffer_WriteHeader :: "nat \<Rightarrow> bufferedResponseWriter \<Rightarrow> bufferedResponseWriter" where
  "buffer_WriteHeader code w = (if bw_code w \<noteq> 0 then w else w\<lparr>bw_code := code\<rparr>)"

datatype writer_call = WriteHeader nat | Write string | SetHeader string string

fun serve_buffered :: "writer_call list \<Rightarrow> bufferedResponseWriter \<Rightarrow> bufferedResponseWriter" where
  "serve_buffered [] w = w"
| "serve_buffered (WriteHeader c # cs) w = serve_buffered cs (buffer_WriteHeader c w)"
| "serve_buffered (Write b # cs) w = serve_buffered cs (buffer_Write b w)"
| "serve_buffered (SetHeader k v # cs) w = serve_buffered cs (w\<lparr>bw_header := (k, v) # bw_header w\<rparr>)"

text \<open>
  What the handler sends to the client: an error page when the request was refused, else the buffered
  headers, the code if one was set, and the body. The headers the writer already had stay behind.
\<close>

datatype client_response = TooManyRequests | Response "(string \<times> string) list" "nat option" string

definition handler :: "throttle_error + writer_call list \<Rightarrow> (string \<times> string) list \<Rightarrow> client_response" where
  "handler acquired own_headers =
     (case acquired of
        Inl e \<Rightarrow> TooManyRequests
      | Inr cs \<Rightarrow>
          let buf = serve_buffered cs new_buffer
          in Response (bw_header buf @ own_headers) (if bw_code buf > 0 then Some (bw_code buf) else None) (bw_body buf))"

section \<open>The channels as token pools\<close>

definition throttle_wf :: "nat \<Rightarrow> nat \<Rightarrow> throttle_state \<Rightarrow> bool" where
  "throttle_wf limit backlog s \<longleftrightarrow>
     th_limit (fst s) = limit \<and> th_backlogLimit (fst s) = backlog \<and> th_tokens (fst s) \<le> limit \<and>
     th_backlogTokens (fst s) \<le> limit + backlog"

lemmas throttle_ops = take_token_def put_token_def take_backlog_def put_backlog_def

lemma throttle_wf_step: "throttle_step s s' \<Longrightarrow> throttle_wf l b s \<Longrightarrow> throttle_wf l b s'"
  by (induction rule: throttle_step.induct) (auto simp: throttle_wf_def throttle_ops split: if_splits)

definition tokens_out :: "throttle_state \<Rightarrow> int" where
  "tokens_out s = int (th_limit (fst s)) - int (th_tokens (fst s))"

definition backlog_out :: "throttle_state \<Rightarrow> int" where
  "backlog_out s = int (th_limit (fst s) + th_backlogLimit (fst s)) - int (th_backlogTokens (fst s))"

lemma tokens_balanced:
  assumes "throttle_step s s'" and "tokens_out s = int (calls ((=) Running) (snd s))"
  shows "tokens_out s' = int (calls ((=) Running) (snd s'))"
  using assms by cases (auto simp: tokens_out_def throttle_ops calls_update split: if_splits)

lemma backlog_balanced:
  assumes "throttle_step s s'" and "backlog_out s = int (calls admitted (snd s))"
  shows "backlog_out s' = int (calls admitted (snd s'))"
  using assms by cases (auto simp: backlog_out_def throttle_ops calls_update split: if_splits)

lemma start_throttle:
  "throttle_wf l b (ThrottleBacklog l b, [])" "tokens_out (ThrottleBacklog l b, []) = 0" "backlog_out (ThrottleBacklog l b, []) = 0"
  by (simp_all add: throttle_wf_def tokens_out_def backlog_out_def ThrottleBacklog_def)

lemma throttle_out_capped:
  assumes "throttle_step s s'" and "throttle_wf l b s"
  shows "tokens_out s' \<le> int l" and "backlog_out s' \<le> int l + int b"
  using throttle_wf_step [OF assms] by (simp_all add: throttle_wf_def tokens_out_def backlog_out_def)

interpretation running: token_pool "(ThrottleBacklog l b, [])" throttle_step "throttle_wf l b"
    tokens_out "\<lambda>s. calls ((=) Running) (snd s)" "int l" for l b
  by unfold_locales (simp_all add: start_throttle throttle_wf_step tokens_balanced throttle_out_capped)

interpretation backlog: token_pool "(ThrottleBacklog l b, [])" throttle_step "throttle_wf l b"
    backlog_out "\<lambda>s. calls admitted (snd s)" "int l + int b" for l b
  by unfold_locales (simp_all add: start_throttle throttle_wf_step backlog_balanced throttle_out_capped)

section \<open>Properties\<close>



fun written :: "writer_call list \<Rightarrow> string" where
  "written [] = ''''"
| "written (Write b # cs) = b @ written cs"
| "written (_ # cs) = written cs"

fun first_code :: "writer_call list \<Rightarrow> nat option" where
  "first_code [] = None"
| "first_code (WriteHeader c # cs) = (if c > 0 then Some c else first_code cs)"
| "first_code (_ # cs) = first_code cs"

lemma serve_buffered_body: "bw_body (serve_buffered cs w) = bw_body w @ written cs"
  by (induction cs w rule: serve_buffered.induct) (simp_all add: buffer_Write_def buffer_WriteHeader_def)

lemma serve_buffered_code:
  "bw_code (serve_buffered cs w) =
     (if bw_code w > 0 then bw_code w else case first_code cs of Some c \<Rightarrow> c | None \<Rightarrow> 0)"
  by (induction cs w rule: serve_buffered.induct)
    (auto simp: buffer_Write_def buffer_WriteHeader_def split: option.splits)

lemma first_code_pos: "first_code cs = Some c \<Longrightarrow> 0 < c"
  by (induction cs rule: first_code.induct) (auto split: if_splits)

text \<open>
  A request that got its tokens is answered with everything its handler wrote, in
  order, and the first status code it set (none if it set none); a refused one gets 429.
\<close>

lemma handler_spec:
  "handler (Inl e) hs = TooManyRequests \<and>
   (\<exists>hs'. handler (Inr cs) hs = Response (hs' @ hs) (first_code cs) (written cs))"
  using first_code_pos [of cs]
  by (auto simp: handler_def Let_def serve_buffered_body serve_buffered_code new_buffer_def split: option.splits)

end
