(* ===== verification/Auth_Limiter.thy ===== *)
theory Auth_Limiter
  imports Go_Concurrency
begin

text \<open>
  The limiter of failed logins, \<open>server/subsonic/auth_limiter.go\<close>. Attempts of one key share an entry that
  calls in progress refer to by pointer, so the entries live in a heap (a list, the address is the
  position) and the map of keys holds addresses. Keys are hashed before they reach the map; the hash
  function is a parameter. A call goes through \<open>reserve\<close>, the send to the channel of slots, the second
  check, the credential check itself and \<open>release\<close>; calls interleave at these steps. Time is an argument
  of each step that reads the clock.
\<close>

section \<open>State\<close>

record authAttempts =
  at_failures :: nat
  at_start :: int
  at_slots :: nat
  at_refs :: int

record authLimiter =
  al_limit :: nat
  al_window :: int
  al_keys :: "nat \<rightharpoonup> nat"
  al_heap :: "authAttempts list"
  al_lastSweep :: int

definition newAuthLimiter :: "int \<Rightarrow> int \<Rightarrow> int \<Rightarrow> int \<Rightarrow> authLimiter option" where
  "newAuthLimiter limit window defaultWindow zeroTime =
     (if limit \<le> 0 then None
      else Some \<lparr>al_limit = nat limit, al_window = (if window \<noteq> 0 then window else defaultWindow),
                 al_keys = Map.empty, al_heap = [], al_lastSweep = zeroTime\<rparr>)"

definition update_entry :: "nat \<Rightarrow> (authAttempts \<Rightarrow> authAttempts) \<Rightarrow> authLimiter \<Rightarrow> authLimiter" where
  "update_entry a f l = l\<lparr>al_heap := (al_heap l)[a := f (al_heap l ! a)]\<rparr>"

text \<open>\<open>sweep\<close>: the entries it drops stay in the heap, unreachable from the map.\<close>

definition expired :: "authLimiter \<Rightarrow> int \<Rightarrow> nat \<Rightarrow> bool" where
  "expired l now a \<longleftrightarrow> at_refs (al_heap l ! a) = 0 \<and> now - at_start (al_heap l ! a) \<ge> al_window l"

definition sweep :: "int \<Rightarrow> authLimiter \<Rightarrow> authLimiter" where
  "sweep now l =
     (if now - al_lastSweep l < al_window l then l
      else l\<lparr>al_keys := (\<lambda>h. case al_keys l h of None \<Rightarrow> None | Some a \<Rightarrow> if expired l now a then None else Some a),
             al_lastSweep := now\<rparr>)"

text \<open>The entry of a key, made or restarted if need be.\<close>

definition lookup_entry :: "int \<Rightarrow> nat \<Rightarrow> authLimiter \<Rightarrow> authLimiter \<times> nat" where
  "lookup_entry now h l =
     (case al_keys l h of
        None \<Rightarrow>
          (l\<lparr>al_heap := al_heap l @ [\<lparr>at_failures = 0, at_start = now, at_slots = 0, at_refs = 0\<rparr>],
             al_keys := (al_keys l)(h \<mapsto> length (al_heap l))\<rparr>, length (al_heap l))
      | Some a \<Rightarrow>
          (if now - at_start (al_heap l ! a) \<ge> al_window l
           then update_entry a (\<lambda>e. e\<lparr>at_failures := 0, at_start := now\<rparr>) l else l, a))"

text \<open>\<open>reserve\<close>: the limiter afterwards, and the entry unless the key is blocked.\<close>

definition reserve :: "int \<Rightarrow> nat \<Rightarrow> authLimiter \<Rightarrow> authLimiter \<times> nat option" where
  "reserve now h l0 =
     (case lookup_entry now h (sweep now l0) of
        (l, a) \<Rightarrow>
          if at_failures (al_heap l ! a) \<ge> al_limit l then (l, None)
          else (update_entry a (\<lambda>e. e\<lparr>at_refs := at_refs e + 1\<rparr>) l, Some a))"

definition unref :: "nat \<Rightarrow> authLimiter \<Rightarrow> authLimiter" where
  "unref a l = update_entry a (\<lambda>e. e\<lparr>at_refs := at_refs e - 1\<rparr>) l"

definition send_slot :: "nat \<Rightarrow> authLimiter \<Rightarrow> authLimiter option" where
  "send_slot a l =
     (if at_slots (al_heap l ! a) < al_limit l
      then Some (update_entry a (\<lambda>e. e\<lparr>at_slots := at_slots e + 1\<rparr>) l) else None)"

definition receive_slot :: "nat \<Rightarrow> authLimiter \<Rightarrow> authLimiter option" where
  "receive_slot a l =
     (if at_slots (al_heap l ! a) > 0
      then Some (update_entry a (\<lambda>e. e\<lparr>at_slots := at_slots e - 1\<rparr>) l) else None)"

text \<open>The critical section after the send: whether the call is blocked, and the reference dropped then.\<close>

definition recheck :: "nat \<Rightarrow> authLimiter \<Rightarrow> authLimiter \<times> bool" where
  "recheck a l =
     (if at_failures (al_heap l ! a) \<ge> al_limit l then (unref a l, True) else (l, False))"

text \<open>The critical section of \<open>release\<close>; the receive follows as a step of its own.\<close>

definition record_release :: "nat \<Rightarrow> bool \<Rightarrow> authLimiter \<Rightarrow> authLimiter" where
  "record_release a failed l =
     update_entry a (\<lambda>e. e\<lparr>at_failures := (if failed then at_failures e + 1 else at_failures e),
                           at_refs := at_refs e - 1\<rparr>) l"

section \<open>Interleaved calls\<close>

text \<open>
  \<open>Waiting\<close>: reserved, before the send. \<open>Slotted\<close>: sent, before the second check. \<open>Checking\<close>: a guess in
  progress. \<open>Leaving\<close>: to receive from the channel. \<open>Left\<close>: over.
\<close>

datatype auth_phase = Waiting | Slotted | Checking | Leaving | Left

type_synonym auth_call = "nat \<times> nat \<times> auth_phase"

type_synonym auth_state = "authLimiter \<times> auth_call list"

text \<open>A call is its key's hash, the address of its entry and its phase.\<close>

inductive auth_step :: "auth_state \<Rightarrow> auth_state \<Rightarrow> bool" where
  reserve: "reserve now h l = (l', Some a) \<Longrightarrow> auth_step (l, cs) (l', cs @ [(h, a, Waiting)])"
| refuse: "reserve now h l = (l', None) \<Longrightarrow> auth_step (l, cs) (l', cs)"
| send: "i < length cs \<Longrightarrow> cs ! i = (h, a, Waiting) \<Longrightarrow> send_slot a l = Some l' \<Longrightarrow>
         auth_step (l, cs) (l', cs[i := (h, a, Slotted)])"
| cancel: "i < length cs \<Longrightarrow> cs ! i = (h, a, Waiting) \<Longrightarrow> auth_step (l, cs) (unref a l, cs[i := (h, a, Left)])"
| check: "i < length cs \<Longrightarrow> cs ! i = (h, a, Slotted) \<Longrightarrow> recheck a l = (l', False) \<Longrightarrow>
          auth_step (l, cs) (l', cs[i := (h, a, Checking)])"
| block: "i < length cs \<Longrightarrow> cs ! i = (h, a, Slotted) \<Longrightarrow> recheck a l = (l', True) \<Longrightarrow>
          auth_step (l, cs) (l', cs[i := (h, a, Leaving)])"
| release: "i < length cs \<Longrightarrow> cs ! i = (h, a, Checking) \<Longrightarrow>
            auth_step (l, cs) (record_release a failed l, cs[i := (h, a, Leaving)])"
| leave: "i < length cs \<Longrightarrow> cs ! i = (h, a, Leaving) \<Longrightarrow> receive_slot a l = Some l' \<Longrightarrow>
          auth_step (l, cs) (l', cs[i := (h, a, Left)])"

section \<open>Effect of the operations on the heap\<close>

lemma update_entry_frame [simp]:
  "al_limit (update_entry a f l) = al_limit l" "al_window (update_entry a f l) = al_window l"
  "al_keys (update_entry a f l) = al_keys l" "length (al_heap (update_entry a f l)) = length (al_heap l)"
  by (simp_all add: update_entry_def)

lemma update_entry_nth:
  "b < length (al_heap l) \<Longrightarrow>
   al_heap (update_entry a f l) ! b = (if b = a then f (al_heap l ! b) else al_heap l ! b)"
  by (simp add: update_entry_def nth_list_update)

lemma sweep_frame [simp]:
  "al_limit (sweep now l) = al_limit l" "al_window (sweep now l) = al_window l" "al_heap (sweep now l) = al_heap l"
  by (simp_all add: sweep_def)

lemma sweep_keys:
  "al_keys (sweep now l) h = Some a \<Longrightarrow> al_keys l h = Some a"
  "al_keys l h = Some a \<Longrightarrow> at_refs (al_heap l ! a) \<noteq> 0 \<Longrightarrow> al_keys (sweep now l) h = Some a"
  by (auto simp: sweep_def expired_def split: if_splits option.splits)

definition keys_ok :: "authLimiter \<Rightarrow> bool" where
  "keys_ok l \<longleftrightarrow> (\<forall>h a. al_keys l h = Some a \<longrightarrow> a < length (al_heap l)) \<and> inj_on (al_keys l) (dom (al_keys l))"

lemma keys_ok_sweep: "keys_ok l \<Longrightarrow> keys_ok (sweep now l)"
  unfolding keys_ok_def inj_on_def dom_def
  by (auto dest: sweep_keys(1)) (metis (no_types, lifting) option.distinct(1) sweep_keys(1))

text \<open>What \<open>lookup_entry\<close> does, in the two ways it can go.\<close>

lemma lookup_entry_cases:
  assumes "lookup_entry now h l = (l', a)" and "keys_ok l"
  obtains (old) e where "al_keys l h = Some a" "a < length (al_heap l)" "al_keys l' = al_keys l"
      "al_heap l' = (al_heap l)[a := e]" "at_refs e = at_refs (al_heap l ! a)" "at_slots e = at_slots (al_heap l ! a)"
      "at_failures e \<le> at_failures (al_heap l ! a)" "al_limit l' = al_limit l"
  | (new) e where "al_keys l h = None" "a = length (al_heap l)" "al_keys l' = (al_keys l)(h \<mapsto> a)"
      "al_heap l' = al_heap l @ [e]" "at_refs e = 0" "at_slots e = 0" "at_failures e = 0" "al_limit l' = al_limit l"
proof (cases "al_keys l h")
  case None
  with assms(1) new show ?thesis by (auto simp: lookup_entry_def)
next
  case (Some b)
  then have b: "b < length (al_heap l)" using assms(2) by (auto simp: keys_ok_def)
  show ?thesis
  proof (cases "now - at_start (al_heap l ! b) \<ge> al_window l")
    case True
    with assms(1) Some have "l' = update_entry b (\<lambda>e. e\<lparr>at_failures := 0, at_start := now\<rparr>) l" "a = b"
      by (auto simp: lookup_entry_def)
    then show ?thesis
      using Some b by (intro old [of "(al_heap l ! b)\<lparr>at_failures := 0, at_start := now\<rparr>"]) (simp_all add: update_entry_def)
  next
    case False
    with assms(1) Some have "l' = l" "a = b" by (auto simp: lookup_entry_def)
    then show ?thesis using Some b by (intro old [of "al_heap l ! b"]) simp_all
  qed
qed

text \<open>Both at once: what a reservation can do to the fields of any entry.\<close>

definition entry_or_new :: "authLimiter \<Rightarrow> nat \<Rightarrow> authAttempts" where
  "entry_or_new l b =
     (if b < length (al_heap l) then al_heap l ! b else \<lparr>at_failures = 0, at_start = 0, at_slots = 0, at_refs = 0\<rparr>)"

lemma lookup_entry_effect:
  assumes "lookup_entry now h l = (l', a)" and "keys_ok l"
  shows "keys_ok l'" and "al_limit l' = al_limit l" and "length (al_heap l) \<le> length (al_heap l')"
    and "a < length (al_heap l')" and "al_keys l' h = Some a"
    and "al_keys l k = Some b \<Longrightarrow> al_keys l' k = Some b"
    and "at_slots (entry_or_new l' b) = at_slots (entry_or_new l b)"
    and "at_refs (entry_or_new l' b) = at_refs (entry_or_new l b)"
    and "at_failures (entry_or_new l' b) \<le> at_failures (entry_or_new l b)"
  using assms(1,2)
  by (cases rule: lookup_entry_cases [consumes 2];
      auto simp: keys_ok_def entry_or_new_def nth_list_update nth_append inj_on_def dom_def less_Suc_eq)+

lemma entry_or_new_update:
  "a < length (al_heap l) \<Longrightarrow>
   entry_or_new (update_entry a f l) b = (if b = a then f (entry_or_new l b) else entry_or_new l b)"
  by (simp add: entry_or_new_def update_entry_nth)

lemma keys_ok_update [simp]: "keys_ok (update_entry a f l) = keys_ok l"
  by (simp add: keys_ok_def)

lemma entry_or_new_sweep [simp]: "entry_or_new (sweep now l) b = entry_or_new l b"
  by (simp add: entry_or_new_def)

lemma reserve_effect:
  assumes "reserve now h l0 = (l', r)" and "keys_ok l0"
  shows "keys_ok l'" and "al_limit l' = al_limit l0" and "length (al_heap l0) \<le> length (al_heap l')"
    and "r = Some a \<Longrightarrow> a < length (al_heap l') \<and> al_keys l' h = Some a"
    and "al_keys l0 k = Some b \<Longrightarrow> at_refs (entry_or_new l0 b) \<noteq> 0 \<Longrightarrow> al_keys l' k = Some b"
    and "at_slots (entry_or_new l' b) = at_slots (entry_or_new l0 b)"
    and "at_refs (entry_or_new l' b) = at_refs (entry_or_new l0 b) + (if r = Some b then 1 else 0)"
    and "at_failures (entry_or_new l' b) \<le> at_failures (entry_or_new l0 b)"
proof -
  obtain l1 c where lk: "lookup_entry now h (sweep now l0) = (l1, c)" by fastforce
  note eff = lookup_entry_effect [OF lk keys_ok_sweep [OF assms(2)]]
  have r: "r = (if at_failures (al_heap l1 ! c) \<ge> al_limit l1 then None else Some c)"
      "l' = (if at_failures (al_heap l1 ! c) \<ge> al_limit l1 then l1
             else update_entry c (\<lambda>e. e\<lparr>at_refs := at_refs e + 1\<rparr>) l1)"
    using assms(1) lk by (auto simp: reserve_def split: if_splits)
  note upd = entry_or_new_update [OF eff(4)]
  show "keys_ok l'" "al_limit l' = al_limit l0" "length (al_heap l0) \<le> length (al_heap l')"
    using eff(1-3) by (simp_all add: r)
  show "r = Some a \<Longrightarrow> a < length (al_heap l') \<and> al_keys l' h = Some a"
    using eff(4,5) by (simp add: r split: if_splits)
  show "al_keys l0 k = Some b \<Longrightarrow> at_refs (entry_or_new l0 b) \<noteq> 0 \<Longrightarrow> al_keys l' k = Some b"
    using eff(6) [of k b] sweep_keys(2) [of l0 k b now] assms(2)
    by (simp add: r(2) entry_or_new_def keys_ok_def split: if_splits)
  show "at_slots (entry_or_new l' b) = at_slots (entry_or_new l0 b)"
      "at_refs (entry_or_new l' b) = at_refs (entry_or_new l0 b) + (if r = Some b then 1 else 0)"
      "at_failures (entry_or_new l' b) \<le> at_failures (entry_or_new l0 b)"
    using eff(7-9) [of b] by (cases "b = c"; simp add: r upd)+
qed

section \<open>The slots of an entry as a token pool\<close>

definition auth_start :: "nat \<Rightarrow> int \<Rightarrow> int \<Rightarrow> auth_state" where
  "auth_start limit window t0 =
     (\<lparr>al_limit = limit, al_window = window, al_keys = Map.empty, al_heap = [], al_lastSweep = t0\<rparr>, [])"

definition auth_wf :: "nat \<Rightarrow> auth_state \<Rightarrow> bool" where
  "auth_wf limit s \<longleftrightarrow>
     al_limit (fst s) = limit \<and> keys_ok (fst s) \<and> (\<forall>c \<in> set (snd s). fst (snd c) < length (al_heap (fst s)))"

definition phase_at :: "nat \<Rightarrow> auth_phase set \<Rightarrow> auth_call \<Rightarrow> bool" where
  "phase_at a phs c \<longleftrightarrow> fst (snd c) = a \<and> snd (snd c) \<in> phs"

abbreviation "slot_phases \<equiv> {Slotted, Checking, Leaving}"
abbreviation "ref_phases \<equiv> {Waiting, Slotted, Checking}"

lemmas slot_ops = unref_def send_slot_def receive_slot_def recheck_def record_release_def

text \<open>
  Every step but a reservation moves one call from a phase to another and changes its entry at most:
  \<open>entry_moves\<close> says how the entry changes with the phase.
\<close>

inductive entry_moves :: "nat \<Rightarrow> auth_phase \<Rightarrow> auth_phase \<Rightarrow> authAttempts \<Rightarrow> authAttempts \<Rightarrow> bool" for limit where
  "at_slots e < limit \<Longrightarrow> entry_moves limit Waiting Slotted e (e\<lparr>at_slots := at_slots e + 1\<rparr>)"
| "entry_moves limit Waiting Left e (e\<lparr>at_refs := at_refs e - 1\<rparr>)"
| "at_failures e < limit \<Longrightarrow> entry_moves limit Slotted Checking e e"
| "entry_moves limit Slotted Leaving e (e\<lparr>at_refs := at_refs e - 1\<rparr>)"
| "n \<in> {at_failures e, at_failures e + 1} \<Longrightarrow>
   entry_moves limit Checking Leaving e (e\<lparr>at_failures := n, at_refs := at_refs e - 1\<rparr>)"
| "0 < at_slots e \<Longrightarrow> entry_moves limit Leaving Left e (e\<lparr>at_slots := at_slots e - 1\<rparr>)"

lemmas entry_moves_intros = entry_moves.intros entry_moves.intros(1,5,6) [unfolded One_nat_def add_Suc_right add_0_right]

lemma update_entry_id: "a < length (al_heap l) \<Longrightarrow> update_entry a (\<lambda>e. e) l = l"
  by (simp add: update_entry_def)

lemma auth_step_shape:
  assumes "auth_step (l, cs) s'" and "auth_wf limit (l, cs)"
  obtains (reserve) now h l' a where "reserve now h l = (l', Some a)" "s' = (l', cs @ [(h, a, Waiting)])"
  | (refuse) now h l' where "reserve now h l = (l', None)" "s' = (l', cs)"
  | (move) i h a q p f where "i < length cs" "cs ! i = (h, a, q)" "a < length (al_heap l)"
      "s' = (update_entry a f l, cs[i := (h, a, p)])" "entry_moves limit q p (al_heap l ! a) (f (al_heap l ! a))"
proof -
  have a: "a < length (al_heap l)" if "i < length cs" "cs ! i = (h, a, q)" for i h a q
    using assms(2) nth_mem [OF that(1)] that(2) by (auto simp: auth_wf_def)
  have lim: "al_limit l = limit" using assms(2) by (simp add: auth_wf_def)
  from assms(1) show ?thesis
  proof cases
    case (reserve now h l' a)
    then show ?thesis using that(1) by blast
  next
    case (refuse now h l')
    then show ?thesis using that(2) by blast
  next
    case (send i h a l')
    then show ?thesis using that(3) [OF send(2,3) a [OF send(2,3)], of "\<lambda>e. e\<lparr>at_slots := at_slots e + 1\<rparr>" Slotted] lim
      by (auto simp: send_slot_def split: if_splits intro: entry_moves_intros)
  next
    case (cancel i h a)
    then show ?thesis using that(3) [OF cancel(2,3) a [OF cancel(2,3)], of "\<lambda>e. e\<lparr>at_refs := at_refs e - 1\<rparr>" Left]
      by (auto simp: unref_def intro: entry_moves_intros)
  next
    case (check i h a l')
    then show ?thesis
      using that(3) [OF check(2,3) a [OF check(2,3)], of "\<lambda>e. e" Checking] lim update_entry_id [OF a [OF check(2,3)]]
      by (auto simp: recheck_def not_le split: if_splits intro: entry_moves_intros)
  next
    case (block i h a l')
    then show ?thesis using that(3) [OF block(2,3) a [OF block(2,3)], of "\<lambda>e. e\<lparr>at_refs := at_refs e - 1\<rparr>" Leaving]
      by (auto simp: recheck_def unref_def split: if_splits intro: entry_moves_intros)
  next
    case (release i h a failed)
    let ?f = "\<lambda>e. e\<lparr>at_failures := (if failed then at_failures e + 1 else at_failures e), at_refs := at_refs e - 1\<rparr>"
    have "entry_moves limit Checking Leaving (al_heap l ! a) (?f (al_heap l ! a))"
      by (rule entry_moves.intros) simp
    with release(1) show ?thesis
      using that(3) [OF release(2,3) a [OF release(2,3)], of ?f Leaving] by (simp add: record_release_def)
  next
    case (leave i h a l')
    then show ?thesis using that(3) [OF leave(2,3) a [OF leave(2,3)], of "\<lambda>e. e\<lparr>at_slots := at_slots e - 1\<rparr>" Left]
      by (auto simp: receive_slot_def split: if_splits intro: entry_moves_intros)
  qed
qed

lemma auth_wf_step:
  assumes "auth_step s s'" and "auth_wf limit s"
  shows "auth_wf limit s'"
proof -
  obtain l cs where s: "s = (l, cs)" by fastforce
  note assms' = assms [unfolded s]
  from assms' show ?thesis
  proof (cases rule: auth_step_shape)
    case (reserve now h l' a)
    with assms'(2) reserve_effect(1-4) [OF reserve(1)] show ?thesis unfolding auth_wf_def by fastforce
  next
    case (refuse now h l')
    with assms'(2) reserve_effect(1-3) [OF refuse(1)] show ?thesis unfolding auth_wf_def by fastforce
  next
    case (move i h a q p f)
    with assms'(2) set_update_subset_insert [of cs i "(h, a, p)"] show ?thesis by (auto simp: auth_wf_def)
  qed
qed

lemma entry_or_new_in: "a < length (al_heap l) \<Longrightarrow> entry_or_new l a = al_heap l ! a"
  by (simp add: entry_or_new_def)

lemma slots_balanced:
  assumes "auth_step s s'" and "auth_wf limit s"
    and "int (at_slots (entry_or_new (fst s) b)) = int (calls (phase_at b slot_phases) (snd s))"
  shows "int (at_slots (entry_or_new (fst s') b)) = int (calls (phase_at b slot_phases) (snd s'))"
proof -
  obtain l cs where s: "s = (l, cs)" by fastforce
  note assms' = assms [unfolded s]
  from assms'(1,2) show ?thesis
  proof (cases rule: auth_step_shape)
    case (reserve now h l' a)
    with assms'(2,3) reserve_effect(6) [OF reserve(1)] show ?thesis by (simp add: auth_wf_def phase_at_def)
  next
    case (refuse now h l')
    with assms'(2,3) reserve_effect(6) [OF refuse(1)] show ?thesis by (simp add: auth_wf_def)
  next
    case (move i h a q p f)
    from move(5) [folded entry_or_new_in [OF move(3)]] assms'(3) show ?thesis
      by cases (auto simp: move entry_or_new_update phase_at_def calls_update calls_update_same)
  qed
qed

lemma slots_capped:
  assumes "auth_step s s'" and "auth_wf limit s" and "int (at_slots (entry_or_new (fst s) b)) \<le> int limit"
  shows "int (at_slots (entry_or_new (fst s') b)) \<le> int limit"
proof -
  obtain l cs where s: "s = (l, cs)" by fastforce
  note assms' = assms [unfolded s]
  from assms'(1,2) show ?thesis
  proof (cases rule: auth_step_shape)
    case (reserve now h l' a)
    with assms'(2,3) reserve_effect(6) [OF reserve(1)] show ?thesis by (simp add: auth_wf_def)
  next
    case (refuse now h l')
    with assms'(2,3) reserve_effect(6) [OF refuse(1)] show ?thesis by (simp add: auth_wf_def)
  next
    case (move i h a q p f)
    from move(5) [folded entry_or_new_in [OF move(3)]] assms'(3) show ?thesis
      by cases (auto simp: move entry_or_new_update)
  qed
qed

lemma auth_start_ok: "auth_wf limit (auth_start limit window t0)"
  by (simp add: auth_wf_def auth_start_def keys_ok_def)

interpretation slots: token_pool "auth_start limit window t0" auth_step "auth_wf limit"
    "\<lambda>s. int (at_slots (entry_or_new (fst s) b))" "\<lambda>s. calls (phase_at b slot_phases) (snd s)" "int limit"
    for limit window t0 b
proof (unfold_locales, goal_cases)
  case 3
  show ?case by (simp add: auth_start_def entry_or_new_def)
next
  case 6
  then show ?case by (rule slots_capped)
qed (simp_all add: auth_start_ok auth_wf_step slots_balanced)

section \<open>References and failures\<close>

text \<open>
  The rest of the invariant: the references of an entry are the calls before their release, those calls
  use the entry the map has for their key, and the failures of an entry and the guesses in progress
  together stay below twice the limit.
\<close>

definition auth_inv :: "nat \<Rightarrow> auth_state \<Rightarrow> bool" where
  "auth_inv limit s \<longleftrightarrow>
     (\<forall>b. at_refs (entry_or_new (fst s) b) = int (calls (phase_at b ref_phases) (snd s)) \<and>
          at_failures (entry_or_new (fst s) b) + calls (phase_at b {Checking}) (snd s) \<le> 2 * limit - 1) \<and>
     (\<forall>h a q. (h, a, q) \<in> set (snd s) \<longrightarrow> q \<in> ref_phases \<longrightarrow> al_keys (fst s) h = Some a)"

lemma auth_inv_start: "auth_inv limit (auth_start limit window t0)"
  by (simp add: auth_inv_def auth_start_def entry_or_new_def)

text \<open>A slot is held by every call that makes a guess, and one more by a call about to make one.\<close>

lemma checking_below_slots:
  assumes "i < length cs" and "cs ! i = (h, a, Slotted)"
  shows "calls (phase_at a {Checking}) cs < calls (phase_at a slot_phases) cs"
proof -
  have "calls (phase_at a {Checking}) (cs[i := (h, a, Checking)]) \<le> calls (phase_at a slot_phases) (cs[i := (h, a, Checking)])"
    by (rule calls_mono) (auto simp: phase_at_def)
  then show ?thesis
    using assms calls_update [of i cs "phase_at a {Checking}" "(h, a, Checking)"]
      calls_update_same [of i cs "phase_at a slot_phases" "(h, a, Checking)"]
    by (simp add: phase_at_def)
qed

lemma auth_inv_step:
  assumes "auth_step s s'" and "auth_wf limit s" and inv: "auth_inv limit s" and lim: "0 < limit"
    and slots: "\<And>b. calls (phase_at b slot_phases) (snd s) \<le> limit"
  shows "auth_inv limit s'"
proof -
  obtain l cs where s: "s = (l, cs)" by fastforce
  note assms' = assms(1,2) [unfolded s] and inv' = inv [unfolded s auth_inv_def]
  have fails: "at_failures (entry_or_new l b) + calls (phase_at b {Checking}) cs \<le> 2 * limit - 1" for b
    using inv' by simp
  have refs: "al_keys l h = Some a \<and> at_refs (entry_or_new l a) \<noteq> 0"
    if "(h, a, q) \<in> set cs" "q \<in> ref_phases" for h a q
  proof -
    have "calls (phase_at a ref_phases) cs \<noteq> 0" using that unfolding calls_zero phase_at_def by fastforce
    with inv' that show ?thesis by auto
  qed
  from assms' show ?thesis
  proof (cases rule: auth_step_shape)
    case (reserve now h l' a)
    note e = reserve_effect [OF reserve(1)] and k = assms'(2) [unfolded auth_wf_def]
    have "at_refs (entry_or_new l' b) = int (calls (phase_at b ref_phases) (cs @ [(h, a, Waiting)]))" for b
      using e(7) [of b] k inv' by (auto simp: phase_at_def)
    moreover have "at_failures (entry_or_new l' b) + calls (phase_at b {Checking}) (cs @ [(h, a, Waiting)]) \<le> 2 * limit - 1" for b
      using e(8) [of b] k fails [of b] by (simp add: phase_at_def)
    moreover have "al_keys l' g = Some c" if "(g, c, q) \<in> set (cs @ [(h, a, Waiting)])" "q \<in> ref_phases" for g c q
      using that e(4,5) k refs by auto
    ultimately show ?thesis by (simp add: auth_inv_def reserve(2))
  next
    case (refuse now h l')
    note e = reserve_effect [OF refuse(1)] and k = assms'(2) [unfolded auth_wf_def]
    have "at_refs (entry_or_new l' b) = int (calls (phase_at b ref_phases) cs)" for b
      using e(7) [of b] k inv' by auto
    moreover have "at_failures (entry_or_new l' b) + calls (phase_at b {Checking}) cs \<le> 2 * limit - 1" for b
      using e(8) [of b] k fails [of b] by simp
    moreover have "al_keys l' g = Some c" if "(g, c, q) \<in> set cs" "q \<in> ref_phases" for g c q
      using that e(5) k refs by auto
    ultimately show ?thesis by (simp add: auth_inv_def refuse(2))
  next
    case (move i h a q p f)
    note mv = move(5) [folded entry_or_new_in [OF move(3)]]
    let ?cs = "cs[i := (h, a, p)]" and ?l = "update_entry a f l"
    have keys: "al_keys ?l g = Some c" if "(g, c, r) \<in> set ?cs" "r \<in> ref_phases" for g c r
    proof -
      have "(g, c, r) \<in> set cs \<or> (g, c, r) = (h, a, p)"
        using that(1) set_update_subset_insert [of cs i "(h, a, p)"] by auto
      moreover have "q \<in> ref_phases" if "p \<in> ref_phases" using mv that by cases auto
      ultimately show ?thesis using refs that(2) nth_mem [OF move(1)] move(2) by (auto simp del: insert_iff)
    qed
    have "at_refs (entry_or_new ?l b) = int (calls (phase_at b ref_phases) ?cs)" for b
      using mv inv'
      by cases (auto simp: entry_or_new_update [OF move(3)] move(1,2) phase_at_def calls_update calls_update_same)
    moreover have "at_failures (entry_or_new ?l b) + calls (phase_at b {Checking}) ?cs \<le> 2 * limit - 1" for b
    proof -
      have c: "int (calls (phase_at b {Checking}) ?cs) = int (calls (phase_at b {Checking}) cs)
          - (if b = a \<and> q = Checking then 1 else 0) + (if b = a \<and> p = Checking then 1 else 0)"
        by (simp add: calls_update move(1,2) phase_at_def)
      from mv show ?thesis
      proof cases
        case 3
        have "calls (phase_at a {Checking}) cs < limit"
          using checking_below_slots [of i cs h a] slots [of a] 3 move(1,2) s by simp
        with 3 fails [of b] c show ?thesis by (auto simp: entry_or_new_update [OF move(3)] split: if_splits)
      qed (use fails [of b] c in \<open>auto simp: entry_or_new_update [OF move(3)] split: if_splits\<close>)
    qed
    ultimately show ?thesis using keys by (simp add: auth_inv_def move(4) del: insert_iff)
  qed
qed

lemma auth_inv_reachable:
  assumes "reachable (auth_start limit window t0) auth_step s" and "0 < limit"
  shows "auth_inv limit s"
  using assms(1)
proof induction
  case reachable_start
  then show ?case by (rule auth_inv_start)
next
  case (reachable_step s s')
  have "calls (phase_at b slot_phases) (snd s) \<le> limit" for b
    using slots.held_cap [OF reachable_step.hyps(1), of b] by simp
  then show ?case
    by (rule auth_inv_step [OF reachable_step.hyps(2) slots.wf_reachable [OF reachable_step.hyps(1)]
          reachable_step.IH assms(2)])
qed

section \<open>Properties\<close>

definition guessing :: "nat \<Rightarrow> auth_call \<Rightarrow> bool" where
  "guessing h c \<longleftrightarrow> fst c = h \<and> snd (snd c) = Checking"

lemma guessing_slots:
  assumes "auth_inv limit (l, cs)"
  shows "\<exists>a. calls (guessing h) cs \<le> calls (phase_at a {Checking}) cs"
proof (cases "al_keys l h")
  case None
  then have "\<not> guessing h c" if "c \<in> set cs" for c
    using assms that by (cases c) (auto simp: guessing_def auth_inv_def)
  then have "calls (guessing h) cs = 0" by (simp add: calls_zero)
  then show ?thesis by simp
next
  case (Some a)
  have "calls (guessing h) cs \<le> calls (phase_at a {Checking}) cs"
    by (rule calls_mono) (use assms Some in \<open>auto simp: guessing_def phase_at_def auth_inv_def\<close>)
  then show ?thesis ..
qed

text \<open>
  C17 (safety): however the calls interleave, the failures recorded for a key in a window and its guesses
  in progress are together at most \<open>2 * limit - 1\<close>, at most \<open>limit\<close> guesses for one key run at once, a
  sweep never drops the entry a call in progress still counts on, and a call that leaves never blocks
  on the channel of slots.
\<close>

theorem auth_limiter_safe:
  assumes r: "reachable (auth_start limit window t0) auth_step (l, cs)" and lim: "0 < limit"
  shows "(\<forall>a < length (al_heap l). at_failures (al_heap l ! a) + calls (phase_at a {Checking}) cs \<le> 2 * limit - 1) \<and>
         (\<forall>h. calls (guessing h) cs \<le> limit) \<and>
         (\<forall>h a q. (h, a, q) \<in> set cs \<and> q \<in> {Waiting, Slotted, Checking} \<longrightarrow> al_keys l h = Some a) \<and>
         (\<forall>h a. (h, a, Leaving) \<in> set cs \<longrightarrow> receive_slot a l \<noteq> None)"
proof -
  have inv: "auth_inv limit (l, cs)" using r lim by (rule auth_inv_reachable)
  have wf: "auth_wf limit (l, cs)" using r by (rule slots.wf_reachable)
  have 1: "calls (phase_at a {Checking}) cs \<le> limit" for a
  proof -
    have "calls (phase_at a {Checking}) cs \<le> calls (phase_at a slot_phases) cs"
      by (rule calls_mono) (auto simp: phase_at_def)
    with slots.held_cap [OF r, of a] show ?thesis by simp
  qed
  have "receive_slot a l \<noteq> None" if "(h, a, Leaving) \<in> set cs" for h a
  proof -
    have "a < length (al_heap l)" using wf that by (auto simp: auth_wf_def)
    moreover have "calls (phase_at a slot_phases) cs \<noteq> 0" using that unfolding calls_zero phase_at_def by fastforce
    ultimately show ?thesis using slots.taken_held [OF r, of a] by (simp add: receive_slot_def entry_or_new_in)
  qed
  moreover have "calls (guessing h) cs \<le> limit" for h
    using guessing_slots [OF inv, of h] 1 order_trans by blast
  moreover have "at_failures (al_heap l ! a) + calls (phase_at a {Checking}) cs \<le> 2 * limit - 1"
    if "a < length (al_heap l)" for a
    using inv that entry_or_new_in [OF that] unfolding auth_inv_def by (metis fst_conv snd_conv)
  moreover have "\<forall>h a q. (h, a, q) \<in> set cs \<and> q \<in> {Waiting, Slotted, Checking} \<longrightarrow> al_keys l h = Some a"
    using inv unfolding auth_inv_def fst_conv snd_conv by blast
  ultimately show ?thesis by blast
qed

theorem auth_limiter_safe_witness:
  "\<exists>l cs. reachable (auth_start 1 60 0) auth_step (l, cs) \<and> cs = [(7, 0, Slotted)] \<and> al_keys l 7 = Some 0"
proof -
  let ?e = "\<lambda>n. \<lparr>at_failures = 0, at_start = 5, at_slots = n, at_refs = 1\<rparr>"
  let ?l = "\<lambda>n. \<lparr>al_limit = 1, al_window = 60, al_keys = [7 \<mapsto> 0], al_heap = [?e n], al_lastSweep = 0\<rparr>"
  have "auth_step (auth_start 1 60 0) (?l 0, [] @ [(7, 0, Waiting)])"
    unfolding auth_start_def
    by (rule auth_step.reserve [of 5]) (simp add: reserve_def sweep_def lookup_entry_def update_entry_def)
  moreover have "auth_step (?l 0, [(7, 0, Waiting)]) (?l 1, [(7, 0, Waiting)][0 := (7, 0, Slotted)])"
    by (rule auth_step.send) (simp_all add: send_slot_def update_entry_def)
  ultimately have r: "reachable (auth_start 1 60 0) auth_step (?l 1, [(7, 0, Slotted)])"
    by (simp, blast intro: reachable_start reachable_step)
  from auth_limiter_safe [OF r] r show ?thesis by auto
qed

end
