(* ===== verification/Artwork_Breaker.thy ===== *)
theory Artwork_Breaker
  imports Go_Concurrency
begin

text \<open>
  The gate in front of external artwork providers, \<open>core/artwork/gate.go\<close>: one circuit breaker per agent,
  opened by consecutive failures or by a provider that asks to back off, probed once per delay, closed by
  consecutive answers to probes of the same episode. The rate limiter is a library: its wait succeeds or
  not. An error is one of the kinds the code tells apart. Times and durations are in nanoseconds.
\<close>

section \<open>The breaker\<close>

datatype call_error = NoError | Canceled | NotFound | RetryLater int | OtherError

definition breakerThreshold :: nat where "breakerThreshold = 5"
definition breakerProbeAfter :: int where "breakerProbeAfter = 60000000000"
definition breakerRecoveries :: nat where "breakerRecoveries = 3"

record breaker =
  br_failures :: nat
  br_openedAt :: int
  br_recoveries :: nat
  br_generation :: nat
  br_probeAfter :: int

definition newBreaker :: "int \<Rightarrow> breaker" where
  "newBreaker zeroTime =
     \<lparr>br_failures = 0, br_openedAt = zeroTime, br_recoveries = 0, br_generation = 0, br_probeAfter = 0\<rparr>"

definition isTransientExternal :: "call_error \<Rightarrow> bool" where
  "isTransientExternal err \<longleftrightarrow> err \<noteq> NoError \<and> err \<noteq> NotFound"

definition probe_delay :: "breaker \<Rightarrow> int" where
  "probe_delay b = (if br_probeAfter b \<noteq> 0 then br_probeAfter b else breakerProbeAfter)"

text \<open>\<open>allow\<close>: whether the call may proceed, the episode it is admitted under, the breaker afterwards.\<close>

definition allow :: "int \<Rightarrow> breaker \<Rightarrow> bool \<times> nat \<times> breaker" where
  "allow now b =
     (if br_failures b < breakerThreshold then (True, 0, b)
      else if now - br_openedAt b \<ge> probe_delay b then (True, br_generation b, b\<lparr>br_openedAt := now\<rparr>)
      else (False, 0, b))"

definition record_failure :: "int \<Rightarrow> breaker \<Rightarrow> breaker" where
  "record_failure now b =
     (let b1 = b\<lparr>br_recoveries := 0, br_failures := br_failures b + 1\<rparr>
      in if br_failures b1 = breakerThreshold
         then b1\<lparr>br_openedAt := now, br_probeAfter := 0, br_generation := br_generation b + 1\<rparr> else b1)"

definition record_answer :: "nat \<Rightarrow> breaker \<Rightarrow> breaker" where
  "record_answer gen b =
     (if br_failures b < breakerThreshold then b\<lparr>br_failures := 0\<rparr>
      else if gen = 0 \<or> gen \<noteq> br_generation b then b
      else
        let b1 = b\<lparr>br_recoveries := br_recoveries b + 1\<rparr>
        in if br_recoveries b1 < breakerRecoveries then b1
           else b1\<lparr>br_failures := 0, br_recoveries := 0\<rparr>)"

definition open_for :: "int \<Rightarrow> int \<Rightarrow> breaker \<Rightarrow> breaker" where
  "open_for now retryIn b =
     b\<lparr>br_recoveries := 0, br_failures := breakerThreshold, br_openedAt := now, br_probeAfter := retryIn,
       br_generation := br_generation b + 1\<rparr>"

definition record_call :: "int \<Rightarrow> nat \<Rightarrow> call_error \<Rightarrow> breaker \<Rightarrow> breaker" where
  "record_call now gen err b =
     (case err of
        Canceled \<Rightarrow> b
      | RetryLater retryIn \<Rightarrow> if retryIn > 0 then open_for now retryIn b else record_failure now b
      | _ \<Rightarrow> if isTransientExternal err then record_failure now b else record_answer gen b)"

section \<open>The gate\<close>

datatype gate_error = ErrBreakerOpen | WaitError | CallError call_error

definition gateFor :: "int \<Rightarrow> string \<Rightarrow> (string \<rightharpoonup> breaker) \<Rightarrow> breaker" where
  "gateFor zeroTime name gates = (case gates name of Some g \<Rightarrow> g | None \<Rightarrow> newBreaker zeroTime)"

text \<open>
  One call of \<open>gate\<close> with no other in between: \<open>t1\<close> is the time of \<open>allow\<close> and \<open>t2\<close> that of \<open>record\<close>,
  \<open>waited\<close> whether the wait of the rate limiter succeeded, \<open>result\<close> what the external call returned.
\<close>

definition gate ::
    "int \<Rightarrow> int \<Rightarrow> int \<Rightarrow> string \<Rightarrow> bool \<Rightarrow> call_error \<Rightarrow> (string \<rightharpoonup> breaker) \<Rightarrow>
     gate_error option \<times> (string \<rightharpoonup> breaker)" where
  "gate zeroTime t1 t2 name waited result gates =
     (case allow t1 (gateFor zeroTime name gates) of
        (allowed, gen, b) \<Rightarrow>
          let gates1 = gates(name \<mapsto> b) in
          if \<not> allowed then (Some ErrBreakerOpen, gates1)
          else if \<not> waited then (Some WaitError, gates1)
          else ((if result = NoError then None else Some (CallError result)),
                gates1(name \<mapsto> record_call t2 gen result b)))"

section \<open>Concurrent calls\<close>

text \<open>
  The state is the breaker, the time of the last step, and the episodes of the calls admitted and not
  yet recorded. A call whose wait failed is never recorded; it stays in the list.
\<close>

record breaker_run =
  ru_breaker :: breaker
  ru_now :: int
  ru_calls :: "nat list"

inductive breaker_step :: "breaker_run \<Rightarrow> breaker_run \<Rightarrow> bool" where
  admit: "ru_now s \<le> t \<Longrightarrow> allow t (ru_breaker s) = (True, g, b) \<Longrightarrow>
     breaker_step s \<lparr>ru_breaker = b, ru_now = t, ru_calls = g # ru_calls s\<rparr>"
| deny: "ru_now s \<le> t \<Longrightarrow> allow t (ru_breaker s) = (False, g, b) \<Longrightarrow>
     breaker_step s \<lparr>ru_breaker = b, ru_now = t, ru_calls = ru_calls s\<rparr>"
| record_one: "ru_now s \<le> t \<Longrightarrow> g \<in> set (ru_calls s) \<Longrightarrow>
     breaker_step s \<lparr>ru_breaker = record_call t g err (ru_breaker s), ru_now = t, ru_calls = remove1 g (ru_calls s)\<rparr>"

definition is_open :: "breaker \<Rightarrow> bool" where
  "is_open b \<longleftrightarrow> breakerThreshold \<le> br_failures b"

definition breaker_start :: "int \<Rightarrow> breaker_run" where
  "breaker_start t0 = \<lparr>ru_breaker = newBreaker t0, ru_now = t0, ru_calls = []\<rparr>"

section \<open>Lemmas\<close>

lemmas breaker_defs = record_call_def record_failure_def record_answer_def open_for_def allow_def is_open_def
  isTransientExternal_def Let_def

lemma probe_delay_pos: "0 \<le> br_probeAfter b \<Longrightarrow> 0 < probe_delay b"
  by (simp add: probe_delay_def breakerProbeAfter_def)

text \<open>Episodes only go up, and calls in progress belong to a past or the current one.\<close>

definition breaker_ok :: "breaker_run \<Rightarrow> bool" where
  "breaker_ok s \<longleftrightarrow>
     br_openedAt (ru_breaker s) \<le> ru_now s \<and> 0 \<le> br_probeAfter (ru_breaker s) \<and>
     (\<forall>g \<in> set (ru_calls s). g \<le> br_generation (ru_breaker s)) \<and>
     (is_open (ru_breaker s) \<longrightarrow> 0 < br_generation (ru_breaker s))"

lemma generation_mono: "br_generation b \<le> br_generation (record_call t g err b)"
  by (auto simp: breaker_defs split: call_error.splits)

lemma allow_frame:
  "allow t b = (ok, g, b') \<Longrightarrow>
   br_generation b' = br_generation b \<and> br_failures b' = br_failures b \<and> br_recoveries b' = br_recoveries b \<and>
   br_probeAfter b' = br_probeAfter b \<and> (br_openedAt b' = br_openedAt b \<or> br_openedAt b' = t) \<and>
   (g = 0 \<or> g = br_generation b)"
  by (auto simp: allow_def split: if_splits)

lemma generation_step: "breaker_step s s' \<Longrightarrow> br_generation (ru_breaker s) \<le> br_generation (ru_breaker s')"
  by (induction rule: breaker_step.induct) (auto simp: generation_mono dest: allow_frame)

lemma now_step: "breaker_step s s' \<Longrightarrow> ru_now s \<le> ru_now s'"
  by (induction rule: breaker_step.induct) auto

lemma record_call_ok:
  assumes "br_openedAt b \<le> t" "0 \<le> br_probeAfter b" "is_open b \<longrightarrow> 0 < br_generation b"
  shows "br_openedAt (record_call t g err b) \<le> t" "0 \<le> br_probeAfter (record_call t g err b)"
    "is_open (record_call t g err b) \<longrightarrow> 0 < br_generation (record_call t g err b)"
  using assms by (auto simp: breaker_defs breakerThreshold_def split: call_error.splits)

lemma breaker_ok_step: "breaker_step s s' \<Longrightarrow> breaker_ok s \<Longrightarrow> breaker_ok s'"
proof (induction rule: breaker_step.induct)
  case (record_one s t g err)
  with record_call_ok [of "ru_breaker s" t g err] generation_mono [of "ru_breaker s" t g err]
  show ?case by (auto simp: breaker_ok_def dest!: set_mp [OF set_remove1_subset] intro: order_trans)
qed (auto simp: breaker_ok_def is_open_def dest!: allow_frame)

lemma breaker_ok_start: "breaker_ok (breaker_start t0)"
  by (simp add: breaker_start_def newBreaker_def breaker_ok_def is_open_def breakerThreshold_def)

lemma breaker_ok_reachable: "reachable (breaker_start t0) breaker_step s \<Longrightarrow> breaker_ok s"
  by (erule reachable_invariant) (auto intro: breaker_ok_start breaker_ok_step)

text \<open>
  An episode \<open>g\<close> that began at \<open>t0\<close> with probe delay \<open>d\<close>: every probe that was admitted pushed the start
  of the probe window by the delay at least, whether it is still in progress or was answered.
\<close>

definition episode :: "nat \<Rightarrow> int \<Rightarrow> int \<Rightarrow> breaker_run \<Rightarrow> bool" where
  "episode g d t0 s \<longleftrightarrow>
     g < br_generation (ru_breaker s) \<or>
     br_generation (ru_breaker s) = g \<and>
     (if is_open (ru_breaker s)
      then probe_delay (ru_breaker s) = d \<and>
           t0 + d * int (br_recoveries (ru_breaker s) + count_list (ru_calls s) g) \<le> br_openedAt (ru_breaker s)
      else t0 + 3 * d \<le> ru_now s)"

lemma count_list_remove1: "x \<in> set xs \<Longrightarrow> count_list (remove1 y xs) x = count_list xs x - (if x = y then 1 else 0)"
  by (induction xs) auto

lemma count_list_remove1_le: "count_list (remove1 y xs) x \<le> count_list xs x"
  by (induction xs) auto

lemma mult_int_mono: "0 < (d::int) \<Longrightarrow> m \<le> n \<Longrightarrow> d * int m \<le> d * int n"
  by simp

lemma episode_admit:
  assumes "episode g d t0 s" "breaker_ok s" "0 < d" "ru_now s \<le> t" "allow t (ru_breaker s) = (ok, g', b)"
  shows "episode g d t0 \<lparr>ru_breaker = b, ru_now = t, ru_calls = (if ok then g' # ru_calls s else ru_calls s)\<rparr>"
proof (cases "is_open (ru_breaker s) \<and> br_generation (ru_breaker s) = g \<and> ok")
  case True
  then have b: "b = (ru_breaker s)\<lparr>br_openedAt := t\<rparr>" "g' = g" "br_openedAt (ru_breaker s) + probe_delay (ru_breaker s) \<le> t"
    using assms(5) by (auto simp: allow_def is_open_def split: if_splits)
  let ?n = "br_recoveries (ru_breaker s) + count_list (ru_calls s) g"
  have "t0 + d * int ?n \<le> br_openedAt (ru_breaker s)" "probe_delay (ru_breaker s) = d"
    using assms(1) True by (auto simp: episode_def)
  then have "t0 + d * int (?n + 1) \<le> t" using b(3) by (simp add: algebra_simps)
  with True b \<open>probe_delay (ru_breaker s) = d\<close> show ?thesis
    by (simp add: episode_def is_open_def probe_delay_def split: if_splits)
next
  case False
  with assms(1,4,5) show ?thesis
    by (auto simp: episode_def is_open_def allow_def probe_delay_def split: if_splits)
qed

lemma episode_record:
  assumes "episode g d t0 s" "breaker_ok s" "0 < d" "ru_now s \<le> t" "g' \<in> set (ru_calls s)"
  shows "episode g d t0 \<lparr>ru_breaker = record_call t g' err (ru_breaker s), ru_now = t, ru_calls = remove1 g' (ru_calls s)\<rparr>"
    (is "episode g d t0 ?s")
proof -
  let ?b = "ru_breaker s" and ?b' = "record_call t g' err (ru_breaker s)"
  let ?c = "count_list (ru_calls s) g" and ?c' = "count_list (remove1 g' (ru_calls s)) g"
  consider "g < br_generation ?b'" | "br_generation ?b' = g" "br_generation ?b = g" "\<not> is_open ?b"
    | "br_generation ?b' = g" "br_generation ?b = g" "is_open ?b"
    using assms(1) generation_mono [of ?b t g' err] by (force simp: episode_def)
  then show ?thesis
  proof cases
    case 1
    then show ?thesis by (simp add: episode_def)
  next
    case 2
    then have "\<not> is_open ?b'"
      by (auto simp: breaker_defs breakerThreshold_def split: call_error.splits if_splits)
    with 2 assms(1,4) show ?thesis by (simp add: episode_def)
  next
    case 3
    have e: "probe_delay ?b = d" "t0 + d * int (br_recoveries ?b + ?c) \<le> br_openedAt ?b" "br_openedAt ?b \<le> ru_now s"
      using assms(1,2) 3 by (auto simp: episode_def breaker_ok_def)
    have dec: "?c' \<le> ?c" "g' = g \<Longrightarrow> ?c' + 1 = ?c"
      using count_list_remove1_le [of g' "ru_calls s" g] count_list_remove1 [of g "ru_calls s" g'] assms(5)
        count_list_0_iff [of "ru_calls s" g]
      by auto
    have frame: "br_openedAt ?b' = br_openedAt ?b \<and> br_probeAfter ?b' = br_probeAfter ?b"
      using 3 by (auto simp: breaker_defs breakerThreshold_def split: call_error.splits)
    have le: "t0 + d * int n \<le> br_openedAt ?b" if "n \<le> br_recoveries ?b + ?c" for n
      using e(2) mult_int_mono [OF assms(3) that] by linarith
    have "is_open ?b' \<Longrightarrow> br_recoveries ?b' + ?c' \<le> br_recoveries ?b + ?c"
      using 3 dec by (auto simp: breaker_defs breakerThreshold_def breakerRecoveries_def split: call_error.splits if_splits)
    moreover have "\<not> is_open ?b' \<Longrightarrow> 3 \<le> br_recoveries ?b + ?c"
      using 3 dec by (auto simp: breaker_defs breakerThreshold_def breakerRecoveries_def split: call_error.splits if_splits)
    moreover have "probe_delay ?b' = d" using frame e(1) by (simp add: probe_delay_def split: if_splits)
    ultimately show ?thesis
      using 3(1) frame e(3) le [of "br_recoveries ?b' + ?c'"] le [of 3] assms(4)
      by (cases "is_open ?b'") (simp_all add: episode_def)
  qed
qed

lemma episode_step: "breaker_step s s' \<Longrightarrow> episode g d t0 s \<Longrightarrow> breaker_ok s \<Longrightarrow> 0 < d \<Longrightarrow> episode g d t0 s'"
proof (induction rule: breaker_step.induct)
  case (admit s t g' b)
  then show ?case using episode_admit [of g d t0 s t True g' b] by simp
next
  case (deny s t g' b)
  then show ?case using episode_admit [of g d t0 s t False g' b] by simp
next
  case (record_one s t g' err)
  then show ?case by (intro episode_record)
qed

lemma opening_step:
  assumes "breaker_step s s0" and "breaker_ok s" and "br_generation (ru_breaker s) < br_generation (ru_breaker s0)"
  shows "is_open (ru_breaker s0) \<and> episode (br_generation (ru_breaker s0)) (probe_delay (ru_breaker s0)) (ru_now s0) s0"
  using assms(1)
proof cases
  case (record_one t g err)
  have "g' \<noteq> br_generation (ru_breaker s0)" if "g' \<in> set (ru_calls s)" for g'
    using assms(2,3) that by (auto simp: breaker_ok_def)
  then have "br_generation (ru_breaker s0) \<notin> set (ru_calls s0)"
    using record_one(1) set_remove1_subset [of g "ru_calls s"] by auto
  then have "count_list (ru_calls s0) (br_generation (ru_breaker s0)) = 0"
    by (simp only: count_list_0_iff not_False_eq_True)
  moreover have "is_open (ru_breaker s0) \<and> br_openedAt (ru_breaker s0) = t \<and> br_recoveries (ru_breaker s0) = 0"
    using assms(3) unfolding record_one(1)
    by (auto simp: breaker_defs breakerThreshold_def split: call_error.splits if_splits)
  ultimately show ?thesis using record_one(1) by (simp add: episode_def)
qed (use assms(3) allow_frame in force)+

section \<open>Properties\<close>

text \<open>
  C23 (safety): once a step has opened the breaker, or opened it anew, it cannot close in that episode
  before three probe delays have passed, whatever calls are answered in the meantime, those admitted
  before it opened included.
\<close>

theorem breaker_stays_open:
  assumes "reachable (breaker_start t) breaker_step s" and "breaker_step s s0"
    and "br_generation (ru_breaker s) < br_generation (ru_breaker s0)"
    and "reachable s0 breaker_step s'" and "br_generation (ru_breaker s') = br_generation (ru_breaker s0)"
    and "ru_now s' < ru_now s0 + int breakerRecoveries * probe_delay (ru_breaker s0)"
  shows "is_open (ru_breaker s')"
proof -
  let ?g = "br_generation (ru_breaker s0)" and ?d = "probe_delay (ru_breaker s0)"
  have ok: "breaker_ok s" using assms(1) by (rule breaker_ok_reachable)
  have ok0: "breaker_ok s0" using breaker_ok_step [OF assms(2) ok] .
  have d: "0 < ?d" using ok0 probe_delay_pos by (simp add: breaker_ok_def)
  have "episode ?g ?d (ru_now s0) s' \<and> breaker_ok s'"
    using assms(4)
  proof (rule reachable_invariant)
    show "episode ?g ?d (ru_now s0) s0 \<and> breaker_ok s0" using opening_step [OF assms(2) ok assms(3)] ok0 by simp
    show "episode ?g ?d (ru_now s0) s2 \<and> breaker_ok s2" if "episode ?g ?d (ru_now s0) s1 \<and> breaker_ok s1" "breaker_step s1 s2" for s1 s2
      using that d episode_step breaker_ok_step by blast
  qed
  with assms(5,6) show ?thesis by (auto simp: episode_def breakerRecoveries_def split: if_splits)
qed

text \<open>
  A closed breaker opens with the fifth consecutive failure, not before, and at once when
  the provider asks to back off; while it is open no call is admitted before the probe delay, and then
  exactly one per delay; an answer closes it only as the third consecutive answer to a probe of the
  current episode.
\<close>

lemma breaker_spec:
  "(\<not> is_open b \<longrightarrow> (is_open (record_call t g OtherError b) \<longleftrightarrow> br_failures b = 4)) \<and>
   (0 < r \<longrightarrow> is_open (record_call t g (RetryLater r) b) \<and> probe_delay (record_call t g (RetryLater r) b) = r) \<and>
   (is_open b \<longrightarrow> (fst (allow t b) \<longleftrightarrow> br_openedAt b + probe_delay b \<le> t)) \<and>
   (is_open b \<and> fst (allow t b) \<and> t' < t + probe_delay b \<longrightarrow> \<not> fst (allow t' (snd (snd (allow t b))))) \<and>
   (is_open b \<and> \<not> is_open (record_call t g err b) \<longleftrightarrow>
      is_open b \<and> err \<in> {NoError, NotFound} \<and> g \<noteq> 0 \<and> g = br_generation b \<and> 2 \<le> br_recoveries b)"
proof (intro conjI)
  show "\<not> is_open b \<longrightarrow> (is_open (record_call t g OtherError b) \<longleftrightarrow> br_failures b = 4)"
    by (auto simp: breaker_defs breakerThreshold_def)
  show "0 < r \<longrightarrow> is_open (record_call t g (RetryLater r) b) \<and> probe_delay (record_call t g (RetryLater r) b) = r"
    by (simp add: breaker_defs probe_delay_def)
  show "is_open b \<longrightarrow> (fst (allow t b) \<longleftrightarrow> br_openedAt b + probe_delay b \<le> t)"
    by (auto simp: allow_def is_open_def)
  show "is_open b \<and> fst (allow t b) \<and> t' < t + probe_delay b \<longrightarrow> \<not> fst (allow t' (snd (snd (allow t b))))"
    by (auto simp: allow_def is_open_def probe_delay_def split: if_splits)
  show "is_open b \<and> \<not> is_open (record_call t g err b) \<longleftrightarrow>
      is_open b \<and> err \<in> {NoError, NotFound} \<and> g \<noteq> 0 \<and> g = br_generation b \<and> 2 \<le> br_recoveries b"
    by (cases err) (auto simp: breaker_defs breakerThreshold_def breakerRecoveries_def)
qed

definition ex_open :: breaker where
  "ex_open = \<lparr>br_failures = 5, br_openedAt = 10, br_recoveries = 2, br_generation = 1, br_probeAfter = 7\<rparr>"

lemma breaker_spec_witness:
  "is_open ex_open \<and> fst (allow 17 ex_open) \<and> \<not> fst (allow 20 (snd (snd (allow 17 ex_open)))) \<and>
   \<not> is_open (record_call 18 1 NotFound ex_open)"
proof -
  have "is_open ex_open" "probe_delay ex_open = 7" "br_openedAt ex_open = 10" "br_generation ex_open = 1" "br_recoveries ex_open = 2"
    by (simp_all add: ex_open_def is_open_def breakerThreshold_def probe_delay_def)
  with breaker_spec [of ex_open 17 1 1 20 NotFound] breaker_spec [of ex_open 18 1 1 20 NotFound]
  show ?thesis by auto
qed

lemma ex_opening:
  "breaker_step (\<lparr>ru_breaker = newBreaker 0, ru_now = 5, ru_calls = [0]\<rparr>)
     \<lparr>ru_breaker = record_call 6 0 (RetryLater 9) (newBreaker 0), ru_now = 6, ru_calls = []\<rparr>"
  using breaker_step.record_one [of "\<lparr>ru_breaker = newBreaker 0, ru_now = 5, ru_calls = [0]\<rparr>" 6 0 "RetryLater 9"] by simp

theorem breaker_stays_open_witness:
  "is_open (record_call 6 0 (RetryLater 9) (newBreaker 0)) \<and>
   probe_delay (record_call 6 0 (RetryLater 9) (newBreaker 0)) = 9"
proof -
  let ?s = "\<lparr>ru_breaker = newBreaker 0, ru_now = 5, ru_calls = [0]\<rparr>"
  let ?b = "record_call 6 0 (RetryLater 9) (newBreaker 0)"
  let ?opened = "\<lparr>ru_breaker = ?b, ru_now = 6, ru_calls = []\<rparr>"
  have "breaker_step (breaker_start 0) ?s"
    using breaker_step.admit [of "breaker_start 0" 5 0 "newBreaker 0"]
    by (simp add: breaker_start_def allow_def newBreaker_def breakerThreshold_def)
  then have "reachable (breaker_start 0) breaker_step ?s" by (blast intro: reachable_start reachable_step)
  moreover have "br_generation (newBreaker 0) < br_generation ?b" "probe_delay ?b = 9"
    by (simp_all add: newBreaker_def breaker_defs probe_delay_def)
  ultimately show ?thesis
    using breaker_stays_open [OF _ ex_opening, of 0 ?opened] reachable_start [of ?opened breaker_step]
    by (simp add: breakerRecoveries_def)
qed

end
