(* ===== verification/Quick_Connect.thy ===== *)
theory Quick_Connect
  imports Go_Concurrency "HOL-Library.AList"
begin

text \<open>
  Quick Connect, \<open>core/quickconnect/quickconnect.go\<close>: a store of sign-in requests found by secret and by
  code. Both maps hold pointers to the same entry, and \<open>Authorize\<close> changes it through one of them: the
  entries are a heap (a list, the address is the position) and the maps are association lists of
  addresses. Every operation runs under the mutex, so an operation is one step. The clock, the random
  secret and the stream of random numbers are arguments.
\<close>

section \<open>State\<close>

type_synonym time = int

record Device =
  dv_ID :: string
  dv_Name :: string
  dv_App :: string
  dv_AppVersion :: string

record entry =
  e_Device :: Device
  e_Secret :: string
  e_Code :: string
  e_DateAdded :: time
  e_UserID :: string
  e_expiresAt :: time

type_synonym index = "(string \<times> nat) list"

record quickConnect =
  qc_heap :: "entry list"
  qc_bySecret :: index
  qc_byCode :: index

datatype qc_error = ErrNotFound | ErrAlreadyAuthorized | ErrTooManyRequests

definition timeout :: int where "timeout = 600000000000"

definition maxPending :: nat where "maxPending = 1000"

definition newStore :: quickConnect where
  "newStore = \<lparr>qc_heap = [], qc_bySecret = [], qc_byCode = []\<rparr>"

definition Authorized :: "entry \<Rightarrow> bool" where "Authorized e \<longleftrightarrow> e_UserID e \<noteq> ''''"

abbreviation entry_at :: "quickConnect \<Rightarrow> nat \<Rightarrow> entry" where "entry_at qc a \<equiv> qc_heap qc ! a"

section \<open>Operations\<close>

definition remove :: "nat \<Rightarrow> quickConnect \<Rightarrow> quickConnect" where
  "remove a qc =
     qc\<lparr>qc_bySecret := AList.delete (e_Secret (entry_at qc a)) (qc_bySecret qc),
        qc_byCode := AList.delete (e_Code (entry_at qc a)) (qc_byCode qc)\<rparr>"

text \<open>The loop of \<open>expire\<close> over the entries, which may delete the one it is at.\<close>

fun expire_all :: "time \<Rightarrow> nat list \<Rightarrow> quickConnect \<Rightarrow> quickConnect" where
  "expire_all now [] qc = qc"
| "expire_all now (a # as) qc =
     expire_all now as (if \<not> now < e_expiresAt (entry_at qc a) then remove a qc else qc)"

definition expire :: "time \<Rightarrow> quickConnect \<Rightarrow> quickConnect" where
  "expire now qc = expire_all now (map snd (qc_bySecret qc)) qc"

text \<open>\<open>normalizeCode\<close>: users type the code in groups.\<close>

definition normalizeCode :: "string \<Rightarrow> string" where
  "normalizeCode code = join '''' (go_fields code)"

text \<open>\<open>find\<close> in one of the two maps, after expiry: the store and the address found.\<close>

definition find_in :: "(quickConnect \<Rightarrow> index) \<Rightarrow> time \<Rightarrow> string \<Rightarrow> quickConnect \<Rightarrow> (qc_error + nat) \<times> quickConnect" where
  "find_in sel now key qc =
     (let qc1 = expire now qc
      in (case map_of (sel qc1) key of None \<Rightarrow> Inl ErrNotFound | Some a \<Rightarrow> Inr a, qc1))"

definition findPending :: "time \<Rightarrow> string \<Rightarrow> quickConnect \<Rightarrow> (qc_error + nat) \<times> quickConnect" where
  "findPending now code qc =
     (case find_in qc_byCode now (normalizeCode code) qc of
        (Inr a, qc1) \<Rightarrow> if Authorized (entry_at qc1 a) then (Inl ErrAlreadyAuthorized, qc1) else (Inr a, qc1)
      | (Inl e, qc1) \<Rightarrow> (Inl e, qc1))"

text \<open>
  \<open>newCode\<close> draws until a code is free: six digits, no padding since the number is at least 100000. The
  result is the code and the position in the stream of random numbers; \<open>None\<close> when no draw is ever free.
\<close>

partial_function (option) newCode :: "(nat \<Rightarrow> nat) \<Rightarrow> index \<Rightarrow> nat \<Rightarrow> (string \<times> nat) option" where
  "newCode rnd byCode k =
     (let code = show_nat (rnd k + 100000)
      in if map_of byCode code = None then Some (code, k + 1) else newCode rnd byCode (k + 1))"

definition Initiate ::
    "time \<Rightarrow> Device \<Rightarrow> string \<Rightarrow> (nat \<Rightarrow> nat) \<Rightarrow> nat \<Rightarrow> quickConnect \<Rightarrow> ((qc_error + entry) \<times> quickConnect) option" where
  "Initiate now device secret rnd k qc =
     (let qc1 = expire now qc in
      if length (qc_bySecret qc1) \<ge> maxPending then Some (Inl ErrTooManyRequests, qc1)
      else case newCode rnd (qc_byCode qc1) k of
             None \<Rightarrow> None
           | Some (code, _) \<Rightarrow>
               let e = \<lparr>e_Device = device, e_Secret = secret, e_Code = code, e_DateAdded = now, e_UserID = '''',
                        e_expiresAt = now + timeout\<rparr>;
                   a = length (qc_heap qc1)
               in Some (Inr e, \<lparr>qc_heap = qc_heap qc1 @ [e],
                                qc_bySecret = AList.update secret a (qc_bySecret qc1),
                                qc_byCode = AList.update code a (qc_byCode qc1)\<rparr>))"

definition Status :: "time \<Rightarrow> string \<Rightarrow> quickConnect \<Rightarrow> (qc_error + entry) \<times> quickConnect" where
  "Status now secret qc =
     (case find_in qc_bySecret now secret qc of
        (Inl e, qc1) \<Rightarrow> (Inl e, qc1) | (Inr a, qc1) \<Rightarrow> (Inr (entry_at qc1 a), qc1))"

definition Lookup :: "time \<Rightarrow> string \<Rightarrow> quickConnect \<Rightarrow> (qc_error + entry) \<times> quickConnect" where
  "Lookup now code qc =
     (case findPending now code qc of
        (Inl e, qc1) \<Rightarrow> (Inl e, qc1) | (Inr a, qc1) \<Rightarrow> (Inr (entry_at qc1 a), qc1))"

definition Authorize :: "time \<Rightarrow> string \<Rightarrow> string \<Rightarrow> quickConnect \<Rightarrow> (qc_error + entry) \<times> quickConnect" where
  "Authorize now code userID qc =
     (case findPending now code qc of
        (Inl e, qc1) \<Rightarrow> (Inl e, qc1)
      | (Inr a, qc1) \<Rightarrow>
          let e = (entry_at qc1 a)\<lparr>e_UserID := userID, e_expiresAt := now + timeout\<rparr>
          in (Inr e, qc1\<lparr>qc_heap := (qc_heap qc1)[a := e]\<rparr>))"

definition Redeem :: "time \<Rightarrow> string \<Rightarrow> quickConnect \<Rightarrow> (qc_error + string) \<times> quickConnect" where
  "Redeem now secret qc =
     (case find_in qc_bySecret now secret qc of
        (Inl e, qc1) \<Rightarrow> (Inl ErrNotFound, qc1)
      | (Inr a, qc1) \<Rightarrow>
          if \<not> Authorized (entry_at qc1 a) then (Inl ErrNotFound, qc1)
          else (Inr (e_UserID (entry_at qc1 a)), remove a qc1))"

section \<open>The invariant\<close>

text \<open>The two maps are one set of live entries, each found under its own secret and its own code.\<close>

definition qc_inv :: "quickConnect \<Rightarrow> bool" where
  "qc_inv qc \<longleftrightarrow>
     distinct (map fst (qc_bySecret qc)) \<and> distinct (map fst (qc_byCode qc)) \<and>
     length (qc_bySecret qc) \<le> maxPending \<and>
     (\<forall>s a. map_of (qc_bySecret qc) s = Some a \<longrightarrow>
        a < length (qc_heap qc) \<and> e_Secret (entry_at qc a) = s \<and> map_of (qc_byCode qc) (e_Code (entry_at qc a)) = Some a) \<and>
     (\<forall>c a. map_of (qc_byCode qc) c = Some a \<longrightarrow>
        a < length (qc_heap qc) \<and> e_Code (entry_at qc a) = c \<and> map_of (qc_bySecret qc) (e_Secret (entry_at qc a)) = Some a)"

definition live :: "quickConnect \<Rightarrow> nat \<Rightarrow> bool" where
  "live qc a \<longleftrightarrow> map_of (qc_bySecret qc) (e_Secret (entry_at qc a)) = Some a"

lemma bySecret_live:
  "qc_inv qc \<Longrightarrow> map_of (qc_bySecret qc) s = Some a \<longleftrightarrow> live qc a \<and> e_Secret (entry_at qc a) = s"
  by (auto simp: qc_inv_def live_def)

lemma byCode_live:
  assumes "qc_inv qc"
  shows "map_of (qc_byCode qc) c = Some a \<longleftrightarrow> live qc a \<and> e_Code (entry_at qc a) = c"
proof
  assume "map_of (qc_byCode qc) c = Some a"
  with assms show "live qc a \<and> e_Code (entry_at qc a) = c" by (simp add: qc_inv_def live_def)
next
  assume l: "live qc a \<and> e_Code (entry_at qc a) = c"
  then have "map_of (qc_bySecret qc) (e_Secret (entry_at qc a)) = Some a" by (simp add: live_def)
  with assms have "map_of (qc_byCode qc) (e_Code (entry_at qc a)) = Some a" unfolding qc_inv_def by blast
  with l show "map_of (qc_byCode qc) c = Some a" by simp
qed

lemma live_in_heap: "qc_inv qc \<Longrightarrow> live qc a \<Longrightarrow> a < length (qc_heap qc)"
  unfolding qc_inv_def live_def by blast

lemma live_code_unique:
  "qc_inv qc \<Longrightarrow> live qc a \<Longrightarrow> live qc b \<Longrightarrow> e_Code (entry_at qc a) = e_Code (entry_at qc b) \<Longrightarrow> a = b"
  by (metis byCode_live option.inject)

lemma live_secret_unique:
  "live qc a \<Longrightarrow> live qc b \<Longrightarrow> e_Secret (entry_at qc a) = e_Secret (entry_at qc b) \<Longrightarrow> a = b"
  by (simp add: live_def)

text \<open>The invariant from its parts: what has to be shown of a new store.\<close>

lemma qc_invI:
  assumes "distinct (map fst (qc_bySecret qc))" "distinct (map fst (qc_byCode qc))" "length (qc_bySecret qc) \<le> maxPending"
    and "\<And>s a. map_of (qc_bySecret qc) s = Some a \<longleftrightarrow> L a \<and> e_Secret (entry_at qc a) = s"
    and "\<And>c a. map_of (qc_byCode qc) c = Some a \<longleftrightarrow> L a \<and> e_Code (entry_at qc a) = c"
    and "\<And>a. L a \<Longrightarrow> a < length (qc_heap qc)"
  shows "qc_inv qc \<and> (\<forall>a. live qc a \<longleftrightarrow> L a)"
  using assms by (auto simp: qc_inv_def live_def)

lemma remove_spec:
  assumes "qc_inv qc" and "live qc a"
  shows "qc_inv (remove a qc) \<and> (\<forall>b. live (remove a qc) b \<longleftrightarrow> live qc b \<and> b \<noteq> a)"
proof (rule qc_invI)
  show "distinct (map fst (qc_bySecret (remove a qc)))" "distinct (map fst (qc_byCode (remove a qc)))"
    using assms(1) by (simp_all add: remove_def qc_inv_def distinct_delete)
  show "length (qc_bySecret (remove a qc)) \<le> maxPending"
    using assms(1) length_delete_le [of "e_Secret (entry_at qc a)" "qc_bySecret qc"] by (simp add: remove_def qc_inv_def)
  show "map_of (qc_bySecret (remove a qc)) s = Some b \<longleftrightarrow> (live qc b \<and> b \<noteq> a) \<and> e_Secret (entry_at (remove a qc) b) = s" for s b
    using assms bySecret_live [OF assms(1)] live_secret_unique [OF _ assms(2)]
    by (auto simp: remove_def delete_conv')
  show "map_of (qc_byCode (remove a qc)) c = Some b \<longleftrightarrow> (live qc b \<and> b \<noteq> a) \<and> e_Code (entry_at (remove a qc) b) = c" for c b
    using assms byCode_live [OF assms(1)] live_code_unique [OF assms(1) _ assms(2)]
    by (auto simp: remove_def delete_conv')
  show "live qc b \<and> b \<noteq> a \<Longrightarrow> b < length (qc_heap (remove a qc))" for b
    using live_in_heap [OF assms(1)] by (simp add: remove_def)
qed

lemma remove_heap [simp]: "qc_heap (remove a qc) = qc_heap qc"
  by (simp add: remove_def)

lemma expire_all_spec:
  assumes "qc_inv qc" "distinct as" "\<forall>a \<in> set as. live qc a"
  shows "qc_inv (expire_all now as qc) \<and> qc_heap (expire_all now as qc) = qc_heap qc \<and>
         (\<forall>b. live (expire_all now as qc) b \<longleftrightarrow> live qc b \<and> \<not> (b \<in> set as \<and> e_expiresAt (entry_at qc b) \<le> now))"
  using assms
proof (induction as arbitrary: qc)
  case Nil
  then show ?case by simp
next
  case (Cons a as)
  let ?qc = "if \<not> now < e_expiresAt (entry_at qc a) then remove a qc else qc"
  have r: "qc_inv ?qc" "\<And>b. live ?qc b \<longleftrightarrow> live qc b \<and> \<not> (b = a \<and> e_expiresAt (entry_at qc a) \<le> now)"
      "qc_heap ?qc = qc_heap qc"
    using remove_spec [OF Cons.prems(1), of a] Cons.prems by auto
  have "\<forall>b \<in> set as. live ?qc b" using r(2) Cons.prems(2,3) by auto
  from Cons.IH [OF r(1) _ this] Cons.prems(2) show ?case by (auto simp: r(2,3))
qed

lemma expire_spec:
  assumes "qc_inv qc"
  shows "qc_inv (expire now qc)" and "qc_heap (expire now qc) = qc_heap qc"
    and "live (expire now qc) a \<longleftrightarrow> live qc a \<and> now < e_expiresAt (entry_at qc a)"
proof -
  let ?as = "map snd (qc_bySecret qc)"
  have mem: "a \<in> set ?as \<longleftrightarrow> live qc a" for a
  proof
    assume "a \<in> set ?as"
    then obtain s where "(s, a) \<in> set (qc_bySecret qc)" by auto
    then have "map_of (qc_bySecret qc) s = Some a" using assms by (simp add: qc_inv_def)
    then show "live qc a" by (simp add: bySecret_live [OF assms])
  qed (auto simp: live_def dest!: map_of_SomeD intro: rev_image_eqI)
  have "inj_on snd (set (qc_bySecret qc))"
  proof (rule inj_onI)
    fix x y assume "x \<in> set (qc_bySecret qc)" "y \<in> set (qc_bySecret qc)" "snd x = snd y"
    moreover from this(1,2) have "map_of (qc_bySecret qc) (fst x) = Some (snd x)" "map_of (qc_bySecret qc) (fst y) = Some (snd y)"
      using assms by (simp_all add: qc_inv_def)
    ultimately show "x = y" using bySecret_live [OF assms] by (metis prod_eqI)
  qed
  then have "distinct ?as" using assms by (auto simp: qc_inv_def distinct_map)
  moreover have "\<forall>a \<in> set ?as. live qc a" by (intro ballI) (simp only: mem)
  ultimately have e: "qc_inv (expire now qc) \<and> qc_heap (expire now qc) = qc_heap qc \<and>
      (\<forall>b. live (expire now qc) b \<longleftrightarrow> live qc b \<and> \<not> (b \<in> set ?as \<and> e_expiresAt (entry_at qc b) \<le> now))"
    unfolding expire_def by (rule expire_all_spec [OF assms])
  then show "qc_inv (expire now qc)" "qc_heap (expire now qc) = qc_heap qc" by blast+
  from e mem [of a] show "live (expire now qc) a \<longleftrightarrow> live qc a \<and> now < e_expiresAt (entry_at qc a)"
    by (simp only: not_le de_Morgan_conj) blast
qed

section \<open>Operations keep the invariant\<close>

lemma find_in_inv: "qc_inv qc \<Longrightarrow> qc_inv (snd (find_in sel now key qc))"
  by (simp add: find_in_def Let_def expire_spec(1))

lemma expired_lookup:
  assumes "qc_inv qc"
  shows "map_of (qc_bySecret (expire now qc)) s = Some a \<longleftrightarrow>
           live qc a \<and> now < e_expiresAt (entry_at qc a) \<and> e_Secret (entry_at qc a) = s"
    and "map_of (qc_byCode (expire now qc)) c = Some a \<longleftrightarrow>
           live qc a \<and> now < e_expiresAt (entry_at qc a) \<and> e_Code (entry_at qc a) = c"
  using bySecret_live [OF expire_spec(1) [OF assms, of now]] byCode_live [OF expire_spec(1) [OF assms, of now]]
  by (simp_all add: expire_spec [OF assms])

lemma findPending_snd [simp]: "snd (findPending now code qc) = expire now qc"
  by (simp add: findPending_def find_in_def Let_def split: option.split)

lemma findPending_fst:
  "fst (findPending now code qc) = Inr a \<longleftrightarrow>
     map_of (qc_byCode (expire now qc)) (normalizeCode code) = Some a \<and> \<not> Authorized (entry_at (expire now qc) a)"
  by (auto simp: findPending_def find_in_def Let_def split: option.split)

lemma findPending_spec:
  assumes "qc_inv qc"
  shows "fst (findPending now code qc) = Inr a \<longleftrightarrow>
           live qc a \<and> now < e_expiresAt (entry_at qc a) \<and> e_Code (entry_at qc a) = normalizeCode code \<and>
           \<not> Authorized (entry_at qc a)"
  by (simp add: findPending_fst expired_lookup [OF assms] expire_spec(2) [OF assms])

lemma update_live_entry:
  assumes "qc_inv qc" "e_Secret e = e_Secret (entry_at qc a)" "e_Code e = e_Code (entry_at qc a)"
  shows "qc_inv (qc\<lparr>qc_heap := (qc_heap qc)[a := e]\<rparr>) \<and> (\<forall>b. live (qc\<lparr>qc_heap := (qc_heap qc)[a := e]\<rparr>) b \<longleftrightarrow> live qc b)"
proof -
  have s: "e_Secret ((qc_heap qc)[a := e] ! b) = e_Secret (entry_at qc b)" "e_Code ((qc_heap qc)[a := e] ! b) = e_Code (entry_at qc b)" for b
    by (auto simp: nth_list_update_any assms(2,3))
  show ?thesis using assms(1) by (simp add: qc_inv_def live_def s)
qed

lemma Authorize_eq:
  "Authorize now code userID qc =
     (case fst (findPending now code qc) of
        Inl e \<Rightarrow> (Inl e, expire now qc)
      | Inr a \<Rightarrow>
          (let e = (entry_at (expire now qc) a)\<lparr>e_UserID := userID, e_expiresAt := now + timeout\<rparr>
           in (Inr e, (expire now qc)\<lparr>qc_heap := (qc_heap (expire now qc))[a := e]\<rparr>)))"
  using findPending_snd [of now code qc]
  by (cases "findPending now code qc") (auto simp: Authorize_def split: sum.split)

lemma Authorize_inv: "qc_inv qc \<Longrightarrow> qc_inv (snd (Authorize now code user qc))"
  using update_live_entry [OF expire_spec(1) [of qc now]]
  by (simp add: Authorize_eq Let_def expire_spec(1) split: sum.split)

lemma find_secret:
  assumes "qc_inv qc"
  shows "fst (find_in qc_bySecret now secret qc) = Inr a \<longleftrightarrow>
           live qc a \<and> now < e_expiresAt (entry_at qc a) \<and> e_Secret (entry_at qc a) = secret"
  unfolding expired_lookup(1) [OF assms, symmetric] by (simp add: find_in_def Let_def split: option.split)

lemma find_in_snd [simp]: "snd (find_in sel now key qc) = expire now qc"
  by (simp add: find_in_def Let_def)

lemma Redeem_eq:
  "Redeem now secret qc =
     (case fst (find_in qc_bySecret now secret qc) of
        Inl e \<Rightarrow> (Inl ErrNotFound, expire now qc)
      | Inr a \<Rightarrow>
          (if \<not> Authorized (entry_at (expire now qc) a) then (Inl ErrNotFound, expire now qc)
           else (Inr (e_UserID (entry_at (expire now qc) a)), remove a (expire now qc))))"
  using find_in_snd [of qc_bySecret now secret qc]
  by (cases "find_in qc_bySecret now secret qc") (auto simp: Redeem_def split: sum.split)

lemma Redeem_inv:
  assumes "qc_inv qc"
  shows "qc_inv (snd (Redeem now secret qc))"
proof -
  have "qc_inv (remove a (expire now qc))" if "fst (find_in qc_bySecret now secret qc) = Inr a" for a
    using that remove_spec [OF expire_spec(1) [OF assms]] expire_spec(3) [OF assms] find_secret [OF assms] by blast
  with expire_spec(1) [OF assms, of now] show ?thesis
    by (simp add: Redeem_eq split: sum.split)
qed

text \<open>A new code is one no live entry has.\<close>

lemma newCode_Some: "newCode rnd idx k = Some y \<Longrightarrow> map_of idx (fst y) = None"
  by (erule newCode.raw_induct [rotated]) (auto simp: Let_def split: if_splits)

text \<open>It is found as soon as the stream of random numbers draws one.\<close>

lemma newCode_terminates:
  assumes "map_of idx (show_nat (rnd (k + n) + 100000)) = None"
  shows "\<exists>y. newCode rnd idx k = Some y"
  using assms
proof (induction n arbitrary: k)
  case 0
  then show ?case by (subst newCode.simps) (simp add: Let_def)
next
  case (Suc n)
  then have "\<exists>y. newCode rnd idx (k + 1) = Some y" using Suc.IH [of "k + 1"] by simp
  then show ?case by (subst newCode.simps) (simp add: Let_def)
qed

lemma Initiate_cases:
  assumes "Initiate now device secret rnd k qc = Some (r, qc')"
  obtains (full) "r = Inl ErrTooManyRequests" "qc' = expire now qc" "maxPending \<le> length (qc_bySecret (expire now qc))"
  | (new) e where "r = Inr e" "length (qc_bySecret (expire now qc)) < maxPending" "e_Secret e = secret" "e_UserID e = ''''"
      "e_expiresAt e = now + timeout" "e_Device e = device" "map_of (qc_byCode (expire now qc)) (e_Code e) = None"
      "qc' = \<lparr>qc_heap = qc_heap (expire now qc) @ [e],
              qc_bySecret = AList.update secret (length (qc_heap (expire now qc))) (qc_bySecret (expire now qc)),
              qc_byCode = AList.update (e_Code e) (length (qc_heap (expire now qc))) (qc_byCode (expire now qc))\<rparr>"
  using assms newCode_Some
  by (force simp: Initiate_def Let_def split: if_splits option.splits)

lemma Initiate_new:
  assumes "qc_inv qc" and "length (qc_bySecret qc) < maxPending"
    and "map_of (qc_bySecret qc) (e_Secret e) = None" and "map_of (qc_byCode qc) (e_Code e) = None"
  defines "qc' \<equiv> \<lparr>qc_heap = qc_heap qc @ [e], qc_bySecret = AList.update (e_Secret e) (length (qc_heap qc)) (qc_bySecret qc),
                    qc_byCode = AList.update (e_Code e) (length (qc_heap qc)) (qc_byCode qc)\<rparr>"
  shows "qc_inv qc' \<and> (\<forall>a. live qc' a \<longleftrightarrow> live qc a \<or> a = length (qc_heap qc))"
proof (rule qc_invI)
  show "distinct (map fst (qc_bySecret qc'))" "distinct (map fst (qc_byCode qc'))"
    using assms(1) by (simp_all add: qc'_def qc_inv_def distinct_update)
  have "length (AList.update k v xs) \<le> Suc (length xs)" for k :: string and v :: nat and xs
    by (induction xs) auto
  from this [of "e_Secret e" "length (qc_heap qc)" "qc_bySecret qc"] assms(2)
  show "length (qc_bySecret qc') \<le> maxPending" by (simp add: qc'_def)
  note s = bySecret_live [OF assms(1)] and c = byCode_live [OF assms(1)] and h = live_in_heap [OF assms(1)]
  have new: "\<not> (live qc b \<and> e_Secret (entry_at qc b) = e_Secret e)" "\<not> (live qc b \<and> e_Code (entry_at qc b) = e_Code e)" for b
    using assms(3,4) s [of "e_Secret e" b] c [of "e_Code e" b] by auto
  show "map_of (qc_bySecret qc') t = Some b \<longleftrightarrow>
      (live qc b \<or> b = length (qc_heap qc)) \<and> e_Secret (entry_at qc' b) = t" for t b
    using h [of b] new(1) [of b] s [of t b] by (auto simp: qc'_def update_conv' nth_append)
  show "map_of (qc_byCode qc') t = Some b \<longleftrightarrow>
      (live qc b \<or> b = length (qc_heap qc)) \<and> e_Code (entry_at qc' b) = t" for t b
    using h [of b] new(2) [of b] c [of t b] by (auto simp: qc'_def update_conv' nth_append)
  show "live qc b \<or> b = length (qc_heap qc) \<Longrightarrow> b < length (qc_heap qc')" for b
    using h [of b] by (auto simp: qc'_def)
qed

lemma Initiate_inv:
  assumes "qc_inv qc" and "Initiate now device secret rnd k qc = Some (r, qc')"
    and "map_of (qc_bySecret (expire now qc)) secret = None"
  shows "qc_inv qc'"
  using assms(2)
proof (cases rule: Initiate_cases)
  case full
  then show ?thesis using expire_spec(1) [OF assms(1)] by simp
next
  case (new e)
  then show ?thesis using Initiate_new [OF expire_spec(1) [OF assms(1)], of now e] assms(3) by simp
qed

section \<open>Sequences of operations\<close>

text \<open>
  One step is one operation, with any clock and any random numbers; a new request has a secret of the set
  \<open>S\<close> that no live entry has.
\<close>

inductive qc_step :: "string set \<Rightarrow> quickConnect \<Rightarrow> quickConnect \<Rightarrow> bool" for S where
  initiate: "Initiate now device secret rnd k qc = Some (r, qc') \<Longrightarrow> secret \<in> S \<Longrightarrow>
     map_of (qc_bySecret (expire now qc)) secret = None \<Longrightarrow> qc_step S qc qc'"
| status: "Status now secret qc = (r, qc') \<Longrightarrow> qc_step S qc qc'"
| lookup: "Lookup now code qc = (r, qc') \<Longrightarrow> qc_step S qc qc'"
| authorize: "Authorize now code user qc = (r, qc') \<Longrightarrow> qc_step S qc qc'"
| redeem: "Redeem now secret qc = (r, qc') \<Longrightarrow> qc_step S qc qc'"

lemma Status_snd [simp]: "snd (Status now secret qc) = expire now qc"
  using find_in_snd [of qc_bySecret now secret qc] by (cases "find_in qc_bySecret now secret qc") (auto simp: Status_def split: sum.split)

lemma Lookup_snd [simp]: "snd (Lookup now code qc) = expire now qc"
  using findPending_snd [of now code qc] by (cases "findPending now code qc") (auto simp: Lookup_def split: sum.split)

lemma qc_step_inv: "qc_step S qc qc' \<Longrightarrow> qc_inv qc \<Longrightarrow> qc_inv qc'"
proof (induction rule: qc_step.induct)
  case (initiate now device secret rnd k qc r qc')
  then show ?case using Initiate_inv by blast
next
  case (status now secret qc r qc')
  then show ?case using Status_snd [of now secret qc] expire_spec(1) by simp
next
  case (lookup now code qc r qc')
  then show ?case using Lookup_snd [of now code qc] expire_spec(1) by simp
next
  case (authorize now code user qc r qc')
  then show ?case using Authorize_inv [of qc now code user] by simp
next
  case (redeem now secret qc r qc')
  then show ?case using Redeem_inv [of qc now secret] by simp
qed

lemma qc_inv_newStore: "qc_inv newStore"
  by (simp add: qc_inv_def newStore_def)

text \<open>A secret that is not there is not there later, unless a new request brings it.\<close>

lemma expire_absent:
  "qc_inv qc \<Longrightarrow> map_of (qc_bySecret qc) s = None \<Longrightarrow> map_of (qc_bySecret (expire now qc)) s = None"
  using expired_lookup(1) [of qc now s] bySecret_live [of qc s]
  by (cases "map_of (qc_bySecret (expire now qc)) s") auto

lemma step_absent:
  assumes "qc_step S qc qc'" "qc_inv qc" "s \<notin> S" "map_of (qc_bySecret qc) s = None"
  shows "map_of (qc_bySecret qc') s = None"
  using assms(1)
proof cases
  case (initiate now device secret rnd k r)
  from initiate(1) show ?thesis
  proof (cases rule: Initiate_cases)
    case full
    then show ?thesis using expire_absent [OF assms(2,4)] by simp
  next
    case (new e)
    then show ?thesis using expire_absent [OF assms(2,4)] initiate(2) assms(3) by (auto simp: update_conv')
  qed
next
  case (status now secret r)
  then show ?thesis using Status_snd [of now secret qc] expire_absent [OF assms(2,4)] by simp
next
  case (lookup now code r)
  then show ?thesis using Lookup_snd [of now code qc] expire_absent [OF assms(2,4)] by simp
next
  case (authorize now code user r)
  then show ?thesis using expire_absent [OF assms(2,4), of now]
    by (auto simp: Authorize_eq Let_def split: sum.splits)
next
  case (redeem now secret r)
  then show ?thesis using expire_absent [OF assms(2,4), of now]
    by (auto simp: Redeem_eq remove_def delete_conv' split: sum.splits if_splits)
qed

lemma absent_reachable:
  assumes "reachable qc (qc_step S) qc'" "qc_inv qc" "s \<notin> S" "map_of (qc_bySecret qc) s = None"
  shows "qc_inv qc' \<and> map_of (qc_bySecret qc') s = None"
  using assms(1)
  by (rule reachable_invariant) (use assms(2-4) qc_step_inv step_absent in blast)+

lemma Redeem_absent:
  assumes "qc_inv qc" "map_of (qc_bySecret qc) s = None"
  shows "fst (Redeem now s qc) = Inl ErrNotFound"
  using expire_absent [OF assms, of now] by (simp add: Redeem_def find_in_def Let_def)

lemma Redeem_Inr:
  assumes "qc_inv qc" "Redeem now s qc = (Inr u, qc')"
  shows "map_of (qc_bySecret qc') s = None \<and> u \<noteq> '''' \<and>
         (\<exists>a. live qc a \<and> e_Secret (entry_at qc a) = s \<and> e_UserID (entry_at qc a) = u \<and> now < e_expiresAt (entry_at qc a))"
proof (cases "fst (find_in qc_bySecret now s qc)")
  case (Inl e)
  with assms(2) show ?thesis by (simp add: Redeem_eq)
next
  case (Inr a)
  with assms(2) find_secret [OF assms(1), of now s a] expire_spec(2) [OF assms(1), of now] show ?thesis
    by (auto simp: Redeem_eq Authorized_def remove_def delete_conv' split: if_splits)
qed

section \<open>Properties\<close>

text \<open>
  C24 (safety): a secret is redeemed at most once: a successful redemption names the user of the approved
  and unexpired request with that secret, and after it every redemption of the secret fails, whatever
  operations follow, as long as no new request is given the same secret.
\<close>

theorem Redeem_once:
  assumes "reachable newStore (qc_step UNIV) qc" and "Redeem now s qc = (Inr u, qc1)"
    and "reachable qc1 (qc_step (- {s})) qc2"
  shows "fst (Redeem now' s qc2) = Inl ErrNotFound \<and> u \<noteq> '''' \<and>
         (\<exists>e \<in> set (qc_heap qc). e_Secret e = s \<and> e_UserID e = u \<and> now < e_expiresAt e)"
proof -
  have inv: "qc_inv qc" using assms(1) qc_inv_newStore qc_step_inv by (rule reachable_invariant)
  note r = Redeem_Inr [OF inv assms(2)]
  have "qc_inv qc1" using Redeem_inv [OF inv, of now s] assms(2) by simp
  then have "fst (Redeem now' s qc2) = Inl ErrNotFound"
    using absent_reachable [OF assms(3), of s] r Redeem_absent [of qc2 s now'] by auto
  moreover from r obtain a where "live qc a" "e_Secret (entry_at qc a) = s" "e_UserID (entry_at qc a) = u"
      "now < e_expiresAt (entry_at qc a)" by blast
  moreover from this(1) have "entry_at qc a \<in> set (qc_heap qc)" using live_in_heap [OF inv] nth_mem by blast
  ultimately show ?thesis using r by blast
qed

lemma sign_in_flow:
  assumes "qc_inv qc" and "Initiate now device secret rnd k qc = Some (Inr e, qc1)"
    and "map_of (qc_bySecret (expire now qc)) secret = None"
    and "t1 < now + timeout" and "t2 < t1 + timeout" and "u \<noteq> ''''" and "normalizeCode code = e_Code e"
  shows "fst (Redeem t1 secret qc1) = Inl ErrNotFound \<and>
         fst (Authorize t1 code u qc1) = Inr (e\<lparr>e_UserID := u, e_expiresAt := t1 + timeout\<rparr>) \<and>
         fst (Redeem t2 secret (snd (Authorize t1 code u qc1))) = Inr u"
  using assms(2)
proof (cases rule: Initiate_cases)
  case (new e')
  let ?qx = "expire now qc" and ?e = "e\<lparr>e_UserID := u, e_expiresAt := t1 + timeout\<rparr>"
  let ?a = "length (qc_heap ?qx)"
  from new(1) have e': "e' = e" by simp
  have 1: "qc_inv qc1" "live qc1 ?a" and ent: "entry_at qc1 ?a = e"
    using Initiate_new [OF expire_spec(1) [OF assms(1), of now], of e] new assms(3) by (simp_all add: e')
  have len: "?a < length (qc_heap qc1)" using 1 by (rule live_in_heap)
  have "fst (find_in qc_bySecret t1 secret qc1) = Inr ?a"
    using find_secret [OF 1(1)] 1(2) ent new(3,5) assms(4) by (simp add: e')
  then have red: "fst (Redeem t1 secret qc1) = Inl ErrNotFound"
    using expire_spec(2) [OF 1(1), of t1] ent new(4) by (simp add: Redeem_eq Authorized_def e')
  have "fst (findPending t1 code qc1) = Inr ?a"
    using findPending_spec [OF 1(1)] 1(2) ent new(4,5) assms(4,7) by (simp add: e' Authorized_def)
  then have auth: "Authorize t1 code u qc1 = (Inr ?e, (expire t1 qc1)\<lparr>qc_heap := (qc_heap qc1)[?a := ?e]\<rparr>)"
    using expire_spec(2) [OF 1(1), of t1] ent by (simp add: Authorize_eq Let_def)
  let ?qc2 = "(expire t1 qc1)\<lparr>qc_heap := (qc_heap qc1)[?a := ?e]\<rparr>"
  have "live (expire t1 qc1) ?a" using expire_spec(3) [OF 1(1)] 1(2) ent new(5) assms(4) by (simp add: e')
  then have 2: "qc_inv ?qc2" "live ?qc2 ?a"
    using update_live_entry [OF expire_spec(1) [OF 1(1), of t1], of ?e ?a] expire_spec(2) [OF 1(1), of t1] ent by simp_all
  have "fst (find_in qc_bySecret t2 secret ?qc2) = Inr ?a"
    using find_secret [OF 2(1)] 2(2) len new(3) assms(5) by (simp add: e')
  then have "fst (Redeem t2 secret ?qc2) = Inr u"
    using expire_spec(2) [OF 2(1), of t2] len assms(6) by (simp add: Redeem_eq Authorized_def)
  with red auth show ?thesis by simp
qed simp

text \<open>
  The sign-in works: a new request is found by its secret, approving its code in any
  spacing succeeds before it expires, redeeming the secret then gives the approving user, and before the
  approval redeeming fails.
\<close>

lemma quick_connect_flow:
  assumes "qc_inv qc" and "Initiate now device secret rnd k qc = Some (Inr e, qc1)"
    and "map_of (qc_bySecret (expire now qc)) secret = None"
    and "t1 < now + timeout" and "t2 < t1 + timeout" and "u \<noteq> ''''" and "normalizeCode code = e_Code e"
  shows "fst (Redeem t1 secret qc1) = Inl ErrNotFound \<and>
         fst (Authorize t1 code u qc1) = Inr (e\<lparr>e_UserID := u, e_expiresAt := t1 + timeout\<rparr>) \<and>
         fst (Redeem t2 secret (snd (Authorize t1 code u qc1))) = Inr u"
  using assms by (rule sign_in_flow)

lemma codes_bounded:
  assumes "qc_inv qc"
  shows "finite (dom (map_of (qc_byCode qc))) \<and> card (dom (map_of (qc_byCode qc))) \<le> maxPending"
proof -
  have "dom (map_of (qc_byCode qc)) \<subseteq> (\<lambda>a. e_Code (entry_at qc a)) ` snd ` set (qc_bySecret qc)"
  proof
    fix c assume "c \<in> dom (map_of (qc_byCode qc))"
    then obtain a where "live qc a" "e_Code (entry_at qc a) = c" using byCode_live [OF assms] by auto
    then show "c \<in> (\<lambda>a. e_Code (entry_at qc a)) ` snd ` set (qc_bySecret qc)"
      unfolding live_def by (auto dest!: map_of_SomeD intro: rev_image_eqI)
  qed
  then have "card (dom (map_of (qc_byCode qc))) \<le> card ((\<lambda>a. e_Code (entry_at qc a)) ` snd ` set (qc_bySecret qc))"
    by (intro card_mono) auto
  also have "\<dots> \<le> card (set (qc_bySecret qc))" by (meson card_image_le finite_imageI finite_set order_trans)
  also have "\<dots> \<le> maxPending" using assms card_length order_trans unfolding qc_inv_def by blast
  finally show ?thesis by (simp add: finite_dom_map_of)
qed

text \<open>
  A request to connect always returns: a code is found as soon as more than a thousand
  different numbers have been drawn, since no more than that many codes can be taken. The store stays
  within its bound, and refuses the request only when it is full.
\<close>

lemma Initiate_returns:
  assumes "reachable newStore (qc_step UNIV) qc" and "maxPending < card (rnd ` {k..<k + m})"
  shows "\<exists>r qc'. Initiate now device secret rnd k qc = Some (r, qc') \<and>
           (r = Inl ErrTooManyRequests \<longleftrightarrow> length (qc_bySecret (expire now qc)) = maxPending)"
proof -
  have inv: "qc_inv qc" using assms(1) qc_inv_newStore qc_step_inv by (rule reachable_invariant)
  let ?qx = "expire now qc" and ?f = "\<lambda>n. show_nat (n + 100000)"
  have "card (?f ` rnd ` {k..<k + m}) = card (rnd ` {k..<k + m})"
    by (rule card_image) (auto simp: inj_on_def dest: show_nat_inj)
  with assms(2) codes_bounded [OF expire_spec(1) [OF inv, of now]]
  have "\<not> ?f ` rnd ` {k..<k + m} \<subseteq> dom (map_of (qc_byCode ?qx))"
    by (metis card_mono le_trans not_le)
  then obtain i where "i \<in> {k..<k + m}" "map_of (qc_byCode ?qx) (?f (rnd i)) = None" by blast
  then have "\<exists>y. newCode rnd (qc_byCode ?qx) k = Some y"
    using newCode_terminates [of "qc_byCode ?qx" rnd k "i - k"] by simp
  moreover have "length (qc_bySecret ?qx) \<le> maxPending" using expire_spec(1) [OF inv] by (simp add: qc_inv_def)
  ultimately show ?thesis by (auto simp: Initiate_def Let_def split: if_splits)
qed

definition ex_device :: Device where
  "ex_device = \<lparr>dv_ID = ''d'', dv_Name = ''tv'', dv_App = ''finamp'', dv_AppVersion = ''1''\<rparr>"

lemma Initiate_returns_witness:
  "\<exists>r qc'. Initiate 0 ex_device ''s'' (\<lambda>i. i) 0 newStore = Some (r, qc') \<and> r \<noteq> Inl ErrTooManyRequests"
proof -
  have "maxPending < card ((\<lambda>i::nat. i) ` {0..<0 + 1001})" by (simp add: maxPending_def)
  from Initiate_returns [OF reachable_start this, of 0 ex_device "''s''"] show ?thesis
    by (auto simp: newStore_def expire_def maxPending_def)
qed

definition ex_entry :: entry where
  "ex_entry = \<lparr>e_Device = ex_device, e_Secret = ''s'', e_Code = show_nat 123456, e_DateAdded = 0, e_UserID = '''',
               e_expiresAt = timeout\<rparr>"

definition ex_store :: quickConnect where
  "ex_store = \<lparr>qc_heap = [ex_entry], qc_bySecret = [(''s'', 0)], qc_byCode = [(e_Code ex_entry, 0)]\<rparr>"

lemma ex_Initiate: "Initiate 0 ex_device ''s'' (\<lambda>_. 23456) 0 newStore = Some (Inr ex_entry, ex_store)"
proof -
  have "newCode (\<lambda>_. 23456) [] 0 = Some (show_nat 123456, 1)"
    by (subst newCode.simps) simp
  then show ?thesis
    by (simp add: Initiate_def newStore_def expire_def maxPending_def ex_store_def ex_entry_def Let_def)
qed

lemma ex_code: "show_nat 123456 = ''123456''"
  by (simp add: show_nat.simps digit_char_def char_of_def bit_Suc_0_iff)

lemma ex_normalize: "normalizeCode ''123 456'' = show_nat 123456" "normalizeCode (show_nat 123456) = show_nat 123456"
  by (simp_all add: normalizeCode_def go_fields_def is_space_def ex_code)

lemma quick_connect_flow_witness:
  "fst (Authorize 5 ''123 456'' ''ann'' ex_store) = Inr (ex_entry\<lparr>e_UserID := ''ann'', e_expiresAt := 5 + timeout\<rparr>) \<and>
   fst (Redeem 9 ''s'' (snd (Authorize 5 ''123 456'' ''ann'' ex_store))) = Inr ''ann''"
proof -
  have "map_of (qc_bySecret (expire 0 newStore)) ''s'' = None" by (simp add: newStore_def expire_def)
  moreover have "e_Code ex_entry = show_nat 123456" by (simp add: ex_entry_def)
  ultimately show ?thesis
    using quick_connect_flow [OF qc_inv_newStore ex_Initiate, of 5 9 "''ann''" "''123 456''"] ex_normalize
    by (simp add: timeout_def)
qed

theorem Redeem_once_witness:
  "\<exists>qc1. Redeem 9 ''s'' (snd (Authorize 5 (show_nat 123456) ''ann'' ex_store)) = (Inr ''ann'', qc1) \<and>
         fst (Redeem 10 ''s'' qc1) = Inl ErrNotFound"
proof -
  let ?qc = "snd (Authorize 5 (show_nat 123456) ''ann'' ex_store)"
  have n: "normalizeCode (show_nat 123456) = e_Code ex_entry" by (simp add: ex_normalize ex_entry_def)
  have f: "map_of (qc_bySecret (expire 0 newStore)) ''s'' = None" by (simp add: newStore_def expire_def)
  have "qc_step UNIV newStore ex_store" by (rule qc_step.initiate [OF ex_Initiate _ f]) simp
  moreover have "qc_step UNIV ex_store ?qc" by (rule qc_step.authorize [OF prod.collapse [symmetric]])
  ultimately have r: "reachable newStore (qc_step UNIV) ?qc" by (blast intro: reachable_start reachable_step)
  have "fst (Redeem 9 ''s'' ?qc) = Inr ''ann''"
    using sign_in_flow [OF qc_inv_newStore ex_Initiate f, of 5 9 "''ann''" "show_nat 123456"] n
    by (simp add: timeout_def)
  then have "Redeem 9 ''s'' ?qc = (Inr ''ann'', snd (Redeem 9 ''s'' ?qc))" by (metis prod.collapse)
  with Redeem_once [OF r this reachable_start, of 10] show ?thesis by blast
qed

end
