(* ===== verification/Scrobble_Buffer.thy ===== *)
theory Scrobble_Buffer
  imports Go_Concurrency "HOL-Library.Monad_Syntax"
begin

text \<open>
  Scrobbles on their way to a service: the buffer table of \<open>persistence/scrobble_buffer_repository.go\<close> and
  the goroutine that drains it, \<open>core/scrobbler/buffered_scrobbler.go\<close>. The table is the list of its rows
  in the order of their row ids. What the database and the service answer to each round of the drain loop
  is an argument, the record \<open>attempt\<close>.

  The locale \<open>scrobble_queue\<close> is what the drain loop relies on: a queue per service and user, whose first
  entry \<open>Next\<close> returns and \<open>Dequeue\<close> removes. The table is shown to be one.
\<close>

section \<open>The table\<close>

type_synonym time = int

record ScrobbleEntry =
  se_ID :: string
  se_Service :: string
  se_UserID :: string
  se_PlayTime :: time
  se_EnqueueTime :: time
  se_MediaFileID :: string

type_synonym scrobble_table = "ScrobbleEntry list"

definition Enqueue :: "string \<Rightarrow> time \<Rightarrow> string \<Rightarrow> string \<Rightarrow> string \<Rightarrow> time \<Rightarrow> scrobble_table \<Rightarrow> scrobble_table" where
  "Enqueue newID now service userId mediaFileId playTime rows =
     rows @ [\<lparr>se_ID = newID, se_Service = service, se_UserID = userId, se_PlayTime = playTime,
              se_EnqueueTime = now, se_MediaFileID = mediaFileId\<rparr>]"

definition UserIDs :: "string \<Rightarrow> scrobble_table \<Rightarrow> string list" where
  "UserIDs service rows =
     (let users = map se_UserID (filter (\<lambda>r. se_Service r = service) rows)
      in sort_key (count_list users) (remdups users))"

text \<open>The rows of one service and user by play time, then row id: the \<open>OrderBy\<close> of \<open>Next\<close>.\<close>

definition pending :: "scrobble_table \<Rightarrow> string \<Rightarrow> string \<Rightarrow> ScrobbleEntry list" where
  "pending rows service userId = sort_key se_PlayTime (filter (\<lambda>r. se_Service r = service \<and> se_UserID r = userId) rows)"

definition Next :: "string \<Rightarrow> string \<Rightarrow> scrobble_table \<Rightarrow> ScrobbleEntry option" where
  "Next service userId rows =
     (case take 1 (sort_key se_PlayTime (filter (\<lambda>r. se_Service r = service \<and> se_UserID r = userId) rows)) of
        [] \<Rightarrow> None | e # _ \<Rightarrow> Some e)"

definition Dequeue :: "scrobble_table \<Rightarrow> ScrobbleEntry \<Rightarrow> scrobble_table" where
  "Dequeue rows entry = filter (\<lambda>r. se_ID r \<noteq> se_ID entry) rows"

definition Discard :: "string \<Rightarrow> scrobble_table \<Rightarrow> scrobble_table" where
  "Discard service rows = filter (\<lambda>r. se_Service r \<noteq> service) rows"

definition table_ok :: "scrobble_table \<Rightarrow> bool" where
  "table_ok rows \<longleftrightarrow> distinct (map se_ID rows)"

section \<open>The drain loop\<close>

datatype send_result = Sent | Failed | Retry int

record attempt =
  at_NextErr :: bool
  at_Loaded :: bool
  at_Result :: send_result
  at_DequeueErr :: bool

text \<open>
  The loop of \<open>processUserQueue\<close> on any buffer: whether the queue was drained and the delay asked for, the
  buffer, and the entries handed to the service. \<open>None\<close> would be a loop that does not end.
\<close>

partial_function (option) user_loop ::
    "('b \<Rightarrow> 'e option) \<Rightarrow> ('b \<Rightarrow> 'e \<Rightarrow> 'b) \<Rightarrow> (nat \<Rightarrow> attempt) \<Rightarrow> nat \<Rightarrow> 'b \<Rightarrow> 'e list \<Rightarrow>
     ((bool \<times> int) \<times> 'b \<times> 'e list) option" where
  "user_loop next dequeue env i b sent =
     (if at_NextErr (env i) then Some ((False, 0), b, sent)
      else case next b of
             None \<Rightarrow> Some ((True, 0), b, sent)
           | Some entry \<Rightarrow>
               if \<not> at_Loaded (env i) then Some ((False, 0), b, sent)
               else case at_Result (env i) of
                      Retry d \<Rightarrow> Some ((False, d), b, sent @ [entry])
                    | _ \<Rightarrow>
                        if at_DequeueErr (env i) then Some ((False, 0), b, sent @ [entry])
                        else user_loop next dequeue env (i + 1) (dequeue b entry) (sent @ [entry]))"

definition processUserQueue ::
    "(nat \<Rightarrow> attempt) \<Rightarrow> string \<Rightarrow> string \<Rightarrow> scrobble_table \<Rightarrow>
     ((bool \<times> int) \<times> scrobble_table \<times> ScrobbleEntry list) option" where
  "processUserQueue env service userId rows = user_loop (Next service userId) Dequeue env 0 rows []"

fun process_users ::
    "(string \<Rightarrow> nat \<Rightarrow> attempt) \<Rightarrow> string \<Rightarrow> string list \<Rightarrow> scrobble_table \<Rightarrow>
     ((bool \<times> int) \<times> scrobble_table) option" where
  "process_users env service [] rows = Some ((True, 0), rows)"
| "process_users env service (u # us) rows =
     do { ((ok, d), rows1, _) \<leftarrow> processUserQueue (env u) service u rows;
          ((result, retryIn), rows2) \<leftarrow> process_users env service us rows1;
          Some ((ok \<and> result, if ok then retryIn else max d retryIn), rows2) }"

text \<open>\<open>processQueue\<close>; the first argument says that the users could not be read.\<close>

definition processQueue ::
    "bool \<Rightarrow> (string \<Rightarrow> nat \<Rightarrow> attempt) \<Rightarrow> string \<Rightarrow> scrobble_table \<Rightarrow> ((bool \<times> int) \<times> scrobble_table) option" where
  "processQueue usersErr env service rows =
     (if usersErr then Some ((False, 0), rows) else process_users env service (UserIDs service rows) rows)"

section \<open>What the loop does to a queue\<close>

fun drain :: "(nat \<Rightarrow> attempt) \<Rightarrow> nat \<Rightarrow> 'e list \<Rightarrow> (bool \<times> int) \<times> 'e list \<times> 'e list" where
  "drain env i [] = ((\<not> at_NextErr (env i), 0), [], [])"
| "drain env i (e # es) =
     (if at_NextErr (env i) \<or> \<not> at_Loaded (env i) then ((False, 0), e # es, [])
      else case at_Result (env i) of
             Retry d \<Rightarrow> ((False, d), e # es, [e])
           | _ \<Rightarrow> if at_DequeueErr (env i) then ((False, 0), e # es, [e])
                  else (case drain env (i + 1) es of (r, rest, sent) \<Rightarrow> (r, rest, e # sent)))"

text \<open>
  The entries still queued are a suffix; those handed over are the entries before it, and possibly the
  first of it (a retry, or an entry that could not be removed); all of them are gone when it reports
  success.
\<close>

lemma drain_shape:
  "drain env i es = (r, rest, sent) \<Longrightarrow>
   (\<exists>done. es = done @ rest \<and> (sent = done \<or> rest \<noteq> [] \<and> sent = done @ [hd rest])) \<and> (fst r \<longrightarrow> rest = [])"
proof (induction env i es arbitrary: r rest sent rule: drain.induct)
  case (1 env i)
  then show ?case by auto
next
  case step: (2 env i e es)
  show ?case
  proof (cases "at_NextErr (env i) \<or> \<not> at_Loaded (env i)")
    case True
    with step.prems show ?thesis by auto
  next
    case f: False
    show ?thesis
    proof (cases "(\<exists>d. at_Result (env i) = Retry d) \<or> at_DequeueErr (env i)")
      case True
      with f step.prems show ?thesis by (auto split: send_result.splits if_splits)
    next
      case False
      obtain r' rest' sent' where d: "drain env (i + 1) es = (r', rest', sent')" by (metis prod_cases3)
      have eq: "r = r'" "rest = rest'" "sent = e # sent'"
        using f False step.prems d by (auto split: send_result.splits if_splits)
      have "(\<exists>done. es = done @ rest' \<and> (sent' = done \<or> rest' \<noteq> [] \<and> sent' = done @ [hd rest'])) \<and> (fst r' \<longrightarrow> rest' = [])"
        using step.IH f False d by (cases "at_Result (env i)") auto
      then show ?thesis unfolding eq by (auto intro: exI [of _ "e # _"])
    qed
  qed
qed

section \<open>The interface of the buffer\<close>

locale scrobble_queue =
  fixes inv :: "'b \<Rightarrow> bool" and queue :: "'b \<Rightarrow> 'k \<Rightarrow> 'e list" and first :: "'k \<Rightarrow> 'b \<Rightarrow> 'e option" and drop_entry :: "'b \<Rightarrow> 'e \<Rightarrow> 'b"
  assumes first_queue: "inv b \<Longrightarrow> first k b = (case queue b k of [] \<Rightarrow> None | e # _ \<Rightarrow> Some e)"
    and drop_inv: "inv b \<Longrightarrow> inv (drop_entry b e)"
    and drop_queue: "inv b \<Longrightarrow> queue b k = e # es \<Longrightarrow> queue (drop_entry b e) k = es"
    and drop_other: "inv b \<Longrightarrow> queue b k = e # es \<Longrightarrow> k' \<noteq> k \<Longrightarrow> queue (drop_entry b e) k' = queue b k'"
begin

lemma user_loop_drain:
  assumes "inv b" and "queue b k = es"
  shows "\<exists>b'. user_loop (first k) drop_entry env i b sent =
                Some (fst (drain env i es), b', sent @ snd (snd (drain env i es))) \<and>
              inv b' \<and> queue b' k = fst (snd (drain env i es)) \<and> (\<forall>k'. k' \<noteq> k \<longrightarrow> queue b' k' = queue b k')"
  using assms
proof (induction es arbitrary: b i sent)
  case Nil
  then show ?case by (subst user_loop.simps) (simp add: first_queue)
next
  case (Cons e es)
  let ?r = "user_loop (first k) drop_entry env i b sent"
  have f: "first k b = Some e" using Cons.prems by (simp add: first_queue)
  show ?case
  proof (cases "at_NextErr (env i) \<or> \<not> at_Loaded (env i) \<or> (\<exists>d. at_Result (env i) = Retry d) \<or> at_DequeueErr (env i)")
    case True
    then show ?thesis using Cons.prems f
      by (subst user_loop.simps) (auto split: send_result.splits)
  next
    case False
    have d: "inv (drop_entry b e)" "queue (drop_entry b e) k = es" "\<And>k'. k' \<noteq> k \<Longrightarrow> queue (drop_entry b e) k' = queue b k'"
      using Cons.prems drop_inv drop_queue drop_other by simp_all
    have "?r = user_loop (first k) drop_entry env (i + 1) (drop_entry b e) (sent @ [e])"
      using False f by (subst user_loop.simps) (auto split: send_result.splits)
    moreover have "drain env i (e # es) = (case drain env (i + 1) es of (r, rest, sent) \<Rightarrow> (r, rest, e # sent))"
      using False by (auto split: send_result.splits)
    ultimately show ?thesis
      using Cons.IH [OF d(1,2), of "i + 1" "sent @ [e]"] d(3) by (auto split: prod.splits)
  qed
qed

end

text \<open>The table keeps one such queue for every service and user.\<close>

lemma pending_Dequeue:
  "pending (Dequeue rows e) s u = filter (\<lambda>r. se_ID r \<noteq> se_ID e) (pending rows s u)"
  by (simp add: pending_def Dequeue_def filter_sort conj_commute filter_filter)

lemma pending_in: "e \<in> set (pending rows s u) \<longleftrightarrow> e \<in> set rows \<and> se_Service e = s \<and> se_UserID e = u"
  by (auto simp: pending_def)

lemma pending_ids: "table_ok rows \<Longrightarrow> distinct (map se_ID (pending rows s u))"
  by (auto simp: table_ok_def pending_def distinct_map intro: inj_on_subset)

interpretation table: scrobble_queue table_ok "\<lambda>rows (s, u). pending rows s u" "\<lambda>(s, u). Next s u" Dequeue
proof (unfold_locales, goal_cases)
  case (1 b k)
  then show ?case by (auto simp: Next_def pending_def split: list.splits prod.splits)
next
  case (2 b e)
  then show ?case by (simp add: table_ok_def Dequeue_def distinct_map_filter)
next
  case (3 b k e es)
  obtain s u where k: "k = (s, u)" by fastforce
  have "distinct (map se_ID (e # es))" using pending_ids [OF 3(1), of s u] 3(2) k by simp
  then have "filter (\<lambda>r. se_ID r \<noteq> se_ID e) es = es"
    unfolding filter_id_conv by (metis distinct.simps(2) image_eqI list.set_map list.simps(9))
  then show ?case using 3(2) k by (simp add: pending_Dequeue)
next
  case (4 b k e es k')
  obtain s u s' u' where k: "k = (s, u)" "k' = (s', u')" by fastforce
  have e: "e \<in> set b" "se_Service e = s" "se_UserID e = u"
    using 4(2) k pending_in [of e b s u] by auto
  have "se_ID r \<noteq> se_ID e" if "r \<in> set (pending b s' u')" for r
  proof
    assume "se_ID r = se_ID e"
    moreover have "r \<in> set b" using that by (simp add: pending_in)
    ultimately have "r = e" using 4(1) e(1) by (auto simp: table_ok_def distinct_map inj_on_def)
    then show False using that e 4(3) k by (simp add: pending_in)
  qed
  then show ?case using k by (simp add: pending_Dequeue filter_True)
qed

section \<open>Draining the table\<close>

lemma processUserQueue_drain:
  assumes "table_ok rows"
  shows "\<exists>rows'. processUserQueue env s u rows =
           Some (fst (drain env 0 (pending rows s u)), rows', snd (snd (drain env 0 (pending rows s u)))) \<and>
         table_ok rows' \<and> pending rows' s u = fst (snd (drain env 0 (pending rows s u))) \<and>
         (\<forall>s' u'. (s', u') \<noteq> (s, u) \<longrightarrow> pending rows' s' u' = pending rows s' u')"
  using table.user_loop_drain [OF assms, of "(s, u)" "pending rows s u" env 0 "[]"]
  by (fastforce simp: processUserQueue_def)

lemma process_users_spec:
  assumes "table_ok rows" and "distinct us"
  shows "\<exists>ok d rows'. process_users env s us rows = Some ((ok, d), rows') \<and> table_ok rows' \<and>
           (\<forall>s' u'. s' \<noteq> s \<or> u' \<notin> set us \<longrightarrow> pending rows' s' u' = pending rows s' u') \<and>
           (\<forall>u \<in> set us. pending rows' s u = fst (snd (drain (env u) 0 (pending rows s u)))) \<and>
           (ok \<longleftrightarrow> (\<forall>u \<in> set us. fst (fst (drain (env u) 0 (pending rows s u)))))"
  using assms
proof (induction us arbitrary: rows)
  case Nil
  then show ?case by (intro exI [of _ True]) simp
next
  case (Cons u us)
  obtain ok d where r: "fst (drain (env u) 0 (pending rows s u)) = (ok, d)" by fastforce
  obtain rows1 where 1: "processUserQueue (env u) s u rows = Some ((ok, d), rows1, snd (snd (drain (env u) 0 (pending rows s u))))"
      "table_ok rows1" "pending rows1 s u = fst (snd (drain (env u) 0 (pending rows s u)))"
      "\<forall>s' u'. (s', u') \<noteq> (s, u) \<longrightarrow> pending rows1 s' u' = pending rows s' u'"
    using processUserQueue_drain [OF Cons.prems(1), of "env u" s u] r by auto
  have same: "pending rows1 s v = pending rows s v" if "v \<in> set us" for v
    using 1(4) that Cons.prems(2) by auto
  obtain ok' d' rows2 where 2: "process_users env s us rows1 = Some ((ok', d'), rows2)" "table_ok rows2"
      "\<forall>s' u'. s' \<noteq> s \<or> u' \<notin> set us \<longrightarrow> pending rows2 s' u' = pending rows1 s' u'"
      "\<forall>v \<in> set us. pending rows2 s v = fst (snd (drain (env v) 0 (pending rows s v)))"
      "ok' \<longleftrightarrow> (\<forall>v \<in> set us. fst (fst (drain (env v) 0 (pending rows s v))))"
    using Cons.IH [OF 1(2)] Cons.prems(2) same by auto
  have "process_users env s (u # us) rows = Some ((ok \<and> ok', if ok then d' else max d d'), rows2)"
    using 1(1) 2(1) by simp
  moreover have "\<forall>s' u'. s' \<noteq> s \<or> u' \<notin> set (u # us) \<longrightarrow> pending rows2 s' u' = pending rows s' u'"
    using 1(4) 2(3) by auto
  moreover have "pending rows2 s u = fst (snd (drain (env u) 0 (pending rows s u)))"
    using 1(3) 2(3) Cons.prems(2) by auto
  ultimately show ?case using 2(2,4,5) r by auto
qed

lemma UserIDs_set: "distinct (UserIDs s rows)" "u \<in> set (UserIDs s rows) \<longleftrightarrow> pending rows s u \<noteq> []"
proof -
  show "distinct (UserIDs s rows)" by (simp add: UserIDs_def Let_def)
  have "pending rows s u \<noteq> [] \<longleftrightarrow> (\<exists>r \<in> set rows. se_Service r = s \<and> se_UserID r = u)"
    using pending_in [of _ rows s u] by (metis list.set_intros(1) list.exhaust empty_iff empty_set)
  then show "u \<in> set (UserIDs s rows) \<longleftrightarrow> pending rows s u \<noteq> []"
    by (auto simp: UserIDs_def Let_def)
qed

section \<open>Properties\<close>


text \<open>
  The entries of one user reach the service in the order they were played, each of them
  removed after it was handed over and not before; only the entry the loop stopped at can be handed over
  again later, which happens when the service asks to retry or the removal fails.
\<close>

lemma processUserQueue_order:
  assumes "table_ok rows"
  shows "\<exists>r rows' sent removed. processUserQueue env s u rows = Some (r, rows', sent) \<and>
           pending rows s u = removed @ pending rows' s u \<and>
           (sent = removed \<or> pending rows' s u \<noteq> [] \<and> sent = removed @ [hd (pending rows' s u)]) \<and>
           sorted (map se_PlayTime sent)"
proof -
  obtain r rest sent where dr: "drain env 0 (pending rows s u) = (r, rest, sent)" by (metis prod_cases3)
  obtain rows' where p: "processUserQueue env s u rows = Some (r, rows', sent)" "pending rows' s u = rest"
    using processUserQueue_drain [OF assms, of env s u] dr by auto
  obtain removed where rem: "pending rows s u = removed @ rest" "sent = removed \<or> rest \<noteq> [] \<and> sent = removed @ [hd rest]"
    using drain_shape [OF dr] by blast
  have "\<exists>tail. pending rows s u = sent @ tail" using rem by (metis append.assoc append_Cons append_Nil list.exhaust_sel)
  moreover have "sorted (map se_PlayTime (pending rows s u))" by (simp add: pending_def)
  ultimately have "sorted (map se_PlayTime sent)" by (auto simp: sorted_append)
  with p rem show ?thesis by blast
qed

definition ex_row :: "string \<Rightarrow> time \<Rightarrow> ScrobbleEntry" where
  "ex_row i t = \<lparr>se_ID = i, se_Service = ''lastfm'', se_UserID = ''u'', se_PlayTime = t, se_EnqueueTime = 9, se_MediaFileID = i\<rparr>"

definition ex_env :: "nat \<Rightarrow> attempt" where
  "ex_env i = \<lparr>at_NextErr = False, at_Loaded = True, at_Result = (if i = 0 then Sent else Retry 30), at_DequeueErr = False\<rparr>"


lemma processUserQueue_order_witness:
  "\<exists>r rows' sent. processUserQueue ex_env ''lastfm'' ''u'' [ex_row ''a'' 2, ex_row ''b'' 1] = Some (r, rows', sent) \<and>
     sorted (map se_PlayTime sent)"
  using processUserQueue_order [of "[ex_row ''a'' 2, ex_row ''b'' 1]" ex_env "''lastfm''" "''u''"]
  by (auto simp: table_ok_def ex_row_def)

section \<open>The retry loop\<close>

text \<open>Durations are 64-bit counts of nanoseconds.\<close>

definition minRetryDelay :: int where "minRetryDelay = 5000000000"
definition maxRetryDelay :: int where "maxRetryDelay = 240000000000"
definition maxRetryShift :: int where "maxRetryShift = 6"

definition backoffDelay :: "int \<Rightarrow> int" where
  "backoffDelay failures0 =
     (let failures = (if failures0 < 0 then 0 else failures0) in
      if failures \<ge> maxRetryShift then maxRetryDelay
      else let d = push_bit (nat failures) minRetryDelay
           in if d > maxRetryDelay then maxRetryDelay else d)"

record runner =
  rn_failures :: int
  rn_backingOff :: bool
  rn_timer :: "int option"

definition run_start :: runner where
  "run_start = \<lparr>rn_failures = 0, rn_backingOff = False, rn_timer = None\<rparr>"

text \<open>What the loop does with the result of \<open>processQueue\<close>.\<close>

definition after_drain :: "int \<Rightarrow> bool \<times> int \<Rightarrow> runner \<Rightarrow> runner" where
  "after_drain now result r =
     (case result of (ok, retryIn) \<Rightarrow>
        if ok then r\<lparr>rn_failures := 0, rn_timer := None\<rparr>
        else r\<lparr>rn_timer := Some (now + max (backoffDelay (rn_failures r)) retryIn), rn_backingOff := True,
               rn_failures := (if rn_failures r < maxRetryShift then rn_failures r + 1 else rn_failures r)\<rparr>)"

text \<open>
  The goroutine as a state machine: at the top of the loop or waiting in the \<open>select\<close>. The log has the
  drains, latest first: when it ended, whether it succeeded, and the back-off armed after it.
\<close>

record run_state =
  rs_runner :: runner
  rs_top :: bool
  rs_now :: int
  rs_log :: "(int \<times> bool \<times> int) list"

inductive run_step :: "run_state \<Rightarrow> run_state \<Rightarrow> bool" where
  drain: "rs_top s \<Longrightarrow> \<not> rn_backingOff (rs_runner s) \<Longrightarrow> rs_now s \<le> t \<Longrightarrow>
     run_step s \<lparr>rs_runner = after_drain t (ok, retryIn) (rs_runner s), rs_top = False, rs_now = t,
                 rs_log = (t, ok, max (backoffDelay (rn_failures (rs_runner s))) retryIn) # rs_log s\<rparr>"
| skip: "rs_top s \<Longrightarrow> rn_backingOff (rs_runner s) \<Longrightarrow> run_step s (s\<lparr>rs_top := False\<rparr>)"
| wake: "\<not> rs_top s \<Longrightarrow> rs_now s \<le> t \<Longrightarrow> run_step s (s\<lparr>rs_top := True, rs_now := t\<rparr>)"
| fire: "\<not> rs_top s \<Longrightarrow> rs_now s \<le> t \<Longrightarrow> rn_timer (rs_runner s) = Some t0 \<Longrightarrow> t0 \<le> t \<Longrightarrow>
     run_step s (s\<lparr>rs_runner := (rs_runner s)\<lparr>rn_backingOff := False, rn_timer := None\<rparr>, rs_top := True, rs_now := t\<rparr>)"

definition run_init :: "int \<Rightarrow> run_state" where
  "run_init t = \<lparr>rs_runner = run_start, rs_top = True, rs_now = t, rs_log = []\<rparr>"

lemma backoffDelay_eq: "backoffDelay f = min maxRetryDelay (minRetryDelay * 2 ^ nat f)"
proof (cases "f \<ge> maxRetryShift")
  case True
  then have "(64::int) \<le> 2 ^ nat f"
    using power_increasing [of 6 "nat f" "2::int"] by (simp add: maxRetryShift_def)
  then show ?thesis using True by (simp add: backoffDelay_def maxRetryShift_def maxRetryDelay_def minRetryDelay_def min_def)
next
  case False
  then show ?thesis by (auto simp: backoffDelay_def Let_def push_bit_eq_mult min_def maxRetryShift_def)
qed

text \<open>The distance the log keeps between a failed drain and the next one.\<close>

fun spaced :: "(int \<times> bool \<times> int) list \<Rightarrow> bool" where
  "spaced ((t, ok, d) # (t0, ok0, d0) # lg) \<longleftrightarrow> (\<not> ok0 \<longrightarrow> t0 + d0 \<le> t) \<and> spaced ((t0, ok0, d0) # lg)"
| "spaced lg \<longleftrightarrow> True"

definition run_ok :: "run_state \<Rightarrow> bool" where
  "run_ok s \<longleftrightarrow>
     spaced (rs_log s) \<and> 0 \<le> rn_failures (rs_runner s) \<and> rn_failures (rs_runner s) \<le> maxRetryShift \<and>
     (rn_backingOff (rs_runner s) \<longleftrightarrow> rn_timer (rs_runner s) \<noteq> None) \<and>
     (\<forall>t d lg. rs_log s = (t, False, d) # lg \<longrightarrow>
        (case rn_timer (rs_runner s) of Some t0 \<Rightarrow> t0 = t + d | None \<Rightarrow> t + d \<le> rs_now s))"

lemma run_ok_step:
  assumes "run_step s s'" and "run_ok s"
  shows "run_ok s'"
  using assms
proof cases
  case (drain t ok retryIn)
  have "spaced ((t, ok, d) # rs_log s)" for d
  proof (cases "rs_log s")
    case (Cons x lg)
    then obtain t0 ok0 d0 where x: "rs_log s = (t0, ok0, d0) # lg" by (cases x) auto
    then show ?thesis using assms(2) drain by (cases ok0) (auto simp: run_ok_def)
  qed simp
  then show ?thesis using assms(2) drain
    by (auto simp: run_ok_def after_drain_def maxRetryShift_def)
qed (auto simp: run_ok_def split: option.splits)

text \<open>
  The delay before a retry is the minimum doubled for every failure so far, capped at the
  maximum; it never shrinks as failures add up, and the shift that computes it stays within 64 bits.
\<close>

lemma backoffDelay_spec:
  "backoffDelay f = min maxRetryDelay (minRetryDelay * 2 ^ nat f) \<and>
   minRetryDelay \<le> backoffDelay f \<and> backoffDelay f \<le> maxRetryDelay \<and>
   backoffDelay f \<le> backoffDelay (f + 1) \<and>
   (f < maxRetryShift \<longrightarrow> push_bit (nat f) minRetryDelay < 2 ^ 63)"
proof -
  have "(2::int) ^ nat f \<le> 2 ^ nat (f + 1)" by (rule power_increasing) simp_all
  then have mono: "backoffDelay f \<le> backoffDelay (f + 1)"
    unfolding backoffDelay_eq by (intro min.mono mult_left_mono) (simp_all add: minRetryDelay_def)
  have low: "minRetryDelay \<le> minRetryDelay * 2 ^ nat f" by (simp add: minRetryDelay_def)
  have "(2::int) ^ nat f \<le> 2 ^ 6" if "f < maxRetryShift"
    by (rule power_increasing) (use that in \<open>simp_all add: maxRetryShift_def\<close>)
  then have "f < maxRetryShift \<longrightarrow> push_bit (nat f) minRetryDelay < 2 ^ 63"
    by (auto simp: push_bit_eq_mult minRetryDelay_def)
  with mono low show ?thesis
    by (simp add: backoffDelay_eq) (simp add: maxRetryDelay_def minRetryDelay_def)
qed

lemma backoffDelay_spec_witness: "backoffDelay 3 = 40000000000 \<and> push_bit 3 minRetryDelay < 2 ^ 63"
  using backoffDelay_spec [of 3] by (simp add: maxRetryShift_def minRetryDelay_def maxRetryDelay_def)

text \<open>
  After a failed drain the service is left alone for the back-off delay or the delay it asked
  for, whichever is longer, however often new plays wake the goroutine; and while it backs off a timer
  is armed, so that it does drain again.
\<close>

lemma run_backs_off:
  assumes "reachable (run_init t) run_step s"
  shows "spaced (rs_log s) \<and> (rn_backingOff (rs_runner s) \<longleftrightarrow> rn_timer (rs_runner s) \<noteq> None)"
proof -
  have "run_ok s"
    using assms
  proof (rule reachable_invariant)
    show "run_ok (run_init t)" by (simp add: run_ok_def run_init_def run_start_def maxRetryShift_def)
  qed (rule run_ok_step)
  then show ?thesis by (simp add: run_ok_def)
qed

lemma run_backs_off_witness:
  "\<exists>s. reachable (run_init 0) run_step s \<and> rn_backingOff (rs_runner s) \<and> rn_timer (rs_runner s) \<noteq> None"
proof -
  let ?s = "\<lparr>rs_runner = after_drain 1 (False, 0) run_start, rs_top = False, rs_now = 1,
             rs_log = [(1, False, max (backoffDelay 0) 0)]\<rparr>"
  have "run_step (run_init 0) ?s"
    using run_step.drain [of "run_init 0" 1 False 0] by (simp add: run_init_def run_start_def)
  then have r: "reachable (run_init 0) run_step ?s" by (blast intro: reachable_start reachable_step)
  have "rn_backingOff (rs_runner ?s)" by (simp add: after_drain_def)
  with run_backs_off [OF r] r show ?thesis by blast
qed

end
