(* ===== verification/Play_Tracker.thy ===== *)
theory Play_Tracker
  imports Media_Model Go_Float "HOL-Library.AList"
begin

text \<open>
  The play tracker: \<open>core/scrobbler/play_tracker.go\<close> with its two workers (\<open>nowplaying_worker.go\<close>,
  \<open>playbackreport_worker.go\<close>). The cache of sessions is an association list from client ids to a session and
  the time it expires (the documented behaviour of the cache library: an item is found until then). Queues
  of the workers are part of the state; what reaches the database and the scrobblers is recorded in the
  order it happens. \<open>float32\<close> and \<open>float64\<close> values are rationals, rounded after every operation as
  \<open>Go_Float\<close> says. Database, configuration and request context are the record \<open>tracker_env\<close>.
\<close>

section \<open>State\<close>

abbreviation "StateStarting \<equiv> ''starting''"
abbreviation "StatePlaying \<equiv> ''playing''"
abbreviation "StatePaused \<equiv> ''paused''"
abbreviation "StateStopped \<equiv> ''stopped''"
abbreviation "StateExpired \<equiv> ''expired''"

record PlaybackSession =
  ps_MediaFile :: MediaFile
  ps_Start :: time
  ps_UserId :: string
  ps_Username :: string
  ps_PlayerId :: string
  ps_PlayerName :: string
  ps_State :: string
  ps_PositionMs :: int
  ps_PlaybackRate :: rat
  ps_LastReport :: time
  ps_filtered :: bool

record ReportPlaybackParams =
  pp_MediaId :: string
  pp_PositionMs :: int
  pp_State :: string
  pp_PlaybackRate :: rat
  pp_IgnoreScrobble :: bool
  pp_ClientId :: string
  pp_ClientName :: string

text \<open>Statements of the transaction that counts a play.\<close>

datatype db_op = IncMediaFile string | IncAlbum string | IncArtist string | RecordScrobble string

record scrobbler =
  sc_Name :: string
  sc_IsAuthorized :: "string \<Rightarrow> bool"

record tracker_env =
  te_GetMediaFile :: "string \<Rightarrow> string + MediaFile"
  te_DbErr :: "db_op \<Rightarrow> string option"
  te_UserID :: string
  te_UserName :: string
  te_ScrobbleFilter :: string
  te_FilterValid :: "string \<Rightarrow> bool"
  te_MatchesCriteria :: "string \<Rightarrow> string \<Rightarrow> bool option"
  te_ScrobbleEnabled :: bool
  te_EnableNowPlaying :: bool
  te_EnableScrobbleHistory :: bool
  te_Scrobblers :: "scrobbler list"
  te_CacheLen :: "(string \<times> PlaybackSession \<times> time) list \<Rightarrow> nat"

record playTracker =
  pt_playMap :: "(string \<times> PlaybackSession \<times> time) list"
  pt_prQueue :: "(PlaybackSession \<times> bool) list"
  pt_npQueue :: "(string \<times> string \<times> MediaFile \<times> int) list"
  pt_counts :: "nat list"
  pt_db :: "(db_op \<times> time) list"
  pt_scrobbles :: "(string \<times> string \<times> string \<times> time) list"

section \<open>The session cache\<close>

definition cache_Get :: "time \<Rightarrow> string \<Rightarrow> playTracker \<Rightarrow> PlaybackSession option" where
  "cache_Get now k p =
     (case map_of (pt_playMap p) k of Some (s, expires) \<Rightarrow> if now < expires then Some s else None | None \<Rightarrow> None)"

definition AddWithTTL :: "time \<Rightarrow> string \<Rightarrow> PlaybackSession \<Rightarrow> int \<Rightarrow> playTracker \<Rightarrow> playTracker" where
  "AddWithTTL now k s ttl p = p\<lparr>pt_playMap := AList.update k (s, now + ttl) (pt_playMap p)\<rparr>"

definition cache_Remove :: "string \<Rightarrow> playTracker \<Rightarrow> playTracker" where
  "cache_Remove k p = p\<lparr>pt_playMap := AList.delete k (pt_playMap p)\<rparr>"

definition cache_Values :: "time \<Rightarrow> playTracker \<Rightarrow> PlaybackSession list" where
  "cache_Values now p = map (fst \<circ> snd) (filter (\<lambda>(k, s, expires). now < expires) (pt_playMap p))"

section \<open>Helpers of the tracker\<close>

text \<open>\<open>int64(d * 1000)\<close> for a duration in seconds of type \<open>float32\<close>.\<close>

definition duration_ms :: "rat \<Rightarrow> int" where
  "duration_ms d = truncate_rat (round_float 24 (d * 1000))"

definition hasPlayingSession :: "time \<Rightarrow> string \<Rightarrow> string \<Rightarrow> playTracker \<Rightarrow> bool" where
  "hasPlayingSession now clientId mediaId p =
     (case cache_Get now clientId p of
        Some cur \<Rightarrow> mf_ID (ps_MediaFile cur) = mediaId \<and> ps_State cur = StatePlaying
      | None \<Rightarrow> False)"

definition remainingTTL :: "rat \<Rightarrow> int \<Rightarrow> rat \<Rightarrow> int" where
  "remainingTTL durationSec positionMs rate0 =
     (let rate = (if rate0 \<le> 0 then 1 else rate0);
          remainingMs = round_float 53 (round_float 53 (of_int (duration_ms durationSec - positionMs)) / rate);
          remainingSec = max (truncate_rat (round_float 53 (remainingMs / 1000))) 0
      in (remainingSec + 5) * 1000000000)"

definition isFilteredOut :: "tracker_env \<Rightarrow> MediaFile \<Rightarrow> bool" where
  "isFilteredOut env t =
     (if te_ScrobbleFilter env = '''' then False
      else if \<not> te_FilterValid env (te_ScrobbleFilter env) then False
      else case te_MatchesCriteria env (mf_ID t) (te_ScrobbleFilter env) of None \<Rightarrow> False | Some match \<Rightarrow> match)"

definition enqueuePlaybackReport :: "PlaybackSession \<Rightarrow> bool \<Rightarrow> playTracker \<Rightarrow> playTracker" where
  "enqueuePlaybackReport info filtered p = p\<lparr>pt_prQueue := pt_prQueue p @ [(info, filtered)]\<rparr>"

definition enqueueNowPlaying :: "string \<Rightarrow> string \<Rightarrow> MediaFile \<Rightarrow> int \<Rightarrow> playTracker \<Rightarrow> playTracker" where
  "enqueueNowPlaying playerId userId track position p =
     p\<lparr>pt_npQueue := AList.update playerId (userId, track, position) (pt_npQueue p)\<rparr>"

text \<open>The statements of \<open>incPlay\<close> in order; the transaction keeps them all or none.\<close>

definition play_ops :: "tracker_env \<Rightarrow> MediaFile \<Rightarrow> db_op list" where
  "play_ops env track =
     IncMediaFile (mf_ID track) # IncAlbum (mf_AlbumID track) # map IncArtist (mf_RoleArtists track) @
     (if te_EnableScrobbleHistory env then [RecordScrobble (mf_ID track)] else [])"

fun run_ops :: "tracker_env \<Rightarrow> db_op list \<Rightarrow> time \<Rightarrow> (db_op \<times> time) list \<Rightarrow> string + (db_op \<times> time) list" where
  "run_ops env [] timestamp tx = Inr tx"
| "run_ops env (q # qs) timestamp tx =
     (case te_DbErr env q of Some e \<Rightarrow> Inl e | None \<Rightarrow> run_ops env qs timestamp (tx @ [(q, timestamp)]))"

definition incPlay :: "tracker_env \<Rightarrow> MediaFile \<Rightarrow> time \<Rightarrow> playTracker \<Rightarrow> string option \<times> playTracker" where
  "incPlay env track timestamp p =
     (case run_ops env (play_ops env track) timestamp (pt_db p) of
        Inl e \<Rightarrow> (Some e, p)
      | Inr db \<Rightarrow> (None, p\<lparr>pt_db := db\<rparr>))"

definition UnknownArtist :: string where "UnknownArtist = ''[Unknown Artist]''"

definition dispatchScrobble :: "tracker_env \<Rightarrow> MediaFile \<Rightarrow> time \<Rightarrow> bool \<Rightarrow> playTracker \<Rightarrow> playTracker" where
  "dispatchScrobble env t playTime filtered p =
     (if mf_Artist t = UnknownArtist then p
      else if filtered then p
      else p\<lparr>pt_scrobbles := pt_scrobbles p @
               map (\<lambda>s. (sc_Name s, te_UserID env, mf_ID t, playTime))
                   (filter (\<lambda>s. sc_IsAuthorized s (te_UserID env)) (te_Scrobblers env))\<rparr>)"

section \<open>Playback reports\<close>

definition new_session :: "tracker_env \<Rightarrow> ReportPlaybackParams \<Rightarrow> MediaFile \<Rightarrow> time \<Rightarrow> time \<Rightarrow> bool \<Rightarrow> PlaybackSession" where
  "new_session env params mf start now filtered =
     \<lparr>ps_MediaFile = mf, ps_Start = start, ps_UserId = te_UserID env, ps_Username = te_UserName env,
      ps_PlayerId = pp_ClientId params, ps_PlayerName = pp_ClientName params, ps_State = pp_State params,
      ps_PositionMs = pp_PositionMs params, ps_PlaybackRate = pp_PlaybackRate params, ps_LastReport = now,
      ps_filtered = filtered\<rparr>"

text \<open>
  The three branches of \<open>ReportPlayback\<close>. Each returns an error, an early return (\<open>Inr None\<close>) or the
  verdict of the filter, with which the common end of the function goes on. \<open>other\<close> is what concurrent
  calls do to the tracker while the media file is being loaded, before the lock is taken.
\<close>

type_synonym branch = "(string + bool option) \<times> playTracker"

definition report_starting ::
    "tracker_env \<Rightarrow> time \<Rightarrow> (playTracker \<Rightarrow> playTracker) \<Rightarrow> ReportPlaybackParams \<Rightarrow> playTracker \<Rightarrow> branch" where
  "report_starting env now other params p =
     (if hasPlayingSession now (pp_ClientId params) (pp_MediaId params) p then (Inr None, p)
      else case te_GetMediaFile env (pp_MediaId params) of
             Inl e \<Rightarrow> (Inl e, p)
           | Inr mf \<Rightarrow>
               let filtered = isFilteredOut env mf;
                   info = new_session env params mf now now filtered;
                   p1 = other p
               in if hasPlayingSession now (pp_ClientId params) (pp_MediaId params) p1 then (Inr None, p1)
                  else (Inr (Some filtered),
                        enqueuePlaybackReport info filtered
                          (AddWithTTL now (pp_ClientId params) info
                             (remainingTTL (mf_Duration mf) (pp_PositionMs params) (pp_PlaybackRate params)) p1)))"

definition report_playing ::
    "tracker_env \<Rightarrow> time \<Rightarrow> ReportPlaybackParams \<Rightarrow> playTracker \<Rightarrow> branch" where
  "report_playing env now params p =
     (let cur = cache_Get now (pp_ClientId params) p;
          base = (case cur of
                    Some info \<Rightarrow>
                      if mf_ID (ps_MediaFile info) \<noteq> pp_MediaId params
                      then map_sum id (\<lambda>mf. new_session env params mf (now - pp_PositionMs params * 1000000) now False)
                             (te_GetMediaFile env (pp_MediaId params))
                      else Inr info
                  | None \<Rightarrow> map_sum id (\<lambda>mf. new_session env params mf (now - pp_PositionMs params * 1000000) now False)
                             (te_GetMediaFile env (pp_MediaId params)))
      in case base of
           Inl e \<Rightarrow> (Inl e, p)
         | Inr info0 \<Rightarrow>
             let filtered = isFilteredOut env (ps_MediaFile info0);
                 info = info0\<lparr>ps_State := pp_State params, ps_PositionMs := pp_PositionMs params,
                              ps_PlaybackRate := pp_PlaybackRate params, ps_LastReport := now, ps_filtered := filtered\<rparr>;
                 ttl = (if pp_State params = StatePlaying
                        then remainingTTL (mf_Duration (ps_MediaFile info)) (pp_PositionMs params) (pp_PlaybackRate params)
                        else 1800000000000)
             in (Inr (Some filtered), enqueuePlaybackReport info filtered (AddWithTTL now (pp_ClientId params) info ttl p)))"

definition scrobble_threshold :: "MediaFile \<Rightarrow> int" where
  "scrobble_threshold mf = min (go_quot (duration_ms (mf_Duration mf) * 50) 100) 240000"

text \<open>The first part of a stopped report: counting the play. The file is loaded only when it may count.\<close>

definition count_play ::
    "tracker_env \<Rightarrow> time \<Rightarrow> ReportPlaybackParams \<Rightarrow> playTracker \<Rightarrow> (string + (MediaFile \<times> bool) option) \<times> playTracker" where
  "count_play env now params p =
     (if \<not> pp_IgnoreScrobble params \<and> te_ScrobbleEnabled env then
        (case te_GetMediaFile env (pp_MediaId params) of
           Inl e \<Rightarrow> (Inl e, p)
         | Inr mf \<Rightarrow>
             let filtered = isFilteredOut env mf in
             (Inr (Some (mf, filtered)),
              (if pp_PositionMs params \<ge> scrobble_threshold mf
               then dispatchScrobble env mf now filtered (snd (incPlay env mf now p)) else p)))
      else (Inr None, p))"

definition report_stopped ::
    "tracker_env \<Rightarrow> time \<Rightarrow> ReportPlaybackParams \<Rightarrow> playTracker \<Rightarrow> branch" where
  "report_stopped env now params p0 =
     (case count_play env now params p0 of
        (Inl e, p) \<Rightarrow> (Inl e, p)
      | (Inr loaded, p) \<Rightarrow>
          (case cache_Get now (pp_ClientId params) p of
             Some info \<Rightarrow>
               if mf_ID (ps_MediaFile info) \<noteq> pp_MediaId params then (Inr None, p)
               else
                 let p1 = cache_Remove (pp_ClientId params) p;
                     filtered = (case loaded of Some (_, f) \<Rightarrow> f | None \<Rightarrow> isFilteredOut env (ps_MediaFile info));
                     stopped = new_session env params (ps_MediaFile info) (ps_Start info) now False
                 in (Inr (Some filtered), enqueuePlaybackReport stopped filtered p1)
           | None \<Rightarrow>
               let p1 = cache_Remove (pp_ClientId params) p in
               (case (case loaded of Some (mf, _) \<Rightarrow> Inr mf | None \<Rightarrow> te_GetMediaFile env (pp_MediaId params)) of
                  Inl e \<Rightarrow> (Inl e, p1)
                | Inr mf \<Rightarrow>
                    let filtered = (case loaded of Some (_, f) \<Rightarrow> f | None \<Rightarrow> isFilteredOut env mf);
                        stopped = new_session env params mf zero_time now False
                    in (Inr (Some filtered), enqueuePlaybackReport stopped filtered p1))))"

text \<open>The common end: the count of sessions is broadcast, and external agents told what is playing.\<close>

definition report_end :: "tracker_env \<Rightarrow> time \<Rightarrow> ReportPlaybackParams \<Rightarrow> bool \<Rightarrow> playTracker \<Rightarrow> playTracker" where
  "report_end env now params filtered p =
     (let p1 = (if te_EnableNowPlaying env
                then p\<lparr>pt_counts := pt_counts p @ [te_CacheLen env (pt_playMap p)]\<rparr> else p)
      in if te_ScrobbleEnabled env \<and> (pp_State params = StateStarting \<or> pp_State params = StatePlaying) then
           (if filtered then p1
            else case cache_Get now (pp_ClientId params) p1 of
                   Some info \<Rightarrow> enqueueNowPlaying (pp_ClientId params) (te_UserID env) (ps_MediaFile info)
                                  (go_quot (pp_PositionMs params) 1000) p1
                 | None \<Rightarrow> p1)
         else p1)"

definition ReportPlayback ::
    "tracker_env \<Rightarrow> time \<Rightarrow> (playTracker \<Rightarrow> playTracker) \<Rightarrow> ReportPlaybackParams \<Rightarrow> playTracker \<Rightarrow> string option \<times> playTracker" where
  "ReportPlayback env now other params p =
     (case (if pp_State params = StateStarting then report_starting env now other params p
            else if pp_State params = StatePlaying \<or> pp_State params = StatePaused then report_playing env now params p
            else if pp_State params = StateStopped then report_stopped env now params p
            else (Inr (Some False), p)) of
        (Inl e, p1) \<Rightarrow> (Some e, p1)
      | (Inr None, p1) \<Rightarrow> (None, p1)
      | (Inr (Some filtered), p1) \<Rightarrow> (None, report_end env now params filtered p1))"

section \<open>Submissions, sessions and workers\<close>

fun submit_all :: "tracker_env \<Rightarrow> (string \<times> time) list \<Rightarrow> playTracker \<Rightarrow> string list \<times> playTracker" where
  "submit_all env [] p = ([], p)"
| "submit_all env ((trackID, timestamp) # subs) p =
     (case te_GetMediaFile env trackID of
        Inl e \<Rightarrow> submit_all env subs p
      | Inr mf \<Rightarrow>
          let filtered = isFilteredOut env mf in
          (case incPlay env mf timestamp p of
             (Some e, p1) \<Rightarrow> submit_all env subs p1
           | (None, p1) \<Rightarrow>
               let p2 = (if te_ScrobbleEnabled env then dispatchScrobble env mf timestamp filtered p1 else p1);
                   (ids, p3) = submit_all env subs p2
               in (mf_ID mf # ids, p3)))"

text \<open>\<open>Submit\<close>: the files to refresh (an event is sent when there are any) and the tracker.\<close>

definition Submit :: "tracker_env \<Rightarrow> (string \<times> time) list \<Rightarrow> playTracker \<Rightarrow> string list option \<times> playTracker" where
  "Submit env subs p =
     (case submit_all env subs p of (ids, p1) \<Rightarrow> (if length ids > 0 then Some ids else None, p1))"

definition estimate_position :: "time \<Rightarrow> PlaybackSession \<Rightarrow> PlaybackSession" where
  "estimate_position now s =
     (if ps_State s = StatePlaying then
        let elapsed = go_quot (now - ps_LastReport s) 1000000;
            estimated = ps_PositionMs s + truncate_rat (round_float 53 (round_float 53 (of_int elapsed) * ps_PlaybackRate s));
            trackDurationMs = duration_ms (mf_Duration (ps_MediaFile s))
        in s\<lparr>ps_PositionMs := min estimated trackDurationMs\<rparr>
      else s)"

text \<open>\<open>GetNowPlaying\<close>; the first argument says which libraries the user may see, if there is a user.\<close>

definition GetNowPlaying :: "(int \<Rightarrow> bool) option \<Rightarrow> time \<Rightarrow> playTracker \<Rightarrow> PlaybackSession list" where
  "GetNowPlaying access now p =
     (let res = cache_Values now p;
          visible = (case access of Some a \<Rightarrow> filter (\<lambda>s. a (mf_LibraryID (ps_MediaFile s))) res | None \<Rightarrow> res)
      in map (estimate_position now) (sort_key (\<lambda>s. - ps_Start s) visible))"

text \<open>The callback for a session the cache has expired.\<close>

definition on_expiration :: "tracker_env \<Rightarrow> time \<Rightarrow> string \<Rightarrow> playTracker \<Rightarrow> playTracker" where
  "on_expiration env now k p =
     (case map_of (pt_playMap p) k of
        None \<Rightarrow> p
      | Some (info, expires) \<Rightarrow>
          if now < expires then p
          else
            let p1 = cache_Remove k p;
                p2 = (if te_EnableNowPlaying env
                      then p1\<lparr>pt_counts := pt_counts p1 @ [te_CacheLen env (pt_playMap p1)]\<rparr> else p1)
            in if ps_State info \<noteq> StateStopped
               then enqueuePlaybackReport (info\<lparr>ps_State := StateExpired, ps_LastReport := now\<rparr>) (ps_filtered info) p2
               else p2)"

text \<open>One round of each worker: what it sends to which scrobbler, and the tracker with its queue emptied.\<close>

definition dispatchNowPlaying :: "tracker_env \<Rightarrow> string \<times> MediaFile \<times> int \<Rightarrow> (string \<times> string \<times> MediaFile \<times> int) list" where
  "dispatchNowPlaying env e =
     (case e of (userId, t, position) \<Rightarrow>
        if mf_Artist t = UnknownArtist then []
        else map (\<lambda>s. (sc_Name s, userId, t, position)) (filter (\<lambda>s. sc_IsAuthorized s userId) (te_Scrobblers env)))"

definition nowPlayingWorker :: "tracker_env \<Rightarrow> playTracker \<Rightarrow> (string \<times> string \<times> MediaFile \<times> int) list \<times> playTracker" where
  "nowPlayingWorker env p = (concat (map (dispatchNowPlaying env \<circ> snd) (pt_npQueue p)), p\<lparr>pt_npQueue := []\<rparr>)"

definition dispatchPlaybackReport :: "tracker_env \<Rightarrow> PlaybackSession \<times> bool \<Rightarrow> (string \<times> PlaybackSession) list" where
  "dispatchPlaybackReport env e =
     (case e of (info, filtered) \<Rightarrow>
        if filtered then []
        else map (\<lambda>s. (sc_Name s, info)) (filter (\<lambda>s. sc_IsAuthorized s (ps_UserId info)) (te_Scrobblers env)))"

definition playbackReportWorker :: "tracker_env \<Rightarrow> playTracker \<Rightarrow> (string \<times> PlaybackSession) list \<times> playTracker" where
  "playbackReportWorker env p = (concat (map (dispatchPlaybackReport env) (pt_prQueue p)), p\<lparr>pt_prQueue := []\<rparr>)"

section \<open>Plugin scrobblers\<close>

text \<open>
  The names the plugin loader lists, if there is one, and those of the plugin scrobblers that run; the
  result also has those that were stopped.
\<close>

definition pluginNamesMatchScrobblers :: "string list \<Rightarrow> string list \<Rightarrow> bool" where
  "pluginNamesMatchScrobblers pluginNames scrobblers =
     (length pluginNames = length scrobblers \<and> list_all (\<lambda>n. n \<in> set scrobblers) pluginNames)"

definition refreshPluginScrobblers :: "string list option \<Rightarrow> string list \<Rightarrow> string list \<times> string list" where
  "refreshPluginScrobblers loader scrobblers =
     (case loader of
        None \<Rightarrow> (scrobblers, [])
      | Some pluginNames \<Rightarrow>
          if pluginNamesMatchScrobblers pluginNames scrobblers then (scrobblers, [])
          else
            let added = foldl (\<lambda>acc n. if n \<in> set acc then acc else acc @ [n]) scrobblers pluginNames
            in (filter (\<lambda>n. n \<in> set pluginNames) added, filter (\<lambda>n. n \<notin> set pluginNames) added))"

section \<open>Lemmas\<close>

lemma remainingTTL_pos: "5000000000 \<le> remainingTTL d pos rate"
  by (simp add: remainingTTL_def Let_def)

lemma cache_Get_add:
  "0 < ttl \<Longrightarrow> cache_Get now k' (AddWithTTL now k s ttl p) = (if k' = k then Some s else cache_Get now k' p)"
  by (simp add: cache_Get_def AddWithTTL_def update_conv')

lemma cache_Get_remove: "cache_Get now k' (cache_Remove k p) = (if k' = k then None else cache_Get now k' p)"
  by (simp add: cache_Get_def cache_Remove_def delete_conv')

lemma cache_Get_frame [simp]:
  "cache_Get now k (enqueuePlaybackReport i f p) = cache_Get now k p"
  "cache_Get now k (enqueueNowPlaying a b c d p) = cache_Get now k p"
  "cache_Get now k (dispatchScrobble env t pt f p) = cache_Get now k p"
  "cache_Get now k (snd (incPlay env t ts p)) = cache_Get now k p"
  "cache_Get now k (report_end env now' params f p) = cache_Get now k p"
  by (simp_all add: cache_Get_def enqueuePlaybackReport_def enqueueNowPlaying_def dispatchScrobble_def incPlay_def
      report_end_def Let_def split: sum.split option.split)

lemma run_ops_spec:
  "run_ops env qs ts tx =
     (case find (\<lambda>q. te_DbErr env q \<noteq> None) qs of
        Some q \<Rightarrow> Inl (the (te_DbErr env q))
      | None \<Rightarrow> Inr (tx @ map (\<lambda>q. (q, ts)) qs))"
  by (induction env qs ts tx rule: run_ops.induct) (auto split: option.splits)

text \<open>When a play counts, and what it writes.\<close>

definition counts_play :: "tracker_env \<Rightarrow> ReportPlaybackParams \<Rightarrow> MediaFile \<Rightarrow> bool" where
  "counts_play env params mf \<longleftrightarrow>
     \<not> pp_IgnoreScrobble params \<and> te_ScrobbleEnabled env \<and> scrobble_threshold mf \<le> pp_PositionMs params"

definition play_rows :: "tracker_env \<Rightarrow> MediaFile \<Rightarrow> time \<Rightarrow> (db_op \<times> time) list" where
  "play_rows env mf now =
     (if \<exists>q \<in> set (play_ops env mf). te_DbErr env q \<noteq> None then [] else map (\<lambda>q. (q, now)) (play_ops env mf))"

definition scrobble_rows :: "tracker_env \<Rightarrow> MediaFile \<Rightarrow> time \<Rightarrow> (string \<times> string \<times> string \<times> time) list" where
  "scrobble_rows env mf now =
     (if mf_Artist mf = UnknownArtist \<or> isFilteredOut env mf then []
      else map (\<lambda>s. (sc_Name s, te_UserID env, mf_ID mf, now))
             (filter (\<lambda>s. sc_IsAuthorized s (te_UserID env)) (te_Scrobblers env)))"

lemma incPlay_db: "pt_db (snd (incPlay env mf now p)) = pt_db p @ play_rows env mf now"
  by (auto simp: incPlay_def play_rows_def run_ops_spec find_None_iff find_Some_iff split: option.splits)

lemma incPlay_frame [simp]:
  "pt_scrobbles (snd (incPlay env mf now p)) = pt_scrobbles p" "pt_prQueue (snd (incPlay env mf now p)) = pt_prQueue p"
  "pt_npQueue (snd (incPlay env mf now p)) = pt_npQueue p" "pt_playMap (snd (incPlay env mf now p)) = pt_playMap p"
  "pt_counts (snd (incPlay env mf now p)) = pt_counts p"
  by (simp_all add: incPlay_def split: sum.split)

lemma dispatchScrobble_frame [simp]:
  "pt_db (dispatchScrobble env mf now f p) = pt_db p" "pt_prQueue (dispatchScrobble env mf now f p) = pt_prQueue p"
  "pt_npQueue (dispatchScrobble env mf now f p) = pt_npQueue p" "pt_playMap (dispatchScrobble env mf now f p) = pt_playMap p"
  "pt_counts (dispatchScrobble env mf now f p) = pt_counts p"
  by (simp_all add: dispatchScrobble_def)

lemma dispatchScrobble_rows:
  "pt_scrobbles (dispatchScrobble env mf now (isFilteredOut env mf) p) = pt_scrobbles p @ scrobble_rows env mf now"
  by (simp add: dispatchScrobble_def scrobble_rows_def)

lemma count_play_spec:
  assumes "te_GetMediaFile env (pp_MediaId params) = Inr mf"
  shows "fst (count_play env now params p) =
           Inr (if \<not> pp_IgnoreScrobble params \<and> te_ScrobbleEnabled env then Some (mf, isFilteredOut env mf) else None)"
    and "pt_db (snd (count_play env now params p)) = pt_db p @ (if counts_play env params mf then play_rows env mf now else [])"
    and "pt_scrobbles (snd (count_play env now params p)) =
           pt_scrobbles p @ (if counts_play env params mf then scrobble_rows env mf now else [])"
    and "pt_prQueue (snd (count_play env now params p)) = pt_prQueue p" "pt_npQueue (snd (count_play env now params p)) = pt_npQueue p"
    and "pt_playMap (snd (count_play env now params p)) = pt_playMap p" "pt_counts (snd (count_play env now params p)) = pt_counts p"
  using assms by (simp_all add: count_play_def counts_play_def Let_def incPlay_db dispatchScrobble_rows)

lemma frame_db [simp]:
  "pt_db (enqueuePlaybackReport i f p) = pt_db p" "pt_scrobbles (enqueuePlaybackReport i f p) = pt_scrobbles p"
  "pt_db (cache_Remove k p) = pt_db p" "pt_scrobbles (cache_Remove k p) = pt_scrobbles p"
  "pt_db (AddWithTTL now k s ttl p) = pt_db p" "pt_scrobbles (AddWithTTL now k s ttl p) = pt_scrobbles p"
  "pt_db (report_end env now params f p) = pt_db p" "pt_scrobbles (report_end env now params f p) = pt_scrobbles p"
  by (simp_all add: enqueuePlaybackReport_def cache_Remove_def AddWithTTL_def report_end_def enqueueNowPlaying_def Let_def
      split: option.split)

lemma prQueue_enqueue [simp]: "pt_prQueue (enqueuePlaybackReport i f p) = pt_prQueue p @ [(i, f)]"
  by (simp add: enqueuePlaybackReport_def)

lemma frame_queues [simp]:
  "pt_prQueue (cache_Remove k p) = pt_prQueue p" "pt_prQueue (AddWithTTL now k s ttl p) = pt_prQueue p"
  "pt_prQueue (report_end env now params f p) = pt_prQueue p"
  "pt_npQueue (cache_Remove k p) = pt_npQueue p" "pt_npQueue (AddWithTTL now k s ttl p) = pt_npQueue p"
  "pt_npQueue (enqueuePlaybackReport i f p) = pt_npQueue p"
  by (simp_all add: enqueuePlaybackReport_def cache_Remove_def AddWithTTL_def report_end_def enqueueNowPlaying_def Let_def
      split: option.split)

text \<open>A stopped report, by the session it finds.\<close>

lemma report_stopped_snd:
  fixes env now params p
  assumes "te_GetMediaFile env (pp_MediaId params) = Inr mf"
  defines "p1 \<equiv> snd (count_play env now params p)"
  shows "report_stopped env now params p =
     (case cache_Get now (pp_ClientId params) p of
        Some info \<Rightarrow>
          if mf_ID (ps_MediaFile info) \<noteq> pp_MediaId params then (Inr None, p1)
          else (let f = (if \<not> pp_IgnoreScrobble params \<and> te_ScrobbleEnabled env then isFilteredOut env mf
                         else isFilteredOut env (ps_MediaFile info))
                in (Inr (Some f), enqueuePlaybackReport (new_session env params (ps_MediaFile info) (ps_Start info) now False) f
                                    (cache_Remove (pp_ClientId params) p1)))
      | None \<Rightarrow> (Inr (Some (isFilteredOut env mf)),
                 enqueuePlaybackReport (new_session env params mf zero_time now False) (isFilteredOut env mf)
                   (cache_Remove (pp_ClientId params) p1)))"
proof -
  have c: "count_play env now params p =
      (Inr (if \<not> pp_IgnoreScrobble params \<and> te_ScrobbleEnabled env then Some (mf, isFilteredOut env mf) else None), p1)"
    using count_play_spec(1) [OF assms(1), of now p] by (simp add: p1_def prod_eq_iff)
  have g: "cache_Get now (pp_ClientId params) p1 = cache_Get now (pp_ClientId params) p"
    by (simp add: cache_Get_def p1_def count_play_spec(6) [OF assms(1)])
  show ?thesis
    unfolding report_stopped_def c using assms(1) by (auto simp: g Let_def split: option.split)
qed

section \<open>Properties\<close>

lemma ReportPlayback_stopped:
  "pp_State params = StateStopped \<Longrightarrow>
   ReportPlayback env now other params p =
     (case report_stopped env now params p of
        (Inl e, p1) \<Rightarrow> (Some e, p1) | (Inr None, p1) \<Rightarrow> (None, p1)
      | (Inr (Some f), p1) \<Rightarrow> (None, report_end env now params f p1))"
  by (simp add: ReportPlayback_def)


text \<open>
  A stopped report ends the session of its own track, and is reported on; one that
  arrives late, when the client already plays another track, leaves the sessions, the reports and the
  count alone.
\<close>

lemma stopped_ends_own_session:
  assumes "pp_State params = StateStopped" and "te_GetMediaFile env (pp_MediaId params) = Inr mf"
    and "cache_Get now (pp_ClientId params) p = Some info"
  shows "let p' = snd (ReportPlayback env now other params p)
         in if mf_ID (ps_MediaFile info) = pp_MediaId params
            then cache_Get now (pp_ClientId params) p' = None \<and>
                 (\<exists>s f. pt_prQueue p' = pt_prQueue p @ [(s, f)] \<and> ps_State s = StateStopped \<and>
                    ps_MediaFile s = ps_MediaFile info \<and> ps_Start s = ps_Start info)
            else pt_playMap p' = pt_playMap p \<and> pt_prQueue p' = pt_prQueue p \<and> pt_counts p' = pt_counts p"
proof -
  note c = count_play_spec [OF assms(2), of now p] and r = report_stopped_snd [OF assms(2), of now p]
  show ?thesis
    unfolding ReportPlayback_stopped [OF assms(1)] r
    by (simp add: c assms(1,3) Let_def cache_Get_remove new_session_def)
qed

text \<open>
  A starting report that arrives after a playing report of the same track never takes the
  session back to starting, even when the playing report is handled while the starting one is loading
  the file; otherwise it starts a session with the reported position.
\<close>

lemma starting_never_downgrades:
  assumes "pp_State params = StateStarting" and "te_GetMediaFile env (pp_MediaId params) = Inr mf"
  shows "let p' = snd (ReportPlayback env now other params p);
             playing = hasPlayingSession now (pp_ClientId params) (pp_MediaId params)
         in if playing p then p' = p
            else if playing (other p) then p' = other p
            else \<exists>s. cache_Get now (pp_ClientId params) p' = Some s \<and> ps_MediaFile s = mf \<and>
                   ps_State s = StateStarting \<and> ps_PositionMs s = pp_PositionMs params \<and> ps_Start s = now"
  using assms remainingTTL_pos [of "mf_Duration mf" "pp_PositionMs params" "pp_PlaybackRate params"]
  by (simp add: ReportPlayback_def report_starting_def Let_def cache_Get_add new_session_def)

lemma isFilteredOut_cong: "mf_ID a = mf_ID b \<Longrightarrow> isFilteredOut env a = isFilteredOut env b"
  by (simp add: isFilteredOut_def)

lemma dispatch_filtered: "\<forall>e \<in> set es. snd e \<Longrightarrow> concat (map (dispatchPlaybackReport env) es) = []"
  by (induction es) (auto simp: dispatchPlaybackReport_def)

lemma dispatch_filtered_one [simp]: "dispatchPlaybackReport env (i, True) = []"
  by (simp add: dispatchPlaybackReport_def)

lemma report_end_filtered [simp]: "pt_npQueue (report_end env now params True p) = pt_npQueue p"
  by (simp add: report_end_def Let_def)

lemma report_playing_filtered:
  assumes "te_GetMediaFile env (pp_MediaId params) = Inr mf" and "mf_ID mf = pp_MediaId params" and "isFilteredOut env mf"
  shows "\<exists>info p1. report_playing env now params p = (Inr (Some True), p1) \<and> pt_prQueue p1 = pt_prQueue p @ [(info, True)] \<and>
           pt_npQueue p1 = pt_npQueue p \<and> pt_scrobbles p1 = pt_scrobbles p"
proof -
  have "isFilteredOut env (ps_MediaFile s)" if "mf_ID (ps_MediaFile s) = pp_MediaId params" for s
    using that assms(2,3) isFilteredOut_cong by metis
  then show ?thesis
    using assms
    by (auto simp: report_playing_def Let_def new_session_def enqueuePlaybackReport_def AddWithTTL_def split: option.split)
qed

text \<open>
  A track that the user's filter matches stays private: whatever its report, no scrobble and
  no now-playing update is queued for it, and every playback report queued for it is marked so that the
  worker sends it to no one.
\<close>

lemma filtered_stays_private:
  assumes "te_GetMediaFile env (pp_MediaId params) = Inr mf" and "mf_ID mf = pp_MediaId params" and "isFilteredOut env mf"
  shows "let p' = snd (ReportPlayback env now id params p)
         in pt_scrobbles p' = pt_scrobbles p \<and> pt_npQueue p' = pt_npQueue p \<and>
            (\<exists>new. pt_prQueue p' = pt_prQueue p @ new \<and> concat (map (dispatchPlaybackReport env) new) = [])"
proof -
  have new: "\<exists>new. pt_prQueue p' = pt_prQueue p @ new \<and> concat (map (dispatchPlaybackReport env) new) = []"
    if "pt_prQueue p' = pt_prQueue p \<or> (\<exists>i. pt_prQueue p' = pt_prQueue p @ [(i, True)])" for p'
    using that dispatch_filtered [of "[(_, True)]" env] by (auto intro: exI [of _ "[]"] exI [of _ "[(_, True)]"])
  have rows: "scrobble_rows env mf now = []" using assms(3) by (simp add: scrobble_rows_def)
  have own: "isFilteredOut env (ps_MediaFile s)" if "mf_ID (ps_MediaFile s) = pp_MediaId params" for s
    using that assms(2,3) isFilteredOut_cong by metis
  consider "pp_State params = StateStarting" | "pp_State params = StatePlaying \<or> pp_State params = StatePaused"
    | "pp_State params = StateStopped"
    | "pp_State params \<notin> {StateStarting, StatePlaying, StatePaused, StateStopped}" by auto
  then show ?thesis
  proof cases
    case 1
    with assms show ?thesis
      by (auto simp: ReportPlayback_def report_starting_def Let_def dispatchPlaybackReport_def intro!: new)
  next
    case 2
    obtain info p1 where "report_playing env now params p = (Inr (Some True), p1)" "pt_prQueue p1 = pt_prQueue p @ [(info, True)]"
        "pt_npQueue p1 = pt_npQueue p" "pt_scrobbles p1 = pt_scrobbles p"
      using report_playing_filtered [OF assms] by blast
    with 2 show ?thesis by (auto simp: ReportPlayback_def Let_def intro!: new)
  next
    case 3
    note c = count_play_spec [OF assms(1), of now p] and r = report_stopped_snd [OF assms(1), of now p]
    show ?thesis
      unfolding ReportPlayback_stopped [OF 3] r
      by (auto simp: c rows assms(3) own Let_def intro!: new split: option.split)
  next
    case 4
    then show ?thesis by (auto simp: ReportPlayback_def report_end_def Let_def intro!: new)
  qed
qed

text \<open>
  What is playing is shown latest first, only from libraries the user may see, and no
  estimated position is past the end of its track.
\<close>

lemma GetNowPlaying_spec:
  "let res = GetNowPlaying (Some access) now p
   in sorted (rev (map ps_Start res)) \<and>
      mset (map ps_PlayerId res) = mset (map ps_PlayerId (filter (\<lambda>s. access (mf_LibraryID (ps_MediaFile s))) (cache_Values now p))) \<and>
      list_all (\<lambda>s. access (mf_LibraryID (ps_MediaFile s)) \<and>
                    (ps_State s = StatePlaying \<longrightarrow> ps_PositionMs s \<le> duration_ms (mf_Duration (ps_MediaFile s)))) res"
proof -
  let ?v = "filter (\<lambda>s. access (mf_LibraryID (ps_MediaFile s))) (cache_Values now p)"
  let ?s = "sort_key (\<lambda>s. - ps_Start s) ?v"
  have e: "ps_Start (estimate_position now s) = ps_Start s" "ps_PlayerId (estimate_position now s) = ps_PlayerId s"
      "ps_MediaFile (estimate_position now s) = ps_MediaFile s" "ps_State (estimate_position now s) = ps_State s"
      "ps_State s = StatePlaying \<Longrightarrow> ps_PositionMs (estimate_position now s) \<le> duration_ms (mf_Duration (ps_MediaFile s))" for s
    by (simp_all add: estimate_position_def Let_def)
  have res: "GetNowPlaying (Some access) now p = map (estimate_position now) ?s" by (simp add: GetNowPlaying_def Let_def)
  have "sorted (map (\<lambda>s. - ps_Start s) ?s)" by simp
  then have "sorted_wrt (\<lambda>a b. ps_Start b \<le> ps_Start a) ?s" by (simp add: sorted_map sorted_wrt_map)
  then have "sorted (rev (map ps_Start ?s))" by (simp add: sorted_wrt_rev sorted_wrt_map)
  moreover have "mset (map ps_PlayerId ?s) = mset (map ps_PlayerId ?v)" by simp
  ultimately show ?thesis
    unfolding res Let_def by (auto simp: e comp_def list_all_iff)
qed

lemma foldl_add_set: "set (foldl (\<lambda>acc n. if n \<in> set acc then acc else acc @ [n]) xs ns) = set xs \<union> set ns"
  by (induction ns arbitrary: xs) auto

text \<open>
  After a refresh exactly the plugins that exist have a scrobbler, and exactly those that
  are gone were stopped, provided the plugin manager lists each name once.
\<close>

lemma refreshPluginScrobblers_spec:
  assumes "distinct pluginNames" and "distinct scrobblers"
  shows "set (fst (refreshPluginScrobblers (Some pluginNames) scrobblers)) = set pluginNames \<and>
         set (snd (refreshPluginScrobblers (Some pluginNames) scrobblers)) = set scrobblers - set pluginNames"
proof (cases "pluginNamesMatchScrobblers pluginNames scrobblers")
  case True
  then have "set pluginNames \<subseteq> set scrobblers" "card (set pluginNames) = card (set scrobblers)"
    using assms by (auto simp: pluginNamesMatchScrobblers_def list_all_iff distinct_card)
  then have "set pluginNames = set scrobblers" by (simp add: card_subset_eq)
  with True show ?thesis by (simp add: refreshPluginScrobblers_def)
next
  case False
  then show ?thesis by (auto simp: refreshPluginScrobblers_def Let_def foldl_add_set)
qed

lemma refreshPluginScrobblers_spec_witness:
  "set (fst (refreshPluginScrobblers (Some [''a'']) [''b''])) = {''a''} \<and> set (snd (refreshPluginScrobblers (Some [''a'']) [''b''])) = {''b''}"
  using refreshPluginScrobblers_spec [of "[''a'']" "[''b'']"] by simp

text \<open>An example: one user, one scrobbler, a filter that matches the track \<open>x\<close>.\<close>

definition ex_track :: "string \<Rightarrow> MediaFile" where
  "ex_track i = zero_MediaFile\<lparr>mf_ID := i, mf_Artist := ''A'', mf_AlbumID := ''al'', mf_RoleArtists := [''ar''], mf_Duration := 200\<rparr>"

definition ex_env :: tracker_env where
  "ex_env = \<lparr>te_GetMediaFile = (\<lambda>i. Inr (ex_track i)), te_DbErr = (\<lambda>_. None), te_UserID = ''u'', te_UserName = ''ann'',
     te_ScrobbleFilter = ''x'', te_FilterValid = (\<lambda>_. True), te_MatchesCriteria = (\<lambda>i f. Some (i = f)),
     te_ScrobbleEnabled = True, te_EnableNowPlaying = True, te_EnableScrobbleHistory = False,
     te_Scrobblers = [\<lparr>sc_Name = ''lastfm'', sc_IsAuthorized = (\<lambda>_. True)\<rparr>], te_CacheLen = length\<rparr>"

definition ex_params :: "string \<Rightarrow> string \<Rightarrow> int \<Rightarrow> ReportPlaybackParams" where
  "ex_params i st pos = \<lparr>pp_MediaId = i, pp_PositionMs = pos, pp_State = st, pp_PlaybackRate = 1, pp_IgnoreScrobble = False,
     pp_ClientId = ''c'', pp_ClientName = ''web''\<rparr>"

definition ex_tracker :: playTracker where
  "ex_tracker = \<lparr>pt_playMap = [(''c'', new_session ex_env (ex_params ''t'' StatePlaying 0) (ex_track ''t'') 0 0 False, 900)],
     pt_prQueue = [], pt_npQueue = [], pt_counts = [], pt_db = [], pt_scrobbles = []\<rparr>"

lemmas tracker_eval = ex_env_def ex_params_def ex_tracker_def ex_track_def zero_MediaFile_def new_session_def isFilteredOut_def


lemma stopped_ends_own_session_witness:
  "cache_Get 5 ''c'' (snd (ReportPlayback ex_env 5 id (ex_params ''t'' StateStopped 1) ex_tracker)) = None \<and>
   pt_playMap (snd (ReportPlayback ex_env 5 id (ex_params ''o'' StateStopped 1) ex_tracker)) = pt_playMap ex_tracker"
proof -
  let ?s = "new_session ex_env (ex_params ''t'' StatePlaying 0) (ex_track ''t'') 0 0 False"
  have t: "pp_State (ex_params i st pos) = st" "pp_ClientId (ex_params i st pos) = ''c''" "pp_MediaId (ex_params i st pos) = i" for i st pos
    by (simp_all add: ex_params_def)
  have l: "te_GetMediaFile ex_env i = Inr (ex_track i)" for i by (simp add: ex_env_def)
  have g: "cache_Get 5 ''c'' ex_tracker = Some ?s" by (simp add: cache_Get_def ex_tracker_def)
  have m: "mf_ID (ps_MediaFile ?s) = ''t''" by (simp add: new_session_def ex_track_def)
  show ?thesis
    using stopped_ends_own_session [of "ex_params ''t'' StateStopped 1" ex_env "ex_track ''t''" 5 ex_tracker ?s id]
      stopped_ends_own_session [of "ex_params ''o'' StateStopped 1" ex_env "ex_track ''o''" 5 ex_tracker ?s id]
    by (simp add: Let_def t l g m)
qed

lemma starting_never_downgrades_witness:
  "snd (ReportPlayback ex_env 5 id (ex_params ''t'' StateStarting 0) ex_tracker) = ex_tracker"
proof -
  have "hasPlayingSession 5 ''c'' ''t'' ex_tracker"
    by (simp add: hasPlayingSession_def cache_Get_def tracker_eval)
  then show ?thesis
    using starting_never_downgrades [of "ex_params ''t'' StateStarting 0" ex_env "ex_track ''t''" 5 id ex_tracker]
    by (simp add: ex_params_def ex_env_def Let_def)
qed

lemma filtered_stays_private_witness:
  "pt_scrobbles (snd (ReportPlayback ex_env 5 id (ex_params ''x'' StateStopped 150000) ex_tracker)) = pt_scrobbles ex_tracker"
  using filtered_stays_private [of ex_env "ex_params ''x'' StateStopped 150000" "ex_track ''x''" 5 ex_tracker]
  by (simp add: tracker_eval Let_def)

lemma GetNowPlaying_spec_witness:
  "mset (map ps_PlayerId (GetNowPlaying (Some (\<lambda>l. l = 0)) 5 ex_tracker)) = {#''c''#} \<and>
   list_all (\<lambda>s. ps_State s = StatePlaying \<longrightarrow> ps_PositionMs s \<le> duration_ms (mf_Duration (ps_MediaFile s)))
     (GetNowPlaying (Some (\<lambda>l. l = 0)) 5 ex_tracker)"
proof -
  have "map ps_PlayerId (filter (\<lambda>s. mf_LibraryID (ps_MediaFile s) = 0) (cache_Values 5 ex_tracker)) = [''c'']"
    by (simp add: cache_Values_def tracker_eval)
  then show ?thesis
    using GetNowPlaying_spec [of "\<lambda>l. l = 0" 5 ex_tracker] by (auto simp: Let_def list_all_iff)
qed

end
