(* ===== verification/Natural_Order.thy ===== *)
theory Natural_Order
  imports Prelude "HOL-Library.List_Lexorder" "HOL-Library.Product_Lexorder"
begin

text \<open>
  The natural order of strings, \<open>utils/natural/natural.go\<close>, which SQLite uses as a collation. The two
  indices of the loop are the two remaining suffixes. The order is shown to be the lexicographic order
  of a key, hence total and transitive: the numbers and characters of the string first, the padding of
  its numbers only to decide strings that are equal otherwise.
\<close>

section \<open>Definitions\<close>

definition lower :: "char \<Rightarrow> char" where
  "lower c = (if 65 \<le> byte c \<and> byte c \<le> 90 then char_of (byte c + 97 - 65) else c)"

fun stripZeros :: "string \<Rightarrow> string" where
  "stripZeros [] = []"
| "stripZeros [c] = [c]"
| "stripZeros (c # d # cs) = (if c = CHR ''0'' then stripZeros (d # cs) else c # d # cs)"

fun compare_bytes :: "string \<Rightarrow> string \<Rightarrow> int" where
  "compare_bytes (c # cs) (d # ds) = (if c \<noteq> d then int (byte c) - int (byte d) else compare_bytes cs ds)"
| "compare_bytes _ _ = 0"

definition compareNumbers :: "string \<Rightarrow> string \<Rightarrow> int" where
  "compareNumbers a b =
     (let sa = stripZeros a; sb = stripZeros b
      in if length sa \<noteq> length sb then int (length sa) - int (length sb) else compare_bytes sa sb)"

text \<open>\<open>strings.Compare\<close>\<close>

fun strings_Compare :: "string \<Rightarrow> string \<Rightarrow> int" where
  "strings_Compare [] [] = 0"
| "strings_Compare [] (d # ds) = - 1"
| "strings_Compare (c # cs) [] = 1"
| "strings_Compare (c # cs) (d # ds) =
     (if byte c < byte d then - 1 else if byte d < byte c then 1 else strings_Compare cs ds)"

abbreviation run :: "string \<Rightarrow> string" where "run s \<equiv> takeWhile is_digit s"
abbreviation rest :: "string \<Rightarrow> string" where "rest s \<equiv> dropWhile is_digit s"

function compare_from :: "bool \<Rightarrow> string \<Rightarrow> string \<Rightarrow> int \<Rightarrow> int" where
  "compare_from fd a b padTie =
     (case (a, b) of
        (ca # as, cb # bs) \<Rightarrow>
          let fa = (if fd then lower ca else ca); fb = (if fd then lower cb else cb) in
          if is_digit ca \<and> is_digit cb then
            (let c = compareNumbers (run a) (run b); t = strings_Compare (run a) (run b)
             in if c \<noteq> 0 then c else compare_from fd (rest a) (rest b) (if t \<noteq> 0 then t else padTie))
          else if is_digit ca \<noteq> is_digit cb then int (byte fa) - int (byte fb)
          else if fa \<noteq> fb then int (byte fa) - int (byte fb)
          else compare_from fd as bs padTie
      | _ \<Rightarrow> let c = int (length a) - int (length b) in if c \<noteq> 0 then c else padTie)"
  by pat_completeness auto
termination
  by (relation "measure (\<lambda>(fd, a, b, padTie). length a)") (auto simp: le_imp_less_Suc length_dropWhile_le)

declare compare_from.simps [simp del]

definition compare :: "string \<Rightarrow> string \<Rightarrow> bool \<Rightarrow> int" where "compare a b fd = compare_from fd a b 0"

definition Compare :: "string \<Rightarrow> string \<Rightarrow> int" where "Compare a b = compare a b False"

definition CompareFold :: "string \<Rightarrow> string \<Rightarrow> int" where "CompareFold a b = compare a b True"

section \<open>The key\<close>

definition digits_num :: "string \<Rightarrow> nat" where
  "digits_num s = (case digits_value 0 s of Some n \<Rightarrow> n | None \<Rightarrow> 0)"

text \<open>A character that is no digit counts as its byte, a number as the byte of 0 and its value.\<close>

function tokens :: "bool \<Rightarrow> string \<Rightarrow> (nat \<times> nat) list" where
  "tokens fd [] = []"
| "tokens fd (c # cs) =
     (if is_digit c then (48, digits_num (run (c # cs))) # tokens fd (rest (c # cs))
      else (byte (if fd then lower c else c), 0) # tokens fd cs)"
  by pat_completeness auto
termination
  by (relation "measure (\<lambda>(fd, s). length s)") (auto simp: le_imp_less_Suc length_dropWhile_le)

function runs :: "string \<Rightarrow> string list" where
  "runs [] = []"
| "runs (c # cs) = (if is_digit c then run (c # cs) # runs (rest (c # cs)) else runs cs)"
  by pat_completeness auto
termination
  by (relation "measure length") (auto simp: le_imp_less_Suc length_dropWhile_le)

declare tokens.simps(2) [simp del] runs.simps(2) [simp del]

definition natural_key :: "bool \<Rightarrow> string \<Rightarrow> (nat \<times> nat) list \<times> nat list list" where
  "natural_key fd s = (tokens fd s, rev (map (map byte) (runs s)))"

definition order_sign :: "'a::linorder \<Rightarrow> 'a \<Rightarrow> int" where
  "order_sign x y = (if x < y then - 1 else if y < x then 1 else 0)"

section \<open>Numbers\<close>

lemma digits_value_acc:
  "list_all is_digit s \<Longrightarrow> digits_value acc s = Some (acc * 10 ^ length s + digits_num s)"
proof (induction s arbitrary: acc)
  case Nil
  then show ?case by (simp add: digits_num_def)
next
  case (Cons c s)
  have *: "digits_value a (c # s) = Some ((10 * a + (byte c - 48)) * 10 ^ length s + digits_num s)" for a
    using Cons by simp
  then have "digits_num (c # s) = (byte c - 48) * 10 ^ length s + digits_num s"
    unfolding digits_num_def [of "c # s"] by simp
  with * [of acc] show ?case by (simp add: algebra_simps)
qed

lemma digits_num_Cons:
  "is_digit c \<Longrightarrow> list_all is_digit s \<Longrightarrow> digits_num (c # s) = (byte c - 48) * 10 ^ length s + digits_num s"
  using digits_value_acc [of s "byte c - 48"] by (simp add: digits_num_def)

lemma digits_num_less: "list_all is_digit s \<Longrightarrow> digits_num s < 10 ^ length s"
proof (induction s)
  case Nil
  then show ?case by (simp add: digits_num_def)
next
  case (Cons c s)
  then have "byte c - 48 \<le> 9" by (auto simp: is_digit_def)
  then have "(byte c - 48) * 10 ^ length s \<le> 9 * 10 ^ length s" by (rule mult_right_mono) simp
  moreover have "digits_num s < 10 ^ length s" "digits_num (c # s) = (byte c - 48) * 10 ^ length s + digits_num s"
    using Cons by (simp_all add: digits_num_Cons)
  ultimately have "digits_num (c # s) < 9 * 10 ^ length s + 10 ^ length s" by linarith
  then show ?case by simp
qed

lemma stripZeros_props:
  assumes "s \<noteq> []" "list_all is_digit s"
  shows "digits_num (stripZeros s) = digits_num s \<and> list_all is_digit (stripZeros s) \<and> stripZeros s \<noteq> [] \<and>
         (1 < length (stripZeros s) \<longrightarrow> hd (stripZeros s) \<noteq> CHR ''0'')"
  using assms
proof (induction s rule: stripZeros.induct)
  case (3 c d cs)
  then show ?case by (auto simp: digits_num_Cons byte_def)
qed auto

lemma compare_bytes_num:
  "length a = length b \<Longrightarrow> list_all is_digit a \<Longrightarrow> list_all is_digit b \<Longrightarrow>
   sgn (compare_bytes a b) = order_sign (digits_num a) (digits_num b)"
proof (induction a b rule: compare_bytes.induct)
  case (1 c cs d ds)
  have l: "digits_num cs < 10 ^ length cs" "digits_num ds < 10 ^ length cs"
    using 1 digits_num_less [of cs] digits_num_less [of ds] by simp_all
  have mono: "x * 10 ^ length cs + digits_num xs < y * 10 ^ length cs + digits_num ys"
    if "x < y" "digits_num xs < 10 ^ length cs" for x y xs ys
  proof -
    have "x * 10 ^ length cs + digits_num xs < (x + 1) * 10 ^ length cs" using that(2) by simp
    also have "\<dots> \<le> y * 10 ^ length cs" using that(1) by (intro mult_right_mono) simp_all
    finally show ?thesis by simp
  qed
  have b: "48 \<le> byte c" "48 \<le> byte d" using 1 by (auto simp: is_digit_def)
  have n: "digits_num (c # cs) = (byte c - 48) * 10 ^ length cs + digits_num cs"
      "digits_num (d # ds) = (byte d - 48) * 10 ^ length cs + digits_num ds"
    using 1 by (simp_all add: digits_num_Cons)
  consider "byte c < byte d" | "byte d < byte c" | "c = d" using byte_inject by (meson linorder_neqE)
  then show ?case
  proof cases
    case 1
    then have "digits_num (c # cs) < digits_num (d # ds)" unfolding n using b l by (intro mono) simp_all
    with 1 show ?thesis by (auto simp: order_sign_def)
  next
    case 2
    then have "digits_num (d # ds) < digits_num (c # cs)" unfolding n using b l by (intro mono) simp_all
    with 2 show ?thesis by (auto simp: order_sign_def)
  next
    case 3
    then have "order_sign (digits_num (c # cs)) (digits_num (d # ds)) = order_sign (digits_num cs) (digits_num ds)"
      unfolding n by (simp add: order_sign_def)
    with 3 1 show ?thesis by simp
  qed
qed (auto simp: order_sign_def)

lemma compareNumbers_num:
  assumes "a \<noteq> []" "list_all is_digit a" "b \<noteq> []" "list_all is_digit b"
  shows "sgn (compareNumbers a b) = order_sign (digits_num a) (digits_num b)"
proof -
  let ?a = "stripZeros a" and ?b = "stripZeros b"
  note pa = stripZeros_props [OF assms(1,2)] and pb = stripZeros_props [OF assms(3,4)]
  have longer: "digits_num x < digits_num y"
    if len: "length x < length y" and dx: "list_all is_digit x" and dy: "list_all is_digit y" and hy: "hd y \<noteq> CHR ''0''" for x y
  proof -
    obtain d ds where y: "y = d # ds" using len by (cases y) auto
    have "byte d \<noteq> byte CHR ''0''" using hy y by simp
    then have d: "1 \<le> byte d - 48" using dy y by (auto simp: is_digit_def byte_def Suc_le_eq)
    have "digits_num x < 10 ^ length x" by (rule digits_num_less [OF dx])
    also have "\<dots> \<le> 10 ^ length ds" using len y by (intro power_increasing) simp_all
    also have "\<dots> \<le> (byte d - 48) * 10 ^ length ds" using mult_le_mono1 [OF d, of "10 ^ length ds"] by simp
    also have "\<dots> \<le> digits_num y" using dy y by (simp add: digits_num_Cons)
    finally show ?thesis .
  qed
  have l1: "1 \<le> length ?a" "1 \<le> length ?b" using pa pb by (simp_all add: Suc_leI)
  consider "length ?a < length ?b" | "length ?b < length ?a" | "length ?a = length ?b" by linarith
  then show ?thesis
  proof cases
    case 1
    with longer [of ?a ?b] pa pb l1 show ?thesis by (simp add: compareNumbers_def order_sign_def)
  next
    case 2
    with longer [of ?b ?a] pa pb l1 show ?thesis by (simp add: compareNumbers_def order_sign_def)
  next
    case 3
    with compare_bytes_num [of ?a ?b] pa pb show ?thesis by (simp add: compareNumbers_def)
  qed
qed

section \<open>The comparison is the order of the key\<close>

lemma order_sign_Cons: "order_sign (x # xs) (y # ys) = (if x = y then order_sign xs ys else order_sign x y)"
  by (auto simp: order_sign_def)

lemma order_sign_simps [simp]:
  "order_sign x x = 0" "order_sign [] (y # ys) = - 1" "order_sign (y # ys) [] = 1"
  by (simp_all add: order_sign_def)

lemma order_sign_zero: "order_sign x y = 0 \<longleftrightarrow> x = y"
  by (auto simp: order_sign_def)

lemma order_sign_pair: "order_sign (x, u) (y, v) = (if x = y then order_sign u v else order_sign x y)"
  by (auto simp: order_sign_def less_prod_def)

lemma order_sign_snoc:
  "length xs = length ys \<Longrightarrow>
   order_sign (xs @ [x]) (ys @ [y]) = (if xs = ys then order_sign x y else order_sign xs ys)"
  by (induction xs ys rule: list_induct2) (auto simp: order_sign_Cons)

lemma strings_Compare_sign: "strings_Compare a b = order_sign (map byte a) (map byte b)"
  by (induction a b rule: strings_Compare.induct) (auto simp: order_sign_Cons order_sign_def)

lemma sgn_byte_diff: "sgn (int (byte c) - int (byte d)) = order_sign (byte c) (byte d)"
  by (auto simp: order_sign_def)

lemma lower_not_digit: "\<not> is_digit c \<Longrightarrow> \<not> is_digit (lower c)"
  by (auto simp: is_digit_def lower_def byte_char_of)

lemma is_digit_lower: "is_digit c \<Longrightarrow> lower c = c"
  by (auto simp: is_digit_def lower_def)

lemma digit_run: "is_digit c \<Longrightarrow> run (c # cs) \<noteq> [] \<and> list_all is_digit (run (c # cs))"
  by (auto simp: list_all_iff dest: set_takeWhileD)

lemma runs_length: "tokens fd a = tokens fd b \<Longrightarrow> length (runs a) = length (runs b)"
proof (induction fd a arbitrary: b rule: tokens.induct)
  case (1 fd)
  then show ?case by (cases b) (auto simp: tokens.simps(2) split: if_splits)
next
  case (2 fd c cs)
  then obtain d ds where b: "b = d # ds" by (cases b) (auto simp: tokens.simps(2) split: if_splits)
  have nd: "byte (if fd then lower x else x) \<noteq> 48" if "\<not> is_digit x" for x
    using lower_not_digit [OF that] that by (auto simp: is_digit_def)
  show ?case
  proof (cases "is_digit c"; cases "is_digit d")
    assume cd: "is_digit c" "is_digit d"
    then have "tokens fd (rest (c # cs)) = tokens fd (rest b)"
      using 2(3) b by (simp add: tokens.simps(2) del: dropWhile.simps takeWhile.simps)
    then have "length (runs (rest (c # cs))) = length (runs (rest b))" by (rule 2(1) [OF cd(1)])
    then show ?thesis using cd b by (simp add: runs.simps(2) del: dropWhile.simps takeWhile.simps)
  next
    assume "is_digit c" "\<not> is_digit d"
    then show ?thesis using 2(3) b nd [of d] by (simp add: tokens.simps(2) split: if_splits)
  next
    assume "\<not> is_digit c" "is_digit d"
    then show ?thesis using 2(3) b nd [of c] by (simp add: tokens.simps(2) split: if_splits)
  next
    assume cd: "\<not> is_digit c" "\<not> is_digit d"
    then have "tokens fd cs = tokens fd ds" using 2(3) b by (simp add: tokens.simps(2))
    then have "length (runs cs) = length (runs ds)" by (rule 2(2) [OF cd(1)])
    then show ?thesis using cd b by (simp add: runs.simps(2))
  qed
qed

text \<open>A number against a character: the byte decides, whichever digit the number starts with.\<close>

lemma digit_vs_char:
  assumes "is_digit c" "\<not> is_digit d"
  shows "sgn (int (byte c) - int (byte d)) = order_sign 48 (byte d)" "sgn (int (byte d) - int (byte c)) = order_sign (byte d) 48"
    "byte d \<noteq> 48"
  using assms by (auto simp: is_digit_def order_sign_def)

declare dropWhile.simps [simp del] takeWhile.simps [simp del]

lemma compare_from_sign:
  "sgn (compare_from fd a b pad) =
     (if tokens fd a \<noteq> tokens fd b then order_sign (tokens fd a) (tokens fd b)
      else if runs a \<noteq> runs b then order_sign (rev (map (map byte) (runs a))) (rev (map (map byte) (runs b)))
      else sgn pad)"
proof (induction fd a b pad rule: compare_from.induct)
  case (1 fd a b pad)
  show ?case
  proof (cases a)
    case Nil
    then show ?thesis by (cases b) (simp_all add: compare_from.simps tokens.simps(2) sgn_if)
  next
    case a: (Cons ca as)
    show ?thesis
    proof (cases b)
      case Nil
      with a show ?thesis by (simp add: compare_from.simps tokens.simps(2) sgn_if)
    next
      case b: (Cons cb bs)
      let ?fa = "if fd then lower ca else ca" and ?fb = "if fd then lower cb else cb"
      consider (num) "is_digit ca" "is_digit cb" | (mixed1) "is_digit ca" "\<not> is_digit cb"
        | (mixed2) "\<not> is_digit ca" "is_digit cb" | (chars) "\<not> is_digit ca" "\<not> is_digit cb" by blast
      then show ?thesis
      proof cases
        case num
        let ?c = "compareNumbers (run a) (run b)" and ?t = "strings_Compare (run a) (run b)"
        have s: "sgn ?c = order_sign (digits_num (run a)) (digits_num (run b))"
          using digit_run [OF num(1), of as] digit_run [OF num(2), of bs] a b by (intro compareNumbers_num) simp_all
        have eq: "compare_from fd a b pad = (if ?c \<noteq> 0 then ?c else compare_from fd (rest a) (rest b) (if ?t \<noteq> 0 then ?t else pad))"
          using a b num by (subst compare_from.simps) (simp add: Let_def)
        have tok: "tokens fd a = (48, digits_num (run a)) # tokens fd (rest a)" "tokens fd b = (48, digits_num (run b)) # tokens fd (rest b)"
            "runs a = run a # runs (rest a)" "runs b = run b # runs (rest b)"
          using a b num by (simp_all add: tokens.simps(2) runs.simps(2))
        show ?thesis
        proof (cases "?c = 0")
          case False
          then have "digits_num (run a) \<noteq> digits_num (run b)" using s by (auto simp: sgn_0_0)
          with False s show ?thesis by (simp add: eq tok order_sign_Cons order_sign_pair)
        next
          case True
          then have d: "digits_num (run a) = digits_num (run b)" using s by (simp add: order_sign_zero)
          have t: "?t = order_sign (map byte (run a)) (map byte (run b))" by (rule strings_Compare_sign)
          have tz: "?t = 0 \<longleftrightarrow> run a = run b"
            unfolding t order_sign_zero by (metis byte_inject inj_map_eq_map injI)
          have "sgn ?t = ?t" unfolding t by (auto simp: order_sign_def)
          moreover have "length (runs (rest a)) = length (runs (rest b))" if "tokens fd (rest a) = tokens fd (rest b)"
            using that by (rule runs_length)
          moreover have "runs (rest a) = runs (rest b) \<longleftrightarrow> map (map byte) (runs (rest a)) = map (map byte) (runs (rest b))"
            by (metis byte_inject inj_map_eq_map injI inj_mapI)
          moreover note "1.IH"(1) [OF refl a b refl refl conjI [OF num] refl refl]
          moreover have "strings_Compare (run b) (run b) = 0" by (simp add: strings_Compare_sign)
          ultimately show ?thesis using True tz
            by (simp add: eq tok d order_sign_Cons order_sign_snoc t [symmetric])
        qed
      next
        case mixed1
        have l: "lower ca = ca" "\<not> is_digit ?fb" using mixed1 lower_not_digit is_digit_lower by auto
        note m = digit_vs_char [OF mixed1(1) l(2)]
        have "compare_from fd a b pad = int (byte ca) - int (byte ?fb)"
          using a b mixed1 l by (subst compare_from.simps) (simp add: Let_def)
        then show ?thesis using a b mixed1 m by (simp add: tokens.simps(2) order_sign_Cons order_sign_pair)
      next
        case mixed2
        have l: "lower cb = cb" "\<not> is_digit ?fa" using mixed2 lower_not_digit is_digit_lower by auto
        note m = digit_vs_char [OF mixed2(2) l(2)]
        have "compare_from fd a b pad = int (byte ?fa) - int (byte cb)"
          using a b mixed2 l by (subst compare_from.simps) (simp add: Let_def)
        then show ?thesis using a b mixed2 m by (simp add: tokens.simps(2) order_sign_Cons order_sign_pair)
      next
        case chars
        have eq: "compare_from fd a b pad = (if ?fa \<noteq> ?fb then int (byte ?fa) - int (byte ?fb) else compare_from fd as bs pad)"
          using a b chars by (subst compare_from.simps) (simp add: Let_def)
        have tok: "tokens fd a = (byte ?fa, 0) # tokens fd as" "tokens fd b = (byte ?fb, 0) # tokens fd bs"
            "runs a = runs as" "runs b = runs bs"
          using a b chars by (simp_all add: tokens.simps(2) runs.simps(2))
        show ?thesis
        proof (cases "?fa = ?fb")
          case True
          with "1.IH"(2) [OF refl a b refl refl] chars show ?thesis by (simp add: eq tok order_sign_Cons)
        next
          case False
          then show ?thesis using sgn_byte_diff [of ?fa ?fb] by (simp add: eq tok order_sign_Cons order_sign_pair)
        qed
      qed
    qed
  qed
qed

text \<open>The key determines the string, up to case when case is folded.\<close>

abbreviation folded :: "bool \<Rightarrow> string \<Rightarrow> string" where "folded fd s \<equiv> (if fd then map lower s else s)"

lemma key_inject:
  "tokens fd a = tokens fd b \<Longrightarrow> runs a = runs b \<Longrightarrow> folded fd a = folded fd b"
proof (induction fd a arbitrary: b rule: tokens.induct)
  case (1 fd)
  then show ?case by (cases b) (auto simp: tokens.simps(2) split: if_splits)
next
  case (2 fd c cs)
  obtain d ds where b: "b = d # ds" using 2(3) by (cases b) (auto simp: tokens.simps(2) split: if_splits)
  have nd: "byte (if fd then lower x else x) \<noteq> 48" if "\<not> is_digit x" for x
    using lower_not_digit [OF that] that by (auto simp: is_digit_def)
  show ?case
  proof (cases "is_digit c"; cases "is_digit d")
    assume cd: "is_digit c" "is_digit d"
    have "tokens fd (rest (c # cs)) = tokens fd (rest b)" "runs (rest (c # cs)) = runs (rest b)" "run (c # cs) = run b"
      using 2(3,4) cd b by (simp_all add: tokens.simps(2) runs.simps(2))
    moreover from this(1,2) have "folded fd (rest (c # cs)) = folded fd (rest b)" by (rule 2(1) [OF cd(1)])
    ultimately have "folded fd (run (c # cs) @ rest (c # cs)) = folded fd (run b @ rest b)"
      by (simp del: takeWhile_dropWhile_id split: if_splits)
    then show ?thesis by (simp only: takeWhile_dropWhile_id)
  next
    assume "is_digit c" "\<not> is_digit d"
    then show ?thesis using 2(3) b nd [of d] by (simp add: tokens.simps(2) split: if_splits)
  next
    assume "\<not> is_digit c" "is_digit d"
    then show ?thesis using 2(3) b nd [of c] by (simp add: tokens.simps(2) split: if_splits)
  next
    assume cd: "\<not> is_digit c" "\<not> is_digit d"
    then have "tokens fd cs = tokens fd ds" "runs cs = runs ds" using 2(3,4) b by (simp_all add: tokens.simps(2) runs.simps(2))
    then have "folded fd cs = folded fd ds" by (rule 2(2) [OF cd(1)])
    moreover have "(if fd then lower c else c) = (if fd then lower d else d)"
      using cd 2(3) b by (simp add: tokens.simps(2) split: if_splits)
    ultimately show ?thesis using b by (simp split: if_splits)
  qed
qed

lemma is_digit_lower_iff [simp]: "is_digit (lower c) \<longleftrightarrow> is_digit c"
  using is_digit_lower lower_not_digit by metis

lemma lower_digits: "list_all is_digit s \<Longrightarrow> map lower s = s"
  by (induction s) (simp_all add: is_digit_lower)

lemma run_lower: "run (map lower s) = run s"
  by (induction s) (simp_all add: takeWhile.simps is_digit_lower)

lemma rest_lower: "rest (map lower s) = map lower (rest s)"
  by (induction s) (simp_all add: dropWhile.simps)

lemma tokens_lower: "tokens True s = tokens False (map lower s)"
proof (induction s rule: measure_induct_rule [of length])
  case (less s)
  show ?case
  proof (cases s)
    case (Cons c cs)
    have "length (rest s) < length s" if "is_digit c"
      using that Cons by (simp add: dropWhile.simps le_imp_less_Suc length_dropWhile_le)
    then have "tokens True (rest s) = tokens False (rest (map lower s))" if "is_digit c"
      using less that by (simp add: rest_lower)
    with Cons less [of cs] run_lower [of s] show ?thesis by (simp add: tokens.simps(2))
  qed simp
qed

lemma runs_lower: "runs (map lower s) = runs s"
proof (induction s rule: measure_induct_rule [of length])
  case (less s)
  show ?case
  proof (cases s)
    case (Cons c cs)
    have "length (rest s) < length s" if "is_digit c"
      using that Cons by (simp add: dropWhile.simps le_imp_less_Suc length_dropWhile_le)
    then have "runs (rest (map lower s)) = runs (rest s)" if "is_digit c"
      using less that by (simp add: rest_lower)
    with Cons less [of cs] run_lower [of s] show ?thesis by (simp add: runs.simps(2))
  qed simp
qed

lemma natural_key_eq: "natural_key fd a = natural_key fd b \<longleftrightarrow> folded fd a = folded fd b"
proof
  assume "natural_key fd a = natural_key fd b"
  then have "tokens fd a = tokens fd b" "map (map byte) (runs a) = map (map byte) (runs b)" by (simp_all add: natural_key_def)
  moreover from this(2) have "runs a = runs b" by (metis byte_inject inj_map_eq_map injI inj_mapI)
  ultimately show "folded fd a = folded fd b" by (intro key_inject)
next
  assume "folded fd a = folded fd b"
  then show "natural_key fd a = natural_key fd b"
    by (cases fd) (simp_all add: natural_key_def tokens_lower runs_lower [of a, symmetric] runs_lower [of b, symmetric])
qed

lemma compare_key: "sgn (compare a b fd) = order_sign (natural_key fd a) (natural_key fd b)"
proof -
  have "runs a = runs b \<longleftrightarrow> map (map byte) (runs a) = map (map byte) (runs b)"
    by (metis byte_inject inj_map_eq_map injI inj_mapI)
  then show ?thesis
    using compare_from_sign [of fd a b 0] by (simp add: compare_def natural_key_def order_sign_pair)
qed

section \<open>Properties\<close>

text \<open>
  The scan of the two strings decides as the lexicographic order of their keys does,
  the list of characters and number values first and the spelling of the numbers, the last one first,
  as the tie break: hence the order is total and transitive, as a collation has to be. It puts no two
  different strings together, or, folding case, only strings that differ in the case of ASCII letters.
\<close>
lemma compare_is_order:
  "sgn (compare a b fd) = order_sign (natural_key fd a) (natural_key fd b) \<and>
   (Compare a b = 0 \<longleftrightarrow> a = b) \<and>
   (CompareFold a b = 0 \<longleftrightarrow> map lower a = map lower b) \<and>
   sgn (Compare b a) = - sgn (Compare a b) \<and>
   (\<not> (Compare a b < 0 \<and> Compare b c < 0 \<and> 0 \<le> Compare a c))"
proof -
  have z: "compare x y g = 0 \<longleftrightarrow> natural_key g x = natural_key g y" for x y g
    using compare_key [of x y g] by (metis order_sign_zero sgn_0_0)
  have neg: "Compare x y < 0 \<longleftrightarrow> natural_key False x < natural_key False y" for x y
    using compare_key [of x y False] by (auto simp: Compare_def order_sign_def sgn_if split: if_splits)
  have "sgn (Compare b a) = - sgn (Compare a b)"
    unfolding Compare_def compare_key by (auto simp: order_sign_def)
  moreover have "\<not> (Compare a b < 0 \<and> Compare b c < 0 \<and> 0 \<le> Compare a c)"
    using neg [of a b] neg [of b c] neg [of a c] by (meson less_trans not_less)
  ultimately show ?thesis
    using compare_key [of a b fd] z [of a b] natural_key_eq [of _ a b] by (simp add: Compare_def CompareFold_def)
qed

end
