(* ===== verification/Task_Queue.thy ===== *)
theory Task_Queue
  imports Go_Concurrency "HOL-Library.Word"
begin

text \<open>
  The task queues of plugins: \<open>plugins/host_taskqueue.go\<close>. The tables of the SQLite database are lists of
  records in insertion order; an SQL statement is one function on them and takes a flag that says whether
  the database reports an error, in which case nothing is changed. A \<open>worker\<close> is one goroutine of a queue,
  idle or executing a task it has dequeued. The service is a step relation: a step is one SQL statement or
  one critical section of a caller or worker. Times are milliseconds (\<open>UnixMilli\<close>).
\<close>

section \<open>Data\<close>

record QueueConfig =
  qc_Concurrency :: int
  qc_MaxRetries :: int
  qc_BackoffMs :: int
  qc_DelayMs :: int
  qc_RetentionMs :: int

datatype task_status = Pending | Running | Completed | Failed | Cancelled

record task =
  tk_id :: string
  tk_queue :: string
  tk_payload :: string
  tk_status :: task_status
  tk_attempt :: int
  tk_max_retries :: int
  tk_next_run_at :: int
  tk_created_at :: int
  tk_updated_at :: int
  tk_message :: string

record worker =
  wk_queue :: string
  wk_task :: "(string \<times> int \<times> int) option"

record task_service =
  ts_maxConcurrency :: int
  ts_queues :: "(string \<times> QueueConfig) list"
  ts_rows :: "(string \<times> QueueConfig) list"
  ts_tasks :: "task list"
  ts_workers :: "worker list"
  ts_cancelled :: bool
  ts_closed :: bool

datatype task_error =
    EmptyName | NameTooLong | BudgetExhausted int int | QueueExists string | QueueNotFound string
  | PayloadTooLarge nat | TaskNotFound string | CannotCancel string task_status | DbError

definition defaultConcurrency :: int where "defaultConcurrency = 1"
definition defaultBackoffMs :: int where "defaultBackoffMs = 1000"
definition defaultRetentionMs :: int where "defaultRetentionMs = 3600000"
definition minRetentionMs :: int where "minRetentionMs = 60000"
definition maxRetentionMs :: int where "maxRetentionMs = 604800000"
definition maxQueueNameLength :: nat where "maxQueueNameLength = 128"
definition maxPayloadSize :: nat where "maxPayloadSize = 1024 * 1024"
definition maxBackoffMs :: int where "maxBackoffMs = 3600000"

section \<open>Configuration of a queue\<close>

definition applyConfigDefaults :: "QueueConfig \<Rightarrow> QueueConfig" where
  "applyConfigDefaults c0 =
     (let c1 = (if qc_Concurrency c0 \<le> 0 then c0\<lparr>qc_Concurrency := defaultConcurrency\<rparr> else c0);
          c2 = (if qc_BackoffMs c1 \<le> 0 then c1\<lparr>qc_BackoffMs := defaultBackoffMs\<rparr> else c1);
          c3 = (if qc_RetentionMs c2 \<le> 0 then c2\<lparr>qc_RetentionMs := defaultRetentionMs\<rparr> else c2);
          c4 = (if qc_RetentionMs c3 < minRetentionMs then c3\<lparr>qc_RetentionMs := minRetentionMs\<rparr> else c3)
      in if qc_RetentionMs c4 > maxRetentionMs then c4\<lparr>qc_RetentionMs := maxRetentionMs\<rparr> else c4)"

definition allocated :: "(string \<times> QueueConfig) list \<Rightarrow> int" where
  "allocated queues = sum_list (map (qc_Concurrency \<circ> snd) queues)"

definition clampConcurrency :: "int \<Rightarrow> (string \<times> QueueConfig) list \<Rightarrow> QueueConfig \<Rightarrow> task_error + QueueConfig" where
  "clampConcurrency maxConcurrency queues config =
     (let available = maxConcurrency - allocated queues
      in if available \<le> 0 then Inl (BudgetExhausted (allocated queues) maxConcurrency)
         else Inr (if qc_Concurrency config > available then config\<lparr>qc_Concurrency := available\<rparr> else config))"

text \<open>\<open>UPDATE tasks SET ... WHERE ...\<close>\<close>

definition update_where :: "(task \<Rightarrow> bool) \<Rightarrow> (task \<Rightarrow> task) \<Rightarrow> task_service \<Rightarrow> task_service" where
  "update_where P f s = s\<lparr>ts_tasks := map (\<lambda>t. if P t then f t else t) (ts_tasks s)\<rparr>"

definition set_status :: "task_status \<Rightarrow> int \<Rightarrow> task \<Rightarrow> task" where
  "set_status st now t = t\<lparr>tk_status := st, tk_updated_at := now\<rparr>"

definition CreateQueue :: "bool \<Rightarrow> bool \<Rightarrow> int \<Rightarrow> string \<Rightarrow> QueueConfig \<Rightarrow> task_service \<Rightarrow> task_error option \<times> task_service" where
  "CreateQueue upsertErr resetErr now name config0 s =
     (if length name = 0 then (Some EmptyName, s)
      else if length name > maxQueueNameLength then (Some NameTooLong, s)
      else case clampConcurrency (ts_maxConcurrency s) (ts_queues s) (applyConfigDefaults config0) of
             Inl e \<Rightarrow> (Some e, s)
           | Inr config \<Rightarrow>
               if map_of (ts_queues s) name \<noteq> None then (Some (QueueExists name), s)
               else if upsertErr then (Some DbError, s)
               else
                 let s1 = s\<lparr>ts_rows := (name, config) # filter (\<lambda>r. fst r \<noteq> name) (ts_rows s)\<rparr>
                 in if resetErr then (Some DbError, s1)
                    else
                      let s2 = update_where (\<lambda>t. tk_queue t = name \<and> tk_status t = Running) (set_status Pending now) s1
                      in (None, s2\<lparr>ts_queues := (name, config) # ts_queues s2,
                                   ts_workers := ts_workers s2 @
                                     replicate (nat (qc_Concurrency config)) \<lparr>wk_queue = name, wk_task = None\<rparr>\<rparr>))"

section \<open>Operations of a plugin\<close>

text \<open>The identifier is random; a clash with a stored one is an error of the database (primary key).\<close>

definition Enqueue :: "bool \<Rightarrow> int \<Rightarrow> string \<Rightarrow> string \<Rightarrow> string \<Rightarrow> task_service \<Rightarrow> (task_error + string) \<times> task_service" where
  "Enqueue dbErr now taskID queueName payload s =
     (case map_of (ts_queues s) queueName of
        None \<Rightarrow> (Inl (QueueNotFound queueName), s)
      | Some config \<Rightarrow>
          if length payload > maxPayloadSize then (Inl (PayloadTooLarge (length payload)), s)
          else if dbErr \<or> taskID \<in> tk_id ` set (ts_tasks s) then (Inl DbError, s)
          else (Inr taskID,
                s\<lparr>ts_tasks := ts_tasks s @
                    [\<lparr>tk_id = taskID, tk_queue = queueName, tk_payload = payload, tk_status = Pending, tk_attempt = 0,
                      tk_max_retries = qc_MaxRetries config, tk_next_run_at = now, tk_created_at = now,
                      tk_updated_at = now, tk_message = ''''\<rparr>]\<rparr>))"

definition find_task :: "string \<Rightarrow> task_service \<Rightarrow> task option" where
  "find_task taskID s = find (\<lambda>t. tk_id t = taskID) (ts_tasks s)"

definition Get :: "string \<Rightarrow> task_service \<Rightarrow> task_error + task_status \<times> string \<times> int" where
  "Get taskID s =
     (case find_task taskID s of
        None \<Rightarrow> Inl (TaskNotFound taskID)
      | Some t \<Rightarrow> Inr (tk_status t, tk_message t, tk_attempt t))"

definition Cancel :: "bool \<Rightarrow> int \<Rightarrow> string \<Rightarrow> task_service \<Rightarrow> task_error option \<times> task_service" where
  "Cancel dbErr now taskID s =
     (let hit = (\<lambda>t. tk_id t = taskID \<and> tk_status t = Pending)
      in if dbErr then (Some DbError, s)
         else if \<exists>t \<in> set (ts_tasks s). hit t then (None, update_where hit (set_status Cancelled now) s)
         else case find_task taskID s of
                None \<Rightarrow> (Some (TaskNotFound taskID), s)
              | Some t \<Rightarrow> (Some (CannotCancel taskID (tk_status t)), s))"

definition ClearQueue :: "bool \<Rightarrow> int \<Rightarrow> string \<Rightarrow> task_service \<Rightarrow> (task_error + nat) \<times> task_service" where
  "ClearQueue dbErr now queueName s =
     (let hit = (\<lambda>t. tk_queue t = queueName \<and> tk_status t = Pending)
      in if map_of (ts_queues s) queueName = None then (Inl (QueueNotFound queueName), s)
         else if dbErr then (Inl DbError, s)
         else (Inr (length (filter hit (ts_tasks s))), update_where hit (set_status Cancelled now) s))"

section \<open>Workers\<close>

definition runnable :: "int \<Rightarrow> string \<Rightarrow> task \<Rightarrow> bool" where
  "runnable now queueName t \<longleftrightarrow> tk_queue t = queueName \<and> tk_status t = Pending \<and> tk_next_run_at t \<le> now"

text \<open>\<open>SELECT ... ORDER BY next_run_at, created_at LIMIT 1\<close>; among equal rows the first is taken.\<close>

fun next_task :: "int \<Rightarrow> string \<Rightarrow> task list \<Rightarrow> task option" where
  "next_task now q [] = None"
| "next_task now q (t # ts) =
     (case next_task now q ts of
        None \<Rightarrow> if runnable now q t then Some t else None
      | Some u \<Rightarrow>
          if runnable now q t \<and>
             (tk_next_run_at t < tk_next_run_at u \<or> tk_next_run_at t = tk_next_run_at u \<and> tk_created_at t \<le> tk_created_at u)
          then Some t else Some u)"

text \<open>The first half of \<open>processTask\<close>: the statement that dequeues a task for the idle worker \<open>i\<close>.\<close>

definition dequeue :: "bool \<Rightarrow> int \<Rightarrow> nat \<Rightarrow> task_service \<Rightarrow> task_service" where
  "dequeue dbErr now i s =
     (case next_task now (wk_queue (ts_workers s ! i)) (ts_tasks s) of
        None \<Rightarrow> s
      | Some t \<Rightarrow>
          if dbErr then s
          else
            (let s1 = update_where (\<lambda>u. tk_id u = tk_id t)
                        (\<lambda>u. set_status Running now u\<lparr>tk_attempt := tk_attempt u + 1\<rparr>) s
             in s1\<lparr>ts_workers := (ts_workers s1)[i := (ts_workers s1 ! i)\<lparr>wk_task :=
                     Some (tk_id t, tk_attempt t + 1, tk_max_retries t)\<rparr>]\<rparr>))"

definition completeTask :: "bool \<Rightarrow> int \<Rightarrow> string \<Rightarrow> string \<Rightarrow> task_service \<Rightarrow> task_service" where
  "completeTask dbErr now taskID message s =
     (if dbErr then s
      else update_where (\<lambda>t. tk_id t = taskID) (\<lambda>t. set_status Completed now t\<lparr>tk_message := message\<rparr>) s)"

text \<open>
  The delay before a retry, in Go's \<open>int64\<close>: the shift drops the bits that do not fit, and what is then not
  positive or above the cap becomes the cap.
\<close>

definition retry_backoff :: "int \<Rightarrow> int \<Rightarrow> int" where
  "retry_backoff backoffMs attempt =
     (let backoff = sint (push_bit (nat (attempt - 1)) (word_of_int backoffMs :: 64 word))
      in if backoff \<le> 0 \<or> backoff > maxBackoffMs then maxBackoffMs else backoff)"

definition handleTaskFailure ::
    "bool \<Rightarrow> int \<Rightarrow> QueueConfig \<Rightarrow> string \<times> int \<times> int \<Rightarrow> string \<Rightarrow> string \<Rightarrow> task_service \<Rightarrow> task_service" where
  "handleTaskFailure dbErr now config job callbackErr message0 s =
     (case job of (taskID, attempt, maxRetries) \<Rightarrow>
        let message = (if message0 = '''' then callbackErr else message0) in
        if dbErr then s
        else if attempt > maxRetries then
          update_where (\<lambda>t. tk_id t = taskID) (\<lambda>t. set_status Failed now t\<lparr>tk_message := message\<rparr>) s
        else
          update_where (\<lambda>t. tk_id t = taskID)
            (\<lambda>t. set_status Pending now t\<lparr>tk_next_run_at := now + retry_backoff (qc_BackoffMs config) attempt\<rparr>) s)"

definition revertTaskToPending :: "bool \<Rightarrow> int \<Rightarrow> string \<Rightarrow> task_service \<Rightarrow> task_service" where
  "revertTaskToPending dbErr now taskID s =
     (if dbErr then s
      else update_where (\<lambda>t. tk_id t = taskID \<and> tk_status t = Running)
             (\<lambda>t. set_status Pending now t\<lparr>tk_attempt := max (tk_attempt t - 1) 0\<rparr>) s)"

text \<open>
  The second half of \<open>processTask\<close>: the callback has returned a message and perhaps an error, or the wait for
  the rate limiter was interrupted. A closed database makes every statement fail.
\<close>

definition finish :: "bool \<Rightarrow> int \<Rightarrow> nat \<Rightarrow> string \<Rightarrow> string option \<Rightarrow> task_service \<Rightarrow> task_service" where
  "finish dbErr now i message callbackErr s =
     (case wk_task (ts_workers s ! i) of
        None \<Rightarrow> s
      | Some job \<Rightarrow>
          let err = dbErr \<or> ts_closed s;
              s1 = (if ts_cancelled s then revertTaskToPending err now (fst job) s
                    else case callbackErr of
                           None \<Rightarrow> completeTask err now (fst job) message s
                         | Some e \<Rightarrow>
                             handleTaskFailure err now (the (map_of (ts_queues s) (wk_queue (ts_workers s ! i)))) job e message s)
          in s1\<lparr>ts_workers := (ts_workers s1)[i := (ts_workers s1 ! i)\<lparr>wk_task := None\<rparr>]\<rparr>)"

section \<open>Clean-up and shutdown\<close>

definition terminal :: "task \<Rightarrow> bool" where
  "terminal t \<longleftrightarrow> tk_status t \<in> {Completed, Failed, Cancelled}"

definition cleanup_queue :: "int \<Rightarrow> string \<times> QueueConfig \<Rightarrow> task list \<Rightarrow> task list" where
  "cleanup_queue now q ts =
     filter (\<lambda>t. \<not> (tk_queue t = fst q \<and> terminal t \<and> tk_updated_at t + qc_RetentionMs (snd q) < now)) ts"

definition runCleanup :: "(string \<Rightarrow> bool) \<Rightarrow> int \<Rightarrow> task_service \<Rightarrow> task_service" where
  "runCleanup dbErr now s =
     s\<lparr>ts_tasks := foldl (\<lambda>ts q. if dbErr (fst q) then ts else cleanup_queue now q ts) (ts_tasks s) (ts_queues s)\<rparr>"

text \<open>The end of \<open>Close\<close>, after the workers ended or the wait for them timed out.\<close>

definition close_db :: "bool \<Rightarrow> int \<Rightarrow> task_service \<Rightarrow> task_service" where
  "close_db dbErr now s =
     (if dbErr then s else update_where (\<lambda>t. tk_status t = Running) (set_status Pending now) s)\<lparr>ts_closed := True\<rparr>"

definition newTaskQueueService :: "int \<Rightarrow> task list \<Rightarrow> (string \<times> QueueConfig) list \<Rightarrow> task_service" where
  "newTaskQueueService maxConcurrency tasks rows =
     \<lparr>ts_maxConcurrency = maxConcurrency, ts_queues = [], ts_rows = rows, ts_tasks = tasks, ts_workers = [],
      ts_cancelled = False, ts_closed = False\<rparr>"

section \<open>The service at work\<close>

text \<open>
  \<open>tr_log\<close> records the executions (task, attempt) and \<open>tr_fresh\<close> the tasks of this lifetime of the
  service with their number of retries; identifiers are never drawn twice. A worker starts a task only
  while it is idle and the service is not being shut down.
\<close>

record task_run =
  tr_service :: task_service
  tr_log :: "(string \<times> int) list"
  tr_fresh :: "(string \<times> int) list"

inductive task_step :: "task_run \<Rightarrow> task_run \<Rightarrow> bool" where
  create: "\<not> ts_closed (tr_service r) \<Longrightarrow>
     task_step r (r\<lparr>tr_service := snd (CreateQueue e1 e2 now name config (tr_service r))\<rparr>)"
| enqueue: "\<not> ts_closed (tr_service r) \<Longrightarrow> Enqueue e now taskID name payload (tr_service r) = (Inr taskID, s') \<Longrightarrow>
     taskID \<notin> fst ` set (tr_log r) \<Longrightarrow> taskID \<notin> fst ` set (tr_fresh r) \<Longrightarrow>
     map_of (ts_queues (tr_service r)) name = Some config \<Longrightarrow>
     task_step r (r\<lparr>tr_service := s', tr_fresh := (taskID, qc_MaxRetries config) # tr_fresh r\<rparr>)"
| cancel: "\<not> ts_closed (tr_service r) \<Longrightarrow> task_step r (r\<lparr>tr_service := snd (Cancel e now taskID (tr_service r))\<rparr>)"
| clear: "\<not> ts_closed (tr_service r) \<Longrightarrow> task_step r (r\<lparr>tr_service := snd (ClearQueue e now name (tr_service r))\<rparr>)"
| start: "\<not> ts_cancelled (tr_service r) \<Longrightarrow> i < length (ts_workers (tr_service r)) \<Longrightarrow>
     wk_task (ts_workers (tr_service r) ! i) = None \<Longrightarrow> dequeue e now i (tr_service r) = s' \<Longrightarrow>
     wk_task (ts_workers s' ! i) = Some (taskID, attempt, maxRetries) \<Longrightarrow>
     task_step r (r\<lparr>tr_service := s', tr_log := tr_log r @ [(taskID, attempt)]\<rparr>)"
| stop: "i < length (ts_workers (tr_service r)) \<Longrightarrow>
     task_step r (r\<lparr>tr_service := finish e now i message callbackErr (tr_service r)\<rparr>)"
| cleanup: "\<not> ts_closed (tr_service r) \<Longrightarrow> task_step r (r\<lparr>tr_service := runCleanup es now (tr_service r)\<rparr>)"
| shutdown: "task_step r (r\<lparr>tr_service := (tr_service r)\<lparr>ts_cancelled := True\<rparr>\<rparr>)"
| close: "ts_cancelled (tr_service r) \<Longrightarrow> task_step r (r\<lparr>tr_service := close_db e now (tr_service r)\<rparr>)"

definition task_start :: "int \<Rightarrow> task list \<Rightarrow> (string \<times> QueueConfig) list \<Rightarrow> task_run" where
  "task_start maxConcurrency tasks rows =
     \<lparr>tr_service = newTaskQueueService maxConcurrency tasks rows, tr_log = [], tr_fresh = []\<rparr>"

section \<open>The table\<close>

lemma update_where_frame [simp]:
  "ts_maxConcurrency (update_where P f s) = ts_maxConcurrency s" "ts_queues (update_where P f s) = ts_queues s"
  "ts_workers (update_where P f s) = ts_workers s" "ts_cancelled (update_where P f s) = ts_cancelled s"
  "ts_closed (update_where P f s) = ts_closed s" "ts_rows (update_where P f s) = ts_rows s"
  by (simp_all add: update_where_def)

lemma set_update_where: "set (ts_tasks (update_where P f s)) = (\<lambda>t. if P t then f t else t) ` set (ts_tasks s)"
  by (simp add: update_where_def)

lemma ids_update_where:
  assumes "\<And>t. tk_id (f t) = tk_id t"
  shows "map tk_id (ts_tasks (update_where P f s)) = map tk_id (ts_tasks s)"
  using assms by (simp add: update_where_def comp_def if_distrib cong: if_cong)

lemma set_status_simps [simp]:
  "tk_id (set_status st now t) = tk_id t" "tk_queue (set_status st now t) = tk_queue t"
  "tk_attempt (set_status st now t) = tk_attempt t" "tk_max_retries (set_status st now t) = tk_max_retries t"
  "tk_status (set_status st now t) = st" "tk_updated_at (set_status st now t) = now"
  "tk_next_run_at (set_status st now t) = tk_next_run_at t"
  by (simp_all add: set_status_def)

lemma next_task_Some:
  "next_task now q ts = Some t \<Longrightarrow>
   t \<in> set ts \<and> runnable now q t \<and>
   (\<forall>u \<in> set ts. runnable now q u \<longrightarrow>
      tk_next_run_at t < tk_next_run_at u \<or> tk_next_run_at t = tk_next_run_at u \<and> tk_created_at t \<le> tk_created_at u)"
proof (induction ts arbitrary: t)
  case (Cons a ts)
  show ?case
  proof (cases "next_task now q ts")
    case None
    have "\<not> runnable now q u" if "u \<in> set ts" for u
      using None that by (induction ts) (auto split: option.splits if_splits)
    with Cons None show ?thesis by (auto split: if_splits)
  next
    case (Some u)
    with Cons.IH [OF Some] Cons.prems show ?thesis by (auto split: if_splits)
  qed
qed simp

lemma next_task_None: "next_task now q ts = None \<longleftrightarrow> (\<forall>u \<in> set ts. \<not> runnable now q u)"
  by (induction ts) (auto split: option.splits)

section \<open>Exclusive execution\<close>

definition executes :: "task_service \<Rightarrow> nat \<Rightarrow> string \<Rightarrow> bool" where
  "executes s i taskID \<longleftrightarrow> i < length (ts_workers s) \<and> (\<exists>a m. wk_task (ts_workers s ! i) = Some (taskID, a, m))"

text \<open>What a worker knows of its task is what the table says, while the database is open.\<close>

definition in_step :: "task_service \<Rightarrow> worker \<Rightarrow> bool" where
  "in_step s w \<longleftrightarrow>
     (\<forall>taskID a m. wk_task w = Some (taskID, a, m) \<longrightarrow>
        (\<exists>t \<in> set (ts_tasks s). tk_id t = taskID \<and> tk_status t = Running \<and> tk_queue t = wk_queue w \<and>
           tk_attempt t = a \<and> tk_max_retries t = m))"

definition work_inv :: "task_service \<Rightarrow> bool" where
  "work_inv s \<longleftrightarrow>
     distinct (map tk_id (ts_tasks s)) \<and>
     (\<forall>w \<in> set (ts_workers s). map_of (ts_queues s) (wk_queue w) \<noteq> None) \<and>
     (\<forall>i j taskID. executes s i taskID \<longrightarrow> executes s j taskID \<longrightarrow> i = j) \<and>
     (\<not> ts_closed s \<longrightarrow> (\<forall>w \<in> set (ts_workers s). in_step s w)) \<and>
     (ts_closed s \<longrightarrow> ts_cancelled s)"

lemma work_invD:
  assumes "work_inv s"
  shows "distinct (map tk_id (ts_tasks s))" "w \<in> set (ts_workers s) \<Longrightarrow> map_of (ts_queues s) (wk_queue w) \<noteq> None"
    "executes s i taskID \<Longrightarrow> executes s j taskID \<Longrightarrow> i = j"
    "\<not> ts_closed s \<Longrightarrow> w \<in> set (ts_workers s) \<Longrightarrow> in_step s w" "ts_closed s \<Longrightarrow> ts_cancelled s"
  using assms unfolding work_inv_def by blast+

text \<open>
  An operation that keeps the workers, or adds idle ones, keeps the invariant when the tasks that are
  being executed stay in the table as they are.
\<close>

lemma work_inv_table:
  assumes inv: "work_inv s" and ids: "distinct (map tk_id (ts_tasks s'))"
    and ws: "ts_workers s' = ts_workers s @ replicate n \<lparr>wk_queue = name, wk_task = None\<rparr>"
    and qs: "\<And>q. map_of (ts_queues s) q \<noteq> None \<Longrightarrow> map_of (ts_queues s') q \<noteq> None"
    and new: "0 < n \<Longrightarrow> map_of (ts_queues s') name \<noteq> None"
    and kept: "\<And>t. t \<in> set (ts_tasks s) \<Longrightarrow> tk_status t = Running \<Longrightarrow> map_of (ts_queues s) (tk_queue t) \<noteq> None \<Longrightarrow>
                 t \<in> set (ts_tasks s')"
    and flags: "ts_closed s' = ts_closed s" "ts_cancelled s \<Longrightarrow> ts_cancelled s'"
  shows "work_inv s'"
proof -
  have ex: "executes s' i taskID \<longleftrightarrow> executes s i taskID" for i taskID
    by (auto simp: executes_def ws nth_append)
  have "in_step s' w" if w: "w \<in> set (ts_workers s')" and nc: "\<not> ts_closed s'" for w
  proof (cases "w \<in> set (ts_workers s)")
    case True
    then have "in_step s w" "map_of (ts_queues s) (wk_queue w) \<noteq> None" using work_invD [OF inv] nc flags by auto
    then show ?thesis using kept unfolding in_step_def by metis
  next
    case False
    then have "wk_task w = None" using w by (auto simp: ws)
    then show ?thesis by (simp add: in_step_def)
  qed
  moreover have "map_of (ts_queues s') (wk_queue w) \<noteq> None" if w: "w \<in> set (ts_workers s')" for w
    using w work_invD(2) [OF inv] qs new by (cases n) (auto simp: ws)
  ultimately show ?thesis
    using ids work_invD(3,5) [OF inv] ex flags unfolding work_inv_def by blast
qed

lemma work_inv_update:
  assumes "work_inv s" and "\<And>t. tk_id (f t) = tk_id t"
    and "\<And>t. t \<in> set (ts_tasks s) \<Longrightarrow> P t \<Longrightarrow> tk_status t = Running \<Longrightarrow> map_of (ts_queues s) (tk_queue t) = None"
  shows "work_inv (update_where P f s)"
proof (rule work_inv_table [OF assms(1), where n = 0])
  show "distinct (map tk_id (ts_tasks (update_where P f s)))"
    using work_invD(1) [OF assms(1)] assms(2) by (simp add: ids_update_where)
  show "t \<in> set (ts_tasks (update_where P f s))"
    if "t \<in> set (ts_tasks s)" "tk_status t = Running" "map_of (ts_queues s) (tk_queue t) \<noteq> None" for t
    using that assms(3) unfolding set_update_where by (metis (mono_tags, lifting) image_eqI)
qed simp_all

lemma CreateQueue_cases:
  obtains (same) "ts_tasks (snd (CreateQueue e1 e2 now name config s)) = ts_tasks s"
      "ts_workers (snd (CreateQueue e1 e2 now name config s)) = ts_workers s"
      "ts_queues (snd (CreateQueue e1 e2 now name config s)) = ts_queues s"
      "fst (CreateQueue e1 e2 now name config s) \<noteq> None"
  | (new) c where "clampConcurrency (ts_maxConcurrency s) (ts_queues s) (applyConfigDefaults config) = Inr c"
      "map_of (ts_queues s) name = None" "fst (CreateQueue e1 e2 now name config s) = None"
      "ts_tasks (snd (CreateQueue e1 e2 now name config s)) =
         map (\<lambda>t. if tk_queue t = name \<and> tk_status t = Running then set_status Pending now t else t) (ts_tasks s)"
      "ts_workers (snd (CreateQueue e1 e2 now name config s)) =
         ts_workers s @ replicate (nat (qc_Concurrency c)) \<lparr>wk_queue = name, wk_task = None\<rparr>"
      "ts_queues (snd (CreateQueue e1 e2 now name config s)) = (name, c) # ts_queues s"
proof (cases "fst (CreateQueue e1 e2 now name config s)")
  case (Some e)
  then show ?thesis
    by (intro same) (simp_all add: CreateQueue_def Let_def split: if_splits sum.splits)
next
  case None
  then obtain c where "clampConcurrency (ts_maxConcurrency s) (ts_queues s) (applyConfigDefaults config) = Inr c"
      "name \<noteq> []" "\<not> maxQueueNameLength < length name" "map_of (ts_queues s) name = None" "\<not> e1" "\<not> e2"
    by (simp add: CreateQueue_def Let_def split: if_splits sum.splits)
  with None show ?thesis
    by (intro new [of c]) (simp_all add: CreateQueue_def Let_def update_where_def)
qed

lemma CreateQueue_frame [simp]:
  "ts_closed (snd (CreateQueue e1 e2 now name config s)) = ts_closed s"
  "ts_cancelled (snd (CreateQueue e1 e2 now name config s)) = ts_cancelled s"
  "ts_maxConcurrency (snd (CreateQueue e1 e2 now name config s)) = ts_maxConcurrency s"
  by (auto simp: CreateQueue_def Let_def split: if_splits sum.splits)

lemma map_id_if:
  "(\<And>t. tk_id (f t) = tk_id t) \<Longrightarrow> map tk_id (map (\<lambda>t. if P t then f t else t) ts) = map tk_id ts"
  by (induction ts) auto

lemma work_inv_CreateQueue:
  assumes inv: "work_inv s"
  shows "work_inv (snd (CreateQueue e1 e2 now name config s))"
proof (cases rule: CreateQueue_cases [of e1 e2 now name config s])
  case same
  then show ?thesis
    using work_invD(1) [OF inv] by (intro work_inv_table [OF inv, where n = 0]) simp_all
next
  case (new c)
  show ?thesis
  proof (rule work_inv_table [OF inv _ new(5)])
    show "distinct (map tk_id (ts_tasks (snd (CreateQueue e1 e2 now name config s))))"
      using work_invD(1) [OF inv] by (simp only: new(4) map_id_if set_status_simps)
    show "t \<in> set (ts_tasks (snd (CreateQueue e1 e2 now name config s)))"
      if "t \<in> set (ts_tasks s)" "tk_status t = Running" "map_of (ts_queues s) (tk_queue t) \<noteq> None" for t
    proof -
      have "tk_queue t \<noteq> name" using that(3) new(2) by auto
      then show ?thesis using that(1) unfolding new(4) by force
    qed
  qed (simp_all add: new(6))
qed

lemma Enqueue_Inr:
  "Enqueue e now taskID name payload s = (Inr x, s') \<Longrightarrow>
   taskID \<notin> tk_id ` set (ts_tasks s) \<and> x = taskID \<and>
   (\<exists>config t. map_of (ts_queues s) name = Some config \<and> s' = s\<lparr>ts_tasks := ts_tasks s @ [t]\<rparr> \<and> tk_id t = taskID \<and>
      tk_queue t = name \<and> tk_status t = Pending \<and> tk_attempt t = 0 \<and> tk_max_retries t = qc_MaxRetries config)"
  by (auto simp: Enqueue_def split: option.splits if_splits)

lemma work_inv_Enqueue:
  assumes inv: "work_inv s" and "Enqueue e now taskID name payload s = (Inr x, s')"
  shows "work_inv s'"
proof -
  obtain t where "s' = s\<lparr>ts_tasks := ts_tasks s @ [t]\<rparr>" "tk_id t \<notin> tk_id ` set (ts_tasks s)"
    using Enqueue_Inr [OF assms(2)] by auto
  then show ?thesis using work_invD(1) [OF inv] by (intro work_inv_table [OF inv, where n = 0]) auto
qed

lemma work_inv_Cancel: "work_inv s \<Longrightarrow> work_inv (snd (Cancel e now taskID s))"
  by (auto simp: Cancel_def Let_def intro!: work_inv_update split: option.splits)

lemma work_inv_ClearQueue: "work_inv s \<Longrightarrow> work_inv (snd (ClearQueue e now name s))"
  by (auto simp: ClearQueue_def Let_def intro!: work_inv_update)

lemma runCleanup_set:
  "set (foldl (\<lambda>ts q. if e (fst q) then ts else cleanup_queue now q ts) ts qs) =
     {t \<in> set ts. \<forall>q \<in> set qs. e (fst q) \<or> \<not> (tk_queue t = fst q \<and> terminal t \<and> tk_updated_at t + qc_RetentionMs (snd q) < now)}"
  by (induction qs arbitrary: ts) (auto simp: cleanup_queue_def)

lemma runCleanup_distinct:
  "distinct (map tk_id ts) \<Longrightarrow>
   distinct (map tk_id (foldl (\<lambda>ts q. if e (fst q) then ts else cleanup_queue now q ts) ts qs))"
  by (induction qs arbitrary: ts) (auto simp: cleanup_queue_def distinct_map_filter)

lemma work_inv_runCleanup: "work_inv s \<Longrightarrow> work_inv (runCleanup e now s)"
  by (rule work_inv_table [where n = 0])
     (auto simp: runCleanup_def runCleanup_set terminal_def intro!: runCleanup_distinct dest: work_invD(1))

lemma work_inv_shutdown: "work_inv s \<Longrightarrow> work_inv (s\<lparr>ts_cancelled := True\<rparr>)"
  by (rule work_inv_table [where n = 0]) (auto dest: work_invD(1))

lemma work_inv_close:
  assumes "work_inv s" and "ts_cancelled s"
  shows "work_inv (close_db e now s)"
proof -
  have "executes (close_db e now s) i taskID \<longleftrightarrow> executes s i taskID" for i taskID
    by (simp add: executes_def close_db_def)
  then show ?thesis
    using assms unfolding work_inv_def by (simp add: close_db_def ids_update_where)
qed

lemma dequeue_eq:
  assumes "dequeue e now i s = s'" and "i < length (ts_workers s)" and "wk_task (ts_workers s ! i) = None"
    and "wk_task (ts_workers s' ! i) = Some (taskID, a, m)"
  obtains t where "t \<in> set (ts_tasks s)" "runnable now (wk_queue (ts_workers s ! i)) t" "taskID = tk_id t"
    "a = tk_attempt t + 1" "m = tk_max_retries t"
    "s' = (update_where (\<lambda>u. tk_id u = tk_id t) (\<lambda>u. set_status Running now u\<lparr>tk_attempt := tk_attempt u + 1\<rparr>) s)
            \<lparr>ts_workers := (ts_workers s)[i := (ts_workers s ! i)\<lparr>wk_task := Some (taskID, a, m)\<rparr>]\<rparr>"
proof (cases "next_task now (wk_queue (ts_workers s ! i)) (ts_tasks s)")
  case None
  then have "s' = s" using assms(1) by (simp add: dequeue_def)
  with assms(3,4) show ?thesis by simp
next
  case (Some t)
  show ?thesis
  proof (cases e)
    case True
    then have "s' = s" using assms(1) Some by (simp add: dequeue_def)
    with assms(3,4) show ?thesis by simp
  next
    case False
    then have s': "s' = (update_where (\<lambda>u. tk_id u = tk_id t) (\<lambda>u. set_status Running now u\<lparr>tk_attempt := tk_attempt u + 1\<rparr>) s)
            \<lparr>ts_workers := (ts_workers s)[i := (ts_workers s ! i)\<lparr>wk_task := Some (tk_id t, tk_attempt t + 1, tk_max_retries t)\<rparr>]\<rparr>"
      using assms(1) Some by (simp add: dequeue_def Let_def)
    moreover from this have "taskID = tk_id t" "a = tk_attempt t + 1" "m = tk_max_retries t"
      using assms(2,4) by simp_all
    ultimately show ?thesis using next_task_Some [OF Some] by (intro that [of t]) simp_all
  qed
qed

lemma distinct_id_eq: "distinct (map tk_id ts) \<Longrightarrow> t \<in> set ts \<Longrightarrow> u \<in> set ts \<Longrightarrow> tk_id t = tk_id u \<Longrightarrow> t = u"
  by (auto simp: distinct_map inj_on_def)

lemma work_inv_dequeue:
  assumes inv: "work_inv s" and nc: "\<not> ts_cancelled s" and d: "dequeue e now i s = s'" and i: "i < length (ts_workers s)"
    and idle: "wk_task (ts_workers s ! i) = None" and job: "wk_task (ts_workers s' ! i) = Some (taskID, a, m)"
  shows "work_inv s'"
proof -
  obtain t where t: "t \<in> set (ts_tasks s)" "runnable now (wk_queue (ts_workers s ! i)) t" "taskID = tk_id t"
    "a = tk_attempt t + 1" "m = tk_max_retries t"
    "s' = (update_where (\<lambda>u. tk_id u = tk_id t) (\<lambda>u. set_status Running now u\<lparr>tk_attempt := tk_attempt u + 1\<rparr>) s)
            \<lparr>ts_workers := (ts_workers s)[i := (ts_workers s ! i)\<lparr>wk_task := Some (taskID, a, m)\<rparr>]\<rparr>"
    by (rule dequeue_eq [OF d i idle job])
  let ?f = "\<lambda>u. set_status Running now u\<lparr>tk_attempt := tk_attempt u + 1\<rparr>"
  have open_db: "\<not> ts_closed s" using nc work_invD(5) [OF inv] by blast
  have tasks: "set (ts_tasks s') = (\<lambda>u. if tk_id u = tk_id t then ?f u else u) ` set (ts_tasks s)"
    by (simp add: t(6) set_update_where)
  have notrun: "\<not> executes s j taskID" for j
  proof
    assume e: "executes s j taskID"
    then have "in_step s (ts_workers s ! j)" using work_invD(4) [OF inv open_db] by (simp add: executes_def)
    then obtain u where "u \<in> set (ts_tasks s)" "tk_id u = taskID" "tk_status u = Running"
      using e unfolding in_step_def executes_def by blast
    moreover from this have "u = t" using distinct_id_eq [OF work_invD(1) [OF inv] _ t(1)] t(3) by simp
    ultimately show False using t(2) by (simp add: runnable_def)
  qed
  have ex: "executes s' j x \<longleftrightarrow> (if j = i then x = taskID else executes s j x)" for j x
    using i idle by (auto simp: executes_def t(6) nth_list_update)
  have "in_step s' w" if w: "w \<in> set (ts_workers s')" for w
  proof (cases "w \<in> set (ts_workers s)")
    case True
    then obtain j where j: "j < length (ts_workers s)" "w = ts_workers s ! j" by (auto simp: in_set_conv_nth)
    have "in_step s w" using work_invD(4) [OF inv open_db True] .
    moreover have "fst (the (wk_task w)) \<noteq> taskID" if "wk_task w \<noteq> None"
      using notrun [of j] j that by (auto simp: executes_def)
    ultimately show ?thesis unfolding in_step_def tasks using t(3) by fastforce
  next
    case False
    then have w: "w = (ts_workers s ! i)\<lparr>wk_task := Some (taskID, a, m)\<rparr>"
      using that set_update_subset_insert [of "ts_workers s" i] by (auto simp: t(6))
    have "?f t \<in> set (ts_tasks s')" unfolding tasks using t(1) by (auto intro!: image_eqI [of _ _ t])
    then show ?thesis using t(2-5) unfolding in_step_def w
      by (auto simp: runnable_def intro!: bexI [of _ "?f t"])
  qed
  moreover have "map_of (ts_queues s') (wk_queue w) \<noteq> None" if "w \<in> set (ts_workers s')" for w
    using that work_invD(2) [OF inv] i set_update_subset_insert [of "ts_workers s" i] by (fastforce simp: t(6))
  moreover have "i1 = j1" if "executes s' i1 x" "executes s' j1 x" for i1 j1 x
    using that notrun work_invD(3) [OF inv] by (auto simp: ex split: if_splits)
  moreover have "distinct (map tk_id (ts_tasks s'))" using work_invD(1) [OF inv] by (simp add: t(6) ids_update_where)
  ultimately show ?thesis using open_db nc unfolding work_inv_def by (simp add: t(6))
qed

text \<open>What the end of an execution does to the table: it changes the task of the worker only.\<close>

lemma finish_eq:
  assumes "wk_task (ts_workers s ! i) = Some (taskID, a, m)"
  obtains P f where "finish e now i message err s =
      (update_where P f s)\<lparr>ts_workers := (ts_workers s)[i := (ts_workers s ! i)\<lparr>wk_task := None\<rparr>]\<rparr>"
    "\<And>t. P t \<Longrightarrow> tk_id t = taskID" "\<And>t. tk_id (f t) = tk_id t" "\<And>t. tk_queue (f t) = tk_queue t"
    "\<And>t. tk_max_retries (f t) = tk_max_retries t"
    "\<And>t. \<not> ts_cancelled s \<Longrightarrow> tk_attempt (f t) = tk_attempt t \<and>
           (tk_status (f t) = Pending \<longrightarrow> a \<le> m) \<and> tk_status (f t) \<noteq> Running"
    "\<And>t. ts_closed s \<Longrightarrow> \<not> P t"
proof -
  have none: "update_where (\<lambda>_. False) f s = s" for f by (simp add: update_where_def)
  consider (err) "e \<or> ts_closed s" | (rev) "\<not> (e \<or> ts_closed s)" "ts_cancelled s"
    | (ok) "\<not> (e \<or> ts_closed s)" "\<not> ts_cancelled s" "err = None"
    | (fail) x where "\<not> (e \<or> ts_closed s)" "\<not> ts_cancelled s" "err = Some x" by (cases err) auto
  then show ?thesis
  proof cases
    case err
    then show ?thesis
      using assms
      by (intro that [of "\<lambda>_. False" "set_status Completed now"])
         (auto simp: none finish_def revertTaskToPending_def completeTask_def handleTaskFailure_def split: option.split)
  next
    case rev
    then show ?thesis
      using assms
      by (intro that [of "\<lambda>t. tk_id t = taskID \<and> tk_status t = Running"
            "\<lambda>t. set_status Pending now t\<lparr>tk_attempt := max (tk_attempt t - 1) 0\<rparr>"])
         (auto simp: finish_def revertTaskToPending_def)
  next
    case ok
    then show ?thesis
      using assms
      by (intro that [of "\<lambda>t. tk_id t = taskID" "\<lambda>t. set_status Completed now t\<lparr>tk_message := message\<rparr>"])
         (auto simp: finish_def completeTask_def)
  next
    case fail
    show ?thesis
    proof (cases "a > m")
      case True
      with fail assms show ?thesis
        by (intro that [of "\<lambda>t. tk_id t = taskID" "\<lambda>t. set_status Failed now t\<lparr>tk_message := if message = '''' then x else message\<rparr>"])
           (auto simp: finish_def handleTaskFailure_def Let_def)
    next
      case False
      with fail assms show ?thesis
        by (intro that [of "\<lambda>t. tk_id t = taskID" "\<lambda>t. set_status Pending now t\<lparr>tk_next_run_at :=
              now + retry_backoff (qc_BackoffMs (the (map_of (ts_queues s) (wk_queue (ts_workers s ! i))))) a\<rparr>"])
           (auto simp: finish_def handleTaskFailure_def Let_def)
    qed
  qed
qed

lemma in_set_update:
  assumes "x \<in> set (xs[i := y])"
  shows "\<exists>j < length xs. x = (if j = i then y else xs ! j)"
proof -
  obtain j where "j < length xs" "xs[i := y] ! j = x" using assms by (auto simp: in_set_conv_nth)
  then show ?thesis by (intro exI [of _ j]) (auto simp: nth_list_update)
qed

lemma work_inv_finish:
  assumes inv: "work_inv s" and i: "i < length (ts_workers s)"
  shows "work_inv (finish e now i message err s)"
proof (cases "wk_task (ts_workers s ! i)")
  case None
  then show ?thesis using inv by (simp add: finish_def)
next
  case (Some job)
  obtain taskID a m where job: "wk_task (ts_workers s ! i) = Some (taskID, a, m)" using Some by (cases job) auto
  obtain P f where fin: "finish e now i message err s =
      (update_where P f s)\<lparr>ts_workers := (ts_workers s)[i := (ts_workers s ! i)\<lparr>wk_task := None\<rparr>]\<rparr>"
    and P: "\<And>t. P t \<Longrightarrow> tk_id t = taskID" and f: "\<And>t. tk_id (f t) = tk_id t"
    using finish_eq [OF job, of e now message err] by metis
  let ?s = "finish e now i message err s"
  have ex: "executes ?s j x \<longleftrightarrow> j \<noteq> i \<and> executes s j x" for j x
    using i by (auto simp: executes_def fin nth_list_update)
  have other: "\<not> executes s j taskID" if "j \<noteq> i" for j
    using work_invD(3) [OF inv, of i taskID j] job i that by (auto simp: executes_def)
  have ws: "w \<in> set (ts_workers ?s) \<Longrightarrow> \<exists>j < length (ts_workers s). w = (if j = i then (ts_workers s ! i)\<lparr>wk_task := None\<rparr> else ts_workers s ! j)" for w
    using in_set_update [of w "ts_workers s" i] by (simp add: fin)
  have "in_step ?s w" if w: "w \<in> set (ts_workers ?s)" and nc: "\<not> ts_closed ?s" for w
  proof -
    obtain j where j: "j < length (ts_workers s)" "w = (if j = i then (ts_workers s ! i)\<lparr>wk_task := None\<rparr> else ts_workers s ! j)"
      using ws [OF w] by blast
    show ?thesis
    proof (cases "j = i")
      case True
      then show ?thesis using j by (simp add: in_step_def)
    next
      case False
      have "in_step s w" using work_invD(4) [OF inv] nc j False by (simp add: fin)
      moreover have "t \<in> set (ts_tasks ?s)" if "t \<in> set (ts_tasks s)" "tk_id t \<noteq> taskID" for t
        using that P [of t] by (auto simp: fin set_update_where intro!: image_eqI [of _ _ t])
      moreover have "wk_task w = Some (x, b, n) \<Longrightarrow> x \<noteq> taskID" for x b n
        using other [OF False] j False by (auto simp: executes_def)
      ultimately show ?thesis unfolding in_step_def by metis
    qed
  qed
  moreover have "map_of (ts_queues ?s) (wk_queue w) \<noteq> None" if "w \<in> set (ts_workers ?s)" for w
    using ws [OF that] work_invD(2) [OF inv] i by (auto simp: fin split: if_splits)
  ultimately show ?thesis
    using work_invD(1,3,5) [OF inv] unfolding work_inv_def ex by (auto simp: fin ids_update_where f)
qed

lemma work_inv_step: "work_inv (tr_service r) \<Longrightarrow> task_step r r' \<Longrightarrow> work_inv (tr_service r')"
  by (auto elim!: task_step.cases
      intro: work_inv_CreateQueue work_inv_Enqueue work_inv_Cancel work_inv_ClearQueue work_inv_dequeue
        work_inv_finish work_inv_runCleanup work_inv_shutdown work_inv_close)

lemma work_inv_start: "distinct (map tk_id tasks) \<Longrightarrow> work_inv (tr_service (task_start n tasks rows))"
  by (simp add: task_start_def newTaskQueueService_def work_inv_def executes_def)

section \<open>The concurrency budget\<close>

definition budget_inv :: "task_service \<Rightarrow> bool" where
  "budget_inv s \<longleftrightarrow>
     (\<forall>q \<in> set (ts_queues s). 1 \<le> qc_Concurrency (snd q)) \<and> distinct (map fst (ts_queues s)) \<and>
     int (length (ts_workers s)) = allocated (ts_queues s) \<and>
     (ts_queues s = [] \<or> allocated (ts_queues s) \<le> ts_maxConcurrency s)"

lemma applyConfigDefaults_range:
  "1 \<le> qc_Concurrency (applyConfigDefaults c)" "1 \<le> qc_BackoffMs (applyConfigDefaults c)"
  "minRetentionMs \<le> qc_RetentionMs (applyConfigDefaults c)" "qc_RetentionMs (applyConfigDefaults c) \<le> maxRetentionMs"
  by (simp_all add: applyConfigDefaults_def Let_def defaultConcurrency_def defaultBackoffMs_def defaultRetentionMs_def
      minRetentionMs_def maxRetentionMs_def)

lemma clampConcurrency_Inr:
  "clampConcurrency n qs c0 = Inr c \<Longrightarrow> 1 \<le> qc_Concurrency c0 \<Longrightarrow>
   1 \<le> qc_Concurrency c \<and> allocated qs + qc_Concurrency c \<le> n \<and> qc_Concurrency c \<le> qc_Concurrency c0 \<and>
   qc_BackoffMs c = qc_BackoffMs c0 \<and> qc_RetentionMs c = qc_RetentionMs c0"
  by (auto simp: clampConcurrency_def Let_def split: if_splits)

lemma allocated_Cons [simp]: "allocated (q # qs) = qc_Concurrency (snd q) + allocated qs" "allocated [] = 0"
  by (simp_all add: allocated_def)

lemma budget_inv_CreateQueue:
  assumes "budget_inv s"
  shows "budget_inv (snd (CreateQueue e1 e2 now name config s))"
proof (cases rule: CreateQueue_cases [of e1 e2 now name config s])
  case same
  then show ?thesis using assms by (simp add: budget_inv_def)
next
  case (new c)
  note c = clampConcurrency_Inr [OF new(1) applyConfigDefaults_range(1)]
  have "name \<notin> fst ` set (ts_queues s)" using new(2) by (simp add: map_of_eq_None_iff)
  with c assms show ?thesis by (auto simp: budget_inv_def new(5,6))
qed

lemma finish_frame [simp]:
  "ts_queues (finish e now i message err s) = ts_queues s" "length (ts_workers (finish e now i message err s)) = length (ts_workers s)"
  "ts_maxConcurrency (finish e now i message err s) = ts_maxConcurrency s"
  "ts_cancelled (finish e now i message err s) = ts_cancelled s" "ts_closed (finish e now i message err s) = ts_closed s"
  by (auto simp: finish_def revertTaskToPending_def completeTask_def handleTaskFailure_def Let_def split: option.split prod.split)

lemma dequeue_frame [simp]:
  "ts_queues (dequeue e now i s) = ts_queues s" "length (ts_workers (dequeue e now i s)) = length (ts_workers s)"
  "ts_maxConcurrency (dequeue e now i s) = ts_maxConcurrency s"
  "ts_cancelled (dequeue e now i s) = ts_cancelled s" "ts_closed (dequeue e now i s) = ts_closed s"
  by (auto simp: dequeue_def Let_def split: option.split)

lemma budget_inv_step:
  assumes "task_step r r'" and inv: "budget_inv (tr_service r)"
  shows "budget_inv (tr_service r')"
  using assms(1)
proof cases
  case (enqueue e now taskID name payload s')
  with inv show ?thesis by (auto dest!: Enqueue_Inr simp: budget_inv_def)
next
  case (create e1 e2 now name config)
  with inv show ?thesis by (simp add: budget_inv_CreateQueue)
qed (use inv in \<open>auto simp: budget_inv_def Cancel_def ClearQueue_def Let_def runCleanup_def close_db_def split: option.split\<close>)

lemma ts_maxConcurrency_step: "task_step r r' \<Longrightarrow> ts_maxConcurrency (tr_service r') = ts_maxConcurrency (tr_service r)"
proof (erule task_step.cases, goal_cases)
  case (2 r e now taskID name payload s')
  then show ?case by (auto dest!: Enqueue_Inr)
qed (auto simp: Cancel_def ClearQueue_def Let_def runCleanup_def close_db_def split: option.split)

section \<open>Attempts\<close>

definition attempts :: "(string \<times> int) list \<Rightarrow> string \<Rightarrow> int list" where
  "attempts lg taskID = map snd (filter (\<lambda>e. fst e = taskID) lg)"

lemma attempts_snoc [simp]:
  "attempts (lg @ [(x, a)]) taskID = attempts lg taskID @ (if x = taskID then [a] else [])" "attempts [] taskID = []"
  by (simp_all add: attempts_def)

lemma attempts_absent: "taskID \<notin> fst ` set lg \<Longrightarrow> attempts lg taskID = []"
  by (induction lg) (auto simp: attempts_def)

text \<open>
  The attempts of a task of this lifetime are counted from one without a gap, and the number in the table is
  the last of them; a waiting task has a retry left.
\<close>

definition fresh_ok :: "task_run \<Rightarrow> task \<Rightarrow> int \<Rightarrow> bool" where
  "fresh_ok r t m \<longleftrightarrow>
     tk_max_retries t = m \<and> map_of (ts_queues (tr_service r)) (tk_queue t) \<noteq> None \<and>
     (ts_cancelled (tr_service r) \<or>
      attempts (tr_log r) (tk_id t) = [1..tk_attempt t] \<and> 0 \<le> tk_attempt t \<and>
      (tk_status t = Pending \<longrightarrow> tk_attempt t \<le> max m 0))"

definition fresh_inv :: "task_run \<Rightarrow> bool" where
  "fresh_inv r \<longleftrightarrow>
     distinct (map fst (tr_fresh r)) \<and>
     (\<forall>(taskID, m) \<in> set (tr_fresh r).
        (\<exists>n. attempts (tr_log r) taskID = [1..n] \<and> n \<le> max m 0 + 1) \<and>
        (\<forall>t \<in> set (ts_tasks (tr_service r)). tk_id t = taskID \<longrightarrow> fresh_ok r t m))"

lemma fresh_invD:
  assumes "fresh_inv r" "(taskID, m) \<in> set (tr_fresh r)"
  shows "\<exists>n. attempts (tr_log r) taskID = [1..n] \<and> n \<le> max m 0 + 1"
    "t \<in> set (ts_tasks (tr_service r)) \<Longrightarrow> tk_id t = taskID \<Longrightarrow> fresh_ok r t m"
  using assms unfolding fresh_inv_def by blast+

text \<open>A step that starts nothing: the tasks of this lifetime stay as they are, or get a verdict.\<close>

lemma fresh_inv_table:
  assumes inv: "fresh_inv r" and same: "tr_fresh r' = tr_fresh r" "tr_log r' = tr_log r"
    and tasks: "\<And>t'. t' \<in> set (ts_tasks (tr_service r')) \<Longrightarrow>
      \<exists>t \<in> set (ts_tasks (tr_service r)). tk_id t' = tk_id t \<and>
         (\<forall>m. fresh_ok r t m \<longrightarrow> fresh_ok r' t' m)"
  shows "fresh_inv r'"
proof -
  have "fresh_ok r' t' m" if "(tk_id t', m) \<in> set (tr_fresh r)" "t' \<in> set (ts_tasks (tr_service r'))" for t' m
    using tasks [OF that(2)] fresh_invD(2) [OF inv] that(1) by metis
  then show ?thesis using inv unfolding fresh_inv_def same by fastforce
qed

lemma fresh_inv_update:
  assumes inv: "fresh_inv r"
    and "\<And>t. tk_id (f t) = tk_id t \<and> tk_queue (f t) = tk_queue t \<and> tk_max_retries (f t) = tk_max_retries t"
    and "\<And>t m. t \<in> set (ts_tasks (tr_service r)) \<Longrightarrow> P t \<Longrightarrow> map_of (ts_queues (tr_service r)) (tk_queue t) \<noteq> None \<Longrightarrow>
            fresh_ok r t m \<Longrightarrow> \<not> ts_cancelled (tr_service r) \<Longrightarrow>
            tk_attempt (f t) = tk_attempt t \<and> (tk_status (f t) = Pending \<longrightarrow> tk_attempt t \<le> max (tk_max_retries t) 0)"
    and "ts_tasks s' = ts_tasks (update_where P f (tr_service r))" "ts_cancelled s' = ts_cancelled (tr_service r)"
    and "\<And>q. map_of (ts_queues (tr_service r)) q \<noteq> None \<Longrightarrow> map_of (ts_queues s') q \<noteq> None"
  shows "fresh_inv (r\<lparr>tr_service := s'\<rparr>)"
proof (rule fresh_inv_table [OF inv])
  fix t' assume "t' \<in> set (ts_tasks (tr_service (r\<lparr>tr_service := s'\<rparr>)))"
  then obtain t where t: "t \<in> set (ts_tasks (tr_service r))" "t' = (if P t then f t else t)"
    by (auto simp: assms(4) set_update_where)
  have "fresh_ok (r\<lparr>tr_service := s'\<rparr>) t' m" if "fresh_ok r t m" for m
  proof -
    have "map_of (ts_queues (tr_service r)) (tk_queue t) \<noteq> None" using that by (simp add: fresh_ok_def)
    note q = this assms(6) [OF this]
    show ?thesis
    proof (cases "P t")
      case True
      with assms(3) [OF t(1) True q(1) that] that assms(2) [of t] assms(5) q t(2) show ?thesis
        by (cases "ts_cancelled (tr_service r)") (simp_all add: fresh_ok_def)
    next
      case False
      with that assms(5) q t(2) show ?thesis by (simp add: fresh_ok_def)
    qed
  qed
  with t assms(2) show "\<exists>t \<in> set (ts_tasks (tr_service r)). tk_id t' = tk_id t \<and>
      (\<forall>m. fresh_ok r t m \<longrightarrow> fresh_ok (r\<lparr>tr_service := s'\<rparr>) t' m)" by auto
qed simp_all

lemma fresh_inv_same:
  assumes "fresh_inv r" and "set (ts_tasks s') \<subseteq> set (ts_tasks (tr_service r))"
    and "\<And>q. map_of (ts_queues (tr_service r)) q \<noteq> None \<Longrightarrow> map_of (ts_queues s') q \<noteq> None"
    and "ts_cancelled (tr_service r) \<longrightarrow> ts_cancelled s'"
  shows "fresh_inv (r\<lparr>tr_service := s'\<rparr>)"
  using assms by (intro fresh_inv_table [OF assms(1)]) (auto simp: fresh_ok_def intro!: bexI)

lemma fresh_inv_create:
  assumes "fresh_inv r"
  shows "fresh_inv (r\<lparr>tr_service := snd (CreateQueue e1 e2 now name config (tr_service r))\<rparr>)"
proof (cases rule: CreateQueue_cases [of e1 e2 now name config "tr_service r"])
  case same
  then show ?thesis by (intro fresh_inv_same [OF assms]) simp_all
next
  case (new c)
  show ?thesis
    by (rule fresh_inv_update [OF assms, where P = "\<lambda>t. tk_queue t = name \<and> tk_status t = Running" and f = "set_status Pending now"])
       (use new in \<open>auto simp: update_where_def\<close>)
qed

lemma fresh_inv_enqueue:
  assumes inv: "fresh_inv r" and e: "Enqueue e now taskID name payload (tr_service r) = (Inr taskID, s')"
    and new: "taskID \<notin> fst ` set (tr_log r)" "taskID \<notin> fst ` set (tr_fresh r)"
    and c: "map_of (ts_queues (tr_service r)) name = Some config"
  shows "fresh_inv (r\<lparr>tr_service := s', tr_fresh := (taskID, qc_MaxRetries config) # tr_fresh r\<rparr>)"
proof -
  let ?r = "r\<lparr>tr_service := s', tr_fresh := (taskID, qc_MaxRetries config) # tr_fresh r\<rparr>"
  obtain t where t: "taskID \<notin> tk_id ` set (ts_tasks (tr_service r))" "s' = (tr_service r)\<lparr>ts_tasks := ts_tasks (tr_service r) @ [t]\<rparr>"
      "tk_id t = taskID" "tk_queue t = name" "tk_status t = Pending" "tk_attempt t = 0" "tk_max_retries t = qc_MaxRetries config"
    using Enqueue_Inr [OF e] c by auto
  have "fresh_ok ?r u m" if "fresh_ok r u m" for u m using that by (auto simp: fresh_ok_def t(2))
  moreover have "fresh_ok ?r t (qc_MaxRetries config)"
    using t c new(1) by (simp add: fresh_ok_def attempts_absent)
  moreover have "u = t" if "u \<in> set (ts_tasks s')" "tk_id u = taskID" for u using that t(1,2) by auto
  moreover have "u \<in> set (ts_tasks (tr_service r))" if "u \<in> set (ts_tasks s')" "tk_id u \<noteq> taskID" for u
    using that t(2,3) by auto
  ultimately show ?thesis
    using inv new attempts_absent [OF new(1)] unfolding fresh_inv_def
    by (auto intro!: exI [of _ 0] split: prod.splits; metis fst_conv image_eqI)
qed

lemma upto_snoc: "0 \<le> n \<Longrightarrow> [1..n] @ [n + 1] = [1..n + 1]" for n :: int
  by (simp add: upto_rec2 [of 1 "n + 1"])

lemma fresh_inv_dequeue:
  assumes inv: "fresh_inv r" and work: "work_inv (tr_service r)" and nc: "\<not> ts_cancelled (tr_service r)"
    and d: "dequeue e now i (tr_service r) = s'" and i: "i < length (ts_workers (tr_service r))"
    and idle: "wk_task (ts_workers (tr_service r) ! i) = None" and job: "wk_task (ts_workers s' ! i) = Some (taskID, a, m)"
  shows "fresh_inv (r\<lparr>tr_service := s', tr_log := tr_log r @ [(taskID, a)]\<rparr>)"
proof -
  let ?r = "r\<lparr>tr_service := s', tr_log := tr_log r @ [(taskID, a)]\<rparr>"
  let ?f = "\<lambda>u. set_status Running now u\<lparr>tk_attempt := tk_attempt u + 1\<rparr>"
  obtain t where t: "t \<in> set (ts_tasks (tr_service r))" "runnable now (wk_queue (ts_workers (tr_service r) ! i)) t" "taskID = tk_id t"
    "a = tk_attempt t + 1" "m = tk_max_retries t"
    "s' = (update_where (\<lambda>u. tk_id u = tk_id t) ?f (tr_service r))
            \<lparr>ts_workers := (ts_workers (tr_service r))[i := (ts_workers (tr_service r) ! i)\<lparr>wk_task := Some (taskID, a, m)\<rparr>]\<rparr>"
    by (rule dequeue_eq [OF d i idle job])
  have tasks: "set (ts_tasks s') = (\<lambda>u. if tk_id u = tk_id t then ?f u else u) ` set (ts_tasks (tr_service r))"
    by (simp add: t(6) set_update_where)
  have one: "(\<exists>n. attempts (tr_log ?r) x = [1..n] \<and> n \<le> max k 0 + 1) \<and>
      (\<forall>u \<in> set (ts_tasks s'). tk_id u = x \<longrightarrow> fresh_ok ?r u k)" if x: "(x, k) \<in> set (tr_fresh r)" for x k
  proof (cases "x = taskID")
    case True
    have ok: "fresh_ok r t k" using fresh_invD(2) [OF inv x t(1)] True t(3) by simp
    then have log: "attempts (tr_log ?r) x = [1..a]" "1 \<le> a" "a \<le> max k 0 + 1"
      using nc t(2,4) True t(3) upto_snoc [of "tk_attempt t"] by (auto simp: fresh_ok_def runnable_def)
    have "fresh_ok ?r u k" if "u \<in> set (ts_tasks s')" "tk_id u = x" for u
    proof -
      have "u = ?f t"
        using that True t(1,3) distinct_id_eq [OF work_invD(1) [OF work]] unfolding tasks by (auto split: if_splits)
      then show ?thesis using ok log True t(3,4,6) by (simp add: fresh_ok_def)
    qed
    with log show ?thesis by blast
  next
    case False
    then have "u \<in> set (ts_tasks (tr_service r))" if "u \<in> set (ts_tasks s')" "tk_id u = x" for u
      using that t(3) unfolding tasks by (auto split: if_splits)
    with fresh_invD [OF inv x] False show ?thesis by (auto simp: fresh_ok_def t(6))
  qed
  then show ?thesis using inv unfolding fresh_inv_def by auto
qed

lemma fresh_inv_finish:
  assumes inv: "fresh_inv r" and work: "work_inv (tr_service r)" and i: "i < length (ts_workers (tr_service r))"
  shows "fresh_inv (r\<lparr>tr_service := finish e now i message err (tr_service r)\<rparr>)"
proof (cases "wk_task (ts_workers (tr_service r) ! i)")
  case None
  then show ?thesis using inv by (simp add: finish_def)
next
  case (Some job)
  let ?s = "tr_service r"
  obtain taskID a m where job: "wk_task (ts_workers ?s ! i) = Some (taskID, a, m)" using Some by (cases job) auto
  obtain P f where fin: "finish e now i message err ?s =
      (update_where P f ?s)\<lparr>ts_workers := (ts_workers ?s)[i := (ts_workers ?s ! i)\<lparr>wk_task := None\<rparr>]\<rparr>"
    and P: "\<And>t. P t \<Longrightarrow> tk_id t = taskID"
    and f: "\<And>t. tk_id (f t) = tk_id t" "\<And>t. tk_queue (f t) = tk_queue t" "\<And>t. tk_max_retries (f t) = tk_max_retries t"
    and g: "\<And>t. \<not> ts_cancelled ?s \<Longrightarrow> tk_attempt (f t) = tk_attempt t \<and> (tk_status (f t) = Pending \<longrightarrow> a \<le> m) \<and> tk_status (f t) \<noteq> Running"
    by (rule finish_eq [OF job, of e now message err]) blast
  show ?thesis
  proof (rule fresh_inv_update [OF inv, where P = P and f = f])
    fix t k assume t: "t \<in> set (ts_tasks ?s)" "P t" and nc: "\<not> ts_cancelled ?s"
    then have "in_step ?s (ts_workers ?s ! i)" using work_invD(4) [OF work _ nth_mem [OF i]] work_invD(5) [OF work] by blast
    then obtain u where "u \<in> set (ts_tasks ?s)" "tk_id u = taskID" "tk_attempt u = a" "tk_max_retries u = m"
      using job unfolding in_step_def by blast
    moreover from this have "u = t" using distinct_id_eq [OF work_invD(1) [OF work]] t P by metis
    ultimately show "tk_attempt (f t) = tk_attempt t \<and> (tk_status (f t) = Pending \<longrightarrow> tk_attempt t \<le> max (tk_max_retries t) 0)"
      using g [OF nc, of t] by auto
  qed (simp_all add: f fin)
qed

lemma fresh_inv_cancel: "fresh_inv r \<Longrightarrow> fresh_inv (r\<lparr>tr_service := snd (Cancel e now taskID (tr_service r))\<rparr>)"
  by (rule fresh_inv_update [where P = "\<lambda>t. \<not> e \<and> tk_id t = taskID \<and> tk_status t = Pending"
        and f = "set_status Cancelled now"])
     (auto simp: Cancel_def Let_def update_where_def split: option.splits intro!: map_idI [symmetric])

lemma fresh_inv_clear: "fresh_inv r \<Longrightarrow> fresh_inv (r\<lparr>tr_service := snd (ClearQueue e now name (tr_service r))\<rparr>)"
  by (rule fresh_inv_update [where P = "\<lambda>t. map_of (ts_queues (tr_service r)) name \<noteq> None \<and> \<not> e \<and> tk_queue t = name \<and> tk_status t = Pending"
        and f = "set_status Cancelled now"])
     (auto simp: ClearQueue_def Let_def update_where_def)

lemma fresh_inv_close:
  "fresh_inv r \<Longrightarrow> ts_cancelled (tr_service r) \<Longrightarrow> fresh_inv (r\<lparr>tr_service := close_db e now (tr_service r)\<rparr>)"
  by (rule fresh_inv_update [where P = "\<lambda>t. \<not> e \<and> tk_status t = Running" and f = "set_status Pending now"])
     (auto simp: close_db_def update_where_def)

lemma fresh_inv_step:
  assumes "task_step r r'" and "fresh_inv r" and "work_inv (tr_service r)"
  shows "fresh_inv r'"
  using assms(1)
proof cases
  case (enqueue e now taskID name payload s' config)
  then show ?thesis using fresh_inv_enqueue [OF assms(2)] by blast
next
  case (start i e now s' taskID attempt maxRetries)
  then show ?thesis using fresh_inv_dequeue [OF assms(2,3)] by blast
next
  case (cleanup es now)
  then show ?thesis using assms(2) by (auto simp: runCleanup_def runCleanup_set intro!: fresh_inv_same)
next
  case shutdown
  then show ?thesis using assms(2) by (auto intro!: fresh_inv_same)
qed (use assms(2,3) in \<open>auto intro: fresh_inv_create fresh_inv_cancel fresh_inv_clear fresh_inv_finish fresh_inv_close\<close>)

section \<open>Properties\<close>

lemma task_reachable_inv:
  assumes "reachable (task_start n tasks rows) task_step r" and "distinct (map tk_id tasks)"
  shows "work_inv (tr_service r) \<and> budget_inv (tr_service r) \<and> fresh_inv r \<and> ts_maxConcurrency (tr_service r) = n"
  using assms(1)
proof (rule reachable_invariant)
  show "work_inv (tr_service (task_start n tasks rows)) \<and> budget_inv (tr_service (task_start n tasks rows)) \<and>
        fresh_inv (task_start n tasks rows) \<and> ts_maxConcurrency (tr_service (task_start n tasks rows)) = n"
    using assms(2) work_inv_start by (simp add: task_start_def newTaskQueueService_def budget_inv_def fresh_inv_def)
qed (auto intro: work_inv_step budget_inv_step fresh_inv_step dest: ts_maxConcurrency_step)

text \<open>
  C26 (safety): whatever callers, workers, clean-up and shutdown do, and whichever statements fail, no task is
  executed by two workers at the same time, there are never more workers than the plugin may have, and a
  task queued in this lifetime of the service is attempted at most once more than it has retries, with
  attempt numbers counted from one without a gap.
\<close>

theorem task_queue_safe:
  assumes "reachable (task_start n tasks rows) task_step r" and "distinct (map tk_id tasks)"
  shows "(\<forall>i j taskID. executes (tr_service r) i taskID \<longrightarrow> executes (tr_service r) j taskID \<longrightarrow> i = j) \<and>
         int (length (ts_workers (tr_service r))) \<le> max n 0 \<and>
         (\<forall>(taskID, m) \<in> set (tr_fresh r). \<exists>k. attempts (tr_log r) taskID = [1..k] \<and> k \<le> max m 0 + 1)"
proof -
  note inv = task_reachable_inv [OF assms]
  have "int (length (ts_workers (tr_service r))) \<le> max n 0" using inv by (auto simp: budget_inv_def)
  moreover have "\<forall>i j taskID. executes (tr_service r) i taskID \<longrightarrow> executes (tr_service r) j taskID \<longrightarrow> i = j"
    using inv work_invD(3) by blast
  moreover have "\<forall>(taskID, m) \<in> set (tr_fresh r). \<exists>k. attempts (tr_log r) taskID = [1..k] \<and> k \<le> max m 0 + 1"
    using inv fresh_invD(1) by blast
  ultimately show ?thesis by blast
qed

lemma terminal_kept_finish:
  assumes work: "work_inv s" and i: "i < length (ts_workers s)" and t: "t \<in> set (ts_tasks s)" "terminal t"
  shows "t \<in> set (ts_tasks (finish e now i message err s))"
proof (cases "wk_task (ts_workers s ! i)")
  case None
  then show ?thesis using t by (simp add: finish_def)
next
  case (Some job)
  obtain taskID a m where job: "wk_task (ts_workers s ! i) = Some (taskID, a, m)" using Some by (cases job) auto
  obtain P f where fin: "finish e now i message err s =
      (update_where P f s)\<lparr>ts_workers := (ts_workers s)[i := (ts_workers s ! i)\<lparr>wk_task := None\<rparr>]\<rparr>"
    and P: "\<And>t. P t \<Longrightarrow> tk_id t = taskID" and c: "\<And>t. ts_closed s \<Longrightarrow> \<not> P t"
    by (rule finish_eq [OF job, of e now message err]) blast
  have "\<not> P t"
  proof
    assume p: "P t"
    then have "in_step s (ts_workers s ! i)" using c work_invD(4) [OF work _ nth_mem [OF i]] by blast
    then obtain u where "u \<in> set (ts_tasks s)" "tk_id u = taskID" "tk_status u = Running"
      using job unfolding in_step_def by blast
    with distinct_id_eq [OF work_invD(1) [OF work] _ t(1)] P [OF p] t(2) show False by (auto simp: terminal_def)
  qed
  then show ?thesis using t(1) by (auto simp: fin set_update_where intro!: image_eqI [of _ _ t])
qed

text \<open>
  A task that has completed, failed or been cancelled stays as it is: the only step that
  removes it is a clean-up of its queue after the time it is kept for, and none changes it.
\<close>

lemma task_terminal_kept:
  assumes "reachable (task_start n tasks rows) task_step r" and "distinct (map tk_id tasks)" and "task_step r r'"
    and "t \<in> set (ts_tasks (tr_service r))" and "terminal t"
  shows "t \<in> set (ts_tasks (tr_service r')) \<or>
         (\<exists>es now config. tr_service r' = runCleanup es now (tr_service r) \<and>
            (tk_queue t, config) \<in> set (ts_queues (tr_service r)) \<and> tk_updated_at t + qc_RetentionMs config < now)"
proof -
  have work: "work_inv (tr_service r)" using task_reachable_inv [OF assms(1,2)] by blast
  have keep: "t \<in> set (ts_tasks (update_where P f s))" if "t \<in> set (ts_tasks s)" "\<not> P t" for P f s
    using that by (auto simp: set_update_where intro!: image_eqI [of _ _ t])
  show ?thesis
    using assms(3)
  proof cases
    case (create e1 e2 now name config)
    then show ?thesis
      using assms(4,5) keep [of "tr_service r"]
      by (cases rule: CreateQueue_cases [of e1 e2 now name config "tr_service r"])
         (auto simp: terminal_def intro!: image_eqI [of _ _ t])
  next
    case (enqueue e now taskID name payload s' config)
    then show ?thesis using assms(4) by (auto dest!: Enqueue_Inr)
  next
    case (start i e now s' taskID a m)
    have "t \<in> set (ts_tasks s')"
    proof (rule dequeue_eq [OF start(5,3,4,6)])
      fix u assume u: "u \<in> set (ts_tasks (tr_service r))" "runnable now (wk_queue (ts_workers (tr_service r) ! i)) u"
        "s' = (update_where (\<lambda>v. tk_id v = tk_id u) (\<lambda>v. set_status Running now v\<lparr>tk_attempt := tk_attempt v + 1\<rparr>) (tr_service r))
            \<lparr>ts_workers := (ts_workers (tr_service r))[i := (ts_workers (tr_service r) ! i)\<lparr>wk_task := Some (taskID, a, m)\<rparr>]\<rparr>"
      have "tk_id t \<noteq> tk_id u"
        using distinct_id_eq [OF work_invD(1) [OF work] assms(4) u(1)] u(2) assms(5) by (auto simp: runnable_def terminal_def)
      then show ?thesis using keep [OF assms(4)] by (simp add: u(3))
    qed
    then show ?thesis using start by simp
  next
    case (cleanup es now)
    then show ?thesis using assms(4,5) by (auto simp: runCleanup_def runCleanup_set)
  qed (use assms(4,5) in \<open>auto simp: Cancel_def ClearQueue_def Let_def close_db_def terminal_def intro!: keep
      split: option.splits intro: terminal_kept_finish [OF work]\<close>)
qed

text \<open>The shift of a 64-bit integer keeps the powers of two that divide it.\<close>

lemma signed_take_bit_dvd:
  assumes "2 ^ k dvd x" and "k \<le> 64"
  shows "(2 ^ k :: int) dvd signed_take_bit 63 x"
proof -
  have "(2 ^ k :: int) dvd 2 ^ 64" using assms(2) by (rule le_imp_power_dvd)
  moreover have "signed_take_bit 63 x = x mod 2 ^ 64 - 2 ^ 64 * of_bool (bit x 63)"
    by (simp add: signed_take_bit_eq_take_bit_minus take_bit_eq_mod)
  ultimately show ?thesis using assms(1) by (metis dvd_diff dvd_mod dvd_mult2)
qed

lemma sint_shift: "sint (push_bit k (word_of_int x :: 64 word)) = signed_take_bit 63 (x * 2 ^ k)"
proof -
  have "push_bit k (word_of_int x :: 64 word) = word_of_int (x * 2 ^ k)" by (simp add: push_bit_eq_mult)
  then show ?thesis by (simp only: sint_sbintrunc') simp
qed

lemma retry_backoff_large:
  assumes "22 \<le> k"
  shows "signed_take_bit 63 (x * 2 ^ k) \<le> 0 \<or> maxBackoffMs < signed_take_bit 63 (x * 2 ^ k)" (is "?y \<le> 0 \<or> _")
proof (rule ccontr)
  assume "\<not> (?y \<le> 0 \<or> maxBackoffMs < ?y)"
  then have y: "0 < ?y" "?y \<le> 3600000" by (simp_all add: maxBackoffMs_def)
  have "(2 ^ 22 :: int) dvd 2 ^ k" using assms by (rule le_imp_power_dvd)
  then have "(2 ^ 22 :: int) dvd ?y" by (intro signed_take_bit_dvd) simp_all
  with y(1) have "2 ^ 22 \<le> ?y" by (rule zdvd_imp_le [rotated])
  with y(2) show False by simp
qed

text \<open>
  The delay before a retry is always positive and at most an hour, also when the shift
  overflows; for a base delay below 2^42 milliseconds (139 years) it is the base delay doubled for every
  attempt so far, capped at an hour.
\<close>

lemma retry_backoff_bounds:
  "1 \<le> retry_backoff b a \<and> retry_backoff b a \<le> maxBackoffMs \<and>
   (1 \<le> b \<and> b < 2 ^ 42 \<and> 1 \<le> a \<longrightarrow> retry_backoff b a = min (b * 2 ^ nat (a - 1)) maxBackoffMs)"
proof (intro conjI impI)
  show "1 \<le> retry_backoff b a" "retry_backoff b a \<le> maxBackoffMs"
    by (auto simp: retry_backoff_def Let_def maxBackoffMs_def)
  assume b: "1 \<le> b \<and> b < 2 ^ 42 \<and> 1 \<le> a"
  define k where "k = nat (a - 1)"
  show "retry_backoff b a = min (b * 2 ^ nat (a - 1)) maxBackoffMs"
  proof (cases "22 \<le> k")
    case True
    then have "(2 ^ 22 :: int) \<le> 2 ^ k" by (intro power_increasing) simp_all
    also have "\<dots> \<le> b * 2 ^ k" using b by simp
    finally have "maxBackoffMs \<le> b * 2 ^ k" by (simp add: maxBackoffMs_def)
    with retry_backoff_large [OF True, of b] show ?thesis
      by (auto simp: retry_backoff_def sint_shift k_def [symmetric] Let_def)
  next
    case False
    then have "b * 2 ^ k \<le> b * 2 ^ 21" using b by (intro mult_left_mono power_increasing) simp_all
    also have "\<dots> < 2 ^ 42 * 2 ^ 21" using b by (intro mult_strict_right_mono) simp_all
    finally have "b * 2 ^ k < 2 ^ 63" by simp
    moreover have "0 < b * 2 ^ k" using b by simp
    ultimately have "signed_take_bit 63 (b * 2 ^ k) = b * 2 ^ k" by (intro signed_take_bit_int_eq_self) simp_all
    with \<open>0 < b * 2 ^ k\<close> show ?thesis by (auto simp: retry_backoff_def sint_shift k_def [symmetric] Let_def)
  qed
qed

lemma retry_backoff_bounds_witness: "retry_backoff 1000 4 = 8000 \<and> retry_backoff 1000 40 = maxBackoffMs"
  using retry_backoff_bounds [of 1000 4] retry_backoff_bounds [of 1000 40] by (simp add: maxBackoffMs_def)

text \<open>
  A queue is created exactly when its name is valid and new, the plugin has workers left and the
  database answers; then it has between one and the remaining number of workers, kept delays within their
  limits and no task of an earlier run left running. Otherwise no queue, worker or task changes.
\<close>

lemma CreateQueue_outcome:
  "let (err, s') = CreateQueue e1 e2 now name config s
   in (err = None \<longleftrightarrow>
         name \<noteq> [] \<and> length name \<le> maxQueueNameLength \<and> name \<notin> fst ` set (ts_queues s) \<and>
         allocated (ts_queues s) < ts_maxConcurrency s \<and> \<not> e1 \<and> \<not> e2) \<and>
      (if err = None
       then \<exists>c. ts_queues s' = (name, c) # ts_queues s \<and>
              1 \<le> qc_Concurrency c \<and> allocated (ts_queues s') \<le> ts_maxConcurrency s \<and>
              1 \<le> qc_BackoffMs c \<and> minRetentionMs \<le> qc_RetentionMs c \<and> qc_RetentionMs c \<le> maxRetentionMs \<and>
              int (length (ts_workers s')) = int (length (ts_workers s)) + qc_Concurrency c \<and>
              filter (\<lambda>t. tk_queue t = name \<and> tk_status t = Running) (ts_tasks s') = [] \<and>
              filter (\<lambda>t. tk_queue t \<noteq> name) (ts_tasks s') = filter (\<lambda>t. tk_queue t \<noteq> name) (ts_tasks s)
       else ts_queues s' = ts_queues s \<and> ts_workers s' = ts_workers s \<and> ts_tasks s' = ts_tasks s)"
proof -
  let ?R = "CreateQueue e1 e2 now name config s"
  have clamp: "(\<exists>c. clampConcurrency (ts_maxConcurrency s) (ts_queues s) c0 = Inr c) \<longleftrightarrow> allocated (ts_queues s) < ts_maxConcurrency s" for c0
    by (auto simp: clampConcurrency_def Let_def)
  have iff: "fst ?R = None \<longleftrightarrow> name \<noteq> [] \<and> length name \<le> maxQueueNameLength \<and> name \<notin> fst ` set (ts_queues s) \<and>
         allocated (ts_queues s) < ts_maxConcurrency s \<and> \<not> e1 \<and> \<not> e2"
    unfolding clamp [of "applyConfigDefaults config", symmetric] map_of_eq_None_iff [symmetric]
    by (auto simp: CreateQueue_def Let_def split: sum.splits)
  show ?thesis
  proof (cases rule: CreateQueue_cases [of e1 e2 now name config s])
    case same
    with iff show ?thesis by (auto simp: split_beta Let_def)
  next
    case (new c)
    note c = clampConcurrency_Inr [OF new(1) applyConfigDefaults_range(1)]
    have "filter (\<lambda>t. tk_queue t = name \<and> tk_status t = Running)
        (map (\<lambda>t. if tk_queue t = name \<and> tk_status t = Running then set_status Pending now t else t) ts) = []" for ts
      by (induction ts) auto
    moreover have "filter (\<lambda>t. tk_queue t \<noteq> name) (map (\<lambda>t. if tk_queue t = name \<and> tk_status t = Running then set_status Pending now t else t) ts) =
        filter (\<lambda>t. tk_queue t \<noteq> name) ts" for ts
      by (induction ts) auto
    ultimately show ?thesis
      using iff new(3-6) c applyConfigDefaults_range [of config] by (simp add: split_beta Let_def)
  qed
qed

text \<open>
  What becomes of an execution, when the database answers and nothing is shut down: a
  successful task is completed with its message, a failed one without retries left is failed, and a failed
  one with retries left waits, runnable from the end of its delay on and not before.
\<close>

lemma finish_outcome:
  assumes "work_inv s" and "i < length (ts_workers s)" and "wk_task (ts_workers s ! i) = Some (taskID, a, m)"
    and "\<not> ts_cancelled s"
  shows "\<exists>t \<in> set (ts_tasks (finish False now i message err s)). tk_id t = taskID \<and> tk_attempt t = a \<and>
           (case err of
              None \<Rightarrow> tk_status t = Completed \<and> tk_message t = message
            | Some e \<Rightarrow>
                if m < a then tk_status t = Failed \<and> tk_message t = (if message = '''' then e else message)
                else tk_status t = Pending \<and>
                     (\<forall>time. runnable time (wk_queue (ts_workers s ! i)) t \<longleftrightarrow>
                        now + retry_backoff (qc_BackoffMs (the (map_of (ts_queues s) (wk_queue (ts_workers s ! i))))) a \<le> time))"
proof -
  have c: "\<not> ts_closed s" using work_invD(5) [OF assms(1)] assms(4) by blast
  have "in_step s (ts_workers s ! i)" using work_invD(4) [OF assms(1) c nth_mem [OF assms(2)]] .
  then obtain t where t: "t \<in> set (ts_tasks s)" "tk_id t = taskID" "tk_attempt t = a" "tk_queue t = wk_queue (ts_workers s ! i)"
    using assms(3) unfolding in_step_def by blast
  have "f t \<in> set (ts_tasks (update_where (\<lambda>u. tk_id u = tk_id t) f s))" for f
    unfolding set_update_where using t(1,2) by (intro image_eqI [of _ _ t]) simp_all
  then have bex: "\<exists>u \<in> set (ts_tasks (update_where (\<lambda>u. tk_id u = tk_id t) f s)). Q u" if "Q (f t)" for f Q
    using that by blast
  show ?thesis
    using assms(3,4) c t
    by (cases err)
       (auto simp: finish_def completeTask_def handleTaskFailure_def runnable_def Let_def intro!: bex)
qed

section \<open>An example\<close>

definition ex_config :: QueueConfig where
  "ex_config = \<lparr>qc_Concurrency = 3, qc_MaxRetries = 1, qc_BackoffMs = 0, qc_DelayMs = 0, qc_RetentionMs = 0\<rparr>"

definition ex_created :: task_service where "ex_created = snd (CreateQueue False False 0 ''q'' ex_config (newTaskQueueService 1 [] []))"

definition ex_queued :: task_service where "ex_queued = snd (Enqueue False 5 ''t'' ''q'' ''p'' ex_created)"

definition ex_running :: task_service where "ex_running = dequeue False 6 0 ex_queued"

definition ex_run :: task_run where
  "ex_run = \<lparr>tr_service = ex_running, tr_log = [(''t'', 1)], tr_fresh = [(''t'', 1)]\<rparr>"

definition ex_ended :: task_run where
  "ex_ended = ex_run\<lparr>tr_service := finish False 9 0 ''ok'' None ex_running\<rparr>"

lemmas task_eval = ex_run_def ex_ended_def ex_config_def ex_created_def ex_queued_def ex_running_def CreateQueue_def Enqueue_def dequeue_def
  finish_def completeTask_def newTaskQueueService_def clampConcurrency_def applyConfigDefaults_def defaultConcurrency_def
  defaultBackoffMs_def defaultRetentionMs_def minRetentionMs_def maxRetentionMs_def maxQueueNameLength_def maxPayloadSize_def
  update_where_def set_status_def runnable_def Let_def

lemma ex_created_eq:
  "ex_created = \<lparr>ts_maxConcurrency = 1,
     ts_queues = [(''q'', \<lparr>qc_Concurrency = 1, qc_MaxRetries = 1, qc_BackoffMs = 1000, qc_DelayMs = 0, qc_RetentionMs = 3600000\<rparr>)],
     ts_rows = [(''q'', \<lparr>qc_Concurrency = 1, qc_MaxRetries = 1, qc_BackoffMs = 1000, qc_DelayMs = 0, qc_RetentionMs = 3600000\<rparr>)],
     ts_tasks = [], ts_workers = [\<lparr>wk_queue = ''q'', wk_task = None\<rparr>], ts_cancelled = False, ts_closed = False\<rparr>"
  by (simp add: task_eval allocated_def)

lemma ex_run_reachable: "reachable (task_start 1 [] []) task_step ex_run"
proof -
  let ?r1 = "(task_start 1 [] [])\<lparr>tr_service := ex_created\<rparr>"
  let ?r2 = "?r1\<lparr>tr_service := ex_queued, tr_fresh := [(''t'', 1)]\<rparr>"
  have "task_step (task_start 1 [] []) ?r1"
    using task_step.create [of "task_start 1 [] []" False False 0 "''q''" ex_config]
    by (simp add: task_start_def ex_created_def newTaskQueueService_def)
  moreover have "task_step ?r1 ?r2"
    using task_step.enqueue [of ?r1 False 5 "''t''" "''q''" "''p''" ex_queued "snd (hd (ts_queues ex_created))"]
    by (simp add: task_start_def ex_queued_def Enqueue_def ex_created_eq maxPayloadSize_def)
  moreover have "task_step ?r2 ex_run"
    using task_step.start [of ?r2 0 False 6 ex_running "''t''" 1 1]
    by (simp add: task_start_def ex_run_def ex_running_def dequeue_def ex_queued_def Enqueue_def ex_created_eq maxPayloadSize_def
        runnable_def update_where_def set_status_def Let_def)
  ultimately show ?thesis by (meson reachable_start reachable_step)
qed

lemma ex_running_tasks:
  "ts_tasks ex_running = [\<lparr>tk_id = ''t'', tk_queue = ''q'', tk_payload = ''p'', tk_status = Running, tk_attempt = 1, tk_max_retries = 1,
     tk_next_run_at = 5, tk_created_at = 5, tk_updated_at = 6, tk_message = ''''\<rparr>]"
  "ts_workers ex_running = [\<lparr>wk_queue = ''q'', wk_task = Some (''t'', 1, 1)\<rparr>]" "\<not> ts_cancelled ex_running" "\<not> ts_closed ex_running"
  by (simp_all add: ex_running_def dequeue_def ex_queued_def Enqueue_def ex_created_eq maxPayloadSize_def
        runnable_def update_where_def set_status_def Let_def)

theorem task_queue_safe_witness:
  "executes ex_running 0 ''t'' \<and> \<not> executes ex_running 1 ''t'' \<and> \<not> executes ex_running 2 ''t'' \<and> int (length (ts_workers ex_running)) \<le> 1"
proof -
  have first: "executes ex_running 0 ''t''" by (simp add: executes_def ex_running_tasks)
  have safe: "(\<forall>i j taskID. executes ex_running i taskID \<longrightarrow> executes ex_running j taskID \<longrightarrow> i = j) \<and>
      int (length (ts_workers ex_running)) \<le> 1"
    using task_queue_safe [OF ex_run_reachable] by (simp add: ex_run_def)
  then have "executes ex_running i ''t'' \<Longrightarrow> i = 0" for i using first by blast
  then show ?thesis using first safe by fastforce
qed

lemma ex_ended_step: "task_step ex_run ex_ended"
  using task_step.stop [of 0 ex_run False 9 "''ok''" None] by (simp add: ex_ended_def ex_run_def ex_running_tasks)

lemma ex_ended_tasks:
  "ts_tasks (tr_service ex_ended) = [\<lparr>tk_id = ''t'', tk_queue = ''q'', tk_payload = ''p'', tk_status = Completed, tk_attempt = 1,
     tk_max_retries = 1, tk_next_run_at = 5, tk_created_at = 5, tk_updated_at = 9, tk_message = ''ok''\<rparr>]"
  by (simp add: ex_ended_def ex_run_def finish_def completeTask_def update_where_def set_status_def ex_running_tasks Let_def)

lemma task_terminal_kept_witness:
  "ts_tasks (tr_service (ex_ended\<lparr>tr_service := snd (Cancel False 10 ''t'' (tr_service ex_ended))\<rparr>)) = ts_tasks (tr_service ex_ended)"
proof -
  let ?c = "ex_ended\<lparr>tr_service := snd (Cancel False 10 ''t'' (tr_service ex_ended))\<rparr>"
  have nc: "\<not> ts_closed (tr_service ex_ended)" by (simp add: ex_ended_def ex_run_def ex_running_tasks)
  have st: "task_step ex_ended ?c" by (rule task_step.cancel [OF nc])
  have r: "reachable (task_start 1 [] []) task_step ex_ended" using ex_run_reachable ex_ended_step by (rule reachable_step)
  have "hd (ts_tasks (tr_service ex_ended)) \<in> set (ts_tasks (tr_service ?c)) \<or> ts_tasks (tr_service ?c) = ts_tasks (tr_service ex_ended)"
    using task_terminal_kept [OF r _ st, of "hd (ts_tasks (tr_service ex_ended))"]
    by (auto simp: Cancel_def ex_ended_tasks terminal_def Let_def find_task_def)
  then show ?thesis by (simp add: Cancel_def ex_ended_tasks Let_def find_task_def)
qed

lemma finish_outcome_witness:
  "\<exists>t \<in> set (ts_tasks (finish False 9 0 '''' (Some ''boom'') ex_running)). tk_status t = Pending \<and>
     runnable 1009 ''q'' t \<and> \<not> runnable 1008 ''q'' t"
proof -
  have w: "work_inv ex_running" using task_reachable_inv [OF ex_run_reachable] by (simp add: ex_run_def)
  have q: "qc_BackoffMs (the (map_of (ts_queues ex_running) ''q'')) = 1000"
    by (simp add: ex_running_def ex_queued_def Enqueue_def ex_created_eq maxPayloadSize_def)
  have b: "retry_backoff 1000 1 = 1000" by (simp add: retry_backoff_def maxBackoffMs_def)
  show ?thesis
    using finish_outcome [OF w _ _ ex_running_tasks(3), of 0 "''t''" 1 1 9 "''''" "Some ''boom''"]
    by (auto simp: ex_running_tasks q b)
qed

end
