(* ===== verification/Str_Util.thy ===== *)
theory Str_Util
  imports Prelude "HOL-Library.Sublist"
begin

text \<open>
  The string helpers of \<open>utils/str\<close>: the cleaning of punctuation, the removal of leading articles, the
  normal form fields are sorted and matched by, file names and the longest common prefix. Strings are
  bytes, so the characters that \<open>Clear\<close> replaces are listed by their UTF-8 encodings. The removal of
  accents is a third-party function and a parameter.
\<close>

section \<open>Definitions\<close>

text \<open>\<open>strings.NewReplacer(...).Replace\<close>, for keys none of which is a prefix of another.\<close>

function replace_all :: "(string \<times> string) list \<Rightarrow> string \<Rightarrow> string" where
  "replace_all tab [] = []"
| "replace_all tab (c # cs) =
     (case find (\<lambda>kv. has_prefix (c # cs) (fst kv)) tab of
        None \<Rightarrow> c # replace_all tab cs
      | Some kv \<Rightarrow> snd kv @ replace_all tab (drop (length (fst kv) - 1) cs))"
  by pat_completeness auto
termination by (relation "measure (\<lambda>(tab, s). length s)") auto

definition utf8ToAscii :: "(string \<times> string) list" where
  "utf8ToAscii =
     [([CHR 0xE2, CHR 0x80, CHR 0x98], [CHR 0x27]),
      ([CHR 0xE2, CHR 0x80, CHR 0x99], [CHR 0x27]),
      ([CHR 0xE2, CHR 0x80, CHR 0x9B], [CHR 0x27]),
      ([CHR 0xE2, CHR 0x80, CHR 0xB2], [CHR 0x27]),
      ([CHR 0xEF, CHR 0xBC, CHR 0x82], [CHR 0x22]),
      ([CHR 0xE3, CHR 0x80, CHR 0x83], [CHR 0x22]),
      ([CHR 0xCB, CHR 0xAE], [CHR 0x22]),
      ([CHR 0xD7, CHR 0xB2], [CHR 0x22]),
      ([CHR 0xE1, CHR 0xB3, CHR 0x93], [CHR 0x22]),
      ([CHR 0xE2, CHR 0x80, CHR 0xB3], [CHR 0x22]),
      ([CHR 0xE2, CHR 0x80, CHR 0xB6], [CHR 0x22]),
      ([CHR 0xCB, CHR 0xB6], [CHR 0x22]),
      ([CHR 0xCA, CHR 0xBA], [CHR 0x22]),
      ([CHR 0xE2, CHR 0x80, CHR 0x9C], [CHR 0x22]),
      ([CHR 0xE2, CHR 0x80, CHR 0x9D], [CHR 0x22]),
      ([CHR 0xCB, CHR 0x9D], [CHR 0x22]),
      ([CHR 0xE2, CHR 0x80, CHR 0x9F], [CHR 0x22]),
      ([CHR 0xE2, CHR 0x80, CHR 0x90], [CHR 0x2D]),
      ([CHR 0xE2, CHR 0x80, CHR 0x93], [CHR 0x2D]),
      ([CHR 0xE2, CHR 0x80, CHR 0x94], [CHR 0x2D]),
      ([CHR 0xE2, CHR 0x88, CHR 0x92], [CHR 0x2D]),
      ([CHR 0xE2, CHR 0x80, CHR 0x95], [CHR 0x2D])]"

definition Clear :: "string \<Rightarrow> string" where
  "Clear name = replace_all utf8ToAscii name"

text \<open>\<open>strings.TrimSpace\<close>, on ASCII white space.\<close>

definition trim_space :: "string \<Rightarrow> string" where
  "trim_space s = rev (dropWhile is_space (rev (dropWhile is_space s)))"

text \<open>\<open>strings.SplitSeq(s, sep)\<close> for a separator of one character.\<close>

fun split_on :: "char \<Rightarrow> string \<Rightarrow> string list" where
  "split_on sep [] = [[]]"
| "split_on sep (c # cs) =
     (if c = sep then [] # split_on sep cs
      else case split_on sep cs of [] \<Rightarrow> [[c]] | x # xs \<Rightarrow> (c # x) # xs)"

definition trim_prefix :: "string \<Rightarrow> string \<Rightarrow> string" where
  "trim_prefix s p = (if has_prefix s p then drop (length p) s else s)"

fun remove_first_article :: "string list \<Rightarrow> string \<Rightarrow> string" where
  "remove_first_article [] name = name"
| "remove_first_article (a # as) name =
     (let n = trim_prefix name (a @ '' '') in if n \<noteq> name then n else remove_first_article as name)"

definition RemoveArticle :: "string \<Rightarrow> string \<Rightarrow> string" where
  "RemoveArticle ignoredArticles name = remove_first_article (split_on (CHR '' '') ignoredArticles) name"

definition SanitizeFieldForSorting :: "(string \<Rightarrow> string) \<Rightarrow> string \<Rightarrow> string" where
  "SanitizeFieldForSorting accents originalValue =
     (let v = trim_space (accents originalValue) in Clear (go_lower v))"

definition SanitizeFieldForSortingNoArticle :: "(string \<Rightarrow> string) \<Rightarrow> string \<Rightarrow> string \<Rightarrow> string" where
  "SanitizeFieldForSortingNoArticle accents ignoredArticles originalValue =
     (let v = trim_space (accents originalValue)
      in Clear (go_lower (trim_space (RemoveArticle ignoredArticles v))))"

definition filenameReplacer :: "(string \<times> string) list" where
  "filenameReplacer = map (\<lambda>c. ([c], ''_'')) [CHR ''/'', CHR 0x5C, CHR '':'', CHR ''*'', CHR ''?'', CHR 0x22, CHR ''<'', CHR ''>'', CHR ''|'']"

definition SanitizeFilename :: "string \<Rightarrow> string" where
  "SanitizeFilename name = replace_all filenameReplacer name"

text \<open>The loop over the positions of the first string, for the strings that follow it.\<close>

function common_from :: "string \<Rightarrow> string list \<Rightarrow> nat \<Rightarrow> string" where
  "common_from s rest l =
     (if l < length s then
        (case find (\<lambda>t. length t \<le> l \<or> t ! l \<noteq> s ! l) rest of
           Some t \<Rightarrow> take l t
         | None \<Rightarrow> common_from s rest (Suc l))
      else s)"
  by pat_completeness auto
termination by (relation "measure (\<lambda>(s, rest, l). length s - l)") auto

declare common_from.simps [simp del]

fun LongestCommonPrefix :: "string list \<Rightarrow> string" where
  "LongestCommonPrefix [] = []"
| "LongestCommonPrefix (s # rest) = common_from s rest 0"

section \<open>Trimming\<close>

lemma trim_space_ends:
  assumes "trim_space s \<noteq> []" shows "\<not> is_space (hd (trim_space s))" "\<not> is_space (last (trim_space s))"
proof -
  define r where "r = dropWhile is_space s"
  have r: "trim_space s = rev (dropWhile is_space (rev r))" by (simp add: trim_space_def r_def)
  have ne: "dropWhile is_space (rev r) \<noteq> []" using assms r by simp
  then have "\<not> is_space (hd (dropWhile is_space (rev r)))" by (rule hd_dropWhile)
  then show "\<not> is_space (last (trim_space s))" using ne by (simp add: r last_rev)
  have "r \<noteq> []" using ne by auto
  then have h: "\<not> is_space (hd r)" unfolding r_def by (rule hd_dropWhile)
  have "r = trim_space s @ rev (takeWhile is_space (rev r))" unfolding r by (metis rev_append rev_rev_ident takeWhile_dropWhile_id)
  then have "hd (trim_space s) = hd r" using assms by (metis hd_append2)
  then show "\<not> is_space (hd (trim_space s))" using h by simp
qed

section \<open>Longest common prefix\<close>

lemma find_None_all: "find P xs = None \<longleftrightarrow> (\<forall>x \<in> set xs. \<not> P x)"
  by (induction xs) auto

lemma find_Some_elem: "find P xs = Some x \<Longrightarrow> x \<in> set xs \<and> P x"
  by (induction xs) (auto split: if_splits)

lemma take_of_prefix: "prefix (take l s) t \<Longrightarrow> l \<le> length s \<Longrightarrow> take l t = take l s"
  by (auto simp: prefix_def)

lemma prefix_take_Suc:
  assumes "prefix (take l s) t" and "l < length s" and "l < length t" and "t ! l = s ! l"
  shows "prefix (take (Suc l) s) t"
proof -
  have "take (Suc l) t = take (Suc l) s"
    using assms take_of_prefix [of l s t] by (simp add: take_Suc_conv_app_nth)
  then show ?thesis by (metis take_is_prefix)
qed

text \<open>While the loop runs, what was compared so far is a prefix of every string.\<close>

lemma common_from_prefix:
  assumes "l \<le> length s" and "\<forall>t \<in> set rest. prefix (take l s) t"
  shows "\<forall>t \<in> set (s # rest). prefix (common_from s rest l) t"
  using assms
proof (induction s rest l rule: common_from.induct)
  case (1 s rest l)
  have same: "take l t = take l s" if "t \<in> set rest" for t
    using "1.prems" that by (simp add: take_of_prefix)
  show ?case
  proof (cases "l < length s")
    case True
    show ?thesis
    proof (cases "find (\<lambda>t. length t \<le> l \<or> t ! l \<noteq> s ! l) rest")
      case None
      have ext: "\<forall>t \<in> set rest. prefix (take (Suc l) s) t"
        using None True "1.prems" by (auto simp: find_None_all intro!: prefix_take_Suc)
      have "\<forall>t \<in> set (s # rest). prefix (common_from s rest (Suc l)) t"
        by (rule "1.IH" [OF True None _ ext]) (use True in simp)
      then show ?thesis using True None by (subst common_from.simps) simp
    next
      case (Some u)
      then have "u \<in> set rest" using find_Some_elem by fast
      then have "common_from s rest l = take l s"
        using True Some same by (subst common_from.simps) simp
      then show ?thesis using "1.prems" by (simp add: take_is_prefix)
    qed
  next
    case False
    then show ?thesis using "1.prems" by (subst common_from.simps) simp
  qed
qed

lemma common_from_longest:
  assumes "l \<le> length s" and "\<forall>t \<in> set rest. prefix (take l s) t" and "\<forall>t \<in> set (s # rest). prefix p t"
  shows "prefix p (common_from s rest l)"
  using assms
proof (induction s rest l rule: common_from.induct)
  case (1 s rest l)
  have p: "prefix p s" using "1.prems"(3) by simp
  show ?case
  proof (cases "l < length s")
    case True
    show ?thesis
    proof (cases "find (\<lambda>t. length t \<le> l \<or> t ! l \<noteq> s ! l) rest")
      case None
      have ext: "\<forall>t \<in> set rest. prefix (take (Suc l) s) t"
        using None True "1.prems" by (auto simp: find_None_all intro!: prefix_take_Suc)
      have "prefix p (common_from s rest (Suc l))"
        by (intro "1.IH" [OF True None _ ext "1.prems"(3)]) (use True in simp)
      then show ?thesis using True None by (subst common_from.simps) simp
    next
      case (Some u)
      then have u: "u \<in> set rest" "length u \<le> l \<or> u ! l \<noteq> s ! l" using find_Some_elem by (fast, fastforce)
      then have "prefix p u" using "1.prems"(3) by simp
      then have "length p \<le> l"
        using u(2) p by (auto simp: prefix_def nth_append not_le split: if_splits)
      moreover have "take l u = take l s" using "1.prems" u(1) by (simp add: take_of_prefix)
      moreover have "common_from s rest l = take l u"
        using True Some by (subst common_from.simps) simp
      ultimately show ?thesis using p by (auto simp: prefix_def)
    qed
  next
    case False
    then show ?thesis using p by (subst common_from.simps) simp
  qed
qed

text \<open>The result is the longest string that all the strings start with.\<close>

lemma LongestCommonPrefix_spec:
  assumes "xs \<noteq> []"
  shows "prefix p (LongestCommonPrefix xs) \<longleftrightarrow> (\<forall>t \<in> set xs. prefix p t)"
proof (cases xs)
  case (Cons s rest)
  have "\<forall>t \<in> set (s # rest). prefix (common_from s rest 0) t" by (rule common_from_prefix) auto
  then show ?thesis
    using Cons common_from_longest [of 0 s rest p] by (auto intro: prefix_order.trans)
qed (use assms in simp)

section \<open>File names\<close>

lemma has_prefix_single: "has_prefix (c # cs) [k] \<longleftrightarrow> c = k"
  by (cases cs) auto

lemma replace_single:
  "replace_all (map (\<lambda>k. ([k], v)) ks) s = concat (map (\<lambda>c. if c \<in> set ks then v else [c]) s)"
proof (induction s)
  case (Cons c cs)
  have "find (\<lambda>kv. has_prefix (c # cs) (fst kv)) (map (\<lambda>k. ([k], v)) ks) = (if c \<in> set ks then Some ([c], v) else None)"
    by (induction ks) (auto simp: has_prefix_single)
  with Cons show ?case by simp
qed simp

text \<open>No separator of paths and no character that Windows refuses is left in a file name, and its length is kept.\<close>

lemma SanitizeFilename_safe:
  "set (SanitizeFilename name) \<inter> {CHR ''/'', CHR 0x5C, CHR '':'', CHR ''*'', CHR ''?'', CHR 0x22, CHR ''<'', CHR ''>'', CHR ''|''} = {} \<and>
   length (SanitizeFilename name) = length name"
  unfolding SanitizeFilename_def filenameReplacer_def replace_single
  by (induction name) auto

end
