(* ===== verification/Track_Matcher.thy ===== *)
theory Track_Matcher
  imports Str_Util Go_Float Media_Model "HOL-Library.Product_Lexorder"
begin

text \<open>
  The matching of songs named by external agents to tracks of the library
  (\<open>core/matcher/matcher.go\<close>): exact matches by ID, MusicBrainz recording and ISRC, then fuzzy matches by title among
  the tracks of the song's artists. The database queries, the configuration, the string metric and the
  hash of a song are the record \<open>matcher_env\<close>; a condition \<open>x IN (...)\<close> of a query depends only on the
  set of the values listed, which is what the queries are given. A Go map from the index of an input song
  is an association list, read with \<open>map_of\<close>; a map whose keys are visited in no particular order only to fill
  another map is a function.
\<close>

section \<open>Data\<close>

record Artist =
  ag_ID :: string
  ag_Name :: string
  ag_MBID :: string

record Song =
  sg_ID :: string
  sg_Name :: string
  sg_MBID :: string
  sg_ISRC :: string
  sg_Artists :: "Artist list"
  sg_Album :: string
  sg_AlbumMBID :: string
  sg_Duration :: nat

text \<open>The further fields of \<open>model.MediaFile\<close> the matcher reads; \<open>mf_RoleArtists\<close> are the IDs of the
  participants in the role artist.\<close>

record LibraryTrack = MediaFile +
  mf_Album :: string
  mf_MbzRecordingID :: string
  mf_MbzAlbumID :: string
  mf_ISRC :: "string list"
  mf_Starred :: bool
  mf_Rating :: int

record ArtistRow =
  ar_ID :: string
  ar_OrderArtistName :: string
  ar_MbzArtistID :: string

record matcher_env =
  get_by_ids :: "string set \<Rightarrow> string + LibraryTrack list"
  get_by_mbids :: "string set \<Rightarrow> string + LibraryTrack list"
  get_by_isrcs :: "string set \<Rightarrow> string + LibraryTrack list"
  get_artists :: "string set \<Rightarrow> string set \<Rightarrow> string set \<Rightarrow> string + ArtistRow list"
  get_credited :: "string set \<Rightarrow> string + LibraryTrack list"
  JaroWinkler :: "string \<Rightarrow> string \<Rightarrow> rat"
  accents :: "string \<Rightarrow> string"
  song_hash :: "Song \<Rightarrow> int"
  IgnoredArticles :: string
  FuzzyThreshold :: int
  PreferStarred :: bool

datatype matcher_error = FailedByID string | FailedByMBID string | FailedByISRC string | FailedByTitle string

type_synonym matches = "(nat \<times> LibraryTrack) list"

text \<open>An artist of a query, and the query itself; \<open>scoredTrack\<close> has the fields of the track it embeds.\<close>

record queryArtist =
  qa_id :: string
  qa_name :: string
  qa_mbid :: string

record songQuery =
  q_title :: string
  q_artists :: "queryArtist list"
  q_album :: string
  q_albumMBID :: string
  q_durationMs :: nat

record matchScore =
  titleSimilarity :: rat
  durationProximity :: rat
  preferredMatch :: bool
  specificityLevel :: int
  artistOverlap :: nat
  albumSimilarity :: rat

record sanitizedTrack =
  st_mf :: LibraryTrack
  st_title :: string
  st_artist :: string
  st_album :: string
  st_artistIDs :: "string set"
  st_artistMBIDs :: "string set"

record scoredTrack = sanitizedTrack +
  st_overlap :: nat

record resolvedArtists =
  ra_byQuery :: "(nat \<times> string) list"
  ra_mbid :: "(string \<times> string) list"
  ra_allIDs :: "string list"

record queryAccum =
  qc_overlap :: nat
  qc_ids :: "string set"
  qc_mbids :: "string set"

section \<open>Exact matches\<close>

definition Song_Equals :: "matcher_env \<Rightarrow> Song \<Rightarrow> Song \<Rightarrow> bool" where
  "Song_Equals env s other = (song_hash env s = song_hash env other)"

text \<open>The non-empty keys of the songs that no loader has matched yet, and the tracks filled in for them.\<close>

definition wanted :: "(Song \<Rightarrow> string) \<Rightarrow> Song list \<Rightarrow> matches \<Rightarrow> string list" where
  "wanted key songs result =
     [key s. (i, s) \<leftarrow> enumerate 0 songs, map_of result i = None, key s \<noteq> '''']"

fun fill :: "(Song \<Rightarrow> string) \<Rightarrow> (string \<times> LibraryTrack) list \<Rightarrow> (nat \<times> Song) list \<Rightarrow> matches \<Rightarrow> matches" where
  "fill key index [] result = result"
| "fill key index ((i, s) # songs) result =
     (if map_of result i \<noteq> None \<or> key s = '''' then fill key index songs result
      else case map_of index (key s) of
        None \<Rightarrow> fill key index songs result
      | Some mf \<Rightarrow> fill key index songs ((i, mf) # result))"

definition add_absent :: "string \<Rightarrow> LibraryTrack \<Rightarrow> (string \<times> LibraryTrack) list \<Rightarrow> (string \<times> LibraryTrack) list" where
  "add_absent k mf index = (if map_of index k = None then (k, mf) # index else index)"

definition index_by_id :: "LibraryTrack list \<Rightarrow> (string \<times> LibraryTrack) list" where
  "index_by_id res = fold (\<lambda>mf index. (mf_ID mf, mf) # index) res []"

definition index_by_mbid :: "LibraryTrack list \<Rightarrow> (string \<times> LibraryTrack) list" where
  "index_by_mbid res =
     fold (\<lambda>mf index. if mf_MbzRecordingID mf \<noteq> '''' then add_absent (mf_MbzRecordingID mf) mf index else index) res []"

definition index_by_isrc :: "LibraryTrack list \<Rightarrow> (string \<times> LibraryTrack) list" where
  "index_by_isrc res = fold (\<lambda>mf index. fold (\<lambda>isrc. add_absent isrc mf) (mf_ISRC mf) index) res []"

text \<open>\<open>matchByID\<close> starts from an empty result, so skipping the songs already matched skips none.\<close>

definition matchByID :: "matcher_env \<Rightarrow> Song list \<Rightarrow> matches \<Rightarrow> string + matches" where
  "matchByID env songs result =
     (let ids = filter (\<lambda>x. x \<noteq> '''') (map sg_ID songs) in
      if ids = [] then Inr result
      else case get_by_ids env (set ids) of
        Inl err \<Rightarrow> Inl err
      | Inr res \<Rightarrow>
          Inr (fold (\<lambda>(i, s) r. if sg_ID s = '''' then r
                                else case map_of (index_by_id res) (sg_ID s) of None \<Rightarrow> r | Some mf \<Rightarrow> (i, mf) # r)
                 (enumerate 0 songs) result))"

definition matchByMBID :: "matcher_env \<Rightarrow> Song list \<Rightarrow> matches \<Rightarrow> string + matches" where
  "matchByMBID env songs result =
     (let mbids = wanted sg_MBID songs result in
      if mbids = [] then Inr result
      else case get_by_mbids env (set mbids) of
        Inl err \<Rightarrow> Inl err
      | Inr res \<Rightarrow> Inr (fill sg_MBID (index_by_mbid res) (enumerate 0 songs) result))"

definition matchByISRC :: "matcher_env \<Rightarrow> Song list \<Rightarrow> matches \<Rightarrow> string + matches" where
  "matchByISRC env songs result =
     (let isrcs = wanted sg_ISRC songs result in
      if isrcs = [] then Inr result
      else case get_by_isrcs env (set isrcs) of
        Inl err \<Rightarrow> Inl err
      | Inr res \<Rightarrow> Inr (fill sg_ISRC (index_by_isrc res) (enumerate 0 songs) result))"

section \<open>Scores\<close>

definition similarityRatio :: "matcher_env \<Rightarrow> string \<Rightarrow> string \<Rightarrow> rat" where
  "similarityRatio env a b =
     (if a = b then 1 else if length a = 0 \<or> length b = 0 then 0 else JaroWinkler env a b)"

definition betterThan :: "matchScore \<Rightarrow> matchScore \<Rightarrow> bool" where
  "betterThan s other =
     (if titleSimilarity s \<noteq> titleSimilarity other then titleSimilarity s > titleSimilarity other
      else if durationProximity s \<noteq> durationProximity other then durationProximity s > durationProximity other
      else if specificityLevel s \<noteq> specificityLevel other then specificityLevel s > specificityLevel other
      else if artistOverlap s \<noteq> artistOverlap other then artistOverlap s > artistOverlap other
      else if preferredMatch s \<noteq> preferredMatch other then preferredMatch s
      else albumSimilarity s > albumSimilarity other)"

definition newSanitizedTrack :: "matcher_env \<Rightarrow> LibraryTrack \<Rightarrow> string set \<Rightarrow> string set \<Rightarrow> sanitizedTrack" where
  "newSanitizedTrack env mf artistIDs artistMBIDs =
     \<lparr>st_mf = mf, st_title = SanitizeFieldForSorting (accents env) (mf_Title mf),
      st_artist = SanitizeFieldForSortingNoArticle (accents env) (IgnoredArticles env) (mf_Artist mf),
      st_album = SanitizeFieldForSorting (accents env) (mf_Album mf),
      st_artistIDs = artistIDs, st_artistMBIDs = artistMBIDs\<rparr>"

definition artist_level :: "songQuery \<Rightarrow> 'a sanitizedTrack_scheme \<Rightarrow> bool \<Rightarrow> queryArtist \<Rightarrow> int" where
  "artist_level q t albumOK a =
     (let identity = (qa_id a \<noteq> '''' \<and> qa_id a \<in> st_artistIDs t) \<or> (qa_mbid a \<noteq> '''' \<and> qa_mbid a \<in> st_artistMBIDs t) in
      if identity \<and> q_albumMBID q \<noteq> '''' \<and> mf_MbzAlbumID (st_mf t) = q_albumMBID q then 5
      else if identity \<and> q_album q \<noteq> '''' \<and> albumOK then 4
      else if qa_name a \<noteq> '''' \<and> q_album q \<noteq> '''' \<and> st_artist t = qa_name a \<and> albumOK then 3
      else if identity then 2
      else if qa_name a \<noteq> '''' \<and> st_artist t = qa_name a then 1
      else 0)"

definition computeSpecificityLevel :: "matcher_env \<Rightarrow> songQuery \<Rightarrow> 'a sanitizedTrack_scheme \<Rightarrow> rat \<Rightarrow> int" where
  "computeSpecificityLevel env q t albumThreshold =
     (let albumOK = (q_album q \<noteq> '''' \<and> similarityRatio env (st_album t) (q_album q) \<ge> albumThreshold)
      in fold (\<lambda>a best. let level = artist_level q t albumOK a in if level > best then level else best) (q_artists q) 0)"

definition f64 :: "rat \<Rightarrow> rat" where
  "f64 = round_float 53"

definition duration_proximity :: "nat \<Rightarrow> rat \<Rightarrow> rat" where
  "duration_proximity durationMs mediaFileDurationSec =
     (if durationMs = 0 then 1
      else let durationSec = f64 (of_nat durationMs / 1000);
               diff = \<bar>f64 (durationSec - mediaFileDurationSec)\<bar>
           in f64 (1 / f64 (1 + diff)))"

definition isPreferredTrack :: "LibraryTrack \<Rightarrow> bool" where
  "isPreferredTrack mf = (mf_Starred mf \<or> mf_Rating mf \<ge> 4)"

definition title_similarity :: "matcher_env \<Rightarrow> songQuery \<Rightarrow> 'a sanitizedTrack_scheme \<Rightarrow> rat" where
  "title_similarity env q c = similarityRatio env (q_title q) (st_title c)"

definition score :: "matcher_env \<Rightarrow> songQuery \<Rightarrow> rat \<Rightarrow> scoredTrack \<Rightarrow> matchScore" where
  "score env q threshold c =
     \<lparr>titleSimilarity = title_similarity env q c,
      durationProximity = duration_proximity (q_durationMs q) (mf_Duration (st_mf c)),
      preferredMatch = (PreferStarred env \<and> isPreferredTrack (st_mf c)),
      specificityLevel = computeSpecificityLevel env q c threshold,
      artistOverlap = st_overlap c,
      albumSimilarity = (if q_album q \<noteq> '''' then similarityRatio env (q_album q) (st_album c) else 0)\<rparr>"

fun best_from :: "matcher_env \<Rightarrow> songQuery \<Rightarrow> rat \<Rightarrow> scoredTrack list \<Rightarrow> matchScore \<Rightarrow> LibraryTrack option \<Rightarrow> LibraryTrack option" where
  "best_from env q threshold [] bestScore bestMatch = bestMatch"
| "best_from env q threshold (c # candidates) bestScore bestMatch =
     (if title_similarity env q c < threshold then best_from env q threshold candidates bestScore bestMatch
      else if betterThan (score env q threshold c) bestScore
           then best_from env q threshold candidates (score env q threshold c) (Some (st_mf c))
      else best_from env q threshold candidates bestScore bestMatch)"

definition no_score :: matchScore where
  "no_score = \<lparr>titleSimilarity = - 1, durationProximity = 0, preferredMatch = False, specificityLevel = 0,
               artistOverlap = 0, albumSimilarity = 0\<rparr>"

definition findBestMatch :: "matcher_env \<Rightarrow> songQuery \<Rightarrow> scoredTrack list \<Rightarrow> rat \<Rightarrow> LibraryTrack option" where
  "findBestMatch env q candidates threshold = best_from env q threshold candidates no_score None"

section \<open>Matches by title\<close>

definition query_artists :: "matcher_env \<Rightarrow> Song \<Rightarrow> queryArtist list" where
  "query_artists env s =
     [\<lparr>qa_id = ag_ID a, qa_name = name, qa_mbid = ag_MBID a\<rparr>.
        a \<leftarrow> sg_Artists s, name \<leftarrow> [SanitizeFieldForSortingNoArticle (accents env) (IgnoredArticles env) (ag_Name a)],
        \<not> (ag_ID a = '''' \<and> name = '''' \<and> ag_MBID a = '''')]"

definition song_query :: "matcher_env \<Rightarrow> Song \<Rightarrow> songQuery" where
  "song_query env s =
     \<lparr>q_title = SanitizeFieldForSorting (accents env) (sg_Name s), q_artists = query_artists env s,
      q_album = SanitizeFieldForSorting (accents env) (sg_Album s), q_albumMBID = sg_AlbumMBID s,
      q_durationMs = sg_Duration s\<rparr>"

definition groupQueries :: "matcher_env \<Rightarrow> Song list \<Rightarrow> matches \<Rightarrow> (nat \<times> songQuery) list" where
  "groupQueries env songs result =
     [(i, song_query env s). (i, s) \<leftarrow> enumerate 0 songs, map_of result i = None, query_artists env s \<noteq> []]"

definition addToSet :: "(nat \<times> string) list \<Rightarrow> nat \<Rightarrow> string \<Rightarrow> (nat \<times> string) list" where
  "addToSet m k v = List.insert (k, v) m"

definition owned_directly :: "(nat \<times> songQuery) list \<Rightarrow> (nat \<times> string) list" where
  "owned_directly queries = [(i, qa_id a). (i, q) \<leftarrow> queries, a \<leftarrow> q_artists q, qa_id a \<noteq> '''']"

definition pendingArtists :: "(nat \<times> songQuery) list \<Rightarrow> (nat \<times> queryArtist) list" where
  "pendingArtists queries = [(i, a). (i, q) \<leftarrow> queries, a \<leftarrow> q_artists q, qa_id a = '''']"

definition nameToQueries :: "(nat \<times> queryArtist) list \<Rightarrow> string \<Rightarrow> nat list" where
  "nameToQueries pending name = [i. (i, a) \<leftarrow> pending, qa_name a \<noteq> '''', qa_name a = name]"

definition mbidToQueries :: "(nat \<times> queryArtist) list \<Rightarrow> string \<Rightarrow> nat list" where
  "mbidToQueries pending mbid = [i. (i, a) \<leftarrow> pending, qa_mbid a \<noteq> '''', qa_mbid a = mbid]"

definition own_row :: "(nat \<times> queryArtist) list \<Rightarrow> ArtistRow \<Rightarrow> (nat \<times> string) list \<Rightarrow> (nat \<times> string) list" where
  "own_row pending a byQuery =
     (let byQuery = fold (\<lambda>idx m. addToSet m idx (ar_ID a)) (nameToQueries pending (ar_OrderArtistName a)) byQuery
      in if ar_MbzArtistID a \<noteq> ''''
         then fold (\<lambda>idx m. addToSet m idx (ar_ID a)) (mbidToQueries pending (ar_MbzArtistID a)) byQuery
         else byQuery)"

definition resolveArtists :: "matcher_env \<Rightarrow> (nat \<times> songQuery) list \<Rightarrow> string + resolvedArtists" where
  "resolveArtists env queries =
     (let direct = owned_directly queries;
          byQuery = fold (\<lambda>(i, v) m. addToSet m i v) direct [];
          ids = remdups (map snd direct);
          pending = pendingArtists queries;
          names = [qa_name a. (i, a) \<leftarrow> pending, qa_name a \<noteq> ''''];
          mbids = [qa_mbid a. (i, a) \<leftarrow> pending, qa_mbid a \<noteq> '''']
      in if names = [] \<and> mbids = [] \<and> ids = [] then Inr \<lparr>ra_byQuery = byQuery, ra_mbid = [], ra_allIDs = ids\<rparr>
         else case get_artists env (set names) (set mbids) (set ids) of
           Inl err \<Rightarrow> Inl err
         | Inr artists \<Rightarrow>
             Inr \<lparr>ra_byQuery = fold (own_row pending) artists byQuery,
                  ra_mbid = fold (\<lambda>a m. (ar_ID a, ar_MbzArtistID a) # m) artists [],
                  ra_allIDs = fold (\<lambda>a. List.insert (ar_ID a)) artists ids\<rparr>)"

definition queriesByArtist :: "resolvedArtists \<Rightarrow> string \<Rightarrow> nat list" where
  "queriesByArtist r artist = [idx. (idx, v) \<leftarrow> ra_byQuery r, v = artist]"

definition credit :: "string \<Rightarrow> string \<Rightarrow> nat \<Rightarrow> (nat \<Rightarrow> queryAccum option) \<Rightarrow> (nat \<Rightarrow> queryAccum option)" where
  "credit p mbid idx acc =
     (let a = (case acc idx of None \<Rightarrow> \<lparr>qc_overlap = 0, qc_ids = {}, qc_mbids = {}\<rparr> | Some a \<Rightarrow> a)
      in acc(idx \<mapsto> \<lparr>qc_overlap = qc_overlap a + 1, qc_ids = insert p (qc_ids a),
                      qc_mbids = (if mbid \<noteq> '''' then insert mbid (qc_mbids a) else qc_mbids a)\<rparr>))"

fun accumulate :: "resolvedArtists \<Rightarrow> string list \<Rightarrow> string set \<Rightarrow> (nat \<Rightarrow> queryAccum option) \<Rightarrow> (nat \<Rightarrow> queryAccum option)" where
  "accumulate r [] credited acc = acc"
| "accumulate r (p # participants) credited acc =
     (if p \<in> credited \<or> queriesByArtist r p = [] then accumulate r participants credited acc
      else let mbid = (case map_of (ra_mbid r) p of None \<Rightarrow> '''' | Some m \<Rightarrow> m)
           in accumulate r participants (insert p credited) (fold (credit p mbid) (queriesByArtist r p) acc))"

definition bucketTracks :: "matcher_env \<Rightarrow> resolvedArtists \<Rightarrow> LibraryTrack list \<Rightarrow> nat \<Rightarrow> scoredTrack list" where
  "bucketTracks env r tracks idx =
     concat (map (\<lambda>mf. case accumulate r (mf_RoleArtists mf) {} (\<lambda>_. None) idx of
                None \<Rightarrow> []
              | Some a \<Rightarrow> [sanitizedTrack.extend (newSanitizedTrack env mf (qc_ids a) (qc_mbids a)) \<lparr>st_overlap = qc_overlap a\<rparr>])
            tracks)"

definition fetchTracksCreditedTo :: "matcher_env \<Rightarrow> string list \<Rightarrow> string + LibraryTrack list" where
  "fetchTracksCreditedTo env artistIDs = (if artistIDs = [] then Inr [] else get_credited env (set artistIDs))"

definition fuzzy_threshold :: "matcher_env \<Rightarrow> rat" where
  "fuzzy_threshold env = f64 (of_int (FuzzyThreshold env) / 100)"

definition matchByTitle :: "matcher_env \<Rightarrow> Song list \<Rightarrow> matches \<Rightarrow> string + matches" where
  "matchByTitle env songs result =
     (let queries = groupQueries env songs result in
      if queries = [] then Inr result
      else case resolveArtists env queries of
        Inl err \<Rightarrow> Inl err
      | Inr resolved \<Rightarrow>
          if ra_allIDs resolved = [] then Inr result
          else case fetchTracksCreditedTo env (ra_allIDs resolved) of
            Inl err \<Rightarrow> Inl err
          | Inr tracks \<Rightarrow>
              Inr (fold (\<lambda>(i, q) r.
                           case findBestMatch env q (bucketTracks env resolved tracks i) (fuzzy_threshold env) of
                             None \<Rightarrow> r | Some mf \<Rightarrow> (i, mf) # r)
                     queries result))"

section \<open>The matcher\<close>

definition resolveMatches :: "matcher_env \<Rightarrow> Song list \<Rightarrow> matcher_error + matches" where
  "resolveMatches env songs =
     (case matchByID env songs [] of
        Inl err \<Rightarrow> Inl (FailedByID err)
      | Inr r1 \<Rightarrow> (case matchByMBID env songs r1 of
          Inl err \<Rightarrow> Inl (FailedByMBID err)
        | Inr r2 \<Rightarrow> (case matchByISRC env songs r2 of
            Inl err \<Rightarrow> Inl (FailedByISRC err)
          | Inr r3 \<Rightarrow> (case matchByTitle env songs r3 of
              Inl err \<Rightarrow> if r3 = [] then Inl (FailedByTitle err) else Inr r3
            | Inr r4 \<Rightarrow> Inr r4))))"

fun order_from :: "matcher_env \<Rightarrow> Song list \<Rightarrow> matches \<Rightarrow> int \<Rightarrow> (nat \<times> Song) list \<Rightarrow> (string \<times> nat) list \<Rightarrow> LibraryTrack list \<Rightarrow> LibraryTrack list" where
  "order_from env songs matches limit [] addedBy mfs = mfs"
| "order_from env songs matches limit ((i, s) # rest) addedBy mfs =
     (if int (length mfs) = limit then mfs
      else case map_of matches i of
        None \<Rightarrow> order_from env songs matches limit rest addedBy mfs
      | Some mf \<Rightarrow>
          (case map_of addedBy (mf_ID mf) of
             Some prevIdx \<Rightarrow>
               if \<not> Song_Equals env s (songs ! prevIdx) then order_from env songs matches limit rest addedBy mfs
               else order_from env songs matches limit rest addedBy (mfs @ [mf])
           | None \<Rightarrow> order_from env songs matches limit rest ((mf_ID mf, i) # addedBy) (mfs @ [mf])))"

definition orderAndDedup :: "matcher_env \<Rightarrow> Song list \<Rightarrow> matches \<Rightarrow> int \<Rightarrow> LibraryTrack list" where
  "orderAndDedup env songs matches limit = order_from env songs matches limit (enumerate 0 songs) [] []"

definition MatchSongs :: "matcher_env \<Rightarrow> Song list \<Rightarrow> int \<Rightarrow> matcher_error + LibraryTrack list" where
  "MatchSongs env songs limit =
     (if length songs = 0 then Inr []
      else case resolveMatches env songs of
        Inl err \<Rightarrow> Inl err
      | Inr matches \<Rightarrow> Inr (orderAndDedup env songs matches limit))"

definition MatchSongsIndexed :: "matcher_env \<Rightarrow> Song list \<Rightarrow> matcher_error + matches" where
  "MatchSongsIndexed env songs = (if length songs = 0 then Inr [] else resolveMatches env songs)"

section \<open>The order of scores\<close>

text \<open>Scores compare as the tuples of their fields, in the order of importance the code gives them.\<close>

definition score_key :: "matchScore \<Rightarrow> rat \<times> rat \<times> int \<times> nat \<times> bool \<times> rat" where
  "score_key s = (titleSimilarity s, durationProximity s, specificityLevel s, artistOverlap s, preferredMatch s, albumSimilarity s)"

lemma betterThan_key: "betterThan s t \<longleftrightarrow> score_key t < score_key s"
  by (auto simp: betterThan_def score_key_def less_prod_simp)

definition eligible :: "matcher_env \<Rightarrow> songQuery \<Rightarrow> rat \<Rightarrow> scoredTrack list \<Rightarrow> scoredTrack list" where
  "eligible env q threshold candidates = filter (\<lambda>c. threshold \<le> title_similarity env q c) candidates"

lemma eligible_simps [simp]:
  "eligible env q t [] = []"
  "eligible env q t (c # cs) = (if t \<le> title_similarity env q c then c # eligible env q t cs else eligible env q t cs)"
  by (simp_all add: eligible_def)

text \<open>The loop keeps the best score so far, or replaces it by the first of the best ones that follow.\<close>

lemma best_from_cases:
  fixes env q threshold
  defines "key \<equiv> \<lambda>c. score_key (score env q threshold c)"
  shows "(\<forall>c \<in> set (eligible env q threshold cs). key c \<le> score_key best) \<and> best_from env q threshold cs best m = m \<or>
         (\<exists>xs c ys. eligible env q threshold cs = xs @ c # ys \<and> best_from env q threshold cs best m = Some (st_mf c) \<and>
            score_key best < key c \<and> (\<forall>x \<in> set xs. key x < key c) \<and> (\<forall>y \<in> set ys. key y \<le> key c))"
proof (induction cs arbitrary: best m)
  case (Cons c cs)
  consider (low) "title_similarity env q c < threshold"
    | (better) "threshold \<le> title_similarity env q c" "score_key best < key c"
    | (worse) "threshold \<le> title_similarity env q c" "key c \<le> score_key best"
    by fastforce
  then show ?case
  proof cases
    case low
    then show ?thesis using Cons.IH [of best m] by simp
  next
    case better
    have step: "best_from env q threshold (c # cs) best m = best_from env q threshold cs (score env q threshold c) (Some (st_mf c))"
      using better by (simp add: betterThan_key key_def)
    from Cons.IH [of "score env q threshold c" "Some (st_mf c)"] show ?thesis
    proof (elim disjE exE conjE)
      assume "\<forall>d \<in> set (eligible env q threshold cs). key d \<le> score_key (score env q threshold c)"
        and "best_from env q threshold cs (score env q threshold c) (Some (st_mf c)) = Some (st_mf c)"
      then show ?thesis
        using step better by (intro disjI2 exI [of _ "[]"] exI [of _ c] exI [of _ "eligible env q threshold cs"]) (simp add: key_def)
    next
      fix xs d ys
      assume "eligible env q threshold cs = xs @ d # ys" "best_from env q threshold cs (score env q threshold c) (Some (st_mf c)) = Some (st_mf d)"
        and "score_key (score env q threshold c) < key d" "\<forall>x \<in> set xs. key x < key d" "\<forall>y \<in> set ys. key y \<le> key d"
      then show ?thesis
        using step better by (intro disjI2 exI [of _ "c # xs"] exI [of _ d] exI [of _ ys]) (auto simp: key_def)
    qed
  next
    case worse
    have step: "best_from env q threshold (c # cs) best m = best_from env q threshold cs best m"
      using worse by (simp add: betterThan_key key_def leD)
    from Cons.IH [of best m] show ?thesis
    proof (elim disjE exE conjE)
      fix xs d ys
      assume "eligible env q threshold cs = xs @ d # ys" "best_from env q threshold cs best m = Some (st_mf d)"
        and "score_key best < key d" "\<forall>x \<in> set xs. key x < key d" "\<forall>y \<in> set ys. key y \<le> key d"
      then show ?thesis
        using step worse by (intro disjI2 exI [of _ "c # xs"] exI [of _ d] exI [of _ ys]) auto
    qed (use step worse in simp)
  qed
qed simp

lemma no_score_least:
  assumes "0 \<le> threshold" and "c \<in> set (eligible env q threshold cs)"
  shows "score_key no_score < score_key (score env q threshold c)"
  using assms by (auto simp: eligible_def score_key_def no_score_def score_def)

text \<open>
  The best match among the candidates is the first of those whose score is the largest,
  where scores compare by title similarity, then closeness of duration, specificity, number of shared
  artists, preference and album similarity, and only candidates that reach the threshold count; a match
  is found exactly when one of them does.
\<close>

lemma findBestMatch_best:
  assumes "0 \<le> threshold"
  shows "case findBestMatch env q candidates threshold of
           None \<Rightarrow> \<forall>c \<in> set candidates. title_similarity env q c < threshold
         | Some mf \<Rightarrow> \<exists>xs c ys. eligible env q threshold candidates = xs @ c # ys \<and> mf = st_mf c \<and>
             (\<forall>x \<in> set xs. score_key (score env q threshold x) < score_key (score env q threshold c)) \<and>
             (\<forall>y \<in> set ys. score_key (score env q threshold y) \<le> score_key (score env q threshold c))"
  using best_from_cases [of env q threshold candidates no_score None]
proof (elim disjE exE conjE)
  assume none: "\<forall>c \<in> set (eligible env q threshold candidates). score_key (score env q threshold c) \<le> score_key no_score"
    and "best_from env q threshold candidates no_score None = None"
  moreover have "eligible env q threshold candidates = []"
    using none no_score_least [OF assms] by (metis last_in_set leD)
  ultimately show ?thesis by (simp add: findBestMatch_def eligible_def filter_empty_conv not_le)
qed (auto simp: findBestMatch_def)

section \<open>Exact matches, in order of priority\<close>

text \<open>
  The three loaders build an index of the tracks found, by a key each track has one or several values of, and
  fill the songs in from it. What they rely on is the law of the index: looking a key up gives the first
  track, in the order the loader keeps, that has it.
\<close>

locale track_index =
  fixes index :: "LibraryTrack list \<Rightarrow> (string \<times> LibraryTrack) list"
    and keys :: "LibraryTrack \<Rightarrow> string set"
    and order :: "LibraryTrack list \<Rightarrow> LibraryTrack list"
  assumes lookup: "k \<noteq> '''' \<Longrightarrow> map_of (index res) k = find (\<lambda>mf. k \<in> keys mf) (order res)"
    and order_filter: "order (filter P res) = filter P (order res)"
begin

lemma fill_other:
  "map_of r i \<noteq> None \<Longrightarrow> map_of (fill key ix xs r) i = map_of r i"
  "i \<notin> fst ` set xs \<Longrightarrow> map_of (fill key ix xs r) i = map_of r i"
  by (induction key ix xs r rule: fill.induct) (auto split: option.splits)

lemma fill_lookup:
  assumes "(i, s) \<in> set xs" and "distinct (map fst xs)" and "map_of r i = None"
  shows "map_of (fill key (index res) xs r) i = (if key s = '''' then None else find (\<lambda>mf. key s \<in> keys mf) (order res))"
  using assms
proof (induction key "index res" xs r rule: fill.induct)
  case (2 key j t xs r)
  show ?case
  proof (cases "i = j")
    case True
    then have st: "s = t" and new: "i \<notin> fst ` set xs" using "2.prems" by (auto simp: rev_image_eqI)
    then show ?thesis using True "2.prems"(3) lookup [of "key t" res]
      by (auto simp: fill_other split: option.splits)
  next
    case False
    then show ?thesis using 2 by (auto split: option.splits)
  qed
qed simp

text \<open>With a result restricted to the keys asked for, the loader finds what it would find in the whole table.\<close>

lemma loader_lookup:
  assumes "i < length songs" and "map_of r i = None"
    and "key (songs ! i) \<noteq> '''' \<Longrightarrow> key (songs ! i) \<in> S"
  shows "map_of (fill key (index (filter (\<lambda>mf. keys mf \<inter> S \<noteq> {}) table)) (enumerate 0 songs) r) i =
         (if key (songs ! i) = '''' then None else find (\<lambda>mf. key (songs ! i) \<in> keys mf) (order table))"
proof -
  have here: "(i, songs ! i) \<in> set (enumerate 0 songs)" using assms(1) by (simp add: in_set_enumerate_eq)
  have d: "distinct (map fst (enumerate 0 songs))" by simp
  have whole: "find (\<lambda>mf. k \<in> keys mf) (filter (\<lambda>mf. keys mf \<inter> S \<noteq> {}) xs) = find (\<lambda>mf. k \<in> keys mf) xs"
    if "k \<in> S" for k and xs using that by (induction xs) auto
  show ?thesis using fill_lookup [OF here d assms(2)] whole assms(3) by (simp add: order_filter)
qed

end

lemma fold_add_absent:
  "map_of (fold (\<lambda>k. add_absent k mf) ks index) k = (case map_of index k of None \<Rightarrow> if k \<in> set ks then Some mf else None | Some m \<Rightarrow> Some m)"
  by (induction ks arbitrary: index) (auto simp: add_absent_def split: option.splits)

lemma find_append: "find P (xs @ ys) = (case find P xs of None \<Rightarrow> find P ys | Some x \<Rightarrow> Some x)"
  by (induction xs) auto

lemma index_by_id_lookup:
  "map_of (fold (\<lambda>mf index. (mf_ID mf, mf) # index) res index) k =
   (case find (\<lambda>mf. k = mf_ID mf) (rev res) of None \<Rightarrow> map_of index k | Some mf \<Rightarrow> Some mf)"
  by (induction res arbitrary: index) (auto simp: find_append split: option.splits)

lemma index_by_mbid_lookup:
  "k \<noteq> '''' \<Longrightarrow>
   map_of (fold (\<lambda>mf index. if mf_MbzRecordingID mf \<noteq> '''' then add_absent (mf_MbzRecordingID mf) mf index else index) res index) k =
   (case map_of index k of None \<Rightarrow> find (\<lambda>mf. k = mf_MbzRecordingID mf) res | Some mf \<Rightarrow> Some mf)"
  by (induction res arbitrary: index) (auto simp: add_absent_def split: option.splits)

lemma index_by_isrc_lookup:
  "map_of (fold (\<lambda>mf index. fold (\<lambda>isrc. add_absent isrc mf) (mf_ISRC mf) index) res index) k =
   (case map_of index k of None \<Rightarrow> find (\<lambda>mf. k \<in> set (mf_ISRC mf)) res | Some mf \<Rightarrow> Some mf)"
  by (induction res arbitrary: index) (auto simp: fold_add_absent split: option.splits)

interpretation by_id: track_index index_by_id "\<lambda>mf. {mf_ID mf}" rev
  by unfold_locales (auto simp: index_by_id_def index_by_id_lookup rev_filter split: option.splits)

interpretation by_mbid: track_index index_by_mbid "\<lambda>mf. {mf_MbzRecordingID mf}" "\<lambda>res. res"
  by unfold_locales (auto simp: index_by_mbid_def index_by_mbid_lookup)

interpretation by_isrc: track_index index_by_isrc "\<lambda>mf. set (mf_ISRC mf)" "\<lambda>res. res"
  by unfold_locales (auto simp: index_by_isrc_def index_by_isrc_lookup)

text \<open>The first loader fills an empty result, so it is the same loop.\<close>

lemma matchByID_fill:
  assumes "fst ` set xs \<inter> fst ` set r = {}" and "distinct (map fst xs)"
  shows "fold (\<lambda>(i, s) r. if sg_ID s = '''' then r else case map_of ix (sg_ID s) of None \<Rightarrow> r | Some mf \<Rightarrow> (i, mf) # r) xs r =
         fill sg_ID ix xs r"
  using assms
proof (induction xs arbitrary: r)
  case (Cons x xs)
  obtain i s where x: "x = (i, s)" by (cases x)
  have "map_of r i = None" using Cons.prems(1) x by (auto simp: map_of_eq_None_iff)
  then show ?case using Cons x by (auto split: option.splits)
qed simp

text \<open>
  What the database promises: the tables of the tracks that are not missing, in the order of the table and in the order
  of preference the queries ask for, and the table of artists.
\<close>

definition serves :: "matcher_env \<Rightarrow> LibraryTrack list \<Rightarrow> LibraryTrack list \<Rightarrow> ArtistRow list \<Rightarrow> bool" where
  "serves env lib ranked artists \<longleftrightarrow>
     (\<forall>S. get_by_ids env S = Inr (filter (\<lambda>mf. mf_ID mf \<in> S) lib)) \<and>
     (\<forall>S. get_by_mbids env S = Inr (filter (\<lambda>mf. mf_MbzRecordingID mf \<in> S) lib)) \<and>
     (\<forall>S. get_by_isrcs env S = Inr (filter (\<lambda>mf. set (mf_ISRC mf) \<inter> S \<noteq> {}) ranked)) \<and>
     (\<forall>N M I rows. get_artists env N M I = Inr rows \<longrightarrow> set rows \<subseteq> set artists)"

definition exact_match :: "LibraryTrack list \<Rightarrow> LibraryTrack list \<Rightarrow> Song \<Rightarrow> LibraryTrack option" where
  "exact_match lib ranked s =
     (case (if sg_ID s = '''' then None else find (\<lambda>mf. mf_ID mf = sg_ID s) (rev lib)) of
        Some mf \<Rightarrow> Some mf
      | None \<Rightarrow> (case (if sg_MBID s = '''' then None else find (\<lambda>mf. mf_MbzRecordingID mf = sg_MBID s) lib) of
          Some mf \<Rightarrow> Some mf
        | None \<Rightarrow> (if sg_ISRC s = '''' then None else find (\<lambda>mf. sg_ISRC s \<in> set (mf_ISRC mf)) ranked)))"

lemma find_eq_sym: "find (\<lambda>x. f x = k) xs = find (\<lambda>x. k = f x) xs"
  by (induction xs) auto

lemma wanted_mem:
  "i < length songs \<Longrightarrow> map_of r i = None \<Longrightarrow> key (songs ! i) \<noteq> '''' \<Longrightarrow> key (songs ! i) \<in> set (wanted key songs r)"
  by (force simp: wanted_def in_set_enumerate_eq)

text \<open>Every loader returns, keeps what is matched and adds its own matches for the rest.\<close>

definition filled :: "Song list \<Rightarrow> (Song \<Rightarrow> LibraryTrack option) \<Rightarrow> matches \<Rightarrow> matches \<Rightarrow> bool" where
  "filled songs look r r' \<longleftrightarrow>
     (\<forall>i < length songs. map_of r' i = (case map_of r i of Some mf \<Rightarrow> Some mf | None \<Rightarrow> look (songs ! i)))"

lemma matchByID_filled:
  assumes "serves env lib ranked artists"
  shows "\<exists>r. matchByID env songs [] = Inr r \<and>
             filled songs (\<lambda>s. if sg_ID s = '''' then None else find (\<lambda>mf. mf_ID mf = sg_ID s) (rev lib)) [] r"
proof -
  let ?ids = "filter (\<lambda>x. x \<noteq> '''') (map sg_ID songs)"
  have mem: "i < length songs \<Longrightarrow> sg_ID (songs ! i) \<noteq> '''' \<Longrightarrow> sg_ID (songs ! i) \<in> set ?ids" for i by force
  show ?thesis
  proof (cases "?ids = []")
    case True
    then have "filled songs (\<lambda>s. if sg_ID s = '''' then None else find (\<lambda>mf. mf_ID mf = sg_ID s) (rev lib)) [] []"
      using mem unfolding filled_def by fastforce
    then show ?thesis using True by (simp add: matchByID_def Let_def)
  next
    case False
    have "matchByID env songs [] = Inr (fill sg_ID (index_by_id (filter (\<lambda>mf. {mf_ID mf} \<inter> set ?ids \<noteq> {}) lib)) (enumerate 0 songs) [])"
      using False assms by (simp add: matchByID_def serves_def matchByID_fill del: set_filter)
    moreover have "filled songs (\<lambda>s. if sg_ID s = '''' then None else find (\<lambda>mf. mf_ID mf = sg_ID s) (rev lib)) []
        (fill sg_ID (index_by_id (filter (\<lambda>mf. {mf_ID mf} \<inter> set ?ids \<noteq> {}) lib)) (enumerate 0 songs) [])"
      unfolding filled_def using by_id.loader_lookup [of _ songs "[]" sg_ID "set ?ids" lib] mem
      by (simp add: find_eq_sym)
    ultimately show ?thesis by blast
  qed
qed

lemma matchByMBID_filled:
  assumes "serves env lib ranked artists"
  shows "\<exists>r'. matchByMBID env songs r = Inr r' \<and>
              filled songs (\<lambda>s. if sg_MBID s = '''' then None else find (\<lambda>mf. mf_MbzRecordingID mf = sg_MBID s) lib) r r'"
proof (cases "wanted sg_MBID songs r = []")
  case True
  then have "filled songs (\<lambda>s. if sg_MBID s = '''' then None else find (\<lambda>mf. mf_MbzRecordingID mf = sg_MBID s) lib) r r"
    using wanted_mem [of _ songs r sg_MBID] unfolding filled_def by (auto split: option.splits)
  then show ?thesis using True by (simp add: matchByMBID_def)
next
  case False
  let ?r' = "fill sg_MBID (index_by_mbid (filter (\<lambda>mf. {mf_MbzRecordingID mf} \<inter> set (wanted sg_MBID songs r) \<noteq> {}) lib)) (enumerate 0 songs) r"
  have "matchByMBID env songs r = Inr ?r'" using False assms by (simp add: matchByMBID_def serves_def)
  moreover have "filled songs (\<lambda>s. if sg_MBID s = '''' then None else find (\<lambda>mf. mf_MbzRecordingID mf = sg_MBID s) lib) r ?r'"
    unfolding filled_def
    using by_mbid.loader_lookup [of _ songs r sg_MBID "set (wanted sg_MBID songs r)" lib] wanted_mem [of _ songs r sg_MBID]
    by (auto simp: find_eq_sym by_mbid.fill_other simp del: Int_insert_left split: option.splits)
  ultimately show ?thesis by blast
qed

lemma matchByISRC_filled:
  assumes "serves env lib ranked artists"
  shows "\<exists>r'. matchByISRC env songs r = Inr r' \<and>
              filled songs (\<lambda>s. if sg_ISRC s = '''' then None else find (\<lambda>mf. sg_ISRC s \<in> set (mf_ISRC mf)) ranked) r r'"
proof (cases "wanted sg_ISRC songs r = []")
  case True
  then have "filled songs (\<lambda>s. if sg_ISRC s = '''' then None else find (\<lambda>mf. sg_ISRC s \<in> set (mf_ISRC mf)) ranked) r r"
    using wanted_mem [of _ songs r sg_ISRC] unfolding filled_def by (auto split: option.splits)
  then show ?thesis using True by (simp add: matchByISRC_def)
next
  case False
  let ?r' = "fill sg_ISRC (index_by_isrc (filter (\<lambda>mf. set (mf_ISRC mf) \<inter> set (wanted sg_ISRC songs r) \<noteq> {}) ranked)) (enumerate 0 songs) r"
  have "matchByISRC env songs r = Inr ?r'" using False assms by (simp add: matchByISRC_def serves_def)
  moreover have "filled songs (\<lambda>s. if sg_ISRC s = '''' then None else find (\<lambda>mf. sg_ISRC s \<in> set (mf_ISRC mf)) ranked) r ?r'"
    unfolding filled_def
    using by_isrc.loader_lookup [of _ songs r sg_ISRC "set (wanted sg_ISRC songs r)" ranked] wanted_mem [of _ songs r sg_ISRC]
    by (auto simp: by_isrc.fill_other split: option.splits)
  ultimately show ?thesis by blast
qed

text \<open>The result of the three exact loaders.\<close>

lemma exact_phases:
  assumes "serves env lib ranked artists"
  obtains r1 r2 r3 where "matchByID env songs [] = Inr r1" and "matchByMBID env songs r1 = Inr r2"
    and "matchByISRC env songs r2 = Inr r3"
    and "\<forall>i < length songs. map_of r3 i = exact_match lib ranked (songs ! i)"
proof -
  obtain r1 where 1: "matchByID env songs [] = Inr r1"
    "filled songs (\<lambda>s. if sg_ID s = '''' then None else find (\<lambda>mf. mf_ID mf = sg_ID s) (rev lib)) [] r1"
    using matchByID_filled [OF assms, of songs] by blast
  obtain r2 where 2: "matchByMBID env songs r1 = Inr r2"
    "filled songs (\<lambda>s. if sg_MBID s = '''' then None else find (\<lambda>mf. mf_MbzRecordingID mf = sg_MBID s) lib) r1 r2"
    using matchByMBID_filled [OF assms, of songs r1] by blast
  obtain r3 where 3: "matchByISRC env songs r2 = Inr r3"
    "filled songs (\<lambda>s. if sg_ISRC s = '''' then None else find (\<lambda>mf. sg_ISRC s \<in> set (mf_ISRC mf)) ranked) r2 r3"
    using matchByISRC_filled [OF assms, of songs r2] by blast
  have "map_of r3 i = exact_match lib ranked (songs ! i)" if "i < length songs" for i
    using that 1(2) 2(2) 3(2) by (simp add: filled_def exact_match_def split: option.splits)
  then show ?thesis using that 1(1) 2(1) 3(1) by blast
qed

section \<open>The artists of a track\<close>

lemma set_queriesByArtist: "idx \<in> set (queriesByArtist r p) \<longleftrightarrow> (idx, p) \<in> set (ra_byQuery r)"
  by (auto simp: queriesByArtist_def)

lemma distinct_queriesByArtist: "distinct (ra_byQuery r) \<Longrightarrow> distinct (queriesByArtist r p)"
proof -
  have "distinct xs \<Longrightarrow> distinct [idx. (idx, v) \<leftarrow> xs, v = p]" for xs :: "(nat \<times> string) list"
    by (induction xs) (auto split: prod.splits)
  then show "distinct (ra_byQuery r) \<Longrightarrow> distinct (queriesByArtist r p)" by (simp add: queriesByArtist_def)
qed

definition no_accum :: queryAccum where
  "no_accum = \<lparr>qc_overlap = 0, qc_ids = {}, qc_mbids = {}\<rparr>"

definition accum :: "queryAccum option \<Rightarrow> queryAccum" where
  "accum a = (case a of None \<Rightarrow> no_accum | Some a \<Rightarrow> a)"

lemma fold_credit:
  assumes "distinct is"
  shows "fold (credit p mbid) is acc idx =
         (if idx \<in> set is
          then Some \<lparr>qc_overlap = qc_overlap (accum (acc idx)) + 1, qc_ids = insert p (qc_ids (accum (acc idx))),
                     qc_mbids = qc_mbids (accum (acc idx)) \<union> (if mbid \<noteq> '''' then {mbid} else {})\<rparr>
          else acc idx)"
  using assms
  by (induction "is" arbitrary: acc) (auto simp: credit_def Let_def accum_def no_accum_def split: option.splits)

text \<open>The artists of the track, among those not counted yet, that a query owns.\<close>

definition shared :: "resolvedArtists \<Rightarrow> string list \<Rightarrow> string set \<Rightarrow> nat \<Rightarrow> string set" where
  "shared r ps credited idx = {p \<in> set ps - credited. (idx, p) \<in> set (ra_byQuery r)}"

lemma shared_Cons:
  "shared r (p # ps) credited idx =
   (if p \<in> credited \<or> (idx, p) \<notin> set (ra_byQuery r) then shared r ps credited idx
    else insert p (shared r ps (insert p credited) idx))"
  by (auto simp: shared_def)

lemma finite_shared [simp]: "finite (shared r ps credited idx)"
  by (simp add: shared_def)

lemma shared_insert: "p \<notin> shared r ps (insert p credited) idx"
  by (simp add: shared_def)

lemma shared_insert_other: "(idx, p) \<notin> set (ra_byQuery r) \<Longrightarrow> shared r ps (insert p credited) idx = shared r ps credited idx"
  by (auto simp: shared_def)

text \<open>The overlap a track gets for a query is the number of distinct artists of the query it credits.\<close>

lemma accumulate_overlap:
  assumes "distinct (ra_byQuery r)"
  shows "if shared r ps credited idx = {} then accumulate r ps credited acc idx = acc idx
         else \<exists>a. accumulate r ps credited acc idx = Some a \<and>
                qc_overlap a = qc_overlap (accum (acc idx)) + card (shared r ps credited idx) \<and>
                qc_ids a = qc_ids (accum (acc idx)) \<union> shared r ps credited idx"
  using assms
proof (induction r ps credited acc rule: accumulate.induct)
  case (1 r credited acc)
  then show ?case by (simp add: shared_def)
next
  case (2 r p ps credited acc)
  show ?case
  proof (cases "p \<in> credited \<or> queriesByArtist r p = []")
    case True
    then have "p \<in> credited \<or> (idx, p) \<notin> set (ra_byQuery r)" using set_queriesByArtist [of idx r p] by auto
    then show ?thesis using 2(1) [OF True "2.prems"] True by (simp add: shared_Cons)
  next
    case False
    define mbid where "mbid = (case map_of (ra_mbid r) p of None \<Rightarrow> '''' | Some m \<Rightarrow> m)"
    define acc' where "acc' = fold (credit p mbid) (queriesByArtist r p) acc"
    have step: "accumulate r (p # ps) credited acc = accumulate r ps (insert p credited) acc'"
      using False by (simp add: mbid_def acc'_def)
    note IH = 2(2) [OF False mbid_def "2.prems", folded acc'_def]
    show ?thesis
    proof (cases "(idx, p) \<in> set (ra_byQuery r)")
      case True
      then have "acc' idx = Some \<lparr>qc_overlap = qc_overlap (accum (acc idx)) + 1, qc_ids = insert p (qc_ids (accum (acc idx))),
          qc_mbids = qc_mbids (accum (acc idx)) \<union> (if mbid \<noteq> '''' then {mbid} else {})\<rparr>"
        using fold_credit [OF distinct_queriesByArtist [OF "2.prems"]] by (simp add: acc'_def set_queriesByArtist)
      then show ?thesis
        using IH True False step by (auto simp: shared_Cons accum_def shared_insert split: if_splits)
    next
      case other: False
      then have "acc' idx = acc idx"
        using fold_credit [OF distinct_queriesByArtist [OF "2.prems"]] by (simp add: acc'_def set_queriesByArtist)
      moreover have "shared r (p # ps) credited idx = shared r ps (insert p credited) idx"
        using other by (simp add: shared_Cons shared_insert_other)
      ultimately show ?thesis using IH by (simp only: step)
    qed
  qed
qed

section \<open>Matches by title are tracks of the song's artists\<close>

lemma distinct_addToSet: "distinct m \<Longrightarrow> distinct (addToSet m k v)"
  by (simp add: addToSet_def)

lemma set_addToSet [simp]: "set (addToSet m k v) = insert (k, v) (set m)"
  by (simp add: addToSet_def)

lemma fold_addToSet:
  "distinct m \<Longrightarrow> distinct (fold (\<lambda>idx m. addToSet m idx v) is m)"
  "set (fold (\<lambda>idx m. addToSet m idx v) is m) = set m \<union> (\<lambda>idx. (idx, v)) ` set is"
  by (induction "is" arbitrary: m) (auto simp: distinct_addToSet)

lemma fold_addToSet_pairs:
  "distinct m \<Longrightarrow> distinct (fold (\<lambda>(i, v) m. addToSet m i v) ps m)"
  "set (fold (\<lambda>(i, v) m. addToSet m i v) ps m) = set m \<union> set ps"
  by (induction ps arbitrary: m) (auto simp: distinct_addToSet)

text \<open>A pending artist is resolved by a row of the artist table with its sanitized name or its MusicBrainz ID.\<close>

definition row_names :: "ArtistRow \<Rightarrow> queryArtist \<Rightarrow> bool" where
  "row_names row a \<longleftrightarrow> (qa_name a \<noteq> '''' \<and> ar_OrderArtistName row = qa_name a) \<or> (qa_mbid a \<noteq> '''' \<and> ar_MbzArtistID row = qa_mbid a)"

lemma set_nameToQueries: "i \<in> set (nameToQueries pending n) \<longleftrightarrow> (\<exists>a. (i, a) \<in> set pending \<and> qa_name a \<noteq> '''' \<and> n = qa_name a)"
  by (auto simp: nameToQueries_def)

lemma set_mbidToQueries: "i \<in> set (mbidToQueries pending n) \<longleftrightarrow> (\<exists>a. (i, a) \<in> set pending \<and> qa_mbid a \<noteq> '''' \<and> n = qa_mbid a)"
  by (auto simp: mbidToQueries_def)

lemma own_row_set:
  "(i, v) \<in> set (own_row pending row m) \<longleftrightarrow> (i, v) \<in> set m \<or> (v = ar_ID row \<and> (\<exists>a. (i, a) \<in> set pending \<and> row_names row a))"
  by (auto simp: own_row_def Let_def fold_addToSet set_nameToQueries set_mbidToQueries row_names_def image_iff)

lemma own_rows_distinct: "distinct m \<Longrightarrow> distinct (fold (own_row pending) rows m)"
  by (induction rows arbitrary: m) (simp_all add: own_row_def Let_def fold_addToSet)

lemma own_rows:
  "(i, v) \<in> set (fold (own_row pending) rows m) \<longleftrightarrow>
     (i, v) \<in> set m \<or> (\<exists>row \<in> set rows. v = ar_ID row \<and> (\<exists>a. (i, a) \<in> set pending \<and> row_names row a))"
  by (induction rows arbitrary: m) (auto simp: own_row_set)

text \<open>An artist of a query owns its own ID, or the rows of the table that name it.\<close>

definition resolves :: "ArtistRow list \<Rightarrow> queryArtist \<Rightarrow> string \<Rightarrow> bool" where
  "resolves artists a v \<longleftrightarrow>
     (if qa_id a \<noteq> '''' then v = qa_id a else \<exists>row \<in> set artists. ar_ID row = v \<and> row_names row a)"

lemma resolveArtists_sound:
  assumes "resolveArtists env queries = Inr r" and "serves env lib ranked artists"
  shows "distinct (ra_byQuery r)"
    and "(i, v) \<in> set (ra_byQuery r) \<Longrightarrow> \<exists>q a. (i, q) \<in> set queries \<and> a \<in> set (q_artists q) \<and> resolves artists a v"
proof -
  let ?m = "fold (\<lambda>(i, v) m. addToSet m i v) (owned_directly queries) []"
  obtain rows where byq: "ra_byQuery r = fold (own_row (pendingArtists queries)) rows ?m" and rows: "set rows \<subseteq> set artists"
  proof (cases "ra_byQuery r = ?m")
    case True
    then show ?thesis using that [of "[]"] by simp
  next
    case False
    then show ?thesis using assms that by (auto simp: resolveArtists_def Let_def serves_def split: if_splits sum.splits)
  qed
  show "distinct (ra_byQuery r)" using byq by (simp add: own_rows_distinct fold_addToSet_pairs)
  assume "(i, v) \<in> set (ra_byQuery r)"
  then consider "(i, v) \<in> set (owned_directly queries)"
    | row a where "row \<in> set rows" "v = ar_ID row" "(i, a) \<in> set (pendingArtists queries)" "row_names row a"
    using byq by (auto simp: own_rows fold_addToSet_pairs)
  then show "\<exists>q a. (i, q) \<in> set queries \<and> a \<in> set (q_artists q) \<and> resolves artists a v"
  proof cases
    case 1
    then obtain q a where "(i, q) \<in> set queries" "a \<in> set (q_artists q)" "qa_id a \<noteq> ''''" "v = qa_id a"
      by (auto simp: owned_directly_def)
    then show ?thesis by (auto simp: resolves_def)
  next
    case 2
    then obtain q where "(i, q) \<in> set queries" "a \<in> set (q_artists q)" "qa_id a = ''''"
      by (auto simp: pendingArtists_def)
    with 2 rows show ?thesis by (auto simp: resolves_def)
  qed
qed

lemma bucketTracks_sound:
  assumes "c \<in> set (bucketTracks env r tracks i)" and "distinct (ra_byQuery r)"
  shows "st_mf c \<in> set tracks \<and> st_title c = SanitizeFieldForSorting (accents env) (mf_Title (st_mf c)) \<and>
         st_overlap c = card (shared r (mf_RoleArtists (st_mf c)) {} i) \<and> shared r (mf_RoleArtists (st_mf c)) {} i \<noteq> {}"
proof -
  obtain mf a where mf: "mf \<in> set tracks" and a: "accumulate r (mf_RoleArtists mf) {} (\<lambda>_. None) i = Some a"
    and c: "c = sanitizedTrack.extend (newSanitizedTrack env mf (qc_ids a) (qc_mbids a)) \<lparr>st_overlap = qc_overlap a\<rparr>"
  proof -
    obtain mf where mf: "mf \<in> set tracks" and c: "c \<in> set (case accumulate r (mf_RoleArtists mf) {} (\<lambda>_. None) i of
                None \<Rightarrow> []
              | Some a \<Rightarrow> [sanitizedTrack.extend (newSanitizedTrack env mf (qc_ids a) (qc_mbids a)) \<lparr>st_overlap = qc_overlap a\<rparr>])"
      using assms(1) by (auto simp: bucketTracks_def)
    then show ?thesis by (cases "accumulate r (mf_RoleArtists mf) {} (\<lambda>_. None) i") (auto intro: that)
  qed
  have "shared r (mf_RoleArtists mf) {} i \<noteq> {} \<and> qc_overlap a = card (shared r (mf_RoleArtists mf) {} i)"
    using accumulate_overlap [OF assms(2), of "mf_RoleArtists mf" "{}" i "\<lambda>_. None"] a
    by (auto simp: accum_def no_accum_def split: if_splits)
  then show ?thesis using mf c by (simp add: sanitizedTrack.extend_def newSanitizedTrack_def)
qed

lemma findBestMatch_candidate:
  assumes "findBestMatch env q candidates threshold = Some mf"
  shows "\<exists>c \<in> set candidates. st_mf c = mf \<and> threshold \<le> title_similarity env q c"
proof -
  have "best_from env q threshold cs best m = Some mf \<Longrightarrow>
        m = Some mf \<or> (\<exists>c \<in> set cs. st_mf c = mf \<and> threshold \<le> title_similarity env q c)" for cs best m
    by (induction cs arbitrary: best m) (fastforce split: if_splits)+
  then show ?thesis using assms by (auto simp: findBestMatch_def)
qed

lemma fold_matches:
  assumes "map_of (fold (\<lambda>(i, q) r. case f i q of None \<Rightarrow> r | Some mf \<Rightarrow> (i, mf) # r) queries r) i = Some mf"
  shows "map_of r i = Some mf \<or> (\<exists>q. (i, q) \<in> set queries \<and> f i q = Some mf)"
  using assms by (induction queries arbitrary: r) (fastforce split: option.splits if_splits)+

lemma fold_matches_other:
  "i \<notin> fst ` set queries \<Longrightarrow>
   map_of (fold (\<lambda>(i, q) r. case f i q of None \<Rightarrow> r | Some mf \<Rightarrow> (i, mf) # r) queries r) i = map_of r i"
  by (induction queries arbitrary: r) (auto split: option.splits)

lemma set_groupQueries:
  "(i, q) \<in> set (groupQueries env songs r) \<longleftrightarrow>
   i < length songs \<and> map_of r i = None \<and> q = song_query env (songs ! i) \<and> query_artists env (songs ! i) \<noteq> []"
  by (auto simp: groupQueries_def in_set_enumerate_eq)

lemma matchByTitle_keeps:
  assumes "matchByTitle env songs r = Inr r'" and "map_of r i = Some mf"
  shows "map_of r' i = Some mf"
proof -
  have "i \<notin> fst ` set (groupQueries env songs r)" using assms(2) by (auto simp: set_groupQueries)
  then show ?thesis
    using assms by (auto simp: matchByTitle_def Let_def fold_matches_other split: if_splits sum.splits)
qed

text \<open>A match by title: the track credits an artist the song names, and its title is close enough.\<close>

definition title_match :: "matcher_env \<Rightarrow> ArtistRow list \<Rightarrow> Song \<Rightarrow> LibraryTrack \<Rightarrow> bool" where
  "title_match env artists s mf \<longleftrightarrow>
     (\<exists>a \<in> set (query_artists env s). \<exists>v \<in> set (mf_RoleArtists mf). resolves artists a v) \<and>
     fuzzy_threshold env \<le> similarityRatio env (SanitizeFieldForSorting (accents env) (sg_Name s))
                             (SanitizeFieldForSorting (accents env) (mf_Title mf))"

lemma matchByTitle_sound:
  assumes "matchByTitle env songs r = Inr r'" and "serves env lib ranked artists"
    and "map_of r i = None" and "map_of r' i = Some mf"
  shows "i < length songs \<and> title_match env artists (songs ! i) mf"
proof -
  let ?qs = "groupQueries env songs r"
  obtain res tracks where res: "resolveArtists env ?qs = Inr res"
    and r': "r' = fold (\<lambda>(i, q) r. case findBestMatch env q (bucketTracks env res tracks i) (fuzzy_threshold env) of
                                      None \<Rightarrow> r | Some mf \<Rightarrow> (i, mf) # r) ?qs r"
    using assms by (auto simp: matchByTitle_def Let_def split: if_splits sum.splits)
  obtain q where q: "(i, q) \<in> set ?qs" "findBestMatch env q (bucketTracks env res tracks i) (fuzzy_threshold env) = Some mf"
    using fold_matches [OF assms(4) [unfolded r']] assms(3) by auto
  have i: "i < length songs" and q_def: "q = song_query env (songs ! i)" using q(1) by (auto simp: set_groupQueries)
  obtain c where c: "c \<in> set (bucketTracks env res tracks i)" "st_mf c = mf" "fuzzy_threshold env \<le> title_similarity env q c"
    using findBestMatch_candidate [OF q(2)] by blast
  note sound = bucketTracks_sound [OF c(1) resolveArtists_sound(1) [OF res assms(2)]]
  then obtain v where v: "v \<in> set (mf_RoleArtists mf)" "(i, v) \<in> set (ra_byQuery res)"
    using c(2) by (auto simp: shared_def)
  obtain q' a where "(i, q') \<in> set ?qs" "a \<in> set (q_artists q')" "resolves artists a v"
    using resolveArtists_sound(2) [OF res assms(2) v(2)] by blast
  then have "a \<in> set (query_artists env (songs ! i))" "resolves artists a v"
    by (auto simp: set_groupQueries song_query_def)
  then show ?thesis
    using i v(1) c(2, 3) sound by (auto simp: title_match_def title_similarity_def q_def song_query_def)
qed

section \<open>The result as a whole\<close>

text \<open>
  C25 (functional): over a library that answers, every song with an exact match gets it, by ID before
  MusicBrainz recording before ISRC, even when the search by title fails; every other match is a track
  that credits an artist of the song and whose title reaches the threshold. The only error left is a
  failed search by title when no song has an exact match.
\<close>

theorem resolveMatches_priority:
  assumes "serves env lib ranked artists"
  shows "(\<forall>s \<in> set songs. exact_match lib ranked s = None) \<and> (\<exists>err. resolveMatches env songs = Inl (FailedByTitle err)) \<or>
         (\<exists>r. resolveMatches env songs = Inr r \<and>
            (\<forall>i < length songs. case exact_match lib ranked (songs ! i) of
               Some mf \<Rightarrow> map_of r i = Some mf
             | None \<Rightarrow> (\<forall>mf. map_of r i = Some mf \<longrightarrow> title_match env artists (songs ! i) mf)))"
proof -
  obtain r1 r2 r3 where 1: "matchByID env songs [] = Inr r1" and 2: "matchByMBID env songs r1 = Inr r2"
    and 3: "matchByISRC env songs r2 = Inr r3"
    and exact: "\<forall>i < length songs. map_of r3 i = exact_match lib ranked (songs ! i)"
    by (rule exact_phases [OF assms, of songs])
  show ?thesis
  proof (cases "matchByTitle env songs r3")
    case (Inl err)
    show ?thesis
    proof (cases "r3 = []")
      case True
      then have "\<forall>s \<in> set songs. exact_match lib ranked s = None" using exact by (fastforce simp: in_set_conv_nth)
      then show ?thesis using 1 2 3 Inl True by (simp add: resolveMatches_def)
    next
      case False
      then have "resolveMatches env songs = Inr r3" using 1 2 3 Inl by (simp add: resolveMatches_def)
      then show ?thesis using exact by (auto split: option.split)
    qed
  next
    case (Inr r4)
    then have "resolveMatches env songs = Inr r4" using 1 2 3 by (simp add: resolveMatches_def)
    moreover have "case exact_match lib ranked (songs ! i) of
        Some mf \<Rightarrow> map_of r4 i = Some mf
      | None \<Rightarrow> (\<forall>mf. map_of r4 i = Some mf \<longrightarrow> title_match env artists (songs ! i) mf)" if i: "i < length songs" for i
      using exact i matchByTitle_keeps [OF Inr, of i] matchByTitle_sound [OF Inr assms, of i]
      by (auto split: option.split)
    ultimately show ?thesis by blast
  qed
qed

text \<open>The index of the first song that was matched to a track, and the songs whose match is kept.\<close>

definition first_added :: "matches \<Rightarrow> string \<Rightarrow> nat \<Rightarrow> nat option" where
  "first_added matches track i = find (\<lambda>j. map_option mf_ID (map_of matches j) = Some track) [0..<i]"

definition kept :: "matcher_env \<Rightarrow> Song list \<Rightarrow> matches \<Rightarrow> nat \<Rightarrow> bool" where
  "kept env songs matches i =
     (case map_of matches i of
        None \<Rightarrow> False
      | Some mf \<Rightarrow> (case first_added matches (mf_ID mf) i of
          None \<Rightarrow> True
        | Some j \<Rightarrow> Song_Equals env (songs ! i) (songs ! j)))"

definition kept_tracks :: "matcher_env \<Rightarrow> Song list \<Rightarrow> matches \<Rightarrow> nat \<Rightarrow> LibraryTrack list" where
  "kept_tracks env songs matches n = map (\<lambda>i. the (map_of matches i)) (filter (kept env songs matches) [0..<n])"

lemma first_added_Suc:
  "first_added matches t (Suc i) =
   (case first_added matches t i of
      Some j \<Rightarrow> Some j
    | None \<Rightarrow> if map_option mf_ID (map_of matches i) = Some t then Some i else None)"
  by (auto simp: first_added_def find_append split: option.split)

lemma kept_tracks_Suc:
  "kept_tracks env songs matches (Suc i) =
   kept_tracks env songs matches i @ (if kept env songs matches i then [the (map_of matches i)] else [])"
  by (simp add: kept_tracks_def)

lemma kept_tracks_grow: "i \<le> n \<Longrightarrow> \<exists>zs. kept_tracks env songs matches n = kept_tracks env songs matches i @ zs"
proof (induction n)
  case (Suc n)
  then show ?case by (cases "i = Suc n") (auto simp: kept_tracks_Suc le_Suc_eq)
qed simp

text \<open>The loop has added the kept tracks so far, and remembers for every track the first song it was added for.\<close>

lemma order_from_kept:
  assumes "drop i songs = rest" and "i \<le> length songs"
    and "\<And>t. map_of addedBy t = first_added matches t i"
    and "limit < 0 \<or> length (kept_tracks env songs matches i) \<le> nat limit"
  shows "order_from env songs matches limit (enumerate i rest) addedBy (kept_tracks env songs matches i) =
         (if limit < 0 then kept_tracks env songs matches (length songs)
          else take (nat limit) (kept_tracks env songs matches (length songs)))"
  using assms
proof (induction rest arbitrary: i addedBy)
  case Nil
  then have "i = length songs" by simp
  then show ?case using Nil.prems(4) by auto
next
  case (Cons s rest)
  let ?mfs = "kept_tracks env songs matches i"
  have i: "i < length songs" using Cons.prems(1, 2) by (cases "i = length songs") auto
  have s: "s = songs ! i" and rest: "drop (Suc i) songs = rest"
    using Cons.prems(1) i by (auto simp: Cons_nth_drop_Suc [symmetric])
  show ?case
  proof (cases "int (length ?mfs) = limit")
    case True
    obtain zs where "kept_tracks env songs matches (length songs) = ?mfs @ zs"
      using kept_tracks_grow [of i "length songs"] i by (metis less_imp_le)
    moreover have "length ?mfs = nat limit" and "\<not> limit < 0" using True by linarith+
    ultimately have "take (nat limit) (kept_tracks env songs matches (length songs)) = ?mfs" by simp
    then show ?thesis using True by (auto simp: enumerate_simps)
  next
    case False
    have room: "limit < 0 \<or> Suc (length ?mfs) \<le> nat limit" using False Cons.prems(4) by linarith
    then have bound: "limit < 0 \<or> length (kept_tracks env songs matches (Suc i)) \<le> nat limit"
      by (auto simp: kept_tracks_Suc)
    note IH = Cons.IH [OF rest Suc_leI [OF i] _ bound]
    show ?thesis
    proof (cases "map_of matches i")
      case None
      then have "kept_tracks env songs matches (Suc i) = ?mfs" by (simp add: kept_tracks_Suc kept_def)
      moreover have "map_of addedBy t = first_added matches t (Suc i)" for t
        using Cons.prems(3) None by (simp add: first_added_Suc split: option.split)
      ultimately show ?thesis using IH [of addedBy] None False by simp
    next
      case (Some mf)
      show ?thesis
      proof (cases "first_added matches (mf_ID mf) i")
        case None
        then have "kept_tracks env songs matches (Suc i) = ?mfs @ [mf]" using Some by (simp add: kept_tracks_Suc kept_def)
        moreover have "map_of ((mf_ID mf, i) # addedBy) t = first_added matches t (Suc i)" for t
          using Cons.prems(3) None Some by (auto simp: first_added_Suc split: option.split)
        ultimately show ?thesis using IH [of "(mf_ID mf, i) # addedBy"] None Some False Cons.prems(3) by simp
      next
        case (Some j)
        then have "kept_tracks env songs matches (Suc i) = ?mfs @ (if Song_Equals env s (songs ! j) then [mf] else [])"
          using \<open>map_of matches i = Some mf\<close> s by (simp add: kept_tracks_Suc kept_def)
        moreover have "map_of addedBy t = first_added matches t (Suc i)" for t
          using Cons.prems(3) Some \<open>map_of matches i = Some mf\<close> by (auto simp: first_added_Suc split: option.split)
        ultimately show ?thesis using IH [of addedBy] Some \<open>map_of matches i = Some mf\<close> False Cons.prems(3)
          by (auto split: if_splits)
      qed
    qed
  qed
qed

text \<open>
  The list of results is what its description says: the matches of the songs in the
  order of the songs, each track once, for the first song matched to it, and again only for songs equal to that one; cut
  off after the number asked for, and not at all when that is negative.
\<close>

lemma orderAndDedup_spec:
  "orderAndDedup env songs matches limit =
   (let all = map (\<lambda>i. the (map_of matches i)) (filter (kept env songs matches) [0..<length songs])
    in if limit < 0 then all else take (nat limit) all)"
proof -
  have "order_from env songs matches limit (enumerate 0 (drop 0 songs)) [] (kept_tracks env songs matches 0) =
         (if limit < 0 then kept_tracks env songs matches (length songs)
          else take (nat limit) (kept_tracks env songs matches (length songs)))"
    by (rule order_from_kept) (auto simp: first_added_def kept_tracks_def)
  then show ?thesis by (simp add: orderAndDedup_def kept_tracks_def Let_def)
qed

section \<open>Examples\<close>

definition ex_track :: "string \<Rightarrow> string \<Rightarrow> LibraryTrack" where
  "ex_track i mbid = MediaFile.extend (zero_MediaFile\<lparr>mf_ID := i\<rparr>)
     \<lparr>mf_Album = '''', mf_MbzRecordingID = mbid, mf_MbzAlbumID = '''', mf_ISRC = [], mf_Starred = False, mf_Rating = 0\<rparr>"

definition ex_env :: "LibraryTrack list \<Rightarrow> matcher_env" where
  "ex_env lib =
     \<lparr>get_by_ids = \<lambda>S. Inr (filter (\<lambda>mf. mf_ID mf \<in> S) lib), get_by_mbids = \<lambda>S. Inr (filter (\<lambda>mf. mf_MbzRecordingID mf \<in> S) lib),
      get_by_isrcs = \<lambda>S. Inr (filter (\<lambda>mf. set (mf_ISRC mf) \<inter> S \<noteq> {}) lib), get_artists = \<lambda>_ _ _. Inl ''down'',
      get_credited = \<lambda>_. Inl ''down'', JaroWinkler = \<lambda>_ _. 0, accents = \<lambda>s. s, song_hash = \<lambda>_. 0, IgnoredArticles = ''The'',
      FuzzyThreshold = 85, PreferStarred = False\<rparr>"

definition ex_candidate :: "string \<Rightarrow> nat \<Rightarrow> scoredTrack" where
  "ex_candidate i n =
     \<lparr>st_mf = ex_track i '''', st_title = ''song'', st_artist = ''band'', st_album = '''', st_artistIDs = {}, st_artistMBIDs = {}, st_overlap = n\<rparr>"

definition ex_query :: songQuery where
  "ex_query = \<lparr>q_title = ''song'', q_artists = [], q_album = '''', q_albumMBID = '''', q_durationMs = 0\<rparr>"

definition ex_wanted :: Song where
  "ex_wanted = \<lparr>sg_ID = ''gone'', sg_Name = ''Song'', sg_MBID = ''m'', sg_ISRC = '''', sg_Artists = [], sg_Album = '''', sg_AlbumMBID = '''', sg_Duration = 0\<rparr>"

lemma findBestMatch_best_witness:
  "findBestMatch (ex_env []) ex_query [ex_candidate ''a'' 1, ex_candidate ''b'' 2, ex_candidate ''c'' 2] (1 / 2) = Some (ex_track ''b'' '''') \<and>
   (\<exists>xs c ys. eligible (ex_env []) ex_query (1 / 2) [ex_candidate ''a'' 1, ex_candidate ''b'' 2, ex_candidate ''c'' 2] = xs @ c # ys \<and>
      ex_track ''b'' '''' = st_mf c \<and>
      (\<forall>x \<in> set xs. score_key (score (ex_env []) ex_query (1 / 2) x) < score_key (score (ex_env []) ex_query (1 / 2) c)) \<and>
      (\<forall>y \<in> set ys. score_key (score (ex_env []) ex_query (1 / 2) y) \<le> score_key (score (ex_env []) ex_query (1 / 2) c)))"
proof -
  have found: "findBestMatch (ex_env []) ex_query [ex_candidate ''a'' 1, ex_candidate ''b'' 2, ex_candidate ''c'' 2] (1 / 2) = Some (ex_track ''b'' '''')"
    by (simp add: findBestMatch_def title_similarity_def similarityRatio_def ex_query_def ex_candidate_def betterThan_def score_def
        no_score_def duration_proximity_def computeSpecificityLevel_def ex_env_def)
  then show ?thesis
    using findBestMatch_best [where threshold = "1 / 2" and env = "ex_env []" and q = ex_query and candidates = "[ex_candidate ''a'' 1, ex_candidate ''b'' 2, ex_candidate ''c'' 2]"] by simp
qed

theorem resolveMatches_priority_witness:
  "serves (ex_env [ex_track ''a'' ''m'']) [ex_track ''a'' ''m''] [ex_track ''a'' ''m''] [] \<and>
   (\<exists>r. resolveMatches (ex_env [ex_track ''a'' ''m'']) [ex_wanted] = Inr r \<and> map_of r 0 = Some (ex_track ''a'' ''m''))"
proof -
  let ?lib = "[ex_track ''a'' ''m'']"
  have serves: "serves (ex_env ?lib) ?lib ?lib []" by (simp add: serves_def ex_env_def)
  have exact: "exact_match ?lib ?lib ex_wanted = Some (ex_track ''a'' ''m'')"
    by (simp add: exact_match_def ex_wanted_def ex_track_def MediaFile.extend_def zero_MediaFile_def)
  show ?thesis using resolveMatches_priority [OF serves, of "[ex_wanted]"] serves exact by auto
qed

end
