(* ===== verification/Criteria.thy ===== *)
theory Criteria
  imports Str_Util "HOL-Library.List_Lexorder" "HOL-Library.Char_ord"
begin

text \<open>
  The criteria of smart playlists (\<open>model/criteria\<close>): the fields that rules may name, the rules and groups of rules,
  how they are read from JSON and written back, the limit and the order of the result, and the playlists a
  criteria refers to. A JSON text is the tree of its values, with the last of repeated keys of an object kept, as Go
  decodes it into a map; an integer is written without fraction or exponent. A Go map is an association list
  with distinct keys: the functions follow the order of the list, where Go visits the keys in any order. Rules are
  written with the names of fields as they are, so names are without quotes, backslashes and control characters.
\<close>

section \<open>Data\<close>

datatype json = JNull | JBool bool | JNum rat | JStr string | JArr "json list" | JObj "(string \<times> json) list"

record FieldInfo =
  fi_Alias :: string
  fi_IsTag :: bool
  fi_IsRole :: bool
  fi_Numeric :: bool
  fi_Boolean :: bool
  fi_Nullable :: bool
  fi_tagAlias :: string
  fi_name :: string

type_synonym field_map = "(string \<times> FieldInfo) list"

datatype operator = Is | IsNot | Gt | Lt | Before | After | Contains | NotContains | StartsWith | EndsWith
  | InTheRange | InTheLast | NotInTheLast | InPlaylist | NotInPlaylist | IsMissing | IsPresent

datatype Expression = All "Expression list" | Any "Expression list" | Rule operator "(string \<times> json) list"

record Criteria =
  cr_Expression :: "Expression option"
  cr_Sort :: string
  cr_Order :: string
  cr_Limit :: int
  cr_LimitPercent :: int
  cr_Offset :: int
  cr_RefreshDelay :: int

datatype criteria_error = BadJSON | InvalidKey string | BothGroups | MissingRules | BadRefreshDelay string | InvalidLength string nat

section \<open>Fields\<close>

definition plain :: FieldInfo where
  "plain = \<lparr>fi_Alias = '''', fi_IsTag = False, fi_IsRole = False, fi_Numeric = False, fi_Boolean = False,
            fi_Nullable = False, fi_tagAlias = '''', fi_name = ''''\<rparr>"

definition fieldMap :: field_map where
  "fieldMap =
     [(''title'', plain), (''album'', plain\<lparr>fi_Nullable := True\<rparr>),
      (''hascoverart'', plain\<lparr>fi_Boolean := True\<rparr>), (''tracknumber'', plain), (''discnumber'', plain),
      (''year'', plain), (''date'', plain\<lparr>fi_tagAlias := ''recordingdate''\<rparr>), (''originalyear'', plain),
      (''originaldate'', plain), (''releaseyear'', plain), (''releasedate'', plain), (''size'', plain),
      (''compilation'', plain\<lparr>fi_Boolean := True\<rparr>),
      (''missing'', plain\<lparr>fi_Boolean := True\<rparr>),
      (''explicitstatus'', plain\<lparr>fi_Nullable := True\<rparr>), (''dateadded'', plain),
      (''datemodified'', plain), (''discsubtitle'', plain\<lparr>fi_Nullable := True\<rparr>),
      (''comment'', plain\<lparr>fi_Nullable := True\<rparr>), (''lyrics'', plain\<lparr>fi_Nullable := True\<rparr>),
      (''sorttitle'', plain\<lparr>fi_Nullable := True\<rparr>),
      (''sortalbum'', plain\<lparr>fi_Nullable := True\<rparr>),
      (''sortartist'', plain\<lparr>fi_Nullable := True\<rparr>),
      (''sortalbumartist'', plain\<lparr>fi_Nullable := True\<rparr>),
      (''albumcomment'', plain\<lparr>fi_Nullable := True\<rparr>),
      (''catalognumber'', plain\<lparr>fi_Nullable := True\<rparr>), (''filepath'', plain), (''filetype'', plain),
      (''codec'', plain), (''duration'', plain), (''bitrate'', plain),
      (''bitdepth'', plain\<lparr>fi_Numeric := True, fi_Nullable := True\<rparr>), (''samplerate'', plain),
      (''bpm'', plain\<lparr>fi_Numeric := True, fi_Nullable := True\<rparr>), (''channels'', plain),
      (''loved'', plain\<lparr>fi_Boolean := True\<rparr>), (''dateloved'', plain), (''lastplayed'', plain),
      (''daterated'', plain), (''playcount'', plain), (''rating'', plain),
      (''averagerating'', plain\<lparr>fi_Numeric := True\<rparr>), (''albumrating'', plain),
      (''albumloved'', plain\<lparr>fi_Boolean := True\<rparr>), (''albumplaycount'', plain),
      (''albumlastplayed'', plain), (''albumdateloved'', plain), (''albumdaterated'', plain),
      (''albumdateadded'', plain), (''albumdatemodified'', plain), (''albumduration'', plain),
      (''albumsongcount'', plain), (''albumsize'', plain), (''artistrating'', plain),
      (''artistloved'', plain\<lparr>fi_Boolean := True\<rparr>), (''artistplaycount'', plain),
      (''artistlastplayed'', plain), (''artistdateloved'', plain), (''artistdaterated'', plain),
      (''mbz_album_id'', plain\<lparr>fi_Nullable := True\<rparr>),
      (''mbz_album_artist_id'', plain\<lparr>fi_Nullable := True\<rparr>),
      (''mbz_artist_id'', plain\<lparr>fi_Nullable := True\<rparr>),
      (''mbz_recording_id'', plain\<lparr>fi_Nullable := True\<rparr>),
      (''mbz_release_track_id'', plain\<lparr>fi_Nullable := True\<rparr>),
      (''mbz_release_group_id'', plain\<lparr>fi_Nullable := True\<rparr>),
      (''rgalbumgain'', plain\<lparr>fi_Numeric := True, fi_Nullable := True\<rparr>),
      (''rgalbumpeak'', plain\<lparr>fi_Numeric := True, fi_Nullable := True\<rparr>),
      (''rgtrackgain'', plain\<lparr>fi_Numeric := True, fi_Nullable := True\<rparr>),
      (''rgtrackpeak'', plain\<lparr>fi_Numeric := True, fi_Nullable := True\<rparr>),
      (''library_id'', plain\<lparr>fi_Numeric := True\<rparr>),
      (''albumtype'', plain\<lparr>fi_Alias := ''releasetype'', fi_IsTag := True\<rparr>),
      (''replaygain_album_gain'', plain\<lparr>fi_Alias := ''rgalbumgain'', fi_Numeric := True, fi_Nullable := True\<rparr>),
      (''replaygain_album_peak'', plain\<lparr>fi_Alias := ''rgalbumpeak'', fi_Numeric := True, fi_Nullable := True\<rparr>),
      (''replaygain_track_gain'', plain\<lparr>fi_Alias := ''rgtrackgain'', fi_Numeric := True, fi_Nullable := True\<rparr>),
      (''replaygain_track_peak'', plain\<lparr>fi_Alias := ''rgtrackpeak'', fi_Numeric := True, fi_Nullable := True\<rparr>),
      (''random'', plain)]"

definition AllFieldNames :: "field_map \<Rightarrow> string list" where
  "AllFieldNames fm = map fst fm"

definition LookupField :: "field_map \<Rightarrow> string \<Rightarrow> FieldInfo option" where
  "LookupField fm name =
     (let key = go_lower name in
      case map_of fm key of
        None \<Rightarrow> None
      | Some f \<Rightarrow> Some (f\<lparr>fi_name := if fi_Alias f \<noteq> '''' then fi_Alias f else key\<rparr>))"

text \<open>The field map is a variable of the package, which the configuration extends at start-up. New entries
  go to the end; \<open>AddNumericTags\<close> changes an entry in place.\<close>

definition AddRoles :: "string list \<Rightarrow> field_map \<Rightarrow> field_map" where
  "AddRoles roles fm =
     fold (\<lambda>role fm. let name = go_lower role in
             if map_of fm name \<noteq> None then fm else fm @ [(name, plain\<lparr>fi_IsRole := True\<rparr>)]) roles fm"

definition AddTagNames :: "string list \<Rightarrow> field_map \<Rightarrow> field_map" where
  "AddTagNames tagNames fm =
     fold (\<lambda>tagName fm. let name = go_lower tagName in
             if map_of fm name \<noteq> None then fm
             else case find (\<lambda>(key, f). fi_tagAlias f = name) fm of
               Some (key, f) \<Rightarrow> fm @ [(name, f\<lparr>fi_Alias := key, fi_tagAlias := ''''\<rparr>)]
             | None \<Rightarrow> fm @ [(name, plain\<lparr>fi_IsTag := True\<rparr>)]) tagNames fm"

definition AddNumericTags :: "string list \<Rightarrow> field_map \<Rightarrow> field_map" where
  "AddNumericTags tagNames fm =
     fold (\<lambda>tagName fm. let name = go_lower tagName in
             case map_of fm name of
               Some f \<Rightarrow> map (\<lambda>(k, g). if k = name then (k, g\<lparr>fi_Numeric := True\<rparr>) else (k, g)) fm
             | None \<Rightarrow> fm @ [(name, plain\<lparr>fi_IsTag := True, fi_Numeric := True\<rparr>)]) tagNames fm"

section \<open>Reading and writing rules\<close>

definition parse_bool :: "string \<Rightarrow> bool option" where
  "parse_bool s =
     (if s \<in> {''1'', ''t'', ''T'', ''TRUE'', ''true'', ''True''} then Some True
      else if s \<in> {''0'', ''f'', ''F'', ''FALSE'', ''false'', ''False''} then Some False
      else None)"

fun ToBool :: "json \<Rightarrow> bool option" where
  "ToBool (JBool b) = Some b"
| "ToBool (JStr s) = parse_bool s"
| "ToBool (JNum q) = (if q = 1 then Some True else if q = 0 then Some False else None)"
| "ToBool _ = None"

definition normalizeBoolValue :: "json \<Rightarrow> json" where
  "normalizeBoolValue v = (case ToBool v of Some b \<Rightarrow> JBool b | None \<Rightarrow> v)"

definition normalizeAllBoolFields :: "(string \<times> json) list \<Rightarrow> (string \<times> json) list" where
  "normalizeAllBoolFields m = map (\<lambda>(k, v). (k, normalizeBoolValue v)) m"

definition is_boolean :: "field_map \<Rightarrow> string \<Rightarrow> bool" where
  "is_boolean fm field = (case LookupField fm field of None \<Rightarrow> False | Some info \<Rightarrow> fi_Boolean info)"

definition normalizeBoolFields :: "field_map \<Rightarrow> (string \<times> json) list \<Rightarrow> (string \<times> json) list" where
  "normalizeBoolFields fm m = map (\<lambda>(field, value). (field, if is_boolean fm field then normalizeBoolValue value else value)) m"

definition operators :: "(string \<times> operator) list" where
  "operators =
     [(''is'', Is), (''isnot'', IsNot), (''gt'', Gt), (''lt'', Lt), (''contains'', Contains), (''notcontains'', NotContains),
      (''startswith'', StartsWith), (''endswith'', EndsWith), (''intherange'', InTheRange), (''before'', Before), (''after'', After),
      (''inthelast'', InTheLast), (''notinthelast'', NotInTheLast), (''inplaylist'', InPlaylist), (''notinplaylist'', NotInPlaylist),
      (''ismissing'', IsMissing), (''ispresent'', IsPresent)]"

definition normalize :: "field_map \<Rightarrow> operator \<Rightarrow> (string \<times> json) list \<Rightarrow> (string \<times> json) list" where
  "normalize fm oper m =
     (if oper = IsMissing \<or> oper = IsPresent then normalizeAllBoolFields (normalizeBoolFields fm m) else normalizeBoolFields fm m)"

text \<open>Decoding into a map accepts an object, and null as the empty map.\<close>

fun object_fields :: "json \<Rightarrow> (string \<times> json) list option" where
  "object_fields (JObj m) = Some m"
| "object_fields JNull = Some []"
| "object_fields _ = None"

definition unmarshalExpression :: "field_map \<Rightarrow> string \<Rightarrow> json \<Rightarrow> Expression option" where
  "unmarshalExpression fm opName v =
     (case object_fields v of
        None \<Rightarrow> None
      | Some m \<Rightarrow> (case map_of operators opName of
          None \<Rightarrow> None
        | Some oper \<Rightarrow> Some (Rule oper (normalize fm oper m))))"

text \<open>The group that an entry may name, from the rules its value was decoded to.\<close>

definition unmarshalConjunction :: "string \<Rightarrow> criteria_error + Expression list \<Rightarrow> Expression option" where
  "unmarshalConjunction conjName rules =
     (case rules of
        Inl err \<Rightarrow> None
      | Inr items \<Rightarrow>
          if conjName = ''any'' then Some (Any items) else if conjName = ''all'' then Some (All items) else None)"

definition or_else :: "'a option \<Rightarrow> 'a option \<Rightarrow> 'a option" where
  "or_else x y = (case x of None \<Rightarrow> y | Some v \<Rightarrow> Some v)"

text \<open>\<open>unmarshalConjunctionType\<close> on an array, its elements and the entries of one of them.\<close>

fun unmarshalConjunctionType :: "field_map \<Rightarrow> json \<Rightarrow> criteria_error + Expression list"
  and unmarshal_elements :: "field_map \<Rightarrow> json list \<Rightarrow> criteria_error + Expression list"
  and unmarshal_entries :: "field_map \<Rightarrow> (string \<times> json) list \<Rightarrow> criteria_error + Expression list" where
  "unmarshalConjunctionType fm (JArr es) =
     (if list_all (\<lambda>e. object_fields e \<noteq> None) es then unmarshal_elements fm es else Inl BadJSON)"
| "unmarshalConjunctionType fm JNull = Inr []"
| "unmarshalConjunctionType fm _ = Inl BadJSON"
| "unmarshal_elements fm [] = Inr []"
| "unmarshal_elements fm (JObj m # es) =
     (case unmarshal_entries fm m of
        Inl err \<Rightarrow> Inl err
      | Inr xs \<Rightarrow> (case unmarshal_elements fm es of Inl err \<Rightarrow> Inl err | Inr ys \<Rightarrow> Inr (xs @ ys)))"
| "unmarshal_elements fm (_ # es) = unmarshal_elements fm es"
| "unmarshal_entries fm [] = Inr []"
| "unmarshal_entries fm ((key, v) # m) =
     (let k = go_lower key in
      case or_else (unmarshalExpression fm k v) (unmarshalConjunction k (unmarshalConjunctionType fm v)) of
        None \<Rightarrow> Inl (InvalidKey k)
      | Some e \<Rightarrow> (case unmarshal_entries fm m of Inl err \<Rightarrow> Inl err | Inr xs \<Rightarrow> Inr (e # xs)))"

fun op_name :: "operator \<Rightarrow> string" where
  "op_name Is = ''is''" | "op_name IsNot = ''isNot''" | "op_name Gt = ''gt''" | "op_name Lt = ''lt''"
| "op_name Before = ''before''" | "op_name After = ''after''" | "op_name Contains = ''contains''"
| "op_name NotContains = ''notContains''" | "op_name StartsWith = ''startsWith''" | "op_name EndsWith = ''endsWith''"
| "op_name InTheRange = ''inTheRange''" | "op_name InTheLast = ''inTheLast''" | "op_name NotInTheLast = ''notInTheLast''"
| "op_name InPlaylist = ''inPlaylist''" | "op_name NotInPlaylist = ''notInPlaylist''"
| "op_name IsMissing = ''isMissing''" | "op_name IsPresent = ''isPresent''"

definition marshalExpression :: "string \<Rightarrow> (string \<times> json) list \<Rightarrow> criteria_error + json" where
  "marshalExpression name value =
     (case value of [(f, v)] \<Rightarrow> Inr (JObj [(name, JObj [(f, v)])]) | _ \<Rightarrow> Inl (InvalidLength name (length value)))"

text \<open>An array of marshalled values, or the first error; an empty array is omitted.\<close>

fun sequence :: "('e + 'a) list \<Rightarrow> 'e + 'a list" where
  "sequence [] = Inr []"
| "sequence (Inl err # xs) = Inl err"
| "sequence (Inr x # xs) = (case sequence xs of Inl err \<Rightarrow> Inl err | Inr ys \<Rightarrow> Inr (x # ys))"

definition marshalConjunction :: "string \<Rightarrow> (criteria_error + json) list \<Rightarrow> criteria_error + json" where
  "marshalConjunction name rules =
     (case sequence rules of Inl err \<Rightarrow> Inl err | Inr js \<Rightarrow> Inr (JObj (if js = [] then [] else [(name, JArr js)])))"

fun marshal :: "Expression \<Rightarrow> criteria_error + json" where
  "marshal (All es) = marshalConjunction ''all'' (map marshal es)"
| "marshal (Any es) = marshalConjunction ''any'' (map marshal es)"
| "marshal (Rule oper m) = marshalExpression (op_name oper) m"

section \<open>Criteria in JSON\<close>

text \<open>The durations of \<open>utils/time.go\<close> are rendered and read by these two functions.\<close>

record duration_format =
  FormatDuration :: "int \<Rightarrow> string"
  ParseDuration :: "string \<Rightarrow> string + int"

definition str_entry :: "string \<Rightarrow> string \<Rightarrow> (string \<times> json) list" where
  "str_entry k s = (if s = '''' then [] else [(k, JStr s)])"

definition int_entry :: "string \<Rightarrow> int \<Rightarrow> (string \<times> json) list" where
  "int_entry k n = (if n = 0 then [] else [(k, JNum (of_int n))])"

definition rules_entry :: "string \<Rightarrow> json list \<Rightarrow> (string \<times> json) list" where
  "rules_entry k js = (if js = [] then [] else [(k, JArr js)])"

definition MarshalJSON :: "duration_format \<Rightarrow> Criteria \<Rightarrow> criteria_error + json" where
  "MarshalJSON fmt c =
     (let rules = (case cr_Expression c of
                     Some (Any es) \<Rightarrow> (''any'', sequence (map marshal es))
                   | Some (All es) \<Rightarrow> (''all'', sequence (map marshal es))
                   | Some e \<Rightarrow> (''all'', sequence [marshal e])
                   | None \<Rightarrow> (''all'', Inr [JNull]))
      in case snd rules of
           Inl err \<Rightarrow> Inl err
         | Inr js \<Rightarrow>
             Inr (JObj (rules_entry (fst rules) js @ str_entry ''sort'' (cr_Sort c) @ str_entry ''order'' (cr_Order c) @
                        int_entry ''limit'' (cr_Limit c) @ int_entry ''limitPercent'' (cr_LimitPercent c) @ int_entry ''offset'' (cr_Offset c) @
                        str_entry ''refreshDelay'' (if cr_RefreshDelay c > 0 then FormatDuration fmt (cr_RefreshDelay c) else ''''))))"

text \<open>The struct the JSON is decoded into; a field is found by its name in any case, and null leaves it unchanged.\<close>

record criteria_aux =
  ax_All :: "bool \<times> Expression list"
  ax_Any :: "bool \<times> Expression list"
  ax_Sort :: string
  ax_Order :: string
  ax_Limit :: int
  ax_LimitPercent :: int
  ax_Offset :: int
  ax_RefreshDelay :: string

definition zero_aux :: criteria_aux where
  "zero_aux = \<lparr>ax_All = (False, []), ax_Any = (False, []), ax_Sort = '''', ax_Order = '''', ax_Limit = 0,
               ax_LimitPercent = 0, ax_Offset = 0, ax_RefreshDelay = ''''\<rparr>"

fun decode_string :: "string \<Rightarrow> json \<Rightarrow> criteria_error + string" where
  "decode_string old (JStr s) = Inr s"
| "decode_string old JNull = Inr old"
| "decode_string old _ = Inl BadJSON"

fun decode_int :: "int \<Rightarrow> json \<Rightarrow> criteria_error + int" where
  "decode_int old (JNum q) =
     (if q = of_int \<lfloor>q\<rfloor> \<and> - max_int64 - 1 \<le> \<lfloor>q\<rfloor> \<and> \<lfloor>q\<rfloor> \<le> max_int64 then Inr \<lfloor>q\<rfloor> else Inl BadJSON)"
| "decode_int old JNull = Inr old"
| "decode_int old _ = Inl BadJSON"

definition decode_field :: "field_map \<Rightarrow> string \<Rightarrow> json \<Rightarrow> criteria_aux \<Rightarrow> criteria_error + criteria_aux" where
  "decode_field fm k v aux =
     (if equal_fold k ''all'' then map_sum id (\<lambda>rs. aux\<lparr>ax_All := (True, rs)\<rparr>) (unmarshalConjunctionType fm v)
      else if equal_fold k ''any'' then map_sum id (\<lambda>rs. aux\<lparr>ax_Any := (True, rs)\<rparr>) (unmarshalConjunctionType fm v)
      else if equal_fold k ''sort'' then map_sum id (\<lambda>s. aux\<lparr>ax_Sort := s\<rparr>) (decode_string (ax_Sort aux) v)
      else if equal_fold k ''order'' then map_sum id (\<lambda>s. aux\<lparr>ax_Order := s\<rparr>) (decode_string (ax_Order aux) v)
      else if equal_fold k ''limit'' then map_sum id (\<lambda>n. aux\<lparr>ax_Limit := n\<rparr>) (decode_int (ax_Limit aux) v)
      else if equal_fold k ''limitPercent'' then map_sum id (\<lambda>n. aux\<lparr>ax_LimitPercent := n\<rparr>) (decode_int (ax_LimitPercent aux) v)
      else if equal_fold k ''offset'' then map_sum id (\<lambda>n. aux\<lparr>ax_Offset := n\<rparr>) (decode_int (ax_Offset aux) v)
      else if equal_fold k ''refreshDelay'' then map_sum id (\<lambda>s. aux\<lparr>ax_RefreshDelay := s\<rparr>) (decode_string (ax_RefreshDelay aux) v)
      else Inr aux)"

fun decode_fields :: "field_map \<Rightarrow> (string \<times> json) list \<Rightarrow> criteria_aux \<Rightarrow> criteria_error + criteria_aux" where
  "decode_fields fm [] aux = Inr aux"
| "decode_fields fm ((k, v) # m) aux = (case decode_field fm k v aux of Inl err \<Rightarrow> Inl err | Inr aux' \<Rightarrow> decode_fields fm m aux')"

definition top_expression :: "criteria_aux \<Rightarrow> criteria_error + Expression" where
  "top_expression aux =
     (if fst (ax_All aux) \<and> fst (ax_Any aux) then Inl BothGroups
      else if length (snd (ax_Any aux)) > 0 then Inr (Any (snd (ax_Any aux)))
      else if length (snd (ax_All aux)) > 0 then Inr (All (snd (ax_All aux)))
      else Inl MissingRules)"

definition clamp_percent :: "int \<Rightarrow> int" where
  "clamp_percent n = (if n < 0 then 0 else if n > 100 then 100 else n)"

definition UnmarshalJSON :: "field_map \<Rightarrow> duration_format \<Rightarrow> json \<Rightarrow> criteria_error + Criteria" where
  "UnmarshalJSON fm fmt data =
     (case object_fields data of
        None \<Rightarrow> Inl BadJSON
      | Some m \<Rightarrow> (case decode_fields fm m zero_aux of
          Inl err \<Rightarrow> Inl err
        | Inr aux \<Rightarrow> (case top_expression aux of
            Inl err \<Rightarrow> Inl err
          | Inr e \<Rightarrow>
              (case (if ax_RefreshDelay aux \<noteq> '''' then ParseDuration fmt (ax_RefreshDelay aux) else Inr 0) of
                 Inl err \<Rightarrow> Inl (BadRefreshDelay err)
               | Inr d \<Rightarrow>
                   Inr \<lparr>cr_Expression = Some e, cr_Sort = ax_Sort aux, cr_Order = ax_Order aux, cr_Limit = ax_Limit aux,
                        cr_LimitPercent = clamp_percent (ax_LimitPercent aux), cr_Offset = ax_Offset aux, cr_RefreshDelay = d\<rparr>))))"

section \<open>Limit, order and references\<close>

definition EffectiveLimit :: "int \<Rightarrow> Criteria \<Rightarrow> int" where
  "EffectiveLimit totalCount c =
     (if cr_Limit c > 0 then cr_Limit c
      else if cr_LimitPercent c > 0 \<and> cr_LimitPercent c \<le> 100 then
        if totalCount \<le> 0 then 0
        else let result = totalCount * cr_LimitPercent c div 100 in if result < 1 then 1 else result
      else 0)"

definition IsPercentageLimit :: "Criteria \<Rightarrow> bool" where
  "IsPercentageLimit c = (cr_Limit c = 0 \<and> cr_LimitPercent c > 0 \<and> cr_LimitPercent c \<le> 100)"

definition ResolveLimit :: "int \<Rightarrow> Criteria \<Rightarrow> Criteria" where
  "ResolveLimit totalCount c = (if \<not> IsPercentageLimit c then c else c\<lparr>cr_Limit := EffectiveLimit totalCount c\<rparr>)"

fun extractPlaylistField :: "string \<Rightarrow> Expression \<Rightarrow> string list" where
  "extractPlaylistField field (Any rules) = concat (map (extractPlaylistField field) rules)"
| "extractPlaylistField field (All rules) = concat (map (extractPlaylistField field) rules)"
| "extractPlaylistField field (Rule oper m) =
     (if oper = InPlaylist \<or> oper = NotInPlaylist
      then case map_of m field of Some (JStr value) \<Rightarrow> if value \<noteq> '''' then [value] else [] | _ \<Rightarrow> []
      else [])"

definition childPlaylistRefs :: "string \<Rightarrow> Criteria \<Rightarrow> string list" where
  "childPlaylistRefs field c =
     (case cr_Expression c of
        Some (All es) \<Rightarrow> remdups_adj (sort (extractPlaylistField field (All es)))
      | Some (Any es) \<Rightarrow> remdups_adj (sort (extractPlaylistField field (Any es)))
      | _ \<Rightarrow> [])"

definition ChildPlaylistIds :: "Criteria \<Rightarrow> string list" where
  "ChildPlaylistIds = childPlaylistRefs ''id''"

definition ChildPlaylistPaths :: "Criteria \<Rightarrow> string list" where
  "ChildPlaylistPaths = childPlaylistRefs ''path''"

definition effective_order :: "string \<Rightarrow> string" where
  "effective_order order =
     (let ord = go_lower (trim_space order) in
      if ord \<noteq> '''' \<and> ord \<noteq> ''asc'' \<and> ord \<noteq> ''desc'' then '''' else ord)"

definition sort_field :: "field_map \<Rightarrow> string \<Rightarrow> string \<Rightarrow> (string \<times> bool) option" where
  "sort_field fm order part0 =
     (let part = trim_space part0 in
      if part = '''' then None
      else let signed = (has_prefix part ''+'' \<or> has_prefix part ''-'');
               desc = (signed \<and> has_prefix part ''-'');
               name = (if signed then trim_space (drop 1 part) else part)
           in case LookupField fm name of
                None \<Rightarrow> None
              | Some info \<Rightarrow> Some (fi_name info, if order = ''desc'' then \<not> desc else desc))"

definition OrderByFields :: "field_map \<Rightarrow> Criteria \<Rightarrow> (string \<times> bool) list" where
  "OrderByFields fm c =
     (let sortValue = (if cr_Sort c = '''' then ''title'' else cr_Sort c);
          sorted = List.map_filter (sort_field fm (effective_order (cr_Order c))) (split_on (CHR '','') sortValue)
      in if sorted = [] then [(''title'', False)] else sorted)"

definition SortFieldNames :: "field_map \<Rightarrow> Criteria \<Rightarrow> string list" where
  "SortFieldNames fm c = map fst (OrderByFields fm c)"

text \<open>\<open>Walk\<close> visits the expression and the rules below it, up to the first error of the visitor.\<close>

fun Walk :: "(Expression \<Rightarrow> 's \<Rightarrow> 'e + 's) \<Rightarrow> Expression \<Rightarrow> 's \<Rightarrow> 'e + 's"
  and walk_all :: "(Expression \<Rightarrow> 's \<Rightarrow> 'e + 's) \<Rightarrow> Expression list \<Rightarrow> 's \<Rightarrow> 'e + 's" where
  "Walk visit (All es) s = (case visit (All es) s of Inl err \<Rightarrow> Inl err | Inr s' \<Rightarrow> walk_all visit es s')"
| "Walk visit (Any es) s = (case visit (Any es) s of Inl err \<Rightarrow> Inl err | Inr s' \<Rightarrow> walk_all visit es s')"
| "Walk visit (Rule oper m) s = visit (Rule oper m) s"
| "walk_all visit [] s = Inr s"
| "walk_all visit (e # es) s = (case Walk visit e s of Inl err \<Rightarrow> Inl err | Inr s' \<Rightarrow> walk_all visit es s')"

fun Fields :: "Expression \<Rightarrow> (string \<times> json) list" where
  "Fields (All es) = []"
| "Fields (Any es) = []"
| "Fields (Rule oper m) = m"

section \<open>Round trip through JSON\<close>

lemma normalizeBoolValue_idem [simp]: "normalizeBoolValue (normalizeBoolValue v) = normalizeBoolValue v"
  by (auto simp: normalizeBoolValue_def split: option.split)

lemma normalize_idem [simp]: "normalize fm oper (normalize fm oper m) = normalize fm oper m"
  by (induction m) (auto simp: normalize_def normalizeAllBoolFields_def normalizeBoolFields_def)

lemma op_name_lookup: "map_of operators (go_lower (op_name oper)) = Some oper"
  by (cases oper) (simp_all add: operators_def go_lower_def to_lower_char_def byte_def char_of_def bit_Suc_0_iff)

text \<open>Rules whose values are in normal form, and expressions without empty groups below the top.\<close>

fun normal :: "field_map \<Rightarrow> Expression \<Rightarrow> bool" where
  "normal fm (All es) = (\<forall>e \<in> set es. normal fm e)"
| "normal fm (Any es) = (\<forall>e \<in> set es. normal fm e)"
| "normal fm (Rule oper m) = (normalize fm oper m = m)"

fun no_empty_group :: "Expression \<Rightarrow> bool" where
  "no_empty_group (All es) = (es \<noteq> [] \<and> (\<forall>e \<in> set es. no_empty_group e))"
| "no_empty_group (Any es) = (es \<noteq> [] \<and> (\<forall>e \<in> set es. no_empty_group e))"
| "no_empty_group (Rule oper m) = True"

lemma unmarshalExpression_normal: "unmarshalExpression fm k v = Some e \<Longrightarrow> normal fm e"
  by (auto simp: unmarshalExpression_def split: option.splits)

lemma unmarshalConjunction_normal:
  "unmarshalConjunction k rules = Some e \<Longrightarrow> (\<And>es. rules = Inr es \<Longrightarrow> \<forall>e \<in> set es. normal fm e) \<Longrightarrow> normal fm e"
  by (auto simp: unmarshalConjunction_def split: sum.splits if_splits)

lemma or_else_normal:
  assumes "or_else (unmarshalExpression fm k v) (unmarshalConjunction k rules) = Some e"
    and "\<And>es. rules = Inr es \<Longrightarrow> \<forall>e \<in> set es. normal fm e"
  shows "normal fm e"
  using assms unmarshalExpression_normal [of fm k v] unmarshalConjunction_normal [of k rules e fm]
  by (auto simp: or_else_def split: option.splits)

text \<open>Whatever is read is in normal form.\<close>

lemma unmarshal_normal:
  "unmarshalConjunctionType fm j = Inr es \<Longrightarrow> \<forall>e \<in> set es. normal fm e"
  "unmarshal_elements fm js = Inr es \<Longrightarrow> \<forall>e \<in> set es. normal fm e"
  "unmarshal_entries fm m = Inr es \<Longrightarrow> \<forall>e \<in> set es. normal fm e"
proof (induction fm j and fm js and fm m arbitrary: es and es and es
    rule: unmarshalConjunctionType_unmarshal_elements_unmarshal_entries.induct, goal_cases)
  case (15 fm key v m es)
  then obtain e xs where e: "or_else (unmarshalExpression fm (go_lower key) v)
      (unmarshalConjunction (go_lower key) (unmarshalConjunctionType fm v)) = Some e"
    and xs: "unmarshal_entries fm m = Inr xs" and es: "es = e # xs"
    by (auto simp: Let_def split: option.splits sum.splits)
  have "normal fm e" by (rule or_else_normal [OF e]) (use 15(1) in blast)
  moreover have "\<forall>e \<in> set xs. normal fm e" by (rule 15(2) [OF refl e xs])
  ultimately show ?case by (simp add: es)
qed (auto split: if_splits sum.splits)

lemma sequence_Inr:
  "sequence (map f es) = Inr js \<longleftrightarrow> list_all2 (\<lambda>e j. f e = Inr j) es js"
proof (induction es arbitrary: js)
  case (Cons e es)
  show ?case
  proof (cases "f e")
    case (Inr j)
    then show ?thesis
      by (cases "sequence (map f es)"; cases js) (auto simp: Cons.IH [symmetric])
  qed (auto simp: list_all2_Cons1)
qed auto

lemma marshal_object: "marshal e = Inr j \<Longrightarrow> \<exists>m. j = JObj m"
  by (cases e) (auto simp: marshalConjunction_def marshalExpression_def split: sum.splits list.splits)

text \<open>A written expression is read back as itself, in front of whatever follows it.\<close>

definition reads_as :: "field_map \<Rightarrow> json \<Rightarrow> Expression \<Rightarrow> bool" where
  "reads_as fm j e \<longleftrightarrow> (\<forall>js es. unmarshal_elements fm js = Inr es \<longrightarrow> unmarshal_elements fm (j # js) = Inr (e # es))"

lemma reads_as_group:
  assumes "list_all2 (\<lambda>e j. marshal e = Inr j) es js" and "list_all2 (\<lambda>e j. reads_as fm j e) es js"
  shows "unmarshalConjunctionType fm (JArr js) = Inr es"
proof -
  have "list_all (\<lambda>j. object_fields j \<noteq> None) js"
    using assms(1) by (induction rule: list_all2_induct) (auto dest!: marshal_object)
  moreover have "unmarshal_elements fm js = Inr es"
    using assms(2) by (induction rule: list_all2_induct) (auto simp: reads_as_def)
  ultimately show ?thesis by simp
qed

lemma go_lower_group [simp]: "go_lower ''all'' = ''all''" "go_lower ''any'' = ''any''"
  by (simp_all add: go_lower_def to_lower_char_def byte_def)

lemma reads_as_entry:
  assumes "or_else (unmarshalExpression fm (go_lower k) v) (unmarshalConjunction (go_lower k) (unmarshalConjunctionType fm v)) = Some e"
  shows "reads_as fm (JObj [(k, v)]) e"
  using assms by (simp add: reads_as_def)

lemma marshal_reads_as:
  "marshal e = Inr j \<Longrightarrow> normal fm e \<Longrightarrow> no_empty_group e \<Longrightarrow> reads_as fm j e"
proof (induction e arbitrary: j)
  case (All es)
  then obtain js where js: "list_all2 (\<lambda>e j. marshal e = Inr j) es js" and j: "j = JObj [(''all'', JArr js)]"
    by (auto simp: marshalConjunction_def sequence_Inr list_all2_Nil2 split: sum.splits if_splits)
  have "list_all2 (\<lambda>e j. reads_as fm j e) es js"
    using js All.IH All.prems by (auto simp: list_all2_conv_all_nth)
  then show ?case
    unfolding j by (intro reads_as_entry) (simp add: reads_as_group [OF js] or_else_def unmarshalExpression_def unmarshalConjunction_def del: unmarshalConjunctionType.simps)
next
  case (Any es)
  then obtain js where js: "list_all2 (\<lambda>e j. marshal e = Inr j) es js" and j: "j = JObj [(''any'', JArr js)]"
    by (auto simp: marshalConjunction_def sequence_Inr list_all2_Nil2 split: sum.splits if_splits)
  have "list_all2 (\<lambda>e j. reads_as fm j e) es js"
    using js Any.IH Any.prems by (auto simp: list_all2_conv_all_nth)
  then show ?case
    unfolding j by (intro reads_as_entry) (simp add: reads_as_group [OF js] or_else_def unmarshalExpression_def unmarshalConjunction_def del: unmarshalConjunctionType.simps)
next
  case (Rule oper m)
  then obtain f v where m: "m = [(f, v)]" and j: "j = JObj [(op_name oper, JObj [(f, v)])]"
    by (auto simp: marshalExpression_def split: list.splits prod.splits)
  show ?case
    unfolding j using Rule.prems(2) m
    by (intro reads_as_entry) (simp add: or_else_def unmarshalExpression_def op_name_lookup)
qed

lemmas key_eval = equal_fold_def go_lower_def to_lower_char_def byte_def char_of_def bit_Suc_0_iff

lemma decode_field_keys:
  "decode_field fm ''all'' v aux = map_sum id (\<lambda>rs. aux\<lparr>ax_All := (True, rs)\<rparr>) (unmarshalConjunctionType fm v)"
  "decode_field fm ''any'' v aux = map_sum id (\<lambda>rs. aux\<lparr>ax_Any := (True, rs)\<rparr>) (unmarshalConjunctionType fm v)"
  "decode_field fm ''sort'' v aux = map_sum id (\<lambda>s. aux\<lparr>ax_Sort := s\<rparr>) (decode_string (ax_Sort aux) v)"
  "decode_field fm ''order'' v aux = map_sum id (\<lambda>s. aux\<lparr>ax_Order := s\<rparr>) (decode_string (ax_Order aux) v)"
  "decode_field fm ''limit'' v aux = map_sum id (\<lambda>n. aux\<lparr>ax_Limit := n\<rparr>) (decode_int (ax_Limit aux) v)"
  "decode_field fm ''limitPercent'' v aux = map_sum id (\<lambda>n. aux\<lparr>ax_LimitPercent := n\<rparr>) (decode_int (ax_LimitPercent aux) v)"
  "decode_field fm ''offset'' v aux = map_sum id (\<lambda>n. aux\<lparr>ax_Offset := n\<rparr>) (decode_int (ax_Offset aux) v)"
  "decode_field fm ''refreshDelay'' v aux = map_sum id (\<lambda>s. aux\<lparr>ax_RefreshDelay := s\<rparr>) (decode_string (ax_RefreshDelay aux) v)"
  by (simp_all add: decode_field_def key_eval)

definition int64_ok :: "int \<Rightarrow> bool" where
  "int64_ok n \<longleftrightarrow> - max_int64 - 1 \<le> n \<and> n \<le> max_int64"

lemma decode_int_of_int: "int64_ok n \<Longrightarrow> decode_int old (JNum (of_int n)) = Inr n"
  by (simp add: int64_ok_def)

lemma decode_entries:
  "ax_Sort aux = '''' \<Longrightarrow> decode_fields fm (str_entry ''sort'' s @ m) aux = decode_fields fm m (aux\<lparr>ax_Sort := s\<rparr>)"
  "ax_Order aux = '''' \<Longrightarrow> decode_fields fm (str_entry ''order'' s @ m) aux = decode_fields fm m (aux\<lparr>ax_Order := s\<rparr>)"
  "ax_RefreshDelay aux = '''' \<Longrightarrow> decode_fields fm (str_entry ''refreshDelay'' s) aux = Inr (aux\<lparr>ax_RefreshDelay := s\<rparr>)"
  "ax_Limit aux = 0 \<Longrightarrow> int64_ok n \<Longrightarrow> decode_fields fm (int_entry ''limit'' n @ m) aux = decode_fields fm m (aux\<lparr>ax_Limit := n\<rparr>)"
  "ax_LimitPercent aux = 0 \<Longrightarrow> int64_ok n \<Longrightarrow> decode_fields fm (int_entry ''limitPercent'' n @ m) aux = decode_fields fm m (aux\<lparr>ax_LimitPercent := n\<rparr>)"
  "ax_Offset aux = 0 \<Longrightarrow> int64_ok n \<Longrightarrow> decode_fields fm (int_entry ''offset'' n @ m) aux = decode_fields fm m (aux\<lparr>ax_Offset := n\<rparr>)"
  by (cases aux; simp add: str_entry_def int_entry_def decode_field_keys decode_int_of_int del: decode_int.simps)+

text \<open>What is decoded fits the 64 bits of its field, and the delay is not negative.\<close>

definition durations_ok :: "duration_format \<Rightarrow> bool" where
  "durations_ok fmt \<longleftrightarrow>
     (\<forall>d > 0. FormatDuration fmt d \<noteq> '''' \<and> ParseDuration fmt (FormatDuration fmt d) = Inr d) \<and>
     (\<forall>s d. ParseDuration fmt s = Inr d \<longrightarrow> 0 \<le> d)"

definition aux_ok :: "field_map \<Rightarrow> criteria_aux \<Rightarrow> bool" where
  "aux_ok fm aux \<longleftrightarrow> int64_ok (ax_Limit aux) \<and> int64_ok (ax_Offset aux) \<and>
     (\<forall>e \<in> set (snd (ax_All aux)) \<union> set (snd (ax_Any aux)). normal fm e)"

lemma map_sum_id_Inr: "map_sum id f x = Inr y \<longleftrightarrow> (\<exists>z. x = Inr z \<and> y = f z)"
  by (cases x) auto

lemma decode_int_ok: "decode_int old v = Inr n \<Longrightarrow> int64_ok old \<Longrightarrow> int64_ok n"
  by (cases v) (auto simp: int64_ok_def split: if_splits)

lemma decode_field_ok: "decode_field fm k v aux = Inr aux' \<Longrightarrow> aux_ok fm aux \<Longrightarrow> aux_ok fm aux'"
  unfolding decode_field_def
  by (auto simp: map_sum_id_Inr aux_ok_def dest: unmarshal_normal(1) decode_int_ok split: if_splits)

lemma decode_fields_ok: "decode_fields fm m aux = Inr aux' \<Longrightarrow> aux_ok fm aux \<Longrightarrow> aux_ok fm aux'"
  by (induction fm m aux rule: decode_fields.induct) (auto dest: decode_field_ok split: sum.splits)

text \<open>The criteria that can be read, as the reader sets them.\<close>

definition criteria_ok :: "field_map \<Rightarrow> Criteria \<Rightarrow> bool" where
  "criteria_ok fm c \<longleftrightarrow>
     (\<exists>es. es \<noteq> [] \<and> (cr_Expression c = Some (All es) \<or> cr_Expression c = Some (Any es)) \<and> (\<forall>e \<in> set es. normal fm e)) \<and>
     int64_ok (cr_Limit c) \<and> int64_ok (cr_Offset c) \<and> 0 \<le> cr_LimitPercent c \<and> cr_LimitPercent c \<le> 100 \<and> 0 \<le> cr_RefreshDelay c"

lemma zero_aux_ok: "aux_ok fm zero_aux"
  by (simp add: aux_ok_def zero_aux_def int64_ok_def max_int64_def)

lemma top_expression_ok:
  "top_expression aux = Inr e \<Longrightarrow> aux_ok fm aux \<Longrightarrow> \<exists>es. es \<noteq> [] \<and> (e = All es \<or> e = Any es) \<and> (\<forall>e \<in> set es. normal fm e)"
  by (auto simp: top_expression_def aux_ok_def split: if_splits)

lemma UnmarshalJSON_ok:
  assumes "UnmarshalJSON fm fmt j = Inr c" and "durations_ok fmt"
  shows "criteria_ok fm c"
proof -
  obtain m aux e d where aux: "decode_fields fm m zero_aux = Inr aux" and e: "top_expression aux = Inr e"
    and d: "(if ax_RefreshDelay aux \<noteq> '''' then ParseDuration fmt (ax_RefreshDelay aux) else Inr 0) = Inr d"
    and c: "c = \<lparr>cr_Expression = Some e, cr_Sort = ax_Sort aux, cr_Order = ax_Order aux, cr_Limit = ax_Limit aux,
                 cr_LimitPercent = clamp_percent (ax_LimitPercent aux), cr_Offset = ax_Offset aux, cr_RefreshDelay = d\<rparr>"
    using assms(1) by (auto simp: UnmarshalJSON_def split: option.splits sum.splits)
  have ok: "aux_ok fm aux" by (rule decode_fields_ok [OF aux zero_aux_ok])
  have "0 \<le> d" using d assms(2) by (auto simp: durations_ok_def split: if_splits)
  then show ?thesis
    using top_expression_ok [OF e ok] ok by (auto simp: criteria_ok_def c aux_ok_def clamp_percent_def)
qed

lemma normal_value: "normalizeBoolValue v = v \<Longrightarrow> ToBool v = Some b \<Longrightarrow> v = JBool b"
  by (simp add: normalizeBoolValue_def)

lemma normal_fields:
  assumes "normalize fm oper m = m" and "(field, v) \<in> set m" and "is_boolean fm field \<or> oper = IsMissing \<or> oper = IsPresent"
  shows "normalizeBoolValue v = v"
  using assms
  by (induction m) (auto simp: normalize_def normalizeAllBoolFields_def normalizeBoolFields_def split: if_splits)

text \<open>The rules of an expression, at any depth.\<close>

fun rules_of :: "Expression \<Rightarrow> (operator \<times> (string \<times> json) list) set" where
  "rules_of (All es) = (\<Union>e \<in> set es. rules_of e)"
| "rules_of (Any es) = (\<Union>e \<in> set es. rules_of e)"
| "rules_of (Rule oper m) = {(oper, m)}"

lemma normal_rules: "normal fm e \<Longrightarrow> (oper, m) \<in> rules_of e \<Longrightarrow> normalize fm oper m = m"
  by (induction e) auto


lemma read_written:
  assumes "criteria_ok fm c" and "durations_ok fmt" and "MarshalJSON fmt c = Inr j"
    and "\<And>e. cr_Expression c = Some e \<Longrightarrow> no_empty_group e"
  shows "UnmarshalJSON fm fmt j = Inr c"
proof -
  obtain es name where es: "es \<noteq> []" "\<forall>e \<in> set es. normal fm e"
    and name: "name = ''all'' \<and> cr_Expression c = Some (All es) \<or> name = ''any'' \<and> cr_Expression c = Some (Any es)"
    using assms(1) by (auto simp: criteria_ok_def)
  define delay where "delay = (if cr_RefreshDelay c > 0 then FormatDuration fmt (cr_RefreshDelay c) else '''')"
  obtain js where js: "list_all2 (\<lambda>e j. marshal e = Inr j) es js"
    and j: "j = JObj (rules_entry name js @ str_entry ''sort'' (cr_Sort c) @ str_entry ''order'' (cr_Order c) @
                 int_entry ''limit'' (cr_Limit c) @ int_entry ''limitPercent'' (cr_LimitPercent c) @ int_entry ''offset'' (cr_Offset c) @
                 str_entry ''refreshDelay'' delay)"
    using assms(3) name by (auto simp: MarshalJSON_def Let_def sequence_Inr delay_def split: sum.splits)
  have "list_all2 (\<lambda>e j. reads_as fm j e) es js"
    using js es(2) name assms(4) marshal_reads_as by (fastforce simp: list_all2_conv_all_nth)
  then have rules: "unmarshalConjunctionType fm (JArr js) = Inr es" by (rule reads_as_group [OF js])
  have js_ne: "js \<noteq> []" using js es(1) by auto
  have ints: "int64_ok (cr_Limit c)" "int64_ok (cr_Offset c)" "int64_ok (cr_LimitPercent c)" "clamp_percent (cr_LimitPercent c) = cr_LimitPercent c"
    using assms(1) by (auto simp: criteria_ok_def clamp_percent_def int64_ok_def max_int64_def)
  have d: "(if delay \<noteq> '''' then ParseDuration fmt delay else Inr 0) = Inr (cr_RefreshDelay c)"
    using assms(1, 2) by (auto simp: delay_def durations_ok_def criteria_ok_def)
  have c: "\<lparr>cr_Expression = cr_Expression c, cr_Sort = cr_Sort c, cr_Order = cr_Order c, cr_Limit = cr_Limit c,
            cr_LimitPercent = cr_LimitPercent c, cr_Offset = cr_Offset c, cr_RefreshDelay = cr_RefreshDelay c\<rparr> = c"
    by simp
  show ?thesis
    using name es(1) js_ne ints d c
    by (auto simp: j UnmarshalJSON_def rules_entry_def decode_field_keys decode_entries zero_aux_def top_expression_def rules
        simp del: unmarshalConjunctionType.simps)
qed


text \<open>A criteria file with a rule on a boolean field whose value is written as a string.\<close>

definition ex_fmt :: duration_format where
  "ex_fmt = \<lparr>FormatDuration = \<lambda>d. replicate (nat d) (CHR ''s''), ParseDuration = \<lambda>s. Inr (int (length s))\<rparr>"

definition ex_file :: json where
  "ex_file = JObj [(''All'', JArr [JObj [(''is'', JObj [(''Loved'', JStr ''T'')])]]), (''limit'', JNum 10)]"

definition ex_written :: json where
  "ex_written = JObj [(''all'', JArr [JObj [(''is'', JObj [(''Loved'', JBool True)])]]), (''limit'', JNum 10)]"

definition ex_criteria :: Criteria where
  "ex_criteria = \<lparr>cr_Expression = Some (All [Rule Is [(''Loved'', JBool True)]]), cr_Sort = '''', cr_Order = '''', cr_Limit = 10,
                  cr_LimitPercent = 0, cr_Offset = 0, cr_RefreshDelay = 0\<rparr>"

lemma ex_read: "UnmarshalJSON fieldMap ex_fmt ex_file = Inr ex_criteria"
proof -
  have "is_boolean fieldMap ''Loved''" by code_simp
  then show ?thesis
    by (simp add: UnmarshalJSON_def ex_file_def ex_criteria_def decode_field_def key_eval zero_aux_def unmarshalExpression_def
        operators_def normalize_def normalizeBoolFields_def normalizeBoolValue_def parse_bool_def or_else_def top_expression_def
        clamp_percent_def max_int64_def)
qed



section \<open>Limit, order and references\<close>

text \<open>
  A percentage limit is between one track and all of them, and not above its share except to reach one;
  a fixed limit is taken as it is. (The product stays within 64 bits for any count of tracks below \<open>2\<^sup>56\<close>.)
\<close>

lemma EffectiveLimit_bounds:
  "EffectiveLimit n c =
   (if cr_Limit c > 0 then cr_Limit c
    else if 0 < cr_LimitPercent c \<and> cr_LimitPercent c \<le> 100 \<and> 0 < n then max 1 (n * cr_LimitPercent c div 100) else 0)"
  "cr_Limit c \<le> 0 \<Longrightarrow> 0 < cr_LimitPercent c \<Longrightarrow> cr_LimitPercent c \<le> 100 \<Longrightarrow> 0 < n \<Longrightarrow>
   1 \<le> EffectiveLimit n c \<and> EffectiveLimit n c \<le> n"
proof -
  show eq: "EffectiveLimit n c =
   (if cr_Limit c > 0 then cr_Limit c
    else if 0 < cr_LimitPercent c \<and> cr_LimitPercent c \<le> 100 \<and> 0 < n then max 1 (n * cr_LimitPercent c div 100) else 0)"
    by (auto simp: EffectiveLimit_def Let_def)
  assume *: "cr_Limit c \<le> 0" "0 < cr_LimitPercent c" "cr_LimitPercent c \<le> 100" "0 < n"
  then have "n * cr_LimitPercent c \<le> n * 100" by (intro mult_left_mono) auto
  then have "n * cr_LimitPercent c div 100 \<le> n" using zdiv_mono1 [of _ "n * 100" 100] by fastforce
  with * show "1 \<le> EffectiveLimit n c \<and> EffectiveLimit n c \<le> n" by (auto simp: eq)
qed

text \<open>Once resolved, the limit does not change with the count any more.\<close>

lemma ResolveLimit_fixed:
  assumes "0 < n"
  shows "ResolveLimit n' (ResolveLimit n c) = ResolveLimit n c"
proof (cases "IsPercentageLimit c")
  case True
  then have "0 < EffectiveLimit n c" using assms by (auto simp: EffectiveLimit_bounds(1) IsPercentageLimit_def)
  with True show ?thesis by (simp add: ResolveLimit_def IsPercentageLimit_def)
qed (simp add: ResolveLimit_def)

text \<open>There is always something to sort by, and every field sorted by is known under its canonical name.\<close>

lemma sort_field_known:
  "sort_field fm order part = Some (f, desc) \<Longrightarrow> \<exists>name info. LookupField fm name = Some info \<and> f = fi_name info"
  by (auto simp: sort_field_def Let_def split: if_splits option.splits)

lemma OrderByFields_known:
  assumes "(f, desc) \<in> set (OrderByFields fm c)"
  shows "f = ''title'' \<or> (\<exists>name info. LookupField fm name = Some info \<and> f = fi_name info)"
proof -
  let ?parts = "split_on (CHR '','') (if cr_Sort c = '''' then ''title'' else cr_Sort c)"
  have "f = ''title'' \<or> (\<exists>part \<in> set ?parts. sort_field fm (effective_order (cr_Order c)) part = Some (f, desc))"
    using assms by (auto simp: OrderByFields_def Let_def List.map_filter_def split: if_splits)
  then show ?thesis using sort_field_known by blast
qed

lemma OrderByFields_some: "OrderByFields fm c \<noteq> []"
  by (simp add: OrderByFields_def Let_def)

text \<open>The references are those of the playlist rules, each once, in order.\<close>

lemma extract_rule:
  "extractPlaylistField field (Rule oper m) = [v] \<and> v \<noteq> '''' \<and> oper \<in> {InPlaylist, NotInPlaylist} \<and> map_of m field = Some (JStr v) \<or>
   extractPlaylistField field (Rule oper m) = [] \<and> \<not> (v \<noteq> '''' \<and> oper \<in> {InPlaylist, NotInPlaylist} \<and> map_of m field = Some (JStr v)) \<or>
   (\<exists>w. w \<noteq> v \<and> extractPlaylistField field (Rule oper m) = [w] \<and> map_of m field = Some (JStr w))"
proof (cases "map_of m field")
  case (Some j)
  then show ?thesis by (cases j) auto
qed simp

lemma set_extract_rule:
  "v \<in> set (extractPlaylistField field (Rule oper m)) \<longleftrightarrow>
   v \<noteq> '''' \<and> oper \<in> {InPlaylist, NotInPlaylist} \<and> map_of m field = Some (JStr v)"
  using extract_rule [of field oper m v] by (auto simp del: extractPlaylistField.simps)

lemma set_extractPlaylistField:
  "v \<in> set (extractPlaylistField field e) \<longleftrightarrow>
   v \<noteq> '''' \<and> (\<exists>oper m. (oper, m) \<in> rules_of e \<and> oper \<in> {InPlaylist, NotInPlaylist} \<and> map_of m field = Some (JStr v))"
proof (induction e)
  case (Rule oper m)
  then show ?case by (simp only: set_extract_rule rules_of.simps) blast
qed auto

lemma distinct_remdups_adj_sorted: "sorted xs \<Longrightarrow> distinct (remdups_adj xs)" for xs :: "string list"
  by (induction xs rule: remdups_adj.induct) (auto simp: less_le)

lemma childPlaylistRefs_spec:
  assumes "cr_Expression c = Some e" and "e \<in> range All \<union> range Any"
  shows "sorted (childPlaylistRefs field c) \<and> distinct (childPlaylistRefs field c) \<and>
         set (childPlaylistRefs field c) = set (extractPlaylistField field e)"
  using assms by (auto simp: childPlaylistRefs_def distinct_remdups_adj_sorted simp del: extractPlaylistField.simps)

text \<open>Fields added at start-up never change what an existing name means, except that a tag may become numeric.\<close>

lemma AddRoles_keeps: "map_of fm k = Some f \<Longrightarrow> map_of (AddRoles roles fm) k = Some f"
  unfolding AddRoles_def by (induction roles arbitrary: fm) (simp_all add: Let_def map_add_def)

lemma AddTagNames_keeps: "map_of fm k = Some f \<Longrightarrow> map_of (AddTagNames tags fm) k = Some f"
  unfolding AddTagNames_def
  by (induction tags arbitrary: fm) (simp_all add: Let_def map_add_def split: option.split prod.split)

end
