(* ===== verification/Criteria_SQL.thy ===== *)
theory Criteria_SQL
  imports Criteria
begin

text \<open>
  The translation of smart playlist criteria to SQL (\<open>persistence/criteria_sql.go\<close>). The conditions of the query
  builder and those of this file are the datatype \<open>sqlizer\<close>; a column expression is a name or a name with the
  \<open>COALESCE\<close> default around it. What a condition means is its three-valued evaluation \<open>eval\<close> on a row of the joined
  tables, as SQL documents it; a \<open>WHERE\<close> keeps the rows where the value is true. Functions of the database and of Go's
  formatting library are the record \<open>sql_env\<close>.
\<close>

unbundle bit_operations_syntax

section \<open>Fields\<close>

definition smartPlaylistJoinNone :: int where "smartPlaylistJoinNone = 0"
definition smartPlaylistJoinAlbumAnnotation :: int where "smartPlaylistJoinAlbumAnnotation = 2"
definition smartPlaylistJoinArtistAnnotation :: int where "smartPlaylistJoinArtistAnnotation = 4"
definition smartPlaylistJoinAlbum :: int where "smartPlaylistJoinAlbum = 8"

definition has_join :: "int \<Rightarrow> int \<Rightarrow> bool" where
  "has_join j other = (j AND other \<noteq> 0)"

record smartPlaylistField =
  sp_expr :: string
  sp_order :: string
  sp_joinType :: int
  sp_emptyValues :: "string list"
  sp_coalesceDefault :: "json option"

definition column_field :: "string \<Rightarrow> smartPlaylistField" where
  "column_field e = \<lparr>sp_expr = e, sp_order = '''', sp_joinType = smartPlaylistJoinNone, sp_emptyValues = [], sp_coalesceDefault = None\<rparr>"

definition smartPlaylistFields :: "(string \<times> smartPlaylistField) list" where
  "smartPlaylistFields =
     [(''title'', column_field ''media_file.title''), (''album'', column_field ''media_file.album''),
      (''hascoverart'', column_field ''media_file.has_cover_art''), (''tracknumber'', column_field ''media_file.track_number''),
      (''discnumber'', column_field ''media_file.disc_number''), (''year'', column_field ''media_file.year''),
      (''date'', column_field ''media_file.date''), (''originalyear'', column_field ''media_file.original_year''),
      (''originaldate'', column_field ''media_file.original_date''), (''releaseyear'', column_field ''media_file.release_year''),
      (''releasedate'', column_field ''media_file.release_date''), (''size'', column_field ''media_file.size''),
      (''compilation'', column_field ''media_file.compilation''), (''missing'', column_field ''media_file.missing''),
      (''explicitstatus'', column_field ''media_file.explicit_status''), (''dateadded'', column_field ''media_file.created_at''),
      (''datemodified'', column_field ''media_file.updated_at''), (''discsubtitle'', column_field ''media_file.disc_subtitle''),
      (''comment'', column_field ''media_file.comment''),
      (''lyrics'', (column_field ''media_file.lyrics'')\<lparr>sp_emptyValues := [''[]'']\<rparr>),
      (''sorttitle'', column_field ''media_file.sort_title''), (''sortalbum'', column_field ''media_file.sort_album_name''),
      (''sortartist'', column_field ''media_file.sort_artist_name''),
      (''sortalbumartist'', column_field ''media_file.sort_album_artist_name''),
      (''albumcomment'', column_field ''media_file.mbz_album_comment''),
      (''catalognumber'', column_field ''media_file.catalog_num''), (''filepath'', column_field ''media_file.path''),
      (''filetype'', column_field ''media_file.suffix''), (''codec'', column_field ''media_file.codec''),
      (''duration'', column_field ''media_file.duration''), (''bitrate'', column_field ''media_file.bit_rate''),
      (''bitdepth'', column_field ''media_file.bit_depth''), (''samplerate'', column_field ''media_file.sample_rate''),
      (''bpm'', column_field ''media_file.bpm''), (''channels'', column_field ''media_file.channels''),
      (''loved'', (column_field ''annotation.starred'')\<lparr>sp_coalesceDefault := Some (JBool False)\<rparr>),
      (''dateloved'', column_field ''annotation.starred_at''), (''lastplayed'', column_field ''annotation.play_date''),
      (''daterated'', column_field ''annotation.rated_at''),
      (''playcount'', (column_field ''annotation.play_count'')\<lparr>sp_coalesceDefault := Some (JNum 0)\<rparr>),
      (''rating'', (column_field ''annotation.rating'')\<lparr>sp_coalesceDefault := Some (JNum 0)\<rparr>),
      (''averagerating'', column_field ''media_file.average_rating''),
      (''albumrating'', (column_field ''album_annotation.rating'')\<lparr>sp_joinType := smartPlaylistJoinAlbumAnnotation, sp_coalesceDefault := Some (JNum 0)\<rparr>),
      (''albumloved'', (column_field ''album_annotation.starred'')\<lparr>sp_joinType := smartPlaylistJoinAlbumAnnotation, sp_coalesceDefault := Some (JBool False)\<rparr>),
      (''albumplaycount'', (column_field ''album_annotation.play_count'')\<lparr>sp_joinType := smartPlaylistJoinAlbumAnnotation, sp_coalesceDefault := Some (JNum 0)\<rparr>),
      (''albumlastplayed'', (column_field ''album_annotation.play_date'')\<lparr>sp_joinType := smartPlaylistJoinAlbumAnnotation\<rparr>),
      (''albumdateloved'', (column_field ''album_annotation.starred_at'')\<lparr>sp_joinType := smartPlaylistJoinAlbumAnnotation\<rparr>),
      (''albumdaterated'', (column_field ''album_annotation.rated_at'')\<lparr>sp_joinType := smartPlaylistJoinAlbumAnnotation\<rparr>),
      (''albumdateadded'', (column_field ''album.created_at'')\<lparr>sp_joinType := smartPlaylistJoinAlbum\<rparr>),
      (''albumdatemodified'', (column_field ''album.updated_at'')\<lparr>sp_joinType := smartPlaylistJoinAlbum\<rparr>),
      (''albumduration'', (column_field ''album.duration'')\<lparr>sp_joinType := smartPlaylistJoinAlbum\<rparr>),
      (''albumsongcount'', (column_field ''album.song_count'')\<lparr>sp_joinType := smartPlaylistJoinAlbum\<rparr>),
      (''albumsize'', (column_field ''album.size'')\<lparr>sp_joinType := smartPlaylistJoinAlbum\<rparr>),
      (''artistrating'', (column_field ''artist_annotation.rating'')\<lparr>sp_joinType := smartPlaylistJoinArtistAnnotation, sp_coalesceDefault := Some (JNum 0)\<rparr>),
      (''artistloved'', (column_field ''artist_annotation.starred'')\<lparr>sp_joinType := smartPlaylistJoinArtistAnnotation, sp_coalesceDefault := Some (JBool False)\<rparr>),
      (''artistplaycount'', (column_field ''artist_annotation.play_count'')\<lparr>sp_joinType := smartPlaylistJoinArtistAnnotation, sp_coalesceDefault := Some (JNum 0)\<rparr>),
      (''artistlastplayed'', (column_field ''artist_annotation.play_date'')\<lparr>sp_joinType := smartPlaylistJoinArtistAnnotation\<rparr>),
      (''artistdateloved'', (column_field ''artist_annotation.starred_at'')\<lparr>sp_joinType := smartPlaylistJoinArtistAnnotation\<rparr>),
      (''artistdaterated'', (column_field ''artist_annotation.rated_at'')\<lparr>sp_joinType := smartPlaylistJoinArtistAnnotation\<rparr>),
      (''mbz_album_id'', column_field ''media_file.mbz_album_id''),
      (''mbz_album_artist_id'', column_field ''media_file.mbz_album_artist_id''),
      (''mbz_artist_id'', column_field ''media_file.mbz_artist_id''),
      (''mbz_recording_id'', column_field ''media_file.mbz_recording_id''),
      (''mbz_release_track_id'', column_field ''media_file.mbz_release_track_id''),
      (''mbz_release_group_id'', column_field ''media_file.mbz_release_group_id''),
      (''rgalbumgain'', column_field ''media_file.rg_album_gain''), (''rgalbumpeak'', column_field ''media_file.rg_album_peak''),
      (''rgtrackgain'', column_field ''media_file.rg_track_gain''), (''rgtrackpeak'', column_field ''media_file.rg_track_peak''),
      (''library_id'', column_field ''media_file.library_id''),
      (''random'', (column_field '''')\<lparr>sp_order := ''random()''\<rparr>)]"

section \<open>Conditions\<close>

datatype column = Column string | Coalesced string json

datatype comparator = cmpEq | cmpNe | cmpGt | cmpGe | cmpLt | cmpLe

fun satisfy :: "comparator \<Rightarrow> rat \<Rightarrow> rat \<Rightarrow> bool" where
  "satisfy cmpEq a b = (a = b)" | "satisfy cmpNe a b = (a \<noteq> b)" | "satisfy cmpGt a b = (a > b)"
| "satisfy cmpGe a b = (a \<ge> b)" | "satisfy cmpLt a b = (a < b)" | "satisfy cmpLe a b = (a \<le> b)"

definition ordering :: "comparator \<Rightarrow> bool" where
  "ordering c = (c \<noteq> cmpEq \<and> c \<noteq> cmpNe)"

text \<open>A playlist named by its ID or by the variants of its path, and who asks for it.\<close>

datatype playlist_ref = ById string | ByPath "string list"

record User =
  us_ID :: string
  us_IsAdmin :: bool

text \<open>
  \<open>Cmp\<close> is \<open>squirrel.Eq\<close>, \<open>NotEq\<close>, \<open>Gt\<close>, \<open>GtOrEq\<close>, \<open>Lt\<close> or \<open>LtOrEq\<close> of a map from columns to values, and \<open>Like\<close> with
  its flag \<open>NotLike\<close> or \<open>Like\<close>; the last argument of the other conditions is their field \<open>not\<close>.
\<close>

datatype sqlizer =
    Cmp comparator "(column \<times> json) list"
  | LikeCond bool "(column \<times> string) list"
  | SqlAnd "sqlizer list"
  | SqlOr "sqlizer list"
  | tagCond string bool "sqlizer option" bool
  | roleCond string "sqlizer option" bool
  | tagCondGroup string bool "sqlizer list" bool
  | roleCondGroup string "sqlizer list" bool
  | InList playlist_ref User bool
  | SqlTrue

datatype sql_error = InvalidField string | NeedsOneField | NotBoolean string | MissingUnsupported string | RangeOnTag string
  | RangeNotPair string | TagNotAlone string | BadPeriod | NoPlaylist

record sql_env =
  other_compare :: "comparator \<Rightarrow> column \<Rightarrow> string + rat \<Rightarrow> json \<Rightarrow> bool"
  like_match :: "string + rat \<Rightarrow> string \<Rightarrow> bool"
  cast_real :: "string \<Rightarrow> rat"
  format_value :: "json \<Rightarrow> string"
  parse_float :: "string \<Rightarrow> rat option"
  format_date :: "int \<Rightarrow> string"
  nfc :: "string \<Rightarrow> string"
  nfd :: "string \<Rightarrow> string"

section \<open>Translation of rules\<close>

text \<open>\<open>fmt.Sprintf\<close> of a value with \<open>%v\<close>: strings and booleans as they are, and integers below a million, which is
  where floating-point numbers begin to be printed with an exponent.\<close>

fun sprint_v :: "sql_env \<Rightarrow> json \<Rightarrow> string" where
  "sprint_v env (JStr s) = s"
| "sprint_v env (JBool b) = (if b then ''true'' else ''false'')"
| "sprint_v env JNull = ''<nil>''"
| "sprint_v env (JNum q) = (if q = of_int \<lfloor>q\<rfloor> \<and> \<bar>q\<bar> < 1000000 then itoa \<lfloor>q\<rfloor> else format_value env (JNum q))"
| "sprint_v env v = format_value env v"

definition singleField :: "field_map \<Rightarrow> (string \<times> json) list \<Rightarrow> (string \<times> json \<times> FieldInfo) option" where
  "singleField fm values =
     (case values of
        [(field, value)] \<Rightarrow> (case LookupField fm field of None \<Rightarrow> None | Some info \<Rightarrow> Some (field, value, info))
      | _ \<Rightarrow> None)"

definition single_name :: "(string \<times> json) list \<Rightarrow> string" where
  "single_name values = (case values of [(field, value)] \<Rightarrow> field | _ \<Rightarrow> '''')"

definition fieldExpr :: "string \<Rightarrow> string option" where
  "fieldExpr name = map_option sp_expr (map_of smartPlaylistFields (go_lower name))"

definition sql_field :: "field_map \<Rightarrow> string \<Rightarrow> sql_error + string" where
  "sql_field fm field =
     (case LookupField fm field of
        None \<Rightarrow> Inl (InvalidField field)
      | Some info \<Rightarrow>
          if fi_IsTag info \<or> fi_IsRole info then Inl (TagNotAlone field)
          else case fieldExpr (fi_name info) of
            None \<Rightarrow> Inl (InvalidField field)
          | Some e \<Rightarrow> if e = '''' then Inl (InvalidField field) else Inr e)"

fun set_field :: "string \<Rightarrow> 'v \<Rightarrow> (string \<times> 'v) list \<Rightarrow> (string \<times> 'v) list" where
  "set_field k v [] = [(k, v)]"
| "set_field k v ((k', v') # m) = (if k = k' then (k, v) # m else (k', v') # set_field k v m)"

fun sql_fields_from :: "field_map \<Rightarrow> (string \<times> json) list \<Rightarrow> (string \<times> json) list \<Rightarrow> sql_error + (string \<times> json) list" where
  "sql_fields_from fm [] acc = Inr acc"
| "sql_fields_from fm ((field, value) # values) acc =
     (case sql_field fm field of Inl err \<Rightarrow> Inl err | Inr e \<Rightarrow> sql_fields_from fm values (set_field e value acc))"

definition sqlFields :: "field_map \<Rightarrow> (string \<times> json) list \<Rightarrow> sql_error + (string \<times> json) list" where
  "sqlFields fm values = sql_fields_from fm values []"

definition jsonExpr :: "FieldInfo \<Rightarrow> sqlizer option \<Rightarrow> bool \<Rightarrow> sqlizer" where
  "jsonExpr info cond negate =
     (if fi_IsRole info then roleCond (fi_name info) cond negate else tagCond (fi_name info) (fi_Numeric info) cond negate)"

definition annotationField :: "FieldInfo \<Rightarrow> smartPlaylistField option" where
  "annotationField info =
     (case map_of smartPlaylistFields (fi_name info) of
        None \<Rightarrow> None
      | Some f \<Rightarrow> if sp_coalesceDefault f = None then None else Some f)"

definition coalesced :: "smartPlaylistField \<Rightarrow> column" where
  "coalesced f = (case sp_coalesceDefault f of None \<Rightarrow> Column (sp_expr f) | Some d \<Rightarrow> Coalesced (sp_expr f) d)"

definition boolToFloat :: "bool \<Rightarrow> rat" where
  "boolToFloat b = (if b then 1 else 0)"

fun toFloat :: "sql_env \<Rightarrow> json \<Rightarrow> rat option" where
  "toFloat env (JNum n) = Some n"
| "toFloat env (JStr s) = parse_float env s"
| "toFloat env _ = None"

definition bareNullInclusion :: "sql_env \<Rightarrow> json \<Rightarrow> comparator \<Rightarrow> json \<Rightarrow> bool option" where
  "bareNullInclusion env defaultVal cmp value =
     (case defaultVal of
        JBool b \<Rightarrow>
          if ordering cmp then None
          else (case ToBool value of None \<Rightarrow> None | Some v \<Rightarrow> Some (satisfy cmp (boolToFloat b) (boolToFloat v)))
      | _ \<Rightarrow>
          (case (toFloat env defaultVal, toFloat env value) of
             (Some d, Some v) \<Rightarrow> Some (satisfy cmp d v)
           | _ \<Rightarrow> None))"

definition annotationCond :: "sql_env \<Rightarrow> smartPlaylistField \<Rightarrow> json \<Rightarrow> comparator \<Rightarrow> json \<Rightarrow> sqlizer" where
  "annotationCond env f dflt cmp value =
     (case bareNullInclusion env dflt cmp value of
        None \<Rightarrow> Cmp cmp [(coalesced f, value)]
      | Some wrapNull \<Rightarrow>
          let base = Cmp cmp [(Column (sp_expr f), value)]
          in if \<not> wrapNull then base else SqlOr [base, Cmp cmpEq [(Column (sp_expr f), JNull)]])"

definition columns :: "(string \<times> 'v) list \<Rightarrow> (column \<times> 'v) list" where
  "columns fs = map (\<lambda>(k, v). (Column k, v)) fs"

definition comparisonExpr :: "sql_env \<Rightarrow> field_map \<Rightarrow> (string \<times> json) list \<Rightarrow> comparator \<Rightarrow> sql_error + sqlizer" where
  "comparisonExpr env fm values cmp =
     (let plain_form = map_sum id (\<lambda>fs. Cmp cmp (columns fs)) (sqlFields fm values) in
      case singleField fm values of
        Some (_, value, info) \<Rightarrow>
          if fi_IsTag info \<or> fi_IsRole info then Inr (jsonExpr info (Some (Cmp cmp [(Column ''value'', value)])) False)
          else (case annotationField info of
                  Some f \<Rightarrow> Inr (annotationCond env f (the (sp_coalesceDefault f)) cmp value)
                | None \<Rightarrow> plain_form)
      | None \<Rightarrow> plain_form)"

definition isNotExpr :: "sql_env \<Rightarrow> field_map \<Rightarrow> (string \<times> json) list \<Rightarrow> sql_error + sqlizer" where
  "isNotExpr env fm values =
     (case singleField fm values of
        Some (_, value, info) \<Rightarrow>
          if fi_IsTag info \<or> fi_IsRole info then Inr (jsonExpr info (Some (Cmp cmpEq [(Column ''value'', value)])) True)
          else comparisonExpr env fm values cmpNe
      | None \<Rightarrow> comparisonExpr env fm values cmpNe)"

definition empty_values :: "FieldInfo \<Rightarrow> smartPlaylistField \<Rightarrow> string list" where
  "empty_values info f = (if \<not> fi_Numeric info \<and> \<not> fi_Boolean info then '''' # sp_emptyValues f else [])"

definition missingExpr :: "field_map \<Rightarrow> (string \<times> json) list \<Rightarrow> bool \<Rightarrow> sql_error + sqlizer" where
  "missingExpr fm values checkAbsence =
     (case singleField fm values of
        None \<Rightarrow> if length values \<noteq> 1 then Inl NeedsOneField else Inl (InvalidField (single_name values))
      | Some (field, value, info) \<Rightarrow>
          (case value of
             JBool b \<Rightarrow>
               (let negate = (checkAbsence = b) in
                if fi_IsTag info \<or> fi_IsRole info then Inr (jsonExpr info None negate)
                else if fi_Nullable info then
                  (case map_of smartPlaylistFields (fi_name info) of
                     None \<Rightarrow> Inl (InvalidField field)
                   | Some f \<Rightarrow>
                       if sp_expr f = '''' then Inl (InvalidField field)
                       else let col = Column (sp_expr f); empties = empty_values info f
                            in if negate then Inr (SqlOr (Cmp cmpEq [(col, JNull)] # map (\<lambda>e. Cmp cmpEq [(col, JStr e)]) empties))
                               else Inr (SqlAnd (Cmp cmpNe [(col, JNull)] # map (\<lambda>e. Cmp cmpNe [(col, JStr e)]) empties)))
                else Inl (MissingUnsupported field))
           | _ \<Rightarrow> Inl (NotBoolean field)))"

text \<open>A pattern is what is put before and after the value.\<close>

definition likeExpr :: "sql_env \<Rightarrow> field_map \<Rightarrow> (string \<times> json) list \<Rightarrow> string \<times> string \<Rightarrow> bool \<Rightarrow> sql_error + sqlizer" where
  "likeExpr env fm values pattern negate =
     (let pat = (\<lambda>v. fst pattern @ sprint_v env v @ snd pattern);
          plain_form = map_sum id (\<lambda>fs. LikeCond negate (map (\<lambda>(k, v). (Column k, pat v)) fs)) (sqlFields fm values)
      in case singleField fm values of
           Some (_, value, info) \<Rightarrow>
             if fi_IsTag info \<or> fi_IsRole info then Inr (jsonExpr info (Some (LikeCond False [(Column ''value'', pat value)])) negate)
             else (case annotationField info of
                     Some f \<Rightarrow> Inr (LikeCond negate [(coalesced f, pat value)])
                   | None \<Rightarrow> plain_form)
         | None \<Rightarrow> plain_form)"

definition rangeExpr :: "sql_env \<Rightarrow> field_map \<Rightarrow> (string \<times> json) list \<Rightarrow> sql_error + sqlizer" where
  "rangeExpr env fm values =
     (case singleField fm values of
        None \<Rightarrow> Inl (InvalidField (single_name values))
      | Some (field, value, info) \<Rightarrow>
          if fi_IsTag info \<or> fi_IsRole info then Inl (RangeOnTag field)
          else (case value of
                  JArr [low, high] \<Rightarrow>
                    (case comparisonExpr env fm [(field, low)] cmpGe of
                       Inl err \<Rightarrow> Inl err
                     | Inr l \<Rightarrow> (case comparisonExpr env fm [(field, high)] cmpLe of
                         Inl err \<Rightarrow> Inl err
                       | Inr h \<Rightarrow> Inr (SqlAnd [l, h])))
                | _ \<Rightarrow> Inl (RangeNotPair field)))"

definition go_hour :: int where "go_hour = 3600000000000"

definition startOfPeriod :: "sql_env \<Rightarrow> int \<Rightarrow> int \<Rightarrow> string" where
  "startOfPeriod env numDays from_time = format_date env (from_time + wrap64 (wrap64 (- 24 * numDays) * go_hour))"

definition periodExpr :: "sql_env \<Rightarrow> field_map \<Rightarrow> int \<Rightarrow> (string \<times> json) list \<Rightarrow> bool \<Rightarrow> sql_error + sqlizer" where
  "periodExpr env fm now values negate =
     (case sqlFields fm values of
        Inl err \<Rightarrow> Inl err
      | Inr fs \<Rightarrow>
          (let (field, value) = (case fs of [] \<Rightarrow> ('''', JNull) | kv # _ \<Rightarrow> kv) in
           case atoi (sprint_v env value) of
             None \<Rightarrow> Inl BadPeriod
           | Some days \<Rightarrow>
               (let firstDate = JStr (startOfPeriod env days now) in
                if negate then Inr (SqlOr [Cmp cmpLt [(Column field, firstDate)], Cmp cmpEq [(Column field, JNull)]])
                else Inr (Cmp cmpGt [(Column field, firstDate)]))))"

definition pathVariants :: "sql_env \<Rightarrow> string \<Rightarrow> string list" where
  "pathVariants env path =
     path # (if nfc env path \<noteq> path then [nfc env path] else []) @ (if nfd env path \<noteq> path then [nfd env path] else [])"

definition string_entry :: "(string \<times> json) list \<Rightarrow> string \<Rightarrow> string option" where
  "string_entry values k = (case map_of values k of Some (JStr s) \<Rightarrow> if s \<noteq> '''' then Some s else None | _ \<Rightarrow> None)"

definition inList :: "sql_env \<Rightarrow> User \<Rightarrow> (string \<times> json) list \<Rightarrow> bool \<Rightarrow> sql_error + sqlizer" where
  "inList env owner values negate =
     (case string_entry values ''id'' of
        Some playlistId \<Rightarrow> Inr (InList (ById playlistId) owner negate)
      | None \<Rightarrow> (case string_entry values ''path'' of
          Some playlistPath \<Rightarrow> Inr (InList (ByPath (pathVariants env playlistPath)) owner negate)
        | None \<Rightarrow> Inl NoPlaylist))"

section \<open>Merging of conditions on the same field\<close>

definition jsonCondBatchSize :: nat where "jsonCondBatchSize = 350"

fun merge_key :: "bool \<Rightarrow> sqlizer \<Rightarrow> (string \<times> sqlizer) option" where
  "merge_key negated (roleCond role (Some cond) neg) = (if neg \<noteq> negated then None else Some (''role:'' @ role, cond))"
| "merge_key negated (tagCond tag numeric (Some cond) neg) = (if neg \<noteq> negated then None else Some (''tag:'' @ tag, cond))"
| "merge_key negated _ = None"

definition group_entries :: "bool \<Rightarrow> sqlizer list \<Rightarrow> string \<Rightarrow> sqlizer list" where
  "group_entries negated conds key = filter (\<lambda>s. map_option fst (merge_key negated s) = Some key) conds"

definition group_keys :: "bool \<Rightarrow> sqlizer list \<Rightarrow> string list" where
  "group_keys negated conds = sort (remdups (List.map_filter (\<lambda>s. map_option fst (merge_key negated s)) conds))"

text \<open>The group of a key has the kind, name and flag of its first entry.\<close>

fun make_group :: "bool \<Rightarrow> sqlizer \<Rightarrow> sqlizer list \<Rightarrow> sqlizer" where
  "make_group negated (tagCond tag numeric c neg) batch = tagCondGroup tag numeric batch negated"
| "make_group negated (roleCond role c neg) batch = roleCondGroup role batch negated"
| "make_group negated s batch = s"

definition big_group :: "bool \<Rightarrow> sqlizer list \<Rightarrow> string \<Rightarrow> bool" where
  "big_group negated conds key = (\<not> length (group_entries negated conds key) < 2)"

definition group_additions :: "bool \<Rightarrow> sqlizer list \<Rightarrow> string \<Rightarrow> sqlizer list" where
  "group_additions negated conds key =
     (let entries = group_entries negated conds key in
      if \<not> big_group negated conds key then []
      else map (make_group negated (hd entries))
             (chunk jsonCondBatchSize (map (\<lambda>s. snd (the (merge_key negated s))) entries)))"

definition removed :: "bool \<Rightarrow> sqlizer list \<Rightarrow> sqlizer \<Rightarrow> bool" where
  "removed negated conds s =
     (case merge_key negated s of None \<Rightarrow> False | Some (key, _) \<Rightarrow> big_group negated conds key)"

definition mergeSameFieldConds :: "sqlizer list \<Rightarrow> bool \<Rightarrow> sqlizer list \<times> bool" where
  "mergeSameFieldConds conds negated =
     (if \<not> list_ex (removed negated conds) conds then (conds, False)
      else (filter (\<lambda>s. \<not> removed negated conds s) conds @
            concat (map (group_additions negated conds) (group_keys negated conds)), True))"

definition mergeJsonConds :: "sqlizer list \<Rightarrow> sqlizer" where
  "mergeJsonConds ors = SqlOr (fst (mergeSameFieldConds ors False))"

definition mergeNegatedJsonConds :: "sqlizer list \<Rightarrow> sqlizer" where
  "mergeNegatedJsonConds ands = SqlAnd (fst (mergeSameFieldConds ands True))"

section \<open>Expressions\<close>

fun ruleSQL :: "sql_env \<Rightarrow> field_map \<Rightarrow> User \<Rightarrow> int \<Rightarrow> operator \<Rightarrow> (string \<times> json) list \<Rightarrow> sql_error + sqlizer" where
  "ruleSQL env fm owner now Is m = comparisonExpr env fm m cmpEq"
| "ruleSQL env fm owner now IsNot m = isNotExpr env fm m"
| "ruleSQL env fm owner now Gt m = comparisonExpr env fm m cmpGt"
| "ruleSQL env fm owner now Lt m = comparisonExpr env fm m cmpLt"
| "ruleSQL env fm owner now Before m = comparisonExpr env fm m cmpLt"
| "ruleSQL env fm owner now After m = comparisonExpr env fm m cmpGt"
| "ruleSQL env fm owner now Contains m = likeExpr env fm m (''%'', ''%'') False"
| "ruleSQL env fm owner now NotContains m = likeExpr env fm m (''%'', ''%'') True"
| "ruleSQL env fm owner now StartsWith m = likeExpr env fm m ('''', ''%'') False"
| "ruleSQL env fm owner now EndsWith m = likeExpr env fm m (''%'', '''') False"
| "ruleSQL env fm owner now InTheRange m = rangeExpr env fm m"
| "ruleSQL env fm owner now InTheLast m = periodExpr env fm now m False"
| "ruleSQL env fm owner now NotInTheLast m = periodExpr env fm now m True"
| "ruleSQL env fm owner now InPlaylist m = inList env owner m False"
| "ruleSQL env fm owner now NotInPlaylist m = inList env owner m True"
| "ruleSQL env fm owner now IsMissing m = missingExpr fm m True"
| "ruleSQL env fm owner now IsPresent m = missingExpr fm m False"

fun exprSQL :: "sql_env \<Rightarrow> field_map \<Rightarrow> User \<Rightarrow> int \<Rightarrow> Expression \<Rightarrow> sql_error + sqlizer" where
  "exprSQL env fm owner now (All es) = map_sum id mergeNegatedJsonConds (sequence (map (exprSQL env fm owner now) es))"
| "exprSQL env fm owner now (Any es) = map_sum id mergeJsonConds (sequence (map (exprSQL env fm owner now) es))"
| "exprSQL env fm owner now (Rule oper m) = ruleSQL env fm owner now oper m"

definition where_cond :: "sql_env \<Rightarrow> field_map \<Rightarrow> User \<Rightarrow> int \<Rightarrow> Criteria \<Rightarrow> sql_error + sqlizer" where
  "where_cond env fm owner now c = (case cr_Expression c of None \<Rightarrow> Inr SqlTrue | Some e \<Rightarrow> exprSQL env fm owner now e)"

section \<open>Joins and order\<close>

definition fieldJoinType :: "field_map \<Rightarrow> string \<Rightarrow> int" where
  "fieldJoinType fm name =
     (case LookupField fm name of
        None \<Rightarrow> smartPlaylistJoinNone
      | Some info \<Rightarrow> (case map_of smartPlaylistFields (fi_name info) of
          None \<Rightarrow> smartPlaylistJoinNone
        | Some field \<Rightarrow> sp_joinType field))"

definition visit_joins :: "field_map \<Rightarrow> Expression \<Rightarrow> int \<Rightarrow> unit + int" where
  "visit_joins fm e joins = Inr (fold (\<lambda>(field, _) j. j OR fieldJoinType fm field) (Fields e) joins)"

definition expressionJoins :: "field_map \<Rightarrow> Criteria \<Rightarrow> int" where
  "expressionJoins fm c =
     (case cr_Expression c of
        None \<Rightarrow> 0
      | Some e \<Rightarrow> (case Walk (visit_joins fm) e 0 of Inl _ \<Rightarrow> 0 | Inr joins \<Rightarrow> joins))"

definition requiredJoins :: "field_map \<Rightarrow> Criteria \<Rightarrow> int" where
  "requiredJoins fm c = fold (\<lambda>name j. j OR fieldJoinType fm name) (SortFieldNames fm c) (expressionJoins fm c)"

text \<open>The tables joined to \<open>media_file\<close>, each annotation for the user that is passed.\<close>

datatype joined = JoinAnnotation string | JoinAlbumAnnotation string | JoinArtistAnnotation string | JoinAlbum

definition applyJoins :: "int \<Rightarrow> string \<Rightarrow> joined list" where
  "applyJoins joins userID =
     JoinAnnotation userID #
     (if has_join joins smartPlaylistJoinAlbumAnnotation then [JoinAlbumAnnotation userID] else []) @
     (if has_join joins smartPlaylistJoinArtistAnnotation then [JoinArtistAnnotation userID] else []) @
     (if has_join joins smartPlaylistJoinAlbum then [JoinAlbum] else [])"

definition applyExpressionJoins :: "field_map \<Rightarrow> Criteria \<Rightarrow> string \<Rightarrow> joined list" where
  "applyExpressionJoins fm c userID = applyJoins (expressionJoins fm c) userID"

definition applyRequiredJoins :: "field_map \<Rightarrow> Criteria \<Rightarrow> string \<Rightarrow> joined list" where
  "applyRequiredJoins fm c userID = applyJoins (requiredJoins fm c) userID"

fun sqlLiteral :: "json \<Rightarrow> string" where
  "sqlLiteral (JBool b) = (if b then ''true'' else ''false'')"
| "sqlLiteral (JNum q) = itoa \<lfloor>q\<rfloor>"
| "sqlLiteral _ = ''''"

fun render_column :: "column \<Rightarrow> string" where
  "render_column (Column e) = e"
| "render_column (Coalesced e d) = ''COALESCE('' @ e @ '', '' @ sqlLiteral d @ '')''"

definition sortExpr :: "field_map \<Rightarrow> string \<Rightarrow> string option" where
  "sortExpr fm sortField =
     (case LookupField fm sortField of
        None \<Rightarrow> None
      | Some info \<Rightarrow>
          (let cast = (\<lambda>mapped. if fi_Numeric info then ''CAST('' @ mapped @ '' AS REAL)'' else mapped);
               field = map_of smartPlaylistFields (fi_name info)
           in case (case field of Some f \<Rightarrow> if sp_order f \<noteq> '''' then Some (sp_order f) else None | None \<Rightarrow> None) of
                Some ord \<Rightarrow> Some ord
              | None \<Rightarrow>
                  if fi_IsTag info then Some (cast (''COALESCE(json_extract(media_file.tags, '' @ [CHR 0x27] @ ''$.'' @ fi_name info @ ''[0].value'' @ [CHR 0x27] @ ''), '' @ [CHR 0x27, CHR 0x27] @ '')''))
                  else if fi_IsRole info then Some (cast (''COALESCE(json_extract(media_file.participants, '' @ [CHR 0x27] @ ''$.'' @ fi_name info @ ''[0].name'' @ [CHR 0x27] @ ''), '' @ [CHR 0x27, CHR 0x27] @ '')''))
                  else (case field of
                          None \<Rightarrow> None
                        | Some f \<Rightarrow> if sp_expr f = '''' then None else Some (cast (render_column (coalesced f))))))"

definition orderBy :: "field_map \<Rightarrow> Criteria \<Rightarrow> string" where
  "orderBy fm c =
     join '', ''
       (List.map_filter (\<lambda>(field, desc). map_option (\<lambda>mapped. mapped @ (if desc then '' desc'' else '' asc'')) (sortExpr fm field))
          (OrderByFields fm c))"

section \<open>Meaning of conditions\<close>

text \<open>Values of a row, NULL being \<open>None\<close>; the playlists a track is in; and Kleene's connectives.\<close>

type_synonym sqlval = "(string + rat) option"

record playlist_row =
  pr_id :: string
  pr_path :: string
  pr_public :: bool
  pr_owner :: string

record sql_row =
  row_col :: "string \<Rightarrow> sqlval"
  row_tags :: "string \<Rightarrow> string list"
  row_roles :: "string \<Rightarrow> string list"
  row_playlists :: "playlist_row list"

definition conj3 :: "bool option list \<Rightarrow> bool option" where
  "conj3 bs = (if Some False \<in> set bs then Some False else if None \<in> set bs then None else Some True)"

definition disj3 :: "bool option list \<Rightarrow> bool option" where
  "disj3 bs = (if Some True \<in> set bs then Some True else if None \<in> set bs then None else Some False)"

fun num_of :: "json \<Rightarrow> rat option" where
  "num_of (JNum q) = Some q"
| "num_of (JBool b) = Some (boolToFloat b)"
| "num_of _ = None"

fun col_value :: "sql_row \<Rightarrow> column \<Rightarrow> sqlval" where
  "col_value row (Column c) = row_col row c"
| "col_value row (Coalesced c d) = (case row_col row c of None \<Rightarrow> map_option Inr (num_of d) | Some v \<Rightarrow> Some v)"

definition compare3 :: "sql_env \<Rightarrow> comparator \<Rightarrow> column \<Rightarrow> sqlval \<Rightarrow> json \<Rightarrow> bool option" where
  "compare3 env c col x v =
     (case x of
        None \<Rightarrow> None
      | Some y \<Rightarrow> (case (y, num_of v) of (Inr a, Some b) \<Rightarrow> Some (satisfy c a b) | _ \<Rightarrow> Some (other_compare env c col y v)))"

text \<open>Equality with NULL is \<open>IS NULL\<close> and with a list is \<open>IN\<close>; the ordering operators have neither.\<close>

fun cmp_value :: "sql_env \<Rightarrow> comparator \<Rightarrow> column \<Rightarrow> sqlval \<Rightarrow> json \<Rightarrow> bool option" where
  "cmp_value env c col x JNull = (if c = cmpEq then Some (x = None) else if c = cmpNe then Some (x \<noteq> None) else None)"
| "cmp_value env c col x (JArr vs) =
     (if c = cmpEq then disj3 (map (compare3 env cmpEq col x) vs)
      else if c = cmpNe then map_option Not (disj3 (map (compare3 env cmpEq col x) vs)) else None)"
| "cmp_value env c col x v = compare3 env c col x v"

definition like_value :: "sql_env \<Rightarrow> bool \<Rightarrow> sqlval \<Rightarrow> string \<Rightarrow> bool option" where
  "like_value env negate x pat = map_option (\<lambda>v. like_match env v pat \<noteq> negate) x"

definition with_value :: "sql_row \<Rightarrow> string + rat \<Rightarrow> sql_row" where
  "with_value row v = row\<lparr>row_col := (row_col row)(''value'' := Some v)\<rparr>"

definition tag_values :: "sql_env \<Rightarrow> bool \<Rightarrow> string \<Rightarrow> sql_row \<Rightarrow> (string + rat) list" where
  "tag_values env numeric tag row = map (\<lambda>s. if numeric then Inr (cast_real env s) else Inl s) (row_tags row tag)"

definition role_values :: "string \<Rightarrow> sql_row \<Rightarrow> (string + rat) list" where
  "role_values role row = map Inl (row_roles row role)"

fun names_playlist :: "playlist_ref \<Rightarrow> playlist_row \<Rightarrow> bool" where
  "names_playlist (ById i) p = (pr_id p = i)"
| "names_playlist (ByPath ps) p = (pr_path p \<in> set ps)"

definition visible :: "User \<Rightarrow> playlist_row \<Rightarrow> bool" where
  "visible owner p = (us_IsAdmin owner \<or> pr_public p \<or> (us_ID owner \<noteq> '''' \<and> pr_owner p = us_ID owner))"

fun eval :: "sql_env \<Rightarrow> sql_row \<Rightarrow> sqlizer \<Rightarrow> bool option" where
  "eval env row (Cmp c m) = conj3 (map (\<lambda>(col, v). cmp_value env c col (col_value row col) v) m)"
| "eval env row (LikeCond negate m) = conj3 (map (\<lambda>(col, pat). like_value env negate (col_value row col) pat) m)"
| "eval env row (SqlAnd cs) = conj3 (map (eval env row) cs)"
| "eval env row (SqlOr cs) = disj3 (map (eval env row) cs)"
| "eval env row (tagCond tag numeric None neg) = Some ((tag_values env numeric tag row \<noteq> []) \<noteq> neg)"
| "eval env row (tagCond tag numeric (Some c) neg) =
     Some (list_ex (\<lambda>v. eval env (with_value row v) c = Some True) (tag_values env numeric tag row) \<noteq> neg)"
| "eval env row (roleCond role None neg) = Some ((role_values role row \<noteq> []) \<noteq> neg)"
| "eval env row (roleCond role (Some c) neg) =
     Some (list_ex (\<lambda>v. eval env (with_value row v) c = Some True) (role_values role row) \<noteq> neg)"
| "eval env row (tagCondGroup tag numeric cs neg) =
     Some (list_ex (\<lambda>v. disj3 (map (eval env (with_value row v)) cs) = Some True) (tag_values env numeric tag row) \<noteq> neg)"
| "eval env row (roleCondGroup role cs neg) =
     Some (list_ex (\<lambda>v. disj3 (map (eval env (with_value row v)) cs) = Some True) (role_values role row) \<noteq> neg)"
| "eval env row (InList ref owner neg) =
     Some (list_ex (\<lambda>p. names_playlist ref p \<and> visible owner p) (row_playlists row) \<noteq> neg)"
| "eval env row SqlTrue = Some True"

text \<open>A \<open>WHERE\<close> keeps a row when its condition is true, not when it is unknown.\<close>

definition selects :: "sql_env \<Rightarrow> sql_row \<Rightarrow> sqlizer \<Rightarrow> bool" where
  "selects env row s = (eval env row s = Some True)"

section \<open>Truth of conditions\<close>

lemma conj3_True: "conj3 bs = Some True \<longleftrightarrow> (\<forall>b \<in> set bs. b = Some True)"
  by (auto simp: conj3_def) (metis (full_types) option.exhaust)

lemma disj3_True: "disj3 bs = Some True \<longleftrightarrow> Some True \<in> set bs"
  by (simp add: disj3_def)

lemma disj3_False: "disj3 bs = Some False \<longleftrightarrow> (\<forall>b \<in> set bs. b = Some False)"
  by (auto simp: disj3_def) (metis (full_types) option.exhaust)

lemma selects_simps [simp]:
  "selects env row (SqlAnd cs) \<longleftrightarrow> (\<forall>c \<in> set cs. selects env row c)"
  "selects env row (SqlOr cs) \<longleftrightarrow> (\<exists>c \<in> set cs. selects env row c)"
  "selects env row (tagCond tag num None neg) \<longleftrightarrow> (tag_values env num tag row \<noteq> []) \<noteq> neg"
  "selects env row (tagCond tag num (Some c) neg) \<longleftrightarrow> (\<exists>v \<in> set (tag_values env num tag row). selects env (with_value row v) c) \<noteq> neg"
  "selects env row (roleCond role None neg) \<longleftrightarrow> (role_values role row \<noteq> []) \<noteq> neg"
  "selects env row (roleCond role (Some c) neg) \<longleftrightarrow> (\<exists>v \<in> set (role_values role row). selects env (with_value row v) c) \<noteq> neg"
  "selects env row (tagCondGroup tag num cs neg) \<longleftrightarrow> (\<exists>v \<in> set (tag_values env num tag row). \<exists>c \<in> set cs. selects env (with_value row v) c) \<noteq> neg"
  "selects env row (roleCondGroup role cs neg) \<longleftrightarrow> (\<exists>v \<in> set (role_values role row). \<exists>c \<in> set cs. selects env (with_value row v) c) \<noteq> neg"
  by (auto simp: selects_def conj3_True disj3_True list_ex_iff image_iff) metis+

section \<open>Merging keeps the meaning\<close>

text \<open>The values a condition on a tag or a role ranges over.\<close>

fun cond_values :: "sql_env \<Rightarrow> sql_row \<Rightarrow> sqlizer \<Rightarrow> (string + rat) list" where
  "cond_values env row (tagCond tag num c neg) = tag_values env num tag row"
| "cond_values env row (roleCond role c neg) = role_values role row"
| "cond_values env row _ = []"

text \<open>Conditions on the same tag agree on whether it is a number.\<close>

definition same_numeric :: "sqlizer list \<Rightarrow> bool" where
  "same_numeric conds \<longleftrightarrow>
     (\<forall>tag n n' c c' neg neg'. tagCond tag n c neg \<in> set conds \<longrightarrow> tagCond tag n' c' neg' \<in> set conds \<longrightarrow> n = n')"

lemma merge_key_cases:
  assumes "merge_key negated s = Some (key, c)"
  obtains role where "s = roleCond role (Some c) negated" "key = ''role:'' @ role"
    | tag num where "s = tagCond tag num (Some c) negated" "key = ''tag:'' @ tag"
  using assms by (cases "(negated, s)" rule: merge_key.cases) (auto split: if_splits)

lemma same_key_values:
  assumes "merge_key negated s = Some (key, c)" and "merge_key negated t = Some (key, d)"
    and "same_numeric conds" and "s \<in> set conds" and "t \<in> set conds"
  shows "cond_values env row s = cond_values env row t"
  using assms(1)
proof (rule merge_key_cases)
  fix tag num assume s: "s = tagCond tag num (Some c) negated" and key: "key = ''tag:'' @ tag"
  from assms(2) show ?thesis
  proof (rule merge_key_cases)
    fix tag' num' assume t: "t = tagCond tag' num' (Some d) negated" and "key = ''tag:'' @ tag'"
    then have "tag' = tag" using key by simp
    then have "num' = num" using assms(3-5) s t unfolding same_numeric_def by blast
    then show ?thesis using s t \<open>tag' = tag\<close> by simp
  qed (use key in simp)
next
  fix role assume s: "s = roleCond role (Some c) negated" and key: "key = ''role:'' @ role"
  from assms(2) show ?thesis by (rule merge_key_cases) (use s key in simp_all)
qed

text \<open>Whether a condition is true, up to its polarity: some value has to satisfy what it asks.\<close>

definition hit :: "sql_env \<Rightarrow> sql_row \<Rightarrow> bool \<Rightarrow> sqlizer \<Rightarrow> bool" where
  "hit env row negated s \<longleftrightarrow> selects env row s \<noteq> negated"

lemma hit_single:
  "merge_key negated s = Some (key, c) \<Longrightarrow> hit env row negated s \<longleftrightarrow> (\<exists>v \<in> set (cond_values env row s). selects env (with_value row v) c)"
  by (elim merge_key_cases) (auto simp: hit_def)

lemma hit_group:
  "merge_key negated s = Some (key, c) \<Longrightarrow>
   hit env row negated (make_group negated s batch) \<longleftrightarrow>
     (\<exists>v \<in> set (cond_values env row s). \<exists>d \<in> set batch. selects env (with_value row v) d)"
  by (elim merge_key_cases) (auto simp: hit_def)

lemma group_entries_key: "s \<in> set (group_entries negated conds key) \<longleftrightarrow> s \<in> set conds \<and> (\<exists>c. merge_key negated s = Some (key, c))"
  by (auto simp: group_entries_def)

lemma hit_additions:
  assumes "same_numeric conds" and "big_group negated conds key"
  shows "(\<exists>g \<in> set (group_additions negated conds key). hit env row negated g) \<longleftrightarrow>
         (\<exists>s \<in> set (group_entries negated conds key). hit env row negated s)"
proof -
  let ?es = "group_entries negated conds key"
  let ?cs = "map (\<lambda>s. snd (the (merge_key negated s))) ?es"
  have ne: "?es \<noteq> []" using assms(2) by (auto simp: big_group_def)
  then have hd: "hd ?es \<in> set ?es" by simp
  then obtain c0 where c0: "merge_key negated (hd ?es) = Some (key, c0)" and hd_in: "hd ?es \<in> set conds"
    unfolding group_entries_key by blast
  let ?vals = "cond_values env row (hd ?es)"
  have entry: "hit env row negated s \<longleftrightarrow> (\<exists>v \<in> set ?vals. selects env (with_value row v) (snd (the (merge_key negated s))))"
    if s: "s \<in> set ?es" for s
  proof -
    obtain c where c: "merge_key negated s = Some (key, c)" and "s \<in> set conds" using s unfolding group_entries_key by blast
    then have "cond_values env row s = ?vals" using same_key_values [OF c c0 assms(1) _ hd_in] by simp
    then show ?thesis using hit_single [OF c, of env row] c by simp
  qed
  have "(\<exists>g \<in> set (group_additions negated conds key). hit env row negated g) \<longleftrightarrow>
        (\<exists>batch \<in> set (chunk jsonCondBatchSize ?cs). \<exists>v \<in> set ?vals. \<exists>d \<in> set batch. selects env (with_value row v) d)"
    using assms(2) by (simp add: group_additions_def Let_def hit_group [OF c0])
  also have "\<dots> \<longleftrightarrow> (\<exists>v \<in> set ?vals. \<exists>d \<in> set (concat (chunk jsonCondBatchSize ?cs)). selects env (with_value row v) d)"
    by (simp add: set_concat) blast
  also have "\<dots> \<longleftrightarrow> (\<exists>v \<in> set ?vals. \<exists>d \<in> set ?cs. selects env (with_value row v) d)"
    by (simp add: concat_chunk jsonCondBatchSize_def)
  also have "\<dots> \<longleftrightarrow> (\<exists>s \<in> set ?es. hit env row negated s)"
    using entry by auto
  finally show ?thesis .
qed

lemma set_group_keys: "key \<in> set (group_keys negated conds) \<longleftrightarrow> (\<exists>s \<in> set conds. \<exists>c. merge_key negated s = Some (key, c))"
  by (auto simp: group_keys_def List.map_filter_def image_iff) (metis fst_conv option.sel option.simps(3))

lemma removed_iff: "removed negated conds s \<longleftrightarrow> (\<exists>key c. merge_key negated s = Some (key, c) \<and> big_group negated conds key)"
  by (auto simp: removed_def split: option.splits)

lemma merge_hit:
  assumes "same_numeric conds"
  shows "(\<exists>s \<in> set (fst (mergeSameFieldConds conds negated)). hit env row negated s) \<longleftrightarrow> (\<exists>s \<in> set conds. hit env row negated s)"
proof (cases "list_ex (removed negated conds) conds")
  case False
  then show ?thesis by (simp add: mergeSameFieldConds_def)
next
  case True
  let ?H = "hit env row negated"
  have "(\<exists>s \<in> set (fst (mergeSameFieldConds conds negated)). ?H s) \<longleftrightarrow>
        (\<exists>s \<in> set conds. \<not> removed negated conds s \<and> ?H s) \<or>
        (\<exists>key \<in> set (group_keys negated conds). \<exists>g \<in> set (group_additions negated conds key). ?H g)"
    using True by (auto simp: mergeSameFieldConds_def)
  also have "(\<exists>key \<in> set (group_keys negated conds). \<exists>g \<in> set (group_additions negated conds key). ?H g) \<longleftrightarrow>
             (\<exists>key. big_group negated conds key \<and> (\<exists>s \<in> set (group_entries negated conds key). ?H s))"
  proof -
    have "(\<exists>g \<in> set (group_additions negated conds key). ?H g) \<longleftrightarrow>
          big_group negated conds key \<and> (\<exists>s \<in> set (group_entries negated conds key). ?H s)" for key
      using hit_additions [OF assms, of negated key env row] by (cases "big_group negated conds key") (auto simp: group_additions_def)
    moreover have "s \<in> set (group_entries negated conds key) \<Longrightarrow> key \<in> set (group_keys negated conds)" for s key
      unfolding set_group_keys group_entries_key by blast
    ultimately show ?thesis by (metis (lifting))
  qed
  also have "\<dots> \<longleftrightarrow> (\<exists>s \<in> set conds. removed negated conds s \<and> ?H s)"
    unfolding removed_iff Bex_def group_entries_key by blast
  finally show ?thesis by blast
qed

lemma merge_selects:
  assumes "same_numeric conds"
  shows "selects env row (mergeJsonConds conds) \<longleftrightarrow> (\<exists>c \<in> set conds. selects env row c)"
    and "selects env row (mergeNegatedJsonConds conds) \<longleftrightarrow> (\<forall>c \<in> set conds. selects env row c)"
  using merge_hit [OF assms, of False env row] merge_hit [OF assms, of True env row]
  by (auto simp: mergeJsonConds_def mergeNegatedJsonConds_def hit_def)

fun group_size :: "sqlizer \<Rightarrow> nat" where
  "group_size (tagCondGroup tag num cs neg) = length cs"
| "group_size (roleCondGroup role cs neg) = length cs"
| "group_size _ = 0"

lemma make_group_size: "group_size (make_group negated s batch) \<le> length batch \<or> make_group negated s batch = s"
  by (cases "(negated, s, batch)" rule: make_group.cases) auto

lemma merged_size:
  assumes "g \<in> set (fst (mergeSameFieldConds conds negated))"
  shows "g \<in> set conds \<or> group_size g \<le> jsonCondBatchSize"
proof -
  consider "g \<in> set conds" | key where "big_group negated conds key" "g \<in> set (group_additions negated conds key)"
    using assms by (auto simp: mergeSameFieldConds_def group_additions_def Let_def split: if_splits)
  then show ?thesis
  proof cases
    case 2
    then obtain batch where g: "g = make_group negated (hd (group_entries negated conds key)) batch"
      and "length batch \<le> jsonCondBatchSize"
      by (auto simp: group_additions_def Let_def dest: chunk_length)
    moreover have "hd (group_entries negated conds key) \<in> set conds"
    proof -
      have "group_entries negated conds key \<noteq> []" using 2(1) by (auto simp: big_group_def)
      then have "hd (group_entries negated conds key) \<in> set (group_entries negated conds key)" by simp
      then show ?thesis unfolding group_entries_key by simp
    qed
    ultimately show ?thesis using make_group_size [of negated "hd (group_entries negated conds key)" batch] by auto
  qed simp
qed


definition ex_conds :: "sqlizer list" where
  "ex_conds =
     [tagCond ''genre'' False (Some (Cmp cmpEq [(Column ''value'', JStr ''Rock'')])) False,
      Cmp cmpGt [(Column ''media_file.year'', JNum 1990)],
      tagCond ''genre'' False (Some (Cmp cmpEq [(Column ''value'', JStr ''Jazz'')])) False]"


end
