(* ===== verification/Criteria_SQL_Props.thy ===== *)
theory Criteria_SQL_Props
  imports Criteria_SQL
begin

text \<open>
  What the SQL of smart playlists means. The specification \<open>matches\<close> says of a track whether it satisfies an expression,
  in terms of the values of fields: a field has the values of a tag or a role, or the value of a column, with the default
  where the user has not annotated the item. The translation refines it, fails exactly for invalid rules,
  and joins every table it refers to.
\<close>

section \<open>Well-formed field maps\<close>

text \<open>Canonical names are in lower case and a tag is a number under all its names or under none.\<close>

definition fields_ok :: "field_map \<Rightarrow> bool" where
  "fields_ok fm \<longleftrightarrow> (\<forall>(k, f) \<in> set fm. go_lower (fi_Alias f) = fi_Alias f)"

definition numeric_ok :: "field_map \<Rightarrow> bool" where
  "numeric_ok fm \<longleftrightarrow>
     (\<forall>a b i j. LookupField fm a = Some i \<longrightarrow> LookupField fm b = Some j \<longrightarrow> fi_IsTag i \<longrightarrow> fi_IsTag j \<longrightarrow>
        fi_name i = fi_name j \<longrightarrow> fi_Numeric i = fi_Numeric j)"

lemma LookupField_name_lower:
  assumes "fields_ok fm" and "LookupField fm name = Some info"
  shows "go_lower (fi_name info) = fi_name info"
  using assms map_of_SomeD [of fm "go_lower name"]
  by (fastforce simp: LookupField_def Let_def fields_ok_def split: option.splits)

lemma fieldMap_ok: "fields_ok fieldMap"
  unfolding fields_ok_def by code_simp

section \<open>Specification\<close>

definition info_values :: "sql_env \<Rightarrow> sql_row \<Rightarrow> FieldInfo \<Rightarrow> (string + rat) list" where
  "info_values env row info =
     (if fi_IsRole info then role_values (fi_name info) row else tag_values env (fi_Numeric info) (fi_name info) row)"

definition value_is :: "sql_env \<Rightarrow> comparator \<Rightarrow> json \<Rightarrow> string + rat \<Rightarrow> bool" where
  "value_is env c v x \<longleftrightarrow> cmp_value env c (Column ''value'') (Some x) v = Some True"

definition pattern_of :: "operator \<Rightarrow> string \<times> string" where
  "pattern_of oper =
     (if oper = StartsWith then ('''', ''%'') else if oper = EndsWith then (''%'', '''') else (''%'', ''%''))"

definition pattern :: "sql_env \<Rightarrow> operator \<Rightarrow> json \<Rightarrow> string" where
  "pattern env oper v = fst (pattern_of oper) @ sprint_v env v @ snd (pattern_of oper)"

fun comparison_of :: "operator \<Rightarrow> comparator" where
  "comparison_of Is = cmpEq" | "comparison_of IsNot = cmpNe" | "comparison_of Gt = cmpGt" | "comparison_of After = cmpGt"
| "comparison_of Lt = cmpLt" | "comparison_of Before = cmpLt" | "comparison_of _ = cmpEq"

text \<open>A rule on a tag or role asks for some value; its negation for none.\<close>

definition values_match :: "sql_env \<Rightarrow> (string + rat) list \<Rightarrow> operator \<Rightarrow> json \<Rightarrow> bool" where
  "values_match env vals oper v =
     (if oper = IsMissing then v = JBool (vals = [])
      else if oper = IsPresent then v = JBool (vals \<noteq> [])
      else if oper = IsNot then \<not> (\<exists>x \<in> set vals. value_is env cmpEq v x)
      else if oper = NotContains then \<not> (\<exists>x \<in> set vals. like_match env x (pattern env oper v))
      else if oper \<in> {Contains, StartsWith, EndsWith} then \<exists>x \<in> set vals. like_match env x (pattern env oper v)
      else \<exists>x \<in> set vals. value_is env (comparison_of oper) v x)"

text \<open>A rule on a column compares its value, or the default when there is none.\<close>

definition column_is :: "sql_env \<Rightarrow> sql_row \<Rightarrow> comparator \<Rightarrow> smartPlaylistField \<Rightarrow> json \<Rightarrow> bool" where
  "column_is env row c f v \<longleftrightarrow> cmp_value env c (coalesced f) (col_value row (coalesced f)) v = Some True"

definition column_missing :: "sql_env \<Rightarrow> sql_row \<Rightarrow> FieldInfo \<Rightarrow> smartPlaylistField \<Rightarrow> bool" where
  "column_missing env row info f \<longleftrightarrow>
     row_col row (sp_expr f) = None \<or>
     (\<exists>e \<in> set (empty_values info f). compare3 env cmpEq (Column (sp_expr f)) (row_col row (sp_expr f)) (JStr e) = Some True)"

definition period_start :: "sql_env \<Rightarrow> int \<Rightarrow> json \<Rightarrow> json" where
  "period_start env now v = JStr (startOfPeriod env (the (atoi (sprint_v env v))) now)"

definition column_match :: "sql_env \<Rightarrow> int \<Rightarrow> sql_row \<Rightarrow> FieldInfo \<Rightarrow> smartPlaylistField \<Rightarrow> operator \<Rightarrow> json \<Rightarrow> bool" where
  "column_match env now row info f oper v =
     (if oper = IsMissing then v = JBool (column_missing env row info f)
      else if oper = IsPresent then v = JBool (\<not> column_missing env row info f)
      else if oper = InTheRange then (case v of JArr [low, high] \<Rightarrow> column_is env row cmpGe f low \<and> column_is env row cmpLe f high | _ \<Rightarrow> False)
      else if oper = InTheLast then cmp_value env cmpGt (Column (sp_expr f)) (row_col row (sp_expr f)) (period_start env now v) = Some True
      else if oper = NotInTheLast then row_col row (sp_expr f) = None \<or>
        cmp_value env cmpLt (Column (sp_expr f)) (row_col row (sp_expr f)) (period_start env now v) = Some True
      else if oper \<in> {Contains, NotContains, StartsWith, EndsWith}
        then like_value env (oper = NotContains) (col_value row (coalesced f)) (pattern env oper v) = Some True
      else column_is env row (comparison_of oper) f v)"

text \<open>A playlist rule asks whether the track is in a playlist that the owner may see.\<close>

definition playlist_match :: "sql_env \<Rightarrow> User \<Rightarrow> sql_row \<Rightarrow> (string \<times> json) list \<Rightarrow> bool" where
  "playlist_match env owner row m \<longleftrightarrow>
     (\<exists>p \<in> set (row_playlists row). visible owner p \<and>
        (case string_entry m ''id'' of
           Some i \<Rightarrow> pr_id p = i
         | None \<Rightarrow> (case string_entry m ''path'' of Some path \<Rightarrow> pr_path p \<in> set (pathVariants env path) | None \<Rightarrow> False)))"

fun rule_matches :: "sql_env \<Rightarrow> field_map \<Rightarrow> User \<Rightarrow> int \<Rightarrow> sql_row \<Rightarrow> operator \<Rightarrow> (string \<times> json) list \<Rightarrow> bool" where
  "rule_matches env fm owner now row InPlaylist m = playlist_match env owner row m"
| "rule_matches env fm owner now row NotInPlaylist m = (\<not> playlist_match env owner row m)"
| "rule_matches env fm owner now row oper m =
     (case singleField fm m of
        None \<Rightarrow> False
      | Some (field, v, info) \<Rightarrow>
          if fi_IsTag info \<or> fi_IsRole info then values_match env (info_values env row info) oper v
          else column_match env now row info (the (map_of smartPlaylistFields (fi_name info))) oper v)"

fun matches :: "sql_env \<Rightarrow> field_map \<Rightarrow> User \<Rightarrow> int \<Rightarrow> sql_row \<Rightarrow> Expression \<Rightarrow> bool" where
  "matches env fm owner now row (All es) = (\<forall>e \<in> set es. matches env fm owner now row e)"
| "matches env fm owner now row (Any es) = (\<exists>e \<in> set es. matches env fm owner now row e)"
| "matches env fm owner now row (Rule oper m) = rule_matches env fm owner now row oper m"

section \<open>Single conditions\<close>

lemma selects_Cmp [simp]: "selects env row (Cmp c [(col, v)]) \<longleftrightarrow> cmp_value env c col (col_value row col) v = Some True"
  by (simp add: selects_def conj3_True)

lemma selects_Like [simp]: "selects env row (LikeCond neg [(col, pat)]) \<longleftrightarrow> like_value env neg (col_value row col) pat = Some True"
  by (simp add: selects_def conj3_True)

lemma row_col_value [simp]: "row_col (with_value row v) ''value'' = Some v"
  by (simp add: with_value_def)

lemma selects_json:
  "selects env row (jsonExpr info (Some c) neg) \<longleftrightarrow> (\<exists>v \<in> set (info_values env row info). selects env (with_value row v) c) \<noteq> neg"
  "selects env row (jsonExpr info None neg) \<longleftrightarrow> (info_values env row info \<noteq> []) \<noteq> neg"
  by (simp_all add: jsonExpr_def info_values_def)

lemma like_value_Some: "like_value env neg (Some x) pat = Some True \<longleftrightarrow> like_match env x pat \<noteq> neg"
  by (simp add: like_value_def)

text \<open>What the database promises: inequality is the negation of equality, and annotations with a default are numbers.\<close>

definition database_ok :: "sql_env \<Rightarrow> sql_row \<Rightarrow> bool" where
  "database_ok env row \<longleftrightarrow>
     (\<forall>col x v. other_compare env cmpNe col x v = (\<not> other_compare env cmpEq col x v)) \<and>
     (\<forall>(k, f) \<in> set smartPlaylistFields. sp_coalesceDefault f \<noteq> None \<longrightarrow> (\<forall>t. row_col row (sp_expr f) \<noteq> Some (Inl t)))"

text \<open>The table of fields: defaults are zero or false, and only the random order has no column.\<close>

lemma annotation_table:
  "list_all (\<lambda>(k, f). sp_coalesceDefault f = None \<or>
      (sp_expr f \<noteq> '''' \<and> (sp_coalesceDefault f = Some (JBool False) \<or> sp_coalesceDefault f = Some (JNum 0)))) smartPlaylistFields"
  by code_simp

lemma annotation_entry:
  assumes "map_of smartPlaylistFields k = Some f" and "sp_coalesceDefault f \<noteq> None"
  shows "sp_expr f \<noteq> ''''" and "sp_coalesceDefault f = Some (JBool False) \<or> sp_coalesceDefault f = Some (JNum 0)"
  using annotation_table map_of_SomeD [OF assms(1)] assms(2) unfolding list_all_iff by fastforce+

lemma field_default:
  assumes "map_of smartPlaylistFields k = Some f" and "sp_coalesceDefault f = Some d"
  shows "d = JBool False \<or> d = JNum 0"
  using annotation_entry(2) [OF assms(1)] assms(2) by auto

text \<open>A value the code does not take for a number or truth value in disguise.\<close>

fun plain_value :: "sql_env \<Rightarrow> json \<Rightarrow> bool" where
  "plain_value env (JStr s) = (parse_float env s = None \<and> parse_bool s = None)"
| "plain_value env v = True"

lemma bareNullInclusion_num:
  assumes "bareNullInclusion env d c v = Some w" and "plain_value env v" and "d = JBool False \<or> d = JNum 0"
  shows "\<exists>q. num_of v = Some q \<and> w = satisfy c 0 q"
  using assms by (cases v) (auto simp: bareNullInclusion_def boolToFloat_def split: if_splits)

lemma cmp_value_num: "num_of v = Some q \<Longrightarrow> cmp_value env c col x v = compare3 env c col x v"
  by (cases v) auto

text \<open>The bare form of a comparison with an annotation selects what the form with the default does.\<close>

lemma annotationCond_equiv:
  assumes "map_of smartPlaylistFields k = Some f" and "sp_coalesceDefault f = Some d"
    and "database_ok env row" and "plain_value env v"
  shows "selects env row (annotationCond env f d c v) \<longleftrightarrow> column_is env row c f v"
proof (cases "bareNullInclusion env d c v")
  case None
  then show ?thesis by (simp add: annotationCond_def column_is_def)
next
  case (Some w)
  note d = field_default [OF assms(1, 2)]
  obtain q where q: "num_of v = Some q" and w: "w = satisfy c 0 q"
    using bareNullInclusion_num [OF Some assms(4) d] by blast
  have zero: "num_of d = Some 0" using d by (auto simp: boolToFloat_def)
  have "(k, f) \<in> set smartPlaylistFields" by (rule map_of_SomeD [OF assms(1)])
  then have typed: "row_col row (sp_expr f) \<noteq> Some (Inl t)" for t
    using assms(2, 3) unfolding database_ok_def by fastforce
  consider "row_col row (sp_expr f) = None" | a where "row_col row (sp_expr f) = Some (Inr a)"
    using typed by (metis option.exhaust sum.exhaust)
  then show ?thesis
    using Some w q zero assms(2)
    by cases (auto simp: annotationCond_def column_is_def coalesced_def cmp_value_num compare3_def Let_def)
qed

lemma coalesced_plain: "sp_coalesceDefault f = None \<Longrightarrow> coalesced f = Column (sp_expr f)"
  by (simp add: coalesced_def)

section \<open>Rules\<close>

lemma sqlFields_single: "sqlFields fm [(field, v)] = map_sum id (\<lambda>e. [(e, v)]) (sql_field fm field)"
  by (simp add: sqlFields_def split: sum.split)

lemma sql_field_Inr:
  assumes "fields_ok fm"
  shows "sql_field fm field = Inr e \<longleftrightarrow>
         (\<exists>info f. LookupField fm field = Some info \<and> \<not> fi_IsTag info \<and> \<not> fi_IsRole info \<and>
            map_of smartPlaylistFields (fi_name info) = Some f \<and> e = sp_expr f \<and> e \<noteq> '''')"
  using LookupField_name_lower [OF assms, of field]
  by (auto simp: sql_field_def fieldExpr_def split: option.splits)

lemma singleField_Some: "singleField fm m = Some (field, v, info) \<longleftrightarrow> m = [(field, v)] \<and> LookupField fm field = Some info"
  by (auto simp: singleField_def split: list.splits option.splits)

text \<open>A rule on one known field, of a tag or role, or of a column that exists.\<close>

definition known_column :: "field_map \<Rightarrow> string \<Rightarrow> FieldInfo \<Rightarrow> smartPlaylistField \<Rightarrow> bool" where
  "known_column fm field info f \<longleftrightarrow> LookupField fm field = Some info \<and> \<not> fi_IsTag info \<and> \<not> fi_IsRole info \<and>
     map_of smartPlaylistFields (fi_name info) = Some f \<and> sp_expr f \<noteq> ''''"

lemma comparisonExpr_tag:
  assumes "LookupField fm field = Some info" and "fi_IsTag info \<or> fi_IsRole info"
  shows "comparisonExpr env fm [(field, v)] c = Inr (jsonExpr info (Some (Cmp c [(Column ''value'', v)])) False)"
  using assms by (auto simp: comparisonExpr_def singleField_def Let_def)

lemma comparisonExpr_column:
  assumes "LookupField fm field = Some info" and "\<not> fi_IsTag info" and "\<not> fi_IsRole info" and "fields_ok fm"
    and "comparisonExpr env fm [(field, v)] c = Inr s" and "database_ok env row" and "annotationField info \<noteq> None \<Longrightarrow> plain_value env v"
  shows "\<exists>f. map_of smartPlaylistFields (fi_name info) = Some f \<and> (selects env row s \<longleftrightarrow> column_is env row c f v)"
proof (cases "annotationField info")
  case None
  then obtain e where e: "sql_field fm field = Inr e" and s: "s = Cmp c [(Column e, v)]"
    using assms by (auto simp: comparisonExpr_def singleField_def sqlFields_single columns_def map_sum_id_Inr)
  from e obtain f where f: "map_of smartPlaylistFields (fi_name info) = Some f" "e = sp_expr f"
    using assms(1) by (auto simp: sql_field_Inr [OF assms(4)])
  then have "sp_coalesceDefault f = None" using None by (auto simp: annotationField_def split: if_splits)
  with f s show ?thesis by (simp add: column_is_def coalesced_plain)
next
  case (Some f)
  then have f: "map_of smartPlaylistFields (fi_name info) = Some f" "sp_coalesceDefault f \<noteq> None"
    by (auto simp: annotationField_def split: option.splits if_splits)
  then obtain d where d: "sp_coalesceDefault f = Some d" by blast
  have "s = annotationCond env f d c v"
    using assms(1-3, 5) Some d by (simp add: comparisonExpr_def singleField_def Let_def)
  then show ?thesis using annotationCond_equiv [OF f(1) d assms(6) assms(7)] Some f(1) by simp
qed

definition operand_plain :: "sql_env \<Rightarrow> operator \<Rightarrow> json \<Rightarrow> bool" where
  "operand_plain env oper v =
     (if oper = InTheRange then (case v of JArr vs \<Rightarrow> list_all (plain_value env) vs | _ \<Rightarrow> True) else plain_value env v)"

text \<open>The rules the file format knows: one field each, and no text for an annotated number.\<close>

definition rule_plain :: "sql_env \<Rightarrow> field_map \<Rightarrow> operator \<Rightarrow> (string \<times> json) list \<Rightarrow> bool" where
  "rule_plain env fm oper m \<longleftrightarrow>
     oper \<in> {InPlaylist, NotInPlaylist} \<or>
     (\<exists>field v. m = [(field, v)] \<and>
        (\<forall>info. LookupField fm field = Some info \<longrightarrow> annotationField info \<noteq> None \<longrightarrow> operand_plain env oper v))"

lemma comparison_known:
  assumes "comparisonExpr env fm [(field, v)] c = Inr s"
  obtains info where "LookupField fm field = Some info"
  using assms by (cases "LookupField fm field")
    (auto simp: comparisonExpr_def singleField_def Let_def sqlFields_single sql_field_def)

lemma comparison_refines:
  assumes "fields_ok fm" and "database_ok env row" and "LookupField fm field = Some info"
    and "comparisonExpr env fm [(field, v)] c = Inr s" and "annotationField info \<noteq> None \<Longrightarrow> plain_value env v"
  shows "selects env row s \<longleftrightarrow>
         (if fi_IsTag info \<or> fi_IsRole info then \<exists>x \<in> set (info_values env row info). value_is env c v x
          else column_is env row c (the (map_of smartPlaylistFields (fi_name info))) v)"
proof (cases "fi_IsTag info \<or> fi_IsRole info")
  case True
  then have "s = jsonExpr info (Some (Cmp c [(Column ''value'', v)])) False"
    using assms(4) comparisonExpr_tag [OF assms(3) True] by simp
  then show ?thesis using True by (simp add: selects_json value_is_def)
next
  case False
  then show ?thesis using comparisonExpr_column [OF assms(3) _ _ assms(1, 4, 2, 5)] by auto
qed

lemma like_refines:
  assumes "fields_ok fm" and "likeExpr env fm [(field, v)] pat neg = Inr s"
  shows "\<exists>info. LookupField fm field = Some info \<and>
           (selects env row s \<longleftrightarrow>
            (let p = fst pat @ sprint_v env v @ snd pat in
             if fi_IsTag info \<or> fi_IsRole info then (\<exists>x \<in> set (info_values env row info). like_match env x p) \<noteq> neg
             else like_value env neg (col_value row (coalesced (the (map_of smartPlaylistFields (fi_name info))))) p = Some True))"
proof (cases "LookupField fm field")
  case None
  then show ?thesis using assms by (simp add: likeExpr_def singleField_def Let_def sqlFields_single sql_field_def)
next
  case (Some info)
  show ?thesis
  proof (cases "fi_IsTag info \<or> fi_IsRole info")
    case True
    then show ?thesis using assms Some by (auto simp: likeExpr_def singleField_def Let_def selects_json like_value_Some)
  next
    case column: False
    show ?thesis
    proof (cases "annotationField info")
      case None
      then obtain e where e: "sql_field fm field = Inr e" and s: "s = LikeCond neg [(Column e, fst pat @ sprint_v env v @ snd pat)]"
        using assms Some column by (auto simp: likeExpr_def singleField_def Let_def sqlFields_single map_sum_id_Inr)
      from e obtain f where f: "map_of smartPlaylistFields (fi_name info) = Some f" "e = sp_expr f"
        using Some by (auto simp: sql_field_Inr [OF assms(1)])
      then have "sp_coalesceDefault f = None" using None by (auto simp: annotationField_def split: if_splits)
      with f s Some column show ?thesis by (simp add: coalesced_plain Let_def)
    next
      case ann: (Some f)
      then have "map_of smartPlaylistFields (fi_name info) = Some f" by (auto simp: annotationField_def split: option.splits if_splits)
      then show ?thesis using assms(2) Some column ann by (auto simp: likeExpr_def singleField_def Let_def)
    qed
  qed
qed

lemma period_refines:
  assumes "fields_ok fm" and "periodExpr env fm now [(field, v)] neg = Inr s"
  shows "\<exists>info f. LookupField fm field = Some info \<and> \<not> fi_IsTag info \<and> \<not> fi_IsRole info \<and>
           map_of smartPlaylistFields (fi_name info) = Some f \<and>
           (selects env row s \<longleftrightarrow>
            (if neg then row_col row (sp_expr f) = None \<or>
               cmp_value env cmpLt (Column (sp_expr f)) (row_col row (sp_expr f)) (period_start env now v) = Some True
             else cmp_value env cmpGt (Column (sp_expr f)) (row_col row (sp_expr f)) (period_start env now v) = Some True))"
proof -
  obtain e where e: "sql_field fm field = Inr e"
    using assms(2) by (cases "sql_field fm field") (auto simp: periodExpr_def sqlFields_single)
  from e obtain info f where f: "LookupField fm field = Some info" "\<not> fi_IsTag info" "\<not> fi_IsRole info"
    "map_of smartPlaylistFields (fi_name info) = Some f" "e = sp_expr f"
    by (auto simp: sql_field_Inr [OF assms(1)])
  have "selects env row s \<longleftrightarrow>
            (if neg then row_col row (sp_expr f) = None \<or>
               cmp_value env cmpLt (Column (sp_expr f)) (row_col row (sp_expr f)) (period_start env now v) = Some True
             else cmp_value env cmpGt (Column (sp_expr f)) (row_col row (sp_expr f)) (period_start env now v) = Some True)"
    using assms(2) e f(5) by (auto simp: periodExpr_def sqlFields_single period_start_def Let_def split: option.splits if_splits)
  with f(1-4) show ?thesis by blast
qed

lemma missing_refines:
  assumes "database_ok env row" and "missingExpr fm [(field, v)] absent = Inr s"
  shows "\<exists>info. LookupField fm field = Some info \<and>
           (selects env row s \<longleftrightarrow>
            (if fi_IsTag info \<or> fi_IsRole info then v = JBool ((info_values env row info = []) = absent)
             else v = JBool (column_missing env row info (the (map_of smartPlaylistFields (fi_name info))) = absent)))"
proof -
  obtain info b where info: "LookupField fm field = Some info" and v: "v = JBool b"
    using assms(2) by (auto simp: missingExpr_def singleField_def split: option.splits json.splits)
  show ?thesis
  proof (cases "fi_IsTag info \<or> fi_IsRole info")
    case True
    then show ?thesis using assms(2) info v by (auto simp: missingExpr_def singleField_def Let_def selects_json)
  next
    case False
    then obtain f where f: "map_of smartPlaylistFields (fi_name info) = Some f"
      and s: "s = (if absent = b then SqlOr (Cmp cmpEq [(Column (sp_expr f), JNull)] # map (\<lambda>e. Cmp cmpEq [(Column (sp_expr f), JStr e)]) (empty_values info f))
                   else SqlAnd (Cmp cmpNe [(Column (sp_expr f), JNull)] # map (\<lambda>e. Cmp cmpNe [(Column (sp_expr f), JStr e)]) (empty_values info f)))"
      using assms(2) info v by (auto simp: missingExpr_def singleField_def Let_def split: if_splits option.splits)
    have ne: "compare3 env cmpNe col (Some y) (JStr e) = Some True \<longleftrightarrow> compare3 env cmpEq col (Some y) (JStr e) \<noteq> Some True" for col y e
      using assms(1) by (auto simp: compare3_def database_ok_def split: sum.split)
    have "selects env row s \<longleftrightarrow> (column_missing env row info f \<longleftrightarrow> absent = b)"
    proof (cases "row_col row (sp_expr f)")
      case None
      then show ?thesis by (auto simp: s column_missing_def)
    next
      case (Some y)
      then show ?thesis by (auto simp: s column_missing_def ne)
    qed
    then show ?thesis using info v f False by auto
  qed
qed

lemma range_refines:
  assumes "fields_ok fm" and "database_ok env row" and "rangeExpr env fm [(field, v)] = Inr s"
    and "\<And>info. LookupField fm field = Some info \<Longrightarrow> annotationField info \<noteq> None \<Longrightarrow> operand_plain env InTheRange v"
  shows "\<exists>info f low high. LookupField fm field = Some info \<and> \<not> fi_IsTag info \<and> \<not> fi_IsRole info \<and> v = JArr [low, high] \<and>
           f = the (map_of smartPlaylistFields (fi_name info)) \<and>
           (selects env row s \<longleftrightarrow> column_is env row cmpGe f low \<and> column_is env row cmpLe f high)"
proof -
  obtain info where info: "LookupField fm field = Some info" and col: "\<not> fi_IsTag info" "\<not> fi_IsRole info"
    using assms(3) by (auto simp: rangeExpr_def singleField_def split: option.splits if_splits)
  then obtain low high l h where v: "v = JArr [low, high]" and l: "comparisonExpr env fm [(field, low)] cmpGe = Inr l"
    and h: "comparisonExpr env fm [(field, high)] cmpLe = Inr h" and s: "s = SqlAnd [l, h]"
    using assms(3) by (auto simp: rangeExpr_def singleField_def split: json.splits list.splits sum.splits)
  have "annotationField info \<noteq> None \<Longrightarrow> plain_value env low" "annotationField info \<noteq> None \<Longrightarrow> plain_value env high"
    using assms(4) [OF info] by (auto simp: operand_plain_def v)
  then show ?thesis
    using comparison_refines [OF assms(1, 2) info l] comparison_refines [OF assms(1, 2) info h] info col v s by auto
qed

section \<open>The translation refines the specification\<close>

lemma playlist_refines:
  assumes "inList env owner m neg = Inr s"
  shows "selects env row s \<longleftrightarrow> playlist_match env owner row m \<noteq> neg"
  using assms
  by (auto simp: inList_def playlist_match_def selects_def list_ex_iff split: option.splits)

lemma isNotExpr_cases:
  assumes "LookupField fm field = Some info"
  shows "isNotExpr env fm [(field, v)] =
         (if fi_IsTag info \<or> fi_IsRole info then Inr (jsonExpr info (Some (Cmp cmpEq [(Column ''value'', v)])) True)
          else comparisonExpr env fm [(field, v)] cmpNe)"
  using assms by (simp add: isNotExpr_def singleField_def)

lemma isNotExpr_known: "isNotExpr env fm [(field, v)] = Inr s \<Longrightarrow> \<exists>info. LookupField fm field = Some info"
  by (cases "LookupField fm field")
     (auto simp: isNotExpr_def comparisonExpr_def singleField_def Let_def sqlFields_single sql_field_def)

lemma comparison_rule_refines:
  assumes "fields_ok fm" and "database_ok env row" and "comparisonExpr env fm [(field, v)] (comparison_of oper) = Inr s"
    and "\<And>info. LookupField fm field = Some info \<Longrightarrow> annotationField info \<noteq> None \<Longrightarrow> operand_plain env oper v"
    and "oper \<in> {Is, Gt, Lt, Before, After}"
  shows "selects env row s \<longleftrightarrow> rule_matches env fm owner now row oper [(field, v)]"
proof -
  obtain info where info: "LookupField fm field = Some info" by (rule comparison_known [OF assms(3)])
  have "annotationField info \<noteq> None \<Longrightarrow> plain_value env v" using assms(4) [OF info] assms(5) by (auto simp: operand_plain_def)
  from comparison_refines [OF assms(1, 2) info assms(3) this] info assms(5) show ?thesis
    by (auto simp: singleField_def values_match_def column_match_def)
qed

lemma isNot_rule_refines:
  assumes "fields_ok fm" and "database_ok env row" and "isNotExpr env fm [(field, v)] = Inr s"
    and "\<And>info. LookupField fm field = Some info \<Longrightarrow> annotationField info \<noteq> None \<Longrightarrow> operand_plain env IsNot v"
  shows "selects env row s \<longleftrightarrow> rule_matches env fm owner now row IsNot [(field, v)]"
proof -
  obtain info where info: "LookupField fm field = Some info" using isNotExpr_known [OF assms(3)] by blast
  show ?thesis
  proof (cases "fi_IsTag info \<or> fi_IsRole info")
    case True
    then show ?thesis using assms(3) info
      by (auto simp: isNotExpr_cases [OF info] selects_json singleField_def values_match_def value_is_def)
  next
    case False
    then have s: "comparisonExpr env fm [(field, v)] cmpNe = Inr s" using assms(3) by (simp add: isNotExpr_cases [OF info])
    have "annotationField info \<noteq> None \<Longrightarrow> plain_value env v" using assms(4) [OF info] by (auto simp: operand_plain_def)
    from comparison_refines [OF assms(1, 2) info s this] False info show ?thesis
      by (simp add: singleField_def column_match_def)
  qed
qed

lemma like_rule_refines:
  assumes "fields_ok fm" and "likeExpr env fm [(field, v)] (pattern_of oper) (oper = NotContains) = Inr s"
    and "oper \<in> {Contains, NotContains, StartsWith, EndsWith}"
  shows "selects env row s \<longleftrightarrow> rule_matches env fm owner now row oper [(field, v)]"
  using like_refines [OF assms(1, 2), of row] assms(3)
  by (auto simp: singleField_def values_match_def column_match_def pattern_def Let_def split: if_splits)

lemma period_rule_refines:
  assumes "fields_ok fm" and "periodExpr env fm now [(field, v)] (oper = NotInTheLast) = Inr s" and "oper \<in> {InTheLast, NotInTheLast}"
  shows "selects env row s \<longleftrightarrow> rule_matches env fm owner now row oper [(field, v)]"
  using period_refines [OF assms(1, 2), of row] assms(3) by (auto simp: singleField_def column_match_def)

lemma missing_rule_refines:
  assumes "database_ok env row" and "missingExpr fm [(field, v)] (oper = IsMissing) = Inr s" and "oper \<in> {IsMissing, IsPresent}"
  shows "selects env row s \<longleftrightarrow> rule_matches env fm owner now row oper [(field, v)]"
  using missing_refines [OF assms(1, 2)] assms(3) by (auto simp: singleField_def values_match_def column_match_def split: if_splits)

lemma ruleSQL_refines:
  assumes "fields_ok fm" and "database_ok env row" and "ruleSQL env fm owner now oper m = Inr s" and "rule_plain env fm oper m"
  shows "selects env row s \<longleftrightarrow> rule_matches env fm owner now row oper m"
proof (cases "oper \<in> {InPlaylist, NotInPlaylist}")
  case True
  then show ?thesis using assms(3) playlist_refines by fastforce
next
  case False
  then obtain field v where m: "m = [(field, v)]"
    and plain: "\<And>info. LookupField fm field = Some info \<Longrightarrow> annotationField info \<noteq> None \<Longrightarrow> operand_plain env oper v"
    using assms(4) unfolding rule_plain_def by blast
  have R: "ruleSQL env fm owner now oper [(field, v)] = Inr s" using assms(3) m by simp
  consider "oper \<in> {Is, Gt, Lt, Before, After}" | "oper = IsNot" | "oper \<in> {Contains, NotContains, StartsWith, EndsWith}"
    | "oper \<in> {InTheLast, NotInTheLast}" | "oper \<in> {IsMissing, IsPresent}" | "oper = InTheRange"
    using False by (cases oper) auto
  then show ?thesis
  proof cases
    case 1
    then have "comparisonExpr env fm [(field, v)] (comparison_of oper) = Inr s" using R by auto
    from comparison_rule_refines [OF assms(1, 2) this plain 1] show ?thesis by (simp add: m)
  next
    case 2
    then show ?thesis using isNot_rule_refines [OF assms(1, 2), of field v s] R plain m by auto
  next
    case 3
    then have "likeExpr env fm [(field, v)] (pattern_of oper) (oper = NotContains) = Inr s" using R by (auto simp: pattern_of_def)
    from like_rule_refines [OF assms(1) this 3] show ?thesis by (simp add: m)
  next
    case 4
    then have "periodExpr env fm now [(field, v)] (oper = NotInTheLast) = Inr s" using R by auto
    from period_rule_refines [OF assms(1) this 4] show ?thesis by (simp add: m)
  next
    case 5
    then have "missingExpr fm [(field, v)] (oper = IsMissing) = Inr s" using R by auto
    from missing_rule_refines [OF assms(2) this 5] show ?thesis by (simp add: m)
  next
    case 6
    then show ?thesis
      using range_refines [OF assms(1, 2), of field v s] R plain m by (auto simp: singleField_def column_match_def)
  qed
qed

text \<open>Every condition on a tag comes from a field of that name, so conditions on the same tag agree on its kind.\<close>

definition tag_known :: "field_map \<Rightarrow> sqlizer \<Rightarrow> bool" where
  "tag_known fm s \<longleftrightarrow>
     (\<forall>tag n c neg. s = tagCond tag n c neg \<longrightarrow>
        (\<exists>field info. LookupField fm field = Some info \<and> fi_IsTag info \<and> fi_name info = tag \<and> fi_Numeric info = n))"

lemma tag_known_simps [simp]:
  "tag_known fm (Cmp c m)" "tag_known fm (LikeCond b l)" "tag_known fm (SqlAnd cs)" "tag_known fm (SqlOr cs)"
  "tag_known fm (InList r u b)" "tag_known fm (annotationCond env f d c v)"
  by (auto simp: tag_known_def annotationCond_def Let_def split: option.splits)

lemma tag_known_json:
  "LookupField fm field = Some info \<Longrightarrow> fi_IsTag info \<or> fi_IsRole info \<Longrightarrow> tag_known fm (jsonExpr info c neg)"
  by (auto simp: tag_known_def jsonExpr_def)

lemma comparisonExpr_tag_known: "comparisonExpr env fm m c = Inr s \<Longrightarrow> tag_known fm s"
  by (auto simp: comparisonExpr_def Let_def singleField_Some map_sum_id_Inr tag_known_json split: option.splits if_splits)

lemma ruleSQL_tag_known: "ruleSQL env fm owner now oper m = Inr s \<Longrightarrow> tag_known fm s"
  by (cases oper)
     (auto simp: isNotExpr_def likeExpr_def rangeExpr_def periodExpr_def inList_def missingExpr_def Let_def singleField_Some map_sum_id_Inr
        comparisonExpr_tag_known tag_known_json split: option.splits if_splits sum.splits json.splits list.splits)

lemma exprSQL_tag_known: "exprSQL env fm owner now e = Inr s \<Longrightarrow> tag_known fm s"
  by (cases e) (auto simp: map_sum_id_Inr mergeJsonConds_def mergeNegatedJsonConds_def ruleSQL_tag_known)

lemma known_same_numeric: "numeric_ok fm \<Longrightarrow> (\<And>s. s \<in> set conds \<Longrightarrow> tag_known fm s) \<Longrightarrow> same_numeric conds"
  unfolding same_numeric_def numeric_ok_def tag_known_def by metis

fun expr_plain :: "sql_env \<Rightarrow> field_map \<Rightarrow> Expression \<Rightarrow> bool" where
  "expr_plain env fm (All es) = (\<forall>e \<in> set es. expr_plain env fm e)"
| "expr_plain env fm (Any es) = (\<forall>e \<in> set es. expr_plain env fm e)"
| "expr_plain env fm (Rule oper m) = rule_plain env fm oper m"

lemma sequence_elements: "sequence (map f es) = Inr ss \<Longrightarrow> length ss = length es \<and> (\<forall>i < length es. f (es ! i) = Inr (ss ! i))"
  by (simp add: sequence_Inr list_all2_conv_all_nth)


section \<open>Which rules are refused\<close>

lemma annotationField_known:
  assumes "annotationField info = Some f"
  shows "map_of smartPlaylistFields (fi_name info) = Some f \<and> sp_expr f \<noteq> ''''"
proof -
  have f: "map_of smartPlaylistFields (fi_name info) = Some f" "sp_coalesceDefault f \<noteq> None"
    using assms by (auto simp: annotationField_def split: option.splits if_splits)
  then show ?thesis using annotation_entry(1) by blast
qed

definition is_column :: "field_map \<Rightarrow> string \<Rightarrow> bool" where
  "is_column fm field \<longleftrightarrow> (\<exists>info f. known_column fm field info f)"

definition is_json :: "field_map \<Rightarrow> string \<Rightarrow> bool" where
  "is_json fm field \<longleftrightarrow> (\<exists>info. LookupField fm field = Some info \<and> (fi_IsTag info \<or> fi_IsRole info))"

text \<open>What a rule has to be for the translation to accept it.\<close>

definition valid_rule :: "sql_env \<Rightarrow> field_map \<Rightarrow> operator \<Rightarrow> (string \<times> json) list \<Rightarrow> bool" where
  "valid_rule env fm oper m \<longleftrightarrow>
     (if oper \<in> {InPlaylist, NotInPlaylist} then string_entry m ''id'' \<noteq> None \<or> string_entry m ''path'' \<noteq> None
      else \<exists>field v. m = [(field, v)] \<and>
        (if oper \<in> {IsMissing, IsPresent} then (\<exists>b. v = JBool b) \<and> (is_json fm field \<or> (\<exists>info f. known_column fm field info f \<and> fi_Nullable info))
         else if oper = InTheRange then is_column fm field \<and> (\<exists>low high. v = JArr [low, high])
         else if oper \<in> {InTheLast, NotInTheLast} then is_column fm field \<and> atoi (sprint_v env v) \<noteq> None
         else is_json fm field \<or> is_column fm field))"

lemma sql_field_column: "fields_ok fm \<Longrightarrow> (\<exists>e. sql_field fm field = Inr e) \<longleftrightarrow> is_column fm field"
  by (auto simp: sql_field_Inr is_column_def known_column_def)

lemma comparisonExpr_valid:
  assumes "fields_ok fm"
  shows "(\<exists>s. comparisonExpr env fm [(field, v)] c = Inr s) \<longleftrightarrow> is_json fm field \<or> is_column fm field"
proof (cases "LookupField fm field")
  case None
  then show ?thesis
    by (auto simp: comparisonExpr_def singleField_def Let_def sqlFields_single sql_field_def is_json_def is_column_def known_column_def)
next
  case (Some info)
  show ?thesis
  proof (cases "fi_IsTag info \<or> fi_IsRole info")
    case True
    then show ?thesis using Some comparisonExpr_tag [OF Some True] by (auto simp: is_json_def)
  next
    case column: False
    show ?thesis
    proof (cases "annotationField info")
      case None
      then show ?thesis using Some column sql_field_column [OF assms, of field]
        by (auto simp: comparisonExpr_def singleField_def Let_def sqlFields_single map_sum_id_Inr is_json_def)
    next
      case ann: (Some f)
      then show ?thesis using Some column annotationField_known [OF ann]
        by (auto simp: comparisonExpr_def singleField_def Let_def is_column_def known_column_def)
    qed
  qed
qed

lemma isNotExpr_valid:
  assumes "fields_ok fm"
  shows "(\<exists>s. isNotExpr env fm [(field, v)] = Inr s) \<longleftrightarrow> is_json fm field \<or> is_column fm field"
proof (cases "LookupField fm field")
  case None
  then show ?thesis using comparisonExpr_valid [OF assms] by (simp add: isNotExpr_def singleField_def)
next
  case (Some info)
  then show ?thesis using comparisonExpr_valid [OF assms] by (auto simp: isNotExpr_cases is_json_def)
qed

lemma likeExpr_valid:
  assumes "fields_ok fm"
  shows "(\<exists>s. likeExpr env fm [(field, v)] pat neg = Inr s) \<longleftrightarrow> is_json fm field \<or> is_column fm field"
proof (cases "LookupField fm field")
  case None
  then show ?thesis
    by (auto simp: likeExpr_def singleField_def Let_def sqlFields_single sql_field_def is_json_def is_column_def known_column_def)
next
  case (Some info)
  show ?thesis
  proof (cases "fi_IsTag info \<or> fi_IsRole info")
    case True
    then show ?thesis using Some by (auto simp: likeExpr_def singleField_def Let_def is_json_def)
  next
    case column: False
    show ?thesis
    proof (cases "annotationField info")
      case None
      then show ?thesis using Some column sql_field_column [OF assms, of field]
        by (auto simp: likeExpr_def singleField_def Let_def sqlFields_single map_sum_id_Inr is_json_def)
    next
      case ann: (Some f)
      then show ?thesis using Some column annotationField_known [OF ann]
        by (auto simp: likeExpr_def singleField_def Let_def is_column_def known_column_def)
    qed
  qed
qed

lemma rangeExpr_valid:
  assumes "fields_ok fm"
  shows "(\<exists>s. rangeExpr env fm [(field, v)] = Inr s) \<longleftrightarrow> is_column fm field \<and> (\<exists>low high. v = JArr [low, high])"
proof (cases "\<exists>low high. v = JArr [low, high]")
  case True
  then obtain low high where v: "v = JArr [low, high]" by blast
  have "is_json fm field \<Longrightarrow> \<not> is_column fm field" by (auto simp: is_json_def is_column_def known_column_def)
  moreover have "is_column fm field \<Longrightarrow> \<exists>info. LookupField fm field = Some info \<and> \<not> fi_IsTag info \<and> \<not> fi_IsRole info"
    by (auto simp: is_column_def known_column_def)
  ultimately show ?thesis
    using comparisonExpr_valid [OF assms, of env field low cmpGe] comparisonExpr_valid [OF assms, of env field high cmpLe] v
    by (auto simp: rangeExpr_def singleField_def is_json_def split: option.splits sum.splits)
next
  case False
  then show ?thesis by (auto simp: rangeExpr_def singleField_def split: option.splits json.splits list.splits)
qed

lemma periodExpr_valid:
  assumes "fields_ok fm"
  shows "(\<exists>s. periodExpr env fm now [(field, v)] neg = Inr s) \<longleftrightarrow> is_column fm field \<and> atoi (sprint_v env v) \<noteq> None"
  using sql_field_column [OF assms, of field]
  by (cases "sql_field fm field") (auto simp: periodExpr_def sqlFields_single Let_def split: option.splits)

lemma missingExpr_valid:
  "(\<exists>s. missingExpr fm [(field, v)] absent = Inr s) \<longleftrightarrow>
   (\<exists>b. v = JBool b) \<and> (is_json fm field \<or> (\<exists>info f. known_column fm field info f \<and> fi_Nullable info))"
  by (cases v) (auto simp: missingExpr_def singleField_def Let_def is_json_def known_column_def split: option.splits if_splits)

lemma inList_valid: "(\<exists>s. inList env owner m neg = Inr s) \<longleftrightarrow> string_entry m ''id'' \<noteq> None \<or> string_entry m ''path'' \<noteq> None"
  by (auto simp: inList_def split: option.splits)

lemmas translations_valid = comparisonExpr_valid isNotExpr_valid likeExpr_valid rangeExpr_valid periodExpr_valid

lemma ruleSQL_valid:
  assumes "fields_ok fm" and "oper \<in> {InPlaylist, NotInPlaylist} \<or> length m = 1"
  shows "(\<exists>s. ruleSQL env fm owner now oper m = Inr s) \<longleftrightarrow> valid_rule env fm oper m"
proof (cases "oper \<in> {InPlaylist, NotInPlaylist}")
  case True
  then show ?thesis using inList_valid [of env owner m] by (cases oper) (simp_all add: valid_rule_def)
next
  case False
  then obtain field v where "m = [(field, v)]" using assms(2) by (auto simp: length_Suc_conv)
  then show ?thesis using False by (cases oper) (simp_all add: valid_rule_def translations_valid [OF assms(1)] missingExpr_valid)
qed

lemma sequence_ok: "(\<exists>ss. sequence (map f es) = Inr ss) \<longleftrightarrow> (\<forall>e \<in> set es. \<exists>s. f e = Inr s)"
proof (induction es)
  case (Cons e es)
  then show ?case by (cases "f e"; cases "sequence (map f es)") auto
qed simp


section \<open>Every table is joined\<close>

lemma has_join_or: "has_join (a OR b) x \<longleftrightarrow> has_join a x \<or> has_join b x"
  by (simp add: has_join_def bit.conj_disj_distrib2 or_eq_0_iff)

lemma has_join_fold:
  "has_join (fold (\<lambda>(f, _) j. j OR fieldJoinType fm f) m j) x \<longleftrightarrow>
   has_join j x \<or> (\<exists>(f, v) \<in> set m. has_join (fieldJoinType fm f) x)"
  by (induction m arbitrary: j) (auto simp: has_join_or)

definition rule_joins :: "field_map \<Rightarrow> int \<Rightarrow> Expression \<Rightarrow> bool" where
  "rule_joins fm x e \<longleftrightarrow> (\<exists>(oper, m) \<in> rules_of e. \<exists>(f, v) \<in> set m. has_join (fieldJoinType fm f) x)"

lemma rule_joins_simps [simp]:
  "rule_joins fm x (All es) \<longleftrightarrow> (\<exists>e \<in> set es. rule_joins fm x e)"
  "rule_joins fm x (Any es) \<longleftrightarrow> (\<exists>e \<in> set es. rule_joins fm x e)"
  "rule_joins fm x (Rule oper m) \<longleftrightarrow> (\<exists>(f, v) \<in> set m. has_join (fieldJoinType fm f) x)"
  by (auto simp: rule_joins_def)

lemma Walk_joins:
  "\<exists>j'. Walk (visit_joins fm) e j = Inr j' \<and> (\<forall>x. has_join j' x \<longleftrightarrow> has_join j x \<or> rule_joins fm x e)"
  "\<exists>j'. walk_all (visit_joins fm) es j = Inr j' \<and> (\<forall>x. has_join j' x \<longleftrightarrow> has_join j x \<or> (\<exists>e \<in> set es. rule_joins fm x e))"
proof (induction "visit_joins fm" e j and "visit_joins fm" es j rule: Walk_walk_all.induct)
  case (5 e es j)
  then obtain j1 where "Walk (visit_joins fm) e j = Inr j1" "\<forall>x. has_join j1 x \<longleftrightarrow> has_join j x \<or> rule_joins fm x e" by blast
  then show ?case using 5(2) [of j1] by auto
qed (auto simp: visit_joins_def has_join_fold)

lemma has_join_zero [simp]: "\<not> has_join 0 x"
  by (simp add: has_join_def)

lemma expressionJoins_iff:
  assumes "cr_Expression c = Some e"
  shows "has_join (expressionJoins fm c) x \<longleftrightarrow> rule_joins fm x e"
proof -
  obtain j where "Walk (visit_joins fm) e 0 = Inr j" and j: "\<forall>x. has_join j x \<longleftrightarrow> has_join 0 x \<or> rule_joins fm x e"
    using Walk_joins(1) by blast
  then have "expressionJoins fm c = j" using assms by (simp add: expressionJoins_def)
  with j show ?thesis by simp
qed

text \<open>The columns of the joined tables that a condition refers to.\<close>

fun column_name :: "column \<Rightarrow> string" where
  "column_name (Column c) = c"
| "column_name (Coalesced c d) = c"

fun cond_columns :: "sqlizer \<Rightarrow> string set" where
  "cond_columns (Cmp c m) = column_name ` fst ` set m"
| "cond_columns (LikeCond neg m) = column_name ` fst ` set m"
| "cond_columns (SqlAnd cs) = (\<Union>c \<in> set cs. cond_columns c)"
| "cond_columns (SqlOr cs) = (\<Union>c \<in> set cs. cond_columns c)"
| "cond_columns _ = {}"

definition field_column :: "field_map \<Rightarrow> (string \<times> json) list \<Rightarrow> string \<Rightarrow> bool" where
  "field_column fm m col \<longleftrightarrow>
     (\<exists>field v info f. (field, v) \<in> set m \<and> LookupField fm field = Some info \<and>
        map_of smartPlaylistFields (fi_name info) = Some f \<and> sp_expr f = col)"

lemma set_field_keys: "fst ` set (set_field k v m) = insert k (fst ` set m)"
  by (induction k v m rule: set_field.induct) auto

lemma sqlFields_columns:
  assumes "fields_ok fm" and "sqlFields fm m = Inr fs" and "col \<in> fst ` set fs"
  shows "field_column fm m col"
proof -
  have from_acc: "sql_fields_from fm m acc = Inr fs \<Longrightarrow> col \<in> fst ` set fs \<Longrightarrow> col \<in> fst ` set acc \<or> field_column fm m col" for acc
  proof (induction m arbitrary: acc)
    case (Cons kv m)
    obtain k v where kv: "kv = (k, v)" by (cases kv)
    then obtain e where e: "sql_field fm k = Inr e" and rest: "sql_fields_from fm m (set_field e v acc) = Inr fs"
      using Cons.prems(1) by (auto split: sum.splits)
    from e have here: "field_column fm (kv # m) e"
      unfolding sql_field_Inr [OF assms(1)] field_column_def kv by fastforce
    have later: "field_column fm m col \<Longrightarrow> field_column fm (kv # m) col"
      unfolding field_column_def set_simps insert_iff by blast
    from Cons.IH [OF rest Cons.prems(2)] show ?case using here later unfolding set_field_keys by blast
  qed simp
  from from_acc [OF assms(2) [unfolded sqlFields_def] assms(3)] show ?thesis by simp
qed

lemma coalesced_name [simp]: "column_name (coalesced f) = sp_expr f"
  by (simp add: coalesced_def split: option.split)

lemma annotationCond_columns: "cond_columns (annotationCond env f d c v) = {sp_expr f}"
  by (auto simp: annotationCond_def Let_def split: option.splits)

lemma jsonExpr_columns [simp]: "cond_columns (jsonExpr info c neg) = {}"
  by (simp add: jsonExpr_def)

lemma comparisonExpr_columns:
  assumes "fields_ok fm" and "comparisonExpr env fm m c = Inr s" and "col \<in> cond_columns s"
  shows "field_column fm m col"
proof (cases "\<exists>fs. sqlFields fm m = Inr fs \<and> s = Cmp c (columns fs)")
  case True
  then show ?thesis using assms(3) sqlFields_columns [OF assms(1)] by (force simp: columns_def)
next
  case False
  then obtain field v info f where "singleField fm m = Some (field, v, info)" "annotationField info = Some f"
    "s = annotationCond env f (the (sp_coalesceDefault f)) c v"
    using assms(2, 3) by (auto simp: comparisonExpr_def Let_def map_sum_id_Inr split: option.splits if_splits)
  then show ?thesis
    using assms(3) annotationField_known by (fastforce simp: singleField_Some annotationCond_columns field_column_def)
qed

lemma likeExpr_columns:
  assumes "fields_ok fm" and "likeExpr env fm m pat neg = Inr s" and "col \<in> cond_columns s"
  shows "field_column fm m col"
proof (cases "\<exists>fs. sqlFields fm m = Inr fs \<and> s = LikeCond neg (map (\<lambda>(k, v). (Column k, fst pat @ sprint_v env v @ snd pat)) fs)")
  case True
  then show ?thesis using assms(3) sqlFields_columns [OF assms(1)] by force
next
  case False
  then obtain field v info f p where "singleField fm m = Some (field, v, info)" "annotationField info = Some f"
    "s = LikeCond neg [(coalesced f, p)]"
    using assms(2, 3) by (auto simp: likeExpr_def Let_def map_sum_id_Inr split: option.splits if_splits)
  then show ?thesis
    using assms(3) annotationField_known by (fastforce simp: singleField_Some field_column_def)
qed

lemma periodExpr_columns:
  assumes "fields_ok fm" and "periodExpr env fm now m neg = Inr s" and "col \<in> cond_columns s" and "m \<noteq> []"
  shows "field_column fm m col"
proof -
  obtain fs where fs: "sqlFields fm m = Inr fs" using assms(2) by (cases "sqlFields fm m") (auto simp: periodExpr_def)
  have "fs \<noteq> []"
  proof -
    have "acc \<noteq> [] \<or> m \<noteq> [] \<Longrightarrow> sql_fields_from fm m acc = Inr fs \<Longrightarrow> fs \<noteq> []" for m acc
    proof (induction m arbitrary: acc)
      case (Cons kv m)
      have "set_field k v acc \<noteq> []" for k v by (cases acc) (auto split: if_splits)
      then show ?case using Cons by (cases kv) (auto split: sum.splits)
    qed auto
    then show ?thesis using fs assms(4) unfolding sqlFields_def by blast
  qed
  then have "col = fst (hd fs)" and "hd fs \<in> set fs"
    using assms(2, 3) fs by (cases fs; auto simp: periodExpr_def Let_def split: option.splits if_splits)+
  then show ?thesis by (intro sqlFields_columns [OF assms(1) fs]) simp
qed

lemma missingExpr_columns:
  assumes "missingExpr fm m absent = Inr s" and "col \<in> cond_columns s"
  shows "field_column fm m col"
proof -
  obtain field v info where m: "singleField fm m = Some (field, v, info)"
    using assms(1) by (cases "singleField fm m") (auto simp: missingExpr_def split: if_splits)
  then obtain b where v: "v = JBool b" using assms(1) by (cases v) (auto simp: missingExpr_def)
  obtain f where "map_of smartPlaylistFields (fi_name info) = Some f" "col = sp_expr f"
    using assms m v by (auto simp: missingExpr_def Let_def split: if_splits option.splits)
  then show ?thesis using m by (auto simp: singleField_Some field_column_def)
qed

lemma rangeExpr_columns:
  assumes "fields_ok fm" and "rangeExpr env fm m = Inr s" and "col \<in> cond_columns s"
  shows "field_column fm m col"
proof -
  obtain field v info where m: "singleField fm m = Some (field, v, info)"
    using assms(2) by (cases "singleField fm m") (auto simp: rangeExpr_def)
  then obtain low high l h where "comparisonExpr env fm [(field, low)] cmpGe = Inr l" "comparisonExpr env fm [(field, high)] cmpLe = Inr h"
    "s = SqlAnd [l, h]"
    using assms(2) by (auto simp: rangeExpr_def split: if_splits json.splits list.splits sum.splits)
  then have "field_column fm [(field, low)] col \<or> field_column fm [(field, high)] col"
    using assms(3) comparisonExpr_columns [OF assms(1)] by auto
  then show ?thesis using m by (auto simp: singleField_Some field_column_def)
qed

lemma ruleSQL_columns:
  assumes "fields_ok fm" and "ruleSQL env fm owner now oper m = Inr s" and "col \<in> cond_columns s" and "m \<noteq> []"
  shows "field_column fm m col"
proof -
  note lemmas_used = comparisonExpr_columns [OF assms(1) _ assms(3)] likeExpr_columns [OF assms(1) _ assms(3)]
    rangeExpr_columns [OF assms(1) _ assms(3)] periodExpr_columns [OF assms(1) _ assms(3, 4)] missingExpr_columns [OF _ assms(3)]
  have isnot: "isNotExpr env fm m = Inr s \<Longrightarrow> field_column fm m col"
    using assms(3) lemmas_used(1) by (auto simp: isNotExpr_def split: option.splits if_splits)
  have playlist: "inList env owner m neg = Inr s \<Longrightarrow> field_column fm m col" for neg
    using assms(3) by (auto simp: inList_def split: option.splits)
  show ?thesis using assms(2) lemmas_used isnot playlist by (cases oper) simp_all
qed

lemma merged_columns: "cond_columns (SqlOr (fst (mergeSameFieldConds cs neg))) \<subseteq> (\<Union>c \<in> set cs. cond_columns c)"
proof -
  have "cond_columns (make_group neg s batch) \<subseteq> cond_columns s" for s batch
    by (cases "(neg, s, batch)" rule: make_group.cases) auto
  moreover have "big_group neg cs key \<Longrightarrow> hd (group_entries neg cs key) \<in> set cs" for key
    using hd_in_set [of "group_entries neg cs key"] unfolding group_entries_key by (fastforce simp: big_group_def)
  ultimately have "g \<in> set (group_additions neg cs key) \<Longrightarrow> cond_columns g \<subseteq> (\<Union>c \<in> set cs. cond_columns c)" for g key
    by (fastforce simp: group_additions_def Let_def split: if_splits)
  then show ?thesis by (fastforce simp: mergeSameFieldConds_def split: if_splits)
qed

lemma mergers_columns:
  "cond_columns (mergeNegatedJsonConds cs) \<subseteq> (\<Union>c \<in> set cs. cond_columns c)"
  "cond_columns (mergeJsonConds cs) \<subseteq> (\<Union>c \<in> set cs. cond_columns c)"
  using merged_columns [of cs] by (simp_all add: mergeNegatedJsonConds_def mergeJsonConds_def)

lemma sequence_member:
  assumes "sequence (map f es) = Inr ss" and "c \<in> set ss"
  shows "\<exists>e \<in> set es. f e = Inr c"
  using sequence_elements [OF assms(1)] assms(2) by (metis in_set_conv_nth)

lemma exprSQL_columns:
  assumes "fields_ok fm" and "\<forall>(oper, m) \<in> rules_of e. m \<noteq> []"
    and "exprSQL env fm owner now e = Inr s" and "col \<in> cond_columns s"
  shows "\<exists>(oper, m) \<in> rules_of e. field_column fm m col"
  using assms(2-4)
proof (induction e arbitrary: s)
  case (All es)
  then obtain ss where ss: "sequence (map (exprSQL env fm owner now) es) = Inr ss" and s: "s = mergeNegatedJsonConds ss"
    by (auto simp: map_sum_id_Inr)
  then obtain c where "c \<in> set ss" and c: "col \<in> cond_columns c"
    using All.prems(3) mergers_columns(1) [of ss] by blast
  then obtain e where e: "e \<in> set es" "exprSQL env fm owner now e = Inr c" using sequence_member [OF ss] by blast
  moreover have "\<forall>(oper, m) \<in> rules_of e. m \<noteq> []" using All.prems(1) e(1) by auto
  ultimately have "\<exists>(oper, m) \<in> rules_of e. field_column fm m col" using All.IH c by blast
  then show ?case using e(1) by auto
next
  case (Any es)
  then obtain ss where ss: "sequence (map (exprSQL env fm owner now) es) = Inr ss" and s: "s = mergeJsonConds ss"
    by (auto simp: map_sum_id_Inr)
  then obtain c where "c \<in> set ss" and c: "col \<in> cond_columns c"
    using Any.prems(3) mergers_columns(2) [of ss] by blast
  then obtain e where e: "e \<in> set es" "exprSQL env fm owner now e = Inr c" using sequence_member [OF ss] by blast
  moreover have "\<forall>(oper, m) \<in> rules_of e. m \<noteq> []" using Any.prems(1) e(1) by auto
  ultimately have "\<exists>(oper, m) \<in> rules_of e. field_column fm m col" using Any.IH c by blast
  then show ?case using e(1) by auto
next
  case (Rule oper m)
  then show ?case using ruleSQL_columns [OF assms(1)] by simp
qed

text \<open>The table of fields names a join for every column of a table that is not always there.\<close>

definition table_ok :: "smartPlaylistField \<Rightarrow> bool" where
  "table_ok f \<longleftrightarrow>
     has_prefix (sp_expr f) ''media_file.'' \<or> has_prefix (sp_expr f) ''annotation.'' \<or>
     (has_prefix (sp_expr f) ''album_annotation.'' \<and> has_join (sp_joinType f) smartPlaylistJoinAlbumAnnotation) \<or>
     (has_prefix (sp_expr f) ''artist_annotation.'' \<and> has_join (sp_joinType f) smartPlaylistJoinArtistAnnotation) \<or>
     (has_prefix (sp_expr f) ''album.'' \<and> has_join (sp_joinType f) smartPlaylistJoinAlbum)"

lemma join_table: "list_all (\<lambda>(k, f). sp_expr f = '''' \<or> table_ok f) smartPlaylistFields"
  by code_simp

text \<open>A column can be read when its table is joined.\<close>

definition table_joined :: "joined list \<Rightarrow> string \<Rightarrow> string \<Rightarrow> bool" where
  "table_joined js userID col \<longleftrightarrow>
     has_prefix col ''media_file.'' \<or>
     (has_prefix col ''annotation.'' \<and> JoinAnnotation userID \<in> set js) \<or>
     (has_prefix col ''album_annotation.'' \<and> JoinAlbumAnnotation userID \<in> set js) \<or>
     (has_prefix col ''artist_annotation.'' \<and> JoinArtistAnnotation userID \<in> set js) \<or>
     (has_prefix col ''album.'' \<and> JoinAlbum \<in> set js)"

lemma joined_column:
  assumes "map_of smartPlaylistFields k = Some f" and "sp_expr f \<noteq> ''''"
    and "\<And>x. has_join (sp_joinType f) x \<Longrightarrow> has_join joins x"
  shows "table_joined (applyJoins joins userID) userID (sp_expr f)"
proof -
  have "table_ok f" using join_table map_of_SomeD [OF assms(1)] assms(2) unfolding list_all_iff by fastforce
  then show ?thesis using assms(3) by (auto simp: table_ok_def table_joined_def applyJoins_def)
qed

lemma has_join_names:
  "has_join (fold (\<lambda>name j. j OR fieldJoinType fm name) names j) x \<longleftrightarrow>
   has_join j x \<or> (\<exists>name \<in> set names. has_join (fieldJoinType fm name) x)"
  by (induction names arbitrary: j) (auto simp: has_join_or)

lemma fieldJoinType_known:
  "LookupField fm field = Some info \<Longrightarrow> map_of smartPlaylistFields (fi_name info) = Some f \<Longrightarrow> fieldJoinType fm field = sp_joinType f"
  by (simp add: fieldJoinType_def)

text \<open>The columns that the order of a criteria refers to.\<close>

definition sort_columns :: "field_map \<Rightarrow> Criteria \<Rightarrow> string set" where
  "sort_columns fm c =
     {sp_expr f | f info name. name \<in> set (SortFieldNames fm c) \<and> LookupField fm name = Some info \<and>
        map_of smartPlaylistFields (fi_name info) = Some f}"

text \<open>
  C36 (safety): a query reads no column of a table it has not joined: every column of the condition is of a table that the joins
  for the expression add, and every column of the condition or of the order is of one that the required joins add.
\<close>

theorem columns_joined:
  assumes "fields_ok fm" and "cr_Expression c = Some e" and "\<forall>(oper, m) \<in> rules_of e. m \<noteq> []"
    and "where_cond env fm owner now c = Inr s"
  shows "(\<forall>col \<in> cond_columns s - {''''}. table_joined (applyExpressionJoins fm c userID) userID col) \<and>
         (\<forall>col \<in> (cond_columns s \<union> sort_columns fm c) - {''''}. table_joined (applyRequiredJoins fm c userID) userID col)"
proof -
  have cond: "\<exists>f k. map_of smartPlaylistFields k = Some f \<and> col = sp_expr f \<and>
      (\<forall>x. has_join (sp_joinType f) x \<longrightarrow> has_join (expressionJoins fm c) x)" if here: "col \<in> cond_columns s" for col
  proof -
    have "exprSQL env fm owner now e = Inr s" using assms(2, 4) by (simp add: where_cond_def)
    then obtain oper m where "(oper, m) \<in> rules_of e" "field_column fm m col"
      using exprSQL_columns [OF assms(1, 3) _ here] by blast
    then obtain field v info f where "(oper, m) \<in> rules_of e" "(field, v) \<in> set m" "LookupField fm field = Some info"
      "map_of smartPlaylistFields (fi_name info) = Some f" "sp_expr f = col"
      unfolding field_column_def by blast
    then show ?thesis
      using fieldJoinType_known [of fm field info f] expressionJoins_iff [OF assms(2), of fm] unfolding rule_joins_def by fastforce
  qed
  have required: "has_join (requiredJoins fm c) x \<longleftrightarrow>
      has_join (expressionJoins fm c) x \<or> (\<exists>name \<in> set (SortFieldNames fm c). has_join (fieldJoinType fm name) x)" for x
    by (simp add: requiredJoins_def has_join_names)
  show ?thesis
  proof (intro conjI ballI)
    fix col assume "col \<in> cond_columns s - {''''}"
    then show "table_joined (applyExpressionJoins fm c userID) userID col"
      using cond [of col] joined_column unfolding applyExpressionJoins_def by fastforce
  next
    fix col assume col: "col \<in> (cond_columns s \<union> sort_columns fm c) - {''''}"
    have "\<exists>f k. map_of smartPlaylistFields k = Some f \<and> col = sp_expr f \<and>
      (\<forall>x. has_join (sp_joinType f) x \<longrightarrow> has_join (requiredJoins fm c) x)"
    proof (cases "col \<in> cond_columns s")
      case True
      then show ?thesis using cond [of col] required by blast
    next
      case False
      then obtain f info name where "col = sp_expr f" "name \<in> set (SortFieldNames fm c)" "LookupField fm name = Some info"
        "map_of smartPlaylistFields (fi_name info) = Some f"
        using col unfolding sort_columns_def by blast
      then show ?thesis using fieldJoinType_known [of fm name info f] required by metis
    qed
    then show "table_joined (applyRequiredJoins fm c userID) userID col"
      using joined_column col unfolding applyRequiredJoins_def by fastforce
  qed
qed

section \<open>Periods\<close>

text \<open>
  For up to 106751 days, some 292 years, a period starts exactly that many days ago; beyond that the 64-bit
  duration wraps around, and a period of 200000 days starts in the future.
\<close>

lemma startOfPeriod_bounds:
  shows "(\<bar>days\<bar> \<le> 106751 \<longrightarrow> startOfPeriod env days now = format_date env (now - days * 24 * go_hour)) \<and>
         (\<exists>ahead > 0. startOfPeriod env 200000 now = format_date env (now + ahead))"
proof (intro conjI impI)
  assume days: "\<bar>days\<bar> \<le> 106751"
  have small: "wrap64 (- 24 * days) = - 24 * days" using days by (simp add: wrap64_def)
  have "wrap64 (- 24 * days * go_hour) = - 24 * days * go_hour" using days by (simp add: wrap64_def go_hour_def)
  with small show "startOfPeriod env days now = format_date env (now - days * 24 * go_hour)"
    by (simp add: startOfPeriod_def algebra_simps)
next
  have "wrap64 (wrap64 (- 24 * 200000) * go_hour) = 1166744073709551616" by (simp add: wrap64_def go_hour_def)
  then show "\<exists>ahead > 0. startOfPeriod env 200000 now = format_date env (now + ahead)"
    by (intro exI [of _ "1166744073709551616"]) (simp add: startOfPeriod_def)
qed

section \<open>Examples\<close>

definition canonical :: "string \<times> FieldInfo \<Rightarrow> string" where
  "canonical kf = (if fi_Alias (snd kf) \<noteq> '''' then fi_Alias (snd kf) else fst kf)"

text \<open>A check of the condition on numeric tags on the entries of a field map.\<close>

definition numeric_check :: "field_map \<Rightarrow> bool" where
  "numeric_check fm =
     list_all (\<lambda>kf. fi_IsTag (snd kf) \<longrightarrow>
       list_all (\<lambda>kg. fi_IsTag (snd kg) \<and> canonical kf = canonical kg \<longrightarrow> fi_Numeric (snd kf) = fi_Numeric (snd kg)) fm) fm"

lemma LookupField_entry:
  assumes "LookupField fm name = Some info"
  shows "\<exists>f. (go_lower name, f) \<in> set fm \<and> fi_name info = canonical (go_lower name, f) \<and> fi_IsTag info = fi_IsTag f \<and> fi_Numeric info = fi_Numeric f"
  using assms map_of_SomeD [of fm "go_lower name"] by (auto simp: LookupField_def Let_def canonical_def split: option.splits)

lemma numeric_check_ok:
  assumes "numeric_check fm"
  shows "numeric_ok fm"
  unfolding numeric_ok_def
proof (intro allI impI)
  fix a b i j
  assume i: "LookupField fm a = Some i" and j: "LookupField fm b = Some j" and tags: "fi_IsTag i" "fi_IsTag j" and same: "fi_name i = fi_name j"
  obtain f g where f: "(go_lower a, f) \<in> set fm" "fi_name i = canonical (go_lower a, f)" "fi_IsTag i = fi_IsTag f" "fi_Numeric i = fi_Numeric f"
    and g: "(go_lower b, g) \<in> set fm" "fi_name j = canonical (go_lower b, g)" "fi_IsTag j = fi_IsTag g" "fi_Numeric j = fi_Numeric g"
    using LookupField_entry [OF i] LookupField_entry [OF j] by blast
  then have "fi_Numeric f = fi_Numeric g"
    using assms tags same unfolding numeric_check_def list_all_iff by fastforce
  then show "fi_Numeric i = fi_Numeric j" using f g by simp
qed

definition ex_fields :: field_map where
  "ex_fields = AddTagNames [''genre''] fieldMap"

lemma ex_fields_ok: "fields_ok ex_fields" "numeric_ok ex_fields"
proof -
  show "fields_ok ex_fields" unfolding fields_ok_def by code_simp
  show "numeric_ok ex_fields" by (rule numeric_check_ok) code_simp
qed

definition ex_sql :: sql_env where
  "ex_sql =
     \<lparr>other_compare = \<lambda>c col x v. if c = cmpNe then v \<noteq> (case x of Inl t \<Rightarrow> JStr t | Inr q \<Rightarrow> JNum q) else v = (case x of Inl t \<Rightarrow> JStr t | Inr q \<Rightarrow> JNum q),
      like_match = \<lambda>_ _. False, cast_real = \<lambda>_. 0, format_value = \<lambda>_. '''', parse_float = \<lambda>_. None, format_date = \<lambda>_. '''',
      nfc = \<lambda>s. s, nfd = \<lambda>s. s\<rparr>"

definition ex_row :: "string list \<Rightarrow> sql_row" where
  "ex_row genres = \<lparr>row_col = \<lambda>_. None, row_tags = \<lambda>t. if t = ''genre'' then genres else [], row_roles = \<lambda>_. [], row_playlists = []\<rparr>"

definition ex_rules :: Expression where
  "ex_rules = Any [Rule Is [(''genre'', JStr ''Rock'')], Rule Is [(''Genre'', JStr ''Jazz'')], Rule Gt [(''rating'', JNum 3)]]"

definition ex_user :: User where "ex_user = \<lparr>us_ID = ''u'', us_IsAdmin = False\<rparr>"

definition ex_cond :: sqlizer where
  "ex_cond =
     SqlOr [Cmp cmpGt [(Column ''annotation.rating'', JNum 3)],
            tagCondGroup ''genre'' False [Cmp cmpEq [(Column ''value'', JStr ''Rock'')], Cmp cmpEq [(Column ''value'', JStr ''Jazz'')]] False]"

lemma ex_genre: "LookupField ex_fields ''genre'' = Some (plain\<lparr>fi_IsTag := True, fi_name := ''genre''\<rparr>)"
  "LookupField ex_fields ''Genre'' = Some (plain\<lparr>fi_IsTag := True, fi_name := ''genre''\<rparr>)"
  "LookupField ex_fields ''rating'' = Some (plain\<lparr>fi_name := ''rating''\<rparr>)"
  "LookupField ex_fields ''albumrating'' = Some (plain\<lparr>fi_name := ''albumrating''\<rparr>)"
  by code_simp+

lemma ex_rating: "map_of smartPlaylistFields ''rating'' = Some ((column_field ''annotation.rating'')\<lparr>sp_coalesceDefault := Some (JNum 0)\<rparr>)"
  "map_of smartPlaylistFields ''albumrating'' =
     Some ((column_field ''album_annotation.rating'')\<lparr>sp_coalesceDefault := Some (JNum 0), sp_joinType := smartPlaylistJoinAlbumAnnotation\<rparr>)"
  by code_simp+

lemmas ex_eval = exprSQL.simps comparisonExpr_def singleField_def ex_genre ex_rating jsonExpr_def annotationField_def
  annotationCond_def bareNullInclusion_def column_field_def plain_def Let_def

lemma ex_translated: "exprSQL ex_sql ex_fields ex_user 0 ex_rules = Inr ex_cond"
  by (simp add: ex_rules_def ex_cond_def ex_eval mergeJsonConds_def mergeSameFieldConds_def removed_def big_group_def group_entries_def
      group_keys_def group_additions_def List.map_filter_def jsonCondBatchSize_def chunk.simps)

lemma ex_database: "database_ok ex_sql (ex_row genres)"
  by (auto simp: database_ok_def ex_sql_def ex_row_def)



definition ex_album :: Criteria where
  "ex_album = \<lparr>cr_Expression = Some (All [Rule Gt [(''albumrating'', JNum 3)]]), cr_Sort = '''', cr_Order = '''', cr_Limit = 0,
               cr_LimitPercent = 0, cr_Offset = 0, cr_RefreshDelay = 0\<rparr>"

theorem columns_joined_witness:
  "where_cond ex_sql ex_fields ex_user 0 ex_album = Inr (SqlAnd [Cmp cmpGt [(Column ''album_annotation.rating'', JNum 3)]]) \<and>
   table_joined (applyExpressionJoins ex_fields ex_album ''u'') ''u'' ''album_annotation.rating''"
proof -
  have cond: "where_cond ex_sql ex_fields ex_user 0 ex_album = Inr (SqlAnd [Cmp cmpGt [(Column ''album_annotation.rating'', JNum 3)]])"
    by (simp add: where_cond_def ex_album_def ex_eval mergeNegatedJsonConds_def mergeSameFieldConds_def removed_def)
  have "cr_Expression ex_album = Some (All [Rule Gt [(''albumrating'', JNum 3)]])" by (simp add: ex_album_def)
  from columns_joined [OF ex_fields_ok(1) this _ cond, of "''u''"] cond show ?thesis by simp
qed

lemma startOfPeriod_bounds_witness: "startOfPeriod (ex_sql\<lparr>format_date := itoa\<rparr>) 1 0 = itoa (- 86400000000000)"
  using startOfPeriod_bounds [of 1 "ex_sql\<lparr>format_date := itoa\<rparr>" 0] by (simp add: go_hour_def)

section \<open>Two divergences\<close>

text \<open>
  A number written as text takes the bare form too, where the column's affinity turns the text into a number; the form with the
  default has no affinity and compares a number with a text. The two differ on a database that compares as SQLite does.
\<close>

definition affinity_sql :: sql_env where
  "affinity_sql = ex_sql
     \<lparr>parse_float := \<lambda>s. map_option of_int (atoi s),
      other_compare := \<lambda>c col x v. case (col, x, v) of
          (Column _, Inr a, JStr s) \<Rightarrow> (case atoi s of Some b \<Rightarrow> satisfy c a (of_int b) | None \<Rightarrow> c = cmpNe)
        | _ \<Rightarrow> c = cmpNe\<rparr>"

lemma annotation_text_differs:
  "let f = (column_field ''annotation.rating'')\<lparr>sp_coalesceDefault := Some (JNum 0)\<rparr>;
       row = (ex_row [])\<lparr>row_col := (\<lambda>_. Some (Inr 5))\<rparr>
   in selects affinity_sql row (annotationCond affinity_sql f (JNum 0) cmpEq (JStr ''5'')) \<and>
      \<not> column_is affinity_sql row cmpEq f (JStr ''5'')"
proof -
  have "atoi ''5'' = Some 5" by code_simp
  then show ?thesis
    by (simp add: annotationCond_def bareNullInclusion_def affinity_sql_def column_field_def column_is_def coalesced_def compare3_def)
qed

text \<open>Making a tag numeric does not make its alias so.\<close>

lemma alias_not_numeric: "\<not> numeric_ok (AddNumericTags [''releasetype''] (AddTagNames [''releasetype''] fieldMap))"
proof -
  let ?fm = "AddNumericTags [''releasetype''] (AddTagNames [''releasetype''] fieldMap)"
  have "LookupField ?fm ''albumtype'' = Some (plain\<lparr>fi_Alias := ''releasetype'', fi_IsTag := True, fi_name := ''releasetype''\<rparr>)"
    "LookupField ?fm ''releasetype'' = Some (plain\<lparr>fi_IsTag := True, fi_Numeric := True, fi_name := ''releasetype''\<rparr>)"
    by code_simp+
  then show ?thesis unfolding numeric_ok_def plain_def by fastforce
qed

end
