(* ===== verification/Go_Slice.thy ===== *)
theory Go_Slice
  imports Prelude
begin

text \<open>
  The helpers on slices of \<open>utils/slice/slice.go\<close>. A Go map that is only looked up is an association list; where the
  source ranges over a map, the order of its keys is an argument. An index out of range is \<open>None\<close>, the panic of the
  source. \<open>LinesFrom\<close> is driven by \<open>bufio.Scanner\<close>, whose loop is modelled over the pieces in which the reader
  delivers its bytes.
\<close>

section \<open>Definitions\<close>

subsection \<open>Groups, frequencies and duplicates\<close>

fun group_from :: "('a \<Rightarrow> 'k) \<Rightarrow> 'a list \<Rightarrow> ('k \<rightharpoonup> 'a list) \<Rightarrow> 'k \<rightharpoonup> 'a list" where
  "group_from keyFunc [] m = m"
| "group_from keyFunc (item # rest) m =
     (let k = keyFunc item in group_from keyFunc rest (m(k \<mapsto> (case m k of None \<Rightarrow> [] | Some g \<Rightarrow> g) @ [item])))"

definition Group :: "'a list \<Rightarrow> ('a \<Rightarrow> 'k) \<Rightarrow> 'k \<rightharpoonup> 'a list" where
  "Group s keyFunc = group_from keyFunc s Map.empty"

fun group_ordered_from :: "('a \<Rightarrow> 'k) \<Rightarrow> 'a list \<Rightarrow> 'a list list \<Rightarrow> ('k \<times> nat) list \<Rightarrow> 'a list list" where
  "group_ordered_from keyFunc [] groups index = groups"
| "group_ordered_from keyFunc (item # rest) groups index =
     (case map_of index (keyFunc item) of
        None \<Rightarrow> group_ordered_from keyFunc rest (groups @ [[item]]) ((keyFunc item, length groups) # index)
      | Some i \<Rightarrow> group_ordered_from keyFunc rest (groups[i := groups ! i @ [item]]) index)"

definition GroupOrdered :: "'a list \<Rightarrow> ('a \<Rightarrow> 'k) \<Rightarrow> 'a list list" where
  "GroupOrdered s keyFunc = group_ordered_from keyFunc s [] []"

fun unique_from :: "'a list \<Rightarrow> 'a set \<Rightarrow> 'a list \<Rightarrow> 'a list" where
  "unique_from [] seen result = result"
| "unique_from (item # rest) seen result =
     (if item \<in> seen then unique_from rest seen result
      else unique_from rest (insert item seen) (result @ [item]))"

definition Unique :: "'a list \<Rightarrow> 'a list" where
  "Unique list = unique_from list {} []"

text \<open>The counters of a list; the keys are ranged over in the order \<open>keys\<close>, a permutation of the distinct elements.\<close>

definition CompactByFrequency :: "'a list \<Rightarrow> 'a list \<Rightarrow> 'a list" where
  "CompactByFrequency keys list = sort_key (\<lambda>x. - int (count_list list x)) keys"

fun most_frequent_from :: "'a \<Rightarrow> 'a list \<Rightarrow> ('a \<times> nat) list \<Rightarrow> 'a \<Rightarrow> nat \<Rightarrow> 'a" where
  "most_frequent_from zero [] counters topItem topCount = topItem"
| "most_frequent_from zero (value # rest) counters topItem topCount =
     (if value = zero then most_frequent_from zero rest counters topItem topCount
      else let n = (case map_of counters value of None \<Rightarrow> 0 | Some c \<Rightarrow> c) + 1 in
        if n > topCount then most_frequent_from zero rest ((value, n) # counters) value n
        else most_frequent_from zero rest ((value, n) # counters) topItem topCount)"

definition MostFrequent :: "'a \<Rightarrow> 'a list \<Rightarrow> 'a" where
  "MostFrequent zero list = (if list = [] then zero else most_frequent_from zero list [] zero 0)"

subsection \<open>Positions\<close>

definition Insert :: "'a list \<Rightarrow> 'a \<Rightarrow> int \<Rightarrow> 'a list option" where
  "Insert slice value index =
     (if 0 \<le> index \<and> nat index \<le> length slice
      then Some (take (nat index) slice @ [value] @ drop (nat index) slice) else None)"

definition Remove :: "'a list \<Rightarrow> int \<Rightarrow> 'a list option" where
  "Remove slice index =
     (if 0 \<le> index \<and> nat index + 1 \<le> length slice
      then Some (take (nat index) slice @ drop (nat index + 1) slice) else None)"

definition Move :: "'a list \<Rightarrow> int \<Rightarrow> int \<Rightarrow> 'a list option" where
  "Move slice srcIndex dstIndex =
     (if 0 \<le> srcIndex \<and> nat srcIndex < length slice
      then (case Remove slice srcIndex of
              None \<Rightarrow> None
            | Some s \<Rightarrow> Insert s (slice ! nat srcIndex) dstIndex)
      else None)"

subsection \<open>Chunks\<close>

fun collect_chunks_from :: "'a list \<Rightarrow> nat \<Rightarrow> 'a list \<Rightarrow> 'a list list" where
  "collect_chunks_from [] n s = (if length s > 0 then [s] else [])"
| "collect_chunks_from (x # rest) n s =
     (let s' = s @ [x] in
      if length s' \<ge> n then s' # collect_chunks_from rest n [] else collect_chunks_from rest n s')"

definition CollectChunks :: "'a list \<Rightarrow> nat \<Rightarrow> 'a list list" where
  "CollectChunks it n = collect_chunks_from it n []"

subsection \<open>Lines\<close>

abbreviation CR :: char where "CR \<equiv> CHR 0x0D"
abbreviation LF :: char where "LF \<equiv> CHR 0x0A"

text \<open>\<open>bytes.IndexAny(data, "\r\n")\<close>.\<close>

definition newline_at :: "string \<Rightarrow> nat option" where
  "newline_at data = find_index (\<lambda>c. c = CR \<or> c = LF) data"

text \<open>The split function: how far to advance, and the token, if any.\<close>

definition scanLines :: "string \<Rightarrow> bool \<Rightarrow> nat \<times> string option" where
  "scanLines data atEOF =
     (if atEOF \<and> data = [] then (0, None)
      else case newline_at data of
        Some i \<Rightarrow>
          if data ! i = LF then (i + 1, Some (take i data))
          else (if length data > i + 1 \<and> data ! (i + 1) = LF then (i + 2, Some (take i data)) else (i + 1, Some (take i data)))
      | None \<Rightarrow> if atEOF then (length data, Some data) else (0, None))"

text \<open>\<open>bufio.MaxScanTokenSize\<close>: a scanner whose buffer is full without a token stops.\<close>

definition maxScanTokenSize :: nat where "maxScanTokenSize = 65536"

lemma newline_at_less: "newline_at data = Some i \<Longrightarrow> i < length data"
  by (auto simp: newline_at_def dest: find_index_Some)

lemma scanLines_Some: "(a, Some t) = scanLines data atEOF \<Longrightarrow> data \<noteq> []"
  by (auto simp: scanLines_def newline_at_def split: if_splits)

text \<open>The loop of the scanner: the unread bytes, the pieces still to be read, and whether the end was seen.\<close>

function scan_from :: "string \<Rightarrow> string list \<Rightarrow> bool \<Rightarrow> string list" where
  "scan_from buf reads eof =
     (case (if buf \<noteq> [] \<or> eof then scanLines buf eof else (0, None)) of
        (advance, Some token) \<Rightarrow> if advance = 0 then [token] else token # scan_from (drop advance buf) reads eof
      | (advance, None) \<Rightarrow>
          if eof \<or> length buf \<ge> maxScanTokenSize then []
          else (case reads of
                  [] \<Rightarrow> scan_from buf [] True
                | r # rs \<Rightarrow> scan_from (buf @ r) rs False))"
  by pat_completeness auto
termination
  by (relation "measure (\<lambda>(buf, reads, eof). 2 * (length buf + length (concat reads)) + length reads + (if eof then 0 else 1))")
    (auto dest: scanLines_Some split: if_splits)

declare scan_from.simps [simp del]

definition LinesFrom :: "string list \<Rightarrow> string list" where
  "LinesFrom reads = scan_from [] reads False"

section \<open>Properties\<close>

lemma unique_from_spec:
  "unique_from xs seen result = result @ rev (remdups (rev (filter (\<lambda>x. x \<notin> seen) xs)))"
proof (induction xs arbitrary: seen result)
  case (Cons x xs)
  have filters: "rev (remdups (rev (filter (\<lambda>y. y \<noteq> x \<and> y \<notin> seen) xs)))
    = filter (\<lambda>y. y \<noteq> x) (rev (remdups (rev (filter (\<lambda>y. y \<notin> seen) xs))))"
    by (simp add: remdups_filter rev_filter filter_filter conj_commute)
  have snoc: "remdups (ys @ [x]) = filter (\<lambda>y. y \<noteq> x) (remdups ys) @ [x]" for ys
    by (induction ys) auto
  show ?case using Cons by (simp add: filters snoc flip: rev_filter)
qed simp

text \<open>\<open>Unique\<close> keeps the first occurrence of every element.\<close>

lemma Unique_spec: "Unique xs = rev (remdups (rev xs))"
  by (simp add: Unique_def unique_from_spec)

lemma set_Unique [simp]: "set (Unique xs) = set xs"
  and distinct_Unique [simp]: "distinct (Unique xs)"
  by (simp_all add: Unique_spec)

lemma Unique_snoc: "Unique (xs @ [x]) = (if x \<in> set xs then Unique xs else Unique xs @ [x])"
  by (simp add: Unique_spec)

text \<open>The state of the grouping loop: the groups of the items seen, and where the group of each key is.\<close>

definition grouped :: "('a \<Rightarrow> 'k) \<Rightarrow> 'a list \<Rightarrow> 'a list list" where
  "grouped f xs = map (\<lambda>k. filter (\<lambda>x. f x = k) xs) (Unique (map f xs))"

lemma grouped_snoc:
  "grouped f (xs @ [x]) =
     (if f x \<in> f ` set xs then map (\<lambda>k. filter (\<lambda>y. f y = k) xs @ (if f x = k then [x] else [])) (Unique (map f xs))
      else grouped f xs @ [[x]])"
proof (cases "f x \<in> f ` set xs")
  case False
  then have "filter (\<lambda>y. f y = f x) xs = []" by (metis (mono_tags, lifting) filter_False image_eqI)
  moreover have "f x \<noteq> k" if "k \<in> set (Unique (map f xs))" for k using that False by auto
  ultimately show ?thesis using False by (simp add: grouped_def Unique_snoc cong: map_cong)
next
  case True
  then show ?thesis by (auto simp: grouped_def Unique_snoc)
qed

lemma group_ordered_from_spec:
  assumes "groups = grouped f done_items"
    and "\<forall>k i. map_of index k = Some i \<longleftrightarrow> i < length groups \<and> Unique (map f done_items) ! i = k"
  shows "group_ordered_from f xs groups index = grouped f (done_items @ xs)"
  using assms
proof (induction xs arbitrary: groups index done_items)
  case (Cons x xs)
  have len: "length groups = length (Unique (map f done_items))" using Cons.prems(1) by (simp add: grouped_def)
  show ?case
  proof (cases "map_of index (f x)")
    case None
    then have new: "f x \<notin> f ` set done_items"
      using Cons.prems(2) len by (metis in_set_conv_nth list.set_map option.distinct(1) set_Unique)
    have "grouped f done_items @ [[x]] = grouped f (done_items @ [x])" using new by (simp add: grouped_snoc)
    moreover have "\<forall>k i. map_of ((f x, length groups) # index) k = Some i
      \<longleftrightarrow> i < length (groups @ [[x]]) \<and> Unique (map f (done_items @ [x])) ! i = k"
      using Cons.prems(2) None new len by (auto simp: Unique_snoc nth_append less_Suc_eq) (metis option.distinct(1))
    ultimately show ?thesis using Cons.IH [of "groups @ [[x]]" "done_items @ [x]"] Cons.prems(1) None by simp
  next
    case (Some i)
    then have i: "i < length groups" "Unique (map f done_items) ! i = f x" using Cons.prems(2) by auto
    then have old: "f x \<in> f ` set done_items" using len by (metis list.set_map nth_mem set_Unique)
    have "grouped f (done_items @ [x]) = groups[i := groups ! i @ [x]]"
    proof (rule nth_equalityI)
      show "length (grouped f (done_items @ [x])) = length (groups[i := groups ! i @ [x]])"
        using old len by (simp add: grouped_snoc)
    next
      fix j assume "j < length (grouped f (done_items @ [x]))"
      then have j: "j < length (Unique (map f done_items))" using old by (simp add: grouped_snoc)
      have "f x = Unique (map f done_items) ! j \<longleftrightarrow> i = j"
        using i j len nth_eq_iff_index_eq [OF distinct_Unique] by metis
      then show "grouped f (done_items @ [x]) ! j = groups[i := groups ! i @ [x]] ! j"
        using j i len Cons.prems(1) by (simp add: grouped_snoc [of f done_items x] old) (auto simp: grouped_def nth_list_update)
    qed
    moreover have "Unique (map f (done_items @ [x])) = Unique (map f done_items)" using old by (auto simp: Unique_snoc)
    ultimately have "group_ordered_from f xs (groups[i := groups ! i @ [x]]) index = grouped f (done_items @ x # xs)"
      using Cons.IH [of "groups[i := groups ! i @ [x]]" "done_items @ [x]" index] Cons.prems(2) by simp
    then show ?thesis using Some by (simp only: group_ordered_from.simps option.case)
  qed
qed simp

text \<open>
  \<open>GroupOrdered\<close> splits a slice into the groups of equal keys, in the order in which the keys first
  occur, each group with its items in the order of the slice.
\<close>

lemma GroupOrdered_spec:
  "GroupOrdered s f = map (\<lambda>k. filter (\<lambda>x. f x = k) s) (Unique (map f s))"
  using group_ordered_from_spec [of "[]" f "[]" "[]" s] by (simp add: GroupOrdered_def grouped_def Unique_def)

lemma group_from_spec:
  "group_from f xs m k = (case (m k, filter (\<lambda>x. f x = k) xs) of
     (v, []) \<Rightarrow> v | (None, g) \<Rightarrow> Some g | (Some g, g') \<Rightarrow> Some (g @ g'))"
  by (induction xs arbitrary: m) (auto simp: Let_def split: option.splits list.splits)

lemma Group_spec: "Group s f k = (let g = filter (\<lambda>x. f x = k) s in if g = [] then None else Some g)"
  by (simp add: Group_def group_from_spec split: list.splits)

lemma map_of_Group: "map Some (GroupOrdered s f) = map (Group s f) (Unique (map f s))"
  by (auto simp: GroupOrdered_spec Group_spec Let_def filter_empty_conv)

text \<open>How often a value occurs, where the zero value does not count.\<close>

definition freq :: "'a \<Rightarrow> 'a list \<Rightarrow> 'a \<Rightarrow> nat" where
  "freq zero xs v = (if v = zero then 0 else count_list xs v)"

lemma freq_Nil: "freq zero [] v = 0"
  by (simp add: freq_def)

lemma freq_snoc: "freq zero (xs @ [x]) v = freq zero xs v + (if x = v \<and> v \<noteq> zero then 1 else 0)"
  by (simp add: freq_def)

lemma most_frequent_from_spec:
  assumes "\<forall>v. v \<noteq> zero \<longrightarrow> (case map_of counters v of None \<Rightarrow> 0 | Some c \<Rightarrow> c) = freq zero before v"
    and "topCount = freq zero before topItem" and "\<forall>v. freq zero before v \<le> topCount"
  shows "freq zero (before @ xs) v \<le> freq zero (before @ xs) (most_frequent_from zero xs counters topItem topCount)"
  using assms
proof (induction xs arbitrary: counters topItem topCount before)
  case (Cons x xs)
  show ?case
  proof (cases "x = zero")
    case True
    then show ?thesis using Cons.IH [of counters "before @ [x]" topCount topItem] Cons.prems by (simp add: freq_snoc)
  next
    case False
    let ?n = "freq zero before x + 1"
    let ?counters = "(x, ?n) # counters"
    have n: "(case map_of counters x of None \<Rightarrow> 0 | Some c \<Rightarrow> c) + 1 = ?n" using Cons.prems(1) False by simp
    have counters: "\<forall>v. v \<noteq> zero \<longrightarrow> (case map_of ?counters v of None \<Rightarrow> 0 | Some c \<Rightarrow> c) = freq zero (before @ [x]) v"
      using Cons.prems(1) by (simp add: freq_snoc)
    show ?thesis
    proof (cases "?n > topCount")
      case True
      then have "\<forall>v. freq zero (before @ [x]) v \<le> ?n"
        using Cons.prems(3) False by (auto simp: freq_snoc intro: le_trans)
      moreover have "?n = freq zero (before @ [x]) x" using False by (simp add: freq_snoc)
      ultimately show ?thesis using Cons.IH [OF counters, of ?n x] True False n by (simp add: Let_def)
    next
      case here: False
      then have "topItem \<noteq> x" using Cons.prems(2) by auto
      then have "topCount = freq zero (before @ [x]) topItem" using Cons.prems(2) by (simp add: freq_snoc)
      moreover have "\<forall>v. freq zero (before @ [x]) v \<le> topCount" using Cons.prems(3) here by (simp add: freq_snoc)
      ultimately show ?thesis using Cons.IH [OF counters, of topCount topItem] here False n by (simp add: Let_def)
    qed
  qed
qed simp

text \<open>
  \<open>MostFrequent\<close> returns a value other than the zero value that occurs most often, and the zero value only when
  there is no other.
\<close>

lemma MostFrequent_spec:
  fixes zero :: 'a and xs :: "'a list"
  defines "r \<equiv> MostFrequent zero xs"
  shows "if set xs \<subseteq> {zero} then r = zero
    else r \<in> set xs - {zero} \<and> (\<forall>v. v \<noteq> zero \<longrightarrow> count_list xs v \<le> count_list xs r)"
proof -
  have most: "freq zero xs v \<le> freq zero xs r" for v
    using most_frequent_from_spec [of zero "[]" "[]" 0 zero xs v]
    by (cases "xs = []") (simp_all add: r_def MostFrequent_def freq_Nil)
  have stays: "set ys \<subseteq> {zero} \<Longrightarrow> most_frequent_from zero ys cs zero 0 = zero" for ys cs
    by (induction ys) auto
  show ?thesis
  proof (cases "set xs \<subseteq> {zero}")
    case True then show ?thesis using stays by (auto simp: r_def MostFrequent_def)
  next
    case False
    then obtain v where v: "v \<in> set xs" "v \<noteq> zero" by auto
    then have "0 < freq zero xs v" by (metis count_list_0_iff freq_def gr0I)
    then have "0 < freq zero xs r" using most [of v] by simp
    then have r: "r \<noteq> zero" "r \<in> set xs" by (auto simp: freq_def split: if_splits) (metis count_list_0_iff less_numeral_extra(3))
    moreover have "count_list xs u \<le> count_list xs r" if "u \<noteq> zero" for u
      using most [of u] that r by (simp add: freq_def)
    ultimately show ?thesis using False by simp
  qed
qed

text \<open>\<open>Move\<close> takes an element out and puts it at its new index; the others keep their order.\<close>

lemma reinserted: "d \<le> length r \<Longrightarrow> remove_nth d (take d r @ [x] @ drop d r) = r"
  by (simp add: remove_nth_def)

lemma Move_spec:
  assumes "s < length xs" and "d < length xs"
  obtains ys where "Move xs (int s) (int d) = Some ys" and "length ys = length xs" and "ys ! d = xs ! s"
    and "remove_nth d ys = remove_nth s xs"
proof
  let ?r = "take s xs @ drop (s + 1) xs"
  show "Move xs (int s) (int d) = Some (take d ?r @ [xs ! s] @ drop d ?r)"
    using assms by (simp add: Move_def Remove_def Insert_def)
  show "length (take d ?r @ [xs ! s] @ drop d ?r) = length xs" using assms by simp
  show "(take d ?r @ [xs ! s] @ drop d ?r) ! d = xs ! s" using assms by (simp add: nth_append min_def)
  show "remove_nth d (take d ?r @ [xs ! s] @ drop d ?r) = remove_nth s xs"
    using reinserted [of d ?r "xs ! s"] assms by (simp add: remove_nth_def [of s])
qed

lemma Move_panics: "Move xs s d = None \<longleftrightarrow> s < 0 \<or> d < 0 \<or> int (length xs) \<le> s \<or> int (length xs) \<le> d"
  by (auto simp: Move_def Remove_def Insert_def)

text \<open>The chunks of a sequence are those of the slice.\<close>

lemma collect_chunks_from_chunk:
  "length s < n \<Longrightarrow> collect_chunks_from xs n s = chunk n (s @ xs)"
proof (induction xs arbitrary: s)
  case Nil
  then show ?case by (cases "s = []") (simp_all add: chunk.simps [of n s])
next
  case (Cons x xs)
  show ?case
  proof (cases "length (s @ [x]) \<ge> n")
    case True
    then have "length (s @ [x]) = n" using Cons.prems by simp
    then have "take n (s @ x # xs) = s @ [x]" "drop n (s @ x # xs) = xs" using Cons.prems by auto
    moreover have "0 < n" using Cons.prems by simp
    ultimately show ?thesis using True Cons.IH [of "[]"] by (simp add: chunk.simps [of n "s @ x # xs"])
  next
    case False then show ?thesis using Cons.IH [of "s @ [x]"] by simp
  qed
qed

lemma CollectChunks_chunk: "0 < n \<Longrightarrow> CollectChunks xs n = chunk n xs"
  by (simp add: CollectChunks_def collect_chunks_from_chunk)

subsection \<open>Lines\<close>

text \<open>The lines of a text, ended by \<open>\n\<close>, \<open>\r\<close> or \<open>\r\n\<close>.\<close>

definition newline_end :: "string \<Rightarrow> nat \<Rightarrow> nat" where
  "newline_end s i = (if s ! i = CR \<and> i + 1 < length s \<and> s ! (i + 1) = LF then i + 2 else i + 1)"

function lines_of :: "string \<Rightarrow> string list" where
  "lines_of s = (if s = [] then [] else case newline_at s of
     None \<Rightarrow> [s] | Some i \<Rightarrow> take i s # lines_of (drop (newline_end s i) s))"
  by pat_completeness auto
termination by (relation "measure length") (auto simp: newline_end_def)

declare lines_of.simps [simp del]

text \<open>A line end \<open>\r\n\<close> falls between two pieces.\<close>

fun crlf_split :: "string list \<Rightarrow> bool" where
  "crlf_split (r # r' # rs) \<longleftrightarrow> r \<noteq> [] \<and> last r = CR \<and> r' \<noteq> [] \<and> hd r' = LF \<or> crlf_split (r' # rs)"
| "crlf_split _ \<longleftrightarrow> False"

lemma newline_at_None: "newline_at s = None \<longleftrightarrow> (\<forall>c \<in> set s. c \<noteq> CR \<and> c \<noteq> LF)"
  by (auto simp: newline_at_def find_index_None)

lemma newline_at_append:
  "newline_at (s @ t) = (case newline_at s of Some i \<Rightarrow> Some i | None \<Rightarrow> map_option (\<lambda>j. length s + j) (newline_at t))"
proof (induction s)
  case Nil
  show ?case by (cases "newline_at t") (simp_all add: newline_at_def)
next
  case (Cons a s)
  then show ?case by (cases "newline_at t") (auto simp: newline_at_def split: option.splits)
qed

lemma newline_at_char: "newline_at s = Some i \<Longrightarrow> s ! i = CR \<or> s ! i = LF"
  by (auto simp: newline_at_def dest: find_index_Some)

lemma newline_end_append:
  assumes "i < length buf" and "\<not> (last buf = CR \<and> rest \<noteq> [] \<and> hd rest = LF)"
  shows "newline_end (buf @ rest) i = newline_end buf i"
proof (cases "i + 1 < length buf")
  case True then show ?thesis by (simp add: newline_end_def nth_append)
next
  case False
  then have "i = length buf - 1" "buf \<noteq> []" using assms(1) by auto
  then show ?thesis using assms by (cases rest) (auto simp: newline_end_def nth_append last_conv_nth)
qed

lemma scanLines_token:
  assumes "newline_at buf = Some i" shows "scanLines buf eof = (newline_end buf i, Some (take i buf))"
  using assms newline_at_char [OF assms] newline_at_less [OF assms] by (auto simp: scanLines_def newline_end_def)

lemma newline_end_bounds: "newline_at buf = Some i \<Longrightarrow> 0 < newline_end buf i \<and> newline_end buf i \<le> length buf"
  using newline_at_less by (fastforce simp: newline_end_def)

lemma crlf_split_drop: "\<not> crlf_split (buf # reads) \<Longrightarrow> \<not> crlf_split (drop n buf # reads)"
  by (cases reads) (auto simp: last_drop)

lemma crlf_split_join: "r \<noteq> [] \<Longrightarrow> \<not> crlf_split (buf # r # rs) \<Longrightarrow> \<not> crlf_split ((buf @ r) # rs)"
  by (cases rs) auto

lemma crlf_split_hd:
  assumes "\<not> crlf_split (buf # reads)" and "\<forall>r \<in> set reads. r \<noteq> []" and "buf \<noteq> []"
  shows "\<not> (last buf = CR \<and> concat reads \<noteq> [] \<and> hd (concat reads) = LF)"
  using assms by (cases reads) auto

lemma first_line:
  assumes "newline_at buf = None"
  shows "buf = [] \<or> (\<exists>l \<in> set (lines_of (buf @ rest)). length buf \<le> length l)"
proof (cases "newline_at rest")
  case None then show ?thesis using assms by (simp add: lines_of.simps [of "buf @ rest"] newline_at_append)
next
  case (Some i) then show ?thesis using assms by (simp add: lines_of.simps [of "buf @ rest"] newline_at_append)
qed

lemma scan_from_lines:
  assumes "\<not> crlf_split (buf # reads)" and "\<forall>r \<in> set reads. r \<noteq> []" and "eof \<Longrightarrow> reads = []"
    and "\<forall>l \<in> set (lines_of (buf @ concat reads)). length l < maxScanTokenSize"
  shows "scan_from buf reads eof = lines_of (buf @ concat reads)"
  using assms
proof (induction buf reads eof rule: scan_from.induct)
  case (1 buf reads eof)
  show ?case
  proof (cases "newline_at buf")
    case (Some i)
    let ?e = "newline_end buf i"
    have i: "i < length buf" "buf \<noteq> []" using newline_at_less [OF Some] by auto
    have full: "newline_at (buf @ concat reads) = Some i" using Some by (simp add: newline_at_append)
    have e: "newline_end (buf @ concat reads) i = ?e"
      using newline_end_append [OF i(1) crlf_split_hd [OF "1.prems"(1,2) i(2)]] .
    have lines: "lines_of (buf @ concat reads) = take i buf # lines_of (drop ?e buf @ concat reads)"
      using full e i newline_end_bounds [OF Some] by (simp add: lines_of.simps [of "buf @ concat reads"])
    have tok: "(if buf \<noteq> [] \<or> eof then scanLines buf eof else (0, None)) = (?e, Some (take i buf))"
      using scanLines_token [OF Some] i by simp
    have "scan_from (drop ?e buf) reads eof = lines_of (drop ?e buf @ concat reads)"
      using "1.IH"(3) [OF tok [symmetric] refl] "1.prems" newline_end_bounds [OF Some] crlf_split_drop lines by simp
    then show ?thesis
      using tok newline_end_bounds [OF Some] lines by (subst scan_from.simps) simp
  next
    case None
    have no_token: "(if buf \<noteq> [] \<or> eof then scanLines buf eof else (0, None))
      = (if eof \<and> buf \<noteq> [] then (length buf, Some buf) else (0, None))"
      using None by (auto simp: scanLines_def)
    show ?thesis
    proof (cases eof)
      case True
      then show ?thesis
        using no_token None "1.prems"(3) by (subst scan_from.simps) (simp add: lines_of.simps scan_from.simps scanLines_def)
    next
      case False
      then have tok: "(if buf \<noteq> [] \<or> eof then scanLines buf eof else (0, None)) = (0, None)" using no_token by simp
      have short: "length buf < maxScanTokenSize"
        using first_line [OF None] "1.prems"(4) by (fastforce simp: maxScanTokenSize_def)
      show ?thesis
      proof (cases reads)
        case Nil
        then show ?thesis using "1.IH"(1) [OF tok [symmetric] refl] "1.prems" False short tok
          by (subst scan_from.simps) simp
      next
        case (Cons r rs)
        then have "scan_from (buf @ r) rs False = lines_of ((buf @ r) @ concat rs)"
          using "1.IH"(2) [OF tok [symmetric] refl _ Cons] "1.prems" False short crlf_split_join by simp
        then show ?thesis using False short tok Cons by (subst scan_from.simps) simp
      qed
    qed
  qed
qed

text \<open>Where a \<open>\r\n\<close> falls between two pieces there is an empty line more.\<close>

lemma LinesFrom_crlf_split:
  "LinesFrom [''a'' @ [CR], LF # ''b''] = [''a'', [], ''b''] \<and> lines_of (concat [''a'' @ [CR], LF # ''b'']) = [''a'', ''b'']"
  by (simp add: LinesFrom_def scan_from.simps scanLines_def maxScanTokenSize_def
      lines_of.simps newline_at_def newline_end_def)

text \<open>
  However the reader cuts its bytes into pieces, \<open>LinesFrom\<close> yields the lines of the whole text,
  ended by \<open>\n\<close>, \<open>\r\<close> or \<open>\r\n\<close>, provided no \<open>\r\n\<close> falls between two pieces and every line fits the
  buffer of the scanner.
\<close>

lemma LinesFrom_lines:
  assumes "\<not> crlf_split reads" and "\<forall>r \<in> set reads. r \<noteq> []"
    and "\<forall>l \<in> set (lines_of (concat reads)). length l < maxScanTokenSize"
  shows "LinesFrom reads = lines_of (concat reads)"
proof -
  have "\<not> crlf_split ([] # reads)" using assms(1) by (cases reads) auto
  then show ?thesis
    using scan_from_lines [of "[]" reads False] assms(2,3) by (simp add: LinesFrom_def)
qed

lemma LinesFrom_lines_witness:
  "LinesFrom [''a'', [CR, LF] @ ''bc'', [LF]] = [''a'', ''bc'']"
proof -
  have lines: "lines_of (concat [''a'', [CR, LF] @ ''bc'', [LF]]) = [''a'', ''bc'']"
    by (simp add: lines_of.simps newline_at_def newline_end_def)
  have "LinesFrom [''a'', [CR, LF] @ ''bc'', [LF]] = lines_of (concat [''a'', [CR, LF] @ ''bc'', [LF]])"
    by (rule LinesFrom_lines) (simp_all add: lines [simplified] maxScanTokenSize_def)
  then show ?thesis using lines by simp
qed

end
