(* ===== verification/KV_Store.thy ===== *)
theory KV_Store
  imports Str_Util Go_Slice "HOL-Library.Char_ord" "HOL-Library.List_Lexorder"
begin

text \<open>
  The key-value store of a plugin (\<open>plugins/host_kvstore.go\<close>) and the schema migrations of plugin databases
  (\<open>plugins/migrate.go\<close>). The table is the list of its rows. Every statement reads the clock of the database on its
  own and may fail: \<open>env_now\<close> and \<open>env_fail\<close> are indexed by the statement. The pattern match and the date arithmetic
  of SQLite are \<open>env_like\<close> and \<open>env_datetime\<close>, with their documented behaviour as the hypothesis \<open>sqlite_ok\<close>. Times
  are seconds, the resolution of \<open>datetime('now')\<close>; a key and a value are strings of bytes.
\<close>

section \<open>Definitions\<close>

subsection \<open>The table\<close>

record kv_row =
  r_key :: string
  r_value :: string
  r_size :: int
  r_created_at :: int
  r_updated_at :: int
  r_expires_at :: "int option"

datatype kv_stmt =
  CheckingKey | CalculatingUsed | StoringValue | ReadingValue | DeletingValue | CountingKey
  | ListingKeys | DeletingKeys | QueryingValues nat | CleaningUp

datatype kv_error =
  KeyEmpty | KeyTooLong | TTLNotPositive | PrefixEmpty
  | LimitExceeded int int
  | Failed kv_stmt

record kv_env =
  env_now :: "kv_stmt \<Rightarrow> int"
  env_fail :: "kv_stmt \<Rightarrow> bool"
  env_like :: "string \<Rightarrow> string \<Rightarrow> bool"
  env_datetime :: "int \<Rightarrow> int \<Rightarrow> int option"

definition defaultMaxKVStoreSize :: int where "defaultMaxKVStoreSize = 1 * 1024 * 1024"

definition maxKeyLength :: nat where "maxKeyLength = 256"

text \<open>\<open>expires_at IS NULL OR expires_at >= datetime('now')\<close>.\<close>

definition notExpiredFilter :: "int \<Rightarrow> kv_row \<Rightarrow> bool" where
  "notExpiredFilter now r = (case r_expires_at r of None \<Rightarrow> True | Some e \<Rightarrow> e \<ge> now)"

text \<open>The size limit a permission asks for; \<open>parseBytes\<close> is the parser of sizes such as \<open>1MB\<close>, which yields an unsigned number.\<close>

definition kv_max_size :: "(string \<Rightarrow> 'e + nat) \<Rightarrow> string option \<Rightarrow> 'e + int" where
  "kv_max_size parseBytes MaxSize =
     (case MaxSize of
        None \<Rightarrow> Inr defaultMaxKVStoreSize
      | Some m \<Rightarrow> if m = [] then Inr defaultMaxKVStoreSize
                 else (case parseBytes m of Inl err \<Rightarrow> Inl err | Inr parsed \<Rightarrow> Inr (wrap64 (int parsed))))"

subsection \<open>Storing\<close>

definition live_size :: "int \<Rightarrow> kv_row list \<Rightarrow> int" where
  "live_size now rows = sum_list (map r_size (filter (notExpiredFilter now) rows))"

definition storageUsed :: "kv_env \<Rightarrow> kv_row list \<Rightarrow> kv_error + int" where
  "storageUsed env rows =
     (if env_fail env CalculatingUsed then Inl (Failed CalculatingUsed)
      else Inr (live_size (env_now env CalculatingUsed) rows))"

definition checkStorageLimit :: "kv_env \<Rightarrow> int \<Rightarrow> kv_row list \<Rightarrow> int \<Rightarrow> kv_error + unit" where
  "checkStorageLimit env maxSize rows delta =
     (if delta \<le> 0 then Inr ()
      else case storageUsed env rows of
        Inl err \<Rightarrow> Inl err
      | Inr used \<Rightarrow> (let newTotal = used + delta in
          if newTotal > maxSize then Inl (LimitExceeded newTotal maxSize) else Inr ()))"

text \<open>The size of the row of a key that has not expired, or 0.\<close>

definition old_size :: "int \<Rightarrow> kv_row list \<Rightarrow> string \<Rightarrow> int" where
  "old_size now rows key =
     (case find (\<lambda>r. r_key r = key \<and> notExpiredFilter now r) rows of None \<Rightarrow> 0 | Some r \<Rightarrow> r_size r)"

text \<open>\<open>INSERT ... ON CONFLICT(key) DO UPDATE\<close>.\<close>

definition upsert :: "int \<Rightarrow> string \<Rightarrow> string \<Rightarrow> int option \<Rightarrow> kv_row list \<Rightarrow> kv_row list" where
  "upsert now key value expires rows =
     (if key \<in> r_key ` set rows
      then map (\<lambda>r. if r_key r = key
                    then r\<lparr>r_value := value, r_size := int (length value), r_updated_at := now, r_expires_at := expires\<rparr>
                    else r) rows
      else rows @ [\<lparr>r_key = key, r_value = value, r_size = int (length value), r_created_at = now,
                    r_updated_at = now, r_expires_at = expires\<rparr>])"

text \<open>What \<open>setValue\<close> checks before it stores.\<close>

definition setValue_check :: "kv_env \<Rightarrow> int \<Rightarrow> kv_row list \<Rightarrow> string \<Rightarrow> string \<Rightarrow> kv_error + unit" where
  "setValue_check env maxSize rows key value =
     (if length key = 0 then Inl KeyEmpty
      else if length key > maxKeyLength then Inl KeyTooLong
      else if env_fail env CheckingKey then Inl (Failed CheckingKey)
      else checkStorageLimit env maxSize rows (int (length value) - old_size (env_now env CheckingKey) rows key))"

definition setValue_store :: "kv_env \<Rightarrow> kv_row list \<Rightarrow> string \<Rightarrow> string \<Rightarrow> int \<Rightarrow> kv_error + kv_row list" where
  "setValue_store env rows key value ttlSeconds =
     (let now = env_now env StoringValue;
          expires = (if ttlSeconds > 0 then env_datetime env now ttlSeconds else None)
      in if env_fail env StoringValue then Inl (Failed StoringValue) else Inr (upsert now key value expires rows))"

definition setValue :: "kv_env \<Rightarrow> int \<Rightarrow> kv_row list \<Rightarrow> string \<Rightarrow> string \<Rightarrow> int \<Rightarrow> kv_error + kv_row list" where
  "setValue env maxSize rows key value ttlSeconds =
     (case setValue_check env maxSize rows key value of
        Inl err \<Rightarrow> Inl err
      | Inr _ \<Rightarrow> setValue_store env rows key value ttlSeconds)"

definition Set :: "kv_env \<Rightarrow> int \<Rightarrow> kv_row list \<Rightarrow> string \<Rightarrow> string \<Rightarrow> kv_error + kv_row list" where
  "Set env maxSize rows key value = setValue env maxSize rows key value 0"

definition SetWithTTL :: "kv_env \<Rightarrow> int \<Rightarrow> kv_row list \<Rightarrow> string \<Rightarrow> string \<Rightarrow> int \<Rightarrow> kv_error + kv_row list" where
  "SetWithTTL env maxSize rows key value ttlSeconds =
     (if ttlSeconds \<le> 0 then Inl TTLNotPositive else setValue env maxSize rows key value ttlSeconds)"

subsection \<open>Reading and deleting\<close>

definition Get :: "kv_env \<Rightarrow> kv_row list \<Rightarrow> string \<Rightarrow> kv_error + string option" where
  "Get env rows key =
     (if env_fail env ReadingValue then Inl (Failed ReadingValue)
      else Inr (map_option r_value (find (\<lambda>r. r_key r = key \<and> notExpiredFilter (env_now env ReadingValue) r) rows)))"

definition Delete :: "kv_env \<Rightarrow> kv_row list \<Rightarrow> string \<Rightarrow> kv_error + kv_row list" where
  "Delete env rows key =
     (if env_fail env DeletingValue then Inl (Failed DeletingValue) else Inr (filter (\<lambda>r. r_key r \<noteq> key) rows))"

definition Has :: "kv_env \<Rightarrow> kv_row list \<Rightarrow> string \<Rightarrow> kv_error + bool" where
  "Has env rows key =
     (if env_fail env CountingKey then Inl (Failed CountingKey)
      else Inr (length (filter (\<lambda>r. r_key r = key \<and> notExpiredFilter (env_now env CountingKey) r) rows) > 0))"

text \<open>\<open>%\<close> and \<open>_\<close> are escaped, the escape character is not.\<close>

definition escape_prefix :: "string \<Rightarrow> string" where
  "escape_prefix p =
     replace_all [([CHR ''_''], [CHR 0x5C, CHR ''_''])] (replace_all [([CHR ''%''], [CHR 0x5C, CHR ''%''])] p)"

definition List :: "kv_env \<Rightarrow> kv_row list \<Rightarrow> string \<Rightarrow> kv_error + string list" where
  "List env rows pref =
     (if env_fail env ListingKeys then Inl (Failed ListingKeys)
      else let now = env_now env ListingKeys in
        if pref = [] then Inr (sort (map r_key (filter (notExpiredFilter now) rows)))
        else Inr (sort (map r_key (filter (\<lambda>r. env_like env (escape_prefix pref @ ''%'') (r_key r) \<and> notExpiredFilter now r) rows))))"

definition GetStorageUsed :: "kv_env \<Rightarrow> kv_row list \<Rightarrow> kv_error + int" where
  "GetStorageUsed env rows = storageUsed env rows"

definition DeleteByPrefix :: "kv_env \<Rightarrow> kv_row list \<Rightarrow> string \<Rightarrow> kv_error + nat \<times> kv_row list" where
  "DeleteByPrefix env rows pref =
     (if pref = [] then Inl PrefixEmpty
      else if env_fail env DeletingKeys then Inl (Failed DeletingKeys)
      else let hit = (\<lambda>r. env_like env (escape_prefix pref @ ''%'') (r_key r))
        in Inr (length (filter hit rows), filter (\<lambda>r. \<not> hit r) rows))"

definition batchSize :: nat where "batchSize = 200"

fun get_many_from :: "kv_env \<Rightarrow> kv_row list \<Rightarrow> nat \<Rightarrow> string list list \<Rightarrow> (string \<rightharpoonup> string) \<Rightarrow> kv_error + (string \<rightharpoonup> string)" where
  "get_many_from env rows i [] result = Inr result"
| "get_many_from env rows i (batch # rest) result =
     (if env_fail env (QueryingValues i) then Inl (Failed (QueryingValues i))
      else get_many_from env rows (i + 1) rest
        (fold (\<lambda>r m. m(r_key r \<mapsto> r_value r))
          (filter (\<lambda>r. r_key r \<in> set batch \<and> notExpiredFilter (env_now env (QueryingValues i)) r) rows) result))"

definition GetMany :: "kv_env \<Rightarrow> kv_row list \<Rightarrow> string list \<Rightarrow> kv_error + (string \<rightharpoonup> string)" where
  "GetMany env rows keys =
     (if keys = [] then Inr Map.empty else get_many_from env rows 0 (CollectChunks keys batchSize) Map.empty)"

subsection \<open>Cleaning up\<close>

definition cleanupExpired :: "kv_env \<Rightarrow> kv_row list \<Rightarrow> kv_row list" where
  "cleanupExpired env rows =
     (if env_fail env CleaningUp then rows
      else filter (\<lambda>r. \<not> (case r_expires_at r of None \<Rightarrow> False | Some e \<Rightarrow> e < env_now env CleaningUp)) rows)"

text \<open>The loop of the background goroutine: a tick of the hourly timer, or the cancelled context.\<close>

datatype cleanup_event = Tick kv_env | ContextDone

fun cleanupLoop :: "cleanup_event list \<Rightarrow> kv_row list \<Rightarrow> kv_row list" where
  "cleanupLoop [] rows = rows"
| "cleanupLoop (ContextDone # es) rows = rows"
| "cleanupLoop (Tick env # es) rows = cleanupLoop es (cleanupExpired env rows)"

subsection \<open>Migrations\<close>

text \<open>
  A database with the statements applied so far and its version. \<open>exec\<close> runs a statement on the schema; \<open>faults\<close> says
  which of the other calls fail. A transaction that is not committed changes nothing.
\<close>

record 'db migrated =
  m_schema :: 'db
  m_version :: nat

datatype migrate_call = ReadVersion | BeginTx | SetVersion | CommitTx
datatype migrate_error = CallFailed migrate_call | MigrationFailed nat

fun run_migrations :: "('m \<Rightarrow> 'db \<Rightarrow> 'db option) \<Rightarrow> nat \<Rightarrow> 'm list \<Rightarrow> 'db \<Rightarrow> migrate_error + 'db" where
  "run_migrations exec i [] db = Inr db"
| "run_migrations exec i (m # ms) db =
     (case exec m db of None \<Rightarrow> Inl (MigrationFailed (i + 1)) | Some db' \<Rightarrow> run_migrations exec (i + 1) ms db')"

definition migrateDB :: "('m \<Rightarrow> 'db \<Rightarrow> 'db option) \<Rightarrow> (migrate_call \<Rightarrow> bool) \<Rightarrow> 'm list \<Rightarrow> 'db migrated
    \<Rightarrow> migrate_error option \<times> 'db migrated" where
  "migrateDB exec faults migrations d =
     (if faults ReadVersion then (Some (CallFailed ReadVersion), d)
      else if m_version d \<ge> length migrations then (None, d)
      else if faults BeginTx then (Some (CallFailed BeginTx), d)
      else case run_migrations exec (m_version d) (drop (m_version d) migrations) (m_schema d) of
        Inl err \<Rightarrow> (Some err, d)
      | Inr schema \<Rightarrow>
          if faults SetVersion then (Some (CallFailed SetVersion), d)
          else if faults CommitTx then (Some (CallFailed CommitTx), d)
          else (None, d\<lparr>m_schema := schema, m_version := length migrations\<rparr>))"

section \<open>The contract of an expiring store\<close>

text \<open>
  What a client of the store relies on: a read sees the last value put, until it expires or is deleted, and sweeping
  away what has expired is not visible.
\<close>

definition alive :: "int option \<Rightarrow> int \<Rightarrow> bool" where
  "alive e t = (case e of None \<Rightarrow> True | Some x \<Rightarrow> x \<ge> t)"

datatype ('k, 'v) store_write = Put int 'k 'v "int option" | Del "'k set" | Sweep int

text \<open>The value of a key after a history of writes, newest first.\<close>

primrec seen :: "int \<Rightarrow> 'v option \<Rightarrow> ('k, 'v) store_write list \<Rightarrow> 'k \<Rightarrow> 'v option" where
  "seen t start [] k = start"
| "seen t start (w # ws) k =
     (case w of
        Put _ k' v e \<Rightarrow> if k = k' then if alive e t then Some v else None else seen t start ws k
      | Del ks \<Rightarrow> if k \<in> ks then None else seen t start ws k
      | Sweep now \<Rightarrow> seen t start ws k)"

locale expiring_store =
  fixes inv :: "'s \<Rightarrow> bool"
    and read :: "int \<Rightarrow> 's \<Rightarrow> 'k \<Rightarrow> 'v option"
    and upd :: "('k, 'v) store_write \<Rightarrow> 's \<Rightarrow> 's"
  assumes inv_write: "inv s \<Longrightarrow> inv (upd w s)"
    and read_put: "inv s \<Longrightarrow> read t (upd (Put w0 k v e) s) k' =
      (if k' = k then if alive e t then Some v else None else read t s k')"
    and read_del: "inv s \<Longrightarrow> read t (upd (Del ks) s) k = (if k \<in> ks then None else read t s k)"
    and read_sweep: "inv s \<Longrightarrow> now \<le> t \<Longrightarrow> read t (upd (Sweep now) s) k = read t s k"
begin

lemma inv_writes: "inv s \<Longrightarrow> inv (fold upd ws s)"
  by (induction ws arbitrary: s) (simp_all add: inv_write)

lemma read_history:
  assumes "inv s" and "\<forall>now. Sweep now \<in> set ws \<longrightarrow> now \<le> t"
  shows "read t (fold upd ws s) k = seen t (read t s k) (rev ws) k"
  using assms
proof (induction ws rule: rev_induct)
  case (snoc w ws)
  have "inv (fold upd ws s)" using snoc.prems by (simp add: inv_writes)
  then show ?case
    using snoc by (cases w) (simp_all add: read_put read_del read_sweep)
qed simp

end

section \<open>Properties\<close>

subsection \<open>The table\<close>

text \<open>Keys are unique and within their bounds, and a size is that of its value.\<close>

definition kv_wf :: "kv_row list \<Rightarrow> bool" where
  "kv_wf rows \<longleftrightarrow> distinct (map r_key rows) \<and>
     list_all (\<lambda>r. r_size r = int (length (r_value r)) \<and> r_key r \<noteq> [] \<and> length (r_key r) \<le> maxKeyLength) rows"

definition row_of :: "string \<Rightarrow> kv_row list \<Rightarrow> kv_row option" where
  "row_of key rows = find (\<lambda>r. r_key r = key) rows"

definition read_at :: "int \<Rightarrow> kv_row list \<Rightarrow> string \<Rightarrow> string option" where
  "read_at t rows key = map_option r_value (find (\<lambda>r. r_key r = key \<and> notExpiredFilter t r) rows)"

lemma notExpired_alive: "notExpiredFilter t r = alive (r_expires_at r) t"
  by (simp add: notExpiredFilter_def alive_def)

lemma find_live:
  "distinct (map r_key rows) \<Longrightarrow> find (\<lambda>r. r_key r = key \<and> P r) rows =
     (case row_of key rows of None \<Rightarrow> None | Some r \<Rightarrow> if P r then Some r else None)"
proof (induction rows)
  case (Cons r rows)
  have "find (\<lambda>r. r_key r = key \<and> P r) rows = None" if "r_key r = key"
    using Cons.prems that by (auto simp: find_None_iff image_iff)
  then show ?case using Cons by (auto simp: row_of_def)
qed (simp add: row_of_def)

lemma read_at_row_of:
  "distinct (map r_key rows) \<Longrightarrow> read_at t rows key =
     (case row_of key rows of None \<Rightarrow> None | Some r \<Rightarrow> if notExpiredFilter t r then Some (r_value r) else None)"
  by (simp add: read_at_def find_live split: option.split)

lemma row_of_None: "row_of key rows = None \<longleftrightarrow> key \<notin> r_key ` set rows"
  by (auto simp: row_of_def find_None_iff)

lemma row_of_append: "row_of key (xs @ ys) = (case row_of key xs of None \<Rightarrow> row_of key ys | Some r \<Rightarrow> Some r)"
  by (induction xs) (simp_all add: row_of_def)

lemma row_of_filter:
  "row_of key (filter (\<lambda>r. r_key r \<notin> ks) rows) = (if key \<in> ks then None else row_of key rows)"
  by (induction rows) (auto simp: row_of_def)

lemma row_of_upsert:
  "row_of k (upsert now key value expires rows) =
     (if k = key then Some (case row_of key rows of
        None \<Rightarrow> \<lparr>r_key = key, r_value = value, r_size = int (length value), r_created_at = now,
                 r_updated_at = now, r_expires_at = expires\<rparr>
      | Some r \<Rightarrow> r\<lparr>r_value := value, r_size := int (length value), r_updated_at := now, r_expires_at := expires\<rparr>)
      else row_of k rows)"
proof (cases "key \<in> r_key ` set rows")
  case True
  have "row_of k (map (\<lambda>r. if r_key r = key then f r else r) rows) =
      map_option (\<lambda>r. if r_key r = key then f r else r) (row_of k rows)"
    if "\<And>r. r_key (f r) = r_key r" for f :: "kv_row \<Rightarrow> kv_row"
    using that by (induction rows) (auto simp: row_of_def)
  moreover have "row_of key rows \<noteq> None" using True by (simp add: row_of_None)
  moreover have "r_key r = k" if "row_of k rows = Some r" for r
    using that by (auto simp: row_of_def dest: find_Some_elem)
  ultimately show ?thesis
    using True by (cases "row_of k rows"; cases "k = key") (simp_all add: upsert_def)
next
  case False
  then have new: "row_of key rows = None" by (simp add: row_of_None)
  have one: "row_of k' [r] = (if r_key r = k' then Some r else None)" for k' r by (simp add: row_of_def)
  show ?thesis
    using False new by (cases "row_of k rows"; cases "k = key") (simp_all add: upsert_def row_of_append one)
qed

lemma keys_upsert: "map r_key (upsert now key value e rows) = (if key \<in> r_key ` set rows then map r_key rows else map r_key rows @ [key])"
  by (auto simp: upsert_def)

lemma kv_wf_upsert: "kv_wf rows \<Longrightarrow> key \<noteq> [] \<Longrightarrow> length key \<le> maxKeyLength \<Longrightarrow> kv_wf (upsert now key value e rows)"
  by (auto simp: kv_wf_def keys_upsert) (auto simp: upsert_def list_all_iff)

lemma kv_wf_filter: "kv_wf rows \<Longrightarrow> kv_wf (filter P rows)"
  by (auto simp: kv_wf_def list_all_iff distinct_map_filter)

subsection \<open>Reads and writes\<close>

text \<open>The writes of the table.\<close>

fun kv_upd :: "(string, string) store_write \<Rightarrow> kv_row list \<Rightarrow> kv_row list" where
  "kv_upd (Put w0 key value expires) rows = upsert w0 key value expires rows"
| "kv_upd (Del ks) rows = filter (\<lambda>r. r_key r \<notin> ks) rows"
| "kv_upd (Sweep now) rows = filter (\<lambda>r. \<not> (case r_expires_at r of None \<Rightarrow> False | Some e \<Rightarrow> e < now)) rows"

lemma sweep_alive: "kv_upd (Sweep now) rows = filter (notExpiredFilter now) rows"
  by (auto simp: notExpiredFilter_def intro!: filter_cong split: option.splits)

lemma alive_mono: "now \<le> t \<Longrightarrow> alive e t \<Longrightarrow> alive e now"
  by (auto simp: alive_def split: option.splits)

lemma read_at_sweep:
  assumes "now \<le> t" shows "read_at t (kv_upd (Sweep now) rows) key = read_at t rows key"
proof -
  have "find (\<lambda>r. r_key r = key \<and> notExpiredFilter t r) (filter (notExpiredFilter now) rows)
    = find (\<lambda>r. r_key r = key \<and> notExpiredFilter t r) rows" for rows
    using alive_mono [OF assms] by (induction rows) (auto simp: notExpired_alive)
  then show ?thesis by (simp only: read_at_def sweep_alive)
qed

interpretation kv: expiring_store "\<lambda>rows. distinct (map r_key rows)" read_at kv_upd
proof unfold_locales
  fix s :: "kv_row list" and w and t w0 k v e k' ks now
  assume inv: "distinct (map r_key s)"
  show keep: "distinct (map r_key (kv_upd w s))" for w
    using inv by (cases w) (auto simp: keys_upsert distinct_map_filter)
  show "read_at t (kv_upd (Put w0 k v e) s) k' = (if k' = k then if alive e t then Some v else None else read_at t s k')"
    using keep [of "Put w0 k v e"] inv by (simp add: read_at_row_of row_of_upsert notExpired_alive split: option.split)
  show "read_at t (kv_upd (Del ks) s) k = (if k \<in> ks then None else read_at t s k)"
    using keep [of "Del ks"] inv by (simp add: read_at_row_of row_of_filter)
  show "now \<le> t \<Longrightarrow> read_at t (kv_upd (Sweep now) s) k = read_at t s k"
    by (rule read_at_sweep)
qed

text \<open>The calls that write, and the table after a call; a call that fails leaves it.\<close>

datatype kv_call = CallSet string string | CallSetWithTTL string string int | CallDelete string
  | CallDeleteByPrefix string | CallCleanup

fun kv_exec :: "int \<Rightarrow> kv_env \<times> kv_call \<Rightarrow> kv_row list \<Rightarrow> kv_row list" where
  "kv_exec maxSize (env, CallSet k v) rows = case_sum (\<lambda>_. rows) id (Set env maxSize rows k v)"
| "kv_exec maxSize (env, CallSetWithTTL k v ttl) rows = case_sum (\<lambda>_. rows) id (SetWithTTL env maxSize rows k v ttl)"
| "kv_exec maxSize (env, CallDelete k) rows = case_sum (\<lambda>_. rows) id (Delete env rows k)"
| "kv_exec maxSize (env, CallDeleteByPrefix p) rows = case_sum (\<lambda>_. rows) snd (DeleteByPrefix env rows p)"
| "kv_exec maxSize (env, CallCleanup) rows = cleanupExpired env rows"

text \<open>What a call writes, if it succeeds.\<close>

fun kv_written :: "int \<Rightarrow> kv_env \<times> kv_call \<Rightarrow> kv_row list \<Rightarrow> (string, string) store_write list" where
  "kv_written maxSize (env, CallSet k v) rows =
     (case Set env maxSize rows k v of Inl _ \<Rightarrow> [] | Inr _ \<Rightarrow> [Put (env_now env StoringValue) k v None])"
| "kv_written maxSize (env, CallSetWithTTL k v ttl) rows =
     (case SetWithTTL env maxSize rows k v ttl of
        Inl _ \<Rightarrow> []
      | Inr _ \<Rightarrow> [Put (env_now env StoringValue) k v (env_datetime env (env_now env StoringValue) ttl)])"
| "kv_written maxSize (env, CallDelete k) rows = (if env_fail env DeletingValue then [] else [Del {k}])"
| "kv_written maxSize (env, CallDeleteByPrefix p) rows =
     (if p = [] \<or> env_fail env DeletingKeys then [] else [Del {k. env_like env (escape_prefix p @ ''%'') k}])"
| "kv_written maxSize (env, CallCleanup) rows =
     (if env_fail env CleaningUp then [] else [Sweep (env_now env CleaningUp)])"

fun kv_writes :: "int \<Rightarrow> (kv_env \<times> kv_call) list \<Rightarrow> kv_row list \<Rightarrow> (string, string) store_write list" where
  "kv_writes maxSize [] rows = []"
| "kv_writes maxSize (c # cs) rows = kv_written maxSize c rows @ kv_writes maxSize cs (kv_exec maxSize c rows)"

lemma kv_exec_written: "kv_exec maxSize c rows = fold kv_upd (kv_written maxSize c rows) rows"
proof (cases "(maxSize, c, rows)" rule: kv_exec.cases)
  case (1 m env k v) then show ?thesis
    by (auto simp: Set_def setValue_def setValue_store_def Let_def split: sum.splits if_splits)
next
  case (2 m env k v ttl) then show ?thesis
    by (auto simp: SetWithTTL_def setValue_def setValue_store_def Let_def split: sum.splits if_splits)
next
  case (3 m env k) then show ?thesis by (simp add: Delete_def)
next
  case (4 m env p) then show ?thesis by (simp add: DeleteByPrefix_def Let_def)
next
  case (5 m env) then show ?thesis by (simp add: cleanupExpired_def)
qed

lemma fold_kv_exec: "fold (kv_exec maxSize) cs rows = fold kv_upd (kv_writes maxSize cs rows) rows"
  by (induction cs arbitrary: rows) (simp_all add: kv_exec_written)

text \<open>
  C10 (refinement): After any sequence of calls, successful or not, \<open>Get\<close> returns the value last stored for the key,
  unless that value has expired or the key was deleted since; cleaning up is not visible.
\<close>

theorem kv_last_write:
  assumes "distinct (map r_key rows)" and "\<not> env_fail env ReadingValue"
    and "\<forall>now. Sweep now \<in> set (kv_writes maxSize calls rows) \<longrightarrow> now \<le> env_now env ReadingValue"
  shows "Get env (fold (kv_exec maxSize) calls rows) key =
    Inr (seen (env_now env ReadingValue) (read_at (env_now env ReadingValue) rows key) (rev (kv_writes maxSize calls rows)) key)"
  using kv.read_history [OF assms(1,3)] assms(2) by (simp add: Get_def fold_kv_exec read_at_def [symmetric])

definition ex_env :: "int \<Rightarrow> kv_env" where
  "ex_env t = \<lparr>env_now = (\<lambda>_. t), env_fail = (\<lambda>_. False), env_like = (\<lambda>p s. has_prefix s (butlast p)),
     env_datetime = (\<lambda>now n. Some (now + n))\<rparr>"

lemma ex_env_simps [simp]:
  "env_now (ex_env t) = (\<lambda>_. t)" "env_fail (ex_env t) = (\<lambda>_. False)" "env_datetime (ex_env t) = (\<lambda>now n. Some (now + n))"
  by (simp_all add: ex_env_def)

lemmas kv_set_defs = Set_def SetWithTTL_def setValue_def setValue_check_def setValue_store_def checkStorageLimit_def
  storageUsed_def live_size_def old_size_def upsert_def notExpiredFilter_def maxKeyLength_def

theorem kv_last_write_witness:
  "Get (ex_env 9) (fold (kv_exec 10) [(ex_env 1, CallSet ''a'' ''xy''), (ex_env 2, CallSetWithTTL ''a'' ''pqr'' 7), (ex_env 8, CallCleanup)] []) ''a''
     = Inr (Some ''pqr'') \<and>
   Get (ex_env 10) (fold (kv_exec 10) [(ex_env 1, CallSet ''a'' ''xy''), (ex_env 2, CallSetWithTTL ''a'' ''pqr'' 7), (ex_env 8, CallCleanup)] []) ''a''
     = Inr None"
proof -
  let ?calls = "[(ex_env 1, CallSet ''a'' ''xy''), (ex_env 2, CallSetWithTTL ''a'' ''pqr'' 7), (ex_env 8, CallCleanup)]"
  have writes: "kv_writes 10 ?calls [] = [Put 1 ''a'' ''xy'' None, Put 2 ''a'' ''pqr'' (Some 9), Sweep 8]"
    by (simp add: kv_set_defs)
  have "Get (ex_env t) (fold (kv_exec 10) ?calls []) ''a'' = Inr (if t \<le> 9 then Some ''pqr'' else None)" if "t \<ge> 8" for t
    using kv_last_write [of "[]" "ex_env t" 10 ?calls "''a''"] that unfolding writes by (simp add: alive_def read_at_def)
  from this [of 9] this [of 10] show ?thesis by simp
qed

subsection \<open>The size limit\<close>

lemma live_size_split:
  "distinct (map r_key rows) \<Longrightarrow> live_size t rows = live_size t (filter (\<lambda>r. r_key r \<noteq> key) rows) + old_size t rows key"
proof (induction rows)
  case (Cons r rows)
  have absent: "r_key r = key \<Longrightarrow> find (\<lambda>r. r_key r = key \<and> notExpiredFilter t r) rows = None"
    using Cons.prems by (auto simp: find_None_iff image_iff)
  have "r_key r = key \<Longrightarrow> filter (\<lambda>r. r_key r \<noteq> key) rows = rows"
    using Cons.prems by (auto simp: filter_id_conv image_iff)
  then show ?case using Cons absent by (auto simp: live_size_def old_size_def)
qed (simp add: live_size_def old_size_def)

lemma live_size_mono:
  assumes "t0 \<le> t" and "list_all (\<lambda>r. 0 \<le> r_size r) rows" shows "live_size t rows \<le> live_size t0 rows"
  using assms(2) alive_mono [OF assms(1)]
  by (induction rows) (auto simp: live_size_def notExpired_alive intro: add_increasing)

lemma others_upsert: "filter (\<lambda>r. r_key r \<noteq> key) (upsert now key value e rows) = filter (\<lambda>r. r_key r \<noteq> key) rows"
proof -
  have "filter (\<lambda>r. r_key r \<noteq> key) (map (\<lambda>r. if r_key r = key then f r else r) rows) = filter (\<lambda>r. r_key r \<noteq> key) rows"
    if "\<And>r. r_key (f r) = r_key r" for f :: "kv_row \<Rightarrow> kv_row"
    using that by (induction rows) auto
  then show ?thesis by (simp add: upsert_def)
qed

lemma old_size_upsert:
  "distinct (map r_key rows) \<Longrightarrow> old_size t (upsert now key value e rows) key = (if alive e t then int (length value) else 0)"
  using kv.inv_write [of rows "Put now key value e"]
  by (simp add: old_size_def find_live row_of_upsert notExpired_alive split: option.split)

lemma live_size_upsert:
  assumes "kv_wf rows" and "t0 \<le> t"
  shows "live_size t (upsert now key value e rows) \<le> live_size t0 rows + (int (length value) - old_size t0 rows key)"
proof -
  have d: "distinct (map r_key rows)" "distinct (map r_key (upsert now key value e rows))"
    using assms(1) kv.inv_write [of rows "Put now key value e"] by (simp_all add: kv_wf_def)
  have "live_size t (filter (\<lambda>r. r_key r \<noteq> key) rows) \<le> live_size t0 (filter (\<lambda>r. r_key r \<noteq> key) rows)"
    using assms by (intro live_size_mono) (auto simp: kv_wf_def list_all_iff)
  then show ?thesis
    using live_size_split [OF d(1), of t0 key] live_size_split [OF d(2), of t key]
    by (simp add: others_upsert old_size_upsert [OF d(1)] split: if_splits)
qed

lemma setValue_within:
  assumes "kv_wf rows" and "live_size now rows \<le> maxSize" and "setValue env maxSize rows key value ttl = Inr rows'"
    and "env_now env CheckingKey = now" and "env_now env CalculatingUsed = now" and "now \<le> t"
  shows "live_size t rows' \<le> maxSize"
proof -
  obtain e where rows': "rows' = upsert (env_now env StoringValue) key value e rows"
    using assms(3) by (auto simp: setValue_def setValue_store_def Let_def split: sum.splits if_splits)
  have "live_size now rows + (int (length value) - old_size now rows key) \<le> maxSize"
    using assms(2-5)
    by (auto simp: setValue_def setValue_check_def checkStorageLimit_def storageUsed_def Let_def split: sum.splits if_splits)
  then show ?thesis using live_size_upsert [OF assms(1,6)] rows' by (smt (verit))
qed

lemma setValue_wf:
  assumes "kv_wf rows" and "setValue env maxSize rows key value ttl = Inr rows'" shows "kv_wf rows'"
  using assms
  by (auto simp: setValue_def setValue_check_def setValue_store_def Let_def split: sum.splits if_splits intro!: kv_wf_upsert)

lemma kv_exec_cases:
  "kv_exec maxSize (env, c) rows = rows \<or> (\<exists>P. kv_exec maxSize (env, c) rows = filter P rows) \<or>
   (\<exists>k v ttl. setValue env maxSize rows k v ttl = Inr (kv_exec maxSize (env, c) rows))"
  by (cases c) (auto simp: Set_def SetWithTTL_def Delete_def DeleteByPrefix_def cleanupExpired_def Let_def split: sum.splits)

lemma live_size_filter: "list_all (\<lambda>r. 0 \<le> r_size r) rows \<Longrightarrow> live_size t (filter P rows) \<le> live_size t rows"
  by (induction rows) (auto simp: live_size_def intro: add_increasing)

lemma kv_exec_within:
  assumes "kv_wf rows" and "live_size now rows \<le> maxSize" and "\<forall>s. env_now env s = now"
  shows "kv_wf (kv_exec maxSize (env, c) rows) \<and> (\<forall>t \<ge> now. live_size t (kv_exec maxSize (env, c) rows) \<le> maxSize)"
proof -
  have sizes: "list_all (\<lambda>r. 0 \<le> r_size r) rows" using assms(1) by (auto simp: kv_wf_def list_all_iff)
  have later: "live_size t rows \<le> maxSize" if "now \<le> t" for t
    using live_size_mono [OF that sizes] assms(2) by simp
  from kv_exec_cases [of maxSize env c rows] consider "kv_exec maxSize (env, c) rows = rows"
    | P where "kv_exec maxSize (env, c) rows = filter P rows"
    | k v ttl where "setValue env maxSize rows k v ttl = Inr (kv_exec maxSize (env, c) rows)" by blast
  then show ?thesis
  proof cases
    case 1 then show ?thesis using assms(1) later by simp
  next
    case (2 P) then show ?thesis using kv_wf_filter [OF assms(1)] live_size_filter [OF sizes] later by (metis order.trans)
  next
    case 3 then show ?thesis using setValue_wf [OF assms(1) 3] setValue_within [OF assms(1,2) 3] assms(3) by simp
  qed
qed

text \<open>
  C11 (invariant): Whatever sequence of calls a plugin makes, one after the other and each within one second, keys stay
  unique and within their length, sizes are those of the values, and the values that have not expired never take more
  than the limit.
\<close>

theorem kv_quota:
  assumes "0 \<le> maxSize" and "\<forall>(env, c) \<in> set calls. \<forall>s. env_now env s = env_now env CheckingKey"
    and "sorted (map (\<lambda>(env, c). env_now env CheckingKey) calls)"
    and "\<forall>(env, c) \<in> set calls. env_now env CheckingKey \<le> t"
  shows "kv_wf (fold (kv_exec maxSize) calls []) \<and> live_size t (fold (kv_exec maxSize) calls []) \<le> maxSize"
proof -
  have "kv_wf (fold (kv_exec maxSize) calls []) \<and>
      (\<forall>t. (\<forall>(env, c) \<in> set calls. env_now env CheckingKey \<le> t) \<longrightarrow> live_size t (fold (kv_exec maxSize) calls []) \<le> maxSize)"
    using assms(2,3)
  proof (induction calls rule: rev_induct)
    case Nil
    show ?case using assms(1) by (simp add: kv_wf_def live_size_def)
  next
    case (snoc x calls)
    obtain env c where x: "x = (env, c)" by (cases x)
    let ?rows = "fold (kv_exec maxSize) calls []" and ?now = "env_now env CheckingKey"
    have "\<forall>(env, c) \<in> set calls. env_now env CheckingKey \<le> ?now"
      using snoc.prems(2) x by (auto simp: sorted_append)
    then have "kv_wf ?rows" "live_size ?now ?rows \<le> maxSize"
      using snoc.IH snoc.prems by (auto simp: sorted_append)
    moreover have "\<forall>s. env_now env s = ?now" using snoc.prems(1) x by simp
    ultimately show ?case using kv_exec_within [of ?rows ?now maxSize env c] x by simp
  qed
  then show ?thesis using assms(4) by blast
qed

theorem kv_quota_witness:
  "fold (kv_exec 4) [(ex_env 1, CallSetWithTTL ''a'' ''xyz'' 3), (ex_env 2, CallSet ''b'' ''pq''), (ex_env 5, CallSet ''b'' ''pqrs'')] [] \<noteq> [] \<and>
   live_size 5 (fold (kv_exec 4) [(ex_env 1, CallSetWithTTL ''a'' ''xyz'' 3), (ex_env 2, CallSet ''b'' ''pq''), (ex_env 5, CallSet ''b'' ''pqrs'')] []) \<le> 4"
  using kv_quota [of 4 "[(ex_env 1, CallSetWithTTL ''a'' ''xyz'' 3), (ex_env 2, CallSet ''b'' ''pq''), (ex_env 5, CallSet ''b'' ''pqrs'')]" 5]
  by (simp add: kv_set_defs)

text \<open>
  Two concurrent calls may both pass the check before either stores, and then the limit is exceeded; so may one call
  whose old value expires between the statement that reads its size and the one that sums up the sizes.
\<close>

lemma kv_quota_race:
  "setValue_check (ex_env 1) 4 [] ''a'' ''xyz'' = Inr () \<and> setValue_check (ex_env 1) 4 [] ''b'' ''pqr'' = Inr () \<and>
   (case setValue_store (ex_env 1) [] ''a'' ''xyz'' 0 of Inl _ \<Rightarrow> False | Inr rows \<Rightarrow>
    case setValue_store (ex_env 1) rows ''b'' ''pqr'' 0 of Inl _ \<Rightarrow> False | Inr rows' \<Rightarrow> live_size 1 rows' = 6)"
  by (simp add: kv_set_defs)

lemma kv_quota_second_passes:
  fixes rows defines "rows \<equiv> kv_exec 4 (ex_env 3, CallSet ''b'' ''pqrs'') (upsert 1 ''a'' ''xyz'' (Some 2) [])"
  shows "(case Set ((ex_env 3)\<lparr>env_now := (\<lambda>s. if s = CheckingKey then 2 else 3)\<rparr>) 4 rows ''a'' ''uvw'' of
     Inl _ \<Rightarrow> False | Inr rows' \<Rightarrow> live_size 3 rows' = 7 \<and> live_size 3 rows = 4)"
  by (simp add: rows_def kv_set_defs)

subsection \<open>Prefixes\<close>

text \<open>
  The \<open>LIKE\<close> operator with the escape character \<open>\\<close>: \<open>%\<close> matches any text, \<open>_\<close> any character, and other
  characters match without regard to the case of ASCII letters. After the escape character only \<open>%\<close>, \<open>_\<close> and the
  escape character itself are documented.
\<close>

abbreviation BS :: char where "BS \<equiv> CHR 0x5C"

fun like_esc :: "string \<Rightarrow> string \<Rightarrow> bool" where
  "like_esc [] s \<longleftrightarrow> s = []"
| "like_esc (p # ps) [] \<longleftrightarrow> p = CHR ''%'' \<and> like_esc ps []"
| "like_esc (p # ps) (c # cs) \<longleftrightarrow>
     (if p = CHR ''%'' then like_esc ps (c # cs) \<or> like_esc (p # ps) cs
      else if p = CHR ''_'' then like_esc ps cs
      else if p = BS then (case ps of [] \<Rightarrow> False | q # qs \<Rightarrow> to_lower_char q = to_lower_char c \<and> like_esc qs cs)
      else to_lower_char p = to_lower_char c \<and> like_esc ps cs)"

fun wf_pattern :: "string \<Rightarrow> bool" where
  "wf_pattern [] \<longleftrightarrow> True"
| "wf_pattern (p # ps) \<longleftrightarrow>
     (if p = BS then (case ps of [] \<Rightarrow> False | q # qs \<Rightarrow> (q = CHR ''%'' \<or> q = CHR ''_'' \<or> q = BS) \<and> wf_pattern qs)
      else wf_pattern ps)"

definition ascii :: "string \<Rightarrow> bool" where
  "ascii s = list_all (\<lambda>c. 0 < byte c \<and> byte c < 128) s"

text \<open>What SQLite documents: patterns on ASCII texts, and dates up to the end of the year 9999.\<close>

definition last_datetime :: int where "last_datetime = 253402300799"

definition sqlite_ok :: "kv_env \<Rightarrow> bool" where
  "sqlite_ok env \<longleftrightarrow>
     (\<forall>p s. wf_pattern p \<and> ascii p \<and> ascii s \<longrightarrow> env_like env p s = like_esc p s) \<and>
     (\<forall>now n. 0 \<le> now \<and> 0 < n \<longrightarrow> env_datetime env now n = (if now + n \<le> last_datetime then Some (now + n) else None))"

text \<open>A key starts with a prefix, up to the case of its letters.\<close>

definition prefix_fold :: "string \<Rightarrow> string \<Rightarrow> bool" where
  "prefix_fold p s \<longleftrightarrow> length p \<le> length s \<and> equal_fold p (take (length p) s)"

lemma prefix_fold_simps [simp]:
  "prefix_fold [] s" "\<not> prefix_fold (p # ps) []"
  "prefix_fold (p # ps) (c # cs) \<longleftrightarrow> to_lower_char p = to_lower_char c \<and> prefix_fold ps cs"
  by (auto simp: prefix_fold_def equal_fold_def go_lower_def)

definition escape_char :: "char \<Rightarrow> string" where
  "escape_char c = (if c = CHR ''%'' \<or> c = CHR ''_'' then [BS, c] else [c])"

lemma escape_prefix_concat: "escape_prefix p = concat (map escape_char p)"
proof -
  have one: "replace_all [([k], v)] s = concat (map (\<lambda>c. if c = k then v else [c]) s)" for k v s
    using replace_single [of v "[k]" s] by simp
  show ?thesis unfolding escape_prefix_def one by (induction p) (simp_all add: escape_char_def)
qed

lemma like_percent: "like_esc ''%'' s"
  by (induction s) simp_all

lemma like_escaped: "BS \<notin> set p \<Longrightarrow> like_esc (escape_prefix p @ ''%'') s \<longleftrightarrow> prefix_fold p s"
proof (induction p arbitrary: s)
  case Nil
  show ?case by (simp add: escape_prefix_concat like_percent)
next
  case (Cons c p)
  have "like_esc (escape_char c @ escape_prefix p @ ''%'') s \<longleftrightarrow> prefix_fold (c # p) s"
    using Cons by (cases s) (auto simp: escape_char_def)
  then show ?case by (simp add: escape_prefix_concat)
qed

lemma wf_escaped: "BS \<notin> set p \<Longrightarrow> wf_pattern (escape_prefix p @ ''%'')"
proof (induction p)
  case (Cons c p)
  then have "wf_pattern (escape_char c @ escape_prefix p @ ''%'')" by (auto simp: escape_char_def)
  then show ?case by (simp add: escape_prefix_concat)
qed (simp add: escape_prefix_concat)

lemma ascii_escaped: "ascii p \<Longrightarrow> ascii (escape_prefix p @ ''%'')"
  by (induction p) (auto simp: escape_prefix_concat escape_char_def ascii_def byte_def of_char_def)

lemma env_like_prefix:
  assumes "sqlite_ok env" and "BS \<notin> set p" and "ascii p" and "ascii s"
  shows "env_like env (escape_prefix p @ ''%'') s \<longleftrightarrow> prefix_fold p s"
  using assms wf_escaped [OF assms(2)] ascii_escaped [OF assms(3)] like_escaped [OF assms(2)] by (simp add: sqlite_ok_def)

text \<open>
  For a prefix without a backslash, \<open>List\<close> returns, in order, the keys that have not expired and
  start with it, and \<open>DeleteByPrefix\<close> removes the keys that start with it and returns their number; both ignore the case
  of letters.
\<close>

lemma prefix_operations:
  assumes "sqlite_ok env" and "BS \<notin> set p" and "ascii p" and "p \<noteq> []"
    and "list_all (\<lambda>r. ascii (r_key r)) rows" and "\<not> env_fail env ListingKeys" and "\<not> env_fail env DeletingKeys"
  shows "List env rows p = Inr (sort (filter (prefix_fold p) (map r_key (filter (notExpiredFilter (env_now env ListingKeys)) rows)))) \<and>
    DeleteByPrefix env rows p =
      Inr (length (filter (prefix_fold p) (map r_key rows)), filter (\<lambda>r. \<not> prefix_fold p (r_key r)) rows)"
proof
  let ?like = "env_like env (escape_prefix p @ ''%'')"
  have like: "?like (r_key r) = prefix_fold p (r_key r)" if "r \<in> set rows" for r
    using env_like_prefix [OF assms(1-3)] assms(5) that by (simp add: list_all_iff)
  have "filter (\<lambda>r. ?like (r_key r) \<and> notExpiredFilter (env_now env ListingKeys) r) rows
    = filter (\<lambda>r. prefix_fold p (r_key r)) (filter (notExpiredFilter (env_now env ListingKeys)) rows)"
    using like by (auto simp: conj_commute intro!: filter_cong)
  then show "List env rows p = Inr (sort (filter (prefix_fold p) (map r_key (filter (notExpiredFilter (env_now env ListingKeys)) rows))))"
    using assms(4,6) by (simp add: List_def Let_def filter_map comp_def)
  have "filter (\<lambda>r. ?like (r_key r)) rows = filter (\<lambda>r. prefix_fold p (r_key r)) rows"
    "filter (\<lambda>r. \<not> ?like (r_key r)) rows = filter (\<lambda>r. \<not> prefix_fold p (r_key r)) rows"
    using like by (auto intro!: filter_cong)
  then show "DeleteByPrefix env rows p =
      Inr (length (filter (prefix_fold p) (map r_key rows)), filter (\<lambda>r. \<not> prefix_fold p (r_key r)) rows)"
    using assms(4,7) by (simp add: DeleteByPrefix_def Let_def filter_map comp_def)
qed

definition lite_env :: "int \<Rightarrow> kv_env" where
  "lite_env t = \<lparr>env_now = (\<lambda>_. t), env_fail = (\<lambda>_. False), env_like = like_esc,
     env_datetime = (\<lambda>now n. if now + n \<le> last_datetime then Some (now + n) else None)\<rparr>"

lemma lite_env_ok: "sqlite_ok (lite_env t)"
  by (simp add: sqlite_ok_def lite_env_def)

definition ex_rows :: "string list \<Rightarrow> kv_row list" where
  "ex_rows keys = map (\<lambda>k. \<lparr>r_key = k, r_value = [], r_size = 0, r_created_at = 0, r_updated_at = 0, r_expires_at = None\<rparr>) keys"

lemma prefix_operations_witness:
  "List (lite_env 5) (ex_rows [''b_2'', ''B_1'', ''bx3'']) ''b_'' = Inr [''B_1'', ''b_2''] \<and>
   DeleteByPrefix (lite_env 5) (ex_rows [''b_2'', ''B_1'', ''bx3'']) ''b_'' = Inr (2, ex_rows [''bx3''])"
proof -
  let ?rows = "ex_rows [''b_2'', ''B_1'', ''bx3'']"
  have lower: "to_lower_char CHR ''b'' = CHR ''b''" "to_lower_char CHR ''B'' = CHR ''b''" "to_lower_char CHR ''_'' = CHR ''_''"
    "to_lower_char CHR ''x'' = CHR ''x''" by code_simp+
  have order: "sort [''b_2'', ''B_1''] = [''B_1'', ''b_2'']" by code_simp
  have "list_all (\<lambda>r. ascii (r_key r)) ?rows" "ascii ''b_''"
    by (simp_all add: ex_rows_def ascii_def byte_def of_char_def)
  then show ?thesis
    using prefix_operations [OF lite_env_ok, of "''b_''" ?rows 5] order
    by (simp add: lite_env_def ex_rows_def lower notExpiredFilter_def)
qed

text \<open>A prefix with a backslash reaches other keys: \<open>a\\<close> matches the key \<open>a%\<close> and not the key \<open>a\b\<close>.\<close>

lemma backslash_prefix:
  "DeleteByPrefix (lite_env 5) (ex_rows [''a%'', ''a'' @ [BS] @ ''b'']) (''a'' @ [BS]) = Inr (1, ex_rows [''a'' @ [BS] @ ''b''])"
proof -
  have "escape_prefix (''a'' @ [BS]) = ''a'' @ [BS]" by (simp add: escape_prefix_concat escape_char_def)
  moreover have "wf_pattern (''a'' @ [BS, CHR ''%''])" by simp
  ultimately show ?thesis by (simp add: DeleteByPrefix_def lite_env_def ex_rows_def)
qed

subsection \<open>Batches, expiry and migrations\<close>

lemma fold_rows_map:
  "distinct (map r_key rows) \<Longrightarrow> fold (\<lambda>r m. m(r_key r \<mapsto> r_value r)) rows m k =
     (case row_of k rows of None \<Rightarrow> m k | Some r \<Rightarrow> Some (r_value r))"
proof (induction rows arbitrary: m)
  case (Cons r rows)
  then have "r_key r = k \<Longrightarrow> row_of k rows = None" by (auto simp: row_of_None)
  then show ?case using Cons by (auto simp: row_of_def split: option.split)
qed (simp add: row_of_def)

lemma row_of_filter_live:
  assumes "distinct (map r_key rows)"
  shows "row_of k (filter P rows) = (case row_of k rows of None \<Rightarrow> None | Some r \<Rightarrow> if P r then Some r else None)"
proof -
  have "find Q (filter P rows) = find (\<lambda>r. Q r \<and> P r) rows" for Q by (induction rows) auto
  then show ?thesis using find_live [OF assms, of k P] by (simp add: row_of_def [of _ "filter P rows"])
qed

text \<open>
  \<open>GetMany\<close> returns, for each of the keys asked for that \<open>Get\<close> finds, what \<open>Get\<close> returns, whatever the number of keys.
\<close>

lemma GetMany_Get:
  assumes "distinct (map r_key rows)" and "\<forall>s. env_now env s = now" and "\<forall>s. \<not> env_fail env s"
  shows "\<exists>m. GetMany env rows keys = Inr m \<and> (\<forall>k. Inr (m k) = (if k \<in> set keys then Get env rows k else Inr None))"
proof -
  have get: "Get env rows k = Inr (case row_of k rows of None \<Rightarrow> None | Some r \<Rightarrow> if notExpiredFilter now r then Some (r_value r) else None)" for k
    using assms by (simp add: Get_def read_at_def [symmetric] read_at_row_of [OF assms(1)])
  have "\<exists>m'. get_many_from env rows i batches m = Inr m' \<and>
      (\<forall>k. m' k = (case row_of k rows of
         Some r \<Rightarrow> if k \<in> set (concat batches) \<and> notExpiredFilter now r then Some (r_value r) else m k | None \<Rightarrow> m k))" for i batches m
  proof (induction batches arbitrary: i m)
    case (Cons b batches)
    let ?hit = "\<lambda>r. r_key r \<in> set b \<and> notExpiredFilter now r"
    let ?m = "fold (\<lambda>r m. m(r_key r \<mapsto> r_value r)) (filter ?hit rows) m"
    have "distinct (map r_key (filter ?hit rows))" using assms(1) by (simp add: distinct_map_filter)
    then have "?m k = (case row_of k rows of Some r \<Rightarrow> if ?hit r then Some (r_value r) else m k | None \<Rightarrow> m k)" for k
      using assms(1) by (simp add: fold_rows_map row_of_filter_live split: option.split)
    moreover have "r_key r = k" if "row_of k rows = Some r" for k r
      using that by (auto simp: row_of_def dest: find_Some_elem)
    moreover obtain m' where "get_many_from env rows (i + 1) batches ?m = Inr m'"
      "\<forall>k. m' k = (case row_of k rows of
         Some r \<Rightarrow> if k \<in> set (concat batches) \<and> notExpiredFilter now r then Some (r_value r) else ?m k | None \<Rightarrow> ?m k)"
      using Cons.IH by blast
    ultimately show ?case using assms(2,3) by (auto split: option.split)
  qed (simp split: option.split)
  from this [of 0 "CollectChunks keys batchSize" Map.empty] show ?thesis
    using get by (auto simp: GetMany_def CollectChunks_chunk concat_chunk batchSize_def split: option.split)
qed

text \<open>A value stored with a time to live is read until that time has passed, and not after it.\<close>

lemma ttl_expires:
  assumes "sqlite_ok env" and "distinct (map r_key rows)" and "SetWithTTL env maxSize rows k v ttl = Inr rows'"
    and "0 \<le> env_now env StoringValue" and "env_now env StoringValue + ttl \<le> last_datetime"
    and "\<not> env_fail env' ReadingValue"
  shows "Get env' rows' k = Inr (if env_now env' ReadingValue \<le> env_now env StoringValue + ttl then Some v else None)"
proof -
  have ttl: "0 < ttl" using assms(3) by (auto simp: SetWithTTL_def split: if_splits)
  have "env_datetime env (env_now env StoringValue) ttl = Some (env_now env StoringValue + ttl)"
    using assms(1,4,5) ttl by (simp add: sqlite_ok_def)
  then have "rows' = kv_upd (Put (env_now env StoringValue) k v (Some (env_now env StoringValue + ttl))) rows"
    using assms(3) ttl
    by (auto simp: SetWithTTL_def setValue_def setValue_store_def Let_def split: sum.splits if_splits)
  then show ?thesis
    using kv.read_put [OF assms(2)] assms(6) by (simp add: Get_def read_at_def [symmetric] alive_def del: kv_upd.simps)
qed

lemma ttl_beyond_calendar_never_expires:
  assumes "sqlite_ok env" and "SetWithTTL env maxSize rows k v ttl = Inr rows'" and "distinct (map r_key rows)"
    and "0 \<le> env_now env StoringValue" and "last_datetime < env_now env StoringValue + ttl" and "\<not> env_fail env' ReadingValue"
  shows "Get env' rows' k = Inr (Some v)"
proof -
  have ttl: "0 < ttl" using assms(2) by (auto simp: SetWithTTL_def split: if_splits)
  have "env_datetime env (env_now env StoringValue) ttl = None" using assms(1,4,5) ttl by (simp add: sqlite_ok_def)
  then have "rows' = kv_upd (Put (env_now env StoringValue) k v None) rows"
    using assms(2) ttl
    by (auto simp: SetWithTTL_def setValue_def setValue_store_def Let_def split: sum.splits if_splits)
  then show ?thesis
    using kv.read_put [OF assms(3)] assms(6) by (simp add: Get_def read_at_def [symmetric] alive_def del: kv_upd.simps)
qed

lemma run_migrations_append:
  "run_migrations exec i (xs @ ys) db =
     (case run_migrations exec i xs db of Inl err \<Rightarrow> Inl err | Inr db' \<Rightarrow> run_migrations exec (i + length xs) ys db')"
  by (induction xs arbitrary: i db) (auto split: option.split sum.split)

text \<open>
  A migration that fails leaves the database as it was; one that succeeds brings it to the last version, from whatever
  version it started, by the statements that were missing; and doing it again changes nothing.
\<close>

lemma migrateDB_outcome:
  assumes "migrateDB exec faults ms d = (res, d')"
  shows "(res \<noteq> None \<longrightarrow> d' = d) \<and> (res = None \<longrightarrow> length ms \<le> m_version d' \<and> migrateDB exec (\<lambda>_. False) ms d' = (None, d') \<and>
    (m_version d < length ms \<longrightarrow> run_migrations exec (m_version d) (drop (m_version d) ms) (m_schema d) = Inr (m_schema d')))"
  using assms by (auto simp: migrateDB_def split: if_splits sum.splits)

lemma migrateDB_in_two_steps:
  assumes "m_version d \<le> length ms" and "\<And>c. \<not> faults c" and "migrateDB exec faults ms d = (None, d1)"
    and "migrateDB exec faults (ms @ extra) d1 = (None, d2)"
  shows "migrateDB exec faults (ms @ extra) d = (None, d2)"
  using assms
  by (cases "m_version d = length ms")
    (auto simp: migrateDB_def run_migrations_append split: if_splits sum.splits)

end
