(* ===== verification/Shell_Quote.thy ===== *)
theory Shell_Quote
  imports Str_Util
begin

text \<open>
  The splitting of a command line into words (\<open>utils/shellquote/shellquote.go\<close>) and the command line of the jukebox
  player that is built with it (\<open>core/playback/mpv/mpv.go\<close>). The loop over the input is a function on the bytes that
  are left. The search for the player's executable is an argument.
\<close>

section \<open>Definitions\<close>

datatype shell_error = ErrUnterminatedSingleQuote | ErrUnterminatedDoubleQuote | ErrUnterminatedEscape

datatype shell_state = stateUnquoted | stateSingleQuoted | stateDoubleQuoted

abbreviation SQ :: char where "SQ \<equiv> CHR 0x27"
abbreviation DQ :: char where "DQ \<equiv> CHR 0x22"
abbreviation ESC :: char where "ESC \<equiv> CHR 0x5C"
abbreviation NL :: char where "NL \<equiv> CHR 0x0A"

definition is_blank :: "char \<Rightarrow> bool" where
  "is_blank ch \<longleftrightarrow> ch = CHR '' '' \<or> ch = CHR 0x09 \<or> ch = NL"

fun split_words :: "string \<Rightarrow> shell_state \<Rightarrow> string list \<Rightarrow> string \<Rightarrow> bool \<Rightarrow> shell_error + string list" where
  "split_words [] stateSingleQuoted words word inWord = Inl ErrUnterminatedSingleQuote"
| "split_words [] stateDoubleQuoted words word inWord = Inl ErrUnterminatedDoubleQuote"
| "split_words [] stateUnquoted words word inWord = Inr (if inWord then words @ [word] else words)"
| "split_words (ch # rest) stateUnquoted words word inWord =
     (if ch = ESC then
        (case rest of
           [] \<Rightarrow> Inl ErrUnterminatedEscape
         | next # rest' \<Rightarrow>
             if next = NL then split_words rest' stateUnquoted words word inWord
             else split_words rest' stateUnquoted words (word @ [next]) True)
      else if ch = SQ then split_words rest stateSingleQuoted words word True
      else if ch = DQ then split_words rest stateDoubleQuoted words word True
      else if is_blank ch then
        (if inWord then split_words rest stateUnquoted (words @ [word]) [] False
         else split_words rest stateUnquoted words word inWord)
      else split_words rest stateUnquoted words (word @ [ch]) True)"
| "split_words (ch # rest) stateSingleQuoted words word inWord =
     (if ch = SQ then split_words rest stateUnquoted words word inWord
      else split_words rest stateSingleQuoted words (word @ [ch]) inWord)"
| "split_words (ch # rest) stateDoubleQuoted words word inWord =
     (if ch = DQ then split_words rest stateUnquoted words word inWord
      else if ch = ESC then
        (case rest of
           [] \<Rightarrow> Inl ErrUnterminatedEscape
         | next # rest' \<Rightarrow>
             if next = CHR ''$'' \<or> next = CHR 0x60 \<or> next = DQ \<or> next = NL \<or> next = ESC then
               (if next = NL then split_words rest' stateDoubleQuoted words word inWord
                else split_words rest' stateDoubleQuoted words (word @ [next]) inWord)
             else split_words rest stateDoubleQuoted words (word @ [ch]) inWord)
      else split_words rest stateDoubleQuoted words (word @ [ch]) inWord)"

definition Split :: "string \<Rightarrow> shell_error + string list" where
  "Split input = split_words input stateUnquoted [] [] False"

text \<open>\<open>strings.ReplaceAll\<close> for a pattern that is not empty.\<close>

definition replace :: "string \<Rightarrow> string \<Rightarrow> string \<Rightarrow> string" where
  "replace s old new = replace_all [(old, new)] s"

definition mpv_arg :: "string \<Rightarrow> string \<Rightarrow> string \<Rightarrow> string \<Rightarrow> string" where
  "mpv_arg deviceName filename socketName arg =
     replace (replace (replace arg ''%d'' deviceName) ''%f'' filename) ''%s'' socketName"

text \<open>The command of the player; \<open>cmdPath\<close> is the path found for its executable, if any.\<close>

definition createMPVCommand :: "string \<Rightarrow> string option \<Rightarrow> string \<Rightarrow> string \<Rightarrow> string \<Rightarrow> string list" where
  "createMPVCommand template cmdPath deviceName filename socketName =
     (case Split template of
        Inl _ \<Rightarrow> []
      | Inr templateArgs \<Rightarrow>
          (case map (mpv_arg deviceName filename socketName) templateArgs of
             [] \<Rightarrow> []
           | a # as \<Rightarrow>
               (case cmdPath of
                  None \<Rightarrow> a # as
                | Some p \<Rightarrow> (if a = ''mpv'' \<or> a = ''mpv.exe'' then p else a) # as)))"

section \<open>Properties\<close>

text \<open>A word in single quotes, in which a single quote is closed, escaped and opened again.\<close>

definition quote_char :: "char \<Rightarrow> string" where
  "quote_char c = (if c = SQ then [SQ, ESC, SQ, SQ] else [c])"

definition quote :: "string \<Rightarrow> string" where
  "quote w = SQ # concat (map quote_char w) @ [SQ]"

lemma split_quoted_body:
  "split_words (concat (map quote_char w) @ SQ # rest) stateSingleQuoted words word True
     = split_words rest stateUnquoted words (word @ w) True"
  by (induction w arbitrary: word) (simp_all add: quote_char_def)

lemma split_quote: "split_words (quote w @ rest) stateUnquoted words [] inWord = split_words rest stateUnquoted words w True"
  by (simp add: quote_def split_quoted_body)

lemma split_quoted_words:
  "split_words (join '' '' (map quote ws)) stateUnquoted words [] False = Inr (words @ ws)"
proof (induction ws arbitrary: words rule: induct_list012)
  case (2 w)
  show ?case using split_quote [of w "[]"] by simp
next
  case (3 w w' ws)
  have "join '' '' (map quote (w # w' # ws)) = quote w @ CHR '' '' # join '' '' (map quote (w' # ws))" by simp
  then show ?case using 3 split_quote [of w] by (simp add: is_blank_def)
qed simp

text \<open>
  Every list of words, whatever bytes they have, is read back by \<open>Split\<close> from its words in single
  quotes joined by blanks.
\<close>

lemma Split_quote: "Split (join '' '' (map quote ws)) = Inr ws"
  by (simp add: Split_def split_quoted_words)

text \<open>Without quotes and backslashes the words are those between blanks.\<close>

lemma Split_plain:
  assumes "set s \<inter> {SQ, DQ, ESC} = {}" and "\<forall>c \<in> set s. is_space c \<longleftrightarrow> is_blank c"
  shows "Split s = Inr (go_fields s)"
proof -
  have "split_words s stateUnquoted words word (word \<noteq> []) = Inr (words @ fields_from word s)" for words word
    using assms
  proof (induction s arbitrary: words word)
    case (Cons c s)
    have IH: "split_words s stateUnquoted words word (word \<noteq> []) = Inr (words @ fields_from word s)" for words word
      using Cons.IH Cons.prems by simp
    have c: "c \<noteq> SQ" "c \<noteq> DQ" "c \<noteq> ESC" "is_space c \<longleftrightarrow> is_blank c" using Cons.prems by auto
    show ?case using IH [of words "[]"] IH [of "words @ [word]" "[]"] IH [of words "word @ [c]"] c by simp
  qed simp
  from this [of "[]" "[]"] show ?thesis by (simp add: Split_def go_fields_def)
qed

subsection \<open>The command of the player\<close>

lemma replace_percent [simp]:
  "replace [] [CHR ''%'', x] v = []"
  "replace [c] [CHR ''%'', x] v = [c]"
  "replace (c # c' # r) [CHR ''%'', x] v =
     (if c = CHR ''%'' \<and> c' = x then v @ replace r [CHR ''%'', x] v else c # replace (c' # r) [CHR ''%'', x] v)"
  by (simp_all add: replace_def)

lemma replace_other: "c \<noteq> CHR ''%'' \<Longrightarrow> replace (c # r) [CHR ''%'', x] v = c # replace r [CHR ''%'', x] v"
  by (cases r) simp_all

lemma replace_plain_append:
  "CHR ''%'' \<notin> set w \<Longrightarrow> replace (w @ r) [CHR ''%'', x] v = w @ replace r [CHR ''%'', x] v"
  by (induction w) (auto simp: replace_other)

text \<open>No percent sign is followed by another.\<close>

fun no_double_percent :: "string \<Rightarrow> bool" where
  "no_double_percent (c # c' # r) \<longleftrightarrow> \<not> (c = CHR ''%'' \<and> c' = CHR ''%'') \<and> no_double_percent (c' # r)"
| "no_double_percent _ \<longleftrightarrow> True"

text \<open>The three placeholders replaced in one pass, so that what is inserted is not searched again.\<close>

definition mpv_subst :: "string \<Rightarrow> string \<Rightarrow> string \<Rightarrow> string \<Rightarrow> string" where
  "mpv_subst deviceName filename socketName arg =
     replace_all [(''%d'', deviceName), (''%f'', filename), (''%s'', socketName)] arg"

lemma mpv_subst_simps [simp]:
  "mpv_subst d f s [] = []" "mpv_subst d f s [c] = [c]"
  "mpv_subst d f s (c # c' # r) =
     (if c = CHR ''%'' \<and> c' = CHR ''d'' then d @ mpv_subst d f s r
      else if c = CHR ''%'' \<and> c' = CHR ''f'' then f @ mpv_subst d f s r
      else if c = CHR ''%'' \<and> c' = CHR ''s'' then s @ mpv_subst d f s r
      else c # mpv_subst d f s (c' # r))"
  by (simp_all add: mpv_subst_def)

lemma mpv_arg_subst:
  assumes "CHR ''%'' \<notin> set d" and "CHR ''%'' \<notin> set f" and "no_double_percent arg"
  shows "mpv_arg d f s arg = mpv_subst d f s arg"
  using assms(3)
proof (induction arg rule: induct_list012)
  case (3 c c' r)
  have IH: "mpv_arg d f s r = mpv_subst d f s r" "mpv_arg d f s (c' # r) = mpv_subst d f s (c' # r)"
    using 3 by (cases r; simp)+
  show ?case
  proof (cases "c = CHR ''%''")
    case True
    then have c': "c' \<noteq> CHR ''%''" using 3(3) by simp
    show ?thesis
      using IH True c' assms(1,2)
      by (auto simp: mpv_arg_def replace_other replace_plain_append)
  next
    case False
    then show ?thesis using IH(2) by (simp add: mpv_arg_def replace_other)
  qed
qed (simp_all add: mpv_arg_def)

text \<open>
  The command of the player has one argument for every word of the template, in which the placeholders
  are replaced: a file name with blanks or quotes stays within its argument. This holds for device and file names
  without a percent sign.
\<close>

lemma createMPVCommand_args:
  assumes "CHR ''%'' \<notin> set deviceName" and "CHR ''%'' \<notin> set filename" and "list_all no_double_percent ws" and "ws \<noteq> []"
  shows "createMPVCommand (join '' '' (map quote ws)) cmdPath deviceName filename socketName =
    (let args = map (mpv_subst deviceName filename socketName) ws
     in (if hd args \<in> {''mpv'', ''mpv.exe''} \<and> cmdPath \<noteq> None then the cmdPath else hd args) # tl args)"
proof -
  have split: "Split (join '' '' (map quote ws)) = Inr ws" by (simp add: Split_def split_quoted_words)
  have args: "map (mpv_arg deviceName filename socketName) ws = map (mpv_subst deviceName filename socketName) ws"
    using mpv_arg_subst assms(1-3) by (simp add: list_all_iff)
  obtain w ws' where "ws = w # ws'" using assms(4) by (cases ws) auto
  then show ?thesis
    unfolding createMPVCommand_def split sum.case args by (auto simp: Let_def split: option.split)
qed

lemma createMPVCommand_args_witness:
  "createMPVCommand (join '' '' (map quote [''mpv'', ''--dev=%d'', ''%f''])) (Some ''/bin/mpv'') ''auto'' ''/a b.mp3'' ''sock''
     = [''/bin/mpv'', ''--dev=auto'', ''/a b.mp3'']"
  using createMPVCommand_args [of "''auto''" "''/a b.mp3''" "[''mpv'', ''--dev=%d'', ''%f'']" "Some ''/bin/mpv''" "''sock''"]
  by simp

text \<open>A file name with \<open>%s\<close> in it has the name of the socket put in its place.\<close>

lemma mpv_file_name_rescanned:
  "createMPVCommand ''mpv %f'' None ''auto'' ''/100%sure.mp3'' ''/tmp/x'' = [''mpv'', ''/100/tmp/xure.mp3'']"
  by (simp add: createMPVCommand_def Split_def is_blank_def mpv_arg_def replace_def)

end
