(* ===== verification/Json_Comment_Strip.thy ===== *)
theory Json_Comment_Strip
  imports Prelude
begin

text \<open>
  The reader that strips comments from JSON (\<open>utils/jsoncommentstrip\<close>), used for the files of smart playlists.
  \<open>Read\<close> fills a buffer of a given length from the bytes that are left and the state it was left in; its loop is a
  function on these bytes. The end of the input stands for the error that ends reading.
\<close>

section \<open>Definitions\<close>

datatype strip_state =
  stateNormal | stateInString | stateInStringEscape
  | stateMaybeComment
  | stateLineComment
  | stateBlockComment
  | stateMaybeBlockEnd

abbreviation quotation :: char where "quotation \<equiv> CHR 0x22"
abbreviation backslash :: char where "backslash \<equiv> CHR 0x5C"

text \<open>The bytes written, the state, the bytes left, and whether the end was reached. A byte that is put back stays in the input.\<close>

fun read_loop :: "nat \<Rightarrow> strip_state \<Rightarrow> string \<Rightarrow> string \<Rightarrow> string \<times> strip_state \<times> string \<times> bool" where
  "read_loop len st [] p =
     (if length p \<ge> len then (p, st, [], False)
      else if st = stateMaybeComment then (p @ ''/'', stateNormal, [], True) else (p, st, [], True))"
| "read_loop len st (b # rest) p =
     (if length p \<ge> len then (p, st, b # rest, False)
      else case st of
        stateNormal \<Rightarrow>
          if b = quotation then read_loop len stateInString rest (p @ [b])
          else if b = CHR ''/'' then read_loop len stateMaybeComment rest p
          else read_loop len stateNormal rest (p @ [b])
      | stateInString \<Rightarrow>
          read_loop len (if b = backslash then stateInStringEscape else if b = quotation then stateNormal else stateInString)
            rest (p @ [b])
      | stateInStringEscape \<Rightarrow> read_loop len stateInString rest (p @ [b])
      | stateMaybeComment \<Rightarrow>
          if b = CHR ''/'' then read_loop len stateLineComment rest p
          else if b = CHR ''*'' then read_loop len stateBlockComment rest p
          else if length (p @ ''/'') < len then read_loop len stateNormal rest (p @ ''/'' @ [b])
          else (p @ ''/'', stateNormal, b # rest, False)
      | stateLineComment \<Rightarrow>
          if b = CHR 0x0A \<or> b = CHR 0x0D then read_loop len stateNormal rest (p @ [b])
          else read_loop len stateLineComment rest p
      | stateBlockComment \<Rightarrow>
          if b = CHR ''*'' then read_loop len stateMaybeBlockEnd rest p else read_loop len stateBlockComment rest p
      | stateMaybeBlockEnd \<Rightarrow>
          if b = CHR ''/'' then read_loop len stateNormal rest p
          else if b = CHR ''*'' then read_loop len stateMaybeBlockEnd rest p
          else read_loop len stateBlockComment rest p)"

definition Read :: "nat \<Rightarrow> strip_state \<Rightarrow> string \<Rightarrow> string \<times> strip_state \<times> string \<times> bool" where
  "Read len st input = read_loop len st input []"

text \<open>Reading to the end with buffers of the given lengths; \<open>None\<close> if they are too few.\<close>

fun read_all :: "nat list \<Rightarrow> strip_state \<Rightarrow> string \<Rightarrow> string option" where
  "read_all [] st input = None"
| "read_all (len # lens) st input =
     (case Read len st input of
        (p, st', rest, eof) \<Rightarrow> if eof then Some p else map_option ((@) p) (read_all lens st' rest))"

section \<open>Properties\<close>

text \<open>The state after a byte, and the bytes it lets through.\<close>

fun next_state :: "strip_state \<Rightarrow> char \<Rightarrow> strip_state" where
  "next_state stateNormal b =
     (if b = CHR ''/'' then stateMaybeComment else if b = quotation then stateInString else stateNormal)"
| "next_state stateInString b =
     (if b = backslash then stateInStringEscape else if b = quotation then stateNormal else stateInString)"
| "next_state stateInStringEscape b = stateInString"
| "next_state stateMaybeComment b =
     (if b = CHR ''/'' then stateLineComment else if b = CHR ''*'' then stateBlockComment else stateNormal)"
| "next_state stateLineComment b = (if b = CHR 0x0A \<or> b = CHR 0x0D then stateNormal else stateLineComment)"
| "next_state stateBlockComment b = (if b = CHR ''*'' then stateMaybeBlockEnd else stateBlockComment)"
| "next_state stateMaybeBlockEnd b =
     (if b = CHR ''/'' then stateNormal else if b = CHR ''*'' then stateMaybeBlockEnd else stateBlockComment)"

fun emitted :: "strip_state \<Rightarrow> char \<Rightarrow> string" where
  "emitted stateNormal b = (if b = CHR ''/'' then [] else [b])"
| "emitted stateInString b = [b]"
| "emitted stateInStringEscape b = [b]"
| "emitted stateMaybeComment b = (if b = CHR ''/'' \<or> b = CHR ''*'' then [] else [CHR ''/'', b])"
| "emitted stateLineComment b = (if b = CHR 0x0A \<or> b = CHR 0x0D then [b] else [])"
| "emitted _ b = []"

text \<open>The input without its comments.\<close>

fun strip :: "strip_state \<Rightarrow> string \<Rightarrow> string" where
  "strip st [] = (if st = stateMaybeComment then ''/'' else [])"
| "strip st (b # r) = emitted st b @ strip (next_state st b) r"

text \<open>A slash outside strings and comments with a quotation mark right after it; JSON has no such text.\<close>

fun slash_quote :: "strip_state \<Rightarrow> string \<Rightarrow> bool" where
  "slash_quote st [] \<longleftrightarrow> False"
| "slash_quote st (b # r) \<longleftrightarrow> st = stateMaybeComment \<and> b = quotation \<or> slash_quote (next_state st b) r"

definition bytes_due :: "strip_state \<Rightarrow> string \<Rightarrow> nat" where
  "bytes_due st input = 2 * length input + (if st = stateMaybeComment then 1 else 0)"

text \<open>One turn of the loop: a byte is consumed, or the buffer is full and it is put back.\<close>

definition put_back :: "nat \<Rightarrow> strip_state \<Rightarrow> char \<Rightarrow> string \<Rightarrow> bool" where
  "put_back len st b p \<longleftrightarrow> st = stateMaybeComment \<and> b \<noteq> CHR ''/'' \<and> b \<noteq> CHR ''*'' \<and> length p + 1 \<ge> len"

lemma read_loop_turn:
  "length p < len \<Longrightarrow> read_loop len st (b # input) p =
     (if put_back len st b p then (p @ ''/'', stateNormal, b # input, False)
      else read_loop len (next_state st b) input (p @ emitted st b))"
  by (cases st) (auto simp: put_back_def)

lemma length_emitted: "length p < len \<Longrightarrow> \<not> put_back len st b p \<Longrightarrow> length (p @ emitted st b) \<le> len"
  by (cases st) (auto simp: put_back_def)

lemma put_back_strip:
  "put_back len st b p \<Longrightarrow> \<not> slash_quote st (b # r) \<Longrightarrow>
     strip st (b # r) = CHR ''/'' # strip stateNormal (b # r) \<and> \<not> slash_quote stateNormal (b # r)"
  by (auto simp: put_back_def)

lemma read_loop_strip:
  assumes "\<not> slash_quote st input" and "read_loop len st input p = (p', st', rest, eof)" and "length p \<le> len"
  shows "p @ strip st input = p' @ (if eof then [] else strip st' rest) \<and> \<not> slash_quote st' rest \<and>
    bytes_due st' rest \<le> bytes_due st input \<and> (length p < len \<longrightarrow> eof \<or> bytes_due st' rest < bytes_due st input)"
  using assms
proof (induction input arbitrary: st p)
  case Nil
  then show ?case by (cases st) (auto simp: bytes_due_def split: if_splits)
next
  case (Cons b input)
  show ?case
  proof (cases "length p < len")
    case False
    then show ?thesis using Cons.prems by auto
  next
    case True
    show ?thesis
    proof (cases "put_back len st b p")
      case full: True
      then have "st = stateMaybeComment" by (simp add: put_back_def)
      moreover have "p' = p @ ''/'' \<and> st' = stateNormal \<and> rest = b # input \<and> \<not> eof"
        using Cons.prems(2) True full by (simp only: read_loop_turn if_True prod.inject) simp
      ultimately show ?thesis using put_back_strip [OF full Cons.prems(1)] by (simp add: bytes_due_def)
    next
      case False
      have "bytes_due (next_state st b) input < bytes_due st (b # input)" by (simp add: bytes_due_def)
      then show ?thesis
        using Cons.IH [of "next_state st b" "p @ emitted st b"] Cons.prems length_emitted [OF True False] True False
        by (auto simp: read_loop_turn simp del: read_loop.simps)
    qed
  qed
qed

text \<open>
  Whatever the sizes of the buffers it is read with, the reader delivers the input without its
  comments, where strings are kept as they are; a few more buffers than bytes are enough to reach the end. The input has
  no slash outside strings and comments with a quotation mark right after it.
\<close>

lemma read_all_strip:
  assumes "\<not> slash_quote st input" and "\<forall>len \<in> set lens. 0 < len" and "2 * length input + 1 < length lens"
  shows "read_all lens st input = Some (strip st input)"
proof -
  have "bytes_due st input < length lens" using assms(3) by (simp add: bytes_due_def)
  with assms(1,2) show ?thesis
  proof (induction lens arbitrary: st input)
    case (Cons len lens)
    obtain p st' rest eof where r: "Read len st input = (p, st', rest, eof)" by (cases "Read len st input")
    have step: "strip st input = p @ (if eof then [] else strip st' rest)" "\<not> slash_quote st' rest"
      "eof \<or> bytes_due st' rest < bytes_due st input"
      using read_loop_strip [of st input len "[]"] r Cons.prems by (auto simp: Read_def)
    then show ?case using r Cons by (cases eof) auto
  qed simp
qed

lemma read_all_strip_witness:
  "read_all [1, 2, 1, 1, 3, 1, 1, 1, 9, 1, 1, 1, 1, 1, 1, 1, 1, 1, 1, 1, 1, 1, 1, 1, 1, 1, 1, 1, 1, 1] stateNormal
     (''{/*x*/'' @ [quotation] @ ''//'' @ [quotation] @ ''}'') = Some (''{'' @ [quotation] @ ''//'' @ [quotation] @ ''}'')"
  using read_all_strip [of stateNormal "''{/*x*/'' @ [quotation] @ ''//'' @ [quotation] @ ''}''"
      "[1, 2, 1, 1, 3, 1, 1, 1, 9, 1, 1, 1, 1, 1, 1, 1, 1, 1, 1, 1, 1, 1, 1, 1, 1, 1, 1, 1, 1, 1]"]
  by simp

text \<open>Without the condition the output depends on the sizes of the buffers.\<close>

lemma slash_quote_depends_on_buffer:
  "read_all [100, 100] stateNormal (''/'' @ [quotation] @ ''//'' @ [quotation]) = Some (''/'' @ [quotation]) \<and>
   read_all [1, 100] stateNormal (''/'' @ [quotation] @ ''//'' @ [quotation]) = Some (''/'' @ [quotation] @ ''//'' @ [quotation])"
  by (simp add: Read_def)

end
