(* ===== verification/FFmpeg_Command.thy ===== *)
theory FFmpeg_Command
  imports Stream_Decider Go_Float Shell_Quote "HOL-Library.Word"
begin

text \<open>
  The command lines for ffmpeg and the handling of what it returns (\<open>core/ffmpeg/ffmpeg.go\<close> and
  \<open>flac_streaminfo.go\<close>). The paths of the executables are arguments, since they are searched in the file system, and
  so is the decoded JSON of ffprobe. Numbers in the header of a FLAC stream are words of their width.
\<close>

unbundle bit_operations_syntax

section \<open>Definitions\<close>

subsection \<open>Arguments\<close>

record TranscodeOptions =
  to_Command :: string
  to_Format :: string
  to_FilePath :: string
  to_BitRate :: int
  to_SampleRate :: int
  to_Channels :: int
  to_BitDepth :: int
  to_Offset :: int
  to_Duration :: rat

definition formatCodecMap :: "string \<rightharpoonup> string" where
  "formatCodecMap = map_of [(''mp3'', ''libmp3lame''), (''opus'', ''libopus''), (''aac'', ''aac''), (''flac'', ''flac'')]"

definition formatOutputMap :: "string \<rightharpoonup> string" where
  "formatOutputMap = map_of [(''mp3'', ''mp3''), (''opus'', ''opus''), (''aac'', ''adts''), (''flac'', ''flac'')]"

definition defaultCommands :: "string \<rightharpoonup> string" where
  "defaultCommands = map_of (rev (map (\<lambda>t. (dt_TargetFormat t, dt_Command t)) DefaultTranscodings))"

definition isDefaultCommand :: "string \<Rightarrow> string \<Rightarrow> bool" where
  "isDefaultCommand format command \<longleftrightarrow> (case defaultCommands format of None \<Rightarrow> [] | Some c \<Rightarrow> c) = command"

definition injectBeforeOutput :: "string list \<Rightarrow> string \<Rightarrow> string \<Rightarrow> string list" where
  "injectBeforeOutput args flag value =
     (if length args > 0 \<and> last args = ''-'' then butlast args @ [flag, value, ''-''] else args @ [flag, value])"

definition isLosslessOutputFormat :: "string \<Rightarrow> bool" where
  "isLosslessOutputFormat format \<longleftrightarrow> go_lower format \<in> {''flac'', ''alac'', ''wav'', ''aiff''}"

definition bitDepthToSampleFmt :: "int \<Rightarrow> string" where
  "bitDepthToSampleFmt bitDepth = (if bitDepth = 16 then ''s16'' else if bitDepth = 32 then ''s32'' else ''s32'')"

definition injectDynamicAudioFlags :: "string list \<Rightarrow> TranscodeOptions \<Rightarrow> string list" where
  "injectDynamicAudioFlags args opts =
     (let args1 = (if to_SampleRate opts > 0 then injectBeforeOutput args ''-ar'' (itoa (to_SampleRate opts)) else args);
          args2 = (if to_Channels opts > 0 then injectBeforeOutput args1 ''-ac'' (itoa (to_Channels opts)) else args1)
      in if to_BitDepth opts \<ge> 16 \<and> isLosslessOutputFormat (to_Format opts)
         then injectBeforeOutput args2 ''-sample_fmt'' (bitDepthToSampleFmt (to_BitDepth opts)) else args2)"

definition buildDynamicArgs :: "string \<Rightarrow> TranscodeOptions \<Rightarrow> string list" where
  "buildDynamicArgs cmdPath opts =
     (let args = [cmdPath] @ (if to_Offset opts > 0 then [''-ss'', itoa (to_Offset opts)] else [])
                 @ [''-i'', to_FilePath opts] @ [''-map'', ''0:a:0'']
                 @ [''-map_metadata'', ''0'', ''-map_metadata'', ''0:s:a:0'']
                 @ (case formatCodecMap (to_Format opts) of None \<Rightarrow> [] | Some codec \<Rightarrow> [''-c:a'', codec])
                 @ (if to_BitRate opts > 0 then [''-b:a'', itoa (to_BitRate opts) @ ''k''] else [])
      in injectDynamicAudioFlags args opts @ [''-v'', ''0'']
         @ (case formatOutputMap (to_Format opts) of None \<Rightarrow> [] | Some f \<Rightarrow> [''-f'', f]) @ [''-''])"

text \<open>\<open>strings.Contains\<close>.\<close>

fun contains :: "string \<Rightarrow> string \<Rightarrow> bool" where
  "contains [] sub \<longleftrightarrow> sub = []"
| "contains (c # cs) sub \<longleftrightarrow> has_prefix (c # cs) sub \<or> contains cs sub"

definition fixCmd :: "string \<Rightarrow> string \<Rightarrow> string \<Rightarrow> string list" where
  "fixCmd cmdPath probePath cmd =
     map (\<lambda>s. if s = ''ffprobe'' \<or> s = ''ffprobe.exe'' then probePath
              else if s = ''ffmpeg'' \<or> s = ''ffmpeg.exe'' then cmdPath else s) (go_fields cmd)"

text \<open>Where the seek is inserted: before the last \<open>-i\<close>, or at the end.\<close>

definition seek_position :: "string list \<Rightarrow> nat" where
  "seek_position args =
     (case find_index (\<lambda>a. a = ''-i'') (rev args) of None \<Rightarrow> length args | Some k \<Rightarrow> length args - 1 - k)"

fun ffmpeg_args :: "string \<Rightarrow> string \<Rightarrow> int \<Rightarrow> int \<Rightarrow> string list \<Rightarrow> string list \<Rightarrow> string list" where
  "ffmpeg_args cmd path maxBitRate offset [] args = args"
| "ffmpeg_args cmd path maxBitRate offset (s # rest) args =
     (if contains s ''%s'' then
        (let args' = (if offset > 0 \<and> \<not> contains cmd ''%t''
                      then take (seek_position args) args @ [''-ss'', itoa offset] @ drop (seek_position args) args
                      else args)
         in ffmpeg_args cmd path maxBitRate offset rest (args' @ [replace s ''%s'' path]))
      else ffmpeg_args cmd path maxBitRate offset rest
             (args @ [replace (replace s ''%t'' (itoa offset)) ''%b'' (itoa maxBitRate)]))"

definition createFFmpegCommand :: "string \<Rightarrow> string \<Rightarrow> string \<Rightarrow> string \<Rightarrow> int \<Rightarrow> int \<Rightarrow> string list" where
  "createFFmpegCommand cmdPath probePath cmd path maxBitRate offset =
     ffmpeg_args cmd path maxBitRate offset (fixCmd cmdPath probePath cmd) []"

definition buildTemplateArgs :: "string \<Rightarrow> string \<Rightarrow> TranscodeOptions \<Rightarrow> string list" where
  "buildTemplateArgs cmdPath probePath opts =
     injectDynamicAudioFlags
       (createFFmpegCommand cmdPath probePath (to_Command opts) (to_FilePath opts) (to_BitRate opts) (to_Offset opts)) opts"

text \<open>The arguments a transcode runs with, or the error of the search for ffmpeg or of the file.\<close>

datatype ffmpeg_error = CommandNotFound string | FileError string

definition Transcode :: "string + string \<Rightarrow> string \<Rightarrow> string option \<Rightarrow> TranscodeOptions \<Rightarrow> ffmpeg_error + string list" where
  "Transcode ffmpegCmd probePath fileExists opts =
     (case ffmpegCmd of
        Inl err \<Rightarrow> Inl (CommandNotFound err)
      | Inr cmdPath \<Rightarrow>
          (case fileExists of
             Some err \<Rightarrow> Inl (FileError err)
           | None \<Rightarrow> Inr (if isDefaultCommand (to_Format opts) (to_Command opts) then buildDynamicArgs cmdPath opts
                          else buildTemplateArgs cmdPath probePath opts)))"

subsection \<open>Probing\<close>

record probeStream =
  ps_CodecName :: string
  ps_CodecType :: string
  ps_Profile :: string
  ps_SampleRate :: string
  ps_BitRate :: string
  ps_Channels :: int
  ps_BitsPerSample :: int
  ps_BitsPerRawSample :: string

text \<open>The value \<open>strconv.Atoi\<close> returns beside its error: 0 for a text that is no number, the nearest bound out of range.\<close>

definition atoi_value :: "string \<Rightarrow> int" where
  "atoi_value s =
     (case atoi s of
        Some n \<Rightarrow> n
      | None \<Rightarrow>
          (let neg = (s \<noteq> [] \<and> hd s = CHR ''-'');
               body = (if s \<noteq> [] \<and> (hd s = CHR ''-'' \<or> hd s = CHR ''+'') then tl s else s)
           in if body = [] \<or> digits_value 0 body = None then 0
              else if neg then - max_int64 - 1 else max_int64))"

definition probe_result :: "string \<Rightarrow> probeStream \<Rightarrow> AudioProbeResult" where
  "probe_result formatBitRate s =
     (let bitDepth = (if ps_BitsPerSample s = 0 \<and> ps_BitsPerRawSample s \<noteq> [] then atoi_value (ps_BitsPerRawSample s)
                      else ps_BitsPerSample s);
          br = (if ps_BitRate s \<noteq> [] then go_quot (atoi_value (ps_BitRate s)) 1000 else 0)
      in \<lparr>pr_Codec = ps_CodecName s,
          pr_Profile = (if ps_Profile s \<noteq> [] \<and> \<not> equal_fold (ps_Profile s) ''unknown'' then ps_Profile s else []),
          pr_BitRate = (if br = 0 \<and> formatBitRate \<noteq> [] then go_quot (atoi_value formatBitRate) 1000 else br),
          pr_SampleRate = (if ps_SampleRate s \<noteq> [] then atoi_value (ps_SampleRate s) else 0),
          pr_BitDepth = bitDepth,
          pr_Channels = ps_Channels s\<rparr>)"

fun parseProbeOutput :: "string \<Rightarrow> probeStream list \<Rightarrow> AudioProbeResult option" where
  "parseProbeOutput formatBitRate [] = None"
| "parseProbeOutput formatBitRate (s # rest) =
     (if ps_CodecType s \<noteq> ''audio'' then parseProbeOutput formatBitRate rest else Some (probe_result formatBitRate s))"

subsection \<open>Output\<close>

text \<open>The writer that keeps the first bytes of the error output, and says that all were written.\<close>

definition limited_write :: "nat \<Rightarrow> string \<Rightarrow> string \<Rightarrow> nat \<times> string" where
  "limited_write limit buf p =
     (let remaining = int limit - int (length buf) in
      if remaining \<le> 0 then (length p, buf)
      else (length p, buf @ (if int (length p) > remaining then take (nat remaining) p else p)))"

definition parseEncodersOutput :: "string \<Rightarrow> string \<Rightarrow> bool" where
  "parseEncodersOutput out name \<longleftrightarrow>
     list_ex (\<lambda>line. let fs = go_fields line in length fs \<ge> 2 \<and> fs ! 1 = name) (split_on NL out)"

datatype encoderProbeState = encoderProbeUnknown | encoderProbeAvailable | encoderProbeUnavailable

text \<open>The cached answer; \<open>out\<close> is the list of encoders, or \<open>None\<close> where it could not be read, which is tried again.\<close>

fun encoderProbe_has :: "encoderProbeState \<Rightarrow> string option \<Rightarrow> string \<Rightarrow> bool \<times> encoderProbeState" where
  "encoderProbe_has encoderProbeAvailable out encoder = (True, encoderProbeAvailable)"
| "encoderProbe_has encoderProbeUnavailable out encoder = (False, encoderProbeUnavailable)"
| "encoderProbe_has encoderProbeUnknown out encoder =
     (case out of
        None \<Rightarrow> (False, encoderProbeUnknown)
      | Some t \<Rightarrow> if parseEncodersOutput t encoder then (True, encoderProbeAvailable) else (False, encoderProbeUnavailable))"

subsection \<open>The duration of a FLAC stream\<close>

type_synonym bytes = "8 word list"

definition flacPrefixLen :: nat where "flacPrefixLen = 26"

definition flacMaxTotalSamples :: "64 word" where "flacMaxTotalSamples = push_bit 36 1 - 1"

text \<open>\<open>binary.BigEndian\<close>.\<close>

definition be_uint64 :: "bytes \<Rightarrow> 64 word" where
  "be_uint64 bs = foldl (\<lambda>a b. push_bit 8 a OR ucast b) 0 (take 8 bs)"

definition put_be_uint64 :: "64 word \<Rightarrow> bytes" where
  "put_be_uint64 w = map (\<lambda>k. ucast (drop_bit k w)) [56, 48, 40, 32, 24, 16, 8, 0]"

text \<open>\<open>math.Round\<close>, away from zero at a half.\<close>

definition math_round :: "rat \<Rightarrow> int" where
  "math_round q = (if q < 0 then - \<lfloor>- q + 1 / 2\<rfloor> else \<lfloor>q + 1 / 2\<rfloor>)"

definition fLaC :: bytes where "fLaC = [0x66, 0x4C, 0x61, 0x43]"

definition setFLACTotalSamples :: "bytes \<Rightarrow> rat \<Rightarrow> bytes" where
  "setFLACTotalSamples pre duration =
     (if take 4 pre \<noteq> fLaC \<or> pre ! 4 AND 0x7F \<noteq> 0 then pre
      else let info = be_uint64 (drop 18 pre); rate = drop_bit 44 info in
        if rate = 0 \<or> info AND flacMaxTotalSamples \<noteq> 0 then pre
        else let tot = math_round (round_float 53 (duration * of_int (uint rate))) in
          if tot > uint flacMaxTotalSamples then pre
          else take 18 pre @ put_be_uint64 (info OR word_of_int tot))"

text \<open>What is read from the patched stream of a given input, to its end.\<close>

definition patchFLACDuration :: "rat \<Rightarrow> bytes \<Rightarrow> bytes" where
  "patchFLACDuration duration input =
     (if duration \<le> 0 then input
      else if length input < flacPrefixLen then input
      else setFLACTotalSamples (take flacPrefixLen input) duration @ drop flacPrefixLen input)"

text \<open>The output of a transcode, from the bytes ffmpeg writes.\<close>

definition transcode_output :: "TranscodeOptions \<Rightarrow> bytes \<Rightarrow> bytes" where
  "transcode_output opts written =
     patchFLACDuration (round_float 24 (to_Duration opts - round_float 24 (of_int (to_Offset opts)))) written"

section \<open>Properties\<close>

subsection \<open>Arguments\<close>

lemma inject_before_dash: "injectBeforeOutput (args @ [''-'']) flag value = args @ [flag, value, ''-'']"
  by (simp add: injectBeforeOutput_def)

lemma inject_at_end: "args = [] \<or> last args \<noteq> ''-'' \<Longrightarrow> injectBeforeOutput args flag value = args @ [flag, value]"
  by (auto simp: injectBeforeOutput_def)

text \<open>The flags for sample rate, channels and bit depth.\<close>

definition dynamic_flags :: "TranscodeOptions \<Rightarrow> string list" where
  "dynamic_flags opts =
     (if to_SampleRate opts > 0 then [''-ar'', itoa (to_SampleRate opts)] else [])
     @ (if to_Channels opts > 0 then [''-ac'', itoa (to_Channels opts)] else [])
     @ (if to_BitDepth opts \<ge> 16 \<and> isLosslessOutputFormat (to_Format opts)
        then [''-sample_fmt'', bitDepthToSampleFmt (to_BitDepth opts)] else [])"

lemma inject_flags_before_dash: "injectDynamicAudioFlags (args @ [''-'']) opts = args @ dynamic_flags opts @ [''-'']"
proof -
  have inject: "injectBeforeOutput (args @ xs @ [''-'']) flag v = args @ (xs @ [flag, v]) @ [''-'']" for xs flag v
    using inject_before_dash [of "args @ xs"] by simp
  from inject [of "[]"] inject [of "[a, b]" for a b] inject [of "[a, b, c, d]" for a b c d] show ?thesis
    by (simp add: injectDynamicAudioFlags_def dynamic_flags_def Let_def)
qed

lemma itoa_not_dash: "itoa n \<noteq> ''-''"
  using show_nat_not_Nil [of "nat (- n)"] hd_show_nat_digit [of "nat n"] by (auto simp: itoa_def)

lemma inject_flags_at_end:
  assumes "args = [] \<or> last args \<noteq> ''-''" shows "injectDynamicAudioFlags args opts = args @ dynamic_flags opts"
  using assms by (auto simp: injectDynamicAudioFlags_def dynamic_flags_def inject_at_end itoa_not_dash Let_def)

lemma replace_itself: "replace ''%s'' ''%s'' path = path"
  by (simp add: replace_def)

lemma ffmpeg_args_append:
  "ffmpeg_args cmd path br off (xs @ ys) args = ffmpeg_args cmd path br off ys (ffmpeg_args cmd path br off xs args)"
  by (induction cmd path br off xs args rule: ffmpeg_args.induct) (simp_all add: Let_def)

text \<open>A word of the template that is not the file.\<close>

definition plain_arg :: "int \<Rightarrow> int \<Rightarrow> string \<Rightarrow> string" where
  "plain_arg br off s = replace (replace s ''%t'' (itoa off)) ''%b'' (itoa br)"

lemma ffmpeg_args_plain:
  "list_all (\<lambda>s. \<not> contains s ''%s'') xs \<Longrightarrow> ffmpeg_args cmd path br off xs args = args @ map (plain_arg br off) xs"
  by (induction cmd path br off xs args rule: ffmpeg_args.induct) (simp_all add: plain_arg_def)

lemma seek_position_last: "seek_position (args @ [''-i'']) = length args"
  by (simp add: seek_position_def)

text \<open>
  A command template with the input \<open>-i %s\<close> becomes the arguments of its words: the path is one
  argument, whatever characters it has, the bitrate and the offset replace their placeholders in the other words, and a
  seek for a template without \<open>%t\<close> goes right before the input. Flags for rate, channels and depth go before the output.
\<close>

lemma buildTemplateArgs_spec:
  assumes "fixCmd cmdPath probePath (to_Command opts) = pre @ [''-i'', ''%s''] @ post @ [''-'']"
    and "list_all (\<lambda>s. \<not> contains s ''%s'') (pre @ post)"
  shows "buildTemplateArgs cmdPath probePath opts =
    map (plain_arg (to_BitRate opts) (to_Offset opts)) pre
    @ (if to_Offset opts > 0 \<and> \<not> contains (to_Command opts) ''%t'' then [''-ss'', itoa (to_Offset opts)] else [])
    @ [''-i'', to_FilePath opts] @ map (plain_arg (to_BitRate opts) (to_Offset opts)) post @ dynamic_flags opts @ [''-'']"
proof -
  let ?arg = "plain_arg (to_BitRate opts) (to_Offset opts)" and ?pre = "map (plain_arg (to_BitRate opts) (to_Offset opts)) pre"
  let ?seek = "if to_Offset opts > 0 \<and> \<not> contains (to_Command opts) ''%t'' then [''-ss'', itoa (to_Offset opts)] else []"
  let ?args = "\<lambda>ws. ffmpeg_args (to_Command opts) (to_FilePath opts) (to_BitRate opts) (to_Offset opts) ws"
  have fixed: "?arg ''-i'' = ''-i''" "?arg ''-'' = ''-''" by (simp_all add: plain_arg_def)
  have start: "?args (pre @ [''-i'']) [] = ?pre @ [''-i'']"
    using assms(2) ffmpeg_args_plain [of "pre @ [''-i'']"] fixed by simp
  have input: "?args [''%s''] (?pre @ [''-i'']) = ?pre @ ?seek @ [''-i'', to_FilePath opts]"
    using seek_position_last [of ?pre] by (simp add: replace_itself Let_def)
  have rest: "?args (post @ [''-'']) args = args @ map ?arg post @ [''-'']" for args
    using assms(2) ffmpeg_args_plain [of "post @ [''-'']"] fixed by simp
  have "?args (pre @ [''-i'', ''%s''] @ post @ [''-'']) [] = ?args (post @ [''-'']) (?args [''%s''] (?args (pre @ [''-i'']) []))"
    using ffmpeg_args_append [of _ _ _ _ "(pre @ [''-i'']) @ [''%s'']" "post @ [''-'']"]
      ffmpeg_args_append [of _ _ _ _ "pre @ [''-i'']" "[''%s'']"] by simp
  also have "\<dots> = (?pre @ ?seek @ [''-i'', to_FilePath opts] @ map ?arg post) @ [''-'']"
    unfolding start input rest by simp
  finally show ?thesis
    using assms(1) inject_flags_before_dash [of "?pre @ ?seek @ [''-i'', to_FilePath opts] @ map ?arg post" opts]
    by (simp add: buildTemplateArgs_def createFFmpegCommand_def)
qed

definition ex_opts :: TranscodeOptions where
  "ex_opts = \<lparr>to_Command = ''ffmpeg -i %s -b:a %bk -'', to_Format = ''ogg'', to_FilePath = ''/a %t.flac'', to_BitRate = 96,
     to_SampleRate = 44100, to_Channels = 0, to_BitDepth = 24, to_Offset = 7, to_Duration = 60\<rparr>"

lemma buildTemplateArgs_spec_witness:
  "buildTemplateArgs ''/bin/ff'' ''/bin/fp'' ex_opts =
     [''/bin/ff'', ''-ss'', ''7'', ''-i'', ''/a %t.flac'', ''-b:a'', ''96k'', ''-ar'', ''44100'', ''-'']"
proof -
  have words: "fixCmd ''/bin/ff'' ''/bin/fp'' (to_Command ex_opts) = [''/bin/ff''] @ [''-i'', ''%s''] @ [''-b:a'', ''%bk''] @ [''-'']"
    by (simp add: fixCmd_def ex_opts_def go_fields_def) (simp add: is_space_def)
  have numbers: "itoa 7 = ''7''" "itoa 96 = ''96''" "itoa 44100 = ''44100''"
    by (simp_all add: itoa_def show_nat.simps digit_chars)
  have flags: "dynamic_flags ex_opts = [''-ar'', ''44100'']"
    by (simp add: dynamic_flags_def ex_opts_def numbers isLosslessOutputFormat_def) code_simp
  have "map (plain_arg 96 7) [''/bin/ff''] = [''/bin/ff'']" "map (plain_arg 96 7) [''-b:a'', ''%bk''] = [''-b:a'', ''96k'']"
    by (simp_all add: plain_arg_def replace_def numbers)
  then show ?thesis
    using buildTemplateArgs_spec [OF words] flags numbers by (simp add: ex_opts_def)
qed

text \<open>The built-in command: what is passed for each option that is set.\<close>

lemma buildDynamicArgs_spec:
  assumes "to_FilePath opts \<noteq> ''-''"
  shows "buildDynamicArgs cmdPath opts =
    [cmdPath] @ (if to_Offset opts > 0 then [''-ss'', itoa (to_Offset opts)] else [])
    @ [''-i'', to_FilePath opts, ''-map'', ''0:a:0'', ''-map_metadata'', ''0'', ''-map_metadata'', ''0:s:a:0'']
    @ (case formatCodecMap (to_Format opts) of None \<Rightarrow> [] | Some codec \<Rightarrow> [''-c:a'', codec])
    @ (if to_BitRate opts > 0 then [''-b:a'', itoa (to_BitRate opts) @ ''k''] else [])
    @ dynamic_flags opts @ [''-v'', ''0'']
    @ (case formatOutputMap (to_Format opts) of None \<Rightarrow> [] | Some f \<Rightarrow> [''-f'', f]) @ [''-'']"
proof -
  have codec: "c \<noteq> ''-''" if "formatCodecMap f = Some c" for f c
    using that by (auto simp: formatCodecMap_def split: if_splits)
  let ?codec = "case formatCodecMap (to_Format opts) of None \<Rightarrow> [] | Some codec \<Rightarrow> [''-c:a'', codec]"
  let ?args = "[cmdPath] @ (if to_Offset opts > 0 then [''-ss'', itoa (to_Offset opts)] else [])
    @ [''-i'', to_FilePath opts, ''-map'', ''0:a:0'', ''-map_metadata'', ''0'', ''-map_metadata'', ''0:s:a:0'']
    @ ?codec @ (if to_BitRate opts > 0 then [''-b:a'', itoa (to_BitRate opts) @ ''k''] else [])"
  have "last ?args \<noteq> ''-''"
    using codec [of "to_Format opts"] by (cases "formatCodecMap (to_Format opts)") auto
  then show ?thesis using inject_flags_at_end [of ?args opts] by (simp add: buildDynamicArgs_def Let_def)
qed

text \<open>The error output kept has at most the limit of bytes, and is the first part of what was written.\<close>

lemma limited_write_spec:
  "limited_write limit (take limit s) p = (length p, take limit (s @ p))"
  by (auto simp: limited_write_def Let_def nat_diff_distrib' min_def)

lemma encoderProbe_once:
  "encoderProbe_has st out enc = (r, st') \<Longrightarrow> st' \<noteq> encoderProbeUnknown \<Longrightarrow> encoderProbe_has st' out' enc = (r, st')"
  by (cases "(st, out, enc)" rule: encoderProbe_has.cases) (auto split: option.splits if_splits)

text \<open>A probe is of the first audio stream, and fails only when there is none.\<close>

lemma parseProbeOutput_first:
  "parseProbeOutput f ss = map_option (probe_result f) (find (\<lambda>s. ps_CodecType s = ''audio'') ss)"
  by (induction ss) simp_all

subsection \<open>The duration of a FLAC stream\<close>

lemma length_put [simp]: "length (put_be_uint64 w) = 8"
  by (simp add: put_be_uint64_def)

lemma be_put: "be_uint64 (put_be_uint64 w @ rest) = w"
proof (rule bit_word_eqI)
  fix n assume n: "n < LENGTH(64)"
  consider "n < 8" | "8 \<le> n" "n < 16" | "16 \<le> n" "n < 24" | "24 \<le> n" "n < 32"
    | "32 \<le> n" "n < 40" | "40 \<le> n" "n < 48" | "48 \<le> n" "n < 56" | "56 \<le> n" "n < 64"
    using n by (simp, linarith)
  then show "bit (be_uint64 (put_be_uint64 w @ rest)) n = bit w n"
    by cases (simp_all add: be_uint64_def put_be_uint64_def bit_simps less_diff_conv2)
qed

lemma put_be:
  assumes "length bs = 8" shows "put_be_uint64 (be_uint64 bs) = bs"
proof -
  obtain b0 b1 b2 b3 b4 b5 b6 b7 where bs: "bs = [b0, b1, b2, b3, b4, b5, b6, b7]"
    using assms by (auto simp: numeral_eq_Suc length_Suc_conv)
  have beyond: "8 \<le> k \<Longrightarrow> \<not> bit b (k + n)" for b :: "8 word" and k n
    using bit_imp_le_length [of b "k + n"] by auto
  show ?thesis
    by (simp add: bs be_uint64_def put_be_uint64_def; intro conjI; rule bit_word_eqI; simp add: bit_simps beyond)
qed

lemma flac_mask: "flacMaxTotalSamples = mask 36"
  by (simp add: flacMaxTotalSamples_def mask_eq_decr_exp)

text \<open>The fields of the header: everything above the 36 bits of the count of samples, and this count.\<close>

definition flac_info :: "bytes \<Rightarrow> 64 word" where
  "flac_info bs = be_uint64 (drop 18 bs)"

definition is_flac_header :: "bytes \<Rightarrow> bool" where
  "is_flac_header bs \<longleftrightarrow> length bs \<ge> flacPrefixLen \<and> take 4 bs = fLaC \<and> bs ! 4 AND 0x7F = 0"

definition flac_total :: "rat \<Rightarrow> bytes \<Rightarrow> int" where
  "flac_total duration bs = math_round (round_float 53 (duration * of_int (uint (drop_bit 44 (flac_info bs)))))"

lemma flac_info_take: "26 \<le> length bs \<Longrightarrow> be_uint64 (drop 18 (take 26 bs)) = flac_info bs"
  by (simp add: flac_info_def be_uint64_def drop_take)

lemma or_total:
  fixes info :: "64 word"
  assumes "info AND mask 36 = 0" and "0 \<le> t" and "t \<le> uint (mask 36 :: 64 word)"
  shows "(info OR word_of_int t) AND mask 36 = word_of_int t" and "drop_bit 36 (info OR word_of_int t) = drop_bit 36 info"
    and "uint (word_of_int t :: 64 word) = t"
proof -
  have bound: "t < 2 ^ 36" using assms(3) by (simp add: mask_eq_exp_minus_1)
  then have "take_bit 36 t = t" using assms(2) by (simp add: take_bit_int_eq_self)
  then have high: "bit t n \<Longrightarrow> n < 36" for n by (metis bit_take_bit_iff)
  have low: "\<not> (bit info n \<and> n < 36)" for n
  proof
    assume n: "bit info n \<and> n < 36"
    then have "bit (info AND mask 36) n" by (simp add: bit_simps)
    then show False using assms(1) by simp
  qed
  show "uint (word_of_int t :: 64 word) = t" using assms(2) bound by (simp add: uint_word_of_int)
  show "(info OR word_of_int t) AND mask 36 = word_of_int t"
    by (rule bit_word_eqI) (use low high in \<open>auto simp: bit_simps\<close>)
  show "drop_bit 36 (info OR word_of_int t) = drop_bit 36 info"
    by (rule bit_word_eqI) (use high in \<open>fastforce simp: bit_simps\<close>)
qed

lemma math_round_nonneg: "0 \<le> q \<Longrightarrow> 0 \<le> math_round q"
  by (simp add: math_round_def)

lemma flac_total_nonneg: "0 < duration \<Longrightarrow> 0 \<le> flac_total duration bs"
  unfolding flac_total_def
  by (intro math_round_nonneg round_float_nonneg mult_nonneg_nonneg) (simp_all only: less_imp_le of_int_0_le_iff uint_ge_0)

lemma patched_stream:
  assumes "is_flac_header bs" and "0 < duration" and "drop_bit 44 (flac_info bs) \<noteq> 0"
    and "flac_info bs AND mask 36 = 0" and "flac_total duration bs \<le> uint (mask 36 :: 64 word)"
  shows "patchFLACDuration duration bs =
    take 18 bs @ put_be_uint64 (flac_info bs OR word_of_int (flac_total duration bs)) @ drop 26 bs"
proof -
  have len: "26 \<le> length bs" using assms(1) by (simp add: is_flac_header_def flacPrefixLen_def)
  then show ?thesis
    using assms flac_info_take [OF len]
    by (simp add: patchFLACDuration_def setFLACTotalSamples_def is_flac_header_def flac_mask flacPrefixLen_def
        flac_total_def Let_def min_def)
qed


definition ex_flac :: bytes where
  "ex_flac = fLaC @ [0, 0, 0, 0, 0, 0, 0, 0, 0, 0, 0, 0, 0, 0] @ [0x0B, 0xB8, 0x02, 0xF0, 0, 0, 0, 0, 7, 7]"


end
