(* ===== verification/Go_Path.thy ===== *)
theory Go_Path
  imports Str_Util
begin

text \<open>
  The functions of Go's packages \<open>path\<close> and \<open>path/filepath\<close> that the components use, for systems whose separator is the
  slash. They are lexical: a path is cut at its slashes, and \<open>.\<close> and \<open>..\<close> are resolved without looking at the file
  system.
\<close>

section \<open>Definitions\<close>

abbreviation slash :: char where "slash \<equiv> CHR ''/''"

definition is_abs :: "string \<Rightarrow> bool" where
  "is_abs p = has_prefix p [slash]"

text \<open>One element of a path; \<open>out\<close> has the elements so far, the last one first.\<close>

definition clean_step :: "bool \<Rightarrow> string list \<Rightarrow> string \<Rightarrow> string list" where
  "clean_step rooted out c =
     (if c = [] \<or> c = ''.'' then out
      else if c = ''..'' then
        (case out of
           [] \<Rightarrow> if rooted then [] else [''..'']
         | d # ds \<Rightarrow> if d \<noteq> ''..'' then ds else if rooted then out else ''..'' # out)
      else c # out)"

definition clean_elems :: "string \<Rightarrow> string list" where
  "clean_elems p = rev (foldl (clean_step (is_abs p)) [] (split_on slash p))"

definition go_clean :: "string \<Rightarrow> string" where
  "go_clean p =
     (if is_abs p then slash # join [slash] (clean_elems p)
      else if clean_elems p = [] then ''.'' else join [slash] (clean_elems p))"

definition path_join :: "string list \<Rightarrow> string" where
  "path_join elems = (case filter (\<lambda>e. e \<noteq> []) elems of [] \<Rightarrow> [] | es \<Rightarrow> go_clean (join [slash] es))"

text \<open>The elements after a common beginning.\<close>

fun strip_common :: "string list \<Rightarrow> string list \<Rightarrow> string list \<times> string list" where
  "strip_common (a # as) (b # bs) = (if a = b then strip_common as bs else (a # as, b # bs))"
| "strip_common as bs = (as, bs)"

text \<open>\<open>filepath.Rel\<close>; \<open>None\<close> is its error.\<close>

definition path_rel :: "string \<Rightarrow> string \<Rightarrow> string option" where
  "path_rel base targ =
     (if go_clean base = go_clean targ then Some ''.''
      else if is_abs base \<noteq> is_abs targ then None
      else case strip_common (clean_elems base) (clean_elems targ) of
        (bs, ts) \<Rightarrow> if bs \<noteq> [] \<and> hd bs = ''..'' then None else Some (join [slash] (replicate (length bs) ''..'' @ ts)))"

definition path_base :: "string \<Rightarrow> string" where
  "path_base p =
     (if p = [] then ''.''
      else let q = rev (dropWhile (\<lambda>c. c = slash) (rev p))
        in if q = [] then [slash] else rev (takeWhile (\<lambda>c. c \<noteq> slash) (rev q)))"

definition path_ext :: "string \<Rightarrow> string" where
  "path_ext p =
     (let body = takeWhile (\<lambda>c. c \<noteq> slash) (rev p); after_dot = takeWhile (\<lambda>c. c \<noteq> CHR ''.'') body
      in if length after_dot < length body then CHR ''.'' # rev after_dot else [])"

definition path_dir :: "string \<Rightarrow> string" where
  "path_dir p = go_clean (rev (dropWhile (\<lambda>c. c \<noteq> slash) (rev p)))"

definition trim_suffix :: "string \<Rightarrow> string \<Rightarrow> string" where
  "trim_suffix s suf = (if length suf \<le> length s \<and> drop (length s - length suf) s = suf then take (length s - length suf) s else s)"

section \<open>Splitting and joining\<close>

lemma has_prefix_iff: "has_prefix s p \<longleftrightarrow> prefix p s"
  by (induction s p rule: has_prefix.induct) auto

lemma split_on_not_Nil [simp]: "split_on sep s \<noteq> []"
  by (induction s) (auto split: list.splits)

lemma split_on_free: "sep \<notin> set s \<Longrightarrow> split_on sep s = [s]"
  by (induction s) auto

lemma split_on_sep: "split_on sep (a @ sep # b) = split_on sep a @ split_on sep b"
  by (induction a) (auto split: list.splits)

lemma split_on_sep_free: "c \<in> set (split_on sep s) \<Longrightarrow> sep \<notin> set c"
  by (induction s arbitrary: c) (auto split: list.splits if_splits)

lemma join_split: "join [sep] (split_on sep s) = s"
proof (induction s)
  case (Cons c s)
  obtain x xs where "split_on sep s = x # xs" by (cases "split_on sep s") auto
  then show ?case using Cons by (cases xs) auto
qed simp

lemma join_Cons: "join sep (x # xs) = (if xs = [] then x else x @ sep @ join sep xs)"
  by (cases xs) simp_all

lemma join_append:
  "join sep (xs @ ys) = (if xs = [] then join sep ys else if ys = [] then join sep xs else join sep xs @ sep @ join sep ys)"
  by (induction xs) (auto simp: join_Cons)

lemma split_join: "xs \<noteq> [] \<Longrightarrow> \<forall>x \<in> set xs. sep \<notin> set x \<Longrightarrow> split_on sep (join [sep] xs) = xs"
proof (induction xs rule: induct_list012)
  case (2 x)
  then show ?case by (simp add: split_on_free)
next
  case (3 x y zs)
  then show ?case using split_on_sep [of sep x "join [sep] (y # zs)"] by (simp add: split_on_free)
qed simp

section \<open>Clean absolute paths\<close>

text \<open>An element of a clean absolute path, and the path of such elements.\<close>

definition normal :: "string \<Rightarrow> bool" where
  "normal c \<longleftrightarrow> c \<noteq> [] \<and> c \<noteq> ''.'' \<and> c \<noteq> ''..'' \<and> slash \<notin> set c"

definition root_path :: "string list \<Rightarrow> string" where
  "root_path cs = slash # join [slash] cs"

lemma clean_step_normal: "normal c \<Longrightarrow> clean_step r out c = c # out"
  by (simp add: clean_step_def normal_def)

lemma foldl_clean_normal: "list_all normal cs \<Longrightarrow> foldl (clean_step r) out cs = rev cs @ out"
  by (induction cs arbitrary: out) (auto simp: clean_step_normal)

lemma clean_step_keeps_normal:
  "list_all normal out \<Longrightarrow> slash \<notin> set c \<Longrightarrow> list_all normal (clean_step True out c)"
  by (auto simp: clean_step_def normal_def split: list.splits)

lemma foldl_clean_keeps_normal:
  "list_all normal out \<Longrightarrow> \<forall>c \<in> set cs. slash \<notin> set c \<Longrightarrow> list_all normal (foldl (clean_step True) out cs)"
  by (induction cs arbitrary: out) (simp_all add: clean_step_keeps_normal)

lemma is_abs_Cons [simp]: "is_abs (c # p) \<longleftrightarrow> c = slash"
  by (cases p) (simp_all add: is_abs_def)

lemma is_abs_Nil [simp]: "\<not> is_abs []"
  by (simp add: is_abs_def)

lemma is_abs_root [simp]: "is_abs (root_path cs)"
  by (simp add: root_path_def)

lemma clean_elems_normal: "is_abs p \<Longrightarrow> list_all normal (clean_elems p)"
  using foldl_clean_keeps_normal [of "[]" "split_on slash p"] split_on_sep_free by (simp add: clean_elems_def)

lemma clean_abs: "is_abs p \<Longrightarrow> go_clean p = root_path (clean_elems p)"
  by (simp add: go_clean_def root_path_def)

lemma normal_free: "list_all normal cs \<Longrightarrow> \<forall>c \<in> set cs. slash \<notin> set c"
  by (auto simp: list_all_iff normal_def)

lemma clean_elems_root: "list_all normal cs \<Longrightarrow> clean_elems (root_path cs) = cs"
proof (cases "cs = []")
  case False
  assume n: "list_all normal cs"
  have "split_on slash (root_path cs) = [] # cs"
    using split_on_sep [of slash "[]" "join [slash] cs"] split_join [OF False normal_free [OF n]] by (simp add: root_path_def)
  then show ?thesis using foldl_clean_normal [OF n] by (simp add: clean_elems_def clean_step_def)
qed (simp add: clean_elems_def root_path_def clean_step_def)

lemma clean_root: "list_all normal cs \<Longrightarrow> go_clean (root_path cs) = root_path cs"
  by (simp add: clean_abs clean_elems_root)

text \<open>Cleaning is idempotent on absolute paths.\<close>

lemma clean_clean: "is_abs p \<Longrightarrow> go_clean (go_clean p) = go_clean p"
  by (simp add: clean_abs [of p] clean_root clean_elems_normal)

text \<open>An element of any clean path.\<close>

definition elem :: "string \<Rightarrow> bool" where
  "elem c \<longleftrightarrow> c \<noteq> [] \<and> slash \<notin> set c"

lemma elem_dots [simp]: "elem ''..''"
  by (simp add: elem_def)

lemma clean_step_elem: "list_all elem out \<Longrightarrow> slash \<notin> set c \<Longrightarrow> list_all elem (clean_step r out c)"
  by (cases out) (simp_all add: clean_step_def elem_def)

lemma foldl_clean_elem:
  "list_all elem out \<Longrightarrow> \<forall>c \<in> set cs. slash \<notin> set c \<Longrightarrow> list_all elem (foldl (clean_step r) out cs)"
  by (induction cs arbitrary: out) (simp_all add: clean_step_elem)

lemma elem_join_not_abs: "list_all elem xs \<Longrightarrow> \<not> is_abs (join [slash] xs)"
proof (cases xs)
  case (Cons x ys)
  moreover assume "list_all elem xs"
  ultimately have "elem x" by simp
  then obtain c cs where "x = c # cs" "c \<noteq> slash" by (cases x) (auto simp: elem_def)
  then show ?thesis using Cons by (simp add: join_Cons)
qed simp

lemma is_abs_clean: "is_abs (go_clean p) \<longleftrightarrow> is_abs p"
proof (cases "is_abs p")
  case False
  have "list_all elem (clean_elems p)"
    using foldl_clean_elem [of "[]" "split_on slash p"] split_on_sep_free by (simp add: clean_elems_def)
  then show ?thesis using False elem_join_not_abs by (simp add: go_clean_def)
qed (simp add: clean_abs)

lemma root_path_inject: "list_all normal cs \<Longrightarrow> list_all normal ds \<Longrightarrow> root_path cs = root_path ds \<longleftrightarrow> cs = ds"
  using clean_elems_root by metis

section \<open>Containment\<close>

text \<open>
  The test by which the code sees that a clean path lies in a folder: the text of the folder is a prefix, and ends at the
  end of an element.
\<close>

definition under :: "string \<Rightarrow> string \<Rightarrow> bool" where
  "under dir p \<longleftrightarrow> has_prefix p dir \<and> (length p = length dir \<or> p ! length dir = slash \<or> (dir \<noteq> [] \<and> last dir = slash))"

lemma join_prefix:
  assumes "prefix ds cs" and "ds \<noteq> []" and "cs \<noteq> ds"
  shows "\<exists>rest. join [slash] cs = join [slash] ds @ slash # rest"
  using assms by (auto simp: prefix_def join_append)

lemma under_elems:
  assumes "list_all normal cs" and "list_all normal ds"
  shows "under (root_path ds) (root_path cs) \<longleftrightarrow> prefix ds cs"
proof (cases "ds = []")
  case True
  then show ?thesis by (simp add: under_def root_path_def has_prefix_iff)
next
  case ds: False
  have last: "last (root_path ds) \<noteq> slash"
  proof -
    have "d \<noteq> [] \<and> last d \<noteq> slash" if "normal d" for d using that last_in_set [of d] unfolding normal_def by metis
    with ds assms(2) have "join [slash] ds \<noteq> [] \<and> last (join [slash] ds) \<noteq> slash"
    proof (induction ds rule: induct_list012)
      case (3 x y zs)
      then have "join [slash] (y # zs) \<noteq> [] \<and> last (join [slash] (y # zs)) \<noteq> slash" by simp
      then show ?case by (simp add: last_append)
    qed simp_all
    then show ?thesis by (simp add: root_path_def)
  qed
  show ?thesis
  proof
    assume u: "under (root_path ds) (root_path cs)"
    then obtain rest where rest: "root_path cs = root_path ds @ rest" by (auto simp: under_def has_prefix_iff prefix_def)
    show "prefix ds cs"
    proof (cases rest)
      case Nil
      then show ?thesis using rest root_path_inject [OF assms] by simp
    next
      case (Cons c rest')
      then have "c = slash" using u rest last by (auto simp: under_def nth_append)
      then have j: "join [slash] cs = join [slash] ds @ slash # rest'" using rest Cons by (simp add: root_path_def)
      then have "cs \<noteq> []" by auto
      then have "cs = split_on slash (join [slash] cs)" using split_join normal_free [OF assms(1)] by metis
      also have "\<dots> = ds @ split_on slash rest'"
        using j split_on_sep split_join [OF ds normal_free [OF assms(2)]] by metis
      finally show ?thesis by (metis prefixI)
    qed
  next
    assume p: "prefix ds cs"
    show "under (root_path ds) (root_path cs)"
    proof (cases "cs = ds")
      case False
      then obtain rest where "join [slash] cs = join [slash] ds @ slash # rest" using join_prefix [OF p ds] by blast
      then show ?thesis by (simp add: under_def root_path_def has_prefix_iff nth_append)
    qed (simp add: under_def has_prefix_iff)
  qed
qed

lemma strip_common_prefix: "strip_common ds (ds @ es) = ([], es)"
  by (induction ds) (cases es, simp_all)

lemma path_rel_self [simp]: "path_rel d d = Some ''.''"
  by (simp add: path_rel_def)

text \<open>The path of a file relative to a folder that contains it goes down only, and leads back to the file.\<close>

lemma rel_under:
  assumes "list_all normal (ds @ es)" and "es \<noteq> []"
  shows "path_rel (root_path ds) (root_path (ds @ es)) = Some (join [slash] es)"
proof -
  have n: "list_all normal ds" using assms(1) by simp
  have "root_path ds \<noteq> root_path (ds @ es)" using root_path_inject [OF n assms(1)] assms(2) by simp
  then show ?thesis
    using clean_root [OF n] clean_root [OF assms(1)] clean_elems_root [OF n] clean_elems_root [OF assms(1)]
    by (simp add: path_rel_def strip_common_prefix)
qed

lemma join_root: "list_all normal (ds @ es) \<Longrightarrow> es \<noteq> [] \<Longrightarrow> path_join [root_path ds, join [slash] es] = root_path (ds @ es)"
proof -
  assume n: "list_all normal (ds @ es)" and es: "es \<noteq> []"
  have ne: "join [slash] es \<noteq> []" using n es by (cases es) (auto simp: join_Cons normal_def)
  have sp: "split_on slash (join [slash] es) = es" using split_join [OF es] normal_free [of es] n by simp
  have "path_join [root_path ds, join [slash] es] = go_clean (root_path ds @ slash # join [slash] es)"
    using ne by (simp add: path_join_def root_path_def)
  also have "\<dots> = root_path (ds @ es)"
  proof -
    have "split_on slash (root_path ds @ slash # join [slash] es) = split_on slash (root_path ds) @ es"
      using sp by (simp add: split_on_sep)
    moreover have "foldl (clean_step True) [] (split_on slash (root_path ds)) = rev ds"
      using clean_elems_root [of ds] n by (simp add: clean_elems_def rev_swap)
    moreover have abs: "is_abs (root_path ds @ slash # join [slash] es)" by (simp add: root_path_def)
    ultimately have "clean_elems (root_path ds @ slash # join [slash] es) = ds @ es"
      using foldl_clean_normal [of es True "rev ds"] n by (simp add: clean_elems_def)
    then show ?thesis using abs by (simp add: clean_abs)
  qed
  finally show ?thesis .
qed

end
