(* ===== verification/Missing_Tracks.thy ===== *)
theory Missing_Tracks
  imports Go_Slice Go_Path "HOL-Library.Sublist" "HOL-Library.Multiset" "HOL-Library.Word" "HOL-Library.Char_ord" "HOL-Library.List_Lexorder"
begin

text \<open>
  The scanner phase that finds files that were moved (\<open>scanner/phase_2_missing_tracks.go\<close>), with the queries it makes
  (\<open>persistence/mediafile_repository.go\<close>). The table of tracks is the list of its rows; the phase keeps the table, the
  albums whose annotations it has reassigned, a counter of 32 bits and the flag for changes. The hash by which tracks
  are compared is computed by libraries and is a parameter, as is the outcome of every transaction.
\<close>

section \<open>Definitions\<close>

subsection \<open>Tracks\<close>

record track =
  t_ID :: string
  t_PID :: string
  t_LibraryID :: int
  t_Path :: string
  t_AlbumID :: string
  t_Title :: string
  t_Album :: string
  t_Size :: int
  t_Suffix :: string
  t_DiscNumber :: int
  t_TrackNumber :: int
  t_MbzReleaseTrackID :: string
  t_CreatedAt :: int
  t_Missing :: bool

record mt_library =
  lib_ID :: int
  lib_LastScanStartedAt :: int

record missingTracks =
  g_lib :: int
  g_pid :: string
  g_missing :: "track list"
  g_matched :: "track list"

datatype tx_error = PutFailed | DeleteFailed | CommitFailed

text \<open>The world: the hash, and for every transaction whether it fails and whether its side queries succeed.\<close>

record 'h mt_env =
  env_hash :: "track \<Rightarrow> 'h"
  env_tx :: "track \<Rightarrow> track \<Rightarrow> tx_error option"
  env_reassign :: "string \<Rightarrow> string \<Rightarrow> bool"
  env_copy :: "string \<Rightarrow> string \<Rightarrow> bool"
  env_find_fail :: "bool \<Rightarrow> track \<Rightarrow> bool"

record mt_state =
  p_files :: "track list"
  p_reassigned :: "(string \<times> string) list"
  p_copied :: "(string \<times> string) list"
  p_processed :: "string set"
  p_totalMatched :: "32 word"
  p_changesDetected :: bool

definition BaseName :: "string \<Rightarrow> string" where
  "BaseName filePath = (let p = path_base filePath in trim_suffix p (path_ext p))"

definition Equals :: "'h mt_env \<Rightarrow> track \<Rightarrow> track \<Rightarrow> bool" where
  "Equals env mf other \<longleftrightarrow> env_hash env mf = env_hash env other"

definition IsEquivalent :: "track \<Rightarrow> track \<Rightarrow> bool" where
  "IsEquivalent mf other \<longleftrightarrow> BaseName (t_Path mf) = BaseName (t_Path other)"

subsection \<open>Queries\<close>

definition GetMissingAndMatching :: "mt_library list \<Rightarrow> track list \<Rightarrow> int \<Rightarrow> track list" where
  "GetMissingAndMatching libs files libId =
     sort_key t_PID (filter (\<lambda>t. t_PID t \<in> set (map t_PID (filter (\<lambda>m. t_Missing m \<and> t_LibraryID m = libId) files)) \<and>
       (t_Missing t \<or> (case find (\<lambda>l. lib_ID l = t_LibraryID t) libs of None \<Rightarrow> False
                        | Some l \<Rightarrow> t_CreatedAt t > lib_LastScanStartedAt l))) files)"

definition FindRecentFilesByMBZTrackID :: "track list \<Rightarrow> track \<Rightarrow> int \<Rightarrow> track list" where
  "FindRecentFilesByMBZTrackID files missing since =
     sort_key (\<lambda>t. - t_CreatedAt t) (filter (\<lambda>t. t_LibraryID t \<noteq> t_LibraryID missing \<and>
       t_MbzReleaseTrackID t = t_MbzReleaseTrackID missing \<and> t_MbzReleaseTrackID t \<noteq> [] \<and> t_Suffix t = t_Suffix missing \<and>
       t_CreatedAt t > since \<and> \<not> t_Missing t) files)"

definition FindRecentFilesByProperties :: "track list \<Rightarrow> track \<Rightarrow> int \<Rightarrow> track list" where
  "FindRecentFilesByProperties files missing since =
     sort_key (\<lambda>t. - t_CreatedAt t) (filter (\<lambda>t. t_LibraryID t \<noteq> t_LibraryID missing \<and>
       t_Title t = t_Title missing \<and> t_Size t = t_Size missing \<and> t_Suffix t = t_Suffix missing \<and>
       t_DiscNumber t = t_DiscNumber missing \<and> t_TrackNumber t = t_TrackNumber missing \<and> t_Album t = t_Album missing \<and>
       t_MbzReleaseTrackID t = [] \<and> t_CreatedAt t > since \<and> \<not> t_Missing t) files)"

text \<open>\<open>Put\<close> updates the row of the id, but not its creation time, or inserts a row.\<close>

definition put_track :: "track \<Rightarrow> track list \<Rightarrow> track list" where
  "put_track m files =
     (if t_ID m \<in> t_ID ` set files
      then map (\<lambda>t. if t_ID t = t_ID m then m\<lparr>t_CreatedAt := t_CreatedAt t\<rparr> else t) files
      else files @ [m])"

definition delete_track :: "string \<Rightarrow> track list \<Rightarrow> track list" where
  "delete_track i files = filter (\<lambda>t. t_ID t \<noteq> i) files"

subsection \<open>Groups\<close>

definition putIfMatched :: "missingTracks \<Rightarrow> missingTracks list" where
  "putIfMatched mt = (if g_pid mt \<noteq> [] \<and> length (g_missing mt) > 0 then [mt] else [])"

text \<open>An error of the cursor ends the loop before the last group is put.\<close>

fun group_cursor :: "bool \<Rightarrow> track list \<Rightarrow> missingTracks \<Rightarrow> missingTracks list" where
  "group_cursor fails [] mt = (if fails then [] else putIfMatched mt)"
| "group_cursor fails (mf # rest) mt =
     (let flush = (if g_pid mt \<noteq> t_PID mf then putIfMatched mt else []);
          mt1 = (if g_pid mt \<noteq> t_PID mf then mt\<lparr>g_pid := t_PID mf, g_missing := [], g_matched := []\<rparr> else mt)
      in flush @ group_cursor fails rest
           (if t_Missing mf then mt1\<lparr>g_missing := g_missing mt1 @ [mf]\<rparr> else mt1\<lparr>g_matched := g_matched mt1 @ [mf]\<rparr>))"

text \<open>
  \<open>load l\<close> is the number of rows that are read before the query for library \<open>l\<close> fails, if it fails. The result is the
  groups that were put, and whether all libraries were read.
\<close>

fun produce :: "mt_library list \<Rightarrow> track list \<Rightarrow> (int \<Rightarrow> nat option) \<Rightarrow> int list \<Rightarrow> missingTracks list \<times> bool" where
  "produce libs files load [] = ([], True)"
| "produce libs files load (l # libraries) =
     (let cursor = GetMissingAndMatching libs files l; mt = \<lparr>g_lib = l, g_pid = [], g_missing = [], g_matched = []\<rparr>
      in case load l of
           Some n \<Rightarrow> (group_cursor True (take n cursor) mt, False)
         | None \<Rightarrow> (case produce libs files load libraries of (gs, loaded) \<Rightarrow> (group_cursor False cursor mt @ gs, loaded)))"

subsection \<open>Moving\<close>

definition moveMatched :: "'h mt_env \<Rightarrow> track \<Rightarrow> track \<Rightarrow> mt_state \<Rightarrow> tx_error option \<times> mt_state" where
  "moveMatched env target missing st =
     (let oldAlbumID = t_AlbumID missing; newAlbumID = t_AlbumID target;
          differ = (oldAlbumID \<noteq> newAlbumID);
          reassignAlbum = (differ \<and> newAlbumID \<notin> p_processed st);
          st1 = (if differ then st\<lparr>p_processed := insert newAlbumID (p_processed st)\<rparr> else st)
      in case env_tx env target missing of
           Some err \<Rightarrow>
             (Some err, if reassignAlbum then st1\<lparr>p_processed := p_processed st1 - {newAlbumID}\<rparr> else st1)
         | None \<Rightarrow>
             (let moved = target\<lparr>t_CreatedAt := t_CreatedAt missing, t_ID := t_ID missing\<rparr>;
                  files = delete_track (t_ID target) (put_track moved (p_files st1));
                  st2 = (if reassignAlbum
                         then st1\<lparr>p_reassigned := p_reassigned st1 @ (if env_reassign env oldAlbumID newAlbumID then [(oldAlbumID, newAlbumID)] else []),
                                   p_copied := p_copied st1 @ (if env_copy env oldAlbumID newAlbumID then [(oldAlbumID, newAlbumID)] else [])\<rparr>
                         else st1)
              in (None, st2\<lparr>p_files := files, p_changesDetected := True\<rparr>)))"

text \<open>The search of the matched tracks: the first exact match ends it, otherwise the last equivalent one counts.\<close>

fun best_match :: "'h mt_env \<Rightarrow> track \<Rightarrow> string set \<Rightarrow> track list \<Rightarrow> track option \<Rightarrow> track option \<times> track option" where
  "best_match env ms usedMatched [] equivalentMatch = (None, equivalentMatch)"
| "best_match env ms usedMatched (mt # rest) equivalentMatch =
     (if t_ID mt \<in> usedMatched then best_match env ms usedMatched rest equivalentMatch
      else if Equals env ms mt then (Some mt, equivalentMatch)
      else best_match env ms usedMatched rest (if IsEquivalent ms mt then Some mt else equivalentMatch))"

text \<open>The zero value stands for no match, so a track with an empty id is none.\<close>

definition with_id :: "track option \<Rightarrow> track option" where
  "with_id m = (case m of None \<Rightarrow> None | Some t \<Rightarrow> if t_ID t \<noteq> [] then Some t else None)"

definition choose_match :: "'h mt_env \<Rightarrow> missingTracks \<Rightarrow> string set \<Rightarrow> track \<Rightarrow> track option" where
  "choose_match env in_group usedMatched ms =
     (case best_match env ms usedMatched (g_matched in_group) None of
        (exactMatch, equivalentMatch) \<Rightarrow>
          (case with_id exactMatch of
             Some t \<Rightarrow> Some t
           | None \<Rightarrow>
               if length (g_missing in_group) = 1 \<and> length (g_matched in_group) = 1 \<and> t_ID (g_matched in_group ! 0) \<notin> usedMatched
               then Some (g_matched in_group ! 0) else with_id equivalentMatch))"

fun process_missing :: "'h mt_env \<Rightarrow> missingTracks \<Rightarrow> track list \<Rightarrow> string set \<Rightarrow> bool \<Rightarrow> mt_state \<Rightarrow> (tx_error + bool) \<times> mt_state" where
  "process_missing env in_group [] usedMatched hasMatches st = (Inr hasMatches, st)"
| "process_missing env in_group (ms # rest) usedMatched hasMatches st =
     (case choose_match env in_group usedMatched ms of
        None \<Rightarrow> process_missing env in_group rest usedMatched hasMatches st
      | Some t \<Rightarrow>
          (case moveMatched env t ms st of
             (Some err, st') \<Rightarrow> (Inl err, st')
           | (None, st') \<Rightarrow> process_missing env in_group rest (insert (t_ID t) usedMatched) True
                              (st'\<lparr>p_totalMatched := p_totalMatched st' + 1\<rparr>)))"

text \<open>A group without a match goes on to the next stage.\<close>

definition processMissingTracks :: "'h mt_env \<Rightarrow> missingTracks \<Rightarrow> mt_state \<Rightarrow> (tx_error + missingTracks option) \<times> mt_state" where
  "processMissingTracks env in_group st =
     (case process_missing env in_group (g_missing in_group) {} False st of
        (Inl err, st') \<Rightarrow> (Inl err, st')
      | (Inr hasMatches, st') \<Rightarrow> (Inr (if hasMatches then None else Some in_group), st'))"

definition pick_recent :: "'h mt_env \<Rightarrow> track \<Rightarrow> track list \<Rightarrow> track option" where
  "pick_recent env missing matches =
     (case find (Equals env missing) matches of
        Some m \<Rightarrow> Some m
      | None \<Rightarrow> if length matches = 1 \<and> IsEquivalent missing (matches ! 0) then Some (matches ! 0) else None)"

text \<open>\<open>Inl\<close> is the error of the second search; the first search may fail, or is left out for a track without the id.\<close>

definition findCrossLibraryMatch :: "'h mt_env \<Rightarrow> track \<Rightarrow> track list \<Rightarrow> unit + track option" where
  "findCrossLibraryMatch env missing files =
     (let first = (if t_MbzReleaseTrackID missing \<noteq> [] \<and> \<not> env_find_fail env True missing
                   then pick_recent env missing (FindRecentFilesByMBZTrackID files missing (t_CreatedAt missing)) else None)
      in case first of
           Some m \<Rightarrow> Inr (Some m)
         | None \<Rightarrow>
             if env_find_fail env False missing then Inl ()
             else Inr (pick_recent env missing (FindRecentFilesByProperties files missing (t_CreatedAt missing))))"

fun cross_moves :: "'h mt_env \<Rightarrow> track list \<Rightarrow> mt_state \<Rightarrow> mt_state" where
  "cross_moves env [] st = st"
| "cross_moves env (missing # rest) st =
     (case findCrossLibraryMatch env missing (p_files st) of
        Inl _ \<Rightarrow> cross_moves env rest st
      | Inr found \<Rightarrow>
          (case with_id found of
             None \<Rightarrow> cross_moves env rest st
           | Some t \<Rightarrow>
               (case moveMatched env t missing st of
                  (Some _, st') \<Rightarrow> cross_moves env rest st'
                | (None, st') \<Rightarrow> cross_moves env rest (st'\<lparr>p_totalMatched := p_totalMatched st' + 1\<rparr>))))"

definition processCrossLibraryMoves :: "'h mt_env \<Rightarrow> nat \<Rightarrow> missingTracks option \<Rightarrow> mt_state \<Rightarrow> mt_state" where
  "processCrossLibraryMoves env totalLibraryCount in_group st =
     (case in_group of
        None \<Rightarrow> st
      | Some g \<Rightarrow> if totalLibraryCount = 1 then st else cross_moves env (g_missing g) st)"

text \<open>The stages on one group after the other; an error ends the pipeline.\<close>

fun run_stages :: "'h mt_env \<Rightarrow> nat \<Rightarrow> missingTracks list \<Rightarrow> mt_state \<Rightarrow> tx_error option \<times> mt_state" where
  "run_stages env n [] st = (None, st)"
| "run_stages env n (g # gs) st =
     (case processMissingTracks env g st of
        (Inl err, st') \<Rightarrow> (Some err, st')
      | (Inr out, st') \<Rightarrow> run_stages env n gs (processCrossLibraryMoves env n out st'))"

subsection \<open>The end of the phase\<close>

datatype purge_option = PurgeMissingNever | PurgeMissingAlways | PurgeMissingFull

definition purgeMissing :: "bool \<Rightarrow> mt_state \<Rightarrow> bool \<times> mt_state" where
  "purgeMissing fails st =
     (if fails then (False, st)
      else let deleted = filter t_Missing (p_files st) in
        (True, st\<lparr>p_files := filter (\<lambda>t. \<not> t_Missing t) (p_files st),
                  p_changesDetected := (p_changesDetected st \<or> deleted \<noteq> [])\<rparr>))"

text \<open>Whether the phase ends without error.\<close>

definition finalize :: "purge_option \<Rightarrow> bool \<Rightarrow> bool \<Rightarrow> bool \<Rightarrow> mt_state \<Rightarrow> bool \<times> mt_state" where
  "finalize purge fullScan purge_fails failed st =
     (if failed then (False, st)
      else if purge = PurgeMissingAlways \<or> (purge = PurgeMissingFull \<and> fullScan) then purgeMissing purge_fails st
      else (True, st))"

definition run_phase :: "'h mt_env \<Rightarrow> mt_library list \<Rightarrow> (int \<Rightarrow> nat option) \<Rightarrow> int list \<Rightarrow> purge_option \<Rightarrow> bool \<Rightarrow> bool \<Rightarrow> mt_state \<Rightarrow> bool \<times> mt_state" where
  "run_phase env libs load libraries purge fullScan purge_fails st =
     (case produce libs (p_files st) load libraries of
        (groups, loaded) \<Rightarrow>
          (case run_stages env (length libs) groups st of
             (err, st') \<Rightarrow> finalize purge fullScan purge_fails (err \<noteq> None \<or> \<not> loaded) st'))"

section \<open>Properties\<close>

subsection \<open>One move\<close>

text \<open>A file without the identity of its row, and the files that are present.\<close>

definition file_of :: "track \<Rightarrow> track" where
  "file_of t = t\<lparr>t_ID := [], t_CreatedAt := 0\<rparr>"

definition present :: "track list \<Rightarrow> track multiset" where
  "present files = image_mset file_of (filter_mset (\<lambda>t. \<not> t_Missing t) (mset files))"

text \<open>
  The table reached from \<open>files0\<close> when the tracks with the ids \<open>used\<close> were taken over by the missing tracks with the
  ids \<open>filled\<close>.
\<close>

definition moved_from :: "track list \<Rightarrow> string set \<Rightarrow> string set \<Rightarrow> track list \<Rightarrow> nat \<Rightarrow> bool" where
  "moved_from files0 used filled files n \<longleftrightarrow>
     distinct (map t_ID files) \<and> present files = present files0 \<and> length files0 = length files + n \<and>
     t_ID ` set files = t_ID ` set files0 - used \<and>
     used \<subseteq> t_ID ` {t \<in> set files0. \<not> t_Missing t} \<and> filled \<subseteq> t_ID ` {t \<in> set files0. t_Missing t} \<and>
     (\<forall>t \<in> set files0. t_ID t \<notin> used \<union> filled \<longrightarrow> t \<in> set files) \<and>
     (\<forall>t \<in> set files. t \<in> set files0 \<or>
        (\<exists>m \<in> set files0. t_Missing m \<and> t_ID t = t_ID m \<and> t_ID m \<in> filled \<and> t_CreatedAt t = t_CreatedAt m \<and> \<not> t_Missing t))"

lemma moved_from_start: "distinct (map t_ID files) \<Longrightarrow> moved_from files {} {} files 0"
  by (simp add: moved_from_def)

lemma filter_one_id:
  "distinct (map t_ID files) \<Longrightarrow> x \<in> set files \<Longrightarrow> filter (\<lambda>t. t_ID t = t_ID x) files = [x]"
proof (induction files)
  case (Cons a files)
  have "filter (\<lambda>t. t_ID t = t_ID a) files = []" using Cons.prems(1) by (auto simp: filter_empty_conv image_iff)
  then show ?case using Cons by (auto simp: image_iff)
qed simp

lemma unique_id: "distinct (map t_ID files) \<Longrightarrow> x \<in> set files \<Longrightarrow> y \<in> set files \<Longrightarrow> t_ID x = t_ID y \<Longrightarrow> x = y"
  by (metis distinct_map inj_on_def)

definition moved_row :: "track \<Rightarrow> track \<Rightarrow> track" where
  "moved_row target missing = target\<lparr>t_ID := t_ID missing, t_CreatedAt := t_CreatedAt missing\<rparr>"

definition moved_files :: "track \<Rightarrow> track \<Rightarrow> track list \<Rightarrow> track list" where
  "moved_files target missing files =
     delete_track (t_ID target) (put_track (target\<lparr>t_CreatedAt := t_CreatedAt missing, t_ID := t_ID missing\<rparr>) files)"

lemma moved_files_map:
  assumes "distinct (map t_ID files)" and "missing \<in> set files" and "t_ID target \<noteq> t_ID missing"
  shows "moved_files target missing files =
    map (\<lambda>t. if t_ID t = t_ID missing then moved_row target missing else t) (filter (\<lambda>t. t_ID t \<noteq> t_ID target) files)"
proof -
  let ?f = "\<lambda>t. if t_ID t = t_ID missing then (moved_row target missing)\<lparr>t_CreatedAt := t_CreatedAt t\<rparr> else t"
  have "delete_track (t_ID target) (map ?f files) = map ?f (filter (\<lambda>t. t_ID t \<noteq> t_ID target) files)"
    using assms(3) by (induction files) (auto simp: delete_track_def moved_row_def)
  moreover have "moved_files target missing files = delete_track (t_ID target) (map ?f files)"
    using assms(2) by (auto simp: moved_files_def put_track_def moved_row_def intro!: arg_cong [where f = "delete_track _"])
  moreover have "?f t = (if t_ID t = t_ID missing then moved_row target missing else t)" if "t \<in> set files" for t
    using unique_id [OF assms(1) that assms(2)] by (auto simp: moved_row_def)
  ultimately show ?thesis by simp
qed

lemma mset_split_id:
  assumes "distinct (map t_ID files)" and "x \<in> set files"
  shows "mset files = add_mset x (mset (filter (\<lambda>t. t_ID t \<noteq> t_ID x) files))"
proof -
  have "mset files = mset (filter (\<lambda>t. t_ID t = t_ID x) files) + mset (filter (\<lambda>t. t_ID t \<noteq> t_ID x) files)"
    using multiset_partition [of "mset files" "\<lambda>t. t_ID t = t_ID x"] by simp
  then show ?thesis unfolding filter_one_id [OF assms] by simp
qed

definition other_rows :: "track \<Rightarrow> track \<Rightarrow> track list \<Rightarrow> track list" where
  "other_rows target missing files = filter (\<lambda>t. t_ID t \<noteq> t_ID missing) (filter (\<lambda>t. t_ID t \<noteq> t_ID target) files)"

lemma moved_files_mset:
  assumes "distinct (map t_ID files)" and "target \<in> set files" and "missing \<in> set files" and "t_ID target \<noteq> t_ID missing"
  shows "mset files = {#target, missing#} + mset (other_rows target missing files)"
    and "mset (moved_files target missing files) = add_mset (moved_row target missing) (mset (other_rows target missing files))"
proof -
  let ?up = "\<lambda>t. if t_ID t = t_ID missing then moved_row target missing else t"
  let ?rest = "mset (other_rows target missing files)"
  have rest: "mset (filter (\<lambda>t. t_ID t \<noteq> t_ID target) files) = add_mset missing ?rest"
    unfolding other_rows_def using assms by (intro mset_split_id) (auto simp: distinct_map_filter)
  show "mset files = {#target, missing#} + ?rest"
    using trans [OF mset_split_id [OF assms(1,2)] arg_cong [OF rest, of "add_mset target"]] by simp
  have same: "image_mset ?up ?rest = ?rest"
    by (rule multiset.map_ident_strong) (auto simp: other_rows_def)
  have "mset (moved_files target missing files) = image_mset ?up (add_mset missing ?rest)"
    by (simp only: moved_files_map [OF assms(1,3,4)] mset_map rest)
  then show "mset (moved_files target missing files) = add_mset (moved_row target missing) ?rest" by (simp only: image_mset_add_mset same) simp
qed

lemma moved_from_step:
  assumes inv: "moved_from files0 used filled files n" and ids: "distinct (map t_ID files0)"
    and target: "target \<in> set files0" "\<not> t_Missing target" "t_ID target \<notin> used"
    and missing: "missing \<in> set files0" "t_Missing missing" "t_ID missing \<notin> filled"
  shows "moved_from files0 (insert (t_ID target) used) (insert (t_ID missing) filled) (moved_files target missing files) (Suc n)"
proof -
  have differ: "t_ID target \<noteq> t_ID missing" using unique_id [OF ids target(1) missing(1)] target(2) missing(2) by auto
  have used: "used \<subseteq> t_ID ` {t \<in> set files0. \<not> t_Missing t}" and filled: "filled \<subseteq> t_ID ` {t \<in> set files0. t_Missing t}"
    and kept: "\<And>t. t \<in> set files0 \<Longrightarrow> t_ID t \<notin> used \<Longrightarrow> t_ID t \<notin> filled \<Longrightarrow> t \<in> set files"
    and d: "distinct (map t_ID files)" and same: "present files = present files0" and len: "length files0 = length files + n"
    and ids_now: "t_ID ` set files = t_ID ` set files0 - used"
    and rows: "\<And>t. t \<in> set files \<Longrightarrow> t \<in> set files0 \<or>
        (\<exists>m \<in> set files0. t_Missing m \<and> t_ID t = t_ID m \<and> t_ID m \<in> filled \<and> t_CreatedAt t = t_CreatedAt m \<and> \<not> t_Missing t)"
    using inv by (simp_all add: moved_from_def)
  have "t_ID target \<notin> filled"
  proof
    assume "t_ID target \<in> filled"
    then obtain t where "t \<in> set files0" "t_Missing t" "t_ID t = t_ID target" using filled by auto
    then show False using unique_id [OF ids _ target(1)] target(2) by blast
  qed
  then have in_target: "target \<in> set files" using kept target by blast
  have "t_ID missing \<notin> used"
  proof
    assume "t_ID missing \<in> used"
    then obtain t where "t \<in> set files0" "\<not> t_Missing t" "t_ID t = t_ID missing" using used by auto
    then show False using unique_id [OF ids _ missing(1)] missing(2) by blast
  qed
  then have in_missing: "missing \<in> set files" using kept missing by blast
  note before = moved_files_mset(1) [OF d in_target in_missing differ] and after = moved_files_mset(2) [OF d in_target in_missing differ]
  let ?files = "moved_files target missing files" and ?others = "other_rows target missing files" and ?row = "moved_row target missing"
  have others: "t \<in> set ?others \<longleftrightarrow> t \<in> set files \<and> t_ID t \<noteq> t_ID target \<and> t_ID t \<noteq> t_ID missing" for t
    by (auto simp: other_rows_def)
  have set_after: "set ?files = insert ?row (set ?others)" using arg_cong [OF after, of set_mset] by simp
  have row: "t_ID ?row = t_ID missing" "t_CreatedAt ?row = t_CreatedAt missing" "\<not> t_Missing ?row" "file_of ?row = file_of target"
    using target(2) by (simp_all add: moved_row_def file_of_def)
  show ?thesis
    unfolding moved_from_def
  proof (intro conjI)
    show "distinct (map t_ID ?files)"
      using d differ unfolding moved_files_map [OF d in_missing differ]
      by (auto simp: distinct_map inj_on_def row(1) distinct_filter)
    have "present ?files = present files"
      unfolding present_def before after using target(2) missing(2) row by simp
    then show "present ?files = present files0" using same by simp
    show "length files0 = length ?files + Suc n"
      using arg_cong [OF before, of size] arg_cong [OF after, of size] len by simp
    show "t_ID ` set ?files = t_ID ` set files0 - insert (t_ID target) used"
    proof -
      have "t_ID ` set ?files = t_ID ` set files - {t_ID target}"
        using differ in_missing unfolding set_after by (auto simp: others row(1)) 
      then show ?thesis using ids_now by auto
    qed
    show "insert (t_ID target) used \<subseteq> t_ID ` {t \<in> set files0. \<not> t_Missing t}" using used target by auto
    show "insert (t_ID missing) filled \<subseteq> t_ID ` {t \<in> set files0. t_Missing t}" using filled missing by auto
    show "\<forall>t \<in> set files0. t_ID t \<notin> insert (t_ID target) used \<union> insert (t_ID missing) filled \<longrightarrow> t \<in> set ?files"
      using kept by (auto simp: set_after others)
    show "\<forall>t \<in> set ?files. t \<in> set files0 \<or> (\<exists>m \<in> set files0. t_Missing m \<and> t_ID t = t_ID m \<and>
        t_ID m \<in> insert (t_ID missing) filled \<and> t_CreatedAt t = t_CreatedAt m \<and> \<not> t_Missing t)"
      using rows row missing by (auto simp: set_after others) blast+
  qed
qed

subsection \<open>One library\<close>

lemma moveMatched_files:
  "p_files (snd (moveMatched env target missing st)) =
     (if fst (moveMatched env target missing st) = None then moved_files target missing (p_files st) else p_files st)"
  "p_totalMatched (snd (moveMatched env target missing st)) = p_totalMatched st"
  by (simp_all add: moveMatched_def moved_files_def Let_def split: option.split)

lemma best_match_unused:
  assumes "best_match env ms used ts eq = (ex, eq')"
  shows "(\<forall>t. ex = Some t \<longrightarrow> t \<in> set ts \<and> t_ID t \<notin> used \<and> Equals env ms t) \<and>
    (\<forall>t. eq' = Some t \<longrightarrow> eq = Some t \<or> t \<in> set ts \<and> t_ID t \<notin> used \<and> IsEquivalent ms t)"
  using assms
proof (induction ts arbitrary: eq)
  case (Cons u rest)
  let ?eq = "if IsEquivalent ms u then Some u else eq"
  consider "t_ID u \<in> used" | "t_ID u \<notin> used" "Equals env ms u" | "t_ID u \<notin> used" "\<not> Equals env ms u" by blast
  then show ?case
  proof cases
    case 1
    then have "best_match env ms used rest eq = (ex, eq')" using Cons.prems by simp
    from Cons.IH [OF this] show ?thesis by auto
  next
    case 2
    then have "ex = Some u" "eq' = eq" using Cons.prems by simp_all
    then show ?thesis using 2 by simp
  next
    case 3
    then have "best_match env ms used rest ?eq = (ex, eq')" using Cons.prems by simp
    from Cons.IH [OF this] show ?thesis using 3 by (cases "IsEquivalent ms u") force+
  qed
qed simp

lemma with_id_Some: "with_id m = Some t \<Longrightarrow> m = Some t"
  by (auto simp: with_id_def split: option.splits if_splits)

lemma choose_match_unused:
  assumes "choose_match env g used ms = Some t" shows "t \<in> set (g_matched g) \<and> t_ID t \<notin> used"
proof -
  obtain ex eq where b: "best_match env ms used (g_matched g) None = (ex, eq)" by (cases "best_match env ms used (g_matched g) None")
  note unused = best_match_unused [OF b]
  show ?thesis
  proof (cases "with_id ex")
    case (Some u)
    then show ?thesis using assms unused with_id_Some [OF Some] by (simp add: choose_match_def b)
  next
    case None
    show ?thesis
    proof (cases "length (g_missing g) = 1 \<and> length (g_matched g) = 1 \<and> t_ID (g_matched g ! 0) \<notin> used")
      case True
      then show ?thesis using assms None by (auto simp: choose_match_def b)
    next
      case False
      then have "with_id eq = Some t" using assms None by (simp add: choose_match_def b split: if_splits)
      then show ?thesis using unused with_id_Some by blast
    qed
  qed
qed

text \<open>The table and the counter after some moves.\<close>

definition phase_inv :: "track list \<Rightarrow> 32 word \<Rightarrow> string set \<Rightarrow> string set \<Rightarrow> mt_state \<Rightarrow> bool" where
  "phase_inv files0 k0 used filled st \<longleftrightarrow>
     moved_from files0 used filled (p_files st) (card used) \<and> p_totalMatched st = k0 + of_nat (card used)"

lemma phase_inv_step:
  assumes "phase_inv files0 k0 used filled st" and "distinct (map t_ID files0)"
    and "target \<in> set files0" "\<not> t_Missing target" "t_ID target \<notin> used"
    and "missing \<in> set files0" "t_Missing missing" "t_ID missing \<notin> filled"
    and "moveMatched env target missing st = (None, st')"
  shows "phase_inv files0 k0 (insert (t_ID target) used) (insert (t_ID missing) filled)
    (st'\<lparr>p_totalMatched := p_totalMatched st' + 1\<rparr>)"
proof -
  have "finite used" using assms(1) finite_subset by (fastforce simp: phase_inv_def moved_from_def)
  then show ?thesis
    using moved_from_step [of files0 used filled "p_files st" "card used" target missing] moveMatched_files [of env target missing st] assms
    by (simp add: phase_inv_def)
qed

lemma phase_inv_failed:
  assumes "phase_inv files0 k0 used filled st" and "moveMatched env target missing st = (Some err, st')"
  shows "phase_inv files0 k0 used filled st'"
  using assms moveMatched_files [of env target missing st] by (simp add: phase_inv_def)

lemma process_missing_inv:
  assumes "distinct (map t_ID files0)" and "phase_inv files0 k0 used filled st"
    and "list_all (\<lambda>m. m \<in> set files0 \<and> t_Missing m \<and> t_ID m \<notin> filled) ms" and "distinct (map t_ID ms)"
    and "list_all (\<lambda>t. t \<in> set files0 \<and> \<not> t_Missing t \<and> (t_ID t \<in> used \<longrightarrow> t_ID t \<in> usedM)) (g_matched g)"
    and "process_missing env g ms usedM has st = (res, st')"
  shows "\<exists>used' filled'. phase_inv files0 k0 used' filled' st' \<and>
    used' \<subseteq> used \<union> t_ID ` set (g_matched g) \<and> filled' \<subseteq> filled \<union> t_ID ` set ms"
  using assms(2-)
proof (induction ms arbitrary: used filled usedM has st)
  case Nil
  then show ?case by auto
next
  case (Cons ms rest)
  have rest: "list_all (\<lambda>m. m \<in> set files0 \<and> t_Missing m \<and> t_ID m \<notin> filled) rest" "distinct (map t_ID rest)"
    using Cons.prems(2,3) by simp_all
  show ?case
  proof (cases "choose_match env g usedM ms")
    case None
    then have "process_missing env g rest usedM has st = (res, st')" using Cons.prems(5) by simp
    then obtain used' filled' where "phase_inv files0 k0 used' filled' st'"
      "used' \<subseteq> used \<union> t_ID ` set (g_matched g)" "filled' \<subseteq> filled \<union> t_ID ` set rest"
      using Cons.IH [OF Cons.prems(1) rest Cons.prems(4)] by blast
    then show ?thesis by (intro exI [of _ used'] exI [of _ filled']) auto
  next
    case (Some t)
    then have t: "t \<in> set (g_matched g)" "t_ID t \<notin> usedM" using choose_match_unused by blast+
    then have row: "t \<in> set files0" "\<not> t_Missing t" "t_ID t \<notin> used" using Cons.prems(4) by (auto simp: list_all_iff)
    obtain r st1 where mv: "moveMatched env t ms st = (r, st1)" by (cases "moveMatched env t ms st")
    show ?thesis
    proof (cases r)
      case err: (Some err)
      then have "phase_inv files0 k0 used filled st'" using Cons.prems(5) Some mv phase_inv_failed [OF Cons.prems(1)] by simp
      then show ?thesis by (intro exI [of _ used] exI [of _ filled]) auto
    next
      case None
      let ?st = "st1\<lparr>p_totalMatched := p_totalMatched st1 + 1\<rparr>"
      have inv: "phase_inv files0 k0 (insert (t_ID t) used) (insert (t_ID ms) filled) ?st"
        using Cons.prems(2) mv None by (intro phase_inv_step [OF Cons.prems(1) assms(1) row]) simp_all
      have "list_all (\<lambda>m. m \<in> set files0 \<and> t_Missing m \<and> t_ID m \<notin> insert (t_ID ms) filled) rest"
        using rest(1) Cons.prems(3) by (auto simp: list_all_iff image_iff)
      moreover have "list_all (\<lambda>u. u \<in> set files0 \<and> \<not> t_Missing u \<and> (t_ID u \<in> insert (t_ID t) used \<longrightarrow> t_ID u \<in> insert (t_ID t) usedM)) (g_matched g)"
        using Cons.prems(4) by (auto simp: list_all_iff)
      moreover have "process_missing env g rest (insert (t_ID t) usedM) True ?st = (res, st')"
        using Cons.prems(5) Some mv None by simp
      ultimately obtain used' filled' where "phase_inv files0 k0 used' filled' st'"
        "used' \<subseteq> insert (t_ID t) used \<union> t_ID ` set (g_matched g)" "filled' \<subseteq> insert (t_ID ms) filled \<union> t_ID ` set rest"
        using Cons.IH [OF inv _ rest(2)] by blast
      then show ?thesis using t(1) by (intro exI [of _ used'] exI [of _ filled']) auto
    qed
  qed
qed

text \<open>Groups of rows of the table, no row in two of them.\<close>

definition groups_ok :: "track list \<Rightarrow> missingTracks list \<Rightarrow> bool" where
  "groups_ok files gs \<longleftrightarrow>
     distinct (map t_ID (concat (map g_missing gs))) \<and> distinct (map t_ID (concat (map g_matched gs))) \<and>
     (\<forall>g \<in> set gs. (\<forall>m \<in> set (g_missing g). m \<in> set files \<and> t_Missing m) \<and> (\<forall>t \<in> set (g_matched g). t \<in> set files \<and> \<not> t_Missing t))"

lemma disjoint_mono: "A \<subseteq> B \<union> C \<Longrightarrow> B \<inter> (C \<union> D) = {} \<Longrightarrow> C \<inter> D = {} \<Longrightarrow> A \<inter> D = {}"
  by blast

lemma run_stages_inv:
  assumes "distinct (map t_ID files0)" and "phase_inv files0 k0 used filled st" and "groups_ok files0 gs"
    and "filled \<inter> t_ID ` set (concat (map g_missing gs)) = {}" and "used \<inter> t_ID ` set (concat (map g_matched gs)) = {}"
    and "run_stages env 1 gs st = (res, st')"
  shows "\<exists>used' filled'. phase_inv files0 k0 used' filled' st'"
  using assms(2-)
proof (induction gs arbitrary: used filled st)
  case (Cons g gs)
  obtain out st1 where p: "process_missing env g (g_missing g) {} False st = (out, st1)"
    by (cases "process_missing env g (g_missing g) {} False st")
  have g: "list_all (\<lambda>m. m \<in> set files0 \<and> t_Missing m \<and> t_ID m \<notin> filled) (g_missing g)" "distinct (map t_ID (g_missing g))"
    "list_all (\<lambda>t. t \<in> set files0 \<and> \<not> t_Missing t \<and> (t_ID t \<in> used \<longrightarrow> t_ID t \<in> {})) (g_matched g)"
    using Cons.prems(2,3,4) by (auto simp: groups_ok_def list_all_iff)
  obtain used1 filled1 where inv: "phase_inv files0 k0 used1 filled1 st1"
    "used1 \<subseteq> used \<union> t_ID ` set (g_matched g)" "filled1 \<subseteq> filled \<union> t_ID ` set (g_missing g)"
    using process_missing_inv [OF assms(1) Cons.prems(1) g p] by blast
  show ?case
  proof (cases out)
    case (Inl err)
    then show ?thesis using Cons.prems(5) p inv(1) by (auto simp: processMissingTracks_def)
  next
    case (Inr has)
    then have run: "run_stages env 1 gs st1 = (res, st')"
      using Cons.prems(5) p by (simp add: processMissingTracks_def processCrossLibraryMoves_def split: option.splits if_splits)
    have others: "t_ID ` set (g_missing g) \<inter> t_ID ` set (concat (map g_missing gs)) = {}"
      "t_ID ` set (g_matched g) \<inter> t_ID ` set (concat (map g_matched gs)) = {}"
      using Cons.prems(2) by (simp_all add: groups_ok_def)
    have "groups_ok files0 gs" using Cons.prems(2) by (simp add: groups_ok_def)
    moreover have "filled1 \<inter> t_ID ` set (concat (map g_missing gs)) = {}" "used1 \<inter> t_ID ` set (concat (map g_matched gs)) = {}"
      using Cons.prems(3,4) disjoint_mono [OF inv(3) _ others(1)] disjoint_mono [OF inv(2) _ others(2)] by (simp_all add: image_Un)
    ultimately show ?thesis using Cons.IH [OF inv(1) _ _ _ run] by blast
  qed
qed auto

lemma putIfMatched_rows:
  "subseq (concat (map g_missing (putIfMatched mt))) (g_missing mt)" "subseq (concat (map g_matched (putIfMatched mt))) (g_matched mt)"
  by (simp_all add: putIfMatched_def)

lemma group_cursor_rows:
  "subseq (concat (map g_missing (group_cursor fails c mt))) (g_missing mt @ filter t_Missing c) \<and>
   subseq (concat (map g_matched (group_cursor fails c mt))) (g_matched mt @ filter (\<lambda>t. \<not> t_Missing t) c)"
proof (induction c arbitrary: mt)
  case (Cons t c)
  let ?add = "\<lambda>mt. if t_Missing t then mt\<lparr>g_missing := g_missing mt @ [t]\<rparr> else mt\<lparr>g_matched := g_matched mt @ [t]\<rparr>"
  show ?case
  proof (cases "g_pid mt \<noteq> t_PID t")
    case True
    let ?mt = "mt\<lparr>g_pid := t_PID t, g_missing := [], g_matched := []\<rparr>"
    have "subseq (concat (map g_missing (group_cursor fails c (?add ?mt)))) (filter t_Missing (t # c))"
      "subseq (concat (map g_matched (group_cursor fails c (?add ?mt)))) (filter (\<lambda>t. \<not> t_Missing t) (t # c))"
      using Cons.IH [of "?add ?mt"] by (auto split: if_splits)
    then show ?thesis
      using True putIfMatched_rows [of mt] by (simp add: Let_def list_emb_append_mono del: filter.simps)
  next
    case False
    then show ?thesis using Cons.IH [of "?add mt"] by (auto simp: Let_def)
  qed
qed (simp add: putIfMatched_def)

lemma subseq_set: "subseq xs ys \<Longrightarrow> set xs \<subseteq> set ys"
  by (induction rule: list_emb.induct) auto

lemma distinct_subseq_ids: "subseq xs ys \<Longrightarrow> distinct (map f ys) \<Longrightarrow> distinct (map f xs)"
proof (induction rule: list_emb.induct)
  case (list_emb_Cons2 x y xs ys)
  then show ?case using subseq_set [of xs ys] by auto
qed simp_all

lemma group_cursor_ok:
  assumes "distinct (map t_ID files)"
  shows "groups_ok files (group_cursor fails (take n (GetMissingAndMatching libs files l)) \<lparr>g_lib = l, g_pid = [], g_missing = [], g_matched = []\<rparr>)"
proof -
  let ?c = "take n (GetMissingAndMatching libs files l)" and ?mt = "\<lparr>g_lib = l, g_pid = [], g_missing = [], g_matched = []\<rparr>"
  have c: "distinct (map t_ID ?c)" "set ?c \<subseteq> set files"
    using assms by (auto simp: GetMissingAndMatching_def take_map [symmetric] distinct_map inj_on_def dest: in_set_takeD)
  note sub = group_cursor_rows [of fails ?c ?mt, simplified]
  have "distinct (map t_ID (filter P ?c))" for P using c(1) by (simp add: distinct_map_filter)
  then have d: "distinct (map t_ID (concat (map g_missing (group_cursor fails ?c ?mt))))" "distinct (map t_ID (concat (map g_matched (group_cursor fails ?c ?mt))))"
    using sub distinct_subseq_ids by blast+
  have "set (concat (map g_missing (group_cursor fails ?c ?mt))) \<subseteq> {t \<in> set files. t_Missing t}"
    "set (concat (map g_matched (group_cursor fails ?c ?mt))) \<subseteq> {t \<in> set files. \<not> t_Missing t}"
    using subseq_set [OF conjunct1 [OF sub]] subseq_set [OF conjunct2 [OF sub]] c(2) by auto
  then show ?thesis using d by (auto simp: groups_ok_def)
qed

lemma produce_ok:
  assumes "distinct (map t_ID files)" shows "groups_ok files (fst (produce libs files load [l]))"
  using group_cursor_ok [OF assms, of True _ libs l]
    group_cursor_ok [OF assms, of False "length (GetMissingAndMatching libs files l)" libs l]
  by (cases "load l") (simp_all add: Let_def)

lemma moved_from_missing_kept:
  assumes "moved_from files0 used filled files n" and "distinct (map t_ID files0)" and "m \<in> set files0" and "t_Missing m"
  shows "\<exists>t \<in> set files. t_ID t = t_ID m \<and> t_CreatedAt t = t_CreatedAt m \<and> (t = m \<or> \<not> t_Missing t)"
proof -
  have used: "used \<subseteq> t_ID ` {t \<in> set files0. \<not> t_Missing t}" and ids: "t_ID ` set files = t_ID ` set files0 - used"
    and rows: "\<And>t. t \<in> set files \<Longrightarrow> t \<in> set files0 \<or>
        (\<exists>m \<in> set files0. t_Missing m \<and> t_ID t = t_ID m \<and> t_ID m \<in> filled \<and> t_CreatedAt t = t_CreatedAt m \<and> \<not> t_Missing t)"
    using assms(1) by (simp_all add: moved_from_def)
  have "t_ID m \<notin> used"
  proof
    assume "t_ID m \<in> used"
    then obtain u where "u \<in> set files0" "\<not> t_Missing u" "t_ID u = t_ID m" using used by auto
    then show False using unique_id [OF assms(2) _ assms(3)] assms(4) by blast
  qed
  then obtain t where t: "t \<in> set files" "t_ID t = t_ID m" using ids assms(3) by (metis DiffI image_eqI image_iff)
  from rows [OF t(1)] show ?thesis
  proof
    assume "t \<in> set files0"
    then have "t = m" using unique_id [OF assms(2) _ assms(3)] t(2) by blast
    then show ?thesis using t(1) by blast
  next
    assume "\<exists>m \<in> set files0. t_Missing m \<and> t_ID t = t_ID m \<and> t_ID m \<in> filled \<and> t_CreatedAt t = t_CreatedAt m \<and> \<not> t_Missing t"
    then obtain u where "u \<in> set files0" "t_ID t = t_ID u" "t_CreatedAt t = t_CreatedAt u" "\<not> t_Missing t" by blast
    moreover have "u = m" using unique_id [OF assms(2) \<open>u \<in> set files0\<close> assms(3)] \<open>t_ID t = t_ID u\<close> t(2) by simp
    ultimately show ?thesis using t by blast
  qed
qed

text \<open>
  C7 (safety): Within one library the search for moved files neither loses nor duplicates a file: the files that are
  present, with their paths and all their data, are the same before and after, ids stay unique, every missing track keeps
  its id and its creation time and is either still missing or has become one of these files, and the counter has grown by
  the number of rows that were merged. This holds also when the query or a transaction fails and the phase ends early.
\<close>

theorem missing_phase_safe:
  assumes "distinct (map t_ID (p_files st))" and "run_stages env 1 (fst (produce libs (p_files st) load [l])) st = (res, st')"
  shows "distinct (map t_ID (p_files st')) \<and> present (p_files st') = present (p_files st) \<and>
    (\<forall>m \<in> set (p_files st). t_Missing m \<longrightarrow>
       (\<exists>t \<in> set (p_files st'). t_ID t = t_ID m \<and> t_CreatedAt t = t_CreatedAt m \<and> (t = m \<or> \<not> t_Missing t))) \<and>
    p_totalMatched st' = p_totalMatched st + of_nat (length (p_files st) - length (p_files st'))"
proof -
  have "phase_inv (p_files st) (p_totalMatched st) {} {} st" by (simp add: phase_inv_def moved_from_start [OF assms(1)])
  then obtain used filled where inv: "phase_inv (p_files st) (p_totalMatched st) used filled st'"
    using run_stages_inv [OF assms(1) _ produce_ok [OF assms(1)] _ _ assms(2)] by blast
  then have m: "moved_from (p_files st) used filled (p_files st') (card used)" by (simp add: phase_inv_def)
  moreover have "length (p_files st) - length (p_files st') = card used" using m by (simp add: moved_from_def)
  ultimately show ?thesis
    using moved_from_missing_kept [OF m assms(1)] inv by (simp add: phase_inv_def moved_from_def)
qed

definition ex_track :: "string \<Rightarrow> string \<Rightarrow> int \<Rightarrow> string \<Rightarrow> int \<Rightarrow> bool \<Rightarrow> track" where
  "ex_track i pid lib path created missing = \<lparr>t_ID = i, t_PID = pid, t_LibraryID = lib, t_Path = path, t_AlbumID = ''al'',
     t_Title = ''t'', t_Album = ''a'', t_Size = 7, t_Suffix = ''mp3'', t_DiscNumber = 1, t_TrackNumber = 1,
     t_MbzReleaseTrackID = [], t_CreatedAt = created, t_Missing = missing\<rparr>"

definition ex_mt_env :: "unit mt_env" where
  "ex_mt_env = \<lparr>env_hash = (\<lambda>_. ()), env_tx = (\<lambda>_ _. None), env_reassign = (\<lambda>_ _. True), env_copy = (\<lambda>_ _. True),
     env_find_fail = (\<lambda>_ _. False)\<rparr>"

definition ex_mt_state :: "track list \<Rightarrow> mt_state" where
  "ex_mt_state files = \<lparr>p_files = files, p_reassigned = [], p_copied = [], p_processed = {}, p_totalMatched = 0, p_changesDetected = False\<rparr>"

lemmas mt_eval = ex_track_def ex_mt_env_def ex_mt_state_def GetMissingAndMatching_def putIfMatched_def
  processMissingTracks_def processCrossLibraryMoves_def choose_match_def with_id_def Equals_def IsEquivalent_def
  moveMatched_def put_track_def delete_track_def findCrossLibraryMatch_def pick_recent_def
  FindRecentFilesByProperties_def FindRecentFilesByMBZTrackID_def

theorem missing_phase_safe_witness:
  "run_stages ex_mt_env 1 (fst (produce [\<lparr>lib_ID = 1, lib_LastScanStartedAt = 8\<rparr>]
      [ex_track ''m'' ''p'' 1 ''/old'' 5 True, ex_track ''n'' ''p'' 1 ''/new'' 9 False] (\<lambda>_. None) [1]))
      (ex_mt_state [ex_track ''m'' ''p'' 1 ''/old'' 5 True, ex_track ''n'' ''p'' 1 ''/new'' 9 False])
     = (None, (ex_mt_state [ex_track ''m'' ''p'' 1 ''/new'' 5 False])\<lparr>p_totalMatched := 1, p_changesDetected := True\<rparr>) \<and>
   present [ex_track ''m'' ''p'' 1 ''/new'' 5 False] = present [ex_track ''m'' ''p'' 1 ''/old'' 5 True, ex_track ''n'' ''p'' 1 ''/new'' 9 False]"
proof -
  let ?files = "[ex_track ''m'' ''p'' 1 ''/old'' 5 True, ex_track ''n'' ''p'' 1 ''/new'' 9 False]"
  have run: "run_stages ex_mt_env 1 (fst (produce [\<lparr>lib_ID = 1, lib_LastScanStartedAt = 8\<rparr>] ?files (\<lambda>_. None) [1])) (ex_mt_state ?files)
     = (None, (ex_mt_state [ex_track ''m'' ''p'' 1 ''/new'' 5 False])\<lparr>p_totalMatched := 1, p_changesDetected := True\<rparr>)"
    by (simp add: mt_eval)
  moreover have "distinct (map t_ID (p_files (ex_mt_state ?files)))" by (simp add: ex_mt_state_def ex_track_def)
  ultimately show ?thesis
    using missing_phase_safe [of "ex_mt_state ?files" ex_mt_env "[\<lparr>lib_ID = 1, lib_LastScanStartedAt = 8\<rparr>]" "\<lambda>_. None" 1]
    by (auto simp: ex_mt_state_def)
qed

text \<open>A move that fails leaves everything as it was, also the claim on the annotations of the album.\<close>

lemma moveMatched_failed:
  assumes "moveMatched env target missing st = (Some err, st')" shows "st' = st"
  using assms by (auto simp: moveMatched_def Let_def insert_absorb split: option.splits if_splits)

text \<open>The annotations of an album are reassigned to another one at most once.\<close>

lemma moveMatched_annotations:
  assumes "distinct (map snd (p_reassigned st))" and "snd ` set (p_reassigned st) \<subseteq> p_processed st"
    and "moveMatched env target missing st = (res, st')"
  shows "distinct (map snd (p_reassigned st')) \<and> snd ` set (p_reassigned st') \<subseteq> p_processed st'"
proof (cases res)
  case (Some err)
  then show ?thesis using moveMatched_failed assms by blast
next
  case None
  let ?old = "t_AlbumID missing" and ?new = "t_AlbumID target" and ?out = "snd (moveMatched env target missing st)"
  have "fst (moveMatched env target missing st) = None" using None assms(3) by simp
  then have "p_reassigned ?out = p_reassigned st @
      (if ?old \<noteq> ?new \<and> ?new \<notin> p_processed st \<and> env_reassign env ?old ?new then [(?old, ?new)] else []) \<and>
    p_processed ?out = (if ?old \<noteq> ?new then insert ?new (p_processed st) else p_processed st)"
    by (simp add: moveMatched_def Let_def split: option.splits)
  moreover have "st' = ?out" using assms(3) by simp
  ultimately show ?thesis using assms(1,2) by (auto simp del: split_paired_Ex)
qed

subsection \<open>Several libraries\<close>

text \<open>
  Across libraries a track that was just found can be found again: of two equal missing tracks the one created first
  takes the file over from the other, whose id is lost.
\<close>

lemma cross_library_takes_over:
  "p_files (cross_moves ex_mt_env
      [ex_track ''m1'' ''p'' 1 ''/a/x'' 5 True, ex_track ''m2'' ''p'' 1 ''/b/x'' 3 True]
      (ex_mt_state [ex_track ''m1'' ''p'' 1 ''/a/x'' 5 True, ex_track ''m2'' ''p'' 1 ''/b/x'' 3 True, ex_track ''n'' ''q'' 2 ''/c/x'' 9 False]))
   = [ex_track ''m2'' ''q'' 2 ''/c/x'' 3 False]"
  by code_simp

text \<open>
  A group of another library that was read before may still hold the track that was taken over; then the file gets a
  second row.
\<close>

lemma cross_library_stale_group:
  fixes files defines "files \<equiv> [ex_track ''m1'' ''p'' 1 ''/a/x'' 5 True, ex_track ''m2'' ''q'' 2 ''/b/y'' 1 True, ex_track ''n'' ''q'' 2 ''/c/x'' 9 False]"
  shows "p_files (snd (run_stages ex_mt_env 2
      (fst (produce [\<lparr>lib_ID = 1, lib_LastScanStartedAt = 8\<rparr>, \<lparr>lib_ID = 2, lib_LastScanStartedAt = 8\<rparr>] files (\<lambda>_. None) [1, 2])) (ex_mt_state files)))
   = [ex_track ''m1'' ''q'' 2 ''/c/x'' 5 False, ex_track ''m2'' ''q'' 2 ''/c/x'' 1 False]"
  unfolding files_def by code_simp

end
