(* ===== verification/Simple_Cache.thy ===== *)
theory Simple_Cache
  imports Go_Concurrency
begin

text \<open>
  The loading of cache entries, \<open>utils/cache/simple_cache.go\<close>. Calls of \<open>GetWithLoader\<close> for a key that is not cached
  share one load: the flight. Flights are pointers in the source, so they live in a list and the map of loads holds
  positions. The cache itself is a library; it is a map that other goroutines may write to, and that may forget any key
  at any time. A step is one access to the cache, one critical section, one channel operation or the end of a loader.
\<close>

section \<open>Definitions\<close>

datatype 'e load_error = LoaderPanicked | LoaderFailed 'e

record ('v, 'e) flight =
  fl_done :: bool
  fl_val :: 'v
  fl_err :: "'e load_error option"

text \<open>The error is wrapped as a cache error.\<close>

definition flight_result :: "('v, 'e) flight \<Rightarrow> 'e load_error + 'v" where
  "flight_result f = (case fl_err f of Some err \<Rightarrow> Inl err | None \<Rightarrow> Inr (fl_val f))"

text \<open>
  Where a call is: before the first look at the cache; after a miss; waiting for a flight; the owner of a flight before
  the second look; in the loader; with the flight filled, which is after a panic or not; with the flight's channel closed
  but the flight still registered; returned, with no result for a call that panicked.
\<close>

datatype ('v, 'e) call_at =
  Called | Missed | Waiting nat
  | Owner nat | Loading nat | Loaded nat bool | Closed nat "('e load_error + 'v) option"
  | Returned "('e load_error + 'v) option"

record ('k, 'v, 'e) cache_state =
  cs_data :: "'k \<rightharpoonup> 'v"
  cs_loads :: "'k \<rightharpoonup> nat"
  cs_flights :: "('v, 'e) flight list"
  cs_calls :: "('k \<times> ('v, 'e) call_at) list"

definition new_cache :: "('k, 'v, 'e) cache_state" where
  "new_cache = \<lparr>cs_data = Map.empty, cs_loads = Map.empty, cs_flights = [], cs_calls = []\<rparr>"

abbreviation goto :: "nat \<Rightarrow> 'k \<times> ('v, 'e) call_at \<Rightarrow> ('k, 'v, 'e) cache_state \<Rightarrow> ('k, 'v, 'e) cache_state" where
  "goto i c s \<equiv> s\<lparr>cs_calls := (cs_calls s)[i := c]\<rparr>"

text \<open>The critical section after a miss: join the flight of the key, or register a new one.\<close>

definition join_or_lead :: "'v \<Rightarrow> nat \<Rightarrow> 'k \<Rightarrow> ('k, 'v, 'e) cache_state \<Rightarrow> ('k, 'v, 'e) cache_state" where
  "join_or_lead zero i k s =
     (case cs_loads s k of
        Some f \<Rightarrow> goto i (k, Waiting f) s
      | None \<Rightarrow>
          (let f = length (cs_flights s)
           in goto i (k, Owner f)
                (s\<lparr>cs_flights := cs_flights s @ [\<lparr>fl_done = False, fl_val = zero, fl_err = Some LoaderPanicked\<rparr>],
                   cs_loads := (cs_loads s)(k \<mapsto> f)\<rparr>)))"

text \<open>
  What a key's loader, or a call of \<open>Add\<close>, may put in: \<open>ok k v\<close>. \<open>zero\<close> is the zero value of the type.
\<close>

inductive cache_step :: "'v \<Rightarrow> ('k \<Rightarrow> 'v \<Rightarrow> bool) \<Rightarrow> ('k, 'v, 'e) cache_state \<Rightarrow> ('k, 'v, 'e) cache_state \<Rightarrow> bool" for zero ok where
  enter: "cache_step zero ok s (s\<lparr>cs_calls := cs_calls s @ [(k, Called)]\<rparr>)"
| add: "ok k v \<Longrightarrow> cache_step zero ok s (s\<lparr>cs_data := (cs_data s)(k \<mapsto> v)\<rparr>)"
| forget: "cache_step zero ok s (s\<lparr>cs_data := (cs_data s)(k := None)\<rparr>)"
| hit: "i < length (cs_calls s) \<Longrightarrow> cs_calls s ! i = (k, Called) \<Longrightarrow> cs_data s k = Some v \<Longrightarrow>
    cache_step zero ok s (goto i (k, Returned (Some (Inr v))) s)"
| miss: "i < length (cs_calls s) \<Longrightarrow> cs_calls s ! i = (k, Called) \<Longrightarrow> cs_data s k = None \<Longrightarrow>
    cache_step zero ok s (goto i (k, Missed) s)"
| lock: "i < length (cs_calls s) \<Longrightarrow> cs_calls s ! i = (k, Missed) \<Longrightarrow> cache_step zero ok s (join_or_lead zero i k s)"
| wake: "i < length (cs_calls s) \<Longrightarrow> cs_calls s ! i = (k, Waiting f) \<Longrightarrow> fl_done (cs_flights s ! f) \<Longrightarrow>
    cache_step zero ok s (goto i (k, Returned (Some (flight_result (cs_flights s ! f)))) s)"
| second_hit: "i < length (cs_calls s) \<Longrightarrow> cs_calls s ! i = (k, Owner f) \<Longrightarrow> cs_data s k = Some v \<Longrightarrow>
    cache_step zero ok s (goto i (k, Loaded f False)
      (s\<lparr>cs_flights := (cs_flights s)[f := (cs_flights s ! f)\<lparr>fl_val := v, fl_err := None\<rparr>]\<rparr>))"
| second_miss: "i < length (cs_calls s) \<Longrightarrow> cs_calls s ! i = (k, Owner f) \<Longrightarrow> cs_data s k = None \<Longrightarrow>
    cache_step zero ok s (goto i (k, Loading f) s)"
| load: "i < length (cs_calls s) \<Longrightarrow> cs_calls s ! i = (k, Loading f) \<Longrightarrow> ok k v \<Longrightarrow>
    cache_step zero ok s (goto i (k, Loaded f False)
      (s\<lparr>cs_flights := (cs_flights s)[f := (cs_flights s ! f)\<lparr>fl_val := v, fl_err := None\<rparr>],
         cs_data := (cs_data s)(k \<mapsto> v)\<rparr>))"
| load_error: "i < length (cs_calls s) \<Longrightarrow> cs_calls s ! i = (k, Loading f) \<Longrightarrow>
    cache_step zero ok s (goto i (k, Loaded f False)
      (s\<lparr>cs_flights := (cs_flights s)[f := (cs_flights s ! f)\<lparr>fl_val := v, fl_err := Some (LoaderFailed e)\<rparr>]\<rparr>))"
| load_panic: "i < length (cs_calls s) \<Longrightarrow> cs_calls s ! i = (k, Loading f) \<Longrightarrow> cache_step zero ok s (goto i (k, Loaded f True) s)"
| finish: "i < length (cs_calls s) \<Longrightarrow> cs_calls s ! i = (k, Loaded f panicking) \<Longrightarrow>
    cache_step zero ok s (goto i (k, Closed f (if panicking then None else Some (flight_result (cs_flights s ! f))))
      (s\<lparr>cs_flights := (cs_flights s)[f := (cs_flights s ! f)\<lparr>fl_done := True\<rparr>]\<rparr>))"
| deregister: "i < length (cs_calls s) \<Longrightarrow> cs_calls s ! i = (k, Closed f r) \<Longrightarrow>
    cache_step zero ok s (goto i (k, Returned r) (s\<lparr>cs_loads := (cs_loads s)(k := None)\<rparr>))"

section \<open>Invariant\<close>

text \<open>The flight a call owns, and the one it refers to.\<close>

fun owned :: "('v, 'e) call_at \<Rightarrow> nat option" where
  "owned (Owner f) = Some f" | "owned (Loading f) = Some f" | "owned (Loaded f _) = Some f" | "owned (Closed f _) = Some f"
| "owned _ = None"

fun waits_for :: "('v, 'e) call_at \<Rightarrow> nat option" where
  "waits_for (Waiting f) = Some f" | "waits_for _ = None"

fun is_closed :: "('v, 'e) call_at \<Rightarrow> bool" where
  "is_closed (Closed _ _) = True" | "is_closed _ = False"

text \<open>What a call that is over, or about to be, returns for its key.\<close>

fun returns_ok :: "('v \<Rightarrow> bool) \<Rightarrow> ('v, 'e) call_at \<Rightarrow> bool" where
  "returns_ok P (Returned (Some (Inr v))) = P v"
| "returns_ok P (Closed _ (Some (Inr v))) = P v"
| "returns_ok P _ = True"

definition key_of :: "('k, 'v, 'e) cache_state \<Rightarrow> nat \<Rightarrow> 'k" where
  "key_of s i = fst (cs_calls s ! i)"

definition stage :: "('k, 'v, 'e) cache_state \<Rightarrow> nat \<Rightarrow> ('v, 'e) call_at" where
  "stage s i = snd (cs_calls s ! i)"

definition owns :: "('k, 'v, 'e) cache_state \<Rightarrow> nat \<Rightarrow> nat \<Rightarrow> bool" where
  "owns s i f \<longleftrightarrow> i < length (cs_calls s) \<and> owned (stage s i) = Some f"

definition waits :: "('k, 'v, 'e) cache_state \<Rightarrow> nat \<Rightarrow> nat \<Rightarrow> bool" where
  "waits s i f \<longleftrightarrow> i < length (cs_calls s) \<and> waits_for (stage s i) = Some f"

definition is_done :: "('k, 'v, 'e) cache_state \<Rightarrow> nat \<Rightarrow> bool" where
  "is_done s f \<longleftrightarrow> fl_done (cs_flights s ! f)"

text \<open>
  Every owner's flight is registered under its key, a registered flight has exactly one owner, and the flight a waiting
  call refers to is either done or registered under the call's key.
\<close>

definition flights_inv :: "('k, 'v, 'e) cache_state \<Rightarrow> bool" where
  "flights_inv s \<longleftrightarrow>
     (\<forall>i f. owns s i f \<longrightarrow> cs_loads s (key_of s i) = Some f \<and> is_done s f = is_closed (stage s i)) \<and>
     (\<forall>i j f. owns s i f \<and> owns s j f \<longrightarrow> i = j) \<and>
     (\<forall>k f. cs_loads s k = Some f \<longrightarrow> f < length (cs_flights s) \<and> (\<exists>i. owns s i f \<and> key_of s i = k)) \<and>
     (\<forall>i f. waits s i f \<longrightarrow> f < length (cs_flights s) \<and> (is_done s f \<or> cs_loads s (key_of s i) = Some f))"

text \<open>Values belong to their keys.\<close>

definition values_inv :: "('k \<Rightarrow> 'v \<Rightarrow> bool) \<Rightarrow> ('k, 'v, 'e) cache_state \<Rightarrow> bool" where
  "values_inv ok s \<longleftrightarrow>
     (\<forall>k v. cs_data s k = Some v \<longrightarrow> ok k v) \<and>
     (\<forall>i f. (owns s i f \<or> waits s i f) \<and> fl_err (cs_flights s ! f) = None \<longrightarrow> ok (key_of s i) (fl_val (cs_flights s ! f))) \<and>
     (\<forall>i < length (cs_calls s). returns_ok (ok (key_of s i)) (stage s i))"

lemma flights_invD:
  assumes "flights_inv s"
  shows owner_registered: "owns s i f \<Longrightarrow> cs_loads s (key_of s i) = Some f \<and> is_done s f = is_closed (stage s i)"
    and owner_unique: "owns s i f \<Longrightarrow> owns s j f \<Longrightarrow> i = j"
    and registered_owner: "cs_loads s k = Some f \<Longrightarrow> f < length (cs_flights s) \<and> (\<exists>i. owns s i f \<and> key_of s i = k)"
    and waiting_flight: "waits s i f \<Longrightarrow> f < length (cs_flights s) \<and> (is_done s f \<or> cs_loads s (key_of s i) = Some f)"
  using assms unfolding flights_inv_def by blast+

lemma flights_invI:
  assumes "\<And>i f. owns s i f \<Longrightarrow> cs_loads s (key_of s i) = Some f \<and> is_done s f = is_closed (stage s i)"
    and "\<And>i j f. owns s i f \<Longrightarrow> owns s j f \<Longrightarrow> i = j"
    and "\<And>k f. cs_loads s k = Some f \<Longrightarrow> f < length (cs_flights s) \<and> (\<exists>i. owns s i f \<and> key_of s i = k)"
    and "\<And>i f. waits s i f \<Longrightarrow> f < length (cs_flights s) \<and> (is_done s f \<or> cs_loads s (key_of s i) = Some f)"
  shows "flights_inv s"
  unfolding flights_inv_def using assms by blast

text \<open>The calls after one of them has moved on, and after a new one.\<close>

lemma after_goto:
  assumes "cs_calls s' = (cs_calls s)[i := (key_of s i, p')]" and "i < length (cs_calls s)"
  shows "key_of s' = key_of s" and "stage s' j = (if j = i then p' else stage s j)"
    and "owns s' j f \<longleftrightarrow> (if j = i then owned p' = Some f else owns s j f)"
    and "waits s' j f \<longleftrightarrow> (if j = i then waits_for p' = Some f else waits s j f)"
  using assms by (auto simp: key_of_def stage_def owns_def waits_def nth_list_update fun_eq_iff)

lemma flights_inv_goto:
  assumes inv: "flights_inv s" and i: "i < length (cs_calls s)"
    and p: "owned p' = owned (stage s i)" "is_closed p' = is_closed (stage s i)" "waits_for p' = None"
    and s': "cs_calls s' = (cs_calls s)[i := (key_of s i, p')]" "cs_loads s' = cs_loads s"
      "length (cs_flights s') = length (cs_flights s)" "\<And>f. is_done s' f = is_done s f"
  shows "flights_inv s'"
proof -
  note calls = after_goto [OF s'(1) i]
  have owns: "owns s' j f = owns s j f" for j f using calls(3) p(1) i by (auto simp: owns_def)
  have closed: "is_closed (stage s' j) = is_closed (stage s j)" for j using calls(2) p(2) by simp
  have waits: "waits s' j f \<Longrightarrow> waits s j f" for j f using calls(4) p(3) by (auto split: if_splits)
  show ?thesis
    by (rule flights_invI; unfold owns calls(1) s'(2-4) closed; (use flights_invD [OF inv] waits in blast))
qed

lemma flights_inv_enter:
  assumes inv: "flights_inv s" shows "flights_inv (s\<lparr>cs_calls := cs_calls s @ [(k, Called)]\<rparr>)" (is "flights_inv ?s")
proof -
  have keys: "key_of ?s i = key_of s i" "stage ?s i = stage s i" if "i < length (cs_calls s)" for i
    using that by (simp_all add: key_of_def stage_def nth_append)
  have last: "stage ?s (length (cs_calls s)) = Called" by (simp add: stage_def)
  have owns: "owns ?s i f = owns s i f" and waits: "waits ?s i f = waits s i f" for i f
    using keys [of i] last by (auto simp: owns_def waits_def less_Suc_eq)
  have "owns s i f \<or> waits s i f \<Longrightarrow> key_of ?s i = key_of s i \<and> stage ?s i = stage s i" for i f
    using keys by (auto simp: owns_def waits_def)
  note same = this
  have "is_done ?s f = is_done s f" for f by (simp add: is_done_def)
  note frame = owns waits this
  show ?thesis
  proof (rule flights_invI)
    fix i f assume "owns ?s i f"
    then show "cs_loads ?s (key_of ?s i) = Some f \<and> is_done ?s f = is_closed (stage ?s i)"
      using owner_registered [OF inv, of i f] same [of i f] unfolding frame by simp
  next
    fix i j f assume "owns ?s i f" "owns ?s j f"
    then show "i = j" using owner_unique [OF inv] unfolding frame by blast
  next
    fix c f assume "cs_loads ?s c = Some f"
    then obtain i where "f < length (cs_flights s)" "owns s i f" "key_of s i = c" using registered_owner [OF inv, of c f] by auto
    then show "f < length (cs_flights ?s) \<and> (\<exists>i. owns ?s i f \<and> key_of ?s i = c)" using same [of i f] frame by auto
  next
    fix i f assume "waits ?s i f"
    then show "f < length (cs_flights ?s) \<and> (is_done ?s f \<or> cs_loads ?s (key_of ?s i) = Some f)"
      using waiting_flight [OF inv, of i f] same [of i f] unfolding frame by simp
  qed
qed

text \<open>The flight a call owns is filled, closed and deregistered.\<close>

lemma flights_inv_finish:
  assumes inv: "flights_inv s" and i: "i < length (cs_calls s)" "stage s i = Loaded f panicking"
    and s': "cs_calls s' = (cs_calls s)[i := (key_of s i, Closed f r)]" "cs_loads s' = cs_loads s"
      "length (cs_flights s') = length (cs_flights s)" "\<And>g. is_done s' g = (is_done s g \<or> g = f)"
  shows "flights_inv s'"
proof -
  note calls = after_goto [OF s'(1) i(1)]
  have own: "owns s i f" using i by (simp add: owns_def)
  have owns: "owns s' j g = owns s j g" and waits: "waits s' j g \<Longrightarrow> waits s j g" for j g
    using calls(3,4) i by (auto simp: owns_def waits_def split: if_splits)
  have "is_closed (stage s' j) = (is_closed (stage s j) \<or> j = i)" for j using calls(2) by simp
  then have "is_done s' g = is_closed (stage s' j)" if "owns s j g" for j g
    using owner_unique [OF inv own] owner_registered [OF inv that] owner_registered [OF inv own] that s'(4) by (metis i(2) is_closed.simps(4) option.inject owns_def)
  then show ?thesis
    by (intro flights_invI; unfold owns calls(1) s'(2,3)) (use flights_invD [OF inv] waits s'(4) in blast)+
qed

lemma flights_inv_deregister:
  assumes inv: "flights_inv s" and i: "i < length (cs_calls s)" "stage s i = Closed f r"
    and s': "cs_calls s' = (cs_calls s)[i := (key_of s i, Returned r)]" "cs_loads s' = (cs_loads s)(key_of s i := None)"
      "cs_flights s' = cs_flights s"
  shows "flights_inv s'"
proof -
  note calls = after_goto [OF s'(1) i(1)]
  have own: "owns s i f" using i by (simp add: owns_def)
  have registered: "cs_loads s (key_of s i) = Some f" "is_done s f" using owner_registered [OF inv own] i(2) by simp_all
  have owns: "owns s' j g \<longleftrightarrow> owns s j g \<and> j \<noteq> i" and waits: "waits s' j g \<Longrightarrow> waits s j g" for j g
    using calls(3,4) by (auto split: if_splits)
  have done_same: "is_done s' g = is_done s g" for g using s'(3) by (simp add: is_done_def)
  have other: "key_of s j \<noteq> key_of s i" if "owns s j g" "j \<noteq> i" for j g
    using owner_registered [OF inv that(1)] registered(1) owner_unique [OF inv own] that by auto
  show ?thesis
  proof (rule flights_invI)
    fix j g assume "owns s' j g"
    then show "cs_loads s' (key_of s' j) = Some g \<and> is_done s' g = is_closed (stage s' j)"
      using owner_registered [OF inv, of j g] other [of j g] owns calls(1,2) s'(2) done_same by auto
  next
    fix j l g assume "owns s' j g" "owns s' l g"
    then show "j = l" using owns owner_unique [OF inv] by blast
  next
    fix c g assume "cs_loads s' c = Some g"
    then have c: "c \<noteq> key_of s i" "cs_loads s c = Some g" using s'(2) by (auto split: if_splits)
    then obtain j where "g < length (cs_flights s)" "owns s j g" "key_of s j = c" using registered_owner [OF inv] by blast
    then show "g < length (cs_flights s') \<and> (\<exists>i. owns s' i g \<and> key_of s' i = c)" using c(1) owns calls(1) s'(3) by auto
  next
    fix j g assume "waits s' j g"
    then have w: "g < length (cs_flights s)" "is_done s g \<or> cs_loads s (key_of s j) = Some g" using waits waiting_flight [OF inv] by blast+
    then have "is_done s g \<or> key_of s j \<noteq> key_of s i" using registered by auto
    then show "g < length (cs_flights s') \<and> (is_done s' g \<or> cs_loads s' (key_of s' j) = Some g)"
      using w calls(1) s'(2,3) done_same by auto
  qed
qed

lemma flights_inv_lock:
  assumes inv: "flights_inv s" and i: "i < length (cs_calls s)" "stage s i = Missed"
  shows "flights_inv (join_or_lead zero i (key_of s i) s)"
proof (cases "cs_loads s (key_of s i)")
  case (Some f)
  let ?s = "goto i (key_of s i, Waiting f) s"
  have s': "cs_calls ?s = (cs_calls s)[i := (key_of s i, Waiting f)]" by simp
  note calls = after_goto [OF s' i(1)]
  have owns: "owns ?s j g = owns s j g" for j g using calls(3) i by (auto simp: owns_def)
  have closed: "is_closed (stage ?s j) = is_closed (stage s j)" for j using calls(2) i(2) by auto
  have done_same: "is_done ?s g = is_done s g" for g by (simp add: is_done_def)
  have "flights_inv ?s"
  proof (rule flights_invI)
    fix j g assume "owns ?s j g"
    then show "cs_loads ?s (key_of ?s j) = Some g \<and> is_done ?s g = is_closed (stage ?s j)"
      using owner_registered [OF inv, of j g] unfolding owns calls(1) closed done_same by simp
  next
    fix j l g assume "owns ?s j g" "owns ?s l g"
    then show "j = l" using owner_unique [OF inv] unfolding owns by blast
  next
    fix c g assume "cs_loads ?s c = Some g"
    then show "g < length (cs_flights ?s) \<and> (\<exists>i. owns ?s i g \<and> key_of ?s i = c)"
      using registered_owner [OF inv, of c g] unfolding owns calls(1) by simp
  next
    fix j g assume "waits ?s j g"
    then have "j = i \<and> g = f \<or> waits s j g" using calls(4) by (auto split: if_splits)
    then show "g < length (cs_flights ?s) \<and> (is_done ?s g \<or> cs_loads ?s (key_of ?s j) = Some g)"
      using waiting_flight [OF inv, of j g] registered_owner [OF inv Some] Some unfolding calls(1) done_same by auto
  qed
  then show ?thesis by (simp add: join_or_lead_def Some)
next
  case None
  let ?f = "length (cs_flights s)" and ?k = "key_of s i"
  let ?s = "join_or_lead zero i ?k s"
  have s': "cs_calls ?s = (cs_calls s)[i := (?k, Owner ?f)]" "cs_loads ?s = (cs_loads s)(?k \<mapsto> ?f)"
    "cs_flights ?s = cs_flights s @ [\<lparr>fl_done = False, fl_val = zero, fl_err = Some LoaderPanicked\<rparr>]"
    by (simp_all add: join_or_lead_def None Let_def)
  note calls = after_goto [OF s'(1) i(1)]
  have done_old: "g < ?f \<Longrightarrow> is_done ?s g = is_done s g" and done_new: "\<not> is_done ?s ?f" for g
    using s'(3) by (simp_all add: is_done_def nth_append)
  have old: "g < ?f \<and> key_of s j \<noteq> ?k" if "owns s j g" for j g
    using owner_registered [OF inv that] registered_owner [OF inv, of "key_of s j" g] None by auto
  have owns: "owns ?s j g \<longleftrightarrow> j = i \<and> g = ?f \<or> owns s j g" for j g
    using calls(3) i by (auto simp: owns_def)
  have i_not: "\<not> owns s i g" for g using i by (simp add: owns_def)
  show ?thesis
  proof (rule flights_invI)
    fix j g assume "owns ?s j g"
    then consider "j = i" "g = ?f" | "owns s j g" "j \<noteq> i" using owns i_not by blast
    then show "cs_loads ?s (key_of ?s j) = Some g \<and> is_done ?s g = is_closed (stage ?s j)"
    proof cases
      case 1 then show ?thesis using calls(1,2) s'(2) done_new by simp
    next
      case 2 then show ?thesis using owner_registered [OF inv 2(1)] old [OF 2(1)] calls(1,2) s'(2) done_old by simp
    qed
  next
    fix j l g assume "owns ?s j g" "owns ?s l g"
    then have "j = i \<and> g = ?f \<or> owns s j g" "l = i \<and> g = ?f \<or> owns s l g" by (simp_all only: owns)
    then show "j = l" using owner_unique [OF inv, of j g l] old [of j g] old [of l g] by auto
  next
    fix c g assume c: "cs_loads ?s c = Some g"
    show "g < length (cs_flights ?s) \<and> (\<exists>i. owns ?s i g \<and> key_of ?s i = c)"
    proof (cases "c = ?k")
      case True
      then have "g = ?f" using c s'(2) by simp
      moreover have "owns ?s i ?f" using owns by blast
      ultimately show ?thesis using True s'(3) calls(1) by auto
    next
      case False
      then have "cs_loads s c = Some g" using c s'(2) by simp
      then obtain j where "g < ?f" "owns s j g" "key_of s j = c" using registered_owner [OF inv] by blast
      then show ?thesis using owns calls(1) s'(3) by auto
    qed
  next
    fix j g assume "waits ?s j g"
    then have w: "waits s j g" using calls(4) by (auto split: if_splits)
    have "g < ?f" "is_done s g \<or> cs_loads s (key_of s j) = Some g" using waiting_flight [OF inv w] by blast+
    then show "g < length (cs_flights ?s) \<and> (is_done ?s g \<or> cs_loads ?s (key_of ?s j) = Some g)"
      using calls(1) s'(2,3) done_old None by auto
  qed
qed

lemma flights_inv_step:
  assumes "cache_step zero ok s s'" and inv: "flights_inv s" shows "flights_inv s'"
  using assms(1)
proof cases
  case (enter k)
  then show ?thesis using flights_inv_enter [OF inv] by simp
next
  case (add k v)
  then show ?thesis using inv by (simp add: flights_inv_def owns_def waits_def stage_def key_of_def is_done_def)
next
  case (forget k)
  then show ?thesis using inv by (simp add: flights_inv_def owns_def waits_def stage_def key_of_def is_done_def)
next
  case (hit i k v)
  then show ?thesis by (intro flights_inv_goto [OF inv, of i "Returned (Some (Inr v))"]) (simp_all add: stage_def key_of_def is_done_def)
next
  case (miss i k)
  then show ?thesis by (intro flights_inv_goto [OF inv, of i Missed]) (simp_all add: stage_def key_of_def is_done_def)
next
  case (lock i k)
  then show ?thesis using flights_inv_lock [OF inv, of i zero] by (simp add: stage_def key_of_def)
next
  case (wake i k f)
  then show ?thesis
    by (intro flights_inv_goto [OF inv, of i "Returned (Some (flight_result (cs_flights s ! f)))"]) (simp_all add: stage_def key_of_def is_done_def)
next
  case (second_hit i k f v)
  then show ?thesis
    by (intro flights_inv_goto [OF inv, of i "Loaded f False"]) (simp_all add: stage_def key_of_def is_done_def nth_list_update_any)
next
  case (second_miss i k f)
  then show ?thesis by (intro flights_inv_goto [OF inv, of i "Loading f"]) (simp_all add: stage_def key_of_def is_done_def)
next
  case (load i k f v)
  then show ?thesis
    by (intro flights_inv_goto [OF inv, of i "Loaded f False"]) (simp_all add: stage_def key_of_def is_done_def nth_list_update_any)
next
  case (load_error i k f v e)
  then show ?thesis
    by (intro flights_inv_goto [OF inv, of i "Loaded f False"]) (simp_all add: stage_def key_of_def is_done_def nth_list_update_any)
next
  case (load_panic i k f)
  then show ?thesis by (intro flights_inv_goto [OF inv, of i "Loaded f True"]) (simp_all add: stage_def key_of_def is_done_def)
next
  case (finish i k f panicking)
  then have "owns s i f" by (simp add: owns_def stage_def)
  then have "f < length (cs_flights s)" using owner_registered [OF inv] registered_owner [OF inv] by blast
  then show ?thesis
    using finish by (intro flights_inv_finish [OF inv, of i f panicking]) (simp_all add: stage_def key_of_def is_done_def nth_list_update_any)
next
  case (deregister i k f r)
  then show ?thesis by (intro flights_inv_deregister [OF inv, of i f r]) (simp_all add: stage_def key_of_def)
qed

lemma flights_inv_new: "flights_inv new_cache"
  by (simp add: new_cache_def flights_inv_def owns_def waits_def)

lemma flights_inv_reachable: "reachable new_cache (cache_step zero ok) s \<Longrightarrow> flights_inv s"
  by (erule reachable_invariant [where I = flights_inv, OF _ flights_inv_new]) (rule flights_inv_step)

section \<open>Values\<close>

definition refers :: "('k, 'v, 'e) cache_state \<Rightarrow> nat \<Rightarrow> nat \<Rightarrow> bool" where
  "refers s i f \<longleftrightarrow> owns s i f \<or> waits s i f"

lemma values_invD:
  assumes "values_inv ok s"
  shows values_data: "cs_data s k = Some v \<Longrightarrow> ok k v"
    and values_flight: "refers s i f \<Longrightarrow> fl_err (cs_flights s ! f) = None \<Longrightarrow> ok (key_of s i) (fl_val (cs_flights s ! f))"
    and values_returned: "i < length (cs_calls s) \<Longrightarrow> returns_ok (ok (key_of s i)) (stage s i)"
  using assms unfolding values_inv_def refers_def by blast+

lemma values_invI:
  assumes "\<And>k v. cs_data s k = Some v \<Longrightarrow> ok k v"
    and "\<And>i f. refers s i f \<Longrightarrow> fl_err (cs_flights s ! f) = None \<Longrightarrow> ok (key_of s i) (fl_val (cs_flights s ! f))"
    and "\<And>i. i < length (cs_calls s) \<Longrightarrow> returns_ok (ok (key_of s i)) (stage s i)"
  shows "values_inv ok s"
  unfolding values_inv_def using assms unfolding refers_def by blast

lemma refers_bound:
  assumes "flights_inv s" and "refers s i f" shows "f < length (cs_flights s)"
  using assms(2) unfolding refers_def
proof
  assume "owns s i f"
  then show ?thesis using owner_registered [OF assms(1), of i f] registered_owner [OF assms(1), of "key_of s i" f] by simp
next
  assume "waits s i f"
  then show ?thesis using waiting_flight [OF assms(1), of i f] by simp
qed

text \<open>All calls that refer to a flight in progress have its key.\<close>

lemma refers_key:
  assumes inv: "flights_inv s" and "owns s i f" and "\<not> is_closed (stage s i)" and "refers s j f"
  shows "key_of s j = key_of s i"
proof -
  have not_done: "\<not> is_done s f" using owner_registered [OF inv assms(2)] assms(3) by simp
  have "cs_loads s (key_of s j) = Some f"
    using assms(4) owner_registered [OF inv, of j f] waiting_flight [OF inv, of j f] not_done by (auto simp: refers_def)
  then obtain l where "owns s l f" "key_of s l = key_of s j" using registered_owner [OF inv] by blast
  then show ?thesis using owner_unique [OF inv assms(2)] by metis
qed

text \<open>A step of one call after which it refers to nothing new.\<close>

lemma values_inv_goto:
  assumes flights: "flights_inv s" and inv: "values_inv ok s" and i: "i < length (cs_calls s)"
    and refs: "\<And>f. owned p' = Some f \<or> waits_for p' = Some f \<Longrightarrow> refers s i f"
    and ret: "returns_ok (ok (key_of s i)) p'"
    and s': "cs_calls s' = (cs_calls s)[i := (key_of s i, p')]" "\<And>k v. cs_data s' k = Some v \<Longrightarrow> ok k v"
    and fl: "\<And>j f. refers s j f \<Longrightarrow> fl_err (cs_flights s' ! f) = None \<Longrightarrow> ok (key_of s j) (fl_val (cs_flights s' ! f))"
  shows "values_inv ok s'"
proof -
  note calls = after_goto [OF s'(1) i]
  have "refers s' j f \<Longrightarrow> refers s j f" for j f
    using calls(3,4) refs by (auto simp: refers_def split: if_splits)
  moreover have "returns_ok (ok (key_of s' j)) (stage s' j)" if "j < length (cs_calls s')" for j
    using calls(1,2) ret values_returned [OF inv, of j] that s'(1) by simp
  ultimately show ?thesis using s'(2) fl calls(1) by (intro values_invI) simp_all
qed

lemma values_inv_fill:
  assumes flights: "flights_inv s" and inv: "values_inv ok s" and i: "i < length (cs_calls s)"
    and own: "owned (stage s i) = Some f" "\<not> is_closed (stage s i)"
    and fl: "fl_err fl = None \<Longrightarrow> ok (key_of s i) (fl_val fl)"
    and s': "cs_calls s' = (cs_calls s)[i := (key_of s i, Loaded f panicking)]" "cs_flights s' = (cs_flights s)[f := fl]"
      "\<And>k v. cs_data s' k = Some v \<Longrightarrow> ok k v"
  shows "values_inv ok s'"
proof (rule values_inv_goto [OF flights inv i _ _ s'(1,3)])
  have owns: "owns s i f" using i own by (simp add: owns_def)
  show "owned (Loaded f panicking) = Some g \<or> waits_for (Loaded f panicking) = Some g \<Longrightarrow> refers s i g" for g
    using owns by (auto simp: refers_def)
  show "returns_ok (ok (key_of s i)) (Loaded f panicking)" by simp
  fix j g assume g: "refers s j g" "fl_err (cs_flights s' ! g) = None"
  show "ok (key_of s j) (fl_val (cs_flights s' ! g))"
  proof (cases "g = f")
    case True
    then show ?thesis using refers_key [OF flights owns own(2)] g fl s'(2) refers_bound [OF flights g(1)] by simp
  next
    case False
    then show ?thesis using values_flight [OF inv g(1)] g(2) s'(2) by simp
  qed
qed

lemma values_inv_enter: "values_inv ok s \<Longrightarrow> values_inv ok (s\<lparr>cs_calls := cs_calls s @ [(k, Called)]\<rparr>)"
  unfolding values_inv_def owns_def waits_def key_of_def stage_def
  by (auto simp: nth_append less_Suc_eq split: if_splits)

lemma values_inv_lock:
  assumes flights: "flights_inv s" and inv: "values_inv ok s" and i: "i < length (cs_calls s)" "stage s i = Missed"
  shows "values_inv ok (join_or_lead zero i (key_of s i) s)"
proof (cases "cs_loads s (key_of s i)")
  case (Some f)
  let ?s = "goto i (key_of s i, Waiting f) s"
  have s': "cs_calls ?s = (cs_calls s)[i := (key_of s i, Waiting f)]" by simp
  note calls = after_goto [OF s' i(1)]
  obtain l where l: "owns s l f" "key_of s l = key_of s i" using registered_owner [OF flights Some] by blast
  have "values_inv ok ?s"
  proof (rule values_invI)
    show "cs_data ?s k = Some v \<Longrightarrow> ok k v" for k v using values_data [OF inv] by simp
    fix j g assume g: "refers ?s j g" "fl_err (cs_flights ?s ! g) = None"
    then have "refers s j g \<or> j = i \<and> g = f" using calls(3,4) by (auto simp: refers_def split: if_splits)
    then show "ok (key_of ?s j) (fl_val (cs_flights ?s ! g))"
      using values_flight [OF inv, of j g] values_flight [OF inv, of l f] l g(2) calls(1) by (auto simp: refers_def)
  next
    fix j assume "j < length (cs_calls ?s)"
    then show "returns_ok (ok (key_of ?s j)) (stage ?s j)" using values_returned [OF inv, of j] calls(1,2) by simp
  qed
  then show ?thesis by (simp add: join_or_lead_def Some)
next
  case None
  let ?f = "length (cs_flights s)"
  let ?s = "join_or_lead zero i (key_of s i) s"
  have s': "cs_calls ?s = (cs_calls s)[i := (key_of s i, Owner ?f)]" "cs_data ?s = cs_data s"
    "cs_flights ?s = cs_flights s @ [\<lparr>fl_done = False, fl_val = zero, fl_err = Some LoaderPanicked\<rparr>]"
    by (simp_all add: join_or_lead_def None Let_def)
  note calls = after_goto [OF s'(1) i(1)]
  show ?thesis
  proof (rule values_invI)
    show "cs_data ?s k = Some v \<Longrightarrow> ok k v" for k v using values_data [OF inv] s'(2) by simp
    fix j g assume g: "refers ?s j g" "fl_err (cs_flights ?s ! g) = None"
    then have "g \<noteq> ?f" using s'(3) by auto
    then have r: "refers s j g" using calls(3,4) g(1) by (auto simp: refers_def split: if_splits)
    then show "ok (key_of ?s j) (fl_val (cs_flights ?s ! g))"
      using values_flight [OF inv r] refers_bound [OF flights r] g(2) calls(1) s'(3) by (simp add: nth_append)
  next
    fix j assume "j < length (cs_calls ?s)"
    then show "returns_ok (ok (key_of ?s j)) (stage ?s j)" using values_returned [OF inv, of j] calls(1,2) s'(1) by simp
  qed
qed

lemma returns_ok_result: "(fl_err fl = None \<Longrightarrow> P (fl_val fl)) \<Longrightarrow> returns_ok P (Returned (Some (flight_result fl))) \<and> returns_ok P (Closed f (Some (flight_result fl)))"
  by (cases "fl_err fl") (simp_all add: flight_result_def)

lemma values_inv_step:
  assumes "cache_step zero ok s s'" and flights: "flights_inv s" and inv: "values_inv ok s" shows "values_inv ok s'"
  using assms(1)
proof cases
  case (enter k)
  then show ?thesis using values_inv_enter [OF inv] by simp
next
  case (add k v)
  then show ?thesis using inv by (simp add: values_inv_def owns_def waits_def stage_def key_of_def)
next
  case (forget k)
  then show ?thesis using inv by (simp add: values_inv_def owns_def waits_def stage_def key_of_def)
next
  case (hit i k v)
  then show ?thesis
    using values_data [OF inv] values_flight [OF inv]
    by (intro values_inv_goto [OF flights inv, of i "Returned (Some (Inr v))"]) (auto simp: key_of_def)
next
  case (miss i k)
  then show ?thesis
    using values_data [OF inv] values_flight [OF inv] by (intro values_inv_goto [OF flights inv, of i Missed]) (auto simp: key_of_def)
next
  case (lock i k)
  then show ?thesis using values_inv_lock [OF flights inv, of i zero] by (simp add: stage_def key_of_def)
next
  case (wake i k f)
  then have "refers s i f" by (simp add: refers_def waits_def stage_def)
  then have "returns_ok (ok (key_of s i)) (Returned (Some (flight_result (cs_flights s ! f))))"
    using values_flight [OF inv] returns_ok_result by blast
  then show ?thesis
    using wake values_data [OF inv] values_flight [OF inv]
    by (intro values_inv_goto [OF flights inv, of i "Returned (Some (flight_result (cs_flights s ! f)))"]) (auto simp: key_of_def)
next
  case (second_hit i k f v)
  then show ?thesis
    using values_data [OF inv]
    by (intro values_inv_fill [OF flights inv, of i f "(cs_flights s ! f)\<lparr>fl_val := v, fl_err := None\<rparr>"]) (auto simp: stage_def key_of_def)
next
  case (second_miss i k f)
  then have "refers s i f" by (simp add: refers_def owns_def stage_def)
  then show ?thesis
    using second_miss values_data [OF inv] values_flight [OF inv]
    by (intro values_inv_goto [OF flights inv, of i "Loading f"]) (auto simp: key_of_def)
next
  case (load i k f v)
  then show ?thesis
    using values_data [OF inv]
    by (intro values_inv_fill [OF flights inv, of i f "(cs_flights s ! f)\<lparr>fl_val := v, fl_err := None\<rparr>"])
      (auto simp: stage_def key_of_def split: if_splits)
next
  case (load_error i k f e v)
  then show ?thesis
    using values_data [OF inv]
    by (intro values_inv_fill [OF flights inv, of i f "(cs_flights s ! f)\<lparr>fl_val := v, fl_err := Some (LoaderFailed e)\<rparr>"])
      (auto simp: stage_def key_of_def)
next
  case (load_panic i k f)
  then have "refers s i f" by (simp add: refers_def owns_def stage_def)
  then show ?thesis
    using load_panic values_data [OF inv] values_flight [OF inv]
    by (intro values_inv_goto [OF flights inv, of i "Loaded f True"]) (auto simp: key_of_def)
next
  case (finish i k f panicking)
  let ?p = "Closed f (if panicking then None else Some (flight_result (cs_flights s ! f)))"
  have r: "refers s i f" using finish by (simp add: refers_def owns_def stage_def)
  then have "returns_ok (ok (key_of s i)) ?p"
    using values_flight [OF inv r] returns_ok_result [of "cs_flights s ! f" "ok (key_of s i)" f] by (cases panicking) simp_all
  then show ?thesis
    using finish r values_data [OF inv] values_flight [OF inv]
    by (intro values_inv_goto [OF flights inv, of i ?p]) (auto simp: key_of_def nth_list_update_any split: if_splits)
next
  case (deregister i k f r)
  have "returns_ok (ok (key_of s i)) (Closed f r)" using values_returned [OF inv, of i] deregister by (simp add: stage_def)
  then have "returns_ok (ok (key_of s i)) (Returned r)" by (cases r; cases "the r") auto
  then show ?thesis
    using deregister values_data [OF inv] values_flight [OF inv]
    by (intro values_inv_goto [OF flights inv, of i "Returned r"]) (auto simp: key_of_def)
qed

lemma cache_invariant:
  assumes "reachable new_cache (cache_step zero ok) s" shows "flights_inv s \<and> values_inv ok s"
proof (rule reachable_invariant [OF assms])
  show "flights_inv new_cache \<and> values_inv ok new_cache"
    using flights_inv_new by (simp add: values_inv_def new_cache_def owns_def waits_def)
next
  fix s s' assume "flights_inv s \<and> values_inv ok s" and "cache_step zero ok s s'"
  then show "flights_inv s' \<and> values_inv ok s'" using flights_inv_step values_inv_step by metis
qed

section \<open>Properties\<close>

text \<open>
  C18 (safety): Whatever calls run at the same time, at most one of them is in the loader of a key, or has a flight of the
  key in hand, and a call only ever returns a value that the loader of its own key returned or that was added for it.
\<close>

theorem single_flight:
  assumes "reachable new_cache (cache_step zero ok) s"
    and "i < length (cs_calls s)" and "j < length (cs_calls s)"
    and "cs_calls s ! i = (k, p)" and "cs_calls s ! j = (k, p')"
  shows "(owned p \<noteq> None \<and> owned p' \<noteq> None \<longrightarrow> i = j) \<and> (\<forall>v. p = Returned (Some (Inr v)) \<longrightarrow> ok k v)"
proof -
  have inv: "flights_inv s" "values_inv ok s" using cache_invariant [OF assms(1)] by blast+
  have "i = j" if "owned p = Some f" "owned p' = Some g" for f g
  proof -
    have own: "owns s i f" "owns s j g" using that assms(2-5) by (simp_all add: owns_def stage_def)
    then have "f = g"
      using owner_registered [OF inv(1) own(1)] owner_registered [OF inv(1) own(2)] assms(4,5) by (simp add: key_of_def)
    then show ?thesis using owner_unique [OF inv(1)] own by blast
  qed
  moreover have "ok k v" if "p = Returned (Some (Inr v))" for v
    using values_returned [OF inv(2) assms(2)] assms(4) that by (simp add: key_of_def stage_def)
  ultimately show ?thesis by blast
qed

text \<open>
  No call waits in vain: a call that has not returned can take its next step, or it waits for a flight of
  its key whose owner can, also when the loader fails or panics (a loader that returns or panics is assumed, since every
  outcome of it is a step).
\<close>

lemma no_call_stuck:
  assumes "reachable new_cache (cache_step zero ok) s" and "i < length (cs_calls s)" and "cs_calls s ! i = (k, p)"
    and "\<nexists>r. p = Returned r"
  shows "(\<exists>j p' q. j < length (cs_calls s) \<and> cs_calls s ! j = (k, p') \<and> (j = i \<or> waits_for p = owned p') \<and> q \<noteq> p' \<and>
    (\<exists>s'. cache_step zero ok s s' \<and> cs_calls s' = (cs_calls s)[j := (k, q)]))"
proof -
  have inv: "flights_inv s" using cache_invariant [OF assms(1)] by blast
  have step: "\<exists>q s'. q \<noteq> p' \<and> cache_step zero ok s s' \<and> cs_calls s' = (cs_calls s)[j := (k, q)]"
    if j: "j < length (cs_calls s)" "cs_calls s ! j = (k, p')" and p': "\<nexists>r. p' = Returned r" "\<nexists>f. p' = Waiting f" for j p'
  proof (cases p')
    case Called
    then show ?thesis
      using cache_step.hit [OF j(1)] cache_step.miss [OF j(1)] j(2) by (cases "cs_data s k") fastforce+
  next
    case Missed
    have "\<exists>q. q \<noteq> Missed \<and> cs_calls (join_or_lead zero j k s) = (cs_calls s)[j := (k, q)]"
      by (cases "cs_loads s k") (auto simp: join_or_lead_def Let_def)
    then show ?thesis using cache_step.lock [OF j(1)] j(2) Missed by metis
  next
    case (Owner f)
    then show ?thesis
      using cache_step.second_hit [OF j(1)] cache_step.second_miss [OF j(1)] j(2) by (cases "cs_data s k") fastforce+
  next
    case (Loading f)
    then show ?thesis using cache_step.load_panic [OF j(1)] j(2) by fastforce
  next
    case (Loaded f panicking)
    then show ?thesis using cache_step.finish [OF j(1)] j(2) by fastforce
  next
    case (Closed f r)
    then show ?thesis using cache_step.deregister [OF j(1)] j(2) by fastforce
  qed (use p' in auto)
  show ?thesis
  proof (cases "\<exists>f. p = Waiting f")
    case False
    then show ?thesis using step [OF assms(2,3,4)] assms(2,3) by blast
  next
    case True
    then obtain f where f: "p = Waiting f" by blast
    then have w: "waits s i f" using assms(2,3) by (simp add: waits_def stage_def)
    show ?thesis
    proof (cases "is_done s f")
      case True
      then have "cache_step zero ok s (goto i (k, Returned (Some (flight_result (cs_flights s ! f)))) s)"
        using cache_step.wake [OF assms(2)] assms(3) f by (simp add: is_done_def)
      then show ?thesis
        using assms(2,3) f
        by (intro exI [of _ i] exI [of _ p] exI [of _ "Returned (Some (flight_result (cs_flights s ! f)))"]) fastforce
    next
      case False
      then have "cs_loads s k = Some f" using waiting_flight [OF inv w] assms(3) by (simp add: key_of_def)
      then obtain j where j: "owns s j f" "key_of s j = k" using registered_owner [OF inv] by blast
      obtain p' where p': "cs_calls s ! j = (k, p')" "owned p' = Some f" "j < length (cs_calls s)"
        using j by (cases "cs_calls s ! j") (auto simp: owns_def stage_def key_of_def)
      then have "\<nexists>r. p' = Returned r" "\<nexists>f. p' = Waiting f" by auto
      then show ?thesis using step [OF p'(3,1)] p' f by fastforce
    qed
  qed
qed


section \<open>Witnesses\<close>

text \<open>One call has loaded the value of key 7 and closed its flight, while another waits for this flight.\<close>

definition shared_load :: "(nat, nat, nat) cache_state" where
  "shared_load = \<lparr>cs_data = [7 \<mapsto> 42], cs_loads = [7 \<mapsto> 0],
     cs_flights = [\<lparr>fl_done = True, fl_val = 42, fl_err = None\<rparr>],
     cs_calls = [(7, Closed 0 (Some (Inr 42))), (7, Waiting 0)]\<rparr>"

lemma shared_load_reachable: "reachable new_cache (cache_step 0 (\<lambda>k v. v = 6 * k)) shared_load"
proof -
  let ?step = "cache_step 0 (\<lambda>k v. v = 6 * k) :: (nat, nat, nat) cache_state \<Rightarrow> _"
  let ?c = "\<lambda>p q. (new_cache :: (nat, nat, nat) cache_state)\<lparr>cs_calls := [(7, p), (7, q)]\<rparr>"
  let ?f = "\<lambda>p q. (?c p q)\<lparr>cs_loads := [7 \<mapsto> 0], cs_flights := [\<lparr>fl_done = False, fl_val = 0, fl_err = Some LoaderPanicked\<rparr>]\<rparr>"
  let ?l = "\<lambda>d p q. (?f p q)\<lparr>cs_data := [7 \<mapsto> 42], cs_flights := [\<lparr>fl_done = d, fl_val = 42, fl_err = None\<rparr>]\<rparr>"
  note expand = new_cache_def join_or_lead_def shared_load_def flight_result_def
  have "?step new_cache (new_cache\<lparr>cs_calls := [(7, Called)]\<rparr>)" using cache_step.enter [of 0 _ new_cache 7] by (simp add: expand)
  then have "reachable new_cache ?step (new_cache\<lparr>cs_calls := [(7, Called)]\<rparr>)" by (rule reachable_step [OF reachable_start])
  moreover have "?step (new_cache\<lparr>cs_calls := [(7, Called)]\<rparr>) (?c Called Called)"
    using cache_step.enter [of 0 _ "new_cache\<lparr>cs_calls := [(7, Called)]\<rparr>" 7] by (simp add: expand)
  moreover have "?step (?c Called Called) (?c Missed Called)" using cache_step.miss [of 0 "?c Called Called" 7 0] by (simp add: expand)
  moreover have "?step (?c Missed Called) (?c Missed Missed)" using cache_step.miss [of 1 "?c Missed Called" 7 0] by (simp add: expand)
  moreover have "?step (?c Missed Missed) (?f (Owner 0) Missed)" using cache_step.lock [of 0 "?c Missed Missed" 7 0] by (simp add: expand)
  moreover have "?step (?f (Owner 0) Missed) (?f (Owner 0) (Waiting 0))"
    using cache_step.lock [of 1 "?f (Owner 0) Missed" 7 0] by (simp add: expand)
  moreover have "?step (?f (Owner 0) (Waiting 0)) (?f (Loading 0) (Waiting 0))"
    using cache_step.second_miss [of 0 "?f (Owner 0) (Waiting 0)" 7 0 0] by (simp add: expand)
  moreover have "?step (?f (Loading 0) (Waiting 0)) (?l False (Loaded 0 False) (Waiting 0))"
    using cache_step.load [of 0 "?f (Loading 0) (Waiting 0)" 7 0 "\<lambda>k v. v = 6 * k" 42 0] by (simp add: expand)
  moreover have "?step (?l False (Loaded 0 False) (Waiting 0)) shared_load"
    using cache_step.finish [of 0 "?l False (Loaded 0 False) (Waiting 0)" 7 0 False 0] by (simp add: expand)
  ultimately show ?thesis by (meson reachable_step)
qed

theorem single_flight_witness:
  "reachable new_cache (cache_step 0 (\<lambda>k v. v = 6 * k)) shared_load \<and> owned (snd (cs_calls shared_load ! 0)) = Some 0 \<and>
   owned (snd (cs_calls shared_load ! 1)) = None"
proof -
  have "reachable new_cache (cache_step 0 (\<lambda>k v. v = 6 * k)) shared_load" by (rule shared_load_reachable)
  moreover note single_flight [OF this, of 0 1 7 "Closed 0 (Some (Inr 42))" "Waiting 0"]
  ultimately show ?thesis by (auto simp: shared_load_def)
qed

lemma no_call_stuck_witness:
  "\<exists>j p' q. j < 2 \<and> cs_calls shared_load ! j = (7, p') \<and> (j = 1 \<or> Some 0 = owned p') \<and> q \<noteq> p' \<and>
     (\<exists>s'. cache_step 0 (\<lambda>k v. v = 6 * k) shared_load s' \<and> cs_calls s' = (cs_calls shared_load)[j := (7, q)])"
  using no_call_stuck [OF shared_load_reachable, of 1 7 "Waiting 0"] by (simp add: shared_load_def numeral_2_eq_2)

end
