(* ===== verification/Playlist_M3U.thy ===== *)
theory Playlist_M3U
  imports Go_Path Go_Slice Go_Float
begin

text \<open>
  Playlist files: the import of M3U files (\<open>core/playlists/parse_m3u.go\<close>), the search for the library a path lies in
  (\<open>model/library_matcher.go\<close>), the query for tracks by path (\<open>persistence/mediafile_repository.go\<close>) and the export of
  playlists (\<open>model/mediafile.go\<close>, \<open>model/playlist.go\<close>). The table of media types and the Unicode normal forms are
  parameters.
\<close>

section \<open>Definitions\<close>

subsection \<open>Libraries\<close>

record Library =
  l_ID :: int
  l_Path :: string

record LibraryMatcher =
  lm_libraries :: "Library list"
  lm_cleanedPaths :: "string list"

text \<open>The sort of the source may exchange libraries whose paths have the same length; here they keep their order.\<close>

definition NewLibraryMatcher :: "Library list \<Rightarrow> LibraryMatcher" where
  "NewLibraryMatcher libs =
     (let sorted = sort_key (\<lambda>l. - int (length (l_Path l))) libs
      in \<lparr>lm_libraries = sorted, lm_cleanedPaths = map (\<lambda>l. go_clean (l_Path l)) sorted\<rparr>)"

definition contains_path :: "string \<Rightarrow> string \<Rightarrow> bool" where
  "contains_path libPath absolutePath \<longleftrightarrow>
     has_prefix absolutePath libPath \<and>
     (length absolutePath = length libPath \<or> absolutePath ! length libPath = slash \<or> (libPath \<noteq> [] \<and> last libPath = slash))"

definition FindLibrary :: "LibraryMatcher \<Rightarrow> string \<Rightarrow> Library option" where
  "FindLibrary lm absolutePath =
     map_option fst (find (\<lambda>(lib, libPath). contains_path libPath absolutePath) (zip (lm_libraries lm) (lm_cleanedPaths lm)))"

record Folder =
  f_LibraryPath :: string
  f_Path :: string
  f_Name :: string

definition Folder_AbsolutePath :: "Folder \<Rightarrow> string" where
  "Folder_AbsolutePath f = path_join [f_LibraryPath f, f_Path f, f_Name f]"

record User =
  u_IsAdmin :: bool
  u_Libraries :: "Library list"

definition HasLibraryAccess :: "User \<Rightarrow> int \<Rightarrow> bool" where
  "HasLibraryAccess u libraryID \<longleftrightarrow> u_IsAdmin u \<or> list_ex (\<lambda>lib. l_ID lib = libraryID) (u_Libraries u)"

subsection \<open>Paths of a playlist\<close>

record pathResolution =
  absolutePath :: string
  libraryPath :: string
  libraryID :: int

text \<open>A resolution that is not valid is \<open>None\<close>.\<close>

definition findInLibraries :: "LibraryMatcher \<Rightarrow> string \<Rightarrow> pathResolution option" where
  "findInLibraries matcher p =
     (case FindLibrary matcher p of
        None \<Rightarrow> None
      | Some lib \<Rightarrow> Some \<lparr>absolutePath = p, libraryPath = go_clean (l_Path lib), libraryID = l_ID lib\<rparr>)"

definition resolvePath :: "LibraryMatcher \<Rightarrow> string \<Rightarrow> Folder option \<Rightarrow> pathResolution option" where
  "resolvePath matcher line folder =
     findInLibraries matcher
       (case folder of
          Some f \<Rightarrow> if \<not> is_abs line then go_clean (path_join [Folder_AbsolutePath f, line]) else go_clean line
        | None \<Rightarrow> go_clean line)"

definition ToQualifiedString :: "pathResolution \<Rightarrow> string option" where
  "ToQualifiedString r =
     (case path_rel (libraryPath r) (absolutePath r) of
        None \<Rightarrow> None
      | Some relativePath \<Rightarrow> Some (itoa (libraryID r) @ '':'' @ relativePath))"

fun resolvePaths :: "LibraryMatcher \<Rightarrow> Folder option \<Rightarrow> string list \<Rightarrow> string list" where
  "resolvePaths matcher folder [] = []"
| "resolvePaths matcher folder (line # lines) =
     (case resolvePath matcher line folder of
        None \<Rightarrow> resolvePaths matcher folder lines
      | Some r \<Rightarrow>
          (case ToQualifiedString r of
             None \<Rightarrow> resolvePaths matcher folder lines
           | Some q \<Rightarrow> q # resolvePaths matcher folder lines))"

text \<open>\<open>url.PathUnescape\<close>; \<open>None\<close> is its error.\<close>

definition hex_value :: "char \<Rightarrow> nat option" where
  "hex_value c =
     (if is_digit c then Some (byte c - 48)
      else if 97 \<le> byte c \<and> byte c \<le> 102 then Some (byte c - 87)
      else if 65 \<le> byte c \<and> byte c \<le> 70 then Some (byte c - 55) else None)"

fun path_unescape :: "string \<Rightarrow> string option" where
  "path_unescape [] = Some []"
| "path_unescape (c # cs) =
     (if c = CHR ''%'' then
        (case cs of
           a # b # rest \<Rightarrow>
             (case (hex_value a, hex_value b, path_unescape rest) of
                (Some x, Some y, Some r) \<Rightarrow> Some (char_of (16 * x + y) # r)
              | _ \<Rightarrow> None)
         | _ \<Rightarrow> None)
      else map_option ((#) c) (path_unescape cs))"

definition cut_prefix :: "string \<Rightarrow> string \<Rightarrow> string option" where
  "cut_prefix s p = (if has_prefix s p then Some (drop (length p) s) else None)"

definition resolveLocalPath :: "string \<Rightarrow> Folder option \<Rightarrow> string option" where
  "resolveLocalPath val folder =
     (case cut_prefix val ''file://'' of
        Some after \<Rightarrow> map_option go_clean (path_unescape after)
      | None \<Rightarrow>
          if is_abs val then Some (go_clean val)
          else case folder of None \<Rightarrow> None | Some f \<Rightarrow> Some (go_clean (path_join [Folder_AbsolutePath f, val])))"

text \<open>Media types by extension, the normal forms of Unicode, and whether a query fails.\<close>

record m3u_env =
  me_mime :: "string \<Rightarrow> string"
  me_nfc :: "string \<Rightarrow> string"
  me_nfd :: "string \<Rightarrow> string"
  me_external_art :: bool
  me_now :: string
  me_find_fails :: "string list \<Rightarrow> bool"

definition excludeAudioType :: "string list" where
  "excludeAudioType = [''audio/mpegurl'', ''audio/x-mpegurl'', ''audio/x-scpls'']"

definition IsAudioFile :: "m3u_env \<Rightarrow> string \<Rightarrow> bool" where
  "IsAudioFile env filePath \<longleftrightarrow>
     (let mimeType = me_mime env (path_ext filePath) in mimeType \<notin> set excludeAudioType \<and> has_prefix mimeType ''audio/'')"

definition IsImageFile :: "m3u_env \<Rightarrow> string \<Rightarrow> bool" where
  "IsImageFile env filePath \<longleftrightarrow> has_prefix (me_mime env (path_ext filePath)) ''image/''"

definition resolveImageURL :: "m3u_env \<Rightarrow> string \<Rightarrow> Folder option \<Rightarrow> LibraryMatcher \<Rightarrow> User \<Rightarrow> string" where
  "resolveImageURL env v folder matcher owner =
     (let val = trim_space v in
      if val = [] then []
      else if has_prefix val ''http://'' \<or> has_prefix val ''https://'' then (if \<not> me_external_art env then [] else val)
      else case resolveLocalPath val folder of
        None \<Rightarrow> []
      | Some localPath \<Rightarrow>
          if \<not> IsImageFile env localPath then []
          else case FindLibrary matcher localPath of
            None \<Rightarrow> []
          | Some lib \<Rightarrow> if folder = None \<and> \<not> HasLibraryAccess owner (l_ID lib) then [] else localPath)"

subsection \<open>Tracks\<close>

record mfile =
  m_ID :: string
  m_LibraryID :: int
  m_LibraryPath :: string
  m_Path :: string
  m_Artist :: string
  m_Title :: string
  m_Duration :: rat
  m_Size :: int

text \<open>\<open>strings.Cut(path, ":")\<close>, and the library and the path that a qualified path names.\<close>

definition cut_colon :: "string \<Rightarrow> (string \<times> string) option" where
  "cut_colon p = (let a = takeWhile (\<lambda>c. c \<noteq> CHR '':'') p in if length a < length p then Some (a, drop (Suc (length a)) p) else None)"

definition qualified_path :: "string \<Rightarrow> (int \<times> string) option" where
  "qualified_path p = (case cut_colon p of None \<Rightarrow> None | Some (i, rest) \<Rightarrow> map_option (\<lambda>n. (n, rest)) (atoi i))"

text \<open>
  The rows a user may see that have one of the paths, qualified or not; the collation \<open>NOCASE\<close> ignores the case of ASCII
  letters.
\<close>

definition FindByPaths :: "mfile list \<Rightarrow> string list \<Rightarrow> mfile list" where
  "FindByPaths rows paths =
     filter (\<lambda>t. \<exists>p \<in> set paths. equal_fold (m_Path t) p \<or>
       (case qualified_path p of None \<Rightarrow> False | Some (lib, rest) \<Rightarrow> lib = m_LibraryID t \<and> equal_fold (m_Path t) rest)) rows"

subsection \<open>Import\<close>

text \<open>What is read before the tracks are looked up: the name, the picture and the lines that name audio files.\<close>

fun m3u_lines :: "m3u_env \<Rightarrow> Folder option \<Rightarrow> LibraryMatcher \<Rightarrow> User \<Rightarrow> string list \<Rightarrow> string \<times> string \<Rightarrow> (string \<times> string) \<times> string list" where
  "m3u_lines env folder matcher owner [] (name, img) = ((name, img), [])"
| "m3u_lines env folder matcher owner (l # lines) (name, img) =
     (let line = trim_space l in
      case cut_prefix line ''#PLAYLIST:'' of
        Some after \<Rightarrow> m3u_lines env folder matcher owner lines (after, img)
      | None \<Rightarrow>
          (case cut_prefix line ''#EXTALBUMARTURL:'' of
             Some after \<Rightarrow> m3u_lines env folder matcher owner lines (name, resolveImageURL env after folder matcher owner)
           | None \<Rightarrow>
               if line = [] \<or> has_prefix line ''#'' then m3u_lines env folder matcher owner lines (name, img)
               else
                 let line' = (case cut_prefix line ''file://'' of
                                None \<Rightarrow> line
                              | Some after \<Rightarrow> (case path_unescape after of None \<Rightarrow> [] | Some p \<Rightarrow> p))
                 in if \<not> IsAudioFile env line' then m3u_lines env folder matcher owner lines (name, img)
                    else case m3u_lines env folder matcher owner lines (name, img) of
                           (ni, filteredLines) \<Rightarrow> (ni, line' # filteredLines)))"

definition add_unseen :: "string \<Rightarrow> string list \<Rightarrow> string list" where
  "add_unseen p candidates = (if p \<in> set candidates then candidates else candidates @ [p])"

fun lookup_candidates :: "m3u_env \<Rightarrow> string list \<Rightarrow> string list \<Rightarrow> string list" where
  "lookup_candidates env [] acc = acc"
| "lookup_candidates env (path # paths) acc =
     (let nfcRaw = me_nfc env path; nfdRaw = me_nfd env path
      in lookup_candidates env paths
           (add_unseen (go_lower nfdRaw) (add_unseen (go_lower nfcRaw) (add_unseen nfdRaw (add_unseen nfcRaw acc)))))"

definition track_key :: "m3u_env \<Rightarrow> mfile \<Rightarrow> string" where
  "track_key env t = itoa (m_LibraryID t) @ '':'' @ go_lower (me_nfc env (m_Path t))"

definition existing_index :: "m3u_env \<Rightarrow> mfile list \<Rightarrow> string \<rightharpoonup> nat" where
  "existing_index env found = foldl (\<lambda>m idx. m(track_key env (found ! idx) \<mapsto> idx)) Map.empty [0..<length found]"

fun collect_tracks :: "m3u_env \<Rightarrow> mfile list \<Rightarrow> (string \<rightharpoonup> nat) \<Rightarrow> string list \<Rightarrow> mfile list" where
  "collect_tracks env found existing [] = []"
| "collect_tracks env found existing (path # paths) =
     (case existing (go_lower (me_nfc env path)) of
        Some idx \<Rightarrow> found ! idx # collect_tracks env found existing paths
      | None \<Rightarrow> collect_tracks env found existing paths)"

definition find_tracks :: "m3u_env \<Rightarrow> mfile list \<Rightarrow> string list \<Rightarrow> mfile list" where
  "find_tracks env rows resolvedPaths =
     (let candidates = lookup_candidates env resolvedPaths []
      in if me_find_fails env candidates then []
         else let found = FindByPaths rows candidates in collect_tracks env found (existing_index env found) resolvedPaths)"

fun m3u_chunks :: "m3u_env \<Rightarrow> Folder option \<Rightarrow> LibraryMatcher \<Rightarrow> User \<Rightarrow> mfile list \<Rightarrow> string list list \<Rightarrow> string \<times> string \<Rightarrow> (string \<times> string) \<times> mfile list" where
  "m3u_chunks env folder matcher owner rows [] ni = (ni, [])"
| "m3u_chunks env folder matcher owner rows (lines # rest) ni =
     (case m3u_lines env folder matcher owner lines ni of
        (ni', filteredLines) \<Rightarrow>
          (case m3u_chunks env folder matcher owner rows rest ni' of
             (ni'', mfs) \<Rightarrow> (ni'', find_tracks env rows (resolvePaths matcher folder filteredLines) @ mfs)))"

record Playlist =
  pl_Name :: string
  pl_ExternalImageURL :: string
  pl_Tracks :: "(string \<times> mfile) list"
  pl_SongCount :: nat
  pl_Duration :: rat
  pl_Size :: int

definition refreshStats :: "Playlist \<Rightarrow> Playlist" where
  "refreshStats pls =
     pls\<lparr>pl_SongCount := length (pl_Tracks pls),
         pl_Duration := foldl (\<lambda>d (_, t). round_float 24 (d + m_Duration t)) 0 (pl_Tracks pls),
         pl_Size := foldl (\<lambda>n (_, t). wrap64 (n + m_Size t)) 0 (pl_Tracks pls)\<rparr>"

text \<open>Tracks are numbered from the position after the last one.\<close>

definition AddMediaFiles :: "mfile list \<Rightarrow> Playlist \<Rightarrow> Playlist" where
  "AddMediaFiles mfs pls =
     refreshStats (pls\<lparr>pl_Tracks := pl_Tracks pls @
       map (\<lambda>(i, mf). (itoa (int (length (pl_Tracks pls) + i + 1)), mf)) (zip [0..<length mfs] mfs)\<rparr>)"

text \<open>\<open>libs\<close> is the result of the query for the libraries; \<open>reads\<close> are the pieces the reader delivers.\<close>

definition parseM3U :: "m3u_env \<Rightarrow> 'e + Library list \<Rightarrow> mfile list \<Rightarrow> User \<Rightarrow> Playlist \<Rightarrow> Folder option \<Rightarrow> string list \<Rightarrow> 'e + Playlist" where
  "parseM3U env libs rows owner pls folder reads =
     (case libs of
        Inl err \<Rightarrow> Inl err
      | Inr ls \<Rightarrow>
          (case m3u_chunks env folder (NewLibraryMatcher ls) owner rows (CollectChunks (LinesFrom reads) 100)
                  (pl_Name pls, pl_ExternalImageURL pls) of
             ((name, img), mfs) \<Rightarrow>
               Inr (AddMediaFiles mfs (pls\<lparr>pl_Name := (if name = [] then me_now env else name), pl_ExternalImageURL := img, pl_Tracks := []\<rparr>))))"

subsection \<open>Export\<close>

definition MediaFile_AbsolutePath :: "mfile \<Rightarrow> string" where
  "MediaFile_AbsolutePath mf = path_join [m_LibraryPath mf, m_Path mf]"

definition ToM3U8 :: "mfile list \<Rightarrow> string \<Rightarrow> bool \<Rightarrow> string" where
  "ToM3U8 mfs title absolutePaths =
     ''#EXTM3U'' @ [LF] @ ''#PLAYLIST:'' @ title @ [LF] @
     concat (map (\<lambda>t. ''#EXTINF:'' @ itoa (round_even (m_Duration t)) @ '','' @ m_Artist t @ '' - '' @ m_Title t @ [LF] @
       (if absolutePaths then MediaFile_AbsolutePath t else m_Path t) @ [LF]) mfs)"

section \<open>Properties\<close>

subsection \<open>Libraries\<close>

text \<open>All libraries have absolute paths.\<close>

definition absolute_libraries :: "Library list \<Rightarrow> bool" where
  "absolute_libraries libs \<longleftrightarrow> list_all (\<lambda>l. is_abs (l_Path l)) libs"

text \<open>The elements of the path of a library.\<close>

definition lib_elems :: "Library \<Rightarrow> string list" where
  "lib_elems l = clean_elems (l_Path l)"

lemma lib_elems_normal: "absolute_libraries libs \<Longrightarrow> l \<in> set libs \<Longrightarrow> list_all normal (lib_elems l)"
  by (auto simp: absolute_libraries_def list_all_iff lib_elems_def intro: clean_elems_normal [unfolded list_all_iff, rule_format])

lemma lib_clean: "absolute_libraries libs \<Longrightarrow> l \<in> set libs \<Longrightarrow> go_clean (l_Path l) = root_path (lib_elems l)"
  by (simp add: absolute_libraries_def list_all_iff lib_elems_def clean_abs)

lemma contains_path_under: "contains_path d p \<longleftrightarrow> under d p"
  by (simp add: contains_path_def under_def)

lemma find_zip_map: "map_option fst (find (\<lambda>(x, y). P x y) (zip xs (map f xs))) = find (\<lambda>x. P x (f x)) xs"
  by (induction xs) auto

lemma FindLibrary_find:
  "FindLibrary (NewLibraryMatcher libs) p =
    find (\<lambda>l. under (go_clean (l_Path l)) p) (sort_key (\<lambda>l. - int (length (l_Path l))) libs)"
  using find_zip_map [of "\<lambda>_ d. under d p"] by (simp add: FindLibrary_def NewLibraryMatcher_def Let_def contains_path_under)

lemma find_sorted:
  assumes "find P xs = Some x" and "sorted (map f xs)" and "y \<in> set xs" and "P y"
  shows "f x \<le> f y"
  using assms by (induction xs) (auto split: if_splits)

lemma FindLibrary_Some:
  assumes "absolute_libraries libs" and "FindLibrary (NewLibraryMatcher libs) p = Some lib" and "is_abs p" and "go_clean p = p"
  shows "lib \<in> set libs \<and> prefix (lib_elems lib) (clean_elems p)"
proof -
  have lib: "lib \<in> set libs" "under (go_clean (l_Path lib)) p"
    using find_Some_elem [OF assms(2) [unfolded FindLibrary_find]] by simp_all
  moreover have "p = root_path (clean_elems p)" using clean_abs [OF assms(3)] assms(4) by simp
  ultimately show ?thesis
    using under_elems [OF clean_elems_normal [OF assms(3)] lib_elems_normal [OF assms(1) lib(1)]] lib_clean [OF assms(1) lib(1)] by metis
qed

lemma FindLibrary_abs:
  assumes "absolute_libraries libs" and "FindLibrary (NewLibraryMatcher libs) p = Some lib" shows "is_abs p"
proof -
  have lib: "lib \<in> set libs" "under (go_clean (l_Path lib)) p"
    using find_Some_elem [OF assms(2) [unfolded FindLibrary_find]] by simp_all
  then have "prefix (root_path (lib_elems lib)) p" using lib_clean [OF assms(1)] by (simp add: under_def has_prefix_iff)
  then show ?thesis by (auto simp: root_path_def prefix_def)
qed

text \<open>
  For libraries with clean absolute paths, the library found for a clean absolute path contains it, is
  the innermost one that does, and one is found whenever there is one.
\<close>

lemma FindLibrary_innermost:
  assumes "absolute_libraries libs" and "\<forall>l \<in> set libs. go_clean (l_Path l) = l_Path l" and "list_all normal cs"
  shows "(case FindLibrary (NewLibraryMatcher libs) (root_path cs) of
      None \<Rightarrow> \<forall>l \<in> set libs. \<not> prefix (lib_elems l) cs
    | Some lib \<Rightarrow> lib \<in> set libs \<and> prefix (lib_elems lib) cs \<and>
        (\<forall>l \<in> set libs. prefix (lib_elems l) cs \<longrightarrow> prefix (lib_elems l) (lib_elems lib)))"
proof -
  have inside: "under (go_clean (l_Path l)) (root_path cs) \<longleftrightarrow> prefix (lib_elems l) cs" if "l \<in> set libs" for l
    using under_elems [OF assms(3) lib_elems_normal [OF assms(1) that]] lib_clean [OF assms(1) that] by simp
  show ?thesis
  proof (cases "FindLibrary (NewLibraryMatcher libs) (root_path cs)")
    case None
    then have "\<forall>l \<in> set libs. \<not> under (go_clean (l_Path l)) (root_path cs)" by (simp add: FindLibrary_find find_None_all)
    then show ?thesis using None inside by simp
  next
    case (Some lib)
    then have lib: "lib \<in> set libs" "prefix (lib_elems lib) cs"
      using FindLibrary_Some [OF assms(1) Some] by (simp_all add: clean_root clean_elems_root assms(3))
    have "prefix (lib_elems l) (lib_elems lib)" if l: "l \<in> set libs" "prefix (lib_elems l) cs" for l
    proof -
      have "length (l_Path l) \<le> length (l_Path lib)"
        using find_sorted [OF Some [unfolded FindLibrary_find], of "\<lambda>l. - int (length (l_Path l))" l] l inside by simp
      moreover have "l_Path x = root_path (lib_elems x)" if "x \<in> set libs" for x
        using lib_clean [OF assms(1) that] assms(2) that by simp
      ultimately have len: "length (join [slash] (lib_elems l)) \<le> length (join [slash] (lib_elems lib))"
        using l(1) lib(1) by (simp add: root_path_def)
      consider "prefix (lib_elems l) (lib_elems lib)" | "strict_prefix (lib_elems lib) (lib_elems l)"
        using prefix_same_cases [OF l(2) lib(2)] by (metis prefix_order.order_iff_strict)
      then show ?thesis
      proof cases
        case 2
        then obtain e es where e: "lib_elems l = lib_elems lib @ e # es" by (auto elim: strict_prefixE')
        then have "e \<noteq> []" using lib_elems_normal [OF assms(1) l(1)] by (simp add: normal_def)
        then have "length (join [slash] (e # es)) > 0" by (simp add: join_Cons)
        then have "length (join [slash] (lib_elems l)) > length (join [slash] (lib_elems lib))"
          using e by (simp add: join_append)
        then show ?thesis using len by simp
      qed
    qed
    then show ?thesis using Some lib by simp
  qed
qed

lemma FindLibrary_innermost_witness:
  "FindLibrary (NewLibraryMatcher [\<lparr>l_ID = 1, l_Path = ''/m''\<rparr>, \<lparr>l_ID = 2, l_Path = ''/m/rock''\<rparr>]) (root_path [''m'', ''rock'', ''a'']) =
     Some \<lparr>l_ID = 2, l_Path = ''/m/rock''\<rparr> \<and>
   prefix (lib_elems \<lparr>l_ID = 2, l_Path = ''/m/rock''\<rparr>) [''m'', ''rock'', ''a'']"
proof -
  let ?libs = "[\<lparr>l_ID = 1, l_Path = ''/m''\<rparr>, \<lparr>l_ID = 2, l_Path = ''/m/rock''\<rparr>]"
  have "absolute_libraries ?libs" "\<forall>l \<in> set ?libs. go_clean (l_Path l) = l_Path l" "list_all normal [''m'', ''rock'', ''a'']"
    by (simp add: absolute_libraries_def, code_simp, code_simp)
  moreover have "FindLibrary (NewLibraryMatcher ?libs) (root_path [''m'', ''rock'', ''a'']) = Some \<lparr>l_ID = 2, l_Path = ''/m/rock''\<rparr>"
    by code_simp
  ultimately show ?thesis using FindLibrary_innermost [of ?libs "[''m'', ''rock'', ''a'']"] by simp
qed

text \<open>
  The libraries are ordered by the lengths of their paths as they were written: a path that is not clean may come before
  the path of a library inside of it.
\<close>

lemma FindLibrary_unclean:
  "FindLibrary (NewLibraryMatcher [\<lparr>l_ID = 1, l_Path = ''/m/././.''\<rparr>, \<lparr>l_ID = 2, l_Path = ''/m/rock''\<rparr>]) ''/m/rock/a'' =
     Some \<lparr>l_ID = 1, l_Path = ''/m/././.''\<rparr>"
  by code_simp

subsection \<open>Containment\<close>

lemma is_abs_slash: "is_abs p \<Longrightarrow> \<exists>q. p = slash # q"
  by (cases p) auto

lemma path_join_abs: "is_abs a \<Longrightarrow> is_abs (path_join (a # rest)) \<and> go_clean (path_join (a # rest)) = path_join (a # rest)"
proof -
  assume a: "is_abs a"
  then obtain a' where a': "a = slash # a'" using is_abs_slash by blast
  have "path_join (a # rest) = go_clean (join [slash] (a # filter (\<lambda>e. e \<noteq> []) rest))" using a' by (simp add: path_join_def)
  moreover have "is_abs (join [slash] (a # filter (\<lambda>e. e \<noteq> []) rest))" using a' by (simp add: join_Cons)
  ultimately show ?thesis by (simp add: is_abs_clean clean_clean)
qed

lemma Folder_abs: "is_abs (f_LibraryPath f) \<Longrightarrow> is_abs (Folder_AbsolutePath f)"
  by (simp add: Folder_AbsolutePath_def path_join_abs)

text \<open>A path below the folder of a library, and how it is written in a query.\<close>

definition inside_library :: "Library list \<Rightarrow> string \<Rightarrow> Library \<Rightarrow> string list \<Rightarrow> bool" where
  "inside_library libs p lib es \<longleftrightarrow>
     lib \<in> set libs \<and> list_all normal (lib_elems lib @ es) \<and> p = root_path (lib_elems lib @ es) \<and>
     (es \<noteq> [] \<longrightarrow> path_join [l_Path lib, join [slash] es] = p)"

lemma path_join_clean: "is_abs d \<Longrightarrow> e \<noteq> [] \<Longrightarrow> path_join [go_clean d, e] = path_join [d, e]"
proof -
  assume d: "is_abs d" and e: "e \<noteq> []"
  obtain d' where d': "d = slash # d'" using is_abs_slash [OF d] by blast
  have c: "clean_elems (p @ slash # e) = rev (foldl (clean_step True) (rev (clean_elems p)) (split_on slash e))" if abs: "is_abs p" for p
  proof -
    obtain p' where "p = slash # p'" using is_abs_slash [OF abs] by blast
    then have "is_abs (p @ slash # e)" by simp
    then show ?thesis using abs by (simp add: clean_elems_def split_on_sep)
  qed
  have j: "path_join [p, e] = root_path (clean_elems (p @ slash # e))" if abs: "is_abs p" for p
  proof -
    obtain p' where "p = slash # p'" using is_abs_slash [OF abs] by blast
    then show ?thesis using e by (simp add: path_join_def clean_abs)
  qed
  have "clean_elems (go_clean d) = clean_elems d" using d by (simp add: clean_abs clean_elems_root clean_elems_normal)
  then show ?thesis using c [of d] c [of "go_clean d"] j [of d] j [of "go_clean d"] d by (simp add: is_abs_clean)
qed

lemma FindLibrary_inside:
  assumes "absolute_libraries libs" and "FindLibrary (NewLibraryMatcher libs) p = Some lib" and "go_clean p = p"
  shows "\<exists>es. inside_library libs p lib es"
proof -
  have p: "is_abs p" by (rule FindLibrary_abs [OF assms(1,2)])
  have lib: "lib \<in> set libs" "prefix (lib_elems lib) (clean_elems p)" using FindLibrary_Some [OF assms(1,2) p assms(3)] by simp_all
  then obtain es where es: "clean_elems p = lib_elems lib @ es" by (auto simp: prefix_def)
  have n: "list_all normal (lib_elems lib @ es)" using clean_elems_normal [OF p] es by simp
  have root: "p = root_path (lib_elems lib @ es)" using clean_abs [OF p] assms(3) es by simp
  have "path_join [l_Path lib, join [slash] es] = p" if "es \<noteq> []"
  proof -
    have "join [slash] es \<noteq> []" using that n by (cases es) (auto simp: join_Cons normal_def)
    moreover have "is_abs (l_Path lib)" using assms(1) lib(1) by (simp add: absolute_libraries_def list_all_iff)
    ultimately have "path_join [l_Path lib, join [slash] es] = path_join [root_path (lib_elems lib), join [slash] es]"
      using path_join_clean lib_clean [OF assms(1) lib(1)] by metis
    then show ?thesis using join_root [OF n that] root by simp
  qed
  then show ?thesis using lib(1) n root unfolding inside_library_def by blast
qed



text \<open>
  The picture of a playlist is none, the address that was given where external pictures are enabled, or the
  path of an image file inside a library; and for a playlist without a folder this is a library its owner may see.
\<close>

lemma resolveImageURL_safe:
  assumes "absolute_libraries libs"
  shows "(let url = resolveImageURL env v folder (NewLibraryMatcher libs) owner in
    url = [] \<or> (me_external_art env \<and> url = trim_space v \<and> (has_prefix url ''http://'' \<or> has_prefix url ''https://'')) \<or>
    (IsImageFile env url \<and> (\<exists>lib es. inside_library libs url lib es \<and> (folder = None \<longrightarrow> HasLibraryAccess owner (l_ID lib)))))"
proof -
  have "\<exists>es. inside_library libs p lib es"
    if "resolveLocalPath val folder = Some p" "FindLibrary (NewLibraryMatcher libs) p = Some lib" for val p lib
  proof (rule FindLibrary_inside [OF assms that(2)])
    have "\<exists>x. p = go_clean x" using that(1) by (auto simp: resolveLocalPath_def split: option.splits if_splits)
    then obtain x where x: "p = go_clean x" by blast
    then have "is_abs x" using FindLibrary_abs [OF assms that(2)] by (simp add: is_abs_clean)
    then show "go_clean p = p" using x clean_clean by simp
  qed
  note inside = this
  let ?url = "resolveImageURL env v folder (NewLibraryMatcher libs) owner"
  show ?thesis
  proof (cases "?url = []")
    case url: False
    have v: "trim_space v \<noteq> []" using url by (auto simp: resolveImageURL_def)
    show ?thesis
    proof (cases "has_prefix (trim_space v) ''http://'' \<or> has_prefix (trim_space v) ''https://''")
      case True
      then have "me_external_art env \<and> ?url = trim_space v" using url v by (simp add: resolveImageURL_def split: if_splits)
      then show ?thesis using True by (simp add: Let_def)
    next
      case False
      then obtain p where p: "resolveLocalPath (trim_space v) folder = Some p"
        using url v by (cases "resolveLocalPath (trim_space v) folder") (simp_all add: resolveImageURL_def)
      then obtain lib where lib: "FindLibrary (NewLibraryMatcher libs) p = Some lib" "IsImageFile env p"
        using url v False by (cases "FindLibrary (NewLibraryMatcher libs) p"; cases "IsImageFile env p") (simp_all add: resolveImageURL_def)
      have "?url = p \<and> (folder = None \<longrightarrow> HasLibraryAccess owner (l_ID lib))"
        using url v False p lib by (cases folder) (simp_all add: resolveImageURL_def split: if_splits)
      then show ?thesis using inside [OF p lib(1)] lib(2) unfolding Let_def by blast
    qed
  qed (simp add: Let_def)
qed

lemma resolveImageURL_safe_witness:
  "resolveImageURL \<lparr>me_mime = (\<lambda>_. ''image/png''), me_nfc = id, me_nfd = id, me_external_art = False, me_now = [], me_find_fails = (\<lambda>_. False)\<rparr>
     '' file:///m/../m/a%20b.png '' None (NewLibraryMatcher [\<lparr>l_ID = 3, l_Path = ''/m''\<rparr>]) \<lparr>u_IsAdmin = True, u_Libraries = []\<rparr> = ''/m/a b.png'' \<and>
   (\<exists>lib es. inside_library [\<lparr>l_ID = 3, l_Path = ''/m''\<rparr>] ''/m/a b.png'' lib es)"
proof -
  let ?env = "\<lparr>me_mime = (\<lambda>_. ''image/png''), me_nfc = id, me_nfd = id, me_external_art = False, me_now = [], me_find_fails = (\<lambda>_. False)\<rparr>"
  let ?libs = "[\<lparr>l_ID = 3, l_Path = ''/m''\<rparr>]"
  have "absolute_libraries ?libs" by (simp add: absolute_libraries_def)
  moreover have url: "resolveImageURL ?env '' file:///m/../m/a%20b.png '' None (NewLibraryMatcher ?libs) \<lparr>u_IsAdmin = True, u_Libraries = []\<rparr>
    = ''/m/a b.png''" by code_simp
  ultimately show ?thesis
    using resolveImageURL_safe [of ?libs ?env "'' file:///m/../m/a%20b.png ''" None "\<lparr>u_IsAdmin = True, u_Libraries = []\<rparr>"]
    unfolding url Let_def by auto
qed

subsection \<open>Tracks\<close>

text \<open>The lines that name audio files, one by one.\<close>

definition audio_line :: "m3u_env \<Rightarrow> string \<Rightarrow> string option" where
  "audio_line env l =
     (let line = trim_space l; path = (case cut_prefix line ''file://'' of
          None \<Rightarrow> line | Some after \<Rightarrow> (case path_unescape after of None \<Rightarrow> [] | Some p \<Rightarrow> p))
      in if line = [] \<or> has_prefix line ''#'' \<or> \<not> IsAudioFile env path then None else Some path)"

lemma prefix_hash: "has_prefix line (CHR ''#'' # p) \<Longrightarrow> has_prefix line ''#''"
  by (cases line) auto

lemma cut_hash: "cut_prefix line (CHR ''#'' # p) = Some after \<Longrightarrow> has_prefix line ''#''"
  using prefix_hash by (simp add: cut_prefix_def split: if_splits)

lemma m3u_lines_audio: "snd (m3u_lines env folder matcher owner ls ni) = List.map_filter (audio_line env) ls"
proof (induction ls arbitrary: ni)
  case (Cons l ls)
  obtain name img where ni: "ni = (name, img)" by (cases ni)
  show ?case
  proof (cases "trim_space l = [] \<or> has_prefix (trim_space l) ''#''")
    case True
    then have "audio_line env l = None" by (auto simp: audio_line_def)
    then show ?thesis using Cons.IH True ni by (simp add: List.map_filter_simps Let_def split: option.splits)
  next
    case False
    then have "cut_prefix (trim_space l) ''#PLAYLIST:'' = None" "cut_prefix (trim_space l) ''#EXTALBUMARTURL:'' = None"
      using cut_hash [of "trim_space l"] by (fastforce intro: ccontr)+
    moreover obtain ni' fs where "m3u_lines env folder matcher owner ls (name, img) = (ni', fs)" "fs = List.map_filter (audio_line env) ls"
      using Cons.IH [of "(name, img)"] by (cases "m3u_lines env folder matcher owner ls (name, img)") simp
    ultimately show ?thesis using False ni by (simp add: List.map_filter_simps audio_line_def [of env l] Let_def)
  qed
next
  case Nil
  show ?case by (cases ni) (simp add: List.map_filter_simps)
qed

lemma resolvePaths_append: "resolvePaths matcher folder (as @ bs) = resolvePaths matcher folder as @ resolvePaths matcher folder bs"
  by (induction as) (simp_all split: option.splits)

lemma map_filter_append: "List.map_filter f (as @ bs) = List.map_filter f as @ List.map_filter f bs"
  by (simp add: List.map_filter_def)

lemma add_unseen_set [simp]: "set (add_unseen p cs) = insert p (set cs)"
  by (auto simp: add_unseen_def)

lemma lookup_candidates_set:
  "set (lookup_candidates env paths acc) =
    set acc \<union> (\<Union>p \<in> set paths. {me_nfc env p, me_nfd env p, go_lower (me_nfc env p), go_lower (me_nfd env p)})"
  by (induction env paths acc rule: lookup_candidates.induct) (auto simp: Let_def)

text \<open>The last of the found tracks with a key.\<close>

lemma existing_index_upt:
  "foldl (\<lambda>m idx. m(k idx \<mapsto> idx)) Map.empty [0..<n] key = (if \<exists>i < n. k i = key then Some (GREATEST i. i < n \<and> k i = key) else None)"
proof (induction n)
  case (Suc n)
  show ?case
  proof (cases "k n = key")
    case True
    then have "(GREATEST i. i < Suc n \<and> k i = key) = n" by (intro Greatest_equality) auto
    then show ?thesis using True by auto
  next
    case False
    then have "(\<lambda>i. i < Suc n \<and> k i = key) = (\<lambda>i. i < n \<and> k i = key)" by (auto simp: less_Suc_eq)
    then show ?thesis using Suc False by (simp add: less_Suc_eq)
  qed
qed simp

lemma existing_index_find:
  assumes "distinct (map (track_key env) found)"
  shows "map_option ((!) found) (existing_index env found key) = find (\<lambda>t. track_key env t = key) found"
proof (cases "\<exists>i < length found. track_key env (found ! i) = key")
  case True
  then obtain i where i: "i < length found" "track_key env (found ! i) = key" by blast
  have only: "j = i" if "j < length found" "track_key env (found ! j) = key" for j
    using nth_eq_iff_index_eq [OF assms, of j i] that i by simp
  have "(GREATEST j. j < length found \<and> track_key env (found ! j) = key) = i"
  proof (rule Greatest_equality)
    fix j assume "j < length found \<and> track_key env (found ! j) = key"
    then have "j = i" using only [of j] by simp
    then show "j \<le> i" by simp
  qed (simp add: i)
  moreover have "find (\<lambda>t. track_key env t = key) found = Some (found ! i)"
  proof -
    have "track_key env (found ! j) \<noteq> key" if "j < i" for j using only [of j] that i(1) by auto
    then show ?thesis unfolding find_Some_iff using i by (intro exI [of _ i]) simp
  qed
  ultimately show ?thesis using True by (simp add: existing_index_def existing_index_upt)
next
  case False
  then have "find (\<lambda>t. track_key env t = key) found = None" by (auto simp: find_None_iff in_set_conv_nth)
  then show ?thesis using False by (auto simp: existing_index_def existing_index_upt)
qed

lemma collect_tracks_map_filter:
  "collect_tracks env found existing paths = List.map_filter (\<lambda>p. map_option ((!) found) (existing (go_lower (me_nfc env p)))) paths"
  by (induction env found existing paths rule: collect_tracks.induct) (simp_all add: List.map_filter_simps split: option.split)

lemma itoa_no_colon: "CHR '':'' \<notin> set (itoa n)"
  using itoa_chars [of "CHR '':''" n] by (auto simp: is_digit_def byte_def)

lemma go_lower_itoa [simp]: "go_lower (itoa n) = itoa n"
proof -
  have "to_lower_char c = c" if "c \<in> set (itoa n)" for c
    using itoa_chars [OF that] by (auto simp: to_lower_char_def is_digit_def byte_def)
  then show ?thesis by (simp add: go_lower_def map_idI)
qed

lemma qualified_path_itoa:
  assumes "- max_int64 - 1 \<le> lib" and "lib \<le> max_int64"
  shows "qualified_path (itoa lib @ '':'' @ rest) = Some (lib, rest)"
proof -
  have "takeWhile (\<lambda>c. c \<noteq> CHR '':'') (itoa lib @ CHR '':'' # rest) = itoa lib"
    using itoa_no_colon [of lib] by (induction "itoa lib") (auto simp: takeWhile_append)
  then show ?thesis by (simp add: qualified_path_def cut_colon_def atoi_itoa [OF assms])
qed

text \<open>A path that names a library, as the resolver writes them.\<close>

definition names_library :: "string \<Rightarrow> bool" where
  "names_library p \<longleftrightarrow> (\<exists>lib rest. p = itoa lib @ '':'' @ rest \<and> - max_int64 - 1 \<le> lib \<and> lib \<le> max_int64)"

lemma key_found:
  assumes "t \<in> set rows" and "track_key env t = go_lower p" and "names_library p" and "p \<in> set candidates"
    and "me_nfc env (m_Path t) = m_Path t"
  shows "t \<in> set (FindByPaths rows candidates)"
proof -
  obtain lib rest where p: "p = itoa lib @ '':'' @ rest" "- max_int64 - 1 \<le> lib" "lib \<le> max_int64"
    using assms(3) by (auto simp: names_library_def)
  have "to_lower_char CHR '':'' = CHR '':''" by code_simp
  then have "itoa (m_LibraryID t) @ CHR '':'' # go_lower (m_Path t) = itoa lib @ CHR '':'' # go_lower rest"
    using assms(2,5) p(1) go_lower_itoa [of lib] by (simp add: track_key_def go_lower_def)
  then have "itoa (m_LibraryID t) = itoa lib \<and> go_lower (m_Path t) = go_lower rest"
    by (rule sep_cut [OF _ itoa_no_colon itoa_no_colon])
  then have "lib = m_LibraryID t \<and> equal_fold (m_Path t) rest" by (simp add: itoa_inject equal_fold_def)
  then have "case qualified_path p of None \<Rightarrow> False | Some (lib, rest) \<Rightarrow> lib = m_LibraryID t \<and> equal_fold (m_Path t) rest"
    using qualified_path_itoa [OF p(2,3)] p(1) by simp
  then show ?thesis using assms(1,4) unfolding FindByPaths_def by auto
qed

lemma find_filter:
  assumes "\<And>t. t \<in> set xs \<Longrightarrow> P t \<Longrightarrow> Q t" shows "find P (filter Q xs) = find P xs"
  using assms by (induction xs) auto

text \<open>The track a path names: the one with its library and, up to the case of letters, its path.\<close>

definition named_track :: "m3u_env \<Rightarrow> mfile list \<Rightarrow> string \<Rightarrow> mfile option" where
  "named_track env rows p = find (\<lambda>t. track_key env t = go_lower p) rows"

lemma find_tracks_named:
  assumes "distinct (map (track_key env) rows)" and "\<forall>t \<in> set rows. me_nfc env (m_Path t) = m_Path t"
    and "\<forall>p \<in> set paths. names_library p \<and> me_nfc env p = p" and "\<And>c. \<not> me_find_fails env c"
  shows "find_tracks env rows paths = List.map_filter (named_track env rows) paths"
proof -
  let ?c = "lookup_candidates env paths []"
  have "distinct (map (track_key env) (FindByPaths rows ?c))" using assms(1) by (simp add: FindByPaths_def distinct_map_filter)
  then have "find_tracks env rows paths =
      List.map_filter (\<lambda>p. find (\<lambda>t. track_key env t = go_lower (me_nfc env p)) (FindByPaths rows ?c)) paths"
    using assms(4) by (simp add: find_tracks_def collect_tracks_map_filter existing_index_find)
  also have "\<dots> = List.map_filter (named_track env rows) paths"
  proof -
    have "find (\<lambda>t. track_key env t = go_lower (me_nfc env p)) (FindByPaths rows ?c) = named_track env rows p" if p: "p \<in> set paths" for p
    proof -
      have "p \<in> set ?c" using p assms(3) by (auto simp: lookup_candidates_set)
      then have "find (\<lambda>t. track_key env t = go_lower p) (FindByPaths rows ?c) = find (\<lambda>t. track_key env t = go_lower p) rows"
        using key_found [of _ rows env p ?c] assms(2,3) p unfolding FindByPaths_def by (intro find_filter) auto
      then show ?thesis using assms(3) p by (simp add: named_track_def)
    qed
    then show ?thesis by (auto simp: List.map_filter_def intro!: arg_cong [where f = "map the"] filter_cong map_cong)
  qed
  finally show ?thesis .
qed

lemma m3u_chunks_tracks:
  assumes "\<And>ls. set ls \<subseteq> set (concat chunks) \<Longrightarrow>
      find_tracks env rows (resolvePaths matcher folder (List.map_filter (audio_line env) ls)) =
      List.map_filter g (resolvePaths matcher folder (List.map_filter (audio_line env) ls))"
  shows "snd (m3u_chunks env folder matcher owner rows chunks ni) =
    List.map_filter g (resolvePaths matcher folder (List.map_filter (audio_line env) (concat chunks)))"
  using assms
proof (induction chunks arbitrary: ni)
  case (Cons ls chunks)
  obtain ni' fs where l: "m3u_lines env folder matcher owner ls ni = (ni', fs)" by (cases "m3u_lines env folder matcher owner ls ni")
  then have fs: "fs = List.map_filter (audio_line env) ls" using m3u_lines_audio [of env folder matcher owner ls ni] by simp
  obtain ni'' mfs where c: "m3u_chunks env folder matcher owner rows chunks ni' = (ni'', mfs)"
    by (cases "m3u_chunks env folder matcher owner rows chunks ni'")
  have "find_tracks env rows (resolvePaths matcher folder xs) = List.map_filter g (resolvePaths matcher folder xs)"
    if "xs = List.map_filter (audio_line env) ys" "set ys \<subseteq> set (concat chunks)" for xs ys
    using Cons.prems [of ys] that by auto
  then have "mfs = List.map_filter g (resolvePaths matcher folder (List.map_filter (audio_line env) (concat chunks)))"
    using Cons.IH [of ni'] c by simp
  then show ?case using l c fs Cons.prems [of ls] by (simp add: map_filter_append resolvePaths_append)
qed (simp add: List.map_filter_simps)

lemma resolvePaths_names:
  assumes "p \<in> set (resolvePaths (NewLibraryMatcher libs) folder ls)"
    and "\<forall>l \<in> set libs. - max_int64 - 1 \<le> l_ID l \<and> l_ID l \<le> max_int64"
  shows "names_library p"
proof -
  have "names_library q" if r: "resolvePath (NewLibraryMatcher libs) l folder = Some r" "ToQualifiedString r = Some q" for l r q
  proof -
    obtain x lib where x: "FindLibrary (NewLibraryMatcher libs) x = Some lib" "libraryID r = l_ID lib"
      using r(1) by (auto simp: resolvePath_def findInLibraries_def split: option.splits)
    then have "lib \<in> set libs" using find_Some_elem [OF x(1) [unfolded FindLibrary_find]] by simp
    then show ?thesis using assms(2) r(2) x(2) by (auto simp: ToQualifiedString_def names_library_def split: option.splits)
  qed
  then show ?thesis using assms(1) by (induction ls) (auto split: option.splits)
qed

lemma zip_numbered:
  "length xs = length ys \<Longrightarrow> map snd (map (\<lambda>(i, y). (f i, y)) (zip xs ys)) = ys \<and> map fst (map (\<lambda>(i, y). (f i, y)) (zip xs ys)) = map f xs"
  by (induction xs ys rule: list_induct2) auto

lemma AddMediaFiles_tracks:
  "pl_Tracks pls = [] \<Longrightarrow> map snd (pl_Tracks (AddMediaFiles mfs pls)) = mfs \<and>
    map fst (pl_Tracks (AddMediaFiles mfs pls)) = map (\<lambda>i. itoa (int i + 1)) [0..<length mfs]"
  using zip_numbered [of "[0..<length mfs]" mfs "\<lambda>i. itoa (int i + 1)"] by (simp add: AddMediaFiles_def refreshStats_def add.commute)

lemma resolvePaths_mono:
  "set ls \<subseteq> set ls' \<Longrightarrow> set (resolvePaths matcher folder (List.map_filter f ls)) \<subseteq> set (resolvePaths matcher folder (List.map_filter f ls'))"
proof -
  assume sub: "set ls \<subseteq> set ls'"
  have "set (resolvePaths matcher folder xs) = {q. \<exists>x \<in> set xs. \<exists>r. resolvePath matcher x folder = Some r \<and> ToQualifiedString r = Some q}" for xs
    by (induction xs) (auto split: option.splits)
  then show ?thesis using sub by (auto simp: List.map_filter_def)
qed

lemma import_named:
  assumes "distinct (map (track_key env) rows)" and "\<forall>t \<in> set rows. me_nfc env (m_Path t) = m_Path t"
    and "\<forall>c. \<not> me_find_fails env c" and "\<forall>l \<in> set libs. - max_int64 - 1 \<le> l_ID l \<and> l_ID l \<le> max_int64"
    and "\<forall>p \<in> set (resolvePaths (NewLibraryMatcher libs) folder (List.map_filter (audio_line env) (LinesFrom reads))). me_nfc env p = p"
  shows "snd (m3u_chunks env folder (NewLibraryMatcher libs) owner rows (CollectChunks (LinesFrom reads) 100) ni) =
    List.map_filter (named_track env rows) (resolvePaths (NewLibraryMatcher libs) folder (List.map_filter (audio_line env) (LinesFrom reads)))"
proof -
  let ?m = "NewLibraryMatcher libs" and ?chunks = "CollectChunks (LinesFrom reads) 100"
  have cat: "concat ?chunks = LinesFrom reads" by (simp add: CollectChunks_chunk concat_chunk)
  have "find_tracks env rows (resolvePaths ?m folder (List.map_filter (audio_line env) ls)) =
      List.map_filter (named_track env rows) (resolvePaths ?m folder (List.map_filter (audio_line env) ls))"
    if "set ls \<subseteq> set (concat ?chunks)" for ls
    using find_tracks_named [OF assms(1,2)] assms(3,5) resolvePaths_names [OF _ assms(4)] resolvePaths_mono [OF that] cat by (metis subsetD)
  then show ?thesis using m3u_chunks_tracks [of ?chunks env rows ?m folder "named_track env rows" owner] cat by simp
qed

lemma parseM3U_returns: "\<exists>pls'. parseM3U env (Inr libs) rows owner pls folder reads = Inr pls'"
  by (simp add: parseM3U_def split: prod.split)

lemma parseM3U_result:
  assumes "parseM3U env (Inr libs) rows owner pls folder reads = Inr pls'"
  shows "map snd (pl_Tracks pls') = snd (m3u_chunks env folder (NewLibraryMatcher libs) owner rows (CollectChunks (LinesFrom reads) 100)
      (pl_Name pls, pl_ExternalImageURL pls)) \<and>
    map fst (pl_Tracks pls') = map (\<lambda>i. itoa (int i + 1)) [0..<length (pl_Tracks pls')]"
proof -
  obtain name img mfs where c: "m3u_chunks env folder (NewLibraryMatcher libs) owner rows (CollectChunks (LinesFrom reads) 100)
      (pl_Name pls, pl_ExternalImageURL pls) = ((name, img), mfs)" by (metis prod.collapse)
  let ?pls = "pls\<lparr>pl_Name := (if name = [] then me_now env else name), pl_ExternalImageURL := img, pl_Tracks := []\<rparr>"
  have "pls' = AddMediaFiles mfs ?pls" using assms c by (simp add: parseM3U_def)
  then have t: "map snd (pl_Tracks pls') = mfs" "map fst (pl_Tracks pls') = map (\<lambda>i. itoa (int i + 1)) [0..<length mfs]"
    using AddMediaFiles_tracks [of ?pls mfs] by simp_all
  then have "length (pl_Tracks pls') = length mfs" by (metis length_map)
  then show ?thesis using t c by simp
qed

text \<open>
  An imported playlist has, in the order of the file, for each line that names an audio file inside a
  library the track of that library with this path, up to the case of ASCII letters; lines that name no track are left
  out. The tracks are numbered from 1. The batches the lines are looked up in do not show. This is for tracks and paths
  in the composed normal form (as ASCII text is) and queries that do not fail.
\<close>

lemma parseM3U_tracks:
  assumes "distinct (map (track_key env) rows)" and "\<forall>t \<in> set rows. me_nfc env (m_Path t) = m_Path t"
    and "\<forall>c. \<not> me_find_fails env c" and "\<forall>l \<in> set libs. - max_int64 - 1 \<le> l_ID l \<and> l_ID l \<le> max_int64"
    and "\<forall>p \<in> set (resolvePaths (NewLibraryMatcher libs) folder (List.map_filter (audio_line env) (LinesFrom reads))). me_nfc env p = p"
    and "parseM3U env (Inr libs) rows owner pls folder reads = Inr pls'"
  shows "map snd (pl_Tracks pls') = List.map_filter (named_track env rows)
      (resolvePaths (NewLibraryMatcher libs) folder (List.map_filter (audio_line env) (LinesFrom reads))) \<and>
    map fst (pl_Tracks pls') = map (\<lambda>i. itoa (int i + 1)) [0..<length (pl_Tracks pls')]"
  using parseM3U_result [OF assms(6)] import_named [OF assms(1-5)] by metis

subsection \<open>Export and import\<close>

lemma lines_of_line:
  assumes "\<forall>c \<in> set l. c \<noteq> CR \<and> c \<noteq> LF" shows "lines_of (l @ LF # rest) = l # lines_of rest"
proof -
  have at: "newline_at (l @ LF # rest) = Some (length l)"
    using assms unfolding newline_at_def by (induction l) simp_all
  moreover have "newline_end (l @ LF # rest) (length l) = length l + 1" by (simp add: newline_end_def nth_append)
  ultimately show ?thesis by (subst lines_of.simps) simp
qed

lemma trim_space_head: "\<not> is_space c \<Longrightarrow> \<exists>r. trim_space (c # cs) = c # r"
proof -
  assume c: "\<not> is_space c"
  then have "\<exists>ys. dropWhile is_space (rev cs @ [c]) = ys @ [c]" by (simp add: dropWhile_append)
  then obtain ys where "dropWhile is_space (rev cs @ [c]) = ys @ [c]" by blast
  then show ?thesis using c by (simp add: trim_space_def)
qed

lemma trim_space_same: "\<not> is_space c \<Longrightarrow> \<not> is_space (last (c # cs)) \<Longrightarrow> trim_space (c # cs) = c # cs"
proof -
  assume c: "\<not> is_space c" and l: "\<not> is_space (last (c # cs))"
  have "dropWhile is_space (rev (c # cs)) = rev (c # cs)"
    using l unfolding dropWhile_eq_self_iff hd_rev by simp
  then show ?thesis using c by (simp add: trim_space_def)
qed

lemma audio_line_comment: "audio_line env (CHR ''#'' # l) = None"
  using trim_space_head [of "CHR ''#''" l] by (auto simp: audio_line_def is_space_def)

text \<open>The line written before the path of a track.\<close>

definition extinf :: "mfile \<Rightarrow> string" where
  "extinf t = ''#EXTINF:'' @ itoa (round_even (m_Duration t)) @ '','' @ m_Artist t @ '' - '' @ m_Title t"

definition one_line :: "string \<Rightarrow> bool" where
  "one_line s \<longleftrightarrow> (\<forall>c \<in> set s. c \<noteq> CR \<and> c \<noteq> LF)"

lemma one_line_append [simp]: "one_line (a @ b) \<longleftrightarrow> one_line a \<and> one_line b" "one_line (c # s) \<longleftrightarrow> c \<noteq> CR \<and> c \<noteq> LF \<and> one_line s" "one_line []"
  by (auto simp: one_line_def)

lemma one_line_itoa: "one_line (itoa n)"
  using itoa_chars by (fastforce simp: one_line_def is_digit_def byte_def)

text \<open>
  A track whose file is where its library says, in a path without line ends that ends in no blank, and whose tags have
  no line ends.
\<close>

definition exportable :: "m3u_env \<Rightarrow> Library list \<Rightarrow> mfile \<Rightarrow> bool" where
  "exportable env libs t \<longleftrightarrow>
     (\<exists>lib es. FindLibrary (NewLibraryMatcher libs) (MediaFile_AbsolutePath t) = Some lib \<and> l_ID lib = m_LibraryID t \<and>
        l_Path lib = m_LibraryPath t \<and> m_Path t = join [slash] es \<and> es \<noteq> [] \<and> list_all normal es) \<and>
     one_line (MediaFile_AbsolutePath t) \<and> \<not> is_space (last (MediaFile_AbsolutePath t)) \<and> IsAudioFile env (MediaFile_AbsolutePath t) \<and>
     one_line (m_Artist t) \<and> one_line (m_Title t)"

lemma exportable_abs: "absolute_libraries libs \<Longrightarrow> exportable env libs t \<Longrightarrow> is_abs (MediaFile_AbsolutePath t)"
  using FindLibrary_abs by (auto simp: exportable_def)

lemma ToM3U8_lines:
  assumes "one_line title" and "list_all (exportable env libs) mfs"
  shows "lines_of (ToM3U8 mfs title True) = [''#EXTM3U'', ''#PLAYLIST:'' @ title] @ concat (map (\<lambda>t. [extinf t, MediaFile_AbsolutePath t]) mfs)"
proof -
  let ?body = "\<lambda>t. ''#EXTINF:'' @ itoa (round_even (m_Duration t)) @ '','' @ m_Artist t @ '' - '' @ m_Title t @ [LF] @ MediaFile_AbsolutePath t @ [LF]"
  have body: "lines_of (concat (map ?body mfs)) = concat (map (\<lambda>t. [extinf t, MediaFile_AbsolutePath t]) mfs)"
    using assms(2)
  proof (induction mfs)
    case (Cons t mfs)
    have "one_line (extinf t)" "one_line (MediaFile_AbsolutePath t)"
      using Cons.prems one_line_itoa by (simp_all add: exportable_def extinf_def)
    then have "lines_of (extinf t @ LF # MediaFile_AbsolutePath t @ LF # concat (map ?body mfs)) =
        extinf t # MediaFile_AbsolutePath t # lines_of (concat (map ?body mfs))"
      unfolding one_line_def by (simp only: lines_of_line)
    then show ?case using Cons by (simp add: extinf_def)
  qed (simp add: lines_of.simps)
  have "ToM3U8 mfs title True = ''#EXTM3U'' @ LF # (''#PLAYLIST:'' @ title) @ LF # concat (map ?body mfs)" by (simp add: ToM3U8_def)
  moreover have "one_line ''#EXTM3U''" "one_line (''#PLAYLIST:'' @ title)" using assms(1) by simp_all
  ultimately show ?thesis using body unfolding one_line_def by (simp only: lines_of_line) simp
qed

lemma exported_line:
  assumes "absolute_libraries libs" and "exportable env libs t"
  shows "audio_line env (MediaFile_AbsolutePath t) = Some (MediaFile_AbsolutePath t)"
proof -
  obtain r where r: "MediaFile_AbsolutePath t = slash # r" using is_abs_slash [OF exportable_abs [OF assms]] by blast
  have "trim_space (MediaFile_AbsolutePath t) = MediaFile_AbsolutePath t"
    using trim_space_same [of slash r] assms(2) r by (simp add: exportable_def is_space_def [of slash])
  moreover have "cut_prefix (MediaFile_AbsolutePath t) ''file://'' = None" using r by (simp add: cut_prefix_def)
  moreover have "\<not> has_prefix (MediaFile_AbsolutePath t) ''#''" using r by simp
  ultimately show ?thesis using assms(2) r by (simp add: audio_line_def exportable_def)
qed

lemma exported_path:
  assumes "absolute_libraries libs" and "exportable env libs t"
  shows "resolvePaths (NewLibraryMatcher libs) folder [MediaFile_AbsolutePath t] = [itoa (m_LibraryID t) @ '':'' @ m_Path t]"
proof -
  let ?p = "MediaFile_AbsolutePath t"
  obtain lib es where f: "FindLibrary (NewLibraryMatcher libs) ?p = Some lib" "l_ID lib = m_LibraryID t" "l_Path lib = m_LibraryPath t"
    "m_Path t = join [slash] es" "es \<noteq> []" "list_all normal es" using assms(2) by (auto simp: exportable_def)
  have lib: "lib \<in> set libs" using find_Some_elem [OF f(1) [unfolded FindLibrary_find]] by simp
  then have abs: "is_abs (l_Path lib)" using assms(1) by (simp add: absolute_libraries_def list_all_iff)
  have n: "list_all normal (lib_elems lib @ es)" using lib_elems_normal [OF assms(1) lib] f(6) by simp
  have "join [slash] es \<noteq> []" using f(5,6) by (cases es) (auto simp: join_Cons normal_def)
  then have p: "?p = root_path (lib_elems lib @ es)"
    using path_join_clean [OF abs] join_root [OF n f(5)] lib_clean [OF assms(1) lib] f(3,4) by (simp add: MediaFile_AbsolutePath_def)
  then have "resolvePath (NewLibraryMatcher libs) ?p folder =
      Some \<lparr>absolutePath = ?p, libraryPath = root_path (lib_elems lib), libraryID = l_ID lib\<rparr>"
    using clean_root [OF n] f(1) lib_clean [OF assms(1) lib]
    by (cases folder) (simp_all add: resolvePath_def findInLibraries_def)
  then show ?thesis using rel_under [OF n f(5)] p f(2,4) by (simp add: ToQualifiedString_def)
qed

lemma find_distinct_key: "distinct (map f xs) \<Longrightarrow> x \<in> set xs \<Longrightarrow> find (\<lambda>y. f y = f x) xs = Some x"
  by (induction xs) (auto simp: image_iff)

lemma resolvePaths_exported:
  assumes "absolute_libraries libs" and "list_all (exportable env libs) mfs"
  shows "resolvePaths (NewLibraryMatcher libs) folder (map MediaFile_AbsolutePath mfs) = map (\<lambda>t. itoa (m_LibraryID t) @ '':'' @ m_Path t) mfs"
  using assms(2)
proof (induction mfs)
  case (Cons t mfs)
  have "resolvePaths (NewLibraryMatcher libs) folder (MediaFile_AbsolutePath t # map MediaFile_AbsolutePath mfs) =
      resolvePaths (NewLibraryMatcher libs) folder [MediaFile_AbsolutePath t] @ resolvePaths (NewLibraryMatcher libs) folder (map MediaFile_AbsolutePath mfs)"
    using resolvePaths_append [of "NewLibraryMatcher libs" folder "[MediaFile_AbsolutePath t]" "map MediaFile_AbsolutePath mfs"]
    by (simp only: append.simps)
  also have "\<dots> = [itoa (m_LibraryID t) @ '':'' @ m_Path t] @ map (\<lambda>t. itoa (m_LibraryID t) @ '':'' @ m_Path t) mfs"
    using Cons.IH Cons.prems exported_path [OF assms(1), of env t folder] by (simp only: list_all_iff list.set) simp
  finally show ?case by simp
qed simp

lemma exported_lines_audio:
  assumes "absolute_libraries libs" and "one_line title" and "list_all (exportable env libs) mfs"
  shows "List.map_filter (audio_line env) (lines_of (ToM3U8 mfs title True)) = map MediaFile_AbsolutePath mfs"
proof -
  have "List.map_filter (audio_line env) (concat (map (\<lambda>t. [extinf t, MediaFile_AbsolutePath t]) mfs)) = map MediaFile_AbsolutePath mfs"
    using assms(3)
  proof (induction mfs)
    case (Cons t mfs)
    have "audio_line env (extinf t) = None" by (simp add: extinf_def audio_line_comment)
    moreover have "audio_line env (MediaFile_AbsolutePath t) = Some (MediaFile_AbsolutePath t)" using exported_line [OF assms(1)] Cons.prems by simp
    ultimately show ?case using Cons by (simp add: List.map_filter_simps)
  qed (simp add: List.map_filter_simps)
  then show ?thesis
    unfolding ToM3U8_lines [OF assms(2,3)] map_filter_append by (simp add: List.map_filter_simps audio_line_comment)
qed


definition ex_m3u_env :: m3u_env where
  "ex_m3u_env = \<lparr>me_mime = (\<lambda>e. if e = ''.mp3'' then ''audio/mpeg'' else []), me_nfc = (\<lambda>s. s), me_nfd = (\<lambda>s. s), me_external_art = False,
     me_now = ''now'', me_find_fails = (\<lambda>_. False)\<rparr>"

definition ex_mfile :: "string \<Rightarrow> string \<Rightarrow> mfile" where
  "ex_mfile i path = \<lparr>m_ID = i, m_LibraryID = 3, m_LibraryPath = ''/m'', m_Path = path, m_Artist = ''A'', m_Title = ''T'', m_Duration = 61, m_Size = 9\<rparr>"

definition ex_playlist :: Playlist where
  "ex_playlist = \<lparr>pl_Name = [], pl_ExternalImageURL = [], pl_Tracks = [], pl_SongCount = 0, pl_Duration = 0, pl_Size = 0\<rparr>"

abbreviation ex_libs :: "Library list" where
  "ex_libs \<equiv> [\<lparr>l_ID = 3, l_Path = ''/m''\<rparr>]"

abbreviation ex_m3u_rows :: "mfile list" where
  "ex_m3u_rows \<equiv> [ex_mfile ''x'' ''a.mp3'', ex_mfile ''y'' ''b/c.mp3'']"

lemma ex_m3u_lib_ids: "\<forall>l \<in> set ex_libs. - max_int64 - 1 \<le> l_ID l \<and> l_ID l \<le> max_int64"
  by (simp add: max_int64_def)

lemma ex_m3u_keys: "distinct (map (track_key ex_m3u_env) ex_m3u_rows)"
  by (simp add: track_key_def ex_m3u_env_def ex_mfile_def itoa_def show_nat.simps digit_chars go_lower_def to_lower_char_def byte_def)

abbreviation ex_m3u_text :: string where
  "ex_m3u_text \<equiv> '' ../m/B/C.mp3'' @ LF # ''#EXTINF'' @ LF # ''z.mp3'' @ LF # ''a.mp3'' @ [LF]"

abbreviation ex_folder :: Folder where
  "ex_folder \<equiv> \<lparr>f_LibraryPath = ''/m'', f_Path = ''.'', f_Name = []\<rparr>"

lemma ex_m3u_lines: "LinesFrom [ex_m3u_text] = ['' ../m/B/C.mp3'', ''#EXTINF'', ''z.mp3'', ''a.mp3'']"
proof -
  have "lines_of ex_m3u_text = ['' ../m/B/C.mp3'', ''#EXTINF'', ''z.mp3'', ''a.mp3'']"
    by code_simp
  then show ?thesis using scan_from_lines [of "[]" "[ex_m3u_text]" False] by (simp add: LinesFrom_def maxScanTokenSize_def)
qed

lemma ex_m3u_paths:
  "resolvePaths (NewLibraryMatcher ex_libs) (Some ex_folder) (List.map_filter (audio_line ex_m3u_env) (LinesFrom [ex_m3u_text]))
    = [''3:B/C.mp3'', ''3:z.mp3'', ''3:a.mp3'']"
  unfolding ex_m3u_lines by code_simp

lemma parseM3U_tracks_witness:
  "\<exists>pls'. parseM3U ex_m3u_env (Inr ex_libs) ex_m3u_rows \<lparr>u_IsAdmin = False, u_Libraries = []\<rparr> ex_playlist (Some ex_folder) [ex_m3u_text]
       = (Inr pls' :: unit + Playlist) \<and>
     map snd (pl_Tracks pls') = [ex_mfile ''y'' ''b/c.mp3'', ex_mfile ''x'' ''a.mp3'']"
proof -
  let ?run = "parseM3U ex_m3u_env (Inr ex_libs) ex_m3u_rows \<lparr>u_IsAdmin = False, u_Libraries = []\<rparr> ex_playlist (Some ex_folder) [ex_m3u_text] :: unit + Playlist"
  obtain pls' where run: "?run = Inr pls'" using parseM3U_returns by blast
  have named: "List.map_filter (named_track ex_m3u_env ex_m3u_rows) [''3:B/C.mp3'', ''3:z.mp3'', ''3:a.mp3'']
      = [ex_mfile ''y'' ''b/c.mp3'', ex_mfile ''x'' ''a.mp3'']"
    by code_simp
  have norm: "me_nfc ex_m3u_env s = s" "\<not> me_find_fails ex_m3u_env c" for s c by (simp_all add: ex_m3u_env_def)
  have hyps: "\<forall>t \<in> A. me_nfc ex_m3u_env (m_Path t) = m_Path t" "\<forall>c. \<not> me_find_fails ex_m3u_env c" "\<forall>p \<in> B. me_nfc ex_m3u_env p = p" for A B
    using norm by blast+
  note tracks = conjunct1 [OF parseM3U_tracks [OF ex_m3u_keys hyps(1,2) ex_m3u_lib_ids hyps(3) run]]
  have "map snd (pl_Tracks pls') = [ex_mfile ''y'' ''b/c.mp3'', ex_mfile ''x'' ''a.mp3'']"
    unfolding tracks ex_m3u_paths named ..
  with run show ?thesis by (intro exI [of _ pls'] conjI)
qed


end
