(* ===== verification/Lyrics_Cues.thy ===== *)
theory Lyrics_Cues
  imports Str_Util
begin

text \<open>
  Lyrics and their timing: the data of \<open>model/lyrics.go\<close> and the normalisation of \<open>model/lyrics_normalize.go\<close>, which
  fills in and bounds the ends of the words of a line, for each voice on its own. Times are milliseconds; an absent
  pointer is \<open>None\<close>. The positions of a word are the first and the last byte it has in the text of its line.
\<close>

section \<open>Definitions\<close>

record Cue =
  c_Start :: "int option"
  c_End :: "int option"
  c_Value :: string
  c_ByteStart :: int
  c_ByteEnd :: int
  c_AgentID :: string

record Agent =
  a_ID :: string
  a_Role :: string
  a_Name :: string

record Line =
  ln_Start :: "int option"
  ln_End :: "int option"
  ln_Value :: string
  ln_Cue :: "Cue list"

record Lyrics =
  ly_DisplayArtist :: string
  ly_DisplayTitle :: string
  ly_Kind :: string
  ly_Lang :: string
  ly_Agents :: "Agent list"
  ly_Line :: "Line list"
  ly_Offset :: "int option"
  ly_Synced :: bool

definition IsEmpty :: "Lyrics \<Rightarrow> bool" where
  "IsEmpty l \<longleftrightarrow> ly_Line l = []"

definition EffectiveKind :: "Lyrics \<Rightarrow> string" where
  "EffectiveKind l = (if trim_space (ly_Kind l) = [] then ''main'' else ly_Kind l)"

definition IsMainKind :: "Lyrics \<Rightarrow> bool" where
  "IsMainKind l \<longleftrightarrow> EffectiveKind l = ''main''"

definition Main_lyric :: "Lyrics list \<Rightarrow> Lyrics option" where
  "Main_lyric ll = (case ll of [] \<Rightarrow> None | l # _ \<Rightarrow> (case find IsMainKind ll of Some m \<Rightarrow> Some m | None \<Rightarrow> Some l))"

text \<open>The end of one word, given the start of the word after it.\<close>

definition resolve_end :: "int option \<Rightarrow> int option \<Rightarrow> Cue \<Rightarrow> int option" where
  "resolve_end fallbackEnd next_start c =
     (let e = (case c_End c of Some e \<Rightarrow> Some e | None \<Rightarrow> (case next_start of Some s \<Rightarrow> Some s | None \<Rightarrow> fallbackEnd));
          e' = (case (e, next_start) of (Some x, Some s) \<Rightarrow> if x > s then Some s else e | _ \<Rightarrow> e)
      in case (e', c_Start c) of (Some x, Some s) \<Rightarrow> if x < s then Some s else e' | _ \<Rightarrow> e')"

fun resolve_ends :: "int option \<Rightarrow> Cue list \<Rightarrow> Cue list" where
  "resolve_ends fallbackEnd [] = []"
| "resolve_ends fallbackEnd (c # cs) =
     c\<lparr>c_End := resolve_end fallbackEnd (case cs of [] \<Rightarrow> None | d # _ \<Rightarrow> c_Start d) c\<rparr> # resolve_ends fallbackEnd cs"

definition NormalizeCueEnds :: "Cue list \<Rightarrow> int option \<Rightarrow> Cue list" where
  "NormalizeCueEnds cues fallbackEnd =
     (let out = resolve_ends fallbackEnd cues
      in if list_ex (\<lambda>c. c_End c = None) out then map (\<lambda>c. c\<lparr>c_End := None\<rparr>) out else out)"

text \<open>The ids in the order they are first seen, and the positions of an id.\<close>

fun agent_order :: "string list \<Rightarrow> string list \<Rightarrow> string list" where
  "agent_order order [] = order"
| "agent_order order (i # ids) = agent_order (if i \<in> set order then order else order @ [i]) ids"

definition agent_positions :: "Cue list \<Rightarrow> string \<Rightarrow> nat list" where
  "agent_positions cues i = filter (\<lambda>p. c_AgentID (cues ! p) = i) [0..<length cues]"

definition place_group :: "Cue list \<Rightarrow> int option \<Rightarrow> string \<Rightarrow> Cue list \<Rightarrow> Cue list" where
  "place_group cues fallbackEnd i out =
     (let idxs = agent_positions cues i; group = NormalizeCueEnds (map ((!) cues) idxs) fallbackEnd
      in foldl (\<lambda>res (p, c). res[p := c]) out (zip idxs group))"

definition normalizeCueEndsByAgent :: "Cue list \<Rightarrow> int option \<Rightarrow> Cue list" where
  "normalizeCueEndsByAgent cues fallbackEnd =
     (let order = agent_order [] (map c_AgentID cues)
      in if length order \<le> 1 then NormalizeCueEnds cues fallbackEnd
         else foldl (\<lambda>out i. place_group cues fallbackEnd i out) cues order)"

text \<open>The earliest start and the latest end; a word without an end counts with its start.\<close>

definition earlier :: "int option \<Rightarrow> int option \<Rightarrow> int option" where
  "earlier a b = (case (a, b) of (None, _) \<Rightarrow> b | (_, None) \<Rightarrow> a | (Some x, Some y) \<Rightarrow> if y < x then b else a)"

definition later :: "int option \<Rightarrow> int option \<Rightarrow> int option" where
  "later a b = (case (a, b) of (None, _) \<Rightarrow> b | (_, None) \<Rightarrow> a | (Some x, Some y) \<Rightarrow> if y > x then b else a)"

definition normalizeLineTiming :: "Line \<Rightarrow> Line" where
  "normalizeLineTiming line =
     (if ln_Cue line = [] then line
      else let earliestStart = foldl (\<lambda>a c. earlier a (c_Start c)) None (ln_Cue line);
               latestEnd = foldl (\<lambda>a c. later a (case c_End c of None \<Rightarrow> c_Start c | Some e \<Rightarrow> Some e)) None (ln_Cue line)
           in line\<lparr>ln_Start := (case ln_Start line of None \<Rightarrow> earliestStart | Some s \<Rightarrow> Some s),
                   ln_End := (case ln_End line of None \<Rightarrow> latestEnd | Some e \<Rightarrow> Some e)\<rparr>)"

definition normalizeCueLine :: "Line \<Rightarrow> int option \<Rightarrow> Line" where
  "normalizeCueLine line fallbackEnd =
     (if ln_Cue line = [] then line
      else normalizeLineTiming (line\<lparr>ln_Cue := normalizeCueEndsByAgent (ln_Cue line) fallbackEnd\<rparr>))"

fun normalizeCueLines :: "Line list \<Rightarrow> Line list" where
  "normalizeCueLines [] = []"
| "normalizeCueLines (line # rest) =
     normalizeCueLine line
       (case ln_End line of Some e \<Rightarrow> Some e | None \<Rightarrow> (case rest of [] \<Rightarrow> None | l # _ \<Rightarrow> ln_Start l))
     # normalizeCueLines rest"

definition normalizeLyrics :: "Lyrics \<Rightarrow> Lyrics" where
  "normalizeLyrics lyrics = lyrics\<lparr>ly_Line := normalizeCueLines (ly_Line lyrics)\<rparr>"

definition normalizeLyricLang :: "string \<Rightarrow> string" where
  "normalizeLyricLang lang = (let l = go_lower (trim_space lang) in if l = [] then ''xxx'' else l)"

section \<open>The ends of words\<close>

text \<open>What the ends of a normalised group satisfy; \<open>next_start\<close> is the start of the word after it.\<close>

definition end_ok :: "int option \<Rightarrow> Cue \<Rightarrow> bool" where
  "end_ok next_start c \<longleftrightarrow>
     (\<exists>e. c_End c = Some e \<and> (\<forall>s. c_Start c = Some s \<longrightarrow> s \<le> e) \<and>
        (\<forall>n. next_start = Some n \<longrightarrow> e \<le> n \<or> c_Start c = Some e))"

fun ends_ok :: "Cue list \<Rightarrow> bool" where
  "ends_ok [] \<longleftrightarrow> True"
| "ends_ok (c # cs) \<longleftrightarrow> end_ok (case cs of [] \<Rightarrow> None | d # _ \<Rightarrow> c_Start d) c \<and> ends_ok cs"

text \<open>A word without its end.\<close>

definition no_end :: "Cue \<Rightarrow> Cue" where
  "no_end c = c\<lparr>c_End := None\<rparr>"

lemma resolve_ends_no_end [simp]: "map no_end (resolve_ends fb cs) = map no_end cs"
  by (induction cs) (simp_all add: no_end_def)

lemma resolve_ends_length [simp]: "length (resolve_ends fb cs) = length cs"
  by (induction cs) simp_all

lemma resolve_ends_start: "(case resolve_ends fb cs of [] \<Rightarrow> None | d # _ \<Rightarrow> c_Start d) = (case cs of [] \<Rightarrow> None | d # _ \<Rightarrow> c_Start d)"
  by (cases cs) simp_all

lemma resolve_end_ok: "resolve_end fb n c = Some e \<Longrightarrow> end_ok n (c\<lparr>c_End := Some e\<rparr>)"
  by (auto simp: resolve_end_def end_ok_def Let_def split: option.splits if_splits)

lemma resolve_ends_ok: "list_all (\<lambda>c. c_End c \<noteq> None) (resolve_ends fb cs) \<Longrightarrow> ends_ok (resolve_ends fb cs)"
proof (induction cs)
  case (Cons c cs)
  obtain e where e: "resolve_end fb (case cs of [] \<Rightarrow> None | d # _ \<Rightarrow> c_Start d) c = Some e" using Cons.prems by auto
  then show ?case using Cons resolve_end_ok [OF e] resolve_ends_start [of fb cs] by simp
qed simp

lemma NormalizeCueEnds_no_end [simp]: "map no_end (NormalizeCueEnds cs fb) = map no_end cs"
proof -
  have "no_end \<circ> (\<lambda>c. c\<lparr>c_End := None\<rparr>) = no_end" by (simp add: fun_eq_iff no_end_def)
  then show ?thesis using resolve_ends_no_end [of fb cs] by (simp add: NormalizeCueEnds_def Let_def)
qed

lemma NormalizeCueEnds_all_or_none:
  "list_all (\<lambda>c. c_End c = None) (NormalizeCueEnds cs fb) \<or> ends_ok (NormalizeCueEnds cs fb)"
  using resolve_ends_ok [of fb cs] by (auto simp: NormalizeCueEnds_def Let_def list_all_iff list_ex_iff)

lemma resolve_end_known:
  assumes "\<And>e. c_End c = Some e \<Longrightarrow> end_ok n c" and "c_End c = Some e" shows "resolve_end fb n c = Some e"
  using assms by (auto simp: resolve_end_def end_ok_def Let_def split: option.splits)

lemma resolve_ends_known: "ends_ok cs \<Longrightarrow> resolve_ends fb cs = cs"
proof (induction cs)
  case (Cons c cs)
  then obtain e where e: "c_End c = Some e" by (auto simp: end_ok_def)
  have "resolve_end fb (case cs of [] \<Rightarrow> None | d # _ \<Rightarrow> c_Start d) c = Some e"
    by (rule resolve_end_known [OF _ e]) (use Cons.prems in simp)
  then show ?case using Cons e by simp
qed simp

lemma ends_ok_known: "ends_ok cs \<Longrightarrow> list_all (\<lambda>c. c_End c \<noteq> None) cs"
  by (induction cs) (auto simp: end_ok_def)

lemma NormalizeCueEnds_Nil [simp]: "NormalizeCueEnds [] fb = []"
  by (simp add: NormalizeCueEnds_def)

lemma NormalizeCueEnds_length [simp]: "length (NormalizeCueEnds cs fb) = length cs"
  using NormalizeCueEnds_no_end [of cs fb] by (metis length_map)

lemma resolve_ends_none:
  assumes "c \<in> set (resolve_ends fb cs)" and "c_End c = None"
  shows "list_ex (\<lambda>c. c_End c = None) (resolve_ends fb (map no_end cs))"
  using assms
proof (induction cs)
  case (Cons d cs)
  have hd: "(case map no_end cs of [] \<Rightarrow> None | d # _ \<Rightarrow> c_Start d) = (case cs of [] \<Rightarrow> None | d # _ \<Rightarrow> c_Start d)"
    by (cases cs) (simp_all add: no_end_def)
  have "resolve_end fb n (no_end d) = None" if "resolve_end fb n d = None" for n
    using that by (auto simp: resolve_end_def no_end_def Let_def split: option.splits if_splits)
  then show ?case using Cons hd by auto
qed simp

lemma no_end_map_cleared: "map (\<lambda>c. c\<lparr>c_End := None\<rparr>) (map no_end cs) = map no_end cs" "map (\<lambda>c. c\<lparr>c_End := None\<rparr>) xs = map no_end xs"
  by (simp_all add: no_end_def)

text \<open>
  In a group of words the ends are known for all words or for none. Where they are known, no word ends
  before it starts, and none ends after the next one starts unless it starts after the next one itself; everything but
  the ends is as it was. Normalising once more changes nothing.
\<close>

lemma NormalizeCueEnds_spec:
  "(list_all (\<lambda>c. c_End c = None) (NormalizeCueEnds cues fb) \<or> ends_ok (NormalizeCueEnds cues fb)) \<and>
   map no_end (NormalizeCueEnds cues fb) = map no_end cues \<and>
   NormalizeCueEnds (NormalizeCueEnds cues fb) fb = NormalizeCueEnds cues fb"
proof -
  have "NormalizeCueEnds (NormalizeCueEnds cues fb) fb = NormalizeCueEnds cues fb"
  proof (cases "list_ex (\<lambda>c. c_End c = None) (resolve_ends fb cues)")
    case True
    then have out: "NormalizeCueEnds cues fb = map no_end cues"
      using resolve_ends_no_end [of fb cues] by (simp add: NormalizeCueEnds_def no_end_map_cleared(2) del: resolve_ends_no_end)
    have "list_ex (\<lambda>c. c_End c = None) (resolve_ends fb (map no_end cues))"
      using True resolve_ends_none unfolding list_ex_iff [of _ "resolve_ends fb cues"] by blast
    moreover have "map no_end (map no_end cues) = map no_end cues" by (simp add: no_end_def)
    ultimately show ?thesis
      unfolding out using resolve_ends_no_end [of fb "map no_end cues"]
      by (simp add: NormalizeCueEnds_def no_end_map_cleared(2) del: resolve_ends_no_end map_map)
  next
    case False
    then have ok: "ends_ok (resolve_ends fb cues)" using resolve_ends_ok [of fb cues] by (auto simp: list_all_iff list_ex_iff)
    then show ?thesis using False resolve_ends_known [OF ok] by (simp add: NormalizeCueEnds_def)
  qed
  then show ?thesis using NormalizeCueEnds_all_or_none [of cues fb] by simp
qed

section \<open>Voices\<close>

lemma foldl_update_length [simp]: "length (foldl (\<lambda>res (p, c). res[p := c]) out pcs) = length out"
  by (induction pcs arbitrary: out) (auto split: prod.splits)

lemma foldl_update_other: "p \<notin> set ps \<Longrightarrow> foldl (\<lambda>res (p, c). res[p := c]) out (zip ps cs) ! p = out ! p"
proof (induction ps arbitrary: out cs)
  case (Cons q ps)
  then show ?case by (cases cs) auto
qed simp

lemma foldl_update_placed:
  assumes "length ps = length cs" and "distinct ps" and "\<forall>p \<in> set ps. p < length out"
  shows "map ((!) (foldl (\<lambda>res (p, c). res[p := c]) out (zip ps cs))) ps = cs"
  using assms
proof (induction ps cs arbitrary: out rule: list_induct2)
  case (Cons p ps c cs)
  then show ?case using foldl_update_other [of p ps "out[p := c]" cs] by simp
qed simp

lemma agent_positions_bounds: "p \<in> set (agent_positions cues i) \<longleftrightarrow> p < length cues \<and> c_AgentID (cues ! p) = i"
  by (auto simp: agent_positions_def)

lemma agent_positions_distinct: "distinct (agent_positions cues i)"
  by (simp add: agent_positions_def)

lemma filter_positions: "filter P xs = map ((!) xs) (filter (\<lambda>p. P (xs ! p)) [0..<length xs])"
proof -
  have "filter P xs = filter P (map ((!) xs) [0..<length xs])" by (simp add: map_nth)
  then show ?thesis by (simp add: filter_map comp_def)
qed

lemma agent_cues: "map ((!) cues) (agent_positions cues i) = filter (\<lambda>c. c_AgentID c = i) cues"
  using filter_positions [of "\<lambda>c. c_AgentID c = i" cues] by (simp add: agent_positions_def)

lemma place_group_length [simp]: "length (place_group cues fb i out) = length out"
  by (simp add: place_group_def Let_def)

lemma place_group_own:
  "length out = length cues \<Longrightarrow> map ((!) (place_group cues fb i out)) (agent_positions cues i) = NormalizeCueEnds (filter (\<lambda>c. c_AgentID c = i) cues) fb"
  unfolding place_group_def Let_def agent_cues
  by (intro foldl_update_placed)
    (auto simp: agent_positions_bounds agent_positions_distinct agent_cues [symmetric])

lemma place_group_other:
  "i \<noteq> j \<Longrightarrow> map ((!) (place_group cues fb i out)) (agent_positions cues j) = map ((!) out) (agent_positions cues j)"
  by (auto simp: place_group_def Let_def foldl_update_other agent_positions_bounds)

lemma place_groups:
  assumes "length out = length cues" and "i \<in> set order \<or> map ((!) out) (agent_positions cues i) = NormalizeCueEnds (filter (\<lambda>c. c_AgentID c = i) cues) fb"
  shows "map ((!) (foldl (\<lambda>out i. place_group cues fb i out) out order)) (agent_positions cues i) = NormalizeCueEnds (filter (\<lambda>c. c_AgentID c = i) cues) fb"
  using assms
proof (induction order arbitrary: out)
  case (Cons j order)
  have "i \<in> set order \<or> map ((!) (place_group cues fb j out)) (agent_positions cues i) = NormalizeCueEnds (filter (\<lambda>c. c_AgentID c = i) cues) fb"
  proof (cases "i = j")
    case True
    then show ?thesis using place_group_own [OF Cons.prems(1), of fb i] by metis
  next
    case False
    then show ?thesis using Cons.prems(2) place_group_other [of j i cues fb out] by (metis set_ConsD)
  qed
  then show ?case using Cons by simp
qed simp

lemma place_groups_length [simp]: "length (foldl (\<lambda>out i. place_group cues fb i out) out order) = length out"
  by (induction order arbitrary: out) simp_all

lemma agent_order_set: "set (agent_order order ids) = set order \<union> set ids"
  by (induction order ids rule: agent_order.induct) auto

lemma agent_order_mono: "length order \<le> length (agent_order order ids)"
  by (induction order ids rule: agent_order.induct) (auto intro: le_trans [rotated])

lemma agent_order_hd: "length (agent_order order ids) \<le> 1 \<Longrightarrow> i \<in> set (agent_order order ids) \<Longrightarrow> j \<in> set (agent_order order ids) \<Longrightarrow> i = j"
  by (cases "agent_order order ids") auto

lemma no_end_AgentID: "c_AgentID (no_end c) = c_AgentID c"
  by (simp add: no_end_def)

text \<open>A word at a position keeps everything but its end, whatever the groups that are placed.\<close>

lemma foldl_update_no_end:
  assumes "length ps = length cs" and "map no_end cs = map (\<lambda>p. no_end (out ! p)) ps" and "distinct ps"
  shows "map no_end (foldl (\<lambda>res (p, c). res[p := c]) out (zip ps cs)) = map no_end out"
  using assms
proof (induction ps cs arbitrary: out rule: list_induct2)
  case (Cons p ps c cs)
  have "map (\<lambda>q. no_end (out[p := c] ! q)) ps = map (\<lambda>q. no_end (out ! q)) ps"
    using Cons.prems(2) by (intro map_cong refl) (metis distinct.simps(2) nth_list_update_neq)
  moreover have "map no_end (out[p := c]) = map no_end out"
    using Cons.prems(1) by (cases "p < length out") (simp_all add: map_update list_update_same_conv list_update_beyond)
  ultimately show ?case using Cons by simp
qed simp

lemma place_group_no_end:
  assumes "map no_end out = map no_end cues" shows "map no_end (place_group cues fb i out) = map no_end cues"
proof -
  have len: "length out = length cues" using assms by (metis length_map)
  have "no_end (out ! p) = no_end (cues ! p)" if "p < length cues" for p using assms that len by (metis nth_map)
  then have same: "map (\<lambda>p. no_end (out ! p)) (agent_positions cues i) = map (\<lambda>p. no_end (cues ! p)) (agent_positions cues i)"
    by (simp add: agent_positions_bounds)
  have "map no_end (NormalizeCueEnds (map ((!) cues) (agent_positions cues i)) fb) = map (\<lambda>p. no_end (out ! p)) (agent_positions cues i)"
    by (simp add: same comp_def)
  then show ?thesis unfolding place_group_def Let_def
    using foldl_update_no_end [of "agent_positions cues i"] assms by (simp add: agent_positions_distinct)
qed

lemma place_groups_no_end:
  "map no_end out = map no_end cues \<Longrightarrow> map no_end (foldl (\<lambda>out i. place_group cues fb i out) out order) = map no_end cues"
  by (induction order arbitrary: out) (simp_all add: place_group_no_end)

lemma ByAgent_no_end: "map no_end (normalizeCueEndsByAgent cues fb) = map no_end cues"
  by (simp add: normalizeCueEndsByAgent_def Let_def place_groups_no_end)

lemma no_end_positions:
  assumes "map no_end out = map no_end cues" shows "agent_positions out i = agent_positions cues i"
proof -
  have len: "length out = length cues" using assms by (metis length_map)
  have "c_AgentID (out ! p) = c_AgentID (cues ! p)" if "p < length cues" for p
    using assms that len by (metis nth_map no_end_AgentID)
  then show ?thesis unfolding agent_positions_def len by (intro filter_cong) auto
qed

lemma NormalizeCueEnds_agents:
  assumes "map no_end out = map no_end cues" and "list_all (\<lambda>c. c_AgentID c = i) cues"
  shows "filter (\<lambda>c. c_AgentID c = i) out = out"
proof -
  have "list_all (\<lambda>c. c_AgentID c = i) (map no_end out)" using assms by (simp add: list.pred_map comp_def no_end_AgentID)
  then show ?thesis by (simp add: list_all_iff no_end_AgentID filter_id_conv)
qed

lemma ByAgent_single:
  assumes "length (agent_order [] (map c_AgentID cues)) \<le> 1"
  shows "filter (\<lambda>c. c_AgentID c = i) (NormalizeCueEnds cues fb) = NormalizeCueEnds (filter (\<lambda>c. c_AgentID c = i) cues) fb"
proof (cases "i \<in> c_AgentID ` set cues")
  case True
  then have mem: "i \<in> set (agent_order [] (map c_AgentID cues))" by (simp add: agent_order_set)
  have "c_AgentID c = i" if "c \<in> set cues" for c
    by (rule agent_order_hd [OF assms _ mem]) (use that in \<open>simp add: agent_order_set\<close>)
  then have all: "list_all (\<lambda>c. c_AgentID c = i) cues" by (simp add: list_all_iff)
  then have "filter (\<lambda>c. c_AgentID c = i) cues = cues" by (simp add: list_all_iff filter_id_conv)
  then show ?thesis using NormalizeCueEnds_agents [OF NormalizeCueEnds_no_end all] by simp
next
  case False
  have "agent_positions (NormalizeCueEnds cues fb) i = agent_positions cues i" by (rule no_end_positions) simp
  moreover have "agent_positions cues i = []" using False by (auto simp: agent_positions_def filter_empty_conv)
  ultimately show ?thesis using agent_cues [of cues i] agent_cues [of "NormalizeCueEnds cues fb" i] by simp
qed

text \<open>
  C19 (equivalence): The words of several voices that sing together are normalised as if each voice were alone: the words
  of a voice in the result are those of the voice on its own, normalised, and the words stand where they stood, with
  everything but their ends as it was.
\<close>

theorem normalizeCueEndsByAgent_each:
  "filter (\<lambda>c. c_AgentID c = i) (normalizeCueEndsByAgent cues fb) = NormalizeCueEnds (filter (\<lambda>c. c_AgentID c = i) cues) fb \<and>
   map no_end (normalizeCueEndsByAgent cues fb) = map no_end cues"
proof (cases "length (agent_order [] (map c_AgentID cues)) \<le> 1")
  case True
  then show ?thesis using ByAgent_no_end [of cues fb] ByAgent_single [OF True, of i fb] by (simp add: normalizeCueEndsByAgent_def)
next
  case False
  define out where "out = normalizeCueEndsByAgent cues fb"
  have out: "out = foldl (\<lambda>out i. place_group cues fb i out) cues (agent_order [] (map c_AgentID cues))"
    using False by (simp add: out_def normalizeCueEndsByAgent_def Let_def)
  have pos: "agent_positions out i = agent_positions cues i" unfolding out_def by (rule no_end_positions) (rule ByAgent_no_end)
  have own: "i \<in> set (agent_order [] (map c_AgentID cues)) \<or> map ((!) cues) (agent_positions cues i) = NormalizeCueEnds (filter (\<lambda>c. c_AgentID c = i) cues) fb"
  proof (cases "i \<in> c_AgentID ` set cues")
    case False
    then have "filter (\<lambda>c. c_AgentID c = i) cues = []" by (auto simp: filter_empty_conv)
    then show ?thesis using agent_cues [of cues i] by simp
  qed (simp add: agent_order_set)
  have "map ((!) out) (agent_positions cues i) = NormalizeCueEnds (filter (\<lambda>c. c_AgentID c = i) cues) fb"
    unfolding out by (rule place_groups [OF refl own])
  then show ?thesis using agent_cues [of out i] pos ByAgent_no_end [of cues fb] by (simp add: out_def)
qed

section \<open>The bytes of words\<close>

text \<open>A word that is not empty has its bytes in the text of the line at the positions it names.\<close>

definition cue_at :: "string \<Rightarrow> Cue \<Rightarrow> bool" where
  "cue_at val c \<longleftrightarrow>
     c_Value c = [] \<or>
     (0 \<le> c_ByteStart c \<and> c_ByteEnd c + 1 = c_ByteStart c + int (length (c_Value c)) \<and>
      take (length (c_Value c)) (drop (nat (c_ByteStart c)) val) = c_Value c)"

definition cues_placed :: "Line \<Rightarrow> bool" where
  "cues_placed l \<longleftrightarrow> list_all (cue_at (ln_Value l)) (ln_Cue l)"

definition lyrics_placed :: "Lyrics \<Rightarrow> bool" where
  "lyrics_placed ly \<longleftrightarrow> list_all cues_placed (ly_Line ly)"

lemma cue_at_no_end: "cue_at val (no_end c) \<longleftrightarrow> cue_at val c"
  by (simp add: cue_at_def no_end_def)

lemma cue_at_same: "map no_end cs = map no_end ds \<Longrightarrow> list_all (cue_at val) cs \<longleftrightarrow> list_all (cue_at val) ds"
proof -
  assume "map no_end cs = map no_end ds"
  then have "list_all (cue_at val) (map no_end cs) \<longleftrightarrow> list_all (cue_at val) (map no_end ds)" by (rule arg_cong)
  then show ?thesis by (simp add: list.pred_map comp_def cue_at_no_end)
qed

lemma normalizeLineTiming_cues [simp]: "ln_Cue (normalizeLineTiming l) = ln_Cue l" "ln_Value (normalizeLineTiming l) = ln_Value l"
  by (simp_all add: normalizeLineTiming_def Let_def)

lemma normalizeCueLine_placed: "cues_placed (normalizeCueLine l fb) \<longleftrightarrow> cues_placed l"
  using cue_at_same [OF ByAgent_no_end, of "ln_Value l" "ln_Cue l" fb]
  by (simp add: normalizeCueLine_def cues_placed_def)

lemma normalizeCueLines_placed: "list_all cues_placed (normalizeCueLines ls) \<longleftrightarrow> list_all cues_placed ls"
  by (induction ls) (simp_all add: normalizeCueLine_placed)

lemma normalizeLyrics_placed [simp]: "lyrics_placed (normalizeLyrics ly) \<longleftrightarrow> lyrics_placed ly"
  by (simp add: lyrics_placed_def normalizeLyrics_def normalizeCueLines_placed)

section \<open>The voices a text declares\<close>

text \<open>
  Where no voice is declared, no word names one. Otherwise the ids of the voices are distinct, every word names one of
  them, and exactly one of them is the main voice.
\<close>

definition cue_agents :: "Line list \<Rightarrow> string set" where
  "cue_agents ls = (\<Union>l \<in> set ls. c_AgentID ` set (ln_Cue l))"

definition voices_declared :: "Line list \<Rightarrow> Agent list \<Rightarrow> bool" where
  "voices_declared lines agents \<longleftrightarrow>
     (if agents = [] then cue_agents lines \<subseteq> {[]}
      else distinct (map a_ID agents) \<and> cue_agents lines \<subseteq> a_ID ` set agents \<and>
           length (filter (\<lambda>a. a_Role a = ''main'') agents) = 1)"

definition agents_declared :: "Lyrics \<Rightarrow> bool" where
  "agents_declared ly \<longleftrightarrow> voices_declared (ly_Line ly) (ly_Agents ly)"

definition lyrics_wf :: "Lyrics \<Rightarrow> bool" where
  "lyrics_wf ly \<longleftrightarrow> lyrics_placed ly \<and> agents_declared ly"

lemma cue_agents_simps [simp]:
  "cue_agents [] = {}" "cue_agents (l # ls) = c_AgentID ` set (ln_Cue l) \<union> cue_agents ls" "cue_agents (ls @ ms) = cue_agents ls \<union> cue_agents ms"
  by (auto simp: cue_agents_def)

lemma no_end_agents:
  assumes "map no_end cs = map no_end ds" shows "c_AgentID ` set cs = c_AgentID ` set ds"
proof -
  have "c_AgentID ` no_end ` set cs = c_AgentID ` no_end ` set ds" using assms by (metis set_map)
  then show ?thesis by (simp add: image_image no_end_AgentID)
qed

lemma normalizeCueLine_agents: "c_AgentID ` set (ln_Cue (normalizeCueLine l fb)) = c_AgentID ` set (ln_Cue l)"
  using no_end_agents [OF ByAgent_no_end, of "ln_Cue l" fb] by (simp add: normalizeCueLine_def)

lemma normalizeCueLines_agents [simp]: "cue_agents (normalizeCueLines ls) = cue_agents ls"
  by (induction ls) (simp_all add: normalizeCueLine_agents)

lemma normalizeLyrics_wf [simp]: "lyrics_wf (normalizeLyrics ly) \<longleftrightarrow> lyrics_wf ly"
  by (simp add: lyrics_wf_def agents_declared_def voices_declared_def) (simp add: normalizeLyrics_def)

end
