(* ===== verification/Lyrics_File.thy ===== *)
theory Lyrics_File
  imports Lyrics_Cues
begin

text \<open>
  Lyrics files of LRCLIB, \<open>model/lyrics_lyricsfile.go\<close>: the words of a line with the bytes they have in it, and the
  voices that lines which overlap are given. The document is what the YAML library decodes, and \<open>sanitize\<close> stands for
  \<open>str.SanitizeText\<close>, which calls a library. Voices are numbered from 0, and the map of the voices that are
  singing is a list of pairs without two pairs for a voice.
\<close>

section \<open>Definitions\<close>

record lyricsfileWordEntry =
  w_Text :: string
  w_StartMs :: int
  w_EndMs :: "int option"

record lyricsfileLineEntry =
  e_Text :: string
  e_StartMs :: int
  e_EndMs :: "int option"
  e_Words :: "lyricsfileWordEntry list"

record lyricsfileMetadata =
  m_Title :: string
  m_Artist :: string
  m_OffsetMs :: int
  m_Language :: string
  m_Instrumental :: bool

record lyricsfileDocument =
  d_Version :: string
  d_Metadata :: lyricsfileMetadata
  d_Lines :: "lyricsfileLineEntry list"
  d_Plain :: string

text \<open>The words with their positions, from \<open>cursor\<close> on.\<close>

fun word_cues :: "string \<Rightarrow> nat \<Rightarrow> lyricsfileWordEntry list \<Rightarrow> Cue list" where
  "word_cues agentID cursor [] = []"
| "word_cues agentID cursor (w # ws) =
     (let valueBytes = length (w_Text w);
          be = (if valueBytes > 0 then cursor + valueBytes - 1 else cursor);
          cursor' = (if valueBytes > 0 then be + 1 else cursor)
      in \<lparr>c_Start = Some (w_StartMs w), c_End = w_EndMs w, c_Value = w_Text w, c_ByteStart = int cursor, c_ByteEnd = int be,
          c_AgentID = agentID\<rparr> # word_cues agentID cursor' ws)"

fun fill_ends :: "Cue list \<Rightarrow> Cue list" where
  "fill_ends (c # d # cs) =
     (if c_End c = None \<and> c_Start d \<noteq> None then c\<lparr>c_End := c_Start d\<rparr> else c) # fill_ends (d # cs)"
| "fill_ends cs = cs"

definition wordsToLineCues :: "(string \<Rightarrow> string) \<Rightarrow> lyricsfileLineEntry \<Rightarrow> string \<Rightarrow> Cue list \<times> string" where
  "wordsToLineCues sanitize entry agentID =
     (if e_Words entry = [] then ([], sanitize (e_Text entry))
      else let lineValue = concat (map w_Text (e_Words entry)); cues = word_cues agentID 0 (e_Words entry)
           in (fill_ends cues, lineValue))"

definition lyricsfileLineEnd :: "lyricsfileLineEntry \<Rightarrow> int option \<Rightarrow> int option" where
  "lyricsfileLineEnd entry nextStart =
     (case e_EndMs entry of
        Some v \<Rightarrow> Some v
      | None \<Rightarrow>
          (case (if e_Words entry = [] then None else w_EndMs (last (e_Words entry))) of
             Some v \<Rightarrow> Some v
           | None \<Rightarrow> nextStart))"

text \<open>The resolved ends: the start of the next entry is the last resort.\<close>

fun entry_ends :: "lyricsfileLineEntry list \<Rightarrow> int option list" where
  "entry_ends [] = []"
| "entry_ends (e # es) = lyricsfileLineEnd e (case es of [] \<Rightarrow> None | n # _ \<Rightarrow> Some (e_StartMs n)) # entry_ends es"

text \<open>The search for a free voice ends, as the voices that are singing are finitely many.\<close>

function free_voice :: "(nat \<times> int) list \<Rightarrow> nat \<Rightarrow> nat" where
  "free_voice active voiceID =
     (if voiceID \<in> set (map fst active) then free_voice active (voiceID + 1) else voiceID)"
  by pat_completeness auto

termination
proof (relation "measure (\<lambda>(active, v). card {k \<in> set (map fst active). v \<le> k})", goal_cases)
  case (2 active v)
  have "{k \<in> set (map fst active). v + 1 \<le> k} \<subseteq> {k \<in> set (map fst active). v \<le> k}" by (rule Collect_mono) simp
  moreover have "v \<in> {k \<in> set (map fst active). v \<le> k}" "v \<notin> {k \<in> set (map fst active). v + 1 \<le> k}" using 2 by simp_all
  ultimately have "{k \<in> set (map fst active). v + 1 \<le> k} \<subset> {k \<in> set (map fst active). v \<le> k}" by (metis psubsetI)
  moreover have "finite {k \<in> set (map fst active). v \<le> k}" by simp
  ultimately show ?case by (simp only: in_measure case_prod_conv) (rule psubset_card_mono)
qed simp

declare free_voice.simps [simp del]

definition still_active :: "int \<Rightarrow> (nat \<times> int) list \<Rightarrow> (nat \<times> int) list" where
  "still_active start active = filter (\<lambda>(v, e). \<not> e \<le> start) active"

text \<open>One voice for each entry, given with its resolved end.\<close>

fun assign_voices :: "(nat \<times> int) list \<Rightarrow> (lyricsfileLineEntry \<times> int option) list \<Rightarrow> nat list" where
  "assign_voices active [] = []"
| "assign_voices active ((entry, end_ms) # rest) =
     (let active = still_active (e_StartMs entry) active;
          voiceID = free_voice active 0;
          endMs = (case end_ms of Some e \<Rightarrow> e | None \<Rightarrow> e_StartMs entry)
      in voiceID # assign_voices ((voiceID, endMs) # active) rest)"

definition voice_id :: "nat \<Rightarrow> string" where
  "voice_id v = ''voice-'' @ show_nat v"

definition lyricsfile_line :: "(string \<Rightarrow> string) \<Rightarrow> lyricsfileLineEntry \<Rightarrow> int option \<Rightarrow> nat \<Rightarrow> Line" where
  "lyricsfile_line sanitize entry end_ms voiceID =
     (let (cues, val) = wordsToLineCues sanitize entry (voice_id voiceID)
      in \<lparr>ln_Start = Some (e_StartMs entry), ln_End = end_ms, ln_Value = val, ln_Cue = cues\<rparr>)"

definition strip_agents :: "Line list \<Rightarrow> Line list" where
  "strip_agents lines = map (\<lambda>l. l\<lparr>ln_Cue := map (\<lambda>c. c\<lparr>c_AgentID := []\<rparr>) (ln_Cue l)\<rparr>) lines"

definition voice_agent :: "nat \<Rightarrow> Agent" where
  "voice_agent v = \<lparr>a_ID = voice_id v, a_Role = (if v = 0 then ''main'' else ''voice''), a_Name = []\<rparr>"

definition buildLyricsfileLines :: "(string \<Rightarrow> string) \<Rightarrow> lyricsfileLineEntry list \<Rightarrow> Line list \<times> Agent list" where
  "buildLyricsfileLines sanitize entries =
     (if entries = [] then ([], [])
      else let ends = entry_ends entries;
               voices = assign_voices [] (zip entries ends);
               lines = map (\<lambda>(v, e, end_ms). lyricsfile_line sanitize e end_ms v) (zip voices (zip entries ends));
               maxVoice = Max (set voices);
               anyCues = list_ex (\<lambda>l. ln_Cue l \<noteq> []) lines
           in if maxVoice = 0 \<or> \<not> anyCues then (strip_agents lines, [])
              else (lines, map voice_agent [0..<maxVoice + 1]))"

definition buildPlainLyricsfileLines :: "(string \<Rightarrow> string) \<Rightarrow> string \<Rightarrow> Line list" where
  "buildPlainLyricsfileLines sanitize plain =
     map (\<lambda>val. \<lparr>ln_Start = None, ln_End = None, ln_Value = val, ln_Cue = []\<rparr>)
       (filter (\<lambda>val. val \<noteq> []) (map trim_space (split_on (CHR 0x0A) (sanitize plain))))"

definition parseLyricsfile ::
    "(string \<Rightarrow> string) \<Rightarrow> (string \<Rightarrow> 'e + lyricsfileDocument) \<Rightarrow> string \<Rightarrow> string \<Rightarrow> 'e + Lyrics list" where
  "parseLyricsfile sanitize decode lang contents =
     (case decode contents of
        Inl err \<Rightarrow> Inl err
      | Inr doc \<Rightarrow>
          if trim_space (d_Version doc) \<noteq> ''1.0'' then Inr []
          else
            let md = d_Metadata doc;
                docLang = (if trim_space (m_Language md) = [] then lang else m_Language md);
                lyrics = \<lparr>ly_DisplayArtist = sanitize (m_Artist md), ly_DisplayTitle = sanitize (m_Title md), ly_Kind = ''main'',
                          ly_Lang = normalizeLyricLang docLang, ly_Agents = [], ly_Line = [],
                          ly_Offset = (if m_OffsetMs md \<noteq> 0 then Some (m_OffsetMs md) else None), ly_Synced = False\<rparr>
            in if m_Instrumental md then Inr [normalizeLyrics lyrics]
               else if d_Lines doc = [] then
                 (let lines = buildPlainLyricsfileLines sanitize (d_Plain doc)
                  in if lines = [] then Inr [] else Inr [normalizeLyrics (lyrics\<lparr>ly_Line := lines\<rparr>)])
               else
                 (let (lines, agents) = buildLyricsfileLines sanitize (d_Lines doc)
                  in Inr [normalizeLyrics (lyrics\<lparr>ly_Line := lines, ly_Agents := agents, ly_Synced := True\<rparr>)]))"

section \<open>Voices\<close>

lemma free_voice_spec:
  "free_voice active v \<notin> fst ` set active \<and> v \<le> free_voice active v \<and> (\<forall>u. v \<le> u \<and> u < free_voice active v \<longrightarrow> u \<in> fst ` set active)"
proof (induction active v rule: free_voice.induct)
  case (1 active v)
  show ?case
  proof (cases "v \<in> fst ` set active")
    case True
    then have "free_voice active v = free_voice active (v + 1)" by (subst free_voice.simps) simp
    moreover have "u = v \<or> v + 1 \<le> u" if "v \<le> u" for u using that by auto
    ultimately show ?thesis using 1 True by (metis Suc_eq_plus1 Suc_leD set_map)
  next
    case False
    then show ?thesis by (subst (1 2 3) free_voice.simps) auto
  qed
qed

lemma entry_ends_length [simp]: "length (entry_ends es) = length es"
  by (induction es) simp_all

lemma assign_voices_length [simp]: "length (assign_voices active es) = length es"
  by (induction active es rule: assign_voices.induct) (simp_all add: Let_def)

text \<open>When the line of an entry is over.\<close>

definition entry_over :: "lyricsfileLineEntry \<times> int option \<Rightarrow> int" where
  "entry_over p = (case snd p of Some e \<Rightarrow> e | None \<Rightarrow> e_StartMs (fst p))"

definition entry_start :: "lyricsfileLineEntry \<times> int option \<Rightarrow> int" where
  "entry_start p = e_StartMs (fst p)"

lemma still_active_iff [simp]: "(v, e) \<in> set (still_active start active) \<longleftrightarrow> (v, e) \<in> set active \<and> start < e"
  by (auto simp: still_active_def)

lemma assign_voices_Cons:
  "assign_voices active (p # ps) =
     free_voice (still_active (entry_start p) active) 0 #
     assign_voices ((free_voice (still_active (entry_start p) active) 0, entry_over p) # still_active (entry_start p) active) ps"
  by (cases p) (simp add: Let_def entry_start_def entry_over_def split: option.splits)

lemma free_voice_not_active: "(free_voice (still_active start active) 0, e) \<in> set active \<Longrightarrow> e \<le> start"
  using free_voice_spec [of "still_active start active" 0] by (metis fst_conv image_eqI leI still_active_iff)

lemma free_voice_below_active: "u < free_voice (still_active start active) 0 \<Longrightarrow> \<exists>e. (u, e) \<in> set active \<and> start < e"
  using free_voice_spec [of "still_active start active" 0] by (metis imageE prod.collapse still_active_iff zero_le)

text \<open>A voice is given again only when its last line is over.\<close>

lemma assign_voices_free:
  assumes "sorted (map entry_start ps)" and "j < length ps" and "(assign_voices active ps ! j, e) \<in> set active"
  shows "e \<le> entry_start (ps ! j)"
  using assms
proof (induction ps arbitrary: active j)
  case (Cons p ps)
  define act where "act = still_active (entry_start p) active"
  show ?case
  proof (cases j)
    case 0
    then show ?thesis using Cons.prems(3) free_voice_not_active by (simp add: assign_voices_Cons)
  next
    case (Suc k)
    have k: "k < length ps" using Cons.prems(2) Suc by simp
    then have le: "entry_start p \<le> entry_start (ps ! k)" using Cons.prems(1) by simp
    show ?thesis
    proof (cases "entry_start p < e")
      case True
      then have "(assign_voices ((free_voice act 0, entry_over p) # act) ps ! k, e) \<in> set ((free_voice act 0, entry_over p) # act)"
        using Cons.prems(3) Suc by (simp add: assign_voices_Cons act_def)
      moreover have "sorted (map entry_start ps)" using Cons.prems(1) by simp
      ultimately have "e \<le> entry_start (ps ! k)" using Cons.IH k by blast
      then show ?thesis using Suc by simp
    next
      case False
      then show ?thesis using le Suc by simp
    qed
  qed
qed simp

lemma assign_voices_apart:
  assumes "sorted (map entry_start ps)" and "i < j" and "j < length ps" and "assign_voices active ps ! i = assign_voices active ps ! j"
  shows "entry_over (ps ! i) \<le> entry_start (ps ! j)"
  using assms
proof (induction ps arbitrary: active i j)
  case (Cons p ps)
  define act where "act = still_active (entry_start p) active"
  obtain k where k: "j = Suc k" "k < length ps" using Cons.prems(2,3) by (cases j) auto
  have sorted: "sorted (map entry_start ps)" using Cons.prems(1) by simp
  show ?case
  proof (cases i)
    case 0
    then have "(assign_voices ((free_voice act 0, entry_over p) # act) ps ! k, entry_over p) \<in> set ((free_voice act 0, entry_over p) # act)"
      using Cons.prems(4) k by (simp add: assign_voices_Cons act_def)
    then have "entry_over p \<le> entry_start (ps ! k)" by (rule assign_voices_free [OF sorted k(2)])
    then show ?thesis using 0 k by simp
  next
    case (Suc l)
    then show ?thesis using Cons.IH [OF sorted _ k(2), of l] Cons.prems(2,4) k by (simp add: assign_voices_Cons)
  qed
qed simp

text \<open>A voice below the one that is given sings a line that is not over.\<close>

lemma assign_voices_below:
  assumes "j < length ps" and "u < assign_voices active ps ! j"
  shows "(\<exists>e. (u, e) \<in> set active \<and> entry_start (ps ! j) < e) \<or>
    (\<exists>i<j. assign_voices active ps ! i = u \<and> entry_start (ps ! j) < entry_over (ps ! i))"
  using assms
proof (induction ps arbitrary: active j)
  case (Cons p ps)
  define act where "act = still_active (entry_start p) active"
  define act' where "act' = (free_voice act 0, entry_over p) # act"
  have voices: "assign_voices active (p # ps) = free_voice act 0 # assign_voices act' ps" by (simp add: assign_voices_Cons act_def act'_def)
  show ?case
  proof (cases j)
    case 0
    then show ?thesis using Cons.prems(2) free_voice_below_active by (simp add: voices act_def)
  next
    case (Suc k)
    have k: "k < length ps" "u < assign_voices act' ps ! k" using Cons.prems Suc by (simp_all add: voices)
    consider (old) e where "(u, e) \<in> set act'" "entry_start (ps ! k) < e"
      | (new) i where "i < k" "assign_voices act' ps ! i = u" "entry_start (ps ! k) < entry_over (ps ! i)"
      using Cons.IH [OF k] by blast
    then show ?thesis
    proof cases
      case old
      then consider "u = free_voice act 0" "e = entry_over p" | "(u, e) \<in> set active" by (auto simp: act'_def act_def)
      then show ?thesis
      proof cases
        case 1
        then have "0 < j \<and> assign_voices active (p # ps) ! 0 = u \<and> entry_start ((p # ps) ! j) < entry_over ((p # ps) ! 0)"
          using old(2) Suc by (simp add: voices)
        then show ?thesis by blast
      next
        case 2
        then show ?thesis using old(2) Suc by auto
      qed
    next
      case new
      then have "Suc i < j \<and> assign_voices active (p # ps) ! Suc i = u \<and> entry_start ((p # ps) ! j) < entry_over ((p # ps) ! Suc i)"
        using Suc by (simp add: voices)
      then show ?thesis by blast
    qed
  qed
qed simp

text \<open>The lines that sound when a line starts: the line itself and those before it that are not over.\<close>

definition sounding :: "(lyricsfileLineEntry \<times> int option) list \<Rightarrow> nat \<Rightarrow> nat set" where
  "sounding ps j = {i. i < j \<and> entry_start (ps ! j) < entry_over (ps ! i)} \<union> {j}"

lemma finite_sounding [simp]: "finite (sounding ps j)"
  by (simp add: sounding_def)

lemma sounding_inj:
  assumes "sorted (map entry_start ps)" and "j < length ps"
  shows "inj_on ((!) (assign_voices [] ps)) (sounding ps j)"
proof (rule linorder_inj_onI)
  fix i k assume ik: "i < k" and i: "i \<in> sounding ps j" and k: "k \<in> sounding ps j"
  have le: "k \<le> j" and "i < j" using i k ik by (auto simp: sounding_def)
  then have over: "entry_start (ps ! j) < entry_over (ps ! i)" using i by (auto simp: sounding_def)
  have "entry_start (ps ! k) \<le> entry_start (ps ! j)"
    using sorted_nth_mono [OF assms(1) le] assms(2) le by simp
  then show "assign_voices [] ps ! i \<noteq> assign_voices [] ps ! k"
    using assign_voices_apart [OF assms(1) ik, of "[]"] over le assms(2) by auto
qed (auto simp: linear)

lemma sounding_voices:
  assumes "j < length ps" shows "{..assign_voices [] ps ! j} \<subseteq> (!) (assign_voices [] ps) ` sounding ps j"
proof
  fix u assume "u \<in> {..assign_voices [] ps ! j}"
  then consider "u = assign_voices [] ps ! j" | "u < assign_voices [] ps ! j" by fastforce
  then show "u \<in> (!) (assign_voices [] ps) ` sounding ps j"
  proof cases
    case 2
    then obtain i where "i < j" "assign_voices [] ps ! i = u" "entry_start (ps ! j) < entry_over (ps ! i)"
      using assign_voices_below [OF assms 2] by auto
    then show ?thesis by (auto simp: sounding_def)
  qed (auto simp: sounding_def)
qed

lemma sounding_card_le:
  assumes "sorted (map entry_start ps)" and "j < length ps"
  shows "card (sounding ps j) \<le> Max (set (assign_voices [] ps)) + 1"
proof -
  have "card (sounding ps j) = card ((!) (assign_voices [] ps) ` sounding ps j)"
    by (rule card_image [OF sounding_inj [OF assms], symmetric])
  also have "\<dots> \<le> card {..Max (set (assign_voices [] ps))}"
  proof (rule card_mono)
    have "v \<le> Max (set (assign_voices [] ps))" if "v \<in> (!) (assign_voices [] ps) ` sounding ps j" for v
      using that assms(2) by (intro Max_ge) (auto simp: sounding_def)
    then show "(!) (assign_voices [] ps) ` sounding ps j \<subseteq> {..Max (set (assign_voices [] ps))}" by auto
  qed simp
  finally show ?thesis by simp
qed

lemma sounding_card_ge: "j < length ps \<Longrightarrow> assign_voices [] ps ! j + 1 \<le> card (sounding ps j)"
  using surj_card_le [OF finite_sounding sounding_voices, of j ps] by simp

lemma voices_number:
  assumes "sorted (map entry_start ps)" and "ps \<noteq> []"
  shows "Max (set (assign_voices [] ps)) + 1 = Max ((\<lambda>j. card (sounding ps j)) ` {..<length ps})"
proof (rule antisym)
  have "assign_voices [] ps \<noteq> []" using assms(2) assign_voices_length by (metis length_0_conv)
  then have "Max (set (assign_voices [] ps)) \<in> set (assign_voices [] ps)" by (intro Max_in) auto
  then obtain j where j: "j < length ps" "assign_voices [] ps ! j = Max (set (assign_voices [] ps))"
    by (metis assign_voices_length in_set_conv_nth)
  have "Max (set (assign_voices [] ps)) + 1 \<le> card (sounding ps j)" using sounding_card_ge [OF j(1)] j(2) by simp
  also have "\<dots> \<le> Max ((\<lambda>j. card (sounding ps j)) ` {..<length ps})" using j(1) by (intro Max_ge) auto
  finally show "Max (set (assign_voices [] ps)) + 1 \<le> Max ((\<lambda>j. card (sounding ps j)) ` {..<length ps})" .
  show "Max ((\<lambda>j. card (sounding ps j)) ` {..<length ps}) \<le> Max (set (assign_voices [] ps)) + 1"
    using assms(2) sounding_card_le [OF assms(1)] by (intro Max.boundedI) auto
qed


definition ex_entry :: "int \<Rightarrow> int \<Rightarrow> lyricsfileLineEntry" where
  "ex_entry s e = \<lparr>e_Text = ''la'', e_StartMs = s, e_EndMs = Some e, e_Words = [\<lparr>w_Text = ''la'', w_StartMs = s, w_EndMs = None\<rparr>]\<rparr>"


section \<open>Words\<close>

lemma fill_ends_no_end: "map no_end (fill_ends cs) = map no_end cs"
  by (induction cs rule: fill_ends.induct) (simp_all add: no_end_def)

lemma word_cues_placed: "list_all (cue_at (pre @ concat (map w_Text ws) @ post)) (word_cues i (length pre) ws)"
proof (induction ws arbitrary: pre)
  case (Cons w ws)
  have head: "cue_at (pre @ w_Text w @ rest) (hd (word_cues i (length pre) (w # ws)))" for rest
    by (cases "w_Text w") (simp_all add: cue_at_def Let_def)
  have cursor: "tl (word_cues i (length pre) (w # ws)) = word_cues i (length (pre @ w_Text w)) ws" by (simp add: Let_def)
  have "list_all (cue_at (pre @ w_Text w @ concat (map w_Text ws) @ post)) (word_cues i (length (pre @ w_Text w)) ws)"
    using Cons [of "pre @ w_Text w"] by simp
  then have "list_all (cue_at (pre @ w_Text w @ concat (map w_Text ws) @ post)) (tl (word_cues i (length pre) (w # ws)))"
    unfolding cursor .
  then show ?case using head by (simp add: Let_def)
qed simp

lemma wordsToLineCues_placed:
  "wordsToLineCues sanitize entry i = (cues, val) \<Longrightarrow> list_all (cue_at val) cues"
  using word_cues_placed [of "[]" "e_Words entry" "[]" i] cue_at_same [OF fill_ends_no_end, of _ "word_cues i 0 (e_Words entry)"]
  by (auto simp: wordsToLineCues_def Let_def split: if_splits)

lemma lyricsfile_line_placed: "cues_placed (lyricsfile_line sanitize entry e v)"
  using wordsToLineCues_placed by (auto simp: lyricsfile_line_def cues_placed_def Let_def split: prod.splits)

lemma strip_agents_placed: "list_all cues_placed (strip_agents ls) \<longleftrightarrow> list_all cues_placed ls"
  by (auto simp: strip_agents_def cues_placed_def list_all_iff cue_at_def)

lemma buildLyricsfileLines_placed: "list_all cues_placed (fst (buildLyricsfileLines sanitize entries))"
proof -
  have lines: "list_all cues_placed (map (\<lambda>(v, e, end_ms). lyricsfile_line sanitize e end_ms v) zs)" for zs
    by (auto simp: list_all_iff lyricsfile_line_placed)
  then show ?thesis by (simp add: buildLyricsfileLines_def Let_def strip_agents_placed del: list.pred_map)
qed

lemma parseLyricsfile_placed:
  assumes "parseLyricsfile sanitize decode lang contents = Inr ls" shows "list_all lyrics_placed ls"
proof -
  have plain: "list_all cues_placed (buildPlainLyricsfileLines sanitize t)" for t
    by (simp add: buildPlainLyricsfileLines_def cues_placed_def list_all_iff)
  have built: "list_all cues_placed lines" if "buildLyricsfileLines sanitize es = (lines, agents)" for lines agents es
    using buildLyricsfileLines_placed [of sanitize es] that by simp
  show ?thesis
    using assms built plain
    by (auto simp: parseLyricsfile_def Let_def lyrics_placed_def normalizeLyrics_def normalizeCueLines_placed
        split: sum.splits if_splits prod.splits)
qed

text \<open>An empty word at the end of a line gets a position behind the text.\<close>

lemma empty_last_word_outside:
  "wordsToLineCues sanitize \<lparr>e_Text = ''la'', e_StartMs = 0, e_EndMs = None,
       e_Words = [\<lparr>w_Text = ''la'', w_StartMs = 0, w_EndMs = None\<rparr>, \<lparr>w_Text = [], w_StartMs = 5, w_EndMs = None\<rparr>]\<rparr> i = (cues, val) \<Longrightarrow>
   c_ByteStart (last cues) = int (length val)"
  by (auto simp: wordsToLineCues_def Let_def)

section \<open>The voices of a lyrics file\<close>

lemma voice_id_inj: "voice_id u = voice_id v \<longleftrightarrow> u = v"
proof
  assume "voice_id u = voice_id v"
  then have "digits_value 0 (show_nat u) = digits_value 0 (show_nat v)" by (simp add: voice_id_def)
  then show "u = v" by (simp add: digits_value_show_nat)
qed simp

lemma word_cues_agents: "c_AgentID ` set (word_cues i cursor ws) \<subseteq> {i}"
  by (induction i cursor ws rule: word_cues.induct) (auto simp: Let_def)

lemma lyricsfile_line_agents: "c_AgentID ` set (ln_Cue (lyricsfile_line sanitize entry e v)) \<subseteq> {voice_id v}"
  using word_cues_agents [of "voice_id v" 0 "e_Words entry"] no_end_agents [OF fill_ends_no_end, of "word_cues (voice_id v) 0 (e_Words entry)"]
  by (simp add: lyricsfile_line_def wordsToLineCues_def Let_def)

lemma strip_agents_agents: "cue_agents (strip_agents ls) \<subseteq> {[]}"
  by (auto simp: strip_agents_def cue_agents_def)

lemma voice_agents:
  "distinct (map a_ID (map voice_agent [0..<m + 1]))" "a_ID ` set (map voice_agent [0..<m + 1]) = voice_id ` {..m}"
  "length (filter (\<lambda>a. a_Role a = ''main'') (map voice_agent [0..<m + 1])) = 1"
proof -
  show "distinct (map a_ID (map voice_agent [0..<m + 1]))"
    by (simp add: comp_def voice_agent_def distinct_map inj_on_def voice_id_inj del: upt_Suc)
  show "a_ID ` set (map voice_agent [0..<m + 1]) = voice_id ` {..m}"
    by (auto simp: voice_agent_def image_image atLeast0LessThan lessThan_Suc_atMost simp del: upt_Suc)
  have "filter (\<lambda>a. a_Role a = ''main'') (map voice_agent [0..<m + 1]) = [voice_agent 0]"
  proof (induction m)
    case (Suc m)
    have "[0..<Suc m + 1] = [0..<m + 1] @ [Suc m]" by simp
    moreover have "a_Role (voice_agent (Suc m)) \<noteq> ''main''" by (simp add: voice_agent_def)
    ultimately show ?case using Suc by (simp del: upt_Suc)
  qed (simp add: voice_agent_def)
  then show "length (filter (\<lambda>a. a_Role a = ''main'') (map voice_agent [0..<m + 1])) = 1" by simp
qed

lemma buildLyricsfileLines_declared:
  assumes "buildLyricsfileLines sanitize entries = (lines, agents)"
  shows "voices_declared lines agents"
proof (cases "entries = []")
  case True
  then show ?thesis using assms by (simp add: buildLyricsfileLines_def voices_declared_def)
next
  case False
  define voices where "voices = assign_voices [] (zip entries (entry_ends entries))"
  define ls where "ls = map (\<lambda>(v, e, end_ms). lyricsfile_line sanitize e end_ms v) (zip voices (zip entries (entry_ends entries)))"
  have "v \<le> Max (set voices)" if "(v, x) \<in> set (zip voices zs)" for v x zs using that by (auto dest: set_zip_leftD)
  then have used: "cue_agents ls \<subseteq> voice_id ` {..Max (set voices)}"
    using lyricsfile_line_agents [of sanitize] by (fastforce simp: ls_def cue_agents_def)
  have split: "(lines, agents) = (if Max (set voices) = 0 \<or> \<not> list_ex (\<lambda>l. ln_Cue l \<noteq> []) ls then (strip_agents ls, [])
      else (ls, map voice_agent [0..<Max (set voices) + 1]))"
    using assms False unfolding buildLyricsfileLines_def Let_def voices_def ls_def by simp
  show ?thesis
  proof (cases "Max (set voices) = 0 \<or> \<not> list_ex (\<lambda>l. ln_Cue l \<noteq> []) ls")
    case True
    then show ?thesis using split strip_agents_agents by (simp add: voices_declared_def)
  next
    case False
    then have "lines = ls" "agents = map voice_agent [0..<Max (set voices) + 1]" using split by simp_all
    moreover have "agents \<noteq> []" by (simp add: calculation)
    ultimately show ?thesis using voice_agents [of "Max (set voices)"] used by (simp add: voices_declared_def del: upt_Suc)
  qed
qed

lemma plain_agents: "cue_agents (buildPlainLyricsfileLines sanitize t) = {}"
  by (auto simp: buildPlainLyricsfileLines_def cue_agents_def)

lemma parseLyricsfile_wf:
  assumes "parseLyricsfile sanitize decode lang contents = Inr ls" shows "list_all lyrics_wf ls"
proof -
  have plain: "voices_declared (normalizeCueLines (buildPlainLyricsfileLines sanitize t)) []" "voices_declared [] []" for t
    by (simp_all add: voices_declared_def plain_agents)
  have built: "voices_declared (normalizeCueLines lines) agents" if "buildLyricsfileLines sanitize es = (lines, agents)" for lines agents es
    using buildLyricsfileLines_declared [OF that] by (simp add: voices_declared_def)
  have "list_all agents_declared ls"
    using assms plain built
    by (auto simp: parseLyricsfile_def Let_def agents_declared_def normalizeLyrics_def split: sum.splits if_splits prod.splits)
  then show ?thesis using parseLyricsfile_placed [OF assms] by (simp add: lyrics_wf_def list_all_iff)
qed

end
