(* ===== verification/Lyrics_Text.thy ===== *)
theory Lyrics_Text
  imports Lyrics_Cues Go_Path "HOL-Library.Monad_Syntax"
begin

text \<open>
  Lyrics in text formats: SRT (\<open>model/lyrics_srt.go\<close>) and LRC with its extensions for words and background vocals
  (\<open>model/lyrics_lrc.go\<close>). The regular expressions are written out as matchers. A run of digits in them is always
  followed by another character, so the digits that match are all the digits there are. \<open>sanitize\<close> stands for
  \<open>str.SanitizeText\<close>, which calls a library, and \<open>sort_lines\<close> for the library's sort, which may place lines of the same
  time in any order. Text is bytes, and white space is that of ASCII.
\<close>

section \<open>Definitions\<close>

datatype lyric_error = ErrSyntax | LibraryError string

abbreviation newline :: char where "newline \<equiv> CHR 0x0A"

text \<open>The class \<open>\s\<close> of regular expressions, and groups of digits.\<close>

definition re_space :: "char \<Rightarrow> bool" where
  "re_space c \<longleftrightarrow> c \<in> {CHR 0x20, CHR 0x09, newline, CHR 0x0C, CHR 0x0D}"

definition digit_group :: "nat \<Rightarrow> nat \<Rightarrow> string \<Rightarrow> (string \<times> string) option" where
  "digit_group lo hi s =
     (let d = takeWhile is_digit s in if lo \<le> length d \<and> length d \<le> hi then Some (d, dropWhile is_digit s) else None)"

definition expect :: "char \<Rightarrow> string \<Rightarrow> string option" where
  "expect c s = (case s of [] \<Rightarrow> None | x # xs \<Rightarrow> if x = c then Some xs else None)"

text \<open>\<open>strings.Split\<close> for a separator that is not empty.\<close>

function split_str :: "string \<Rightarrow> string \<Rightarrow> string list" where
  "split_str sep [] = [[]]"
| "split_str sep (c # cs) =
     (if sep \<noteq> [] \<and> has_prefix (c # cs) sep then [] # split_str sep (drop (length sep) (c # cs))
      else case split_str sep cs of [] \<Rightarrow> [[c]] | x # xs \<Rightarrow> (c # x) # xs)"
  by pat_completeness auto

termination by (relation "measure (\<lambda>(sep, s). length s)") (simp_all add: diff_less)

section \<open>SRT\<close>

text \<open>The separator of blocks at the start of a text: a line end, white space and a line end, as much as possible. The rest behind it.\<close>

definition block_separator :: "string \<Rightarrow> string option" where
  "block_separator s =
     do {
       rest \<leftarrow> expect newline s;
       (let ws = takeWhile re_space rest
        in if newline \<in> set ws then Some (rev (takeWhile (\<lambda>c. c \<noteq> newline) (rev ws)) @ dropWhile re_space rest) else None)
     }"

lemma block_separator_length: "block_separator s = Some r \<Longrightarrow> length r < length s"
proof -
  assume "block_separator s = Some r"
  then obtain rest where s: "s = newline # rest"
    and r: "r = rev (takeWhile (\<lambda>c. c \<noteq> newline) (rev (takeWhile re_space rest))) @ dropWhile re_space rest"
    by (auto simp: block_separator_def expect_def Let_def bind_eq_Some_conv split: list.splits if_splits)
  have "length r \<le> length (takeWhile re_space rest) + length (dropWhile re_space rest)"
    using length_takeWhile_le [of _ "rev (takeWhile re_space rest)"] by (simp add: r)
  also have "\<dots> = length rest" by (metis length_append takeWhile_dropWhile_id)
  finally show ?thesis by (simp add: s)
qed

function split_blocks :: "string \<Rightarrow> string list" where
  "split_blocks [] = [[]]"
| "split_blocks (c # cs) =
     (case block_separator (c # cs) of
        Some r \<Rightarrow> [] # split_blocks r
      | None \<Rightarrow> (case split_blocks cs of [] \<Rightarrow> [[c]] | x # xs \<Rightarrow> (c # x) # xs))"
  by pat_completeness auto

termination
  by (relation "measure length") (auto dest: block_separator_length)

definition splitSRTBlocks :: "string \<Rightarrow> string list" where
  "splitSRTBlocks raw0 =
     (let raw = trim_space raw0
      in if raw = [] then [] else filter (\<lambda>p. p \<noteq> []) (map trim_space (split_blocks raw)))"

text \<open>The groups of \<open>srtTimeRegex\<close>.\<close>

definition srt_time_groups :: "string \<Rightarrow> (string \<times> string \<times> string \<times> string) option" where
  "srt_time_groups s =
     do {
       (h, r1) \<leftarrow> digit_group 1 2 (dropWhile re_space s);
       r2 \<leftarrow> expect (CHR '':'') r1;
       (m, r3) \<leftarrow> digit_group 2 2 r2;
       r4 \<leftarrow> expect (CHR '':'') r3;
       (sec, r5) \<leftarrow> digit_group 2 2 r4;
       r6 \<leftarrow> (case expect (CHR '','') r5 of Some r \<Rightarrow> Some r | None \<Rightarrow> expect (CHR ''.'') r5);
       (ms, r7) \<leftarrow> digit_group 1 3 r6;
       if list_all re_space r7 then Some (h, m, sec, ms) else None
     }"

definition parseSRTTime :: "string \<Rightarrow> lyric_error + int" where
  "parseSRTTime v =
     (case do {
          (h, m, s, ms) \<leftarrow> srt_time_groups (trim_space v);
          hours \<leftarrow> atoi h;
          minutes \<leftarrow> atoi m;
          seconds \<leftarrow> atoi s;
          millis0 \<leftarrow> atoi ms;
          (let millis = (if length ms = 1 then millis0 * 100 else if length ms = 2 then millis0 * 10 else millis0)
           in Some ((((hours * 60) + minutes) * 60 + seconds) * 1000 + millis))
        } of Some t \<Rightarrow> Inr t | None \<Rightarrow> Inl ErrSyntax)"

definition digitsOnly :: "string \<Rightarrow> bool" where
  "digitsOnly v \<longleftrightarrow> v \<noteq> [] \<and> list_all is_digit v"

definition parseSRTBlock :: "(string \<Rightarrow> string) \<Rightarrow> string \<Rightarrow> lyric_error + Line option" where
  "parseSRTBlock sanitize block =
     (let lines = map trim_space (split_on newline block);
          startIdx = (if digitsOnly (hd lines) then 1 else 0 :: nat)
      in if startIdx \<ge> length lines then Inr None
         else case split_str ''-->'' (lines ! startIdx) of
                [t0, t1] \<Rightarrow>
                  (case parseSRTTime t0 of
                     Inl err \<Rightarrow> Inl err
                   | Inr startMs \<Rightarrow>
                       (case parseSRTTime t1 of
                          Inl err \<Rightarrow> Inl err
                        | Inr endMs \<Rightarrow>
                            let textLines = filter (\<lambda>l. l \<noteq> []) (drop (startIdx + 1) lines);
                                val = sanitize (join [newline] textLines)
                            in if val = [] then Inr None
                               else Inr (Some \<lparr>ln_Start = Some startMs, ln_End = Some endMs, ln_Value = val, ln_Cue = []\<rparr>)))
              | _ \<Rightarrow> Inr None)"

fun srt_lines :: "(string \<Rightarrow> string) \<Rightarrow> string list \<Rightarrow> lyric_error + Line list" where
  "srt_lines sanitize [] = Inr []"
| "srt_lines sanitize (b # bs) =
     (case parseSRTBlock sanitize b of
        Inl err \<Rightarrow> Inl err
      | Inr l \<Rightarrow> (case srt_lines sanitize bs of Inl err \<Rightarrow> Inl err | Inr ls \<Rightarrow> Inr (case l of None \<Rightarrow> ls | Some x \<Rightarrow> x # ls)))"

definition empty_lyrics :: Lyrics where
  "empty_lyrics = \<lparr>ly_DisplayArtist = [], ly_DisplayTitle = [], ly_Kind = [], ly_Lang = [], ly_Agents = [], ly_Line = [],
     ly_Offset = None, ly_Synced = False\<rparr>"

definition unix_newlines :: "string \<Rightarrow> string" where
  "unix_newlines s = replace_all [([CHR 0x0D], [newline])] (replace_all [([CHR 0x0D, newline], [newline])] s)"

definition parseSRT :: "(string \<Rightarrow> string) \<Rightarrow> string \<Rightarrow> string \<Rightarrow> lyric_error + Lyrics list" where
  "parseSRT sanitize language contents =
     (case srt_lines sanitize (splitSRTBlocks (unix_newlines contents)) of
        Inl err \<Rightarrow> Inl err
      | Inr lines \<Rightarrow>
          if lines = [] then Inr []
          else Inr [normalizeLyrics (empty_lyrics\<lparr>ly_Lang := normalizeLyricLang language, ly_Line := lines, ly_Synced := True\<rparr>)])"

section \<open>LRC\<close>

text \<open>A match of the time expression: its positions and its groups; the group of the hours is without its colon and that of the
  milliseconds without its point.\<close>

record time_match =
  tm_start :: nat
  tm_end :: nat
  tm_hours :: "string option"
  tm_min :: string
  tm_sec :: string
  tm_millis :: "string option"

text \<open>\<open>timeRegexString\<close> at the start of a text, between the given brackets: the match from position 0, and the rest.\<close>

definition time_seconds :: "string \<Rightarrow> string \<Rightarrow> string \<Rightarrow> (string option \<times> string \<times> string \<times> string) option" where
  "time_seconds a b s =
     (case expect (CHR '':'') s of
        None \<Rightarrow> Some (None, a, b, s)
      | Some r \<Rightarrow> do { (c, r') \<leftarrow> digit_group 1 2 r; Some (Some a, b, c, r') })"

definition time_millis :: "string \<Rightarrow> (string option \<times> string) option" where
  "time_millis s =
     (case expect (CHR ''.'') s of
        None \<Rightarrow> Some (None, s)
      | Some r \<Rightarrow> do { (d, r') \<leftarrow> digit_group 1 3 r; Some (Some d, r') })"

definition time_prefix :: "char \<Rightarrow> char \<Rightarrow> string \<Rightarrow> (time_match \<times> string) option" where
  "time_prefix opening closing s =
     do {
       r1 \<leftarrow> expect opening s;
       (a, r2) \<leftarrow> digit_group 1 2 r1;
       r3 \<leftarrow> expect (CHR '':'') r2;
       (b, r4) \<leftarrow> digit_group 1 2 r3;
       (hours, mins, sec, r5) \<leftarrow> time_seconds a b r4;
       (millis, r6) \<leftarrow> time_millis r5;
       r7 \<leftarrow> expect closing r6;
       Some (\<lparr>tm_start = 0, tm_end = length s - length r7, tm_hours = hours, tm_min = mins, tm_sec = sec, tm_millis = millis\<rparr>, r7)
     }"

lemma expect_Some: "expect c s = Some r \<longleftrightarrow> s = c # r"
  by (auto simp: expect_def split: list.splits)

lemma digit_group_Some: "digit_group lo hi s = Some (d, r) \<Longrightarrow> s = d @ r \<and> list_all is_digit d \<and> lo \<le> length d \<and> length d \<le> hi"
  by (auto simp: digit_group_def Let_def list_all_iff dest: set_takeWhileD split: if_splits)

text \<open>What a match looks like: the text of the match and its groups.\<close>

definition match_text :: "char \<Rightarrow> char \<Rightarrow> time_match \<Rightarrow> string" where
  "match_text opening closing m =
     opening # (case tm_hours m of None \<Rightarrow> [] | Some h \<Rightarrow> h @ '':'') @ tm_min m @ CHR '':'' # tm_sec m @
     (case tm_millis m of None \<Rightarrow> [] | Some d \<Rightarrow> CHR ''.'' # d) @ [closing]"

definition small_number :: "nat \<Rightarrow> string \<Rightarrow> bool" where
  "small_number hi d \<longleftrightarrow> list_all is_digit d \<and> 1 \<le> length d \<and> length d \<le> hi"

definition match_ok :: "time_match \<Rightarrow> bool" where
  "match_ok m \<longleftrightarrow> pred_option (small_number 2) (tm_hours m) \<and> small_number 2 (tm_min m) \<and> small_number 2 (tm_sec m) \<and>
     pred_option (small_number 3) (tm_millis m)"

lemma time_seconds_Some:
  assumes "time_seconds a b s = Some (hours, mins, sec, r)" and "small_number 2 a" and "small_number 2 b"
  shows "a @ CHR '':'' # b @ s = (case hours of None \<Rightarrow> [] | Some h \<Rightarrow> h @ '':'') @ mins @ CHR '':'' # sec @ r \<and>
    pred_option (small_number 2) hours \<and> small_number 2 mins \<and> small_number 2 sec"
proof (cases "expect (CHR '':'') s")
  case None
  then show ?thesis using assms by (auto simp: time_seconds_def)
next
  case (Some q)
  then obtain c where c: "digit_group 1 2 q = Some (c, r)" "hours = Some a" "mins = b" "sec = c"
    using assms(1) by (auto simp: time_seconds_def bind_eq_Some_conv)
  have "s = CHR '':'' # q" using Some by (simp add: expect_Some)
  then show ?thesis using c assms(2,3) digit_group_Some [OF c(1)] by (simp add: small_number_def)
qed

lemma time_millis_Some:
  assumes "time_millis s = Some (millis, r)"
  shows "s = (case millis of None \<Rightarrow> [] | Some d \<Rightarrow> CHR ''.'' # d) @ r \<and> pred_option (small_number 3) millis"
proof (cases "expect (CHR ''.'') s")
  case None
  then show ?thesis using assms by (auto simp: time_millis_def)
next
  case (Some q)
  then obtain d where d: "digit_group 1 3 q = Some (d, r)" "millis = Some d"
    using assms(1) by (auto simp: time_millis_def bind_eq_Some_conv)
  have "s = CHR ''.'' # q" using Some by (simp add: expect_Some)
  then show ?thesis using d digit_group_Some [OF d(1)] by (simp add: small_number_def)
qed

lemma time_prefix_Some:
  assumes "time_prefix op cl s = Some (m, r)"
  shows "s = match_text op cl m @ r \<and> match_ok m \<and> tm_start m = 0 \<and> tm_end m = length (match_text op cl m)"
proof -
  obtain r1 a r2 r3 b r4 r5 r6 hours mins sec millis where
    e1: "expect op s = Some r1" and g1: "digit_group 1 2 r1 = Some (a, r2)" and e2: "expect (CHR '':'') r2 = Some r3"
    and g2: "digit_group 1 2 r3 = Some (b, r4)" and sec: "time_seconds a b r4 = Some (hours, mins, sec, r5)"
    and ms: "time_millis r5 = Some (millis, r6)" and e3: "expect cl r6 = Some r"
    and m: "m = \<lparr>tm_start = 0, tm_end = length s - length r, tm_hours = hours, tm_min = mins, tm_sec = sec, tm_millis = millis\<rparr>"
    using assms by (auto simp: time_prefix_def bind_eq_Some_conv)
  have small: "small_number 2 a" "small_number 2 b" using digit_group_Some [OF g1] digit_group_Some [OF g2] by (simp_all add: small_number_def)
  have "s = op # a @ CHR '':'' # b @ r4"
    using e1 e2 digit_group_Some [OF g1] digit_group_Some [OF g2] by (simp add: expect_Some)
  moreover have "r5 = (case millis of None \<Rightarrow> [] | Some d \<Rightarrow> CHR ''.'' # d) @ cl # r"
    using time_millis_Some [OF ms] e3 by (simp add: expect_Some)
  ultimately have "s = match_text op cl m @ r" using time_seconds_Some [OF sec small] by (simp add: match_text_def m)
  moreover have "match_ok m" using time_seconds_Some [OF sec small] time_millis_Some [OF ms] by (simp add: match_ok_def m)
  moreover have "tm_start m = 0" "tm_end m = length s - length r" by (simp_all add: m)
  ultimately show ?thesis by (metis add_diff_cancel_right' length_append)
qed

lemma time_prefix_shorter: "time_prefix op cl s = Some (m, r) \<Longrightarrow> length r < length s"
  by (drule time_prefix_Some) (auto simp: match_text_def)

text \<open>All matches in a text, from left to right and without overlaps; \<open>pos\<close> is the position of the text.\<close>

function find_times :: "char \<Rightarrow> char \<Rightarrow> nat \<Rightarrow> string \<Rightarrow> time_match list" where
  "find_times opening closing pos [] = []"
| "find_times opening closing pos (c # cs) =
     (case time_prefix opening closing (c # cs) of
        Some (m, r) \<Rightarrow> m\<lparr>tm_start := pos, tm_end := pos + tm_end m\<rparr> # find_times opening closing (pos + tm_end m) r
      | None \<Rightarrow> find_times opening closing (pos + 1) cs)"
  by pat_completeness auto

termination
  by (relation "measure (\<lambda>(op, cl, pos, s). length s)") (auto dest: time_prefix_shorter)

definition parseTime :: "time_match \<Rightarrow> int option" where
  "parseTime m =
     do {
       hours \<leftarrow> (case tm_hours m of None \<Rightarrow> Some 0 | Some h \<Rightarrow> atoi h);
       minutes \<leftarrow> atoi (tm_min m);
       sec \<leftarrow> atoi (tm_sec m);
       millis \<leftarrow>
         (case tm_millis m of
            None \<Rightarrow> Some 0
          | Some d \<Rightarrow> do { v \<leftarrow> atoi d; Some (if length d = 2 then v * 10 else if length d = 1 then v * 100 else v) });
       Some (((((hours * 60) + minutes) * 60) + sec) * 1000 + millis)
     }"

definition stripEnhancedMarkers :: "string \<Rightarrow> string" where
  "stripEnhancedMarkers s =
     (let ms = find_times (CHR ''<'') (CHR ''>'') 0 s
      in concat (map (\<lambda>(i, j). go_slice i j s) (zip (0 # map tm_end ms) (map tm_start ms @ [length s]))))"

record segment =
  sg_start :: int
  sg_rawStart :: nat
  sg_rawEnd :: nat

text \<open>The words between the markers: the text so far, the segments and the end a last marker without a word gives.\<close>

fun segments :: "string \<Rightarrow> time_match list \<Rightarrow> string \<Rightarrow> string \<times> segment list \<times> int option" where
  "segments s [] raw = (raw, [], None)"
| "segments s (m # ms) raw =
     (case parseTime m of
        None \<Rightarrow> segments s ms raw
      | Some timeMs \<Rightarrow>
          let word = go_slice (tm_end m) (case ms of [] \<Rightarrow> length s | n # _ \<Rightarrow> tm_start n) s
          in if word = [] then
               (if ms = [] then (raw, [], Some timeMs) else segments s ms raw)
             else
               let (raw', segs, trailing) = segments s ms (raw @ word)
               in (raw', \<lparr>sg_start = timeMs, sg_rawStart = length raw, sg_rawEnd = length raw + length word\<rparr> # segs, trailing))"

definition left_trim :: "string \<Rightarrow> nat" where
  "left_trim s = length s - length (dropWhile is_space s)"

definition trimmed_end :: "string \<Rightarrow> nat" where
  "trimmed_end s = max (left_trim s) (length s - (length s - length (dropWhile is_space (rev s))))"

text \<open>The part of a segment that is inside the trimmed text, as a word.\<close>

definition segment_cue :: "string \<Rightarrow> segment \<Rightarrow> Cue option" where
  "segment_cue finalRaw seg =
     (let byteStart = max (sg_rawStart seg) (left_trim finalRaw); byteEnd = min (sg_rawEnd seg) (trimmed_end finalRaw)
      in if byteStart \<ge> byteEnd then None
         else Some \<lparr>c_Start = Some (sg_start seg), c_End = None, c_Value = go_slice byteStart byteEnd finalRaw,
                    c_ByteStart = int byteStart - int (left_trim finalRaw), c_ByteEnd = int byteEnd - int (left_trim finalRaw) - 1,
                    c_AgentID = []\<rparr>)"

definition set_last_end :: "int option \<Rightarrow> Cue list \<Rightarrow> Cue list" where
  "set_last_end trailing cues =
     (case trailing of None \<Rightarrow> cues | Some t \<Rightarrow> if cues = [] then cues else butlast cues @ [(last cues)\<lparr>c_End := Some t\<rparr>])"

definition parseEnhancedLine :: "string \<Rightarrow> string \<times> Cue list" where
  "parseEnhancedLine s =
     (let ms = find_times (CHR ''<'') (CHR ''>'') 0 s
      in if ms = [] then (trim_space s, [])
         else let (finalRaw, segs, trailing) = segments s ms []
              in if segs = [] then (trim_space (stripEnhancedMarkers s), [])
                 else (trim_space finalRaw, set_last_end trailing (List.map_filter (segment_cue finalRaw) segs)))"

definition backgroundAgentID :: "string \<Rightarrow> string" where
  "backgroundAgentID agentID = ''__nd_bg__|'' @ agentID"

fun mergeBgLayers :: "string \<Rightarrow> Cue list \<Rightarrow> string list \<Rightarrow> string \<times> Cue list \<times> bool" where
  "mergeBgLayers val cues [] = (val, cues, False)"
| "mergeBgLayers val cues (bg # bgs) =
     (let (bgValue, bgCues) = parseEnhancedLine bg
      in if bgCues = [] then mergeBgLayers val cues bgs
         else let pre = (if val = [] then [] else val @ '' '');
                  moved = map (\<lambda>c. c\<lparr>c_ByteStart := c_ByteStart c + int (length pre), c_ByteEnd := c_ByteEnd c + int (length pre),
                                     c_AgentID := backgroundAgentID ''main''\<rparr>) bgCues;
                  (val', cues', merged) = mergeBgLayers (pre @ bgValue) (cues @ moved) bgs
              in (val', cues', True))"

definition shiftELRCCues :: "Cue list \<Rightarrow> int \<Rightarrow> Cue list" where
  "shiftELRCCues baseCues offsetMs =
     map (\<lambda>c. c\<lparr>c_Start := map_option (\<lambda>s. s + offsetMs) (c_Start c), c_End := map_option (\<lambda>e. e + offsetMs) (c_End c)\<rparr>) baseCues"

definition fillMainAgentID :: "Line list \<Rightarrow> Line list" where
  "fillMainAgentID lines =
     map (\<lambda>l. l\<lparr>ln_Cue := map (\<lambda>c. if c_AgentID c = [] then c\<lparr>c_AgentID := ''main''\<rparr> else c) (ln_Cue l)\<rparr>) lines"

text \<open>The regular expressions of the tags: \<open>lrcIdRegex\<close> anywhere in a line, \<open>bgTagRegex\<close> and \<open>unknownTagRegex\<close> at its start.\<close>

definition id_prefix :: "string \<Rightarrow> (string \<times> string) option" where
  "id_prefix s =
     do {
       r \<leftarrow> expect (CHR ''['') s;
       name \<leftarrow> find (\<lambda>n. has_prefix r (n @ '':'')) [''ar'', ''ti'', ''offset'', ''lang''];
       (let r' = drop (length name + 1) r; v = takeWhile (\<lambda>c. c \<noteq> CHR '']'') r'
        in if v \<noteq> [] \<and> length v < length r' then Some (name, v) else None)
     }"

fun lrc_id_tag :: "string \<Rightarrow> (string \<times> string) option" where
  "lrc_id_tag [] = None"
| "lrc_id_tag (c # cs) = (case id_prefix (c # cs) of Some t \<Rightarrow> Some t | None \<Rightarrow> lrc_id_tag cs)"

definition bg_tag :: "string \<Rightarrow> string option" where
  "bg_tag s = (if has_prefix s ''[bg:'' \<and> length s \<ge> 5 \<and> last s = CHR '']'' then Some (go_slice 4 (length s - 1) s) else None)"

definition is_letter :: "char \<Rightarrow> bool" where
  "is_letter c \<longleftrightarrow> (65 \<le> byte c \<and> byte c \<le> 90) \<or> (97 \<le> byte c \<and> byte c \<le> 122)"

definition unknown_tag :: "string \<Rightarrow> bool" where
  "unknown_tag s \<longleftrightarrow>
     (case s of
        x # y # r \<Rightarrow>
          x = CHR ''['' \<and> is_letter y \<and>
          (case dropWhile (\<lambda>c. c \<noteq> CHR '']'' \<and> c \<noteq> CHR '':'') r of
             c # r' \<Rightarrow> c = CHR '':'' \<and> CHR '']'' \<in> set r'
           | [] \<Rightarrow> False)
      | _ \<Rightarrow> False)"

text \<open>\<open>syncRegex\<close>; \<open>fresh\<close> says that only white space stands between the start of a line and the text.\<close>

fun sync_match :: "bool \<Rightarrow> string \<Rightarrow> bool" where
  "sync_match fresh [] = False"
| "sync_match fresh (c # cs) \<longleftrightarrow>
     (fresh \<and> time_prefix (CHR ''['') (CHR '']'') (c # cs) \<noteq> None) \<or> sync_match (c = newline \<or> (fresh \<and> re_space c)) cs"

record lrc_state =
  st_lines :: "Line list"
  st_artist :: string
  st_title :: string
  st_language :: string
  st_offset :: "int option"
  st_priorLine :: string
  st_validLine :: bool
  st_repeated :: bool
  st_hasBg :: bool
  st_timestamps :: "int list"
  st_pendingBg :: "string list"

definition flushLine :: "lrc_state \<Rightarrow> lrc_state" where
  "flushLine st =
     (let (val0, cues0) = parseEnhancedLine (st_priorLine st);
          (val, cues, merged) = mergeBgLayers val0 cues0 (st_pendingBg st)
      in st\<lparr>st_hasBg := st_hasBg st \<or> merged,
            st_lines := st_lines st @ map (\<lambda>t. \<lparr>ln_Start = Some t, ln_End = None, ln_Value = val,
              ln_Cue = shiftELRCCues cues (t - hd (st_timestamps st))\<rparr>) (st_timestamps st),
            st_timestamps := [], st_pendingBg := []\<rparr>)"

text \<open>The times a line starts with: their values and where they end.\<close>

fun leading_times :: "string \<Rightarrow> time_match list \<Rightarrow> nat \<Rightarrow> (int list \<times> nat) option" where
  "leading_times line [] end_pos = Some ([], end_pos)"
| "leading_times line (m # ms) end_pos =
     (if end_pos \<noteq> 0 \<and> trim_space (go_slice end_pos (tm_start m) line) \<noteq> [] then Some ([], end_pos)
      else do {
        t \<leftarrow> parseTime m;
        (ts, e) \<leftarrow> leading_times line ms (tm_end m);
        Some (t # ts, e)
      })"

definition id_tag_step :: "(string \<Rightarrow> string) \<Rightarrow> string \<times> string \<Rightarrow> lrc_state \<Rightarrow> lrc_state" where
  "id_tag_step sanitize tag st =
     (let (name, v) = tag
      in if name = ''ar'' then st\<lparr>st_artist := sanitize (trim_space v)\<rparr>
         else if name = ''lang'' then st\<lparr>st_language := sanitize (trim_space v)\<rparr>
         else if name = ''offset'' then (case atoi (trim_space v) of None \<Rightarrow> st | Some off \<Rightarrow> st\<lparr>st_offset := Some off\<rparr>)
         else if name = ''ti'' then st\<lparr>st_title := sanitize (trim_space v)\<rparr>
         else st)"

definition timed_step :: "string \<Rightarrow> lrc_state \<Rightarrow> lyric_error + lrc_state" where
  "timed_step line st0 =
     (let times = find_times (CHR ''['') (CHR '']'') 0 line;
          st = (if length times > 1 then st0\<lparr>st_repeated := True\<rparr> else st0)
      in if times = [] \<or> tm_start (hd times) \<noteq> 0 then
           Inr (if st_validLine st then st\<lparr>st_priorLine := st_priorLine st @ newline # line\<rparr> else st)
         else
           let st = (if st_validLine st then flushLine st else st)
           in case leading_times line times 0 of
                None \<Rightarrow> Inl ErrSyntax
              | Some (ts, e) \<Rightarrow>
                  Inr (st\<lparr>st_timestamps := st_timestamps st @ ts,
                          st_priorLine := (if e \<ge> length line then [] else trim_space (drop e line)), st_validLine := True\<rparr>))"

definition lrc_step :: "(string \<Rightarrow> string) \<Rightarrow> bool \<Rightarrow> string \<Rightarrow> lrc_state \<Rightarrow> lyric_error + lrc_state" where
  "lrc_step sanitize synced line0 st =
     (let line = trim_space line0
      in if line = [] then Inr (if st_validLine st then st\<lparr>st_priorLine := st_priorLine st @ [newline]\<rparr> else st)
         else if synced then
           (case lrc_id_tag line of
              Some tag \<Rightarrow> Inr (id_tag_step sanitize tag st)
            | None \<Rightarrow>
                (case bg_tag line of
                   Some bg \<Rightarrow> Inr (if st_validLine st then st\<lparr>st_pendingBg := st_pendingBg st @ [bg]\<rparr> else st)
                 | None \<Rightarrow> if unknown_tag line then Inr st else timed_step line st))
         else Inr (st\<lparr>st_lines := st_lines st @ [\<lparr>ln_Start = None, ln_End = None, ln_Value = line, ln_Cue = []\<rparr>]\<rparr>))"

fun lrc_steps :: "(string \<Rightarrow> string) \<Rightarrow> bool \<Rightarrow> string list \<Rightarrow> lrc_state \<Rightarrow> lyric_error + lrc_state" where
  "lrc_steps sanitize synced [] st = Inr st"
| "lrc_steps sanitize synced (l # ls) st =
     (case lrc_step sanitize synced l st of Inl err \<Rightarrow> Inl err | Inr st' \<Rightarrow> lrc_steps sanitize synced ls st')"

definition lrc_start :: "string \<Rightarrow> lrc_state" where
  "lrc_start language = \<lparr>st_lines = [], st_artist = [], st_title = [], st_language = language, st_offset = None, st_priorLine = [],
     st_validLine = False, st_repeated = False, st_hasBg = False, st_timestamps = [], st_pendingBg = []\<rparr>"

definition lrc_result :: "(Line list \<Rightarrow> Line list) \<Rightarrow> bool \<Rightarrow> lrc_state \<Rightarrow> Lyrics" where
  "lrc_result sort_lines synced st0 =
     (let st = (if st_validLine st0 then flushLine st0 else st0);
          filled = (if st_hasBg st then fillMainAgentID (st_lines st) else st_lines st);
          lines = (if st_repeated st then sort_lines filled else filled)
      in empty_lyrics\<lparr>ly_DisplayArtist := st_artist st, ly_DisplayTitle := st_title st, ly_Lang := st_language st,
           ly_Line := normalizeCueLines lines, ly_Offset := st_offset st, ly_Synced := synced,
           ly_Agents := (if st_hasBg st then [\<lparr>a_ID = ''main'', a_Role = ''main'', a_Name = []\<rparr>,
                                              \<lparr>a_ID = backgroundAgentID ''main'', a_Role = ''bg'', a_Name = []\<rparr>] else [])\<rparr>)"

definition parseLRC :: "(string \<Rightarrow> string) \<Rightarrow> (Line list \<Rightarrow> Line list) \<Rightarrow> string \<Rightarrow> string \<Rightarrow> lyric_error + Lyrics" where
  "parseLRC sanitize sort_lines language text0 =
     (let txt = sanitize text0; synced = sync_match True txt
      in case lrc_steps sanitize synced (split_on newline txt) (lrc_start language) of
           Inl err \<Rightarrow> Inl err
         | Inr st \<Rightarrow> Inr (lrc_result sort_lines synced st))"

section \<open>The bytes of words\<close>

lemma take_rev_dropWhile: "take (length (dropWhile P (rev xs))) xs = rev (dropWhile P (rev xs))"
proof -
  have "xs = rev (dropWhile P (rev xs)) @ rev (takeWhile P (rev xs))" by (metis rev_append rev_rev_ident takeWhile_dropWhile_id)
  then show ?thesis by (metis append_eq_conv_conj length_rev)
qed

lemma left_trim_takeWhile: "left_trim s = length (takeWhile is_space s)"
proof -
  have "length s = length (takeWhile is_space s) + length (dropWhile is_space s)" by (metis length_append takeWhile_dropWhile_id)
  then show ?thesis by (simp add: left_trim_def)
qed

lemma drop_left_trim: "drop (left_trim s) s = dropWhile is_space s"
  by (simp add: left_trim_takeWhile dropWhile_eq_drop)

lemma trimmed_end_eq: "trimmed_end s = left_trim s + length (dropWhile is_space (rev (dropWhile is_space s)))"
proof -
  define w where "w = takeWhile is_space s"
  define r where "r = dropWhile is_space s"
  have s: "s = w @ r" by (simp add: w_def r_def)
  have ltw: "left_trim s = length w" by (simp add: left_trim_takeWhile w_def)
  have le: "length (dropWhile is_space (rev s)) \<le> length s" by (metis length_dropWhile_le length_rev)
  show ?thesis
  proof (cases "r = []")
    case True
    then have "\<forall>x \<in> set s. is_space x" by (simp add: r_def)
    then have "dropWhile is_space (rev s) = []" "dropWhile is_space s = []" by (simp_all del: dropWhile_eq_Nil_conv add: dropWhile_eq_Nil_conv)
    then show ?thesis by (simp only: trimmed_end_def) simp
  next
    case False
    then have "hd r \<in> set (rev r)" "\<not> is_space (hd r)" using hd_dropWhile [of is_space s] by (simp_all add: r_def)
    then have "dropWhile is_space (rev s) = dropWhile is_space (rev r) @ rev w" unfolding s rev_append by (rule dropWhile_append1)
    then show ?thesis using le by (simp add: trimmed_end_def ltw r_def)
  qed
qed

lemma trimmed_end_le: "trimmed_end s \<le> length s"
proof -
  have "length (dropWhile is_space (rev (dropWhile is_space s))) \<le> length (dropWhile is_space s)" by (metis length_dropWhile_le length_rev)
  moreover have "left_trim s + length (dropWhile is_space s) = length s" by (simp add: left_trim_def length_dropWhile_le)
  ultimately show ?thesis by (simp add: trimmed_end_eq)
qed

lemma trim_space_slice: "trim_space s = go_slice (left_trim s) (trimmed_end s) s"
  by (simp add: trim_space_def go_slice_def trimmed_end_eq drop_left_trim take_rev_dropWhile)

text \<open>The part of a text between two positions inside its trimmed part, as a word of the trimmed text.\<close>

lemma trimmed_cue_at:
  assumes "c_Value c = go_slice bs be raw" and "c_ByteStart c = int bs - int (left_trim raw)" and "c_ByteEnd c = int be - int (left_trim raw) - 1"
    and "left_trim raw \<le> bs" and "bs < be" and "be \<le> trimmed_end raw"
  shows "cue_at (trim_space raw) c"
proof -
  have len: "length (c_Value c) = be - bs" using assms trimmed_end_le [of raw] by (simp add: go_slice_length)
  have "go_slice (bs - left_trim raw) (be - left_trim raw) (trim_space raw) = c_Value c"
    unfolding trim_space_slice assms(1) by (rule go_slice_go_slice) (use assms trimmed_end_le in auto)
  moreover have "nat (c_ByteStart c) = bs - left_trim raw" using assms by simp
  moreover have "be - left_trim raw - (bs - left_trim raw) = be - bs" using assms by simp
  ultimately have "take (be - bs) (drop (nat (c_ByteStart c)) (trim_space raw)) = c_Value c" by (simp add: go_slice_def)
  then show ?thesis using assms len by (simp add: cue_at_def)
qed

lemma segment_cue_at: "segment_cue raw seg = Some c \<Longrightarrow> cue_at (trim_space raw) c"
  by (rule trimmed_cue_at [of _ "max (sg_rawStart seg) (left_trim raw)" "min (sg_rawEnd seg) (trimmed_end raw)"])
    (auto simp: segment_cue_def Let_def split: if_splits)

lemma set_last_end_no_end: "map no_end (set_last_end t cs) = map no_end cs"
proof (cases "cs = [] \<or> t = None")
  case False
  then obtain e ds d where "t = Some e" "cs = ds @ [d]" by (metis not_Some_eq rev_exhaust)
  then show ?thesis by (simp add: set_last_end_def no_end_def)
qed (auto simp: set_last_end_def split: option.splits)

lemma parseEnhancedLine_placed: "parseEnhancedLine s = (val, cues) \<Longrightarrow> list_all (cue_at val) cues"
proof -
  assume line: "parseEnhancedLine s = (val, cues)"
  have words: "list_all (cue_at (trim_space raw)) (set_last_end t (List.map_filter (segment_cue raw) segs))" for raw segs t
    unfolding cue_at_same [OF set_last_end_no_end]
    by (auto simp: list_all_iff map_filter_def intro: segment_cue_at)
  show ?thesis using line words by (auto simp: parseEnhancedLine_def Let_def split: if_splits prod.splits)
qed

lemma cue_at_append: "cue_at val c \<Longrightarrow> cue_at (val @ rest) c"
proof -
  assume c: "cue_at val c"
  show ?thesis
  proof (cases "c_Value c = []")
    case False
    then have eq: "take (length (c_Value c)) (drop (nat (c_ByteStart c)) val) = c_Value c" using c by (simp add: cue_at_def)
    then have "length (c_Value c) \<le> length (drop (nat (c_ByteStart c)) val)" by (metis length_take min.cobounded1 min.commute)
    then have "take (length (c_Value c)) (drop (nat (c_ByteStart c)) val @ drop (nat (c_ByteStart c) - length val) rest) = c_Value c"
      using eq by simp
    then show ?thesis using c by (auto simp: cue_at_def)
  qed (simp add: cue_at_def)
qed

lemma cue_at_shift:
  "cue_at val c \<Longrightarrow> cue_at (pre @ val) (c\<lparr>c_ByteStart := c_ByteStart c + int (length pre), c_ByteEnd := c_ByteEnd c + int (length pre), c_AgentID := i\<rparr>)"
  by (auto simp: cue_at_def nat_add_distrib)

lemma mergeBgLayers_placed:
  "mergeBgLayers val cues bgs = (val', cues', merged) \<Longrightarrow> list_all (cue_at val) cues \<Longrightarrow> list_all (cue_at val') cues'"
proof (induction val cues bgs arbitrary: val' cues' merged rule: mergeBgLayers.induct)
  case (2 val cues bg bgs)
  obtain bgValue bgCues where bg: "parseEnhancedLine bg = (bgValue, bgCues)" by force
  show ?case
  proof (cases "bgCues = []")
    case True
    then show ?thesis using 2 bg by simp
  next
    case False
    define pre where "pre = (if val = [] then [] else val @ '' '')"
    define moved where "moved = map (\<lambda>c. c\<lparr>c_ByteStart := c_ByteStart c + int (length pre), c_ByteEnd := c_ByteEnd c + int (length pre),
      c_AgentID := backgroundAgentID ''main''\<rparr>) bgCues"
    obtain m where m: "mergeBgLayers (pre @ bgValue) (cues @ moved) bgs = (val', cues', m)"
      using "2.prems"(1) bg False by (auto simp: Let_def pre_def moved_def split: prod.splits)
    have pre: "\<exists>r. pre = val @ r" by (simp add: pre_def)
    then have "list_all (cue_at (pre @ bgValue)) cues"
      using "2.prems"(2) cue_at_append by (auto simp: list_all_iff)
    moreover have "list_all (cue_at (pre @ bgValue)) moved"
      using parseEnhancedLine_placed [OF bg] cue_at_shift by (auto simp: list_all_iff moved_def)
    ultimately have "list_all (cue_at (pre @ bgValue)) (cues @ moved)" by simp
    then show ?thesis
      using "2.IH"(2) [OF bg [symmetric] refl False pre_def moved_def] m by blast
  qed
qed simp

section \<open>LRC: what is parsed\<close>

lemma digits_value_small: "list_all is_digit d \<Longrightarrow> \<exists>n. digits_value acc d = Some n \<and> n < (acc + 1) * 10 ^ length d"
proof (induction d arbitrary: acc)
  case (Cons c d)
  have "byte c - 48 < 10" using Cons.prems by (simp add: is_digit_def) arith
  then have "10 * acc + (byte c - 48) + 1 \<le> (acc + 1) * 10" by simp
  then have "(10 * acc + (byte c - 48) + 1) * 10 ^ length d \<le> (acc + 1) * 10 * 10 ^ length d" by (rule mult_le_mono1)
  then have "(10 * acc + (byte c - 48) + 1) * 10 ^ length d \<le> (acc + 1) * 10 ^ length (c # d)" by (simp only: mult.assoc length_Cons power_Suc)
  then show ?case using Cons.IH [of "10 * acc + (byte c - 48)"] Cons.prems by fastforce
qed simp

lemma atoi_small:
  assumes "small_number hi d" and "hi \<le> 3" shows "\<exists>n. atoi d = Some (int n)"
proof -
  obtain n where n: "digits_value 0 d = Some n" "n < 10 ^ length d" using assms(1) digits_value_small [of d 0] by (auto simp: small_number_def)
  have "(10::nat) ^ length d \<le> 10 ^ 3" by (rule power_increasing) (use assms in \<open>simp_all add: small_number_def\<close>)
  then have le: "int n \<le> max_int64" using n(2) by (simp add: max_int64_def)
  have "is_digit (hd d)" "d \<noteq> []" using assms(1) by (cases d; simp add: small_number_def)+
  then have "hd d \<noteq> CHR ''-''" "hd d \<noteq> CHR ''+''" using not_is_digit_sign by metis+
  then show ?thesis using n(1) le \<open>d \<noteq> []\<close> by (simp add: atoi_def Let_def max_int64_def)
qed

lemma parseTime_ok: "match_ok m \<Longrightarrow> \<exists>t. parseTime m = Some t"
proof -
  assume m: "match_ok m"
  obtain mins where "atoi (tm_min m) = Some mins" using m atoi_small [of 2 "tm_min m"] by (auto simp: match_ok_def)
  moreover obtain sec where "atoi (tm_sec m) = Some sec" using m atoi_small [of 2 "tm_sec m"] by (auto simp: match_ok_def)
  moreover obtain h where "(case tm_hours m of None \<Rightarrow> Some 0 | Some h \<Rightarrow> atoi h) = Some h"
    using m atoi_small [of 2 "the (tm_hours m)"] by (cases "tm_hours m") (auto simp: match_ok_def)
  moreover have "\<exists>v. tm_millis m = None \<or> atoi (the (tm_millis m)) = Some v"
    using m atoi_small [of 3 "the (tm_millis m)"] by (cases "tm_millis m") (auto simp: match_ok_def)
  ultimately show ?thesis by (cases "tm_millis m") (auto simp: parseTime_def)
qed

lemma find_times_ok: "list_all match_ok (find_times op cl pos s)"
proof (induction op cl pos s rule: find_times.induct)
  case (2 op cl pos c cs)
  show ?case
  proof (cases "time_prefix op cl (c # cs)")
    case None
    then show ?thesis using 2 by simp
  next
    case (Some mr)
    then obtain m r where mr: "time_prefix op cl (c # cs) = Some (m, r)" by (cases mr) auto
    have "match_ok m" using time_prefix_Some [OF mr] by simp
    then have "match_ok (m\<lparr>tm_start := pos, tm_end := pos + tm_end m\<rparr>)" by (simp add: match_ok_def)
    then show ?thesis using 2(2) [OF mr refl] mr by simp
  qed
qed simp

lemma leading_times_ok: "list_all match_ok ms \<Longrightarrow> \<exists>x. leading_times line ms e = Some x"
proof (induction ms arbitrary: e)
  case (Cons m ms)
  then obtain t where "parseTime m = Some t" using parseTime_ok by auto
  moreover obtain x where "leading_times line ms (tm_end m) = Some x" using Cons.IH [of "tm_end m"] Cons.prems by (metis list.pred_inject(2))
  ultimately show ?case by (cases x) simp
qed simp

lemma timed_step_ok: "\<exists>st'. timed_step line st = Inr st'"
  using leading_times_ok [OF find_times_ok, of line "CHR ''[''" "CHR '']''" 0 line 0]
  by (auto simp: timed_step_def Let_def)

lemma lrc_step_ok: "\<exists>st'. lrc_step sanitize synced line st = Inr st'"
  using timed_step_ok by (auto simp: lrc_step_def Let_def split: option.splits)

lemma lrc_steps_ok: "\<exists>st'. lrc_steps sanitize synced ls st = Inr st'"
proof (induction ls arbitrary: st)
  case (Cons l ls)
  then show ?case using lrc_step_ok [of sanitize synced l st] by auto
qed simp

lemma parseLRC_ok: "\<exists>ly. parseLRC sanitize sort_lines language s = Inr ly"
  using lrc_steps_ok [of sanitize "sync_match True (sanitize s)" "split_on newline (sanitize s)" "lrc_start language"]
  by (auto simp: parseLRC_def Let_def)

text \<open>Words and voices of the lines so far.\<close>

definition lrc_inv :: "lrc_state \<Rightarrow> bool" where
  "lrc_inv st \<longleftrightarrow> list_all cues_placed (st_lines st) \<and>
     cue_agents (st_lines st) \<subseteq> (if st_hasBg st then {[], backgroundAgentID ''main''} else {[]})"

lemma parseEnhancedLine_agents: "parseEnhancedLine s = (val, cues) \<Longrightarrow> c_AgentID ` set cues \<subseteq> {[]}"
proof -
  assume line: "parseEnhancedLine s = (val, cues)"
  have words: "c_AgentID ` set (set_last_end t (List.map_filter (segment_cue raw) segs)) \<subseteq> {[]}" for raw segs t
    unfolding no_end_agents [OF set_last_end_no_end]
    by (auto simp: map_filter_def segment_cue_def Let_def split: if_splits)
  show ?thesis
  proof (cases "cues = []")
    case False
    then obtain raw segs t where "cues = set_last_end t (List.map_filter (segment_cue raw) segs)"
      using line by (auto simp: parseEnhancedLine_def Let_def split: if_splits prod.splits)
    then show ?thesis using words by simp
  qed simp
qed

lemma mergeBgLayers_agents:
  "mergeBgLayers val cues bgs = (val', cues', merged) \<Longrightarrow>
   c_AgentID ` set cues' \<subseteq> c_AgentID ` set cues \<union> (if merged then {backgroundAgentID ''main''} else {})"
proof (induction val cues bgs arbitrary: val' cues' merged rule: mergeBgLayers.induct)
  case (2 val cues bg bgs)
  obtain bgValue bgCues where bg: "parseEnhancedLine bg = (bgValue, bgCues)" by force
  show ?case
  proof (cases "bgCues = []")
    case True
    then show ?thesis using 2 bg by simp
  next
    case False
    define pre where "pre = (if val = [] then [] else val @ '' '')"
    define moved where "moved = map (\<lambda>c. c\<lparr>c_ByteStart := c_ByteStart c + int (length pre), c_ByteEnd := c_ByteEnd c + int (length pre),
      c_AgentID := backgroundAgentID ''main''\<rparr>) bgCues"
    obtain m where m: "mergeBgLayers (pre @ bgValue) (cues @ moved) bgs = (val', cues', m)" "merged"
      using "2.prems"(1) bg False by (auto simp: Let_def pre_def moved_def split: prod.splits)
    have "c_AgentID ` set moved \<subseteq> {backgroundAgentID ''main''}" by (auto simp: moved_def)
    moreover have "c_AgentID ` set cues' \<subseteq> c_AgentID ` set (cues @ moved) \<union> (if m then {backgroundAgentID ''main''} else {})"
      using "2.IH"(2) [OF bg [symmetric] refl False pre_def moved_def] m(1) by blast
    ultimately show ?thesis using m(2) unfolding set_append image_Un by (cases m; simp; blast)
  qed
qed simp

lemma cue_at_shiftELRC: "cue_at val (c\<lparr>c_Start := a, c_End := b\<rparr>) \<longleftrightarrow> cue_at val c"
  by (simp add: cue_at_def)

lemma agents_union:
  "A \<subseteq> (if p then {x, b} else {x}) \<Longrightarrow> B \<subseteq> {x} \<union> (if q then {b} else {}) \<Longrightarrow> A \<union> B \<subseteq> (if p \<or> q then {x, b} else {x})"
  by (cases p; cases q) auto

lemma flushLine_inv: "lrc_inv st \<Longrightarrow> lrc_inv (flushLine st)"
proof -
  assume inv: "lrc_inv st"
  obtain val0 cues0 where line: "parseEnhancedLine (st_priorLine st) = (val0, cues0)" by force
  obtain val cues merged where bg: "mergeBgLayers val0 cues0 (st_pendingBg st) = (val, cues, merged)" by (metis prod_cases3)
  define new where "new = map (\<lambda>t. \<lparr>ln_Start = Some t, ln_End = None, ln_Value = val,
    ln_Cue = shiftELRCCues cues (t - hd (st_timestamps st))\<rparr>) (st_timestamps st)"
  have st: "st_lines (flushLine st) = st_lines st @ new" "st_hasBg (flushLine st) = (st_hasBg st \<or> merged)"
    using line bg by (simp_all add: flushLine_def Let_def new_def)
  have "list_all (cue_at val) cues" using mergeBgLayers_placed [OF bg parseEnhancedLine_placed [OF line]] .
  then have "list_all cues_placed new" by (auto simp: new_def list_all_iff cues_placed_def shiftELRCCues_def cue_at_shiftELRC)
  moreover have "cue_agents new \<subseteq> c_AgentID ` set cues" by (auto simp: new_def cue_agents_def shiftELRCCues_def)
  then have agents: "cue_agents new \<subseteq> {[]} \<union> (if merged then {backgroundAgentID ''main''} else {})"
    by (rule order_trans [OF _ order_trans [OF mergeBgLayers_agents [OF bg] Un_mono [OF parseEnhancedLine_agents [OF line] order_refl]]])
  ultimately show ?thesis
    using inv agents_union [OF _ agents, of "cue_agents (st_lines st)" "st_hasBg st"]
    unfolding lrc_inv_def st by simp
qed

lemma lrc_inv_update [simp]:
  "lrc_inv (st\<lparr>st_repeated := a\<rparr>) = lrc_inv st" "lrc_inv (st\<lparr>st_priorLine := p\<rparr>) = lrc_inv st"
  "lrc_inv (st\<lparr>st_timestamps := ts, st_priorLine := p, st_validLine := v\<rparr>) = lrc_inv st"
  "lrc_inv (st\<lparr>st_pendingBg := b\<rparr>) = lrc_inv st" "lrc_inv (st\<lparr>st_artist := p\<rparr>) = lrc_inv st" "lrc_inv (st\<lparr>st_title := p\<rparr>) = lrc_inv st"
  "lrc_inv (st\<lparr>st_language := p\<rparr>) = lrc_inv st" "lrc_inv (st\<lparr>st_offset := o'\<rparr>) = lrc_inv st"
  by (simp_all add: lrc_inv_def)

lemma id_tag_step_inv: "lrc_inv st \<Longrightarrow> lrc_inv (id_tag_step sanitize tag st)"
  by (cases tag) (auto simp: id_tag_step_def split: option.splits)

lemma timed_step_inv:
  assumes "timed_step line st = Inr st'" and "lrc_inv st" shows "lrc_inv st'"
proof -
  define st1 where "st1 = (if length (find_times (CHR ''['') (CHR '']'') 0 line) > 1 then st\<lparr>st_repeated := True\<rparr> else st)"
  have "lrc_inv st1" using assms(2) by (simp add: st1_def)
  then show ?thesis
    using assms(1) flushLine_inv [of st1] unfolding timed_step_def st1_def [symmetric] Let_def
    by (auto split: if_splits option.splits)
qed

lemma lrc_step_inv: "lrc_step sanitize synced line st = Inr st' \<Longrightarrow> lrc_inv st \<Longrightarrow> lrc_inv st'"
  using timed_step_inv [of "trim_space line" st st'] id_tag_step_inv
  by (auto simp: lrc_step_def Let_def split: if_splits option.splits)
    (auto simp: lrc_inv_def cues_placed_def split: if_splits)

lemma lrc_steps_inv: "lrc_steps sanitize synced ls st = Inr st' \<Longrightarrow> lrc_inv st \<Longrightarrow> lrc_inv st'"
proof (induction ls arbitrary: st)
  case (Cons l ls)
  then obtain st1 where "lrc_step sanitize synced l st = Inr st1" "lrc_steps sanitize synced ls st1 = Inr st'"
    by (auto split: sum.splits)
  then show ?case using Cons lrc_step_inv by metis
qed simp

lemma cue_at_agent: "cue_at val (c\<lparr>c_AgentID := i\<rparr>) \<longleftrightarrow> cue_at val c"
  by (simp add: cue_at_def)

lemma fillMainAgentID_placed: "list_all cues_placed (fillMainAgentID ls) \<longleftrightarrow> list_all cues_placed ls"
proof -
  have "cue_at val (if c_AgentID c = [] then c\<lparr>c_AgentID := ''main''\<rparr> else c) = cue_at val c" for val c by (simp add: cue_at_agent)
  then have "cues_placed (l\<lparr>ln_Cue := map (\<lambda>c. if c_AgentID c = [] then c\<lparr>c_AgentID := ''main''\<rparr> else c) (ln_Cue l)\<rparr>) = cues_placed l" for l
    by (simp add: cues_placed_def list.pred_map comp_def)
  then show ?thesis by (simp add: fillMainAgentID_def list.pred_map comp_def)
qed

lemma fillMainAgentID_agents: "cue_agents ls \<subseteq> {[], b} \<Longrightarrow> cue_agents (fillMainAgentID ls) \<subseteq> {''main'', b}"
  by (fastforce simp: fillMainAgentID_def cue_agents_def)

lemma lrc_result_wf:
  assumes "lrc_inv st" and "\<And>ls. set (sort_lines ls) = set ls" shows "lyrics_wf (lrc_result sort_lines synced st)"
proof -
  define st1 where "st1 = (if st_validLine st then flushLine st else st)"
  define filled where "filled = (if st_hasBg st1 then fillMainAgentID (st_lines st1) else st_lines st1)"
  define lines where "lines = (if st_repeated st1 then sort_lines filled else filled)"
  have inv: "lrc_inv st1" using assms(1) flushLine_inv by (simp add: st1_def)
  have same: "set lines = set filled" using assms(2) by (simp add: lines_def)
  have "list_all cues_placed filled" using inv by (simp add: filled_def lrc_inv_def fillMainAgentID_placed)
  then have placed: "list_all cues_placed lines" using same by (simp add: list_all_iff)
  have "cue_agents filled \<subseteq> (if st_hasBg st1 then {''main'', backgroundAgentID ''main''} else {[]})"
    using inv fillMainAgentID_agents [of "st_lines st1"] by (cases "st_hasBg st1") (simp_all add: filled_def lrc_inv_def)
  then have "cue_agents lines \<subseteq> (if st_hasBg st1 then {''main'', backgroundAgentID ''main''} else {[]})"
    using same by (simp add: cue_agents_def)
  then show ?thesis
    using placed unfolding lrc_result_def st1_def [symmetric] Let_def filled_def [symmetric] lines_def [symmetric]
    by (cases "st_hasBg st1")
      (simp_all add: lyrics_wf_def lyrics_placed_def agents_declared_def voices_declared_def normalizeCueLines_placed empty_lyrics_def backgroundAgentID_def)
qed

lemma parseLRC_wf:
  assumes "parseLRC sanitize sort_lines language s = Inr ly" and "\<And>ls. set (sort_lines ls) = set ls" shows "lyrics_wf ly"
proof -
  obtain st where st: "lrc_steps sanitize (sync_match True (sanitize s)) (split_on newline (sanitize s)) (lrc_start language) = Inr st"
    "ly = lrc_result sort_lines (sync_match True (sanitize s)) st"
    using assms(1) by (auto simp: parseLRC_def Let_def split: sum.splits)
  have "lrc_inv (lrc_start language)" by (simp add: lrc_inv_def lrc_start_def)
  then show ?thesis using lrc_result_wf [OF lrc_steps_inv [OF st(1)] assms(2)] st(2) by simp
qed

section \<open>SRT: what is parsed\<close>

lemma srt_lines_plain: "srt_lines sanitize bs = Inr ls \<Longrightarrow> list_all (\<lambda>l. ln_Cue l = []) ls"
proof (induction bs arbitrary: ls)
  case (Cons b bs)
  obtain l ls' where l: "parseSRTBlock sanitize b = Inr l" "srt_lines sanitize bs = Inr ls'" "ls = (case l of None \<Rightarrow> ls' | Some x \<Rightarrow> x # ls')"
    using Cons.prems by (auto split: sum.splits)
  have "ln_Cue x = []" if "l = Some x" for x
    using l(1) that by (auto simp: parseSRTBlock_def Let_def split: if_splits list.splits sum.splits)
  then show ?case using l Cons.IH [OF l(2)] by (auto split: option.splits)
qed simp

lemma plain_lines_wf: "list_all (\<lambda>l. ln_Cue l = []) (ly_Line ly) \<Longrightarrow> ly_Agents ly = [] \<Longrightarrow> lyrics_wf ly"
  by (auto simp: lyrics_wf_def lyrics_placed_def cues_placed_def agents_declared_def voices_declared_def cue_agents_def list_all_iff)

lemma parseSRT_wf: "parseSRT sanitize lang s = Inr ls \<Longrightarrow> list_all lyrics_wf ls"
  using srt_lines_plain
  by (auto simp: parseSRT_def empty_lyrics_def split: sum.splits if_splits intro!: plain_lines_wf)

lemma normalizeCueLines_plain: "list_all (\<lambda>l. ln_Cue l = []) ls \<Longrightarrow> normalizeCueLines ls = ls"
  by (induction ls) (simp_all add: normalizeCueLine_def)

end
