(* ===== verification/Lyrics_Text_Props.thy ===== *)
theory Lyrics_Text_Props
  imports Lyrics_Text
begin

text \<open>
  Printing of lyrics as SRT and LRC, and that the parsers of \<open>Lyrics_Text\<close> read back what was printed.
\<close>

section \<open>Printed times\<close>

definition two_digits :: "nat \<Rightarrow> string" where
  "two_digits n = [digit_char (n div 10), digit_char (n mod 10)]"

definition three_digits :: "nat \<Rightarrow> string" where
  "three_digits n = [digit_char (n div 100), digit_char (n div 10 mod 10), digit_char (n mod 10)]"

lemma two_digits_props:
  assumes "n < 100"
  shows "list_all is_digit (two_digits n)" "length (two_digits n) = 2" "atoi (two_digits n) = Some (int n)"
proof -
  have d: "n div 10 < 10" "n mod 10 < 10" using assms by auto
  then have dig: "is_digit (digit_char (n div 10))" "is_digit (digit_char (n mod 10))" by (simp_all only: is_digit_digit_char)
  then show "list_all is_digit (two_digits n)" "length (two_digits n) = 2" by (simp_all add: two_digits_def)
  have "digit_char (n div 10) \<noteq> CHR ''-''" "digit_char (n div 10) \<noteq> CHR ''+''" using dig(1) not_is_digit_sign by metis+
  then show "atoi (two_digits n) = Some (int n)"
    using assms d dig by (simp add: atoi_def two_digits_def Let_def byte_digit_char max_int64_def)
qed

lemma three_digits_props:
  assumes "n < 1000"
  shows "list_all is_digit (three_digits n)" "length (three_digits n) = 3" "atoi (three_digits n) = Some (int n)"
proof -
  have d: "n div 100 < 10" "n div 10 mod 10 < 10" "n mod 10 < 10" using assms by auto
  then have dig: "is_digit (digit_char (n div 100))" "is_digit (digit_char (n div 10 mod 10))" "is_digit (digit_char (n mod 10))"
    by (simp_all only: is_digit_digit_char)
  then show "list_all is_digit (three_digits n)" "length (three_digits n) = 3" by (simp_all add: three_digits_def)
  have sign: "digit_char (n div 100) \<noteq> CHR ''-''" "digit_char (n div 100) \<noteq> CHR ''+''" using dig(1) not_is_digit_sign by metis+
  have "10 * (10 * (n div 100) + n div 10 mod 10) + n mod 10 = n"
    using div_mult2_eq [of n 10 10] mult_div_mod_eq [of 10 "n div 10"] mult_div_mod_eq [of 10 n] by simp
  then show "atoi (three_digits n) = Some (int n)"
    using assms d dig sign by (simp add: atoi_def three_digits_def Let_def byte_digit_char max_int64_def)
qed

lemma digit_group_digits:
  assumes "list_all is_digit d" and "\<not> is_digit c" and "lo \<le> length d" and "length d \<le> hi"
  shows "digit_group lo hi (d @ c # r) = Some (d, c # r)"
proof -
  have "\<forall>x \<in> set d. is_digit x" using assms(1) by (simp add: list_all_iff)
  then have "takeWhile is_digit (d @ c # r) = d" "dropWhile is_digit (d @ c # r) = c # r"
    using assms(2) by (simp_all add: takeWhile_append2 dropWhile_append2)
  then show ?thesis using assms by (simp add: digit_group_def)
qed

lemma digit_group_all: "list_all is_digit d \<Longrightarrow> lo \<le> length d \<Longrightarrow> length d \<le> hi \<Longrightarrow> digit_group lo hi d = Some (d, [])"
  by (simp add: digit_group_def list_all_iff takeWhile_eq_all_conv [THEN iffD2] dropWhile_eq_Nil_conv [THEN iffD2])

lemma not_digit [simp]: "\<not> is_digit (CHR '':'')" "\<not> is_digit (CHR '','')" "\<not> is_digit (CHR ''.'')" "\<not> is_digit (CHR '']'')" "\<not> is_digit (CHR '' '')"
  by (simp_all add: is_digit_def byte_def)

definition hms :: "nat \<Rightarrow> string" where
  "hms t = two_digits (t div 3600000) @ CHR '':'' # two_digits (t div 60000 mod 60) @ CHR '':'' # two_digits (t div 1000 mod 60)"

definition srt_time :: "nat \<Rightarrow> string" where
  "srt_time t = hms t @ CHR '','' # three_digits (t mod 1000)"

definition lrc_time :: "nat \<Rightarrow> string" where
  "lrc_time t = CHR ''['' # hms t @ CHR ''.'' # three_digits (t mod 1000) @ '']''"

definition max_time :: nat where
  "max_time = 360000000"

lemma time_parts:
  assumes "t < max_time"
  shows "t div 3600000 < 100" "t div 60000 mod 60 < 100" "t div 1000 mod 60 < 100" "t mod 1000 < 1000"
    "((t div 3600000 * 60 + t div 60000 mod 60) * 60 + t div 1000 mod 60) * 1000 + t mod 1000 = t"
proof -
  show "t div 3600000 < 100" using assms by (simp add: max_time_def)
  have "t div 60000 mod 60 < 60" "t div 1000 mod 60 < 60" by simp_all
  then show "t div 60000 mod 60 < 100" "t div 1000 mod 60 < 100" by linarith+
  show "t mod 1000 < 1000" by simp
  have a: "t div 3600000 = t div 1000 div 60 div 60" "t div 60000 = t div 1000 div 60" by (simp_all add: div_mult2_eq [symmetric])
  show "((t div 3600000 * 60 + t div 60000 mod 60) * 60 + t div 1000 mod 60) * 1000 + t mod 1000 = t" unfolding a by simp
qed

lemma digits_not_space: "is_digit c \<Longrightarrow> \<not> is_space c \<and> \<not> re_space c \<and> c \<notin> {CHR ''['', CHR ''-'', CHR ''<''}"
  by (auto simp: is_digit_def is_space_def re_space_def byte_def)

lemma srt_time_chars: "t < max_time \<Longrightarrow> c \<in> set (srt_time t) \<Longrightarrow> is_digit c \<or> c = CHR '':'' \<or> c = CHR '',''"
  using two_digits_props(1) [OF time_parts(1)] two_digits_props(1) [OF time_parts(2)] two_digits_props(1) [OF time_parts(3)]
    three_digits_props(1) [OF time_parts(4)]
  by (auto simp: srt_time_def hms_def list_all_iff)

lemma srt_groups:
  assumes "t < max_time"
  shows "srt_time_groups (srt_time t) = Some (two_digits (t div 3600000), two_digits (t div 60000 mod 60), two_digits (t div 1000 mod 60), three_digits (t mod 1000))"
proof -
  note p = two_digits_props(1,2) [OF time_parts(1) [OF assms]] two_digits_props(1,2) [OF time_parts(2) [OF assms]]
    two_digits_props(1,2) [OF time_parts(3) [OF assms]] three_digits_props(1,2) [OF time_parts(4) [OF assms]]
  obtain c r where c: "srt_time t = c # r" "is_digit c" using p(1) by (simp add: srt_time_def hms_def two_digits_def)
  then have "dropWhile re_space (srt_time t) = srt_time t" using digits_not_space by simp
  then show ?thesis
    using p by (simp add: srt_time_groups_def srt_time_def hms_def digit_group_digits digit_group_all expect_def)
qed

lemma trim_space_solid:
  assumes "s \<noteq> []" and "\<not> is_space (hd s)" and "\<not> is_space (last s)" and "list_all is_space a" and "list_all is_space b"
  shows "trim_space (a @ s @ b) = s"
proof -
  have "dropWhile is_space (a @ s @ b) = s @ b" using assms by (cases s) (simp_all add: dropWhile_append2 list_all_iff)
  moreover have "dropWhile is_space (rev (s @ b)) = rev s"
  proof -
    have "dropWhile is_space (rev b @ rev s) = dropWhile is_space (rev s)"
      using assms(5) by (intro dropWhile_append2) (simp add: list_all_iff)
    also have "\<dots> = rev s" using assms(1,3) by (cases s rule: rev_cases) simp_all
    finally show ?thesis by simp
  qed
  ultimately show ?thesis by (simp add: trim_space_def)
qed

lemma srt_time_ends:
  assumes "t < max_time" shows "srt_time t \<noteq> []" "\<not> is_space (hd (srt_time t))" "\<not> is_space (last (srt_time t))"
proof -
  have "\<not> is_space c" if "c \<in> set (srt_time t)" for c
    using srt_time_chars [OF assms that] digits_not_space by (auto simp: is_space_def)
  moreover show "srt_time t \<noteq> []" by (simp add: srt_time_def)
  ultimately show "\<not> is_space (hd (srt_time t))" "\<not> is_space (last (srt_time t))" by simp_all
qed

lemma parseSRTTime_print:
  assumes "t < max_time" and "list_all is_space a" and "list_all is_space b"
  shows "parseSRTTime (a @ srt_time t @ b) = Inr (int t)"
proof -
  have "int (((t div 3600000 * 60 + t div 60000 mod 60) * 60 + t div 1000 mod 60) * 1000 + t mod 1000) = int t"
    using time_parts(5) [OF assms(1)] by (rule arg_cong)
  then have "(((int (t div 3600000) * 60) + int (t div 60000 mod 60)) * 60 + int (t div 1000 mod 60)) * 1000 + int (t mod 1000) = int t"
    by (simp only: of_nat_add of_nat_mult of_nat_numeral)
  then show ?thesis
    using trim_space_solid [OF srt_time_ends [OF assms(1)] assms(2,3)] srt_groups [OF assms(1)] three_digits_props(2,3) [OF time_parts(4) [OF assms(1)]]
      two_digits_props(3) [OF time_parts(1) [OF assms(1)]] two_digits_props(3) [OF time_parts(2) [OF assms(1)]] two_digits_props(3) [OF time_parts(3) [OF assms(1)]]
    by (simp add: parseSRTTime_def del: of_nat_mod of_nat_div)
qed

section \<open>Splitting\<close>

lemma split_str_not_Nil [simp]: "split_str sep s \<noteq> []"
  by (cases "(sep, s)" rule: split_str.cases) (simp_all split: list.splits)

lemma split_str_free: "sep \<noteq> [] \<Longrightarrow> hd sep \<notin> set s \<Longrightarrow> split_str sep (s @ rest) = (s @ hd (split_str sep rest)) # tl (split_str sep rest)"
proof (induction s)
  case (Cons c s)
  have "\<not> has_prefix (c # s @ rest) sep" using Cons.prems by (cases sep) auto
  then show ?case using Cons by (simp split: list.splits)
qed simp

lemma split_str_sep: "sep \<noteq> [] \<Longrightarrow> split_str sep (sep @ rest) = [] # split_str sep rest"
proof -
  assume ne: "sep \<noteq> []"
  have "has_prefix (sep @ rest) sep" by (induction sep) simp_all
  then show ?thesis using ne by (cases sep) auto
qed

lemma split_str_two:
  assumes "sep \<noteq> []" and "hd sep \<notin> set a" and "hd sep \<notin> set b" shows "split_str sep (a @ sep @ b) = [a, b]"
proof -
  have "split_str sep b = [b]" using split_str_free [OF assms(1,3), of "[]"] by simp
  then show ?thesis using split_str_free [OF assms(1,2), of "sep @ b"] split_str_sep [OF assms(1)] by simp
qed

lemma split_blocks_not_Nil [simp]: "split_blocks s \<noteq> []"
  by (cases s rule: split_blocks.cases) (simp_all split: option.splits list.splits)

lemma split_blocks_char: "block_separator (c # s) = None \<Longrightarrow> split_blocks (c # s) = (c # hd (split_blocks s)) # tl (split_blocks s)"
  by (simp split: list.splits)

lemma split_blocks_line: "newline \<notin> set x \<Longrightarrow> split_blocks (x @ rest) = (x @ hd (split_blocks rest)) # tl (split_blocks rest)"
proof (induction x)
  case (Cons c x)
  have "block_separator (c # x @ rest) = None" using Cons.prems by (auto simp: block_separator_def expect_def)
  then show ?case using Cons split_blocks_char by simp
qed simp

text \<open>A line that is neither empty nor starts or ends with white space.\<close>

definition solid :: "string \<Rightarrow> bool" where
  "solid x \<longleftrightarrow> x \<noteq> [] \<and> newline \<notin> set x \<and> \<not> is_space (hd x) \<and> \<not> is_space (last x)"

lemma solid_head: "solid x \<Longrightarrow> \<exists>c r. x = c # r \<and> \<not> re_space c \<and> \<not> is_space c"
  by (cases x) (auto simp: solid_def is_space_def re_space_def)

lemma solid_trim: "solid x \<Longrightarrow> trim_space x = x"
  using trim_space_solid [of x "[]" "[]"] by (simp add: solid_def)

lemma block_separator_solid:
  assumes "\<not> re_space c"
  shows "block_separator (newline # c # r) = None" "block_separator (newline # newline # c # r) = Some (c # r)"
  using assms by (simp_all add: block_separator_def expect_def re_space_def)

lemma solid_join_head: "list_all solid xs \<Longrightarrow> xs \<noteq> [] \<Longrightarrow> \<exists>c r. join [newline] xs = c # r \<and> \<not> re_space c \<and> \<not> is_space c"
proof (cases xs)
  case (Cons x ys)
  assume "list_all solid xs"
  then obtain c r where "x = c # r" "\<not> re_space c" "\<not> is_space c" using solid_head [of x] Cons by auto
  then show ?thesis by (simp add: Cons join_Cons)
qed simp

lemma split_blocks_block:
  "list_all solid xs \<Longrightarrow> xs \<noteq> [] \<Longrightarrow> split_blocks (join [newline] xs @ rest) = (join [newline] xs @ hd (split_blocks rest)) # tl (split_blocks rest)"
proof (induction xs)
  case (Cons x xs)
  have x: "newline \<notin> set x" using Cons.prems by (simp add: solid_def)
  show ?case
  proof (cases "xs = []")
    case True
    then show ?thesis using split_blocks_line [OF x] by simp
  next
    case False
    have tail: "split_blocks (join [newline] xs @ rest) = (join [newline] xs @ hd (split_blocks rest)) # tl (split_blocks rest)"
      using Cons False by simp
    obtain c r where c: "join [newline] xs = c # r" "\<not> re_space c" using solid_join_head [of xs] Cons.prems False by auto
    have "split_blocks (newline # join [newline] xs @ rest) = (newline # join [newline] xs @ hd (split_blocks rest)) # tl (split_blocks rest)"
      using split_blocks_char [of newline "join [newline] xs @ rest"] block_separator_solid(1) [OF c(2)] tail c(1) by simp
    then show ?thesis
      using split_blocks_line [OF x, of "newline # join [newline] xs @ rest"] False by (simp add: join_Cons)
  qed
qed simp

definition solid_lines :: "string list \<Rightarrow> bool" where
  "solid_lines xs \<longleftrightarrow> xs \<noteq> [] \<and> list_all solid xs"

lemma split_blocks_join:
  "list_all solid_lines bs \<Longrightarrow> bs \<noteq> [] \<Longrightarrow> split_blocks (join [newline, newline] (map (join [newline]) bs)) = map (join [newline]) bs"
proof (induction bs)
  case (Cons b bs)
  have b: "list_all solid b" "b \<noteq> []" using Cons.prems by (simp_all add: solid_lines_def)
  show ?case
  proof (cases bs)
    case Nil
    then show ?thesis using split_blocks_block [OF b, of "[]"] by simp
  next
    case (Cons d ds)
    define rest where "rest = join [newline, newline] (map (join [newline]) bs)"
    have tail: "split_blocks rest = map (join [newline]) bs" using Cons.IH Cons.prems Cons by (simp add: rest_def)
    have d: "list_all solid d" "d \<noteq> []" using Cons.prems Cons by (simp_all add: solid_lines_def)
    obtain c r0 where c0: "join [newline] d = c # r0" "\<not> re_space c" using solid_join_head [OF d] by blast
    then obtain r where c: "rest = c # r" "\<not> re_space c" by (cases "ds = []") (simp_all add: rest_def Cons join_Cons)
    have "split_blocks (newline # newline # rest) = [] # split_blocks rest"
      using block_separator_solid(2) [OF c(2)] c(1) by simp
    then show ?thesis
      using split_blocks_block [OF b, of "newline # newline # rest"] tail Cons by (simp add: rest_def join_Cons)
  qed
qed simp

section \<open>SRT\<close>

definition the_ms :: "int option \<Rightarrow> nat" where
  "the_ms t = (case t of None \<Rightarrow> 0 | Some i \<Rightarrow> nat i)"

definition srt_block :: "nat \<Rightarrow> Line \<Rightarrow> string list" where
  "srt_block k l = show_nat k # (srt_time (the_ms (ln_Start l)) @ '' --> '' @ srt_time (the_ms (ln_End l))) # split_on newline (ln_Value l)"

definition print_srt :: "Line list \<Rightarrow> string" where
  "print_srt ls = join [newline, newline] (map (\<lambda>(k, l). join [newline] (srt_block k l)) (zip [1..<length ls + 1] ls))"

definition timed :: "int option \<Rightarrow> bool" where
  "timed t \<longleftrightarrow> (case t of None \<Rightarrow> False | Some i \<Rightarrow> 0 \<le> i \<and> i < int max_time)"

text \<open>A line that SRT can express: times below a hundred hours, and a text whose lines are neither empty nor padded.\<close>

definition srt_line :: "(string \<Rightarrow> string) \<Rightarrow> Line \<Rightarrow> bool" where
  "srt_line sanitize l \<longleftrightarrow> timed (ln_Start l) \<and> timed (ln_End l) \<and> ln_Cue l = [] \<and> list_all solid (split_on newline (ln_Value l)) \<and>
     CHR 0x0D \<notin> set (ln_Value l) \<and> sanitize (ln_Value l) = ln_Value l"

lemma timed_ms: "timed t \<Longrightarrow> the_ms t < max_time \<and> t = Some (int (the_ms t))"
  by (auto simp: timed_def the_ms_def split: option.splits)

lemma digits_solid: "list_all is_digit d \<Longrightarrow> d \<noteq> [] \<Longrightarrow> solid d"
proof -
  assume d: "list_all is_digit d" "d \<noteq> []"
  then have "\<not> is_space c" if "c \<in> set d" for c using digits_not_space that by (auto simp: list_all_iff)
  moreover have "is_space newline" by (simp add: is_space_def)
  ultimately show ?thesis using d(2) by (auto simp: solid_def)
qed

lemma timing_solid:
  assumes "s < max_time" and "e < max_time" shows "solid (srt_time s @ '' --> '' @ srt_time e)"
proof -
  have "newline \<notin> set (srt_time t)" if "t < max_time" for t
    using srt_time_chars [OF that, of newline] digits_not_space [of newline] by (auto simp: is_space_def)
  then show ?thesis using srt_time_ends [OF assms(1)] srt_time_ends [OF assms(2)] assms by (simp add: solid_def)
qed

lemma srt_block_solid: "srt_line sanitize l \<Longrightarrow> solid_lines (srt_block k l)"
  using timed_ms timing_solid digits_solid [OF show_nat_digits] by (simp add: solid_lines_def srt_block_def srt_line_def)

lemma parseSRTBlock_print:
  assumes "srt_line sanitize l" shows "parseSRTBlock sanitize (join [newline] (srt_block k l)) = Inr (Some l)"
proof -
  define s where "s = the_ms (ln_Start l)"
  define e where "e = the_ms (ln_End l)"
  have ms: "s < max_time" "e < max_time" "ln_Start l = Some (int s)" "ln_End l = Some (int e)"
    using assms timed_ms by (simp_all add: srt_line_def s_def e_def)
  have solid: "list_all solid (srt_block k l)" using srt_block_solid [OF assms] by (simp add: solid_lines_def)
  then have free: "\<forall>x \<in> set (srt_block k l). newline \<notin> set x" by (auto simp: list_all_iff solid_def)
  have "srt_block k l \<noteq> []" by (simp add: srt_block_def)
  then have "split_on newline (join [newline] (srt_block k l)) = srt_block k l" using split_join free by blast
  moreover have "map trim_space (srt_block k l) = srt_block k l" using solid by (intro map_idI) (simp add: list_all_iff solid_trim)
  ultimately have lines: "map trim_space (split_on newline (join [newline] (srt_block k l))) = srt_block k l" by simp
  have dash: "hd ''-->'' \<notin> set (srt_time t)" if "t < max_time" for t
    using srt_time_chars [OF that] digits_not_space by auto
  have two: "split_str ''-->'' (srt_time s @ '' --> '' @ srt_time e) = [srt_time s @ '' '', '' '' @ srt_time e]"
    using split_str_two [of "''-->''" "srt_time s @ '' ''" "'' '' @ srt_time e"] dash [OF ms(1)] dash [OF ms(2)] by simp
  have times: "parseSRTTime (srt_time s @ '' '') = Inr (int s)" "parseSRTTime ('' '' @ srt_time e) = Inr (int e)"
    using parseSRTTime_print [OF ms(1), of "[]" "'' ''"] parseSRTTime_print [OF ms(2), of "'' ''" "[]"] by (simp_all add: is_space_def)
  have lyric: "filter (\<lambda>x. x \<noteq> []) (split_on newline (ln_Value l)) = split_on newline (ln_Value l)"
    using assms by (auto simp: srt_line_def list_all_iff solid_def filter_id_conv)
  have val: "ln_Value l \<noteq> []" using assms by (auto simp: srt_line_def solid_def)
  have "l = \<lparr>ln_Start = Some (int s), ln_End = Some (int e), ln_Value = ln_Value l, ln_Cue = []\<rparr>"
    using ms assms by (simp add: srt_line_def)
  moreover have "digitsOnly (show_nat k)" using show_nat_digits by (simp add: digitsOnly_def)
  ultimately show ?thesis
    unfolding parseSRTBlock_def lines Let_def
    using two times lyric val assms by (simp add: srt_block_def s_def [symmetric] e_def [symmetric] join_split srt_line_def)
qed

lemma srt_lines_print:
  "list_all (srt_line sanitize) ls \<Longrightarrow> length ks = length ls \<Longrightarrow>
   srt_lines sanitize (map (\<lambda>(k, l). join [newline] (srt_block k l)) (zip ks ls)) = Inr ls"
proof (induction ls arbitrary: ks)
  case (Cons l ls)
  then obtain k ks' where "ks = k # ks'" by (cases ks) auto
  then show ?case using Cons parseSRTBlock_print [of sanitize l k] by simp
qed simp

lemma replace_all_free: "CHR 0x0D \<notin> set s \<Longrightarrow> replace_all [(CHR 0x0D # x, y)] s = s"
proof (induction s)
  case (Cons c s)
  then have "\<not> has_prefix (c # s) (CHR 0x0D # x)" by auto
  then show ?case using Cons by auto
qed simp

lemma join_mem: "x \<in> set xs \<Longrightarrow> set x \<subseteq> set (join sep xs)"
  by (induction sep xs rule: join.induct) auto

lemma join_set: "set (join sep xs) \<subseteq> (\<Union>x \<in> set xs. set x) \<union> set sep"
  by (induction sep xs rule: join.induct) auto

lemma srt_block_chars:
  assumes "srt_line sanitize l" and "x \<in> set (srt_block k l)" shows "CHR 0x0D \<notin> set x"
proof -
  have cr: "\<not> is_digit (CHR 0x0D)" by (simp add: is_digit_def byte_def)
  have time: "CHR 0x0D \<notin> set (srt_time t)" if "t < max_time" for t using srt_time_chars [OF that, of "CHR 0x0D"] cr by auto
  have num: "CHR 0x0D \<notin> set (show_nat k)" using show_nat_digits [of k] cr by (auto simp: list_all_iff)
  have "set y \<subseteq> set (ln_Value l)" if "y \<in> set (split_on newline (ln_Value l))" for y
    using join_mem [OF that, of "[newline]"] by (simp add: join_split)
  then show ?thesis
    using assms time num timed_ms by (auto simp: srt_block_def srt_line_def)
qed

lemma print_srt_blocks: "print_srt ls = join [newline, newline] (map (join [newline]) (map (\<lambda>(k, l). srt_block k l) (zip [1..<length ls + 1] ls)))"
  by (simp add: print_srt_def comp_def case_prod_unfold del: upt_Suc)

lemma join_blocks_ends:
  assumes "list_all (\<lambda>x. x \<noteq> [] \<and> \<not> is_space (hd x) \<and> \<not> is_space (last x)) xs" and "xs \<noteq> []"
  shows "join sep xs \<noteq> [] \<and> \<not> is_space (hd (join sep xs)) \<and> \<not> is_space (last (join sep xs))"
  using assms(2,1)
proof (induction xs rule: list_nonempty_induct)
  case (cons x xs)
  then show ?case by (cases "xs = []") (auto simp: join_Cons)
qed simp

lemma solid_lines_ends:
  assumes "solid_lines b" shows "join [newline] b \<noteq> [] \<and> \<not> is_space (hd (join [newline] b)) \<and> \<not> is_space (last (join [newline] b))"
  by (rule join_blocks_ends) (use assms in \<open>auto simp: solid_lines_def list_all_iff solid_def\<close>)

text \<open>
  C31 (roundtrip): Lyrics printed in the format SRT are read back as they were: the same lines with the same times and texts,
  whatever follows or repeats in them, for times below a hundred hours, texts without blank lines or padding, and a
  sanitiser that leaves the texts alone.
\<close>

theorem parseSRT_roundtrip:
  assumes "list_all (srt_line sanitize) ls" and "ls \<noteq> []"
  shows "parseSRT sanitize lang (print_srt ls) = Inr [empty_lyrics\<lparr>ly_Lang := normalizeLyricLang lang, ly_Line := ls, ly_Synced := True\<rparr>]"
proof -
  define bs where "bs = map (\<lambda>(k, l). srt_block k l) (zip [1..<length ls + 1] ls)"
  have print: "print_srt ls = join [newline, newline] (map (join [newline]) bs)" using print_srt_blocks by (simp add: bs_def)
  have mem: "\<exists>k l. b = srt_block k l \<and> srt_line sanitize l" if "b \<in> set bs" for b
    using that assms(1) by (auto simp: bs_def list_all_iff dest: set_zip_rightD)
  then have solid: "list_all solid_lines bs" using srt_block_solid by (fastforce simp: list_all_iff)
  have ne: "bs \<noteq> []" using assms(2) by (simp add: bs_def del: upt_Suc)
  have "CHR 0x0D \<notin> set x" if "b \<in> set bs" "x \<in> set b" for b x using mem [OF that(1)] srt_block_chars that(2) by blast
  then have "CHR 0x0D \<notin> set (join [newline] b)" if "b \<in> set bs" for b using join_set [of "[newline]" b] that by fastforce
  then have "CHR 0x0D \<notin> set (print_srt ls)" using join_set [of "[newline, newline]" "map (join [newline]) bs"] by (fastforce simp: print)
  then have unix: "unix_newlines (print_srt ls) = print_srt ls" by (simp add: unix_newlines_def replace_all_free)
  have ends: "list_all (\<lambda>x. x \<noteq> [] \<and> \<not> is_space (hd x) \<and> \<not> is_space (last x)) (map (join [newline]) bs)"
    using solid solid_lines_ends by (simp add: list_all_iff)
  then have "print_srt ls \<noteq> [] \<and> trim_space (print_srt ls) = print_srt ls"
    using join_blocks_ends [OF ends, of "[newline, newline]"] ne trim_space_solid [of "print_srt ls" "[]" "[]"] by (simp add: print)
  moreover have "filter (\<lambda>p. p \<noteq> []) (map trim_space (map (join [newline]) bs)) = map (join [newline]) bs"
  proof -
    have "map trim_space (map (join [newline]) bs) = map (join [newline]) bs"
      using ends trim_space_solid [of _ "[]" "[]"] by (intro map_idI) (auto simp: list_all_iff)
    then show ?thesis using ends by (auto simp: list_all_iff filter_id_conv)
  qed
  ultimately have blocks: "splitSRTBlocks (print_srt ls) = map (join [newline]) bs"
    using split_blocks_join [OF solid ne] by (simp add: splitSRTBlocks_def print [symmetric] Let_def)
  have lines: "srt_lines sanitize (map (join [newline]) bs) = Inr ls"
    using srt_lines_print [OF assms(1), of "[1..<length ls + 1]"] by (simp add: bs_def comp_def case_prod_unfold del: upt_Suc)
  have "normalizeCueLines ls = ls" by (rule normalizeCueLines_plain) (use assms(1) in \<open>simp add: list_all_iff srt_line_def\<close>)
  then show ?thesis using assms(2) by (simp add: parseSRT_def unix blocks lines normalizeLyrics_def empty_lyrics_def)
qed

definition ex_line :: "int \<Rightarrow> int \<Rightarrow> string \<Rightarrow> Line" where
  "ex_line s e v = \<lparr>ln_Start = Some s, ln_End = Some e, ln_Value = v, ln_Cue = []\<rparr>"

theorem parseSRT_roundtrip_witness:
  "parseSRT (\<lambda>s. s) ''eng'' (print_srt [ex_line 1500 3661001 ''la'', ex_line 0 10 ''[1] --> la'']) =
     Inr [empty_lyrics\<lparr>ly_Lang := normalizeLyricLang ''eng'', ly_Line := [ex_line 1500 3661001 ''la'', ex_line 0 10 ''[1] --> la''], ly_Synced := True\<rparr>]"
  by (rule parseSRT_roundtrip) (simp_all add: ex_line_def srt_line_def timed_def max_time_def solid_def is_space_def)

section \<open>LRC\<close>

definition lrc_text :: "Line \<Rightarrow> string" where
  "lrc_text l = lrc_time (the_ms (ln_Start l)) @ ln_Value l"

definition print_lrc :: "Line list \<Rightarrow> string" where
  "print_lrc ls = join [newline] (map lrc_text ls)"

text \<open>A line that LRC can express without markers for words: the text is not padded and has no opening brackets.\<close>

definition lrc_line :: "Line \<Rightarrow> bool" where
  "lrc_line l \<longleftrightarrow> timed (ln_Start l) \<and> ln_End l = None \<and> ln_Cue l = [] \<and> (ln_Value l = [] \<or> solid (ln_Value l)) \<and>
     CHR ''['' \<notin> set (ln_Value l) \<and> CHR ''<'' \<notin> set (ln_Value l)"

definition time_match_of :: "nat \<Rightarrow> time_match" where
  "time_match_of t = \<lparr>tm_start = 0, tm_end = 14, tm_hours = Some (two_digits (t div 3600000)), tm_min = two_digits (t div 60000 mod 60),
     tm_sec = two_digits (t div 1000 mod 60), tm_millis = Some (three_digits (t mod 1000))\<rparr>"

lemma time_prefix_print:
  assumes "t < max_time" shows "time_prefix (CHR ''['') (CHR '']'') (lrc_time t @ r) = Some (time_match_of t, r)"
proof -
  note p = two_digits_props(1,2) [OF time_parts(1) [OF assms]] two_digits_props(1,2) [OF time_parts(2) [OF assms]]
    two_digits_props(1,2) [OF time_parts(3) [OF assms]] three_digits_props(1,2) [OF time_parts(4) [OF assms]]
  show ?thesis
    using p by (simp add: time_prefix_def lrc_time_def hms_def time_match_of_def time_seconds_def time_millis_def digit_group_digits expect_def)
qed

lemma parseTime_print: "t < max_time \<Longrightarrow> parseTime (time_match_of t) = Some (int t)"
proof -
  assume t: "t < max_time"
  have "int (((t div 3600000 * 60 + t div 60000 mod 60) * 60 + t div 1000 mod 60) * 1000 + t mod 1000) = int t"
    using time_parts(5) [OF t] by (rule arg_cong)
  then have "(((int (t div 3600000) * 60) + int (t div 60000 mod 60)) * 60 + int (t div 1000 mod 60)) * 1000 + int (t mod 1000) = int t"
    by (simp only: of_nat_add of_nat_mult of_nat_numeral)
  then show ?thesis
    using three_digits_props(2,3) [OF time_parts(4) [OF t]] two_digits_props(3) [OF time_parts(1) [OF t]]
      two_digits_props(3) [OF time_parts(2) [OF t]] two_digits_props(3) [OF time_parts(3) [OF t]]
    by (simp add: parseTime_def time_match_of_def del: of_nat_mod of_nat_div)
qed

lemma find_times_free: "op \<notin> set s \<Longrightarrow> find_times op cl pos s = []"
proof (induction s arbitrary: pos)
  case (Cons c s)
  then have "time_prefix op cl (c # s) = None" by (auto simp: time_prefix_def expect_def)
  then show ?case using Cons by simp
qed simp

lemma lrc_time_Cons: "lrc_time t = CHR ''['' # tl (lrc_time t)" "length (lrc_time t) = 14"
  by (simp_all add: lrc_time_def hms_def two_digits_def three_digits_def)

lemma lrc_time_chars: "t < max_time \<Longrightarrow> c \<in> set (tl (lrc_time t)) \<Longrightarrow> is_digit c \<or> c = CHR '':'' \<or> c = CHR ''.'' \<or> c = CHR '']''"
  using two_digits_props(1) [OF time_parts(1)] two_digits_props(1) [OF time_parts(2)] two_digits_props(1) [OF time_parts(3)]
    three_digits_props(1) [OF time_parts(4)]
  by (auto simp: lrc_time_def hms_def list_all_iff)

lemma find_times_print:
  assumes "t < max_time" and "CHR ''['' \<notin> set v"
  shows "find_times (CHR ''['') (CHR '']'') 0 (lrc_time t @ v) = [time_match_of t]"
proof -
  have "(time_match_of t)\<lparr>tm_start := 0, tm_end := 0 + tm_end (time_match_of t)\<rparr> = time_match_of t" by (simp add: time_match_of_def)
  moreover have "time_prefix (CHR ''['') (CHR '']'') (CHR ''['' # tl (lrc_time t) @ v) = Some (time_match_of t, v)"
    using time_prefix_print [OF assms(1), of v] lrc_time_Cons(1) [of t] by (metis append_Cons)
  ultimately show ?thesis
    using find_times_free [OF assms(2)] by (subst lrc_time_Cons(1)) simp
qed

lemma id_prefix_head: "c \<noteq> CHR ''['' \<Longrightarrow> id_prefix (c # s) = None"
  by (simp add: id_prefix_def expect_def)

lemma lrc_id_tag_free: "CHR ''['' \<notin> set s \<Longrightarrow> lrc_id_tag s = None"
  by (induction s) (auto simp: id_prefix_head)

lemma lrc_time_tags:
  assumes "t < max_time" and "CHR ''['' \<notin> set v"
  shows "lrc_id_tag (lrc_time t @ v) = None" "bg_tag (lrc_time t @ v) = None" "\<not> unknown_tag (lrc_time t @ v)"
proof -
  have d: "is_digit (digit_char (t div 3600000 div 10))" using two_digits_props(1) [OF time_parts(1) [OF assms(1)]] by (simp add: two_digits_def)
  obtain r where r: "lrc_time t = CHR ''['' # digit_char (t div 3600000 div 10) # r" by (simp add: lrc_time_def hms_def two_digits_def)
  have "CHR ''['' \<notin> set (tl (lrc_time t))"
    using lrc_time_chars [OF assms(1), of "CHR ''[''"] digits_not_space [of "CHR ''[''"] by auto
  then have free: "CHR ''['' \<notin> set (tl (lrc_time t) @ v)" using assms(2) by simp
  have letters: "\<not> is_letter (digit_char (t div 3600000 div 10))" "digit_char (t div 3600000 div 10) \<noteq> CHR ''b''"
    "digit_char (t div 3600000 div 10) \<notin> {CHR ''a'', CHR ''t'', CHR ''o'', CHR ''l''}"
    using d by (auto simp: is_digit_def is_letter_def byte_def)
  then have "id_prefix (lrc_time t @ v) = None" by (simp add: id_prefix_def expect_def r)
  moreover have "lrc_id_tag (tl (lrc_time t) @ v) = None" by (rule lrc_id_tag_free [OF free])
  moreover have "lrc_time t @ v = CHR ''['' # tl (lrc_time t) @ v" using lrc_time_Cons(1) [of t] by (metis append_Cons)
  ultimately show "lrc_id_tag (lrc_time t @ v) = None" by (metis lrc_id_tag.simps(2) option.simps(4))
  show "bg_tag (lrc_time t @ v) = None" "\<not> unknown_tag (lrc_time t @ v)" using letters by (simp_all add: bg_tag_def unknown_tag_def r)
qed

definition pending :: "string \<Rightarrow> Line list \<Rightarrow> Line \<Rightarrow> lrc_state" where
  "pending lang ls l = (lrc_start lang)\<lparr>st_lines := ls, st_priorLine := ln_Value l, st_validLine := True, st_timestamps := [int (the_ms (ln_Start l))]\<rparr>"

lemma flush_pending:
  assumes "lrc_line l"
  shows "flushLine (pending lang ls l) = (lrc_start lang)\<lparr>st_lines := ls @ [l], st_priorLine := ln_Value l, st_validLine := True\<rparr>"
proof -
  have free: "CHR ''<'' \<notin> set (ln_Value l)" and trim: "trim_space (ln_Value l) = ln_Value l"
    using assms solid_trim by (auto simp: lrc_line_def trim_space_def)
  have "parseEnhancedLine (ln_Value l) = (ln_Value l, [])" using find_times_free [OF free] trim by (simp add: parseEnhancedLine_def)
  moreover have "l = \<lparr>ln_Start = Some (int (the_ms (ln_Start l))), ln_End = None, ln_Value = ln_Value l, ln_Cue = []\<rparr>"
    using assms timed_ms [of "ln_Start l"] by (simp add: lrc_line_def)
  ultimately show ?thesis by (simp add: flushLine_def pending_def lrc_start_def shiftELRCCues_def)
qed

lemma lrc_step_print:
  assumes "lrc_line l" and "st1 = (if st_validLine st then flushLine st else st)"
  shows "lrc_step sanitize True (lrc_text l) st =
    Inr (st1\<lparr>st_timestamps := st_timestamps st1 @ [int (the_ms (ln_Start l))], st_priorLine := ln_Value l, st_validLine := True\<rparr>)"
proof -
  define t where "t = the_ms (ln_Start l)"
  have t: "t < max_time" using assms(1) timed_ms by (simp add: lrc_line_def t_def)
  have v: "CHR ''['' \<notin> set (ln_Value l)" "trim_space (ln_Value l) = ln_Value l" using assms(1) solid_trim by (auto simp: lrc_line_def trim_space_def)
  have "last (lrc_text l) = CHR '']'' \<or> (solid (ln_Value l) \<and> last (lrc_text l) = last (ln_Value l))"
    using assms(1) by (auto simp: lrc_line_def lrc_text_def lrc_time_def)
  then have "\<not> is_space (last (lrc_text l))" by (auto simp: solid_def is_space_def)
  moreover have "hd (lrc_text l) = CHR ''[''" "lrc_text l \<noteq> []" by (simp_all add: lrc_text_def lrc_time_def)
  ultimately have trim: "trim_space (lrc_text l) = lrc_text l" using trim_space_solid [of "lrc_text l" "[]" "[]"] by (simp add: is_space_def)
  have times: "find_times (CHR ''['') (CHR '']'') 0 (lrc_text l) = [time_match_of t]"
    using find_times_print [OF t v(1)] by (simp add: lrc_text_def t_def)
  have rest: "(if 14 \<ge> length (lrc_text l) then [] else trim_space (drop 14 (lrc_text l))) = ln_Value l"
    using v(2) lrc_time_Cons(2) [of t] by (simp add: lrc_text_def t_def)
  have "tm_start (time_match_of t) = 0" "tm_end (time_match_of t) = 14" by (simp_all add: time_match_of_def)
  then have "timed_step (lrc_text l) st =
    Inr (st1\<lparr>st_timestamps := st_timestamps st1 @ [int t], st_priorLine := ln_Value l, st_validLine := True\<rparr>)"
    using rest parseTime_print [OF t] assms(2) by (simp add: timed_step_def times Let_def)
  moreover have "lrc_id_tag (lrc_text l) = None" "bg_tag (lrc_text l) = None" "\<not> unknown_tag (lrc_text l)"
    using lrc_time_tags [OF t v(1)] by (simp_all add: lrc_text_def t_def)
  ultimately show ?thesis using \<open>lrc_text l \<noteq> []\<close> unfolding lrc_step_def trim Let_def t_def by simp
qed

lemma lrc_steps_print:
  "list_all lrc_line (l # ls) \<Longrightarrow> lrc_steps sanitize True (map lrc_text ls) (pending lang ms l) = Inr (pending lang (ms @ butlast (l # ls)) (last (l # ls)))"
proof (induction ls arbitrary: ms l)
  case (Cons k ls)
  have "lrc_step sanitize True (lrc_text k) (pending lang ms l) = Inr (pending lang (ms @ [l]) k)"
    using Cons.prems lrc_step_print [of k "flushLine (pending lang ms l)" "pending lang ms l" sanitize] flush_pending [of l lang ms]
    by (simp add: pending_def lrc_start_def)
  then show ?case using Cons by simp
qed simp

text \<open>
  C32 (roundtrip): Lyrics printed in the format LRC are read back as they were, for times below a hundred hours, texts
  without padding and opening brackets, and a sanitiser that leaves the text alone.
\<close>

theorem parseLRC_roundtrip:
  assumes "list_all lrc_line ls" and "ls \<noteq> []" and "sanitize (print_lrc ls) = print_lrc ls"
  shows "parseLRC sanitize sort_lines lang (print_lrc ls) = Inr (empty_lyrics\<lparr>ly_Lang := lang, ly_Line := ls, ly_Synced := True\<rparr>)"
proof -
  obtain l ks where ls: "ls = l # ks" using assms(2) by (cases ls) auto
  define t where "t = the_ms (ln_Start l)"
  have t: "t < max_time" using assms(1) timed_ms by (simp add: ls lrc_line_def t_def)
  obtain r where r: "print_lrc ls = lrc_time t @ r" by (cases "ks = []") (simp_all add: print_lrc_def ls join_Cons lrc_text_def t_def)
  have sync: "sync_match True (print_lrc ls)"
    using time_prefix_print [OF t, of r] lrc_time_Cons(1) [of t] unfolding r by (metis append_Cons option.distinct(1) sync_match.simps(2))
  have "newline \<notin> set (lrc_text k)" if "k \<in> set ls" for k
  proof -
    have k: "the_ms (ln_Start k) < max_time" "newline \<notin> set (ln_Value k)" using assms(1) that timed_ms by (auto simp: list_all_iff lrc_line_def solid_def)
    have "\<not> is_digit newline" by (simp add: is_digit_def byte_def)
    then have "newline \<notin> set (tl (lrc_time (the_ms (ln_Start k))))" using lrc_time_chars [OF k(1), of newline] by auto
    then have "newline \<notin> set (lrc_time (the_ms (ln_Start k)))" by (subst lrc_time_Cons(1)) simp
    then show ?thesis using k(2) by (simp add: lrc_text_def)
  qed
  then have lines: "split_on newline (print_lrc ls) = map lrc_text ls" unfolding print_lrc_def using assms(2) by (intro split_join) auto
  have first: "lrc_step sanitize True (lrc_text l) (lrc_start lang) = Inr (pending lang [] l)"
    using assms(1) lrc_step_print [of l "lrc_start lang" "lrc_start lang" sanitize] by (simp add: ls pending_def lrc_start_def)
  have "lrc_steps sanitize True (map lrc_text ls) (lrc_start lang) = Inr (pending lang (butlast ls) (last ls))"
    using lrc_steps_print [of l ks sanitize lang "[]"] assms(1) first by (simp add: ls)
  moreover have "lrc_line (last ls)" using assms(1,2) by (simp add: list_all_iff)
  moreover have "normalizeCueLines ls = ls" by (rule normalizeCueLines_plain) (use assms(1) in \<open>simp add: list_all_iff lrc_line_def\<close>)
  ultimately show ?thesis
    using assms(2,3) sync lines flush_pending [of "last ls" lang "butlast ls"]
    by (simp add: parseLRC_def lrc_result_def) (simp add: pending_def lrc_start_def empty_lyrics_def)
qed

theorem parseLRC_roundtrip_witness:
  "parseLRC (\<lambda>s. s) (\<lambda>ls. ls) ''eng'' (print_lrc [(ex_line 1500 0 ''la (la)'')\<lparr>ln_End := None\<rparr>, (ex_line 0 0 [])\<lparr>ln_End := None\<rparr>]) =
     Inr (empty_lyrics\<lparr>ly_Lang := ''eng'', ly_Line := [(ex_line 1500 0 ''la (la)'')\<lparr>ln_End := None\<rparr>, (ex_line 0 0 [])\<lparr>ln_End := None\<rparr>], ly_Synced := True\<rparr>)"
  by (rule parseLRC_roundtrip) (simp_all add: ex_line_def lrc_line_def timed_def max_time_def solid_def is_space_def)

section \<open>Lines that are not read as they were meant\<close>

text \<open>Text in front of the first marker of a word is lost.\<close>

lemma leading_text_dropped: "fst (parseEnhancedLine ''Oh <00:01.00>love'') = ''love''"
  by code_simp

text \<open>A line of lyrics that quotes a tag is taken as the tag.\<close>

lemma tag_inside_line: "lrc_id_tag ''[00:01.00]sing [ti:me]'' = Some (''ti'', ''me'')"
  by code_simp

end
