(* ===== verification/Lyrics_TTML.thy ===== *)
theory Lyrics_TTML
  imports Lyrics_Text Go_Float
begin

text \<open>
  Lyrics in the XML format TTML, \<open>model/lyrics_ttml.go\<close>. The decoder of the library is the list of the tokens it delivers
  and the error it ends with (none where the input is used up); of a name only the local part is read. \<open>parse_float\<close> is
  \<open>strconv.ParseFloat\<close> on finite numbers. Floating-point numbers are rationals that are rounded after each operation;
  a time that does not fit 64 bits, which Go leaves to the implementation, is kept as it is. Loops that read tokens have
  fuel: one more than the number of tokens is enough.
\<close>

section \<open>Tokens and environment\<close>

datatype xml_token =
    StartElement string "(string \<times> string) list"
  | EndElement string
  | CharData string
  | OtherToken

datatype ttml_error = OutOfFuel | XmlError lyric_error

record ttml_env =
  te_sanitize :: "string \<Rightarrow> string"
  te_parse_float :: "string \<Rightarrow> rat option"
  te_xml :: "string \<Rightarrow> xml_token list \<times> lyric_error option"

definition f64 :: "rat \<Rightarrow> rat" where
  "f64 q = round_float 53 q"

text \<open>\<open>math.Round\<close>: to the nearest integer, halves away from zero.\<close>

definition go_round :: "rat \<Rightarrow> int" where
  "go_round q = (if q < 0 then - \<lfloor>1 / 2 - q\<rfloor> else \<lfloor>q + 1 / 2\<rfloor>)"

definition round_ms :: "rat \<Rightarrow> int" where
  "round_ms seconds = go_round (f64 (seconds * 1000))"

section \<open>Times\<close>

datatype ttmlTimeKind = ttmlTimeAbsolute | ttmlTimeOffset | ttmlTimeAmbiguous

record ttmlTimingParams =
  tp_frameRate :: rat
  tp_subFrameRate :: rat
  tp_tickRate :: rat

record ttmlTimingContext =
  tc_lang :: string
  tc_role :: string
  tc_agentID :: string
  tc_begin :: int
  tc_hasBegin :: bool
  tc_end :: int
  tc_hasEnd :: bool
  tc_invalid :: bool

fun attrValue :: "(string \<times> string) list \<Rightarrow> string \<Rightarrow> string option" where
  "attrValue [] key = None"
| "attrValue ((name, v) # attrs) key = (if equal_fold name key then Some (trim_space v) else attrValue attrs key)"

definition attrOrEmpty :: "(string \<times> string) list \<Rightarrow> string \<Rightarrow> string" where
  "attrOrEmpty attrs key = (case attrValue attrs key of None \<Rightarrow> [] | Some v \<Rightarrow> v)"

fun str_contains :: "string \<Rightarrow> string \<Rightarrow> bool" where
  "str_contains [] t = (t = [])"
| "str_contains (c # cs) t \<longleftrightarrow> has_prefix (c # cs) t \<or> str_contains cs t"

text \<open>The groups of \<open>offsetTimeRegex\<close>: a number and its unit.\<close>

definition offset_time :: "string \<Rightarrow> (string \<times> string) option" where
  "offset_time s =
     (let d = takeWhile is_digit s; r = dropWhile is_digit s;
          frac = (case expect (CHR ''.'') r of None \<Rightarrow> [] | Some r' \<Rightarrow> takeWhile is_digit r');
          num = (if frac = [] then d else d @ CHR ''.'' # frac);
          rest = drop (length num) s
      in if d \<noteq> [] \<and> rest \<in> {''h'', ''m'', ''s'', ''ms'', ''f'', ''t''} then Some (num, rest) else None)"

definition parseTTMLClockTime :: "ttml_env \<Rightarrow> string \<Rightarrow> int option" where
  "parseTTMLClockTime env v =
     (let clock = (\<lambda>h m s. do {
             hours \<leftarrow> h;
             minutes \<leftarrow> atoi m;
             seconds \<leftarrow> te_parse_float env s;
             Some (round_ms (f64 (f64 (of_int (wrap64 (hours * 60 * 60 + minutes * 60))) + seconds)))
           })
      in case split_on (CHR '':'') v of
           [m, s] \<Rightarrow> clock (Some 0) m s
         | [h, m, s] \<Rightarrow> clock (atoi h) m s
         | _ \<Rightarrow> None)"

text \<open>\<open>strings.SplitN(s, sep, 2)\<close> for a separator of one character.\<close>

definition split_first :: "char \<Rightarrow> string \<Rightarrow> string \<times> string option" where
  "split_first sep s =
     (takeWhile (\<lambda>c. c \<noteq> sep) s, (case dropWhile (\<lambda>c. c \<noteq> sep) s of [] \<Rightarrow> None | _ # r \<Rightarrow> Some r))"

definition parseTTMLFrameTime :: "ttml_env \<Rightarrow> ttmlTimingParams \<Rightarrow> string \<Rightarrow> int option" where
  "parseTTMLFrameTime env params v =
     (case split_on (CHR '':'') v of
        [h, m, s, f] \<Rightarrow>
          do {
            hours \<leftarrow> atoi h;
            minutes \<leftarrow> atoi m;
            seconds \<leftarrow> atoi s;
            (let (f0, f1) = split_first (CHR ''.'') f
             in do {
               frames \<leftarrow> te_parse_float env f0;
               subFrames \<leftarrow> (case f1 of None \<Rightarrow> Some 0 | Some x \<Rightarrow> te_parse_float env x);
               (let t0 = f64 (of_int (wrap64 (hours * 60 * 60 + minutes * 60 + seconds)));
                    t1 = f64 (t0 + f64 (frames / tp_frameRate params));
                    t2 = f64 (t1 + f64 (subFrames / f64 (tp_subFrameRate params * tp_frameRate params)))
                in Some (round_ms t2))
             })
          }
      | _ \<Rightarrow> None)"

definition unit_seconds :: "ttmlTimingParams \<Rightarrow> rat \<Rightarrow> string \<Rightarrow> rat" where
  "unit_seconds params v u =
     (if u = ''h'' then f64 (f64 (v * 60) * 60) else if u = ''m'' then f64 (v * 60) else if u = ''s'' then v
      else if u = ''ms'' then f64 (v / 1000) else if u = ''f'' then f64 (v / tp_frameRate params)
      else f64 (v / tp_tickRate params))"

definition clock_expression :: "ttml_env \<Rightarrow> ttmlTimingParams \<Rightarrow> string \<Rightarrow> (int \<times> ttmlTimeKind) option" where
  "clock_expression env params expr =
     (let colonCount = length (filter (\<lambda>c. c = CHR '':'') expr)
      in if colonCount = 1 \<or> colonCount = 2 then map_option (\<lambda>t. (t, ttmlTimeAbsolute)) (parseTTMLClockTime env expr)
         else if colonCount = 3 then map_option (\<lambda>t. (t, ttmlTimeAbsolute)) (parseTTMLFrameTime env params expr)
         else None)"

definition parseTTMLTimeExpression :: "ttml_env \<Rightarrow> ttmlTimingParams \<Rightarrow> string \<Rightarrow> (int \<times> ttmlTimeKind) option" where
  "parseTTMLTimeExpression env params expr0 =
     (let expr = trim_space expr0; lower = go_lower expr
      in if expr = [] then None
         else if str_contains lower ''wallclock('' \<or> str_contains lower ''.begin'' \<or> str_contains lower ''.end'' then None
         else case (case te_parse_float env lower of Some v \<Rightarrow> if v \<ge> 0 then Some v else None | None \<Rightarrow> None) of
                Some v \<Rightarrow> Some (round_ms v, ttmlTimeAmbiguous)
              | None \<Rightarrow>
                  (case offset_time lower of
                     Some (num, u) \<Rightarrow> map_option (\<lambda>v. (round_ms (unit_seconds params v u), ttmlTimeOffset)) (te_parse_float env num)
                   | None \<Rightarrow> clock_expression env params expr))"

definition parseTTMLDurationExpression :: "ttml_env \<Rightarrow> ttmlTimingParams \<Rightarrow> string \<Rightarrow> int option" where
  "parseTTMLDurationExpression env params expr = map_option fst (parseTTMLTimeExpression env params expr)"

definition resolve_ambiguous :: "int \<Rightarrow> int \<Rightarrow> ttmlTimingContext \<Rightarrow> int" where
  "resolve_ambiguous v base parent =
     (let absolute = v; offset = wrap64 (base + v);
          absoluteInParent = (absolute \<ge> tc_begin parent \<and> absolute \<le> tc_end parent);
          offsetInParent = (offset \<ge> tc_begin parent \<and> offset \<le> tc_end parent)
      in if \<not> tc_hasBegin parent \<and> \<not> tc_hasEnd parent \<and> base \<noteq> 0 then absolute
         else if tc_hasBegin parent \<and> tc_hasEnd parent \<and> absoluteInParent \<and> \<not> offsetInParent then absolute
         else if tc_hasBegin parent \<and> tc_hasEnd parent \<and> offsetInParent \<and> \<not> absoluteInParent then offset
         else if tc_hasBegin parent \<and> absolute < tc_begin parent \<and> offset \<ge> tc_begin parent then offset
         else if tc_hasBegin parent \<and> absolute \<ge> tc_begin parent \<and> offset > absolute then absolute
         else offset)"

fun resolveTTMLTime :: "int \<Rightarrow> ttmlTimeKind \<Rightarrow> int \<Rightarrow> ttmlTimingContext \<Rightarrow> int" where
  "resolveTTMLTime v ttmlTimeAbsolute base parent = v"
| "resolveTTMLTime v ttmlTimeOffset base parent = wrap64 (base + v)"
| "resolveTTMLTime v ttmlTimeAmbiguous base parent = resolve_ambiguous v base parent"

definition positive_float :: "ttml_env \<Rightarrow> (string \<times> string) list \<Rightarrow> string \<Rightarrow> rat \<Rightarrow> rat" where
  "positive_float env attrs key old =
     (case attrValue attrs key of
        None \<Rightarrow> old
      | Some v \<Rightarrow> (case te_parse_float env v of Some parsed \<Rightarrow> if parsed > 0 then parsed else old | None \<Rightarrow> old))"

definition rate_multiplier :: "ttml_env \<Rightarrow> (string \<times> string) list \<Rightarrow> rat \<Rightarrow> rat" where
  "rate_multiplier env attrs frameRate =
     (case attrValue attrs ''frameRateMultiplier'' of
        None \<Rightarrow> frameRate
      | Some v \<Rightarrow>
          (case map (te_parse_float env) (go_fields v) of
             [Some numerator, Some denominator] \<Rightarrow>
               if denominator > 0 then f64 (frameRate * f64 (numerator / denominator)) else frameRate
           | _ \<Rightarrow> frameRate))"

definition updateTimingParams :: "ttml_env \<Rightarrow> (string \<times> string) list \<Rightarrow> ttmlTimingParams \<Rightarrow> ttmlTimingParams" where
  "updateTimingParams env attrs params =
     (let frameRate = rate_multiplier env attrs (positive_float env attrs ''frameRate'' (tp_frameRate params));
          subFrameRate = positive_float env attrs ''subFrameRate'' (tp_subFrameRate params);
          tickRate = positive_float env attrs ''tickRate'' (tp_tickRate params)
      in \<lparr>tp_frameRate = (if frameRate > 0 then frameRate else 30),
          tp_subFrameRate = (if subFrameRate > 0 then subFrameRate else 1),
          tp_tickRate = (if tickRate > 0 then tickRate else 1)\<rparr>)"

section \<open>Contexts\<close>

definition contextHasRole :: "string \<Rightarrow> string \<Rightarrow> bool" where
  "contextHasRole roles role \<longleftrightarrow> go_lower role \<in> set (go_fields (go_lower roles))"

definition add_role :: "string \<Rightarrow> string \<Rightarrow> string" where
  "add_role existing role =
     (if contextHasRole existing role then existing else if existing = [] then role else existing @ '' '' @ role)"

definition appendTTMLRoles :: "string \<Rightarrow> string \<Rightarrow> string" where
  "appendTTMLRoles existing roles = foldl add_role existing (go_fields roles)"

definition context_attrs :: "(string \<times> string) list \<Rightarrow> ttmlTimingContext \<Rightarrow> ttmlTimingContext" where
  "context_attrs attrs ctx0 =
     (let ctx1 = (case attrValue attrs ''lang'' of None \<Rightarrow> ctx0 | Some l \<Rightarrow> ctx0\<lparr>tc_lang := normalizeLyricLang l\<rparr>);
          ctx2 = (case attrValue attrs ''agent'' of None \<Rightarrow> ctx1 | Some a \<Rightarrow> ctx1\<lparr>tc_agentID := trim_space a\<rparr>)
      in case attrValue attrs ''role'' of
           None \<Rightarrow> ctx2
         | Some r \<Rightarrow> (let role = trim_space r in if role \<noteq> [] then ctx2\<lparr>tc_role := appendTTMLRoles (tc_role ctx2) role\<rparr> else ctx2))"

definition child_begin :: "ttml_env \<Rightarrow> ttmlTimingParams \<Rightarrow> (string \<times> string) list \<Rightarrow> ttmlTimingContext \<Rightarrow> (int \<times> bool) option" where
  "child_begin env params attrs parent =
     (case attrValue attrs ''begin'' of
        None \<Rightarrow> Some (tc_begin parent, tc_hasBegin parent)
      | Some e \<Rightarrow>
          do {
            (v, kind) \<leftarrow> parseTTMLTimeExpression env params e;
            Some (resolveTTMLTime v kind (if tc_hasBegin parent then tc_begin parent else 0) parent, True)
          })"

text \<open>The end a child has: none, or \<open>end\<close> and \<open>dur\<close>, whichever is first; \<open>None\<close> where one of them is not valid.\<close>

definition child_end :: "ttml_env \<Rightarrow> ttmlTimingParams \<Rightarrow> (string \<times> string) list \<Rightarrow> ttmlTimingContext \<Rightarrow> int \<Rightarrow> bool \<Rightarrow> int option option" where
  "child_end env params attrs parent b hasB =
     do {
       e \<leftarrow> (case attrValue attrs ''end'' of
               None \<Rightarrow> Some None
             | Some x \<Rightarrow>
                 do {
                   (v, kind) \<leftarrow> parseTTMLTimeExpression env params x;
                   Some (Some (resolveTTMLTime v kind (if hasB then b else tc_begin parent) parent))
                 });
       (case attrValue attrs ''dur'' of
          None \<Rightarrow> Some e
        | Some x \<Rightarrow>
            do {
              dur \<leftarrow> parseTTMLDurationExpression env params x;
              (let durEnd = wrap64 (b + dur)
               in Some (if hasB then (case e of None \<Rightarrow> Some durEnd | Some ce \<Rightarrow> if durEnd < ce then Some durEnd else e) else e))
            })
     }"

definition childContext :: "ttml_env \<Rightarrow> ttmlTimingParams \<Rightarrow> (string \<times> string) list \<Rightarrow> ttmlTimingContext \<Rightarrow> ttmlTimingContext" where
  "childContext env params attrs parent =
     (let ctx = context_attrs attrs parent
      in case child_begin env params attrs parent of
           None \<Rightarrow> ctx\<lparr>tc_invalid := True\<rparr>
         | Some (b, hasB) \<Rightarrow>
             (let ctx = ctx\<lparr>tc_begin := b, tc_hasBegin := hasB\<rparr>
              in case child_end env params attrs parent b hasB of
                   None \<Rightarrow> ctx\<lparr>tc_invalid := True\<rparr>
                 | Some (Some e) \<Rightarrow> ctx\<lparr>tc_end := e, tc_hasEnd := True\<rparr>
                 | Some None \<Rightarrow>
                     if tc_hasEnd parent then ctx\<lparr>tc_end := tc_end parent, tc_hasEnd := True\<rparr>
                     else ctx\<lparr>tc_end := 0, tc_hasEnd := False\<rparr>))"

definition resolveCueAgentID :: "ttmlTimingContext \<Rightarrow> string" where
  "resolveCueAgentID ctx =
     (let agentID = trim_space (tc_agentID ctx)
      in if contextHasRole (tc_role ctx) ''x-bg'' then backgroundAgentID (if agentID = [] then ''main'' else agentID) else agentID)"

section \<open>Pieces of a line\<close>

record ttmlPiece =
  pc_raw :: string
  pc_cue :: "Cue option"
  pc_isBreak :: bool

definition text_piece :: "string \<Rightarrow> ttmlPiece" where
  "text_piece s = \<lparr>pc_raw = s, pc_cue = None, pc_isBreak = False\<rparr>"

definition break_piece :: ttmlPiece where
  "break_piece = \<lparr>pc_raw = [], pc_cue = None, pc_isBreak = True\<rparr>"

fun collapse_from :: "bool \<Rightarrow> string \<Rightarrow> string" where
  "collapse_from prevSpace [] = []"
| "collapse_from prevSpace (c # cs) =
     (if c \<in> {CHR 0x20, CHR 0x09, newline, CHR 0x0D} then (if prevSpace then collapse_from True cs else CHR 0x20 # collapse_from True cs)
      else c # collapse_from False cs)"

definition collapseTTMLWhitespace :: "string \<Rightarrow> string" where
  "collapseTTMLWhitespace raw = collapse_from False raw"

definition normalizeTTMLPieceRaw :: "ttml_env \<Rightarrow> string \<Rightarrow> string" where
  "normalizeTTMLPieceRaw env raw = collapseTTMLWhitespace (te_sanitize env raw)"

definition concatTTMLPieceRaw :: "ttml_env \<Rightarrow> ttmlPiece list \<Rightarrow> string" where
  "concatTTMLPieceRaw env pieces = concat (map (\<lambda>p. normalizeTTMLPieceRaw env (pc_raw p)) pieces)"

definition ttmlPiecesContainCue :: "ttmlPiece list \<Rightarrow> bool" where
  "ttmlPiecesContainCue pieces \<longleftrightarrow> list_ex (\<lambda>p. pc_cue p \<noteq> None) pieces"

definition sanitizeTTMLText :: "ttml_env \<Rightarrow> string \<Rightarrow> string" where
  "sanitizeTTMLText env raw =
     trim_space (join [newline] (map trim_space (split_on newline (unix_newlines (te_sanitize env raw)))))"

text \<open>The logical lines; the last one is given with the pieces it has so far.\<close>

fun split_pieces :: "ttml_env \<Rightarrow> bool \<Rightarrow> ttmlPiece list \<Rightarrow> ttmlPiece list \<Rightarrow> ttmlPiece list list" where
  "split_pieces env prevEndedWithSpace line [] = [line]"
| "split_pieces env prevEndedWithSpace line (p # ps) =
     (if pc_isBreak p then line # split_pieces env True [] ps
      else let raw0 = normalizeTTMLPieceRaw env (pc_raw p);
               raw = (if prevEndedWithSpace then trim_prefix raw0 '' '' else raw0)
           in if raw = [] then split_pieces env prevEndedWithSpace line ps
              else split_pieces env (last raw = CHR '' '') (line @ [\<lparr>pc_raw = raw, pc_cue = pc_cue p, pc_isBreak = False\<rparr>]) ps)"

definition splitTTMLPiecesByBreak :: "ttml_env \<Rightarrow> ttmlPiece list \<Rightarrow> ttmlPiece list list" where
  "splitTTMLPiecesByBreak env pieces = split_pieces env True [] pieces"

text \<open>The word of a piece that starts at \<open>cursor\<close> in the text of its line.\<close>

definition piece_cue :: "string \<Rightarrow> nat \<Rightarrow> ttmlPiece \<Rightarrow> Cue option" where
  "piece_cue rawLine cursor piece =
     (case pc_cue piece of
        None \<Rightarrow> None
      | Some cue \<Rightarrow>
          let byteStart = max cursor (left_trim rawLine); byteEnd = min (cursor + length (pc_raw piece)) (trimmed_end rawLine)
          in if byteStart < byteEnd then
               Some (cue\<lparr>c_Value := go_slice byteStart byteEnd rawLine, c_ByteStart := int byteStart - int (left_trim rawLine),
                         c_ByteEnd := int byteEnd - int (left_trim rawLine) - 1\<rparr>)
             else None)"

fun piece_cues :: "string \<Rightarrow> nat \<Rightarrow> ttmlPiece list \<Rightarrow> Cue list" where
  "piece_cues rawLine cursor [] = []"
| "piece_cues rawLine cursor (p # ps) =
     (case piece_cue rawLine cursor p of None \<Rightarrow> [] | Some c \<Rightarrow> [c]) @ piece_cues rawLine (cursor + length (pc_raw p)) ps"

definition finalizeTTMLLogicalLine :: "ttml_env \<Rightarrow> ttmlPiece list \<Rightarrow> string \<times> Cue list" where
  "finalizeTTMLLogicalLine env line =
     (let rawLine = concatTTMLPieceRaw env line
      in if rawLine = [] then ([], []) else (trim_space rawLine, piece_cues rawLine 0 line))"

definition finalizeTTMLLines :: "ttml_env \<Rightarrow> ttmlPiece list list \<Rightarrow> (string \<times> Cue list) list" where
  "finalizeTTMLLines env lines = map (finalizeTTMLLogicalLine env) lines"

definition shift_bytes :: "nat \<Rightarrow> Cue \<Rightarrow> Cue" where
  "shift_bytes n c = c\<lparr>c_ByteStart := c_ByteStart c + int n, c_ByteEnd := c_ByteEnd c + int n\<rparr>"

fun join_lines :: "string \<Rightarrow> Cue list \<Rightarrow> (string \<times> Cue list) list \<Rightarrow> string \<times> Cue list" where
  "join_lines val cues [] = (val, cues)"
| "join_lines val cues ((txt, cs) # rest) =
     join_lines (val @ newline # txt) (cues @ map (shift_bytes (length val + 1)) cs) rest"

definition blank_line :: "string \<times> Cue list \<Rightarrow> bool" where
  "blank_line l \<longleftrightarrow> fst l = [] \<and> snd l = []"

definition buildTTMLLineFromPieces :: "ttml_env \<Rightarrow> ttmlPiece list \<Rightarrow> string \<times> Cue list" where
  "buildTTMLLineFromPieces env pieces =
     (let finalized = rev (dropWhile blank_line (rev (dropWhile blank_line (finalizeTTMLLines env (splitTTMLPiecesByBreak env pieces)))))
      in case finalized of [] \<Rightarrow> ([], []) | (txt, cs) # rest \<Rightarrow> join_lines txt cs rest)"

section \<open>Elements inside a line\<close>

definition own_timing :: "(string \<times> string) list \<Rightarrow> bool" where
  "own_timing attrs \<longleftrightarrow> attrValue attrs ''begin'' \<noteq> None \<or> attrValue attrs ''end'' \<noteq> None \<or> attrValue attrs ''dur'' \<noteq> None"

text \<open>What an element is when its end is read: one piece with a word, or its pieces.\<close>

definition close_inline :: "ttml_env \<Rightarrow> string \<Rightarrow> bool \<Rightarrow> ttmlTimingContext \<Rightarrow> ttmlPiece list \<Rightarrow> ttmlPiece list" where
  "close_inline env name hasOwnTiming ctx pieces =
     (if go_lower name = ''span'' \<and> hasOwnTiming \<and> \<not> tc_invalid ctx \<and> \<not> ttmlPiecesContainCue pieces then
        (let rawValue = concatTTMLPieceRaw env pieces
         in if sanitizeTTMLText env rawValue \<noteq> [] then
              [\<lparr>pc_raw = rawValue,
                pc_cue = Some \<lparr>c_Start = (if tc_hasBegin ctx then Some (tc_begin ctx) else None),
                               c_End = (if tc_hasEnd ctx then Some (tc_end ctx) else None),
                               c_Value = [], c_ByteStart = 0, c_ByteEnd = 0, c_AgentID = resolveCueAgentID ctx\<rparr>,
                pc_isBreak = False\<rparr>]
            else pieces)
      else pieces)"

definition decoder_error :: "lyric_error option \<Rightarrow> lyric_error" where
  "decoder_error e = (case e of None \<Rightarrow> LibraryError ''EOF'' | Some err \<Rightarrow> err)"

fun inline_loop ::
    "nat \<Rightarrow> ttml_env \<Rightarrow> lyric_error option \<Rightarrow> ttmlTimingParams \<Rightarrow> string \<Rightarrow> bool \<Rightarrow> ttmlTimingContext \<Rightarrow> ttmlPiece list \<Rightarrow>
     xml_token list \<Rightarrow> ttml_error + ttmlPiece list \<times> xml_token list" where
  "inline_loop 0 env e params name hasOwn ctx pieces ts = Inl OutOfFuel"
| "inline_loop (Suc n) env e params name hasOwn ctx pieces [] = Inl (XmlError (decoder_error e))"
| "inline_loop (Suc n) env e params name hasOwn ctx pieces (t # ts) =
     (case t of
        StartElement nm attrs \<Rightarrow>
          (case (if go_lower nm = ''br'' then Inr ([break_piece], ts)
                 else inline_loop n env e params nm (own_timing attrs) (childContext env params attrs ctx) [] ts) of
             Inl err \<Rightarrow> Inl err
           | Inr (ps, ts') \<Rightarrow> inline_loop n env e params name hasOwn ctx (pieces @ ps) ts')
      | EndElement nm \<Rightarrow>
          if \<not> equal_fold nm name then inline_loop n env e params name hasOwn ctx pieces ts
          else Inr (close_inline env name hasOwn ctx pieces, ts)
      | CharData s \<Rightarrow> inline_loop n env e params name hasOwn ctx (pieces @ [text_piece s]) ts
      | OtherToken \<Rightarrow> inline_loop n env e params name hasOwn ctx pieces ts)"

definition parseInlineElement ::
    "nat \<Rightarrow> ttml_env \<Rightarrow> lyric_error option \<Rightarrow> ttmlTimingParams \<Rightarrow> string \<Rightarrow> (string \<times> string) list \<Rightarrow> ttmlTimingContext \<Rightarrow>
     xml_token list \<Rightarrow> ttml_error + ttmlPiece list \<times> xml_token list" where
  "parseInlineElement n env e params name attrs parent ts =
     (if go_lower name = ''br'' then Inr ([break_piece], ts)
      else inline_loop n env e params name (own_timing attrs) (childContext env params attrs parent) [] ts)"

fun paragraph_loop ::
    "nat \<Rightarrow> ttml_env \<Rightarrow> lyric_error option \<Rightarrow> ttmlTimingParams \<Rightarrow> ttmlTimingContext \<Rightarrow> ttmlPiece list \<Rightarrow> xml_token list \<Rightarrow>
     ttml_error + (string \<times> Cue list) \<times> xml_token list" where
  "paragraph_loop 0 env e params parent pieces ts = Inl OutOfFuel"
| "paragraph_loop (Suc n) env e params parent pieces [] = Inl (XmlError (decoder_error e))"
| "paragraph_loop (Suc n) env e params parent pieces (t # ts) =
     (case t of
        StartElement nm attrs \<Rightarrow>
          (case parseInlineElement n env e params nm attrs parent ts of
             Inl err \<Rightarrow> Inl err
           | Inr (ps, ts') \<Rightarrow> paragraph_loop n env e params parent (pieces @ ps) ts')
      | EndElement nm \<Rightarrow>
          if equal_fold nm ''p'' then Inr (buildTTMLLineFromPieces env pieces, ts) else paragraph_loop n env e params parent pieces ts
      | CharData s \<Rightarrow> paragraph_loop n env e params parent (pieces @ [text_piece s]) ts
      | OtherToken \<Rightarrow> paragraph_loop n env e params parent pieces ts)"

definition parseParagraph ::
    "nat \<Rightarrow> ttml_env \<Rightarrow> lyric_error option \<Rightarrow> ttmlTimingParams \<Rightarrow> ttmlTimingContext \<Rightarrow> xml_token list \<Rightarrow>
     ttml_error + (string \<times> Cue list) \<times> xml_token list" where
  "parseParagraph n env e params parent ts = paragraph_loop n env e params parent [] ts"

section \<open>The state of the parser\<close>

record ttmlLineRef =
  rf_order :: nat
  rf_line :: Line

record ttmlMetadataEntry =
  me_key :: string
  me_line :: Line
  me_seq :: nat

record ttmlDefinedAgent =
  da_ID :: string
  da_Type :: string
  da_Name :: string

record ttmlParser =
  tt_params :: ttmlTimingParams
  tt_mainLangOrder :: "string list"
  tt_mainLinesByLang :: "string \<Rightarrow> Line list"
  tt_mainLineRefsByKey :: "string \<rightharpoonup> ttmlLineRef"
  tt_mainLineOrder :: nat
  tt_translationLangOrder :: "string list"
  tt_translationEntriesByLg :: "string \<Rightarrow> ttmlMetadataEntry list"
  tt_pronunciationLangOrder :: "string list"
  tt_pronunciationEntriesByLg :: "string \<Rightarrow> ttmlMetadataEntry list"
  tt_definedAgents :: "string \<rightharpoonup> ttmlDefinedAgent"
  tt_metadataSeq :: nat

definition new_parser :: ttmlParser where
  "new_parser = \<lparr>tt_params = \<lparr>tp_frameRate = 30, tp_subFrameRate = 1, tp_tickRate = 1\<rparr>, tt_mainLangOrder = [], tt_mainLinesByLang = (\<lambda>_. []),
     tt_mainLineRefsByKey = Map.empty, tt_mainLineOrder = 0, tt_translationLangOrder = [], tt_translationEntriesByLg = (\<lambda>_. []),
     tt_pronunciationLangOrder = [], tt_pronunciationEntriesByLg = (\<lambda>_. []), tt_definedAgents = Map.empty, tt_metadataSeq = 0\<rparr>"

text \<open>A language is entered into the order when its list is still without entries: only then it is not a key of the map.\<close>

definition add_lang :: "string \<Rightarrow> 'a list \<Rightarrow> string list \<Rightarrow> string list" where
  "add_lang lang entries order = (if entries = [] then order @ [lang] else order)"

definition addMainLine :: "string \<Rightarrow> string \<Rightarrow> Line \<Rightarrow> ttmlParser \<Rightarrow> ttmlParser" where
  "addMainLine lang0 lineKey0 line p =
     (let lang = normalizeLyricLang lang0; lineKey = trim_space lineKey0
      in p\<lparr>tt_mainLangOrder := add_lang lang (tt_mainLinesByLang p lang) (tt_mainLangOrder p),
           tt_mainLinesByLang := (tt_mainLinesByLang p)(lang := tt_mainLinesByLang p lang @ [line]),
           tt_mainLineRefsByKey :=
             (if lineKey \<noteq> [] \<and> tt_mainLineRefsByKey p lineKey = None
              then (tt_mainLineRefsByKey p)(lineKey \<mapsto> \<lparr>rf_order = tt_mainLineOrder p, rf_line = line\<rparr>)
              else tt_mainLineRefsByKey p),
           tt_mainLineOrder := tt_mainLineOrder p + 1\<rparr>)"

datatype metadata_kind = Translation | Pronunciation

definition addMetadataEntry :: "metadata_kind \<Rightarrow> string \<Rightarrow> ttmlMetadataEntry \<Rightarrow> ttmlParser \<Rightarrow> ttmlParser" where
  "addMetadataEntry kind lang0 entry0 p0 =
     (let lang = normalizeLyricLang lang0; entry = entry0\<lparr>me_seq := tt_metadataSeq p0\<rparr>; p = p0\<lparr>tt_metadataSeq := tt_metadataSeq p0 + 1\<rparr>
      in case kind of
           Translation \<Rightarrow>
             p\<lparr>tt_translationLangOrder := add_lang lang (tt_translationEntriesByLg p lang) (tt_translationLangOrder p),
               tt_translationEntriesByLg := (tt_translationEntriesByLg p)(lang := tt_translationEntriesByLg p lang @ [entry])\<rparr>
         | Pronunciation \<Rightarrow>
             p\<lparr>tt_pronunciationLangOrder := add_lang lang (tt_pronunciationEntriesByLg p lang) (tt_pronunciationLangOrder p),
               tt_pronunciationEntriesByLg := (tt_pronunciationEntriesByLg p)(lang := tt_pronunciationEntriesByLg p lang @ [entry])\<rparr>)"

section \<open>Elements\<close>

fun collect_text :: "nat \<Rightarrow> lyric_error option \<Rightarrow> string \<Rightarrow> string \<Rightarrow> xml_token list \<Rightarrow> ttml_error + string \<times> xml_token list" where
  "collect_text 0 e name txt ts = Inl OutOfFuel"
| "collect_text (Suc n) e name txt [] = Inl (XmlError (decoder_error e))"
| "collect_text (Suc n) e name txt (t # ts) =
     (case t of
        StartElement nm attrs \<Rightarrow>
          (case collect_text n e nm [] ts of
             Inl err \<Rightarrow> Inl err
           | Inr (v, ts') \<Rightarrow> collect_text n e name (txt @ v) ts')
      | EndElement nm \<Rightarrow> if equal_fold nm name then Inr (txt, ts) else collect_text n e name txt ts
      | CharData s \<Rightarrow> collect_text n e name (txt @ s) ts
      | OtherToken \<Rightarrow> collect_text n e name txt ts)"

definition collectElementText :: "nat \<Rightarrow> lyric_error option \<Rightarrow> string \<Rightarrow> xml_token list \<Rightarrow> ttml_error + string \<times> xml_token list" where
  "collectElementText n e name ts = collect_text n e name [] ts"

fun skip_depth :: "lyric_error option \<Rightarrow> nat \<Rightarrow> xml_token list \<Rightarrow> ttml_error + xml_token list" where
  "skip_depth e 0 ts = Inr ts"
| "skip_depth e (Suc d) [] = Inl (XmlError (decoder_error e))"
| "skip_depth e (Suc d) (t # ts) =
     (case t of StartElement nm attrs \<Rightarrow> skip_depth e (Suc (Suc d)) ts | EndElement nm \<Rightarrow> skip_depth e d ts | _ \<Rightarrow> skip_depth e (Suc d) ts)"

definition skipElement :: "lyric_error option \<Rightarrow> xml_token list \<Rightarrow> ttml_error + xml_token list" where
  "skipElement e ts = skip_depth e 1 ts"

fun agent_loop ::
    "nat \<Rightarrow> ttml_env \<Rightarrow> lyric_error option \<Rightarrow> string \<Rightarrow> ttmlDefinedAgent \<Rightarrow> ttmlParser \<Rightarrow> xml_token list \<Rightarrow>
     ttml_error + ttmlParser \<times> xml_token list" where
  "agent_loop 0 env e name agent p ts = Inl OutOfFuel"
| "agent_loop (Suc n) env e name agent p [] = Inl (XmlError (decoder_error e))"
| "agent_loop (Suc n) env e name agent p (t # ts) =
     (case t of
        StartElement nm attrs \<Rightarrow>
          if equal_fold nm ''name'' then
            (case collectElementText n e nm ts of
               Inl err \<Rightarrow> Inl err
             | Inr (v, ts') \<Rightarrow>
                 (let nme = sanitizeTTMLText env v
                  in agent_loop n env e name (if nme \<noteq> [] \<and> da_Name agent = [] then agent\<lparr>da_Name := nme\<rparr> else agent) p ts'))
          else (case skipElement e ts of Inl err \<Rightarrow> Inl err | Inr ts' \<Rightarrow> agent_loop n env e name agent p ts')
      | EndElement nm \<Rightarrow>
          if equal_fold nm name then Inr (p\<lparr>tt_definedAgents := (tt_definedAgents p)(da_ID agent \<mapsto> agent)\<rparr>, ts)
          else agent_loop n env e name agent p ts
      | _ \<Rightarrow> agent_loop n env e name agent p ts)"

definition parseAgentDefinition ::
    "nat \<Rightarrow> ttml_env \<Rightarrow> lyric_error option \<Rightarrow> string \<Rightarrow> (string \<times> string) list \<Rightarrow> ttmlParser \<Rightarrow> xml_token list \<Rightarrow>
     ttml_error + ttmlParser \<times> xml_token list" where
  "parseAgentDefinition n env e name attrs p ts =
     (let ident = trim_space (attrOrEmpty attrs ''id'')
      in if ident = [] then map_sum id (\<lambda>ts'. (p, ts')) (skipElement e ts)
         else agent_loop n env e name
                \<lparr>da_ID = ident, da_Type = go_lower (trim_space (attrOrEmpty attrs ''type'')), da_Name = []\<rparr> p ts)"

definition context_line :: "ttmlTimingContext \<Rightarrow> string \<Rightarrow> Cue list \<Rightarrow> Line" where
  "context_line ctx val cues =
     normalizeLineTiming \<lparr>ln_Start = (if tc_hasBegin ctx then Some (tc_begin ctx) else None),
                          ln_End = (if tc_hasEnd ctx then Some (tc_end ctx) else None), ln_Value = val, ln_Cue = cues\<rparr>"

definition parseMetadataText ::
    "nat \<Rightarrow> ttml_env \<Rightarrow> lyric_error option \<Rightarrow> ttmlTimingParams \<Rightarrow> string \<Rightarrow> (string \<times> string) list \<Rightarrow> ttmlTimingContext \<Rightarrow> xml_token list \<Rightarrow>
     ttml_error + ttmlMetadataEntry option \<times> xml_token list" where
  "parseMetadataText n env e params name attrs parent ts =
     (case parseInlineElement n env e params name attrs parent ts of
        Inl err \<Rightarrow> Inl err
      | Inr (pieces, ts') \<Rightarrow>
          (let forKey = trim_space (attrOrEmpty attrs ''for''); ctx = childContext env params attrs parent;
               (val, cues) = buildTTMLLineFromPieces env pieces
           in Inr (if forKey = [] \<or> tc_invalid ctx \<or> (val = [] \<and> cues = []) then None
                   else Some \<lparr>me_key = forKey, me_line = context_line ctx val cues, me_seq = 0\<rparr>, ts')))"

text \<open>A paragraph, whose line is added unless it is empty or its times are not valid.\<close>

definition parse_p ::
    "nat \<Rightarrow> ttml_env \<Rightarrow> lyric_error option \<Rightarrow> (string \<times> string) list \<Rightarrow> ttmlTimingContext \<Rightarrow> ttmlParser \<Rightarrow> xml_token list \<Rightarrow>
     ttml_error + ttmlParser \<times> xml_token list" where
  "parse_p n env e attrs ctx p ts =
     (case parseParagraph n env e (tt_params p) ctx ts of
        Inl err \<Rightarrow> Inl err
      | Inr ((lineText, cues), ts') \<Rightarrow>
          Inr (if tc_invalid ctx \<or> lineText = [] then p
               else addMainLine (tc_lang ctx) (attrOrEmpty attrs ''key'') (context_line ctx lineText cues) p, ts'))"

text \<open>The loops of \<open>parseElement\<close> and \<open>parseMetadataTrack\<close> over the content of an element; \<open>parse\<close> reads an element inside of it.\<close>

type_synonym element_parser =
  "string \<Rightarrow> (string \<times> string) list \<Rightarrow> ttmlTimingContext \<Rightarrow> ttmlParser \<Rightarrow> xml_token list \<Rightarrow> ttml_error + ttmlParser \<times> xml_token list"

primrec element_loop ::
    "nat \<Rightarrow> element_parser \<Rightarrow> lyric_error option \<Rightarrow> string \<Rightarrow> ttmlTimingContext \<Rightarrow> ttmlTimingContext \<Rightarrow> ttmlParser \<Rightarrow>
     xml_token list \<Rightarrow> ttml_error + ttmlParser \<times> xml_token list" where
  "element_loop 0 parse e name ctx parent p ts = Inl OutOfFuel"
| "element_loop (Suc n) parse e name ctx parent p ts =
     (case ts of
        [] \<Rightarrow> Inl (XmlError (decoder_error e))
      | t # ts \<Rightarrow>
          (case t of
             StartElement nm attrs \<Rightarrow>
               (case parse nm attrs (if tc_invalid ctx then parent else ctx) p ts of
                  Inl err \<Rightarrow> Inl err
                | Inr (p', ts') \<Rightarrow> element_loop n parse e name ctx parent p' ts')
           | EndElement nm \<Rightarrow> if equal_fold nm name then Inr (p, ts) else element_loop n parse e name ctx parent p ts
           | _ \<Rightarrow> element_loop n parse e name ctx parent p ts))"

primrec track_loop ::
    "nat \<Rightarrow> element_parser \<Rightarrow> ttml_env \<Rightarrow> lyric_error option \<Rightarrow> string \<Rightarrow> metadata_kind \<Rightarrow> ttmlTimingContext \<Rightarrow> ttmlTimingContext \<Rightarrow>
     ttmlParser \<Rightarrow> xml_token list \<Rightarrow> ttml_error + ttmlParser \<times> xml_token list" where
  "track_loop 0 parse env e name kind ctx parent p ts = Inl OutOfFuel"
| "track_loop (Suc n) parse env e name kind ctx parent p ts =
     (case ts of
        [] \<Rightarrow> Inl (XmlError (decoder_error e))
      | t # ts \<Rightarrow>
          (case t of
             StartElement nm attrs \<Rightarrow>
               if equal_fold nm ''text'' then
                 (case parseMetadataText n env e (tt_params p) nm attrs ctx ts of
                    Inl err \<Rightarrow> Inl err
                  | Inr (entry, ts') \<Rightarrow>
                      track_loop n parse env e name kind ctx parent
                        (case entry of None \<Rightarrow> p | Some x \<Rightarrow> addMetadataEntry kind (normalizeLyricLang (tc_lang ctx)) x p) ts')
               else
                 (case parse nm attrs (if tc_invalid ctx then parent else ctx) p ts of
                    Inl err \<Rightarrow> Inl err
                  | Inr (p', ts') \<Rightarrow> track_loop n parse env e name kind ctx parent p' ts')
           | EndElement nm \<Rightarrow> if equal_fold nm name then Inr (p, ts) else track_loop n parse env e name kind ctx parent p ts
           | _ \<Rightarrow> track_loop n parse env e name kind ctx parent p ts))"

definition parseMetadataTrack ::
    "nat \<Rightarrow> element_parser \<Rightarrow> ttml_env \<Rightarrow> lyric_error option \<Rightarrow> string \<Rightarrow> (string \<times> string) list \<Rightarrow> metadata_kind \<Rightarrow> ttmlTimingContext \<Rightarrow>
     ttmlParser \<Rightarrow> xml_token list \<Rightarrow> ttml_error + ttmlParser \<times> xml_token list" where
  "parseMetadataTrack n parse env e name attrs kind parent p ts =
     track_loop n parse env e name kind (childContext env (tt_params p) attrs parent) parent p ts"

text \<open>The fuel of \<open>parseElement\<close> bounds the depth of elements, and that of a loop the tokens it reads.\<close>

primrec parseElement :: "nat \<Rightarrow> ttml_env \<Rightarrow> lyric_error option \<Rightarrow> element_parser" where
  "parseElement 0 env e name attrs parent p0 ts = Inl OutOfFuel"
| "parseElement (Suc n) env e name attrs parent p0 ts =
     (let local = go_lower name;
          p = (if local = ''tt'' then p0\<lparr>tt_params := updateTimingParams env attrs (tt_params p0)\<rparr> else p0);
          fuel = Suc (length ts);
          ctx = childContext env (tt_params p) attrs parent
      in if local = ''translation'' then parseMetadataTrack fuel (parseElement n env e) env e name attrs Translation parent p ts
         else if local = ''transliteration'' then parseMetadataTrack fuel (parseElement n env e) env e name attrs Pronunciation parent p ts
         else if local = ''agent'' then parseAgentDefinition fuel env e name attrs p ts
         else if local = ''p'' then parse_p fuel env e attrs ctx p ts
         else element_loop fuel (parseElement n env e) e name ctx parent p ts)"

section \<open>The result\<close>

definition isBackgroundAgentID :: "string \<Rightarrow> bool" where
  "isBackgroundAgentID agentID \<longleftrightarrow> has_prefix agentID ''__nd_bg__|''"

definition baseRoleForAgent :: "ttmlParser \<Rightarrow> string \<Rightarrow> string" where
  "baseRoleForAgent p agentID =
     (if isBackgroundAgentID agentID then ''bg''
      else case tt_definedAgents p agentID of
             Some agent \<Rightarrow> if da_Type agent = ''group'' then ''group'' else ''voice''
           | None \<Rightarrow> ''voice'')"

definition agentNameForID :: "ttmlParser \<Rightarrow> string \<Rightarrow> string" where
  "agentNameForID p agentID =
     (if isBackgroundAgentID agentID then
        (let baseID = trim_prefix agentID ''__nd_bg__|''
         in if baseID = ''main'' then [] else case tt_definedAgents p baseID of Some agent \<Rightarrow> da_Name agent | None \<Rightarrow> [])
      else case tt_definedAgents p agentID of Some agent \<Rightarrow> da_Name agent | None \<Rightarrow> [])"

text \<open>The ids the words of the lines have, without white space around them; the empty one stands for words without a voice.\<close>

definition line_ids :: "Line list \<Rightarrow> string list" where
  "line_ids lines = concat (map (\<lambda>l. map (\<lambda>c. trim_space (c_AgentID c)) (ln_Cue l)) lines)"

definition choose_main :: "ttmlParser \<Rightarrow> bool \<Rightarrow> string list \<Rightarrow> string" where
  "choose_main p sawEmptyCue usedOrder =
     (case find (\<lambda>i. baseRoleForAgent p i \<noteq> ''bg'' \<and> baseRoleForAgent p i \<noteq> ''group'') usedOrder of
        Some i \<Rightarrow> i
      | None \<Rightarrow>
          if sawEmptyCue then ''main''
          else (case find (\<lambda>i. baseRoleForAgent p i \<noteq> ''bg'') usedOrder of Some i \<Rightarrow> i | None \<Rightarrow> hd usedOrder))"

definition fill_agent :: "string \<Rightarrow> Line list \<Rightarrow> Line list" where
  "fill_agent mainID lines =
     map (\<lambda>l. l\<lparr>ln_Cue := map (\<lambda>c. if trim_space (c_AgentID c) = [] then c\<lparr>c_AgentID := mainID\<rparr> else c) (ln_Cue l)\<rparr>) lines"

definition resolveAgents :: "ttmlParser \<Rightarrow> Line list \<Rightarrow> Line list \<times> Agent list" where
  "resolveAgents p lines =
     (let ids = line_ids lines; used0 = agent_order [] (filter (\<lambda>i. i \<noteq> []) ids)
      in if used0 = [] then (lines, [])
         else let mainID = choose_main p ([] \<in> set ids) used0;
                  usedOrder = (if mainID \<in> set used0 then used0 else mainID # used0)
              in (fill_agent mainID lines,
                  map (\<lambda>i. \<lparr>a_ID = i, a_Role = (if i = mainID then ''main'' else baseRoleForAgent p i), a_Name = agentNameForID p i\<rparr>) usedOrder))"

definition finalizeLyrics :: "ttmlParser \<Rightarrow> Lyrics \<Rightarrow> Lyrics" where
  "finalizeLyrics p lyrics =
     (let (lines, agents) = resolveAgents p (ly_Line lyrics)
      in normalizeLyrics (lyrics\<lparr>ly_Line := lines, ly_Agents := agents\<rparr>))"

definition linesAreSynced :: "Line list \<Rightarrow> bool" where
  "linesAreSynced lines \<longleftrightarrow> list_ex (\<lambda>l. ln_Start l \<noteq> None \<or> list_ex (\<lambda>c. c_Start c \<noteq> None) (ln_Cue l)) lines"

record ttmlResolvedMetadataLine =
  rl_order :: nat
  rl_seq :: nat
  rl_line :: Line

text \<open>The first entry of each key that a line of the main text has; it takes the times it lacks from this line.\<close>

fun resolve_entries :: "(string \<rightharpoonup> ttmlLineRef) \<Rightarrow> string list \<Rightarrow> ttmlMetadataEntry list \<Rightarrow> ttmlResolvedMetadataLine list" where
  "resolve_entries refs seenKeys [] = []"
| "resolve_entries refs seenKeys (entry # entries) =
     (if me_key entry \<in> set seenKeys then resolve_entries refs seenKeys entries
      else
        (case refs (me_key entry) of
           None \<Rightarrow> []
         | Some ref \<Rightarrow>
             let line = normalizeLineTiming
                   ((me_line entry)\<lparr>ln_Start := (case ln_Start (me_line entry) of None \<Rightarrow> ln_Start (rf_line ref) | Some s \<Rightarrow> Some s),
                                    ln_End := (case ln_End (me_line entry) of None \<Rightarrow> ln_End (rf_line ref) | Some e \<Rightarrow> Some e)\<rparr>)
             in if ln_Value line = [] \<and> ln_Cue line = [] then []
                else [\<lparr>rl_order = rf_order ref, rl_seq = me_seq entry, rl_line = line\<rparr>])
        @ resolve_entries refs (me_key entry # seenKeys) entries)"

definition ttml_lyrics :: "ttmlParser \<Rightarrow> string \<Rightarrow> string \<Rightarrow> Line list \<Rightarrow> Lyrics" where
  "ttml_lyrics p kind lang lines =
     finalizeLyrics p (empty_lyrics\<lparr>ly_Kind := kind, ly_Lang := lang, ly_Line := lines, ly_Synced := linesAreSynced lines\<rparr>)"

text \<open>The stable sort by the order of the main lines and then by the sequence of the entries is done in two passes.\<close>

definition metadata_lines :: "ttmlParser \<Rightarrow> ttmlMetadataEntry list \<Rightarrow> Line list" where
  "metadata_lines p entries = map rl_line (sort_key rl_order (sort_key rl_seq (resolve_entries (tt_mainLineRefsByKey p) [] entries)))"

definition buildMetadataLyrics :: "ttmlParser \<Rightarrow> string \<Rightarrow> string list \<Rightarrow> (string \<Rightarrow> ttmlMetadataEntry list) \<Rightarrow> Lyrics list" where
  "buildMetadataLyrics p kind langOrder entriesByLang =
     map (\<lambda>lang. ttml_lyrics p kind lang (metadata_lines p (entriesByLang lang)))
       (filter (\<lambda>lang. metadata_lines p (entriesByLang lang) \<noteq> []) langOrder)"

definition toLyricList :: "ttmlParser \<Rightarrow> Lyrics list" where
  "toLyricList p =
     map (\<lambda>lang. ttml_lyrics p ''main'' lang (tt_mainLinesByLang p lang))
       (filter (\<lambda>lang. tt_mainLinesByLang p lang \<noteq> []) (tt_mainLangOrder p)) @
     buildMetadataLyrics p ''translation'' (tt_translationLangOrder p) (tt_translationEntriesByLg p) @
     buildMetadataLyrics p ''pronunciation'' (tt_pronunciationLangOrder p) (tt_pronunciationEntriesByLg p)"

section \<open>Documents\<close>

text \<open>
  \<open>xmlEncodingRegex\<close>: the rest behind \<open>encoding = "..."\<close> at the start of a text; the rest of the declaration and what is
  behind it; and the parts of a declaration at the start of a text.
\<close>

definition encoding_at :: "string \<Rightarrow> string option" where
  "encoding_at s =
     (if equal_fold (take 8 s) ''encoding'' then
        do {
          r1 \<leftarrow> expect (CHR ''='') (dropWhile re_space (drop 8 s));
          (let r2 = dropWhile re_space r1; quote = (\<lambda>c. c = CHR 0x22 \<or> c = CHR 0x27)
           in if r2 \<noteq> [] \<and> quote (hd r2) then
                (let v = takeWhile (\<lambda>c. \<not> quote c) (tl r2); r3 = dropWhile (\<lambda>c. \<not> quote c) (tl r2)
                 in if v \<noteq> [] \<and> r3 \<noteq> [] then Some (tl r3) else None)
              else None)
        }
      else None)"

definition declaration_end :: "string \<Rightarrow> (string \<times> string) option" where
  "declaration_end s =
     (let g2 = takeWhile (\<lambda>c. c \<noteq> CHR ''>'') s; r = dropWhile (\<lambda>c. c \<noteq> CHR ''>'') s
      in if g2 \<noteq> [] \<and> last g2 = CHR ''?'' \<and> r \<noteq> [] then Some (butlast g2, tl r) else None)"

fun find_encoding :: "string \<Rightarrow> (string \<times> string) option" where
  "find_encoding [] = None"
| "find_encoding (c # cs) =
     (case (case encoding_at (c # cs) of None \<Rightarrow> None | Some r \<Rightarrow> declaration_end r) of
        Some x \<Rightarrow> Some x
      | None \<Rightarrow> if c = CHR ''>'' then None else find_encoding cs)"

definition xml_declaration :: "string \<Rightarrow> (string \<times> string) option" where
  "xml_declaration s = (if equal_fold (take 5 s) ''<?xml'' then find_encoding (drop 5 s) else None)"

lemma encoding_at_shorter: "encoding_at s = Some r \<Longrightarrow> length r \<le> length s"
proof -
  assume r: "encoding_at s = Some r"
  have dw: "length (dropWhile P xs) \<le> length xs" for P and xs :: string by (rule length_dropWhile_le)
  obtain r1 where r1: "expect (CHR ''='') (dropWhile re_space (drop 8 s)) = Some r1"
    and r3: "r = tl (dropWhile (\<lambda>c. \<not> (c = CHR 0x22 \<or> c = CHR 0x27)) (tl (dropWhile re_space r1)))"
    using r by (auto simp: encoding_at_def Let_def bind_eq_Some_conv split: if_splits)
  have "length r1 \<le> length s" using r1 dw [of re_space "drop 8 s"] by (auto simp: expect_Some)
  moreover have "length r \<le> length r1" unfolding r3
    using dw [of re_space r1] dw [of "\<lambda>c. \<not> (c = CHR 0x22 \<or> c = CHR 0x27)" "tl (dropWhile re_space r1)"] by simp
  ultimately show ?thesis by simp
qed

lemma find_encoding_shorter: "find_encoding s = Some (g, r) \<Longrightarrow> length r \<le> length s"
proof (induction s)
  case (Cons c cs)
  show ?case
  proof (cases "case encoding_at (c # cs) of None \<Rightarrow> None | Some r \<Rightarrow> declaration_end r")
    case None
    then show ?thesis using Cons by (auto split: if_splits)
  next
    case (Some x)
    then obtain q where q: "encoding_at (c # cs) = Some q" "declaration_end q = Some (g, r)" using Cons.prems by (auto split: option.splits)
    have "length r \<le> length q" using q(2) length_dropWhile_le [of "\<lambda>c. c \<noteq> CHR ''>''" q] by (auto simp: declaration_end_def Let_def split: if_splits)
    then show ?thesis using encoding_at_shorter [OF q(1)] by simp
  qed
qed simp

lemma xml_declaration_shorter: "xml_declaration (c # s) = Some (g, r) \<Longrightarrow> length r < Suc (length s)"
  using find_encoding_shorter [of "drop 4 s" g r] by (auto simp: xml_declaration_def equal_fold_def go_lower_def split: if_splits)

text \<open>
  The replacement, in all places. Its template is \<open><?xml$1encoding="UTF-8"$2?>\<close>, in which \<open>$1encoding\<close> names a group that
  does not exist and stands for nothing.
\<close>

function fix_encoding :: "string \<Rightarrow> string" where
  "fix_encoding [] = []"
| "fix_encoding (c # cs) =
     (case xml_declaration (c # cs) of
        Some (g2, r) \<Rightarrow> ''<?xml='' @ [CHR 0x22] @ ''UTF-8'' @ [CHR 0x22] @ g2 @ ''?>'' @ fix_encoding r
      | None \<Rightarrow> c # fix_encoding cs)"
  by pat_completeness auto

termination by (relation "measure length") (auto dest: xml_declaration_shorter)

definition isTTMLDocument :: "ttml_env \<Rightarrow> string \<Rightarrow> bool" where
  "isTTMLDocument env contents \<longleftrightarrow>
     (case dropWhile (\<lambda>t. case t of StartElement _ _ \<Rightarrow> False | _ \<Rightarrow> True) (fst (te_xml env (trim_space contents))) of
        StartElement nm attrs # _ \<Rightarrow> equal_fold nm ''tt''
      | _ \<Rightarrow> False)"

primrec document_loop ::
    "nat \<Rightarrow> ttml_env \<Rightarrow> lyric_error option \<Rightarrow> ttmlTimingContext \<Rightarrow> ttmlParser \<Rightarrow> xml_token list \<Rightarrow> ttml_error + ttmlParser" where
  "document_loop 0 env e root_ctx p ts = Inl OutOfFuel"
| "document_loop (Suc n) env e root_ctx p ts =
     (case ts of
        [] \<Rightarrow> (case e of None \<Rightarrow> Inr p | Some err \<Rightarrow> Inl (XmlError err))
      | t # ts \<Rightarrow>
          (case t of
             StartElement nm attrs \<Rightarrow>
               (case parseElement (Suc (length ts)) env e nm attrs root_ctx p ts of
                  Inl err \<Rightarrow> Inl err
                | Inr (p', ts') \<Rightarrow> document_loop n env e root_ctx p' ts')
           | _ \<Rightarrow> document_loop n env e root_ctx p ts))"

definition root_context :: "string \<Rightarrow> ttmlTimingContext" where
  "root_context lang = \<lparr>tc_lang = normalizeLyricLang lang, tc_role = [], tc_agentID = [], tc_begin = 0, tc_hasBegin = False,
     tc_end = 0, tc_hasEnd = False, tc_invalid = False\<rparr>"

definition parseTTML :: "ttml_env \<Rightarrow> string \<Rightarrow> string \<Rightarrow> ttml_error + Lyrics list" where
  "parseTTML env defaultLang contents0 =
     (let contents = fix_encoding contents0; (ts, e) = te_xml env contents
      in if \<not> isTTMLDocument env contents then Inr []
         else map_sum id toLyricList (document_loop (Suc (length ts)) env e (root_context defaultLang) new_parser ts))"

end
