(* ===== verification/Lyrics_TTML_Props.thy ===== *)
theory Lyrics_TTML_Props
  imports Lyrics_TTML
begin

text \<open>
  What the parser of \<open>Lyrics_TTML\<close> guarantees: it reads every document to its end, the words it finds are where it says
  they are in the text of their lines, and every voice a word names is declared.
\<close>

section \<open>Enough fuel\<close>

definition progress :: "xml_token list \<Rightarrow> ttml_error + 'a \<times> xml_token list \<Rightarrow> bool" where
  "progress ts r \<longleftrightarrow> (case r of Inl err \<Rightarrow> err \<noteq> OutOfFuel | Inr (_, ts') \<Rightarrow> length ts' \<le> length ts)"

lemma progress_simps [simp]: "progress ts (Inl err) \<longleftrightarrow> err \<noteq> OutOfFuel" "progress ts (Inr (x, ts')) \<longleftrightarrow> length ts' \<le> length ts"
  by (simp_all add: progress_def)

lemma progress_mono: "progress ts r \<Longrightarrow> length ts \<le> length us \<Longrightarrow> progress us r"
  by (auto simp: progress_def split: sum.splits)

text \<open>Reading an element and going on with what is left.\<close>

lemma progress_then:
  assumes "progress ts r" and "length ts \<le> length us" and "\<And>x ts'. r = Inr (x, ts') \<Longrightarrow> length ts' \<le> length ts \<Longrightarrow> progress ts' (f x ts')"
  shows "progress us (case r of Inl err \<Rightarrow> Inl err | Inr (x, ts') \<Rightarrow> f x ts')"
proof (cases r)
  case (Inr y)
  obtain x ts' where y: "y = (x, ts')" by force
  have "progress ts' (f x ts')" "length ts' \<le> length us" using assms Inr y by auto
  then show ?thesis using Inr y progress_mono by auto
qed (use assms(1) in simp)

lemma inline_loop_progress: "length ts < n \<Longrightarrow> progress ts (inline_loop n env e params name own ctx pieces ts)"
proof (induction n arbitrary: name own ctx pieces ts)
  case (Suc n)
  show ?case
  proof (cases ts)
    case (Cons t us)
    then have us: "length us < n" using Suc.prems by simp
    have step: "progress ts (inline_loop n env e params nm o' c ps us)" for nm o' c ps
      by (rule progress_mono [OF Suc.IH [OF us]]) (simp add: Cons)
    show ?thesis
    proof (cases t)
      case (StartElement nm attrs)
      have "progress us (if go_lower nm = ''br'' then Inr ([break_piece], us)
          else inline_loop n env e params nm (own_timing attrs) (childContext env params attrs ctx) [] us)"
        using Suc.IH [OF us] by simp
      then have "progress ts (case (if go_lower nm = ''br'' then Inr ([break_piece], us)
          else inline_loop n env e params nm (own_timing attrs) (childContext env params attrs ctx) [] us) of
          Inl err \<Rightarrow> Inl err | Inr (ps, ts') \<Rightarrow> inline_loop n env e params name own ctx (pieces @ ps) ts')"
        by (rule progress_then) (use us Suc.IH in \<open>auto simp: Cons\<close>)
      then show ?thesis by (simp add: Cons StartElement)
    qed (use step in \<open>auto simp: Cons\<close>)
  qed simp
qed simp

lemma parseInlineElement_progress: "length ts < n \<Longrightarrow> progress ts (parseInlineElement n env e params name attrs parent ts)"
  using inline_loop_progress by (simp add: parseInlineElement_def)

lemma paragraph_loop_progress: "length ts < n \<Longrightarrow> progress ts (paragraph_loop n env e params parent pieces ts)"
proof (induction n arbitrary: pieces ts)
  case (Suc n)
  show ?case
  proof (cases ts)
    case (Cons t us)
    then have us: "length us < n" using Suc.prems by simp
    have step: "progress ts (paragraph_loop n env e params parent ps us)" for ps
      by (rule progress_mono [OF Suc.IH [OF us]]) (simp add: Cons)
    show ?thesis
    proof (cases t)
      case (StartElement nm attrs)
      have "progress ts (case parseInlineElement n env e params nm attrs parent us of
          Inl err \<Rightarrow> Inl err | Inr (ps, ts') \<Rightarrow> paragraph_loop n env e params parent (pieces @ ps) ts')"
        by (rule progress_then [OF parseInlineElement_progress [OF us]]) (use us Suc.IH in \<open>auto simp: Cons\<close>)
      then show ?thesis by (simp add: Cons StartElement)
    qed (use step in \<open>auto simp: Cons\<close>)
  qed simp
qed simp

lemma collect_text_progress: "length ts < n \<Longrightarrow> progress ts (collect_text n e name tx ts)"
proof (induction n arbitrary: name tx ts)
  case (Suc n)
  show ?case
  proof (cases ts)
    case (Cons t us)
    then have us: "length us < n" using Suc.prems by simp
    have step: "progress ts (collect_text n e nm tx us)" for nm tx
      by (rule progress_mono [OF Suc.IH [OF us]]) (simp add: Cons)
    show ?thesis
    proof (cases t)
      case (StartElement nm attrs)
      have "progress ts (case collect_text n e nm [] us of Inl err \<Rightarrow> Inl err | Inr (v, ts') \<Rightarrow> collect_text n e name (tx @ v) ts')"
        by (rule progress_then [OF Suc.IH [OF us]]) (use us Suc.IH in \<open>auto simp: Cons\<close>)
      then show ?thesis by (simp add: Cons StartElement)
    qed (use step in \<open>auto simp: Cons\<close>)
  qed simp
qed simp

lemma skip_depth_ok: "(case skip_depth e d ts of Inl err \<Rightarrow> err \<noteq> OutOfFuel | Inr ts' \<Rightarrow> length ts' \<le> length ts)"
proof (induction e d ts rule: skip_depth.induct)
  case (3 e d t ts)
  then show ?case by (cases t) (auto split: sum.splits)
qed simp_all

lemma skip_progress: "progress ts (map_sum id (\<lambda>ts'. (x, ts')) (skipElement e ts))"
  using skip_depth_ok [where e = e and d = 1 and ts = ts] by (cases "skip_depth e 1 ts") (simp_all add: skipElement_def)

lemma agent_loop_progress: "length ts < n \<Longrightarrow> progress ts (agent_loop n env e name agent p ts)"
proof (induction n arbitrary: agent ts)
  case (Suc n)
  show ?case
  proof (cases ts)
    case (Cons t us)
    then have us: "length us < n" using Suc.prems by simp
    have step: "progress ts (agent_loop n env e name a p us)" for a
      by (rule progress_mono [OF Suc.IH [OF us]]) (simp add: Cons)
    show ?thesis
    proof (cases t)
      case (StartElement nm attrs)
      have collect: "progress ts (case collectElementText n e nm us of Inl err \<Rightarrow> Inl err
          | Inr (v, ts') \<Rightarrow> agent_loop n env e name (g v) p ts')" for g
        unfolding collectElementText_def
        by (rule progress_then [OF collect_text_progress [OF us]]) (use us Suc.IH in \<open>auto simp: Cons\<close>)
      have skip: "progress ts (case skipElement e us of Inl err \<Rightarrow> Inl err | Inr ts' \<Rightarrow> agent_loop n env e name agent p ts')"
      proof (cases "skip_depth e 1 us")
        case (Inr vs)
        then have vs: "length vs \<le> length us" using skip_depth_ok [where e = e and d = 1 and ts = us] by simp
        have "progress ts (agent_loop n env e name agent p vs)"
          by (rule progress_mono [OF Suc.IH]) (use vs us in \<open>simp_all add: Cons\<close>)
        then show ?thesis using Inr by (simp add: skipElement_def)
      qed (use skip_depth_ok [where e = e and d = 1 and ts = us] in \<open>simp add: skipElement_def\<close>)
      show ?thesis
        using skip collect [of "\<lambda>v. if sanitizeTTMLText env v \<noteq> [] \<and> da_Name agent = [] then agent\<lparr>da_Name := sanitizeTTMLText env v\<rparr> else agent"]
        unfolding Cons StartElement agent_loop.simps Let_def by simp
    qed (use step in \<open>auto simp: Cons\<close>)
  qed simp
qed simp

lemma parseAgentDefinition_progress: "length ts < n \<Longrightarrow> progress ts (parseAgentDefinition n env e name attrs p ts)"
  using agent_loop_progress [of ts n] skip_progress [of ts p e] by (simp add: parseAgentDefinition_def Let_def)

lemma parseMetadataText_progress: "length ts < n \<Longrightarrow> progress ts (parseMetadataText n env e params name attrs parent ts)"
  using parseInlineElement_progress [of ts n env e params name attrs parent]
  by (cases "parseInlineElement n env e params name attrs parent ts")
    (auto simp: parseMetadataText_def Let_def split: prod.splits)

lemma parse_p_progress: "length ts < n \<Longrightarrow> progress ts (parse_p n env e attrs ctx p ts)"
  using paragraph_loop_progress [of ts n env e "tt_params p" ctx "[]"]
  by (cases "paragraph_loop n env e (tt_params p) ctx [] ts") (auto simp: parse_p_def parseParagraph_def split: prod.splits)

text \<open>A parser of elements with enough fuel for up to \<open>m\<close> tokens.\<close>

definition enough :: "nat \<Rightarrow> element_parser \<Rightarrow> bool" where
  "enough m parse \<longleftrightarrow> (\<forall>nm attrs ctx p ts. length ts < m \<longrightarrow> progress ts (parse nm attrs ctx p ts))"

lemma element_loop_progress:
  assumes "enough m parse" shows "length ts < n \<Longrightarrow> length ts \<le> m \<Longrightarrow> progress ts (element_loop n parse e name ctx parent p ts)"
proof (induction n arbitrary: p ts)
  case (Suc n)
  show ?case
  proof (cases ts)
    case (Cons t us)
    then have us: "length us < n" "length us < m" using Suc.prems by simp_all
    have step: "progress ts (element_loop n parse e name ctx parent p us)"
      by (rule progress_mono [OF Suc.IH]) (use us in \<open>simp_all add: Cons\<close>)
    show ?thesis
    proof (cases t)
      case (StartElement nm attrs)
      have "progress us (parse nm attrs (if tc_invalid ctx then parent else ctx) p us)" using assms us(2) by (simp add: enough_def)
      then have "progress ts (case parse nm attrs (if tc_invalid ctx then parent else ctx) p us of
          Inl err \<Rightarrow> Inl err | Inr (p', ts') \<Rightarrow> element_loop n parse e name ctx parent p' ts')"
        by (rule progress_then) (use us Suc.IH in \<open>auto simp: Cons\<close>)
      then show ?thesis by (simp add: Cons StartElement)
    qed (use step in \<open>auto simp: Cons\<close>)
  qed simp
qed simp

lemma track_loop_progress:
  assumes "enough m parse" shows "length ts < n \<Longrightarrow> length ts \<le> m \<Longrightarrow> progress ts (track_loop n parse env e name kind ctx parent p ts)"
proof (induction n arbitrary: p ts)
  case (Suc n)
  show ?case
  proof (cases ts)
    case (Cons t us)
    then have us: "length us < n" "length us < m" using Suc.prems by simp_all
    have step: "progress ts (track_loop n parse env e name kind ctx parent q us)" for q
      by (rule progress_mono [OF Suc.IH]) (use us in \<open>simp_all add: Cons\<close>)
    show ?thesis
    proof (cases t)
      case (StartElement nm attrs)
      have inner: "progress us (parse nm attrs (if tc_invalid ctx then parent else ctx) p us)" using assms us(2) by (simp add: enough_def)
      have "progress ts (case parse nm attrs (if tc_invalid ctx then parent else ctx) p us of
          Inl err \<Rightarrow> Inl err | Inr (p', ts') \<Rightarrow> track_loop n parse env e name kind ctx parent p' ts')"
        by (rule progress_then [OF inner]) (use us Suc.IH in \<open>auto simp: Cons\<close>)
      moreover have "progress ts (case parseMetadataText n env e (tt_params p) nm attrs ctx us of
          Inl err \<Rightarrow> Inl err | Inr (entry, ts') \<Rightarrow> track_loop n parse env e name kind ctx parent
            (case entry of None \<Rightarrow> p | Some x \<Rightarrow> addMetadataEntry kind (normalizeLyricLang (tc_lang ctx)) x p) ts')"
        by (rule progress_then [OF parseMetadataText_progress [OF us(1)]]) (use us Suc.IH in \<open>auto simp: Cons\<close>)
      ultimately show ?thesis by (simp add: Cons StartElement)
    qed (use step in \<open>auto simp: Cons\<close>)
  qed simp
qed simp

lemma parseElement_enough: "enough n (parseElement n env e)"
proof (induction n)
  case (Suc n)
  have "progress ts (parseElement (Suc n) env e nm attrs ctx p ts)" if "length ts < Suc n" for nm attrs ctx p ts
  proof -
    have ts: "length ts \<le> n" "length ts < Suc (length ts)" using that by simp_all
    show ?thesis
      using element_loop_progress [OF Suc ts(2,1)] track_loop_progress [OF Suc ts(2,1)] parseAgentDefinition_progress [OF ts(2)] parse_p_progress [OF ts(2)]
      by (simp add: Let_def parseMetadataTrack_def)
  qed
  then show ?case by (simp add: enough_def)
qed (simp add: enough_def)

lemma document_loop_fuel: "length ts < n \<Longrightarrow> document_loop n env e root_ctx p ts \<noteq> Inl OutOfFuel"
proof (induction n arbitrary: p ts)
  case (Suc n)
  show ?case
  proof (cases ts)
    case Nil
    then show ?thesis by (auto split: option.splits)
  next
    case (Cons t us)
    then have us: "length us < n" using Suc.prems by simp
    show ?thesis
    proof (cases t)
      case (StartElement nm attrs)
      have "progress us (parseElement (Suc (length us)) env e nm attrs root_ctx p us)"
        using parseElement_enough [of "Suc (length us)" env e] by (simp add: enough_def del: parseElement.simps)
      then show ?thesis
        using Suc.IH us by (cases "parseElement (Suc (length us)) env e nm attrs root_ctx p us")
          (auto simp: Cons StartElement simp del: parseElement.simps)
    qed (use Suc.IH us in \<open>simp_all add: Cons\<close>)
  qed
qed simp


section \<open>Words\<close>

text \<open>An id without white space around it, and the pieces and lines whose words have such ids.\<close>

definition trimmed :: "string \<Rightarrow> bool" where
  "trimmed i \<longleftrightarrow> trim_space i = i"

definition piece_ok :: "ttmlPiece \<Rightarrow> bool" where
  "piece_ok p \<longleftrightarrow> (case pc_cue p of None \<Rightarrow> True | Some c \<Rightarrow> trimmed (c_AgentID c))"

definition line_good :: "Line \<Rightarrow> bool" where
  "line_good l \<longleftrightarrow> cues_placed l \<and> list_all (\<lambda>c. trimmed (c_AgentID c)) (ln_Cue l)"

lemma trimmed_solid: "s \<noteq> [] \<Longrightarrow> \<not> is_space (hd s) \<Longrightarrow> \<not> is_space (last s) \<Longrightarrow> trimmed s"
proof -
  assume s: "s \<noteq> []" "\<not> is_space (hd s)" "\<not> is_space (last s)"
  have "dropWhile is_space s = s" using s(1,2) by (cases s) simp_all
  moreover have "dropWhile is_space (rev s) = rev s" using s(1,3) by (cases s rule: rev_cases) simp_all
  ultimately show ?thesis by (simp add: trimmed_def trim_space_def)
qed

lemma trimmed_trim [simp]: "trimmed (trim_space s)"
proof (cases "trim_space s = []")
  case True
  show ?thesis unfolding trimmed_def True by (simp add: trim_space_def)
next
  case False
  then show ?thesis using trim_space_ends trimmed_solid by blast
qed

lemma resolveCueAgentID_trimmed: "trimmed (resolveCueAgentID ctx)"
proof -
  define a where "a = (if trim_space (tc_agentID ctx) = [] then ''main'' else trim_space (tc_agentID ctx))"
  have a: "a \<noteq> []" "\<not> is_space (last a)" using trim_space_ends [of "tc_agentID ctx"] by (auto simp: a_def is_space_def)
  then have "trimmed (backgroundAgentID a)" by (intro trimmed_solid) (simp_all add: backgroundAgentID_def is_space_def)
  then show ?thesis using a_def by (simp add: resolveCueAgentID_def Let_def)
qed

lemma close_inline_ok: "list_all piece_ok ps \<Longrightarrow> list_all piece_ok (close_inline env name own ctx ps)"
  by (simp add: close_inline_def Let_def piece_ok_def resolveCueAgentID_trimmed)

lemma plain_pieces_ok [simp]: "piece_ok break_piece" "piece_ok (text_piece s)"
  by (simp_all add: piece_ok_def break_piece_def text_piece_def)

lemma inline_loop_ok:
  "inline_loop n env e params name own ctx pieces ts = Inr (ps, ts') \<Longrightarrow> list_all piece_ok pieces \<Longrightarrow> list_all piece_ok ps"
proof (induction n arbitrary: name own ctx pieces ts ps ts')
  case (Suc n)
  show ?case
  proof (cases ts)
    case (Cons t us)
    show ?thesis
    proof (cases t)
      case (StartElement nm attrs)
      define r where "r = (if go_lower nm = ''br'' then Inr ([break_piece], us)
          else inline_loop n env e params nm (own_timing attrs) (childContext env params attrs ctx) [] us)"
      obtain qs vs where r: "r = Inr (qs, vs)" "inline_loop n env e params name own ctx (pieces @ qs) vs = Inr (ps, ts')"
        using Suc.prems(1) by (auto simp: Cons StartElement r_def [symmetric] split: sum.splits)
      have "list_all piece_ok qs"
      proof (cases "go_lower nm = ''br''")
        case True
        then show ?thesis using r(1) by (auto simp: r_def)
      next
        case False
        then show ?thesis using r(1) Suc.IH by (simp add: r_def)
      qed
      then show ?thesis using Suc.IH [OF r(2)] Suc.prems(2) by simp
    next
      case (EndElement nm)
      then show ?thesis using Suc close_inline_ok by (auto simp: Cons split: if_splits)
    qed (use Suc in \<open>auto simp: Cons\<close>)
  qed (use Suc in simp)
qed simp

lemma parseInlineElement_ok: "parseInlineElement n env e params name attrs parent ts = Inr (ps, ts') \<Longrightarrow> list_all piece_ok ps"
  using inline_loop_ok by (fastforce simp: parseInlineElement_def split: if_splits)

lemma split_pieces_ok: "list_all piece_ok line \<Longrightarrow> list_all piece_ok ps \<Longrightarrow> list_all (list_all piece_ok) (split_pieces env b line ps)"
proof (induction ps arbitrary: b line)
  case (Cons p ps)
  have "piece_ok \<lparr>pc_raw = raw, pc_cue = pc_cue p, pc_isBreak = False\<rparr>" for raw using Cons.prems(2) by (simp add: piece_ok_def)
  then show ?case using Cons by (simp add: Let_def)
qed simp

lemma piece_cue_ok:
  assumes "piece_cue raw cursor p = Some c" and "piece_ok p" shows "cue_at (trim_space raw) c \<and> trimmed (c_AgentID c)"
proof -
  define bs where "bs = max cursor (left_trim raw)"
  define be where "be = min (cursor + length (pc_raw p)) (trimmed_end raw)"
  obtain cue where cue: "pc_cue p = Some cue" "bs < be"
    "c = cue\<lparr>c_Value := go_slice bs be raw, c_ByteStart := int bs - int (left_trim raw), c_ByteEnd := int be - int (left_trim raw) - 1\<rparr>"
    using assms(1) by (auto simp: piece_cue_def Let_def bs_def be_def split: option.splits if_splits)
  have "cue_at (trim_space raw) c"
    by (rule trimmed_cue_at [of _ bs be]) (use cue in \<open>simp_all add: bs_def be_def\<close>)
  then show ?thesis using assms(2) cue by (simp add: piece_ok_def)
qed

definition text_good :: "string \<times> Cue list \<Rightarrow> bool" where
  "text_good l \<longleftrightarrow> list_all (\<lambda>c. cue_at (fst l) c \<and> trimmed (c_AgentID c)) (snd l)"

lemma piece_cues_ok: "list_all piece_ok ps \<Longrightarrow> text_good (trim_space raw, piece_cues raw cursor ps)"
proof (induction ps arbitrary: cursor)
  case (Cons p ps)
  then show ?case using piece_cue_ok [of raw cursor p] by (auto simp: text_good_def split: option.splits)
qed (simp add: text_good_def)

lemma finalize_ok: "list_all piece_ok line \<Longrightarrow> text_good (finalizeTTMLLogicalLine env line)"
  using piece_cues_ok by (simp add: finalizeTTMLLogicalLine_def Let_def text_good_def)

lemma shift_bytes_at: "cue_at val c \<Longrightarrow> cue_at (pre @ val) (shift_bytes (length pre) c)"
  by (auto simp: cue_at_def shift_bytes_def nat_add_distrib)

lemma join_lines_ok: "text_good (val, cues) \<Longrightarrow> list_all text_good ls \<Longrightarrow> text_good (join_lines val cues ls)"
proof (induction ls arbitrary: val cues)
  case (Cons l ls)
  obtain tx cs where l: "l = (tx, cs)" by force
  have "list_all (\<lambda>c. cue_at (val @ newline # tx) c \<and> trimmed (c_AgentID c)) cues"
    using Cons.prems(1) cue_at_append by (auto simp: text_good_def list_all_iff)
  moreover have "list_all (\<lambda>c. cue_at (val @ newline # tx) c \<and> trimmed (c_AgentID c)) (map (shift_bytes (length val + 1)) cs)"
    using Cons.prems(2) shift_bytes_at [of tx _ "val @ [newline]"] by (auto simp: l text_good_def list_all_iff shift_bytes_def)
  ultimately have "text_good (val @ newline # tx, cues @ map (shift_bytes (length val + 1)) cs)" by (simp add: text_good_def)
  then show ?case using Cons by (simp add: l)
qed simp

lemma buildTTMLLineFromPieces_ok:
  assumes "list_all piece_ok pieces" shows "text_good (buildTTMLLineFromPieces env pieces)"
proof -
  define fs where "fs = finalizeTTMLLines env (splitTTMLPiecesByBreak env pieces)"
  have "list_all (list_all piece_ok) (splitTTMLPiecesByBreak env pieces)"
    using split_pieces_ok [of "[]" pieces] assms by (simp add: splitTTMLPiecesByBreak_def)
  then have fs: "list_all text_good fs" using finalize_ok by (simp add: fs_def finalizeTTMLLines_def list_all_iff)
  have "list_all text_good (rev (dropWhile blank_line (rev (dropWhile blank_line fs))))"
    using fs by (auto simp: list_all_iff dest!: set_dropWhileD)
  then show ?thesis
    unfolding buildTTMLLineFromPieces_def fs_def [symmetric] Let_def
    using join_lines_ok by (auto simp: text_good_def [of "([], [])"] split: list.splits)
qed

lemma context_line_good: "text_good (val, cues) \<Longrightarrow> line_good (context_line ctx val cues)"
  by (simp add: context_line_def line_good_def cues_placed_def text_good_def list_all_iff)

section \<open>Lines\<close>

definition parser_inv :: "ttmlParser \<Rightarrow> bool" where
  "parser_inv p \<longleftrightarrow> (\<forall>lang. list_all line_good (tt_mainLinesByLang p lang)) \<and>
     (\<forall>lang. list_all (\<lambda>x. line_good (me_line x)) (tt_translationEntriesByLg p lang)) \<and>
     (\<forall>lang. list_all (\<lambda>x. line_good (me_line x)) (tt_pronunciationEntriesByLg p lang))"

lemma addMainLine_inv: "parser_inv p \<Longrightarrow> line_good l \<Longrightarrow> parser_inv (addMainLine lang key l p)"
  by (auto simp: parser_inv_def addMainLine_def Let_def)

lemma addMetadataEntry_inv: "parser_inv p \<Longrightarrow> line_good (me_line x) \<Longrightarrow> parser_inv (addMetadataEntry kind lang x p)"
  by (cases kind) (auto simp: parser_inv_def addMetadataEntry_def Let_def)

lemma parser_inv_params [simp]: "parser_inv (p\<lparr>tt_params := q\<rparr>) = parser_inv p" "parser_inv (p\<lparr>tt_definedAgents := d\<rparr>) = parser_inv p"
  by (simp_all add: parser_inv_def)

lemma paragraph_loop_ok:
  "paragraph_loop n env e params parent pieces ts = Inr (l, ts') \<Longrightarrow> list_all piece_ok pieces \<Longrightarrow> text_good l"
proof (induction n arbitrary: pieces ts)
  case (Suc n)
  show ?case
  proof (cases ts)
    case (Cons t us)
    show ?thesis
    proof (cases t)
      case (StartElement nm attrs)
      then obtain qs vs where r: "parseInlineElement n env e params nm attrs parent us = Inr (qs, vs)"
        "paragraph_loop n env e params parent (pieces @ qs) vs = Inr (l, ts')"
        using Suc.prems(1) by (auto simp: Cons split: sum.splits)
      show ?thesis using Suc.IH [OF r(2)] parseInlineElement_ok [OF r(1)] Suc.prems(2) by simp
    next
      case (EndElement nm)
      then show ?thesis using Suc buildTTMLLineFromPieces_ok by (auto simp: Cons split: if_splits)
    qed (use Suc in \<open>auto simp: Cons\<close>)
  qed (use Suc in simp)
qed simp

lemma parse_p_inv: "parse_p n env e attrs ctx p ts = Inr (p', ts') \<Longrightarrow> parser_inv p \<Longrightarrow> parser_inv p'"
  using paragraph_loop_ok [of n env e "tt_params p" ctx "[]" ts] context_line_good addMainLine_inv
  by (fastforce simp: parse_p_def parseParagraph_def split: sum.splits prod.splits if_splits)

lemma agent_loop_inv: "agent_loop n env e name agent p ts = Inr (p', ts') \<Longrightarrow> parser_inv p \<Longrightarrow> parser_inv p'"
proof (induction n arbitrary: agent ts)
  case (Suc n)
  then show ?case by (cases ts) (auto simp: Let_def split: sum.splits xml_token.splits if_splits)
qed simp

lemma parseAgentDefinition_inv: "parseAgentDefinition n env e name attrs p ts = Inr (p', ts') \<Longrightarrow> parser_inv p \<Longrightarrow> parser_inv p'"
  using agent_loop_inv by (cases "skipElement e ts") (auto simp: parseAgentDefinition_def Let_def split: if_splits)

lemma parseMetadataText_good:
  assumes "parseMetadataText n env e params name attrs parent ts = Inr (Some x, ts')" shows "line_good (me_line x)"
proof -
  obtain ps where ps: "parseInlineElement n env e params name attrs parent ts = Inr (ps, ts')"
    using assms by (auto simp: parseMetadataText_def Let_def split: sum.splits prod.splits)
  then have good: "text_good (buildTTMLLineFromPieces env ps)" by (intro buildTTMLLineFromPieces_ok parseInlineElement_ok)
  obtain val cues where "buildTTMLLineFromPieces env ps = (val, cues)" by force
  then show ?thesis
    using assms ps good context_line_good by (auto simp: parseMetadataText_def Let_def split: if_splits)
qed

definition keeps_inv :: "element_parser \<Rightarrow> bool" where
  "keeps_inv parse \<longleftrightarrow> (\<forall>nm attrs ctx p ts p' ts'. parse nm attrs ctx p ts = Inr (p', ts') \<longrightarrow> parser_inv p \<longrightarrow> parser_inv p')"

lemma element_loop_inv:
  assumes "keeps_inv parse" shows "element_loop n parse e name ctx parent p ts = Inr (p', ts') \<Longrightarrow> parser_inv p \<Longrightarrow> parser_inv p'"
proof (induction n arbitrary: p ts)
  case (Suc n)
  show ?case
  proof (cases ts)
    case (Cons t us)
    show ?thesis
    proof (cases t)
      case (StartElement nm attrs)
      then obtain q vs where r: "parse nm attrs (if tc_invalid ctx then parent else ctx) p us = Inr (q, vs)"
        "element_loop n parse e name ctx parent q vs = Inr (p', ts')"
        using Suc.prems(1) by (auto simp: Cons split: sum.splits)
      have "parser_inv q" using assms r(1) Suc.prems(2) unfolding keeps_inv_def by blast
      then show ?thesis using Suc.IH [OF r(2)] by simp
    qed (use Suc in \<open>auto simp: Cons split: if_splits\<close>)
  qed (use Suc in simp)
qed simp

lemma track_loop_inv:
  assumes "keeps_inv parse" shows "track_loop n parse env e name kind ctx parent p ts = Inr (p', ts') \<Longrightarrow> parser_inv p \<Longrightarrow> parser_inv p'"
proof (induction n arbitrary: p ts)
  case (Suc n)
  show ?case
  proof (cases ts)
    case (Cons t us)
    show ?thesis
    proof (cases t)
      case (StartElement nm attrs)
      show ?thesis
      proof (cases "equal_fold nm ''text''")
        case True
        then obtain entry vs where r: "parseMetadataText n env e (tt_params p) nm attrs ctx us = Inr (entry, vs)"
          "track_loop n parse env e name kind ctx parent
             (case entry of None \<Rightarrow> p | Some x \<Rightarrow> addMetadataEntry kind (normalizeLyricLang (tc_lang ctx)) x p) vs = Inr (p', ts')"
          using Suc.prems(1) StartElement by (auto simp: Cons split: sum.splits)
        have "parser_inv (case entry of None \<Rightarrow> p | Some x \<Rightarrow> addMetadataEntry kind (normalizeLyricLang (tc_lang ctx)) x p)"
          using r(1) parseMetadataText_good addMetadataEntry_inv Suc.prems(2) by (cases entry) auto
        then show ?thesis using Suc.IH [OF r(2)] by simp
      next
        case False
        then obtain q vs where r: "parse nm attrs (if tc_invalid ctx then parent else ctx) p us = Inr (q, vs)"
          "track_loop n parse env e name kind ctx parent q vs = Inr (p', ts')"
          using Suc.prems(1) StartElement by (auto simp: Cons split: sum.splits)
        have "parser_inv q" using assms r(1) Suc.prems(2) unfolding keeps_inv_def by blast
        then show ?thesis using Suc.IH [OF r(2)] by simp
      qed
    qed (use Suc in \<open>auto simp: Cons split: if_splits\<close>)
  qed (use Suc in simp)
qed simp

lemma parseElement_inv: "keeps_inv (parseElement n env e)"
proof (induction n)
  case (Suc n)
  have "parser_inv p'" if "parseElement (Suc n) env e nm attrs ctx p ts = Inr (p', ts')" "parser_inv p" for nm attrs ctx p ts p' ts'
  proof -
    define p1 where "p1 = (if go_lower nm = ''tt'' then p\<lparr>tt_params := updateTimingParams env attrs (tt_params p)\<rparr> else p)"
    have "parser_inv p1" using that(2) by (simp add: p1_def)
    then show ?thesis
      using that(1) element_loop_inv [OF Suc] track_loop_inv [OF Suc] parseAgentDefinition_inv parse_p_inv
      unfolding parseElement.simps Let_def p1_def [symmetric] parseMetadataTrack_def
      by (auto simp del: element_loop.simps track_loop.simps split: if_splits)
  qed
  then show ?case unfolding keeps_inv_def by blast
qed (simp add: keeps_inv_def)

lemma document_loop_inv: "document_loop n env e root_ctx p ts = Inr p' \<Longrightarrow> parser_inv p \<Longrightarrow> parser_inv p'"
proof (induction n arbitrary: p ts)
  case (Suc n)
  show ?case
  proof (cases ts)
    case (Cons t us)
    show ?thesis
    proof (cases t)
      case (StartElement nm attrs)
      then obtain q vs where r: "parseElement (Suc (length us)) env e nm attrs root_ctx p us = Inr (q, vs)"
        "document_loop n env e root_ctx q vs = Inr p'"
        using Suc.prems(1) by (auto simp: Cons simp del: parseElement.simps split: sum.splits)
      have "parser_inv q" using parseElement_inv [of "Suc (length us)" env e] r(1) Suc.prems(2) unfolding keeps_inv_def by blast
      then show ?thesis using Suc.IH [OF r(2)] by simp
    qed (use Suc in \<open>auto simp: Cons\<close>)
  qed (use Suc in \<open>auto split: option.splits\<close>)
qed simp

section \<open>Voices\<close>

lemma agent_order_distinct: "distinct order \<Longrightarrow> distinct (agent_order order ids)"
  by (induction order ids rule: agent_order.induct) auto

lemma choose_main_cases:
  assumes "used \<noteq> []" shows "choose_main p saw used \<in> set used \<or> (saw \<and> choose_main p saw used = ''main'')"
proof -
  have "x \<in> set used" if "find P used = Some x" for P x using that by (auto simp: find_Some_iff)
  then show ?thesis using assms by (auto simp: choose_main_def split: option.splits)
qed

lemma baseRole_not_main: "baseRoleForAgent p i \<noteq> ''main''"
  by (simp add: baseRoleForAgent_def split: option.splits)

lemma one_main:
  assumes "distinct used" and "m \<in> set used"
  shows "length (filter (\<lambda>a. a_Role a = ''main'') (map (\<lambda>i. \<lparr>a_ID = i, a_Role = (if i = m then ''main'' else baseRoleForAgent p i), a_Name = f i\<rparr>) used)) = 1"
proof -
  have "filter (\<lambda>i. i = m) used = [m]" using assms
  proof (induction used)
    case (Cons i used)
    then show ?case by (cases "i = m") (auto simp: filter_empty_conv)
  qed simp
  moreover have "(\<lambda>a. a_Role a = ''main'') \<circ> (\<lambda>i. \<lparr>a_ID = i, a_Role = (if i = m then ''main'' else baseRoleForAgent p i), a_Name = f i\<rparr>) = (\<lambda>i. i = m)"
    by (auto simp: fun_eq_iff baseRole_not_main)
  ultimately show ?thesis by (simp add: filter_map)
qed

lemma fill_agent_placed: "list_all cues_placed (fill_agent m ls) \<longleftrightarrow> list_all cues_placed ls"
proof -
  have "cue_at val (if trim_space (c_AgentID c) = [] then c\<lparr>c_AgentID := m\<rparr> else c) = cue_at val c" for val c by (simp add: cue_at_agent)
  then have "cues_placed (l\<lparr>ln_Cue := map (\<lambda>c. if trim_space (c_AgentID c) = [] then c\<lparr>c_AgentID := m\<rparr> else c) (ln_Cue l)\<rparr>) = cues_placed l" for l
    by (simp add: cues_placed_def list.pred_map comp_def)
  then show ?thesis by (simp add: fill_agent_def list.pred_map comp_def)
qed

lemma fill_agent_agents:
  assumes "list_all line_good ls" shows "cue_agents (fill_agent m ls) \<subseteq> insert m (set (filter (\<lambda>i. i \<noteq> []) (line_ids ls)))"
proof
  fix i assume "i \<in> cue_agents (fill_agent m ls)"
  then obtain l c where l: "l \<in> set ls" "c \<in> set (ln_Cue l)" and i: "i = (if trim_space (c_AgentID c) = [] then m else c_AgentID c)"
    by (auto simp: cue_agents_def fill_agent_def)
  have "trim_space (c_AgentID c) = c_AgentID c" using assms l by (auto simp: list_all_iff line_good_def trimmed_def)
  moreover have "trim_space (c_AgentID c) \<in> set (line_ids ls)" using l by (auto simp: line_ids_def)
  ultimately show "i \<in> insert m (set (filter (\<lambda>i. i \<noteq> []) (line_ids ls)))" using i by auto
qed

lemma resolveAgents_ok:
  assumes "resolveAgents p ls = (ls', agents)" and good: "list_all line_good ls"
  shows "list_all cues_placed ls' \<and> voices_declared ls' agents"
proof -
  define used where "used = agent_order [] (filter (\<lambda>i. i \<noteq> []) (line_ids ls))"
  define m where "m = choose_main p ([] \<in> set (line_ids ls)) used"
  define order where "order = (if m \<in> set used then used else m # used)"
  have set_used: "set used = set (filter (\<lambda>i. i \<noteq> []) (line_ids ls))" by (simp add: used_def agent_order_set)
  have placed: "list_all cues_placed ls" using good by (simp add: list_all_iff line_good_def)
  show ?thesis
  proof (cases "used = []")
    case True
    then have ls': "ls' = ls" "agents = []" using assms(1) by (simp_all add: resolveAgents_def Let_def used_def)
    have "c_AgentID c = []" if "l \<in> set ls" "c \<in> set (ln_Cue l)" for l c
    proof -
      have "trim_space (c_AgentID c) \<in> set (line_ids ls)" using that by (auto simp: line_ids_def)
      then have "trim_space (c_AgentID c) = []" using True set_used by auto
      then show ?thesis using good that by (auto simp: list_all_iff line_good_def trimmed_def)
    qed
    then show ?thesis using ls' placed by (auto simp: voices_declared_def cue_agents_def)
  next
    case False
    then have out: "ls' = fill_agent m ls" "agents = map (\<lambda>i. \<lparr>a_ID = i, a_Role = (if i = m then ''main'' else baseRoleForAgent p i), a_Name = agentNameForID p i\<rparr>) order"
      using assms(1) unfolding resolveAgents_def Let_def used_def [symmetric] m_def [symmetric] order_def [symmetric] by auto
    have order: "distinct order" "m \<in> set order" "order \<noteq> []" "insert m (set used) = set order"
      using agent_order_distinct [of "[]"] by (auto simp: order_def used_def)
    have ids: "map a_ID agents = order" by (simp add: out comp_def)
    then have "a_ID ` set agents = set order" by (metis set_map)
    then show ?thesis
      using fill_agent_agents [OF good, of m] order one_main [OF order(1,2), of p "agentNameForID p"] placed fill_agent_placed ids
      unfolding out(1) by (auto simp: voices_declared_def set_used out(2))
  qed
qed

lemma ttml_lyrics_wf: "list_all line_good ls \<Longrightarrow> lyrics_wf (ttml_lyrics p kind lang ls)"
  using resolveAgents_ok [of p ls]
  by (auto simp: ttml_lyrics_def finalizeLyrics_def lyrics_wf_def [of "Lyrics_ext _ _ _ _ _ _ _ _ _"] lyrics_placed_def agents_declared_def empty_lyrics_def split: prod.splits)

lemma normalizeLineTiming_good [simp]: "line_good (normalizeLineTiming l) = line_good l"
  by (simp add: line_good_def cues_placed_def)

lemma resolve_entries_good:
  "list_all (\<lambda>x. line_good (me_line x)) es \<Longrightarrow> list_all (\<lambda>r. line_good (rl_line r)) (resolve_entries refs seen es)"
proof (induction refs seen es rule: resolve_entries.induct)
  case (2 refs seen x xs)
  have "line_good (l\<lparr>ln_Start := a, ln_End := b\<rparr>) = line_good l" for l a b by (simp add: line_good_def cues_placed_def)
  then show ?case using 2 by (auto simp: Let_def split: option.splits)
qed simp

lemma metadata_lines_good: "list_all (\<lambda>x. line_good (me_line x)) es \<Longrightarrow> list_all line_good (metadata_lines p es)"
  using resolve_entries_good [of es "tt_mainLineRefsByKey p" "[]"] by (simp add: metadata_lines_def list_all_iff)

lemma toLyricList_wf: "parser_inv p \<Longrightarrow> list_all lyrics_wf (toLyricList p)"
  by (auto simp: toLyricList_def buildMetadataLyrics_def parser_inv_def list.pred_map list_all_iff [of _ "filter _ _"] intro!: ttml_lyrics_wf metadata_lines_good)

lemma parseTTML_wf:
  assumes "parseTTML env lang contents = Inr ls" shows "list_all lyrics_wf ls"
proof -
  obtain ts e where xml: "te_xml env (fix_encoding contents) = (ts, e)" by force
  have start: "parser_inv new_parser" by (simp add: parser_inv_def new_parser_def)
  show ?thesis
  proof (cases "isTTMLDocument env (fix_encoding contents)")
    case True
    then obtain p where p: "document_loop (Suc (length ts)) env e (root_context lang) new_parser ts = Inr p" "ls = toLyricList p"
      using assms xml by (cases "document_loop (Suc (length ts)) env e (root_context lang) new_parser ts")
        (auto simp: parseTTML_def simp del: document_loop.simps)
    then show ?thesis using toLyricList_wf document_loop_inv [OF p(1) start] by simp
  qed (use assms in \<open>simp add: parseTTML_def xml\<close>)
qed

section \<open>The declaration of the encoding\<close>

text \<open>The replacement drops the version and the word \<open>encoding\<close> with it.\<close>

lemma encoding_template:
  "fix_encoding (''<?xml version='' @ [CHR 0x22] @ ''1.0'' @ [CHR 0x22] @ '' encoding='' @ [CHR 0x22] @ ''UTF-16'' @ [CHR 0x22] @ ''?>'') =
   ''<?xml='' @ [CHR 0x22] @ ''UTF-8'' @ [CHR 0x22] @ ''?>''"
  by code_simp

end
