(* ===== verification/Lyrics_Parse.thy ===== *)
theory Lyrics_Parse
  imports Lyrics_File Lyrics_TTML_Props Lyrics_Text_Props
begin

text \<open>
  The entry point of the lyrics parsers, \<open>model/lyrics_parse.go\<close>, and the lookup of lyrics in their sources,
  \<open>core/lyrics/lyrics.go\<close> and \<open>sources.go\<close>. The libraries the parsers call are the record \<open>lyrics_env\<close>, and the file system,
  the stored lyrics and the plugins are the record \<open>source_env\<close>. The contents of a file are what the reader that converts
  encodings delivers.
\<close>

section \<open>Definitions\<close>

record lyrics_env =
  le_ttml :: ttml_env
  le_yaml :: "string \<Rightarrow> lyric_error + lyricsfileDocument"
  le_sort :: "Line list \<Rightarrow> Line list"

text \<open>A parser of one format; that it fails is only logged, so its error is dropped.\<close>

type_synonym lyricParser = "string \<Rightarrow> string \<Rightarrow> Lyrics list option"

definition without_error :: "'e + Lyrics list \<Rightarrow> Lyrics list option" where
  "without_error r = (case r of Inl _ \<Rightarrow> None | Inr ls \<Rightarrow> Some ls)"

definition lyricFormats :: "lyrics_env \<Rightarrow> (string list \<times> lyricParser) list" where
  "lyricFormats env =
     [([''.ttml''], \<lambda>lang s. without_error (parseTTML (le_ttml env) lang s)),
      ([''.srt''], \<lambda>lang s. without_error (parseSRT (te_sanitize (le_ttml env)) lang s)),
      ([''.yaml'', ''.yml''], \<lambda>lang s. without_error (parseLyricsfile (te_sanitize (le_ttml env)) (le_yaml env) lang s))]"

definition plainLRC :: "lyrics_env \<Rightarrow> string \<Rightarrow> string \<Rightarrow> lyric_error + Lyrics list" where
  "plainLRC env lang contents =
     (case parseLRC (te_sanitize (le_ttml env)) (le_sort env) lang contents of
        Inl err \<Rightarrow> Inl err
      | Inr lyric \<Rightarrow> if IsEmpty lyric then Inr [] else Inr [lyric])"

fun parseFirstMatch :: "lyrics_env \<Rightarrow> string \<Rightarrow> string \<Rightarrow> lyricParser list \<Rightarrow> lyric_error + Lyrics list" where
  "parseFirstMatch env lang contents [] = plainLRC env lang contents"
| "parseFirstMatch env lang contents (parse # rest) =
     (case parse lang contents of
        Some (l # ls) \<Rightarrow> Inr (l # ls)
      | _ \<Rightarrow> parseFirstMatch env lang contents rest)"

definition stripBOM :: "string \<Rightarrow> string" where
  "stripBOM contents = trim_prefix contents [CHR 0xEF, CHR 0xBB, CHR 0xBF]"

definition ParseLyrics :: "lyrics_env \<Rightarrow> string \<Rightarrow> string \<Rightarrow> string \<Rightarrow> lyric_error + Lyrics list" where
  "ParseLyrics env suffix0 lang contents0 =
     (let contents = stripBOM contents0; sfx = go_lower suffix0; sniff = (sfx = [] \<or> sfx = ''auto'');
          candidates = map snd (filter (\<lambda>f. sniff \<or> sfx \<in> set (fst f)) (lyricFormats env))
      in parseFirstMatch env lang contents candidates)"

text \<open>What opening a file beside a track gives: nothing, an error or its text.\<close>

datatype opened = NotExist | OpenError string | Contents string

record lyrics_file =
  lf_Path :: string
  lf_LibraryPath :: string
  lf_Lyrics :: string

record source_env =
  so_parse :: lyrics_env
  so_structured :: "string \<Rightarrow> string + Lyrics list"
  so_open :: "string \<Rightarrow> string \<Rightarrow> string + opened"
  so_plugin :: "string \<rightharpoonup> (lyrics_file \<Rightarrow> string + Lyrics list)"
  so_priority :: string

definition fromEmbedded :: "source_env \<Rightarrow> lyrics_file \<Rightarrow> string + Lyrics list" where
  "fromEmbedded env mf = (if lf_Lyrics mf \<noteq> [] then so_structured env (lf_Lyrics mf) else Inr [])"

definition fromExternalFile :: "source_env \<Rightarrow> lyrics_file \<Rightarrow> string \<Rightarrow> string + Lyrics list" where
  "fromExternalFile env mf sfx =
     (let ext = path_ext (lf_Path mf); sidecarRelPath = take (length (lf_Path mf) - length ext) (lf_Path mf) @ sfx
      in case so_open env (lf_LibraryPath mf) sidecarRelPath of
           Inl err \<Rightarrow> Inl err
         | Inr NotExist \<Rightarrow> Inr []
         | Inr (OpenError err) \<Rightarrow> Inl err
         | Inr (Contents contents) \<Rightarrow>
             (case ParseLyrics (so_parse env) sfx ''xxx'' contents of Inl _ \<Rightarrow> Inl ''parsing lyrics'' | Inr list \<Rightarrow> Inr list))"

definition fromPlugin :: "source_env \<Rightarrow> lyrics_file \<Rightarrow> string \<Rightarrow> string + Lyrics list" where
  "fromPlugin env mf pluginName = (case so_plugin env pluginName of None \<Rightarrow> Inr [] | Some provider \<Rightarrow> provider mf)"

definition getLyricsFromSource :: "source_env \<Rightarrow> lyrics_file \<Rightarrow> string \<Rightarrow> string + Lyrics list" where
  "getLyricsFromSource env mf pattern =
     (if equal_fold pattern ''embedded'' then fromEmbedded env mf
      else if has_prefix pattern ''.'' then fromExternalFile env mf pattern
      else fromPlugin env mf pattern)"

text \<open>The first file of the candidates that has lyrics in one source, and the first source that has some.\<close>

fun candidates_lyrics :: "source_env \<Rightarrow> string \<Rightarrow> lyrics_file option list \<Rightarrow> Lyrics list" where
  "candidates_lyrics env pattern [] = []"
| "candidates_lyrics env pattern (mf # mfs) =
     (case mf of
        None \<Rightarrow> candidates_lyrics env pattern mfs
      | Some f \<Rightarrow>
          (case getLyricsFromSource env f pattern of
             Inr (l # ls) \<Rightarrow> l # ls
           | _ \<Rightarrow> candidates_lyrics env pattern mfs))"

fun sources_lyrics :: "source_env \<Rightarrow> string list \<Rightarrow> lyrics_file option list \<Rightarrow> Lyrics list" where
  "sources_lyrics env [] mfs = []"
| "sources_lyrics env (p # ps) mfs =
     (let pattern = trim_space p
      in if pattern = [] then sources_lyrics env ps mfs
         else case candidates_lyrics env pattern mfs of [] \<Rightarrow> sources_lyrics env ps mfs | ls \<Rightarrow> ls)"

definition getLyricsForCandidates :: "source_env \<Rightarrow> lyrics_file option list \<Rightarrow> Lyrics list" where
  "getLyricsForCandidates env mfs = sources_lyrics env (split_on (CHR '','') (so_priority env)) mfs"

definition GetLyrics :: "source_env \<Rightarrow> lyrics_file \<Rightarrow> Lyrics list" where
  "GetLyrics env mf = getLyricsForCandidates env [Some mf]"

section \<open>What is parsed\<close>

definition sorts :: "lyrics_env \<Rightarrow> bool" where
  "sorts env \<longleftrightarrow> (\<forall>ls. mset (le_sort env ls) = mset ls)"

lemma sorts_set: "sorts env \<Longrightarrow> set (le_sort env ls) = set ls"
  unfolding sorts_def by (metis set_mset_mset)

lemma plainLRC_wf: "sorts env \<Longrightarrow> \<exists>ls. plainLRC env lang s = Inr ls \<and> list_all lyrics_wf ls"
  using parseLRC_ok [of "te_sanitize (le_ttml env)" "le_sort env" lang s] parseLRC_wf sorts_set
  by (fastforce simp: plainLRC_def)

text \<open>What every parser of a format promises, and what it gives the probing of formats.\<close>

locale lyric_format =
  fixes parse :: lyricParser
  assumes parsed_wf: "parse lang s = Some ls \<Longrightarrow> list_all lyrics_wf ls"
begin

lemma first_match_wf:
  assumes rest: "\<exists>ls. parseFirstMatch env lang s ps = Inr ls \<and> list_all lyrics_wf ls"
  shows "\<exists>ls. parseFirstMatch env lang s (parse # ps) = Inr ls \<and> list_all lyrics_wf ls"
proof (cases "\<exists>l ls. parse lang s = Some (l # ls)")
  case True
  then obtain l ls where ls: "parse lang s = Some (l # ls)" by blast
  then show ?thesis using parsed_wf [OF ls] by simp
next
  case False
  then have "parseFirstMatch env lang s (parse # ps) = parseFirstMatch env lang s ps" by (auto split: option.splits list.splits)
  then show ?thesis using rest by simp
qed

end

lemma without_error_Some [simp]: "without_error r = Some ls \<longleftrightarrow> r = Inr ls"
  by (simp add: without_error_def split: sum.splits)

interpretation ttml: lyric_format "\<lambda>lang s. without_error (parseTTML tenv lang s)" for tenv
  by unfold_locales (simp add: parseTTML_wf)

interpretation srt: lyric_format "\<lambda>lang s. without_error (parseSRT sanitize lang s)" for sanitize
  by unfold_locales (simp add: parseSRT_wf)

interpretation lyricsfile: lyric_format "\<lambda>lang s. without_error (parseLyricsfile sanitize decode lang s)" for sanitize decode
  by unfold_locales (simp add: parseLyricsfile_wf)

lemma lyricFormats_ok: "list_all (\<lambda>f. lyric_format (snd f)) (lyricFormats env)"
  by (simp add: lyricFormats_def ttml.lyric_format_axioms srt.lyric_format_axioms lyricsfile.lyric_format_axioms)

lemma formats_ok: "list_all lyric_format (map snd (filter P (lyricFormats env)))"
  using lyricFormats_ok [of env] by (auto simp: list_all_iff)

lemma parseFirstMatch_wf:
  assumes "sorts env" shows "list_all lyric_format ps \<Longrightarrow> \<exists>ls. parseFirstMatch env lang s ps = Inr ls \<and> list_all lyrics_wf ls"
proof (induction ps)
  case Nil
  then show ?case using plainLRC_wf [OF assms] by simp
next
  case (Cons p ps)
  then show ?case using lyric_format.first_match_wf [of p env lang s ps] by simp
qed

text \<open>
  C8 (invariant): Whatever the suffix, the language and the contents, parsing returns lyrics and never an error, and in
  all of them every word has its bytes in the text of its line at the positions it names, the voices have distinct ids,
  every word names a voice that is declared, and exactly one voice is the main one. The only thing asked of the library
  is that its sort keeps the lines.
\<close>

theorem ParseLyrics_wf:
  assumes "sorts env" shows "\<exists>ls. ParseLyrics env sfx lang contents = Inr ls \<and> list_all lyrics_wf ls"
  unfolding ParseLyrics_def Let_def by (rule parseFirstMatch_wf [OF assms formats_ok])

definition ex_lyrics_env :: lyrics_env where
  "ex_lyrics_env = \<lparr>le_ttml = \<lparr>te_sanitize = (\<lambda>s. s), te_parse_float = (\<lambda>s. map_option of_int (atoi s)), te_xml = (\<lambda>_. ([], None))\<rparr>,
     le_yaml = (\<lambda>_. Inl ErrSyntax), le_sort = sort_key (\<lambda>l. the (ln_Start l))\<rparr>"

theorem ParseLyrics_wf_witness:
  "\<exists>ls. ParseLyrics ex_lyrics_env ''.lrc'' ''eng'' ''[00:01.00][00:05.00]<00:01.00>Oh <00:01.50>love'' = Inr ls \<and> list_all lyrics_wf ls"
  by (rule ParseLyrics_wf) (simp add: sorts_def ex_lyrics_env_def)

text \<open>A source comes before the order of the candidates: the lyrics are those of the first source that has any.\<close>

definition has_lyrics :: "source_env \<Rightarrow> lyrics_file option list \<Rightarrow> string \<Rightarrow> bool" where
  "has_lyrics env mfs p \<longleftrightarrow> trim_space p \<noteq> [] \<and> candidates_lyrics env (trim_space p) mfs \<noteq> []"

lemma sources_lyrics_first:
  "sources_lyrics env ps mfs = (case find (has_lyrics env mfs) ps of None \<Rightarrow> [] | Some p \<Rightarrow> candidates_lyrics env (trim_space p) mfs)"
  by (induction ps) (auto simp: has_lyrics_def Let_def split: list.splits)

end
