(* ===== verification/Entity_Ids.thy ===== *)
theory Entity_Ids
  imports Str_Util "HOL-Library.Word"
begin

text \<open>
  Identifiers: the encoding of 16 bytes as 22 characters in base 62 (\<open>model/id/id.go\<close>), and the ids under which clients ask
  for artwork (\<open>model/artwork_id.go\<close>). Numbers in base 62 are those of \<open>big.Int\<close>, with the digits \<open>0-9a-zA-Z\<close>.
\<close>

section \<open>Definitions\<close>

text \<open>\<open>big.Int.SetBytes\<close> and \<open>FillBytes\<close>, with the most significant byte first.\<close>

definition bytes_value :: "8 word list \<Rightarrow> nat" where
  "bytes_value b = foldl (\<lambda>acc w. acc * 256 + unat w) 0 b"

fun fill_bytes :: "nat \<Rightarrow> nat \<Rightarrow> 8 word list" where
  "fill_bytes 0 v = []"
| "fill_bytes (Suc n) v = fill_bytes n (v div 256) @ [word_of_nat (v mod 256)]"

definition digit62 :: "nat \<Rightarrow> char" where
  "digit62 d = char_of (if d < 10 then 48 + d else if d < 36 then 87 + d else 29 + d)"

definition value62 :: "char \<Rightarrow> nat option" where
  "value62 c =
     (let b = byte c
      in if 48 \<le> b \<and> b \<le> 57 then Some (b - 48) else if 97 \<le> b \<and> b \<le> 122 then Some (b - 87)
         else if 65 \<le> b \<and> b \<le> 90 then Some (b - 29) else None)"

fun text62 :: "nat \<Rightarrow> string" where
  "text62 n = (if n < 62 then [digit62 n] else text62 (n div 62) @ [digit62 (n mod 62)])"

declare text62.simps [simp del]

fun number62 :: "nat \<Rightarrow> string \<Rightarrow> nat option" where
  "number62 acc [] = Some acc"
| "number62 acc (c # cs) = (case value62 c of None \<Rightarrow> None | Some d \<Rightarrow> number62 (acc * 62 + d) cs)"

text \<open>\<open>big.Int.SetString\<close> with base 62: an optional sign and at least one digit.\<close>

definition set_string62 :: "string \<Rightarrow> int option" where
  "set_string62 s =
     (let neg = (s \<noteq> [] \<and> hd s = CHR ''-''); body = (if s \<noteq> [] \<and> (hd s = CHR ''-'' \<or> hd s = CHR ''+'') then tl s else s)
      in if body = [] then None else map_option (\<lambda>n. if neg then - int n else int n) (number62 0 body))"

definition pad_zeros :: "nat \<Rightarrow> string \<Rightarrow> string" where
  "pad_zeros n s = replicate (n - length s) (CHR ''0'') @ s"

definition Encode :: "8 word list \<Rightarrow> string" where
  "Encode b = pad_zeros 22 (text62 (bytes_value b))"

datatype id_error = InvalidLength nat | InvalidBase62 string | Overflows string

definition Decode :: "string \<Rightarrow> id_error + 8 word list" where
  "Decode s =
     (if length s \<noteq> 22 then Inl (InvalidLength (length s))
      else case set_string62 s of
             None \<Rightarrow> Inl (InvalidBase62 s)
           | Some v \<Rightarrow>
               if v < 0 then Inl (InvalidBase62 s)
               else if v \<ge> 2 ^ 128 then Inl (Overflows s)
               else Inr (fill_bytes 16 (nat v)))"

text \<open>\<open>NewHash\<close> writes each text and a zero-width space, and encodes the digest; the digest is a parameter.\<close>

definition zwsp :: string where
  "zwsp = [CHR 0xE2, CHR 0x80, CHR 0x8B]"

definition NewHash :: "(string \<Rightarrow> 8 word list) \<Rightarrow> string list \<Rightarrow> string" where
  "NewHash md5 data = Encode (md5 (concat (map (\<lambda>d. d @ zwsp) data)))"

definition NewTagID :: "(string \<Rightarrow> 8 word list) \<Rightarrow> string \<Rightarrow> string \<Rightarrow> string" where
  "NewTagID md5 name val = NewHash md5 [go_lower name, go_lower val]"

section \<open>Artwork ids\<close>

datatype Kind = KindMediaFileArtwork | KindArtistArtwork | KindAlbumArtwork | KindPlaylistArtwork | KindDiscArtwork | KindRadioArtwork

fun Prefix :: "Kind \<Rightarrow> string" where
  "Prefix KindMediaFileArtwork = ''mf''"
| "Prefix KindArtistArtwork = ''ar''"
| "Prefix KindAlbumArtwork = ''al''"
| "Prefix KindPlaylistArtwork = ''pl''"
| "Prefix KindDiscArtwork = ''dc''"
| "Prefix KindRadioArtwork = ''ra''"

definition all_kinds :: "Kind list" where
  "all_kinds = [KindMediaFileArtwork, KindArtistArtwork, KindAlbumArtwork, KindPlaylistArtwork, KindDiscArtwork, KindRadioArtwork]"

definition ParseKind :: "string \<Rightarrow> Kind option" where
  "ParseKind p = find (\<lambda>k. Prefix k = p) all_kinds"

record ArtworkID =
  aw_Kind :: Kind
  aw_ID :: string
  aw_Hash :: string
  aw_LastUpdate :: "int option"

definition artwork_id_String :: "ArtworkID \<Rightarrow> string" where
  "artwork_id_String i =
     (if aw_ID i = [] then []
      else let s = Prefix (aw_Kind i) @ ''-'' @ aw_ID i in if aw_Hash i \<noteq> [] then s @ ''_'' @ aw_Hash i else s)"

definition isImageHash :: "string \<Rightarrow> bool" where
  "isImageHash s \<longleftrightarrow> length s = 16 \<and> list_all (\<lambda>c. (48 \<le> byte c \<and> byte c \<le> 57) \<or> (97 \<le> byte c \<and> byte c \<le> 102)) s"

datatype artwork_id_error = InvalidArtworkID | InvalidArtworkKind | InvalidDiscID | InvalidDiscNumber

text \<open>\<open>strings.SplitN(s, sep, 2)\<close> for a separator of one character: the two parts where there are two.\<close>

definition cut_at :: "char \<Rightarrow> string \<Rightarrow> (string \<times> string) option" where
  "cut_at sep s =
     (case dropWhile (\<lambda>c. c \<noteq> sep) s of [] \<Rightarrow> None | _ # r \<Rightarrow> Some (takeWhile (\<lambda>c. c \<noteq> sep) s, r))"

text \<open>\<open>strconv.ParseInt(s, 16, 64)\<close>: an optional sign, at least one digit, and a value of 64 bits.\<close>

definition hex_digit :: "char \<Rightarrow> nat option" where
  "hex_digit c =
     (let b = byte c
      in if 48 \<le> b \<and> b \<le> 57 then Some (b - 48) else if 97 \<le> b \<and> b \<le> 102 then Some (b - 87)
         else if 65 \<le> b \<and> b \<le> 70 then Some (b - 55) else None)"

fun hex_number :: "int \<Rightarrow> string \<Rightarrow> int option" where
  "hex_number acc [] = Some acc"
| "hex_number acc (c # cs) = (case hex_digit c of None \<Rightarrow> None | Some d \<Rightarrow> hex_number (acc * 16 + int d) cs)"

definition parse_hex64 :: "string \<Rightarrow> int option" where
  "parse_hex64 s =
     (let neg = (s \<noteq> [] \<and> hd s = CHR ''-''); body = (if s \<noteq> [] \<and> (hd s = CHR ''-'' \<or> hd s = CHR ''+'') then tl s else s)
      in if body = [] then None
         else case hex_number 0 body of
                None \<Rightarrow> None
              | Some n \<Rightarrow>
                  (let v = (if neg then - n else n) in if - max_int64 - 1 \<le> v \<and> v \<le> max_int64 then Some v else None))"

definition ParseArtworkID :: "string \<Rightarrow> artwork_id_error + ArtworkID" where
  "ParseArtworkID i =
     (case cut_at (CHR ''-'') i of
        None \<Rightarrow> Inl InvalidArtworkID
      | Some (p, rest) \<Rightarrow>
          (case ParseKind p of
             None \<Rightarrow> Inl InvalidArtworkKind
           | Some kind \<Rightarrow>
               (case cut_at (CHR ''_'') rest of
                  None \<Rightarrow> Inr \<lparr>aw_Kind = kind, aw_ID = rest, aw_Hash = [], aw_LastUpdate = None\<rparr>
                | Some (ident, sfx) \<Rightarrow>
                    if isImageHash sfx then Inr \<lparr>aw_Kind = kind, aw_ID = ident, aw_Hash = sfx, aw_LastUpdate = None\<rparr>
                    else Inr \<lparr>aw_Kind = kind, aw_ID = ident, aw_Hash = [], aw_LastUpdate = (if sfx \<noteq> ''0'' then parse_hex64 sfx else None)\<rparr>)))"

definition NewArtworkID :: "Kind \<Rightarrow> string \<Rightarrow> int option \<Rightarrow> ArtworkID" where
  "NewArtworkID kind ident lastUpdate = \<lparr>aw_Kind = kind, aw_ID = ident, aw_Hash = [], aw_LastUpdate = lastUpdate\<rparr>"

definition DiscArtworkID :: "string \<Rightarrow> int \<Rightarrow> string" where
  "DiscArtworkID albumID discNumber = albumID @ '':'' @ itoa discNumber"

definition ParseDiscArtworkID :: "string \<Rightarrow> artwork_id_error + string \<times> int" where
  "ParseDiscArtworkID i =
     (case cut_at (CHR '':'') i of
        None \<Rightarrow> Inl InvalidDiscID
      | Some (albumID, n) \<Rightarrow>
          if n = [] then Inl InvalidDiscID
          else (case atoi n of None \<Rightarrow> Inl InvalidDiscNumber | Some num \<Rightarrow> Inr (albumID, num)))"

section \<open>Base 62\<close>

lemma value62_digit62: "d < 62 \<Longrightarrow> value62 (digit62 d) = Some d"
  by (auto simp: value62_def digit62_def byte_char_of Let_def)

lemma number62_append: "number62 acc (s @ t) = (case number62 acc s of None \<Rightarrow> None | Some n \<Rightarrow> number62 n t)"
  by (induction acc s rule: number62.induct) (auto split: option.splits)

lemma number62_text62: "number62 0 (text62 n) = Some n"
proof (induction n rule: text62.induct)
  case (1 n)
  show ?case
  proof (cases "n < 62")
    case True
    then show ?thesis by (subst text62.simps) (simp add: value62_digit62)
  next
    case False
    then have "number62 0 (text62 (n div 62)) = Some (n div 62)" by (rule "1.IH")
    moreover have "n mod 62 < 62" by simp
    ultimately show ?thesis using False by (subst text62.simps) (simp add: number62_append value62_digit62)
  qed
qed

lemma number62_zeros: "number62 0 (replicate k (CHR ''0'') @ s) = number62 0 s"
  by (induction k) (simp_all add: value62_def byte_def)

lemma text62_length: "n < 62 ^ Suc k \<Longrightarrow> length (text62 n) \<le> Suc k"
proof (induction k arbitrary: n)
  case 0
  then show ?case by (subst text62.simps) simp
next
  case (Suc k)
  show ?case
  proof (cases "n < 62")
    case True
    then show ?thesis by (subst text62.simps) simp
  next
    case False
    have "n div 62 < 62 ^ Suc k" using Suc.prems by (simp add: less_mult_imp_div_less mult.commute)
    then show ?thesis using Suc.IH [of "n div 62"] False by (subst text62.simps) simp
  qed
qed

lemma text62_chars: "c \<in> set (text62 n) \<Longrightarrow> value62 c \<noteq> None"
proof (induction n rule: text62.induct)
  case (1 n)
  then show ?case by (subst (asm) text62.simps) (auto simp: value62_digit62 split: if_splits)
qed

section \<open>Bytes\<close>

lemma bytes_value_append: "bytes_value (b @ [w]) = bytes_value b * 256 + unat w"
  by (simp add: bytes_value_def)

lemma fill_bytes_value: "length b = n \<Longrightarrow> fill_bytes n (bytes_value b) = b"
proof (induction n arbitrary: b)
  case (Suc n)
  then obtain c w where b: "b = c @ [w]" by (metis length_0_conv nat.distinct(1) rev_exhaust)
  have w: "unat w < 256" using unsigned_less [of w, where ?'a = nat] by simp
  then have "bytes_value b div 256 = bytes_value c" "bytes_value b mod 256 = unat w" by (simp_all add: b bytes_value_append)
  then show ?case using Suc b by simp
qed simp

lemma bytes_value_bound: "bytes_value b < 256 ^ length b"
proof (induction b rule: rev_induct)
  case (snoc w b)
  have "unat w < 256" using unsigned_less [of w, where ?'a = nat] by simp
  then have "bytes_value b * 256 + unat w < (bytes_value b + 1) * 256" by simp
  also have "\<dots> \<le> 256 ^ length b * 256" using snoc by (intro mult_le_mono1) simp
  finally show ?case by (simp add: bytes_value_append)
qed (simp add: bytes_value_def)

text \<open>
  C27 (roundtrip): The id of 16 bytes has 22 characters and is decoded to the same bytes, so different bytes have
  different ids.
\<close>

theorem Decode_Encode: assumes "length b = 16" shows "length (Encode b) = 22 \<and> Decode (Encode b) = Inr b"
proof -
  define n where "n = bytes_value b"
  have n: "n < 2 ^ 128" using bytes_value_bound [of b] assms by (simp add: n_def)
  moreover have "(2::nat) ^ 128 \<le> 62 ^ Suc 21" by simp
  ultimately have "length (text62 n) \<le> Suc 21" by (intro text62_length) linarith
  then have len: "length (Encode b) = 22" by (simp add: Encode_def pad_zeros_def n_def)
  have num: "number62 0 (Encode b) = Some n" by (simp add: Encode_def pad_zeros_def number62_zeros number62_text62 n_def)
  have "value62 (hd (Encode b)) \<noteq> None"
  proof -
    have "Encode b \<noteq> []" using len by auto
    then have "hd (Encode b) \<in> set (Encode b)" by simp
    then show ?thesis using text62_chars by (auto simp: Encode_def pad_zeros_def value62_def byte_def)
  qed
  then have "hd (Encode b) \<noteq> CHR ''-''" "hd (Encode b) \<noteq> CHR ''+''" by (auto simp: value62_def byte_def)
  moreover have "Encode b \<noteq> []" using len by auto
  ultimately have "set_string62 (Encode b) = Some (int n)" using num by (simp add: set_string62_def)
  moreover have "int n < 2 ^ 128" using n by (metis of_nat_less_iff of_nat_numeral of_nat_power)
  ultimately show ?thesis using len assms by (simp add: Decode_def fill_bytes_value n_def)
qed

theorem Decode_Encode_witness: "length (Encode (replicate 16 7)) = 22 \<and> Decode (Encode (replicate 16 7)) = Inr (replicate 16 7)"
  by (rule Decode_Encode) simp

text \<open>Decoding also accepts texts that are no encodings: a sign is not refused.\<close>

lemma Decode_accepts_sign: "\<exists>b. Decode (CHR ''+'' # replicate 21 (CHR ''0'')) = Inr b"
proof -
  have "number62 0 (replicate 21 (CHR ''0'')) = Some 0" using number62_zeros [of 21 "[]"] by simp
  then show ?thesis by (simp add: Decode_def set_string62_def)
qed

section \<open>Round trips of artwork ids\<close>

lemma cut_at_first: "sep \<notin> set a \<Longrightarrow> cut_at sep (a @ sep # b) = Some (a, b)"
proof -
  assume "sep \<notin> set a"
  then have "\<forall>x \<in> set a. x \<noteq> sep" by auto
  then show ?thesis by (simp add: cut_at_def takeWhile_append2 dropWhile_append2)
qed

lemma cut_at_none: "sep \<notin> set a \<Longrightarrow> cut_at sep a = None"
proof -
  assume "sep \<notin> set a"
  then have "dropWhile (\<lambda>c. c \<noteq> sep) a = []" by (auto simp: dropWhile_eq_Nil_conv)
  then show ?thesis unfolding cut_at_def by (metis list.simps(4))
qed

lemma ParseKind_Prefix: "ParseKind (Prefix k) = Some k"
  by (cases k) (simp_all add: ParseKind_def all_kinds_def)

lemma Prefix_no_dash: "CHR ''-'' \<notin> set (Prefix k)"
  by (cases k) simp_all

text \<open>
  The id a client is given for an artwork is read back as the artwork it was made for, with the hash of
  its contents, for every kind and every id without an underscore.
\<close>

lemma ParseArtworkID_String:
  assumes "aw_ID i \<noteq> []" and "CHR ''_'' \<notin> set (aw_ID i)" and "aw_Hash i = [] \<or> isImageHash (aw_Hash i)" and "aw_LastUpdate i = None"
  shows "ParseArtworkID (artwork_id_String i) = Inr i"
proof -
  have cut: "cut_at (CHR ''-'') (Prefix (aw_Kind i) @ ''-'' @ r) = Some (Prefix (aw_Kind i), r)" for r
    using cut_at_first [OF Prefix_no_dash, of "aw_Kind i" r] by simp
  show ?thesis
  proof (cases "aw_Hash i = []")
    case True
    then show ?thesis
      using assms cut [of "aw_ID i"] cut_at_none [OF assms(2)] by (simp add: ParseArtworkID_def artwork_id_String_def ParseKind_Prefix)
  next
    case False
    then show ?thesis
      using assms cut [of "aw_ID i @ ''_'' @ aw_Hash i"] cut_at_first [OF assms(2), of "aw_Hash i"]
      by (simp add: ParseArtworkID_def artwork_id_String_def ParseKind_Prefix)
  qed
qed

lemma ParseArtworkID_String_witness:
  "ParseArtworkID (artwork_id_String \<lparr>aw_Kind = KindAlbumArtwork, aw_ID = ''a-1'', aw_Hash = ''0123456789abcdef'', aw_LastUpdate = None\<rparr>) =
     Inr \<lparr>aw_Kind = KindAlbumArtwork, aw_ID = ''a-1'', aw_Hash = ''0123456789abcdef'', aw_LastUpdate = None\<rparr>"
  by (rule ParseArtworkID_String) (simp_all add: isImageHash_def byte_def)

lemma ParseDiscArtworkID_id:
  assumes "CHR '':'' \<notin> set albumID" and "- max_int64 - 1 \<le> n" and "n \<le> max_int64"
  shows "ParseDiscArtworkID (DiscArtworkID albumID n) = Inr (albumID, n)"
proof -
  have "itoa n \<noteq> []" by (simp add: itoa_def)
  then show ?thesis using cut_at_first [OF assms(1), of "itoa n"] atoi_itoa [OF assms(2,3)] by (simp add: ParseDiscArtworkID_def DiscArtworkID_def)
qed

end
