(* ===== verification/Go_Utf8.thy ===== *)
theory Go_Utf8
  imports Prelude "HOL-Library.Sublist"
begin

text \<open>
  The decoding of UTF-8 as \<open>unicode/utf8\<close> does it, forwards (\<open>DecodeRuneInString\<close>) and backwards
  (\<open>DecodeLastRuneInString\<close>), and the cut of a text to a number of bytes that drops the character the cut went through.
\<close>

section \<open>Definitions\<close>

definition rune_error :: nat where "rune_error = 0xFFFD"

definition rune_start :: "char \<Rightarrow> bool" where
  "rune_start c \<longleftrightarrow> \<not> (0x80 \<le> byte c \<and> byte c \<le> 0xBF)"

definition rune_len :: "nat \<Rightarrow> nat" where
  "rune_len b =
     (if b < 0x80 then 1 else if 0xC2 \<le> b \<and> b \<le> 0xDF then 2 else if 0xE0 \<le> b \<and> b \<le> 0xEF then 3
      else if 0xF0 \<le> b \<and> b \<le> 0xF4 then 4 else 0)"

text \<open>The bytes that may follow the first one, which exclude overlong forms, surrogates and values past the last character.\<close>

definition second_ok :: "nat \<Rightarrow> char \<Rightarrow> bool" where
  "second_ok b c \<longleftrightarrow>
     (if b = 0xE0 then 0xA0 else if b = 0xF0 then 0x90 else 0x80) \<le> byte c \<and>
     byte c \<le> (if b = 0xED then 0x9F else if b = 0xF4 then 0x8F else 0xBF)"

definition encoded :: "string \<Rightarrow> bool" where
  "encoded q =
     (case q of
        [] \<Rightarrow> False
      | c # cs \<Rightarrow>
          rune_len (byte c) = length q \<and>
          (case cs of [] \<Rightarrow> True | d # ds \<Rightarrow> second_ok (byte c) d \<and> list_all (\<lambda>e. \<not> rune_start e) ds))"

definition rune_value :: "string \<Rightarrow> nat" where
  "rune_value q =
     (if length q = 1 then byte (hd q)
      else foldl (\<lambda>acc c. acc * 64 + byte c mod 64) (byte (hd q) mod 2 ^ (7 - length q)) (tl q))"

definition decode_rune :: "string \<Rightarrow> nat \<times> nat" where
  "decode_rune s =
     (if s = [] then (rune_error, 0)
      else let q = take (rune_len (byte (hd s))) s in if encoded q then (rune_value q, length q) else (rune_error, 1))"

text \<open>The position from which the last character is decoded: the loop looks back over at most four bytes.\<close>

definition last_start :: "string \<Rightarrow> nat" where
  "last_start s =
     (case find (\<lambda>k. k \<le> length s \<and> rune_start (s ! (length s - k))) [2, 3, 4] of
        Some k \<Rightarrow> length s - k
      | None \<Rightarrow> length s - 5)"

definition decode_last_rune :: "string \<Rightarrow> nat \<times> nat" where
  "decode_last_rune s =
     (if s = [] then (rune_error, 0)
      else if byte (last s) < 0x80 then (byte (last s), 1)
      else let st = last_start s; (r, n) = decode_rune (drop st s)
           in if st + n \<noteq> length s then (rune_error, 1) else (r, n))"

fun drop_partial :: "nat \<Rightarrow> string \<Rightarrow> string" where
  "drop_partial 0 v = v"
| "drop_partial (Suc k) v = (if decode_last_rune v \<noteq> (rune_error, 1) then v else drop_partial k (butlast v))"

text \<open>A text is well formed when it is a sequence of encoded characters.\<close>

function valid_utf8 :: "string \<Rightarrow> bool" where
  "valid_utf8 s =
     (if s = [] then True
      else if encoded (take (rune_len (byte (hd s))) s) then valid_utf8 (drop (rune_len (byte (hd s))) s)
      else False)"
  by pat_completeness auto
termination
proof (relation "measure length")
  fix s :: string
  assume "s \<noteq> []" and e: "encoded (take (rune_len (byte (hd s))) s)"
  moreover have "rune_len (byte (hd s)) \<noteq> 0" using e by (intro notI) (simp add: encoded_def)
  ultimately show "(drop (rune_len (byte (hd s))) s, s) \<in> measure length" by simp
qed simp

declare valid_utf8.simps [simp del]

section \<open>Characters\<close>

lemma rune_len_le: "rune_len b \<le> 4"
  by (simp add: rune_len_def)

lemma encoded_Cons: "encoded q \<Longrightarrow> \<exists>c cs. q = c # cs \<and> rune_len (byte c) = length q \<and> rune_start c \<and> (\<forall>e \<in> set cs. \<not> rune_start e)"
proof (cases q)
  case (Cons c cs)
  assume q: "encoded q"
  then have "rune_start c" by (auto simp: Cons encoded_def rune_start_def rune_len_def split: if_splits)
  moreover have "\<not> rune_start e" if "e \<in> set cs" for e
    using q that by (cases cs) (auto simp: Cons encoded_def rune_start_def second_ok_def list_all_iff split: if_splits)
  ultimately show ?thesis using q by (simp add: Cons encoded_def)
qed (simp add: encoded_def)

lemma encoded_length: "encoded q \<Longrightarrow> 0 < length q \<and> length q \<le> 4"
  using encoded_Cons [of q] rune_len_le by (metis length_greater_0_conv list.distinct(1))

lemma encoded_single: "encoded [c] \<longleftrightarrow> byte c < 0x80"
  by (auto simp: encoded_def rune_len_def)

lemma encoded_high: "encoded (c # d # ds) \<Longrightarrow> 0x80 \<le> byte c"
  by (auto simp: encoded_def rune_len_def split: if_splits)

lemma decode_rune_encoded: "encoded q \<Longrightarrow> decode_rune (q @ s) = (rune_value q, length q)"
  using encoded_Cons [of q] by (auto simp: decode_rune_def Let_def)

lemma decode_rune_partial: "encoded (p @ r) \<Longrightarrow> p \<noteq> [] \<Longrightarrow> r \<noteq> [] \<Longrightarrow> decode_rune p = (rune_error, 1)"
proof -
  assume q: "encoded (p @ r)" and p: "p \<noteq> []" and r: "r \<noteq> []"
  then have "rune_len (byte (hd p)) = length (p @ r)" using encoded_Cons [OF q] by (metis hd_append2 list.sel(1))
  moreover have "rune_len (byte (hd p)) = length p" if "encoded p" using encoded_Cons [OF that] by auto
  then have "\<not> encoded p" using calculation r by auto
  ultimately show ?thesis using p by (simp add: decode_rune_def)
qed

lemma last_start_found:
  assumes "rune_start c" and "\<forall>e \<in> set cs. \<not> rune_start e" and "cs \<noteq> []" and "length cs \<le> 4"
  shows "last_start (a @ c # cs) = length a"
proof -
  consider x where "cs = [x]" | x y where "cs = [x, y]" | x y z where "cs = [x, y, z]" | x y z w where "cs = [x, y, z, w]"
    using assms(3,4) by (cases cs; cases "tl cs"; cases "tl (tl cs)"; cases "tl (tl (tl cs))") auto
  then show ?thesis using assms(1,2) by cases (simp_all add: last_start_def nth_append)
qed

lemma byte_not_start: "\<not> rune_start c \<Longrightarrow> 0x80 \<le> byte c"
  by (simp add: rune_start_def)

lemma rune_value_valid: "encoded q \<Longrightarrow> (rune_value q, length q) \<noteq> (rune_error, 1)"
proof (cases "length q = 1")
  case True
  assume "encoded q"
  then obtain c where "q = [c]" "byte c < 0x80" using True encoded_single by (metis One_nat_def length_0_conv length_Suc_conv)
  then show ?thesis by (simp add: rune_value_def rune_error_def)
qed simp

lemma decode_last_encoded: "encoded q \<Longrightarrow> decode_last_rune (a @ q) \<noteq> (rune_error, 1)"
proof -
  assume q: "encoded q"
  then obtain c cs where cs: "q = c # cs" "rune_start c" "\<forall>e \<in> set cs. \<not> rune_start e" using encoded_Cons by blast
  show ?thesis
  proof (cases "cs = []")
    case True
    then show ?thesis using q cs by (simp add: decode_last_rune_def encoded_single rune_error_def)
  next
    case False
    have len: "length cs \<le> 4" using encoded_length [OF q] cs by simp
    have "\<not> byte (last q) < 0x80" using False cs byte_not_start by (metis last.simps last_in_set linorder_not_less)
    moreover have "last_start (a @ q) = length a" using last_start_found [OF cs(2,3) False len] cs(1) by simp
    ultimately show ?thesis
      using decode_rune_encoded [OF q, of "[]"] rune_value_valid [OF q] q cs by (simp add: decode_last_rune_def)
  qed
qed

text \<open>Behind whole characters, what is left of a character that was cut is seen as a single wrong byte.\<close>

lemma decode_last_partial:
  assumes "list_all encoded qs" and "encoded (p @ r)" and "p \<noteq> []" and "r \<noteq> []"
  shows "decode_last_rune (concat qs @ p) = (rune_error, 1)"
proof -
  obtain c cs where p: "p = c # cs" using assms(3) by (cases p) auto
  have c: "0x80 \<le> byte c" "rune_start c" "\<forall>e \<in> set cs. \<not> rune_start e" "length cs \<le> 4"
    using encoded_high [of c] assms(2,4) p encoded_Cons [OF assms(2)] encoded_length [OF assms(2)] by (cases "cs @ r", auto)
  have last: "\<not> byte (last (concat qs @ p)) < 0x80"
  proof (cases "cs = []")
    case False
    then have "last cs \<in> set cs" by simp
    then show ?thesis using p False c(3) byte_not_start [of "last cs"] by simp
  qed (use p c(1) in simp)
  have decoded: "decode_rune p = (rune_error, 1)" using decode_rune_partial assms(2-4) by blast
  show ?thesis
  proof (cases "cs = []")
    case False
    then have "last_start (concat qs @ p) = length (concat qs)" using last_start_found c p by blast
    then show ?thesis using last decoded p False by (simp add: decode_last_rune_def)
  next
    case True
    show ?thesis
    proof (cases qs rule: rev_cases)
      case Nil
      then show ?thesis using last decoded p True by (simp add: decode_last_rune_def last_start_def)
    next
      case (snoc as q)
      then have q: "encoded q" using assms(1) by simp
      obtain d ds where d: "q = d # ds" "rune_start d" "\<forall>e \<in> set ds. \<not> rune_start e" using encoded_Cons [OF q] by blast
      have "length ds \<le> 3" using encoded_length [OF q] d by simp
      then consider "ds = []" | x where "ds = [x]" | x y where "ds = [x, y]" | x y z where "ds = [x, y, z]"
        by (cases ds; cases "tl ds"; cases "tl (tl ds)"; cases "tl (tl (tl ds))") auto
      then have "last_start (concat as @ q @ [c]) = length (concat as)"
        using d by cases (simp_all add: last_start_def nth_append)
      then show ?thesis using last decode_rune_encoded [OF q, of "[c]"] p True snoc by (simp add: decode_last_rune_def)
    qed
  qed
qed

section \<open>Cutting a text\<close>

lemma valid_utf8_concat: "valid_utf8 (concat qs)" if "list_all encoded qs"
  using that
proof (induction qs)
  case Nil
  then show ?case by (subst valid_utf8.simps) simp
next
  case (Cons q qs)
  then obtain c cs where "q = c # cs" "rune_len (byte c) = length q" using encoded_Cons by force
  then show ?case using Cons by (subst valid_utf8.simps) simp
qed

lemma valid_utf8_split: "valid_utf8 s \<Longrightarrow> \<exists>qs. s = concat qs \<and> list_all encoded qs"
proof (induction s rule: valid_utf8.induct)
  case (1 s)
  show ?case
  proof (cases "s = []")
    case True
    then show ?thesis by (intro exI [of _ "[]"]) simp
  next
    case False
    then have e: "encoded (take (rune_len (byte (hd s))) s)" "valid_utf8 (drop (rune_len (byte (hd s))) s)"
      using "1.prems" valid_utf8.simps [of s] by (simp_all split: if_splits)
    then obtain qs where "drop (rune_len (byte (hd s))) s = concat qs" "list_all encoded qs" using "1.IH" False by blast
    then have "s = concat (take (rune_len (byte (hd s))) s # qs) \<and> list_all encoded (take (rune_len (byte (hd s))) s # qs)"
      using e(1) by (metis append_take_drop_id concat.simps(2) list.pred_inject(2))
    then show ?thesis by blast
  qed
qed

lemma take_concat:
  "list_all encoded qs \<Longrightarrow>
   \<exists>as p. take n (concat qs) = concat as @ p \<and> list_all encoded as \<and> (p = [] \<or> (\<exists>r. r \<noteq> [] \<and> encoded (p @ r)))"
proof (induction qs arbitrary: n)
  case Nil
  then show ?case by (intro exI [of _ "[]"]) simp
next
  case (Cons q qs)
  show ?case
  proof (cases "n < length q")
    case True
    then have "take n (concat (q # qs)) = concat [] @ take n q" "encoded (take n q @ drop n q)" "drop n q \<noteq> []" using Cons.prems by simp_all
    then show ?thesis by (metis list.pred_inject(1))
  next
    case False
    obtain as p where as: "take (n - length q) (concat qs) = concat as @ p" "list_all encoded as" "p = [] \<or> (\<exists>r. r \<noteq> [] \<and> encoded (p @ r))"
      using Cons by fastforce
    then have "take n (concat (q # qs)) = concat (q # as) @ p" using False by simp
    then show ?thesis using as Cons.prems by (metis list.pred_inject(2))
  qed
qed

lemma drop_partial_whole: "list_all encoded qs \<Longrightarrow> drop_partial k (concat qs) = concat qs"
proof (cases k)
  case (Suc j)
  assume whole: "list_all encoded qs"
  have "decode_last_rune (concat qs) \<noteq> (rune_error, 1)"
  proof (cases qs rule: rev_cases)
    case (snoc as q)
    then show ?thesis using whole decode_last_encoded [of q "concat as"] by simp
  qed (simp add: decode_last_rune_def)
  then show ?thesis by (simp add: Suc)
qed simp

lemma drop_partial_rest:
  "list_all encoded qs \<Longrightarrow> encoded (p @ r) \<Longrightarrow> r \<noteq> [] \<Longrightarrow> length p \<le> k \<Longrightarrow> drop_partial k (concat qs @ p) = concat qs"
proof (induction k arbitrary: p r)
  case (Suc k)
  show ?case
  proof (cases p rule: rev_cases)
    case Nil
    then show ?thesis using drop_partial_whole [OF Suc.prems(1), of "Suc k"] by simp
  next
    case (snoc p' c)
    have "drop_partial k (concat qs @ p') = concat qs" using Suc.IH [of p' "c # r"] Suc.prems snoc by simp
    then show ?thesis using decode_last_partial [OF Suc.prems(1,2)] Suc.prems snoc by (simp add: butlast_append)
  qed
qed simp

lemma drop_partial_valid:
  assumes "valid_utf8 v"
  shows "valid_utf8 (drop_partial 3 (take n v)) \<and> prefix (drop_partial 3 (take n v)) v \<and> length (take n v) \<le> length (drop_partial 3 (take n v)) + 3"
proof -
  obtain qs where "v = concat qs" "list_all encoded qs" using valid_utf8_split assms by blast
  then obtain as p where as: "take n v = concat as @ p" "list_all encoded as" "p = [] \<or> (\<exists>r. r \<noteq> [] \<and> encoded (p @ r))"
    using take_concat by blast
  have len: "length p \<le> 3"
  proof (cases "p = []")
    case False
    then obtain r where "r \<noteq> []" "encoded (p @ r)" using as(3) by blast
    then show ?thesis using encoded_length [of "p @ r"] by (cases r) auto
  qed simp
  have "drop_partial 3 (take n v) = concat as"
    using as drop_partial_rest [OF as(2)] drop_partial_whole [OF as(2)] len by (metis append_Nil2)
  moreover have "prefix (concat as) v" using as(1) by (metis append_prefixD prefix_def prefix_order.refl append_take_drop_id)
  ultimately show ?thesis using valid_utf8_concat as len by simp
qed

lemma drop_partial_prefix: "prefix (drop_partial k v) v"
proof (induction k v rule: drop_partial.induct)
  case (2 k v)
  then show ?case by (auto intro: prefix_order.trans prefixeq_butlast)
qed simp

end
