(* ===== verification/Tag_Values.thy ===== *)
theory Tag_Values
  imports Entity_Ids Go_Utf8 "HOL-Library.List_Lexorder" "HOL-Library.Product_Lexorder"
begin

text \<open>
  The tags of a file: how values are split and which names are never split (\<open>model/tag_mappings.go\<close>), how the tags of a
  file are gathered under the names of the mappings, freed of empty and repeated values and made to fit their type
  (\<open>model/metadata/metadata.go\<close>).

  A compiled expression of this code is an alternative of literal texts, matched without regard to case: it is modelled
  as the list of the texts, in order, matched at the first position where one of them matches, on ASCII case. The ranges
  of Unicode letters and digits, the parser of floating-point numbers and the parser of UUIDs are parameters, and so is
  the order in which a map is ranged over.
\<close>

section \<open>Configuration of tags\<close>

type_synonym tags = "string \<rightharpoonup> string list"

record TagConf =
  tc_Aliases :: "string list"
  tc_Type :: string
  tc_MaxLength :: int
  tc_Split :: "string list option"
  tc_Album :: bool
  tc_SplitRx :: "string list option"
  tc_ExceptionsRx :: "string list option"

datatype go_number = Finite rat | Infinite | NotANumber

record tag_env =
  is_word_rune :: "nat \<Rightarrow> bool"
  parse_number :: "string \<Rightarrow> go_number option"
  uuid_parse :: "string \<Rightarrow> string option"
  range_keys :: "tags \<Rightarrow> string list"
  te_exceptions :: "string list"
  te_main :: "(string \<times> TagConf) list"
  te_additional :: "(string \<times> TagConf) list"
  te_roles :: TagConf
  te_artists :: TagConf

text \<open>\<open>regexp.Compile\<close> refuses an expression that is not well-formed UTF-8.\<close>

definition compile_literals :: "string list \<Rightarrow> string list option" where
  "compile_literals ps = (if list_all valid_utf8 ps then Some ps else None)"

definition compileSplitRegex :: "string list \<Rightarrow> string list option" where
  "compileSplitRegex split = (let escaped = filter (\<lambda>s. s \<noteq> []) split in if escaped = [] then None else compile_literals escaped)"

definition compileExceptionsRegex :: "string list \<Rightarrow> string list option" where
  "compileExceptionsRegex exceptions =
     (let names = filter (\<lambda>e. e \<noteq> []) (map trim_space exceptions)
      in if names = [] then None
         else compile_literals (sort_key (\<lambda>e. (- int (length e), map byte e)) names))"

definition AllRoles :: "string list" where
  "AllRoles = [''artist'', ''albumartist'', ''composer'', ''conductor'', ''lyricist'', ''arranger'', ''producer'', ''director'',
               ''engineer'', ''mixer'', ''remixer'', ''djmixer'', ''performer'', ''maincredit'']"

definition participantTagNames :: "string list" where
  "participantTagNames =
     [''artist'', ''artists'', ''artistsort'', ''artistssort'', ''albumartist'', ''albumartists'', ''albumartistsort'',
      ''albumartistssort''] @ AllRoles @ map (\<lambda>r. r @ ''sort'') AllRoles"

definition WithParticipantExceptions :: "tag_env \<Rightarrow> string \<Rightarrow> TagConf \<Rightarrow> TagConf" where
  "WithParticipantExceptions env name c =
     (if name \<in> set participantTagNames then c\<lparr>tc_ExceptionsRx := compileExceptionsRegex (te_exceptions env)\<rparr> else c)"

fun collectTags :: "(string \<times> TagConf) list \<Rightarrow> (string \<times> TagConf) list" where
  "collectTags [] = []"
| "collectTags ((k, v) # rest) =
     (let v1 = (case tc_Split v of
                  None \<Rightarrow> v
                | Some split \<Rightarrow>
                    if tc_Type v \<noteq> [] \<and> tc_Type v \<noteq> ''string'' then v\<lparr>tc_Split := None\<rparr>
                    else v\<lparr>tc_SplitRx := compileSplitRegex split\<rparr>)
      in (go_lower k, v1\<lparr>tc_Aliases := map go_lower (tc_Aliases v)\<rparr>) # collectTags rest)"

text \<open>The merged mappings, in which a main tag wins over an additional one of the same name.\<close>

definition TagMappings :: "tag_env \<Rightarrow> (string \<times> TagConf) list" where
  "TagMappings env = te_main env @ filter (\<lambda>(k, _). map_of (te_main env) k = None) (te_additional env)"

definition TagMainMappings :: "tag_env \<Rightarrow> string \<Rightarrow> TagConf option" where
  "TagMainMappings env = map_of (te_main env)"

text \<open>Names of tags win over aliases; among the aliases, the one added last.\<close>

definition CanonicalTagName :: "tag_env \<Rightarrow> string \<Rightarrow> string option" where
  "CanonicalTagName env name =
     (let n = go_lower name
      in if map_of (TagMappings env) n \<noteq> None then Some n
         else map_option fst (find (\<lambda>(_, tag). n \<in> set (tc_Aliases tag)) (rev (TagMappings env))))"

section \<open>Splitting\<close>

definition alt_match :: "string list \<Rightarrow> string \<Rightarrow> nat option" where
  "alt_match rx s = map_option length (find (\<lambda>p. equal_fold (take (length p) s) p) rx)"

text \<open>\<open>FindAllStringIndex\<close>, for texts none of which is empty.\<close>

function find_all :: "string list \<Rightarrow> nat \<Rightarrow> string \<Rightarrow> (nat \<times> nat) list" where
  "find_all rx i [] = []"
| "find_all rx i (c # cs) =
     (case alt_match rx (c # cs) of
        None \<Rightarrow> find_all rx (i + 1) cs
      | Some n \<Rightarrow> (i, i + n) # find_all rx (i + max n 1) (drop (n - 1) cs))"
  by pat_completeness auto
termination by (relation "measure (\<lambda>(rx, i, s). length s)") auto

definition isWordBounded :: "tag_env \<Rightarrow> string \<Rightarrow> nat \<Rightarrow> nat \<Rightarrow> bool" where
  "isWordBounded env s start e \<longleftrightarrow>
     \<not> is_word_rune env (fst (decode_last_rune (take start s))) \<and> \<not> is_word_rune env (fst (decode_rune (drop e s)))"

definition protectedSpans :: "tag_env \<Rightarrow> string \<Rightarrow> string list option \<Rightarrow> (nat \<times> nat) list" where
  "protectedSpans env tag rx =
     (case rx of None \<Rightarrow> [] | Some r \<Rightarrow> filter (\<lambda>(b, e). isWordBounded env tag b e) (find_all r 0 tag))"

definition overlapsAny :: "nat \<times> nat \<Rightarrow> (nat \<times> nat) list \<Rightarrow> bool" where
  "overlapsAny sp spans \<longleftrightarrow> list_ex (\<lambda>s. fst sp < snd s \<and> fst s < snd sp) spans"

fun split_loop :: "string \<Rightarrow> (nat \<times> nat) list \<Rightarrow> nat \<Rightarrow> (nat \<times> nat) list \<Rightarrow> string list" where
  "split_loop tag guarded start [] = [trim_space (drop start tag)]"
| "split_loop tag guarded start (sep # seps) =
     (if overlapsAny sep guarded then split_loop tag guarded start seps
      else trim_space (go_slice start (fst sep) tag) # split_loop tag guarded (snd sep) seps)"

definition splitValue :: "tag_env \<Rightarrow> TagConf \<Rightarrow> string list \<Rightarrow> string \<Rightarrow> string list" where
  "splitValue env c rx tag = split_loop tag (protectedSpans env tag (tc_ExceptionsRx c)) 0 (find_all rx 0 tag)"

definition SplitTagValue :: "tag_env \<Rightarrow> TagConf \<Rightarrow> string list \<Rightarrow> string list" where
  "SplitTagValue env c vs =
     (case tc_SplitRx c of None \<Rightarrow> vs | Some rx \<Rightarrow> if vs = [] then vs else concat (map (splitValue env c rx) vs))"

section \<open>Pairs\<close>

text \<open>\<open>strings.SplitN(s, sep, 2)\<close> and \<open>strings.Replace(s, sep, "", 1)\<close>, for a separator that is not empty.\<close>

fun str_cut :: "string \<Rightarrow> string \<Rightarrow> (string \<times> string) option" where
  "str_cut sep [] = None"
| "str_cut sep (c # cs) =
     (if has_prefix (c # cs) sep then Some ([], drop (length sep) (c # cs))
      else map_option (\<lambda>(a, b). (c # a, b)) (str_cut sep cs))"

definition Pair_Key :: "string \<Rightarrow> string" where
  "Pair_Key p = (case str_cut zwsp p of None \<Rightarrow> p | Some (k, _) \<Rightarrow> k)"

definition Pair_Value :: "string \<Rightarrow> string" where
  "Pair_Value p = (case str_cut zwsp p of None \<Rightarrow> [] | Some (_, v) \<Rightarrow> v)"

definition NewPair :: "string \<Rightarrow> string \<Rightarrow> string" where
  "NewPair key v = key @ zwsp @ v"

text \<open>The expression \<open>\(([^()]+(?:\([^()]*\)[^()]*)*)\)\<close>: text in parentheses, with parentheses one level deep inside.\<close>

definition no_paren :: "char \<Rightarrow> bool" where
  "no_paren c \<longleftrightarrow> c \<noteq> CHR ''('' \<and> c \<noteq> CHR '')''"

function pair_groups :: "string \<Rightarrow> string option" where
  "pair_groups s =
     (case dropWhile no_paren s of
        [] \<Rightarrow> None
      | c # r \<Rightarrow>
          if c = CHR '')'' then Some (takeWhile no_paren s)
          else case dropWhile no_paren r of
                 [] \<Rightarrow> None
               | d # r2 \<Rightarrow>
                   if d = CHR '')'' then map_option (\<lambda>g. takeWhile no_paren s @ [c] @ takeWhile no_paren r @ [d] @ g) (pair_groups r2)
                   else None)"
  by pat_completeness auto
termination
proof (relation "measure length")
  fix s c r d r2
  assume "dropWhile no_paren s = c # r" and "dropWhile no_paren r = d # r2"
  then show "(r2, s) \<in> measure length"
    using length_dropWhile_le [of no_paren s] length_dropWhile_le [of no_paren r] by simp
qed simp

declare pair_groups.simps [simp del]

fun first_pair :: "string \<Rightarrow> string option" where
  "first_pair [] = None"
| "first_pair (c # cs) =
     (case (if c = CHR ''('' \<and> cs \<noteq> [] \<and> no_paren (hd cs) then pair_groups cs else None) of
        Some g \<Rightarrow> Some g
      | None \<Rightarrow> first_pair cs)"

definition vorbis_pair :: "string \<Rightarrow> string" where
  "vorbis_pair v =
     (case first_pair v of
        None \<Rightarrow> NewPair [] v
      | Some m \<Rightarrow>
          NewPair (go_lower (trim_space m)) (trim_space (case str_cut (''('' @ m @ '')'') v of None \<Rightarrow> v | Some (a, b) \<Rightarrow> a @ b)))"

definition parseVorbisPairs :: "string list \<Rightarrow> string list" where
  "parseVorbisPairs vs = map vorbis_pair vs"

definition parseID3Pairs :: "tag_env \<Rightarrow> string \<Rightarrow> tags \<Rightarrow> string list" where
  "parseID3Pairs env name lowered =
     concat (map (\<lambda>k. let p = name @ '':''
                      in if has_prefix k p then
                           let keyPart = (if drop (length p) k = name then [] else drop (length p) k)
                           in map (NewPair keyPart) (case lowered k of None \<Rightarrow> [] | Some vs \<Rightarrow> vs)
                         else [])
                 (range_keys env lowered))"

definition alias_values :: "TagConf \<Rightarrow> tags \<Rightarrow> (string list \<Rightarrow> string list) \<Rightarrow> string list" where
  "alias_values c lowered f = concat (map (\<lambda>a. case lowered a of None \<Rightarrow> [] | Some vs \<Rightarrow> f vs) (tc_Aliases c))"

definition processPairMapping :: "tag_env \<Rightarrow> string \<Rightarrow> TagConf \<Rightarrow> tags \<Rightarrow> string list" where
  "processPairMapping env name c lowered =
     (let aliasValues = alias_values c lowered (\<lambda>vs. vs); id3Base = parseID3Pairs env name lowered
      in if aliasValues = [] then id3Base
         else if name = ''lyrics'' then id3Base @ map (NewPair ''xxx'') aliasValues
         else id3Base @ parseVorbisPairs aliasValues)"

definition processRegularMapping :: "tag_env \<Rightarrow> TagConf \<Rightarrow> tags \<Rightarrow> string list" where
  "processRegularMapping env c lowered = alias_values c lowered (SplitTagValue env c)"

section \<open>Cleaning\<close>

definition lowerTags :: "(string \<times> string list) list \<Rightarrow> tags" where
  "lowerTags raw = foldl (\<lambda>m (k, v). m(go_lower k \<mapsto> v)) Map.empty raw"

fun filter_unseen :: "string set \<Rightarrow> string list \<Rightarrow> string list" where
  "filter_unseen seen [] = []"
| "filter_unseen seen (v # vs) =
     (if v = [] \<or> v \<in> seen then filter_unseen seen vs else v # filter_unseen (insert v seen) vs)"

definition filterDuplicatedOrEmptyValues :: "string list \<Rightarrow> string list" where
  "filterDuplicatedOrEmptyValues vs = filter_unseen {} vs"

definition filterEmptyTags :: "tags \<Rightarrow> tags" where
  "filterEmptyTags t =
     (\<lambda>k. case t k of
            None \<Rightarrow> None
          | Some v \<Rightarrow> let c = filterDuplicatedOrEmptyValues v in if c = [] then None else Some c)"

text \<open>The expression \<open>([12]\d\d\d)\<close>, and \<open>time.Parse\<close> with the layouts of a day and of a month.\<close>

fun find_year :: "string \<Rightarrow> string option" where
  "find_year [] = None"
| "find_year (c # cs) =
     (if (c = CHR ''1'' \<or> c = CHR ''2'') \<and> 3 \<le> length cs \<and> list_all is_digit (take 3 cs) then Some (c # take 3 cs)
      else find_year cs)"

definition number_at :: "nat \<Rightarrow> nat \<Rightarrow> string \<Rightarrow> nat option" where
  "number_at i n s = (if i + n \<le> length s then digits_value 0 (go_slice i (i + n) s) else None)"

definition is_leap :: "nat \<Rightarrow> bool" where
  "is_leap y \<longleftrightarrow> y mod 4 = 0 \<and> (y mod 100 \<noteq> 0 \<or> y mod 400 = 0)"

definition days_in :: "nat \<Rightarrow> nat \<Rightarrow> nat" where
  "days_in m y = (if m = 2 then (if is_leap y then 29 else 28) else if m \<in> {4, 6, 9, 11} then 30 else 31)"

definition month_layout :: "string \<Rightarrow> bool" where
  "month_layout s \<longleftrightarrow>
     length s = 7 \<and> s ! 4 = CHR ''-'' \<and> number_at 0 4 s \<noteq> None \<and>
     (case number_at 5 2 s of None \<Rightarrow> False | Some m \<Rightarrow> 1 \<le> m \<and> m \<le> 12)"

definition day_layout :: "string \<Rightarrow> bool" where
  "day_layout s \<longleftrightarrow>
     length s = 10 \<and> s ! 7 = CHR ''-'' \<and> month_layout (take 7 s) \<and>
     (case (number_at 0 4 s, number_at 5 2 s, number_at 8 2 s) of
        (Some y, Some m, Some d) \<Rightarrow> 1 \<le> d \<and> d \<le> days_in m y
      | _ \<Rightarrow> False)"

definition parseDate :: "string \<Rightarrow> string" where
  "parseDate v =
     (if length v < 4 then []
      else case find_year v of
             None \<Rightarrow> []
           | Some y \<Rightarrow>
               if length v < 5 then y
               else let t = take 10 v in if day_layout t \<or> month_layout t then t else y)"

definition max_length :: "TagConf \<Rightarrow> int" where
  "max_length tag = (if tc_MaxLength tag \<noteq> 0 then tc_MaxLength tag else 1024)"

text \<open>A slice with a negative bound panics, which is the value \<open>None\<close>.\<close>

definition truncate_value :: "TagConf \<Rightarrow> string \<Rightarrow> string option" where
  "truncate_value tag v =
     (if int (length v) > max_length tag then
        if max_length tag < 0 then None else Some (drop_partial 3 (take (nat (max_length tag)) v))
      else Some v)"

definition sanitize :: "tag_env \<Rightarrow> TagConf \<Rightarrow> string \<Rightarrow> string option" where
  "sanitize env tag v =
     (case truncate_value tag v of
        None \<Rightarrow> None
      | Some w \<Rightarrow> Some
          (if tc_Type tag = ''date'' then parseDate w
           else if tc_Type tag = ''int'' then (if atoi w = None then [] else w)
           else if tc_Type tag = ''float'' then (if parse_number env w = None then [] else w)
           else if tc_Type tag = ''uuid'' then (case uuid_parse env w of None \<Rightarrow> [] | Some u \<Rightarrow> u)
           else w))"

fun sanitize_values :: "tag_env \<Rightarrow> TagConf \<Rightarrow> string list \<Rightarrow> string list option" where
  "sanitize_values env tag [] = Some []"
| "sanitize_values env tag (v # vs) =
     (case sanitize env tag v of
        None \<Rightarrow> None
      | Some w \<Rightarrow> map_option (\<lambda>ws. if w \<noteq> [] then w # ws else ws) (sanitize_values env tag vs))"

definition sanitizeAll :: "tag_env \<Rightarrow> tags \<Rightarrow> tags option" where
  "sanitizeAll env t =
     (let cleaned = (\<lambda>k. case (t k, map_of (TagMappings env) k) of
                           (Some vs, Some tag) \<Rightarrow> sanitize_values env tag vs
                         | _ \<Rightarrow> Some [])
      in if list_all (\<lambda>(k, _). cleaned k \<noteq> None) (TagMappings env) then
           Some (\<lambda>k. case cleaned k of None \<Rightarrow> None | Some vs \<Rightarrow> if vs = [] then None else Some vs)
         else None)"

definition mapping_values :: "tag_env \<Rightarrow> string \<Rightarrow> TagConf \<Rightarrow> tags \<Rightarrow> string list" where
  "mapping_values env name c lowered =
     (let mapping = WithParticipantExceptions env name c
      in if tc_Type mapping = ''pair'' then processPairMapping env name mapping lowered
         else processRegularMapping env mapping lowered)"

definition clean_tags :: "tag_env \<Rightarrow> (string \<times> string list) list \<Rightarrow> tags option" where
  "clean_tags env raw =
     (let lowered = lowerTags raw;
          cleaned = (\<lambda>k. case map_of (TagMappings env) k of None \<Rightarrow> None | Some c \<Rightarrow> Some (mapping_values env k c lowered))
      in sanitizeAll env (filterEmptyTags cleaned))"

section \<open>Reading tags\<close>

definition first_value :: "tags \<Rightarrow> string \<Rightarrow> string" where
  "first_value t key = (case t key of Some (v # _) \<Rightarrow> v | _ \<Rightarrow> [])"

definition md_Strings :: "tags \<Rightarrow> string \<Rightarrow> string list" where
  "md_Strings t key = (case t key of None \<Rightarrow> [] | Some vs \<Rightarrow> vs)"

definition md_Bool :: "tags \<Rightarrow> string \<Rightarrow> bool" where
  "md_Bool t key \<longleftrightarrow> first_value t key \<in> {''1'', ''t'', ''T'', ''TRUE'', ''true'', ''True''}"

text \<open>\<open>strconv.ParseInt(s, 10, 32)\<close>, of which an error and a negative number give zero.\<close>

definition tagNumber :: "string \<Rightarrow> int" where
  "tagNumber s = (case atoi s of None \<Rightarrow> 0 | Some v \<Rightarrow> if v < 0 \<or> 2 ^ 31 \<le> v then 0 else v)"

definition tuple :: "tags \<Rightarrow> string \<Rightarrow> int \<times> int" where
  "tuple t key =
     (let tag = first_value t key
      in if tag = [] then (0, 0)
         else let parts = split_on (CHR ''/'') tag;
                  t_total = (if 1 < length parts then parts ! 1 else first_value t (key @ ''total''))
              in (tagNumber (hd parts), tagNumber t_total))"

text \<open>\<open>Date.Year\<close> slices the first four bytes, and panics where there are fewer.\<close>

definition Date_Year :: "string \<Rightarrow> int option" where
  "Date_Year d =
     (if d = [] then Some 0 else if length d < 4 then None else Some (case atoi (take 4 d) of None \<Rightarrow> 0 | Some y \<Rightarrow> y))"

definition or_text :: "string list \<Rightarrow> string" where
  "or_text vs = (case find (\<lambda>v. v \<noteq> []) vs of None \<Rightarrow> [] | Some v \<Rightarrow> v)"

definition mapDates :: "tags \<Rightarrow> string \<times> string \<times> string" where
  "mapDates t =
     (let date = first_value t ''recordingdate''; originalDate = first_value t ''originaldate''; releaseDate = first_value t ''releasedate''
      in if originalDate \<noteq> [] \<and> releaseDate = [] \<and> map byte originalDate \<le> map byte date then (originalDate, originalDate, date)
         else (or_text [date, originalDate, releaseDate], originalDate, releaseDate))"

definition mapExplicitStatusTag :: "tags \<Rightarrow> string" where
  "mapExplicitStatusTag t =
     (let v = first_value t ''explicitstatus'' in if v = ''1'' \<or> v = ''4'' then ''e'' else if v = ''2'' then ''c'' else [])"

definition mapMovementNumbers :: "tags \<Rightarrow> tags \<Rightarrow> tags" where
  "mapMovementNumbers md t =
     (let vs = md_Strings md ''movement''; cuts = map (\<lambda>v. case cut_at (CHR ''/'') v of None \<Rightarrow> (v, []) | Some c \<Rightarrow> c) vs
      in if \<not> list_ex (\<lambda>v. CHR ''/'' \<in> set v) vs then t
         else let t1 = t(''movement'' \<mapsto> map fst cuts)
              in if list_all (\<lambda>v. CHR ''/'' \<in> set v) vs \<and> md_Strings md ''movementtotal'' = [] then t1(''movementtotal'' \<mapsto> map snd cuts)
                 else t1)"

end
