(* ===== verification/Tag_Values_Props.thy ===== *)
theory Tag_Values_Props
  imports Tag_Values
begin

text \<open>
  What the cleaning of tags guarantees: names listed as exceptions are never split, a value that is cut stays
  well-formed UTF-8, and every value that is kept belongs to a mapped tag, is not empty, fits the limit of its tag and
  has the tag's type; in particular the year of a date can be read.
\<close>

section \<open>Names that are not split\<close>

lemma equal_fold_length: "equal_fold a b \<Longrightarrow> length a = length b"
  by (metis equal_fold_def go_lower_def length_map)

lemma is_space_lower: "is_space (to_lower_char c) \<longleftrightarrow> is_space c"
proof -
  have space: "is_space d \<longleftrightarrow> byte d \<in> {0x20, 0x09, 0x0A, 0x0B, 0x0C, 0x0D}" for d
    unfolding is_space_def insert_iff empty_iff by (simp only: flip: byte_inject) (simp add: byte_def)
  show ?thesis unfolding space by (auto simp: byte_to_lower_char split: if_splits)
qed

lemma equal_fold_ends:
  assumes "equal_fold a b" and "b \<noteq> []" and "\<not> is_space (hd b)" and "\<not> is_space (last b)"
  shows "a \<noteq> [] \<and> \<not> is_space (hd a) \<and> \<not> is_space (last a)"
proof -
  have "a \<noteq> []" using assms(1,2) equal_fold_length by fastforce
  moreover have "to_lower_char (hd a) = to_lower_char (hd b)" "to_lower_char (last a) = to_lower_char (last b)"
    using assms(1,2) calculation by (metis equal_fold_def go_lower_def hd_map, metis equal_fold_def go_lower_def last_map)
  ultimately show ?thesis using assms(3,4) is_space_lower by metis
qed

lemma dropWhile_keeps: "w \<noteq> [] \<Longrightarrow> \<not> P (hd w) \<Longrightarrow> \<exists>a'. dropWhile P (a @ w @ b) = a' @ w @ b"
proof (induction a)
  case Nil
  then show ?case by (intro exI [of _ "[]"]) (cases w; simp)
next
  case (Cons x a)
  then show ?case by (cases "P x") (auto intro: exI [of _ "x # a"])
qed

lemma trim_keeps:
  assumes "w \<noteq> []" and "\<not> is_space (hd w)" and "\<not> is_space (last w)"
  shows "sublist w (trim_space (a @ w @ b))"
proof -
  obtain a' where a: "dropWhile is_space (a @ w @ b) = a' @ w @ b" using dropWhile_keeps assms(1,2) by blast
  obtain b' where b: "dropWhile is_space (rev b @ rev w @ rev a') = b' @ rev w @ rev a'"
    using dropWhile_keeps [of "rev w" is_space "rev b" "rev a'"] assms(1,3) by (auto simp: hd_rev)
  have "trim_space (a @ w @ b) = a' @ w @ rev b'" unfolding trim_space_def a using b by simp
  then show ?thesis by (auto simp: sublist_def)
qed

lemma slice_in_slice: "i \<le> b \<Longrightarrow> b \<le> e \<Longrightarrow> e \<le> j \<Longrightarrow> \<exists>x y. go_slice i j s = x @ go_slice b e s @ y"
proof -
  assume "i \<le> b" "b \<le> e" "e \<le> j"
  then have "j - i = (b - i) + ((e - b) + (j - e))" "drop (b - i) (drop i s) = drop b s" "drop (e - b) (drop b s) = drop e s" by simp_all
  then have "go_slice i j s = take (b - i) (drop i s) @ go_slice b e s @ take (j - e) (drop e s)"
    unfolding go_slice_def by (metis take_add)
  then show ?thesis by blast
qed

text \<open>A guarded part of the text ends up whole in one of the pieces.\<close>

lemma split_loop_keeps:
  assumes "(b, e) \<in> set guarded" and "start \<le> b" and "b \<le> e" and "e \<le> length tag"
    and "go_slice b e tag \<noteq> []" and "\<not> is_space (hd (go_slice b e tag))" and "\<not> is_space (last (go_slice b e tag))"
  shows "\<exists>piece \<in> set (split_loop tag guarded start seps). sublist (go_slice b e tag) piece"
  using assms
proof (induction tag guarded start seps rule: split_loop.induct)
  case (1 tag guarded start)
  have "go_slice start (length tag) tag = drop start tag" by (simp add: go_slice_def)
  then obtain x y where "drop start tag = x @ go_slice b e tag @ y" using slice_in_slice [of start b e "length tag" tag] "1.prems" by auto
  then show ?case using trim_keeps "1.prems" by simp
next
  case (2 tag guarded start sep seps)
  show ?case
  proof (cases "overlapsAny sep guarded")
    case True
    then show ?thesis using 2 by simp
  next
    case False
    then have "\<not> (fst sep < e \<and> b < snd sep)" using "2.prems"(1) by (force simp: overlapsAny_def list_ex_iff)
    then consider "e \<le> fst sep" | "snd sep \<le> b" by linarith
    then show ?thesis
    proof cases
      case 1
      then obtain x y where "go_slice start (fst sep) tag = x @ go_slice b e tag @ y" using slice_in_slice [of start b e] "2.prems" by blast
      then show ?thesis using trim_keeps "2.prems" False by simp
    next
      case 2
      then show ?thesis using "2.IH"(2) "2.prems" False by auto
    qed
  qed
qed

lemma alt_match_Some: "alt_match rx s = Some n \<Longrightarrow> \<exists>p \<in> set rx. n = length p \<and> n \<le> length s \<and> equal_fold (take n s) p"
proof -
  assume "alt_match rx s = Some n"
  then obtain p where p: "find (\<lambda>p. equal_fold (take (length p) s) p) rx = Some p" "n = length p" by (auto simp: alt_match_def)
  then have "p \<in> set rx \<and> equal_fold (take (length p) s) p" using find_Some_elem by fastforce
  then show ?thesis using p(2) equal_fold_length [of "take n s" p] by auto
qed

lemma find_all_spans:
  "(b, e) \<in> set (find_all rx i s) \<Longrightarrow> i \<le> b \<and> b \<le> e \<and> e \<le> i + length s \<and> (\<exists>p \<in> set rx. equal_fold (go_slice (b - i) (e - i) s) p)"
proof (induction rx i s rule: find_all.induct)
  case (2 rx i c cs)
  show ?case
  proof (cases "alt_match rx (c # cs)")
    case None
    then have "(b, e) \<in> set (find_all rx (i + 1) cs)" using "2.prems" by simp
    then have IH: "i + 1 \<le> b" "b \<le> e" "e \<le> i + 1 + length cs" "\<exists>p \<in> set rx. equal_fold (go_slice (b - (i + 1)) (e - (i + 1)) cs) p"
      using "2.IH"(1) [OF None] by auto
    then have "go_slice (b - i) (e - i) (c # cs) = go_slice (b - (i + 1)) (e - (i + 1)) cs"
      by (simp add: go_slice_def drop_Cons' Suc_diff_le)
    then show ?thesis using IH by simp
  next
    case (Some n)
    obtain p where p: "p \<in> set rx" "n = length p" "n \<le> length (c # cs)" "equal_fold (take n (c # cs)) p" using alt_match_Some [OF Some] by blast
    show ?thesis
    proof (cases "(b, e) = (i, i + n)")
      case True
      then show ?thesis using p by (auto simp: go_slice_def)
    next
      case False
      then have "(b, e) \<in> set (find_all rx (i + max n 1) (drop (n - 1) cs))" using "2.prems" Some by auto
      then have IH: "i + max n 1 \<le> b" "b \<le> e" "e \<le> i + max n 1 + length (drop (n - 1) cs)"
        "\<exists>p \<in> set rx. equal_fold (go_slice (b - (i + max n 1)) (e - (i + max n 1)) (drop (n - 1) cs)) p"
        using "2.IH"(2) [OF Some] by auto
      have d: "drop (n - 1) cs = drop (max n 1) (c # cs)" by (cases n) simp_all
      have "go_slice (b - i) (e - i) (c # cs) = go_slice (b - (i + max n 1)) (e - (i + max n 1)) (drop (n - 1) cs)"
        unfolding d go_slice_def using IH(1,2) by simp
      moreover have "e \<le> i + length (c # cs)" using IH(3) p(3) by (cases n) auto
      ultimately show ?thesis using IH by auto
    qed
  qed
qed simp

lemma compileExceptions_names:
  assumes "compileExceptionsRegex names = Some r"
  shows "sorted (map (\<lambda>e. (- int (length e), map byte e)) r)" and "set r = {trim_space n |n. n \<in> set names \<and> trim_space n \<noteq> []}"
  using assms by (auto simp: compileExceptionsRegex_def compile_literals_def Let_def split: if_splits)

lemma protected_kept:
  assumes "rx = compileExceptionsRegex names" and "(b, e) \<in> set (protectedSpans env tag rx)"
  shows "b \<le> e \<and> e \<le> length tag \<and> go_slice b e tag \<noteq> [] \<and> \<not> is_space (hd (go_slice b e tag)) \<and> \<not> is_space (last (go_slice b e tag)) \<and>
    (\<exists>n \<in> set names. equal_fold (go_slice b e tag) (trim_space n))"
proof -
  obtain r where r: "compileExceptionsRegex names = Some r" and m: "(b, e) \<in> set (find_all r 0 tag)"
    using assms by (cases "compileExceptionsRegex names") (auto simp: protectedSpans_def)
  obtain p where p: "p \<in> set r" "equal_fold (go_slice b e tag) p" "b \<le> e" "e \<le> length tag" using find_all_spans [OF m] by auto
  obtain n where n: "n \<in> set names" "p = trim_space n" "p \<noteq> []" using compileExceptions_names(2) [OF r] p(1) by auto
  then show ?thesis using equal_fold_ends [OF p(2)] trim_space_ends p by blast
qed

text \<open>A whole name is matched whole, as longer names come first.\<close>

lemma find_sorted_first:
  assumes "sorted (map k xs)" and "find P xs = Some x" and "y \<in> set xs" and "P y" shows "k x \<le> k y"
  using assms by (induction xs) (auto split: if_splits)

lemma exact_name_match:
  assumes "compileExceptionsRegex names = Some r" and "n \<in> set names" and "equal_fold tag (trim_space n)" and "tag \<noteq> []"
  shows "find_all r 0 tag = [(0, length tag)]"
proof -
  let ?P = "\<lambda>p. equal_fold (take (length p) tag) p"
  have "trim_space n \<noteq> []" using equal_fold_length [OF assms(3)] assms(4) by auto
  then have n: "trim_space n \<in> set r" "?P (trim_space n)"
    using compileExceptions_names(2) [OF assms(1)] assms(2,3) equal_fold_length [OF assms(3)] by auto
  then obtain p where p: "find ?P r = Some p" using find_None_all by (metis (mono_tags, lifting) not_Some_eq)
  then have "?P p" using find_Some_elem by fastforce
  then have "length p \<le> length tag" using equal_fold_length by fastforce
  moreover have "(- int (length p), map byte p) \<le> (- int (length (trim_space n)), map byte (trim_space n))"
    using find_sorted_first [OF compileExceptions_names(1) [OF assms(1)] p n] .
  then have "length (trim_space n) \<le> length p" by (auto simp: less_eq_prod_def)
  ultimately have "alt_match r tag = Some (length tag)" using p equal_fold_length [OF assms(3)] by (simp add: alt_match_def)
  then show ?thesis using assms(4) by (cases tag) simp_all
qed

lemma split_loop_all_guarded: "list_all (\<lambda>sep. overlapsAny sep guarded) seps \<Longrightarrow> split_loop tag guarded start seps = [trim_space (drop start tag)]"
  by (induction seps) simp_all

lemma find_all_nonempty: "[] \<notin> set rx \<Longrightarrow> (b, e) \<in> set (find_all rx i s) \<Longrightarrow> b < e"
proof (induction rx i s rule: find_all.induct)
  case (2 rx i c cs)
  then show ?case by (auto split: option.splits dest!: alt_match_Some)
qed simp

lemma splitValue_exact:
  assumes "tc_ExceptionsRx c = compileExceptionsRegex names" and "compileExceptionsRegex names \<noteq> None" and "\<not> is_word_rune env rune_error"
    and "[] \<notin> set rx" and "n \<in> set names" and "equal_fold tag (trim_space n)" and "tag \<noteq> []"
  shows "splitValue env c rx tag = [tag]"
proof -
  obtain r where r: "compileExceptionsRegex names = Some r" using assms(2) by auto
  have g: "protectedSpans env tag (tc_ExceptionsRx c) = [(0, length tag)]"
    using exact_name_match [OF r assms(5-7)] assms(1,3) r by (simp add: protectedSpans_def isWordBounded_def decode_last_rune_def decode_rune_def)
  have "list_all (\<lambda>sep. overlapsAny sep [(0, length tag)]) (find_all rx 0 tag)"
    using find_all_spans [of _ _ rx 0 tag] find_all_nonempty [OF assms(4), of _ _ 0 tag]
    by (fastforce simp: list_all_iff overlapsAny_def)
  then have "splitValue env c rx tag = [trim_space tag]" by (simp add: splitValue_def g split_loop_all_guarded)
  moreover have "trim_space tag = tag"
  proof -
    have t: "trim_space n \<noteq> []" using equal_fold_length [OF assms(6)] assms(7) by auto
    have e: "\<not> is_space (hd tag)" "\<not> is_space (last tag)" using equal_fold_ends [OF assms(6) t] trim_space_ends [OF t] by auto
    then have "dropWhile is_space tag = tag" using assms(7) by (cases tag) simp_all
    moreover have "dropWhile is_space (rev tag) = rev tag" using e assms(7) by (cases tag rule: rev_cases) simp_all
    ultimately show ?thesis by (simp add: trim_space_def)
  qed
  ultimately show ?thesis by simp
qed


definition ex_conf :: "string list \<Rightarrow> string \<Rightarrow> int \<Rightarrow> TagConf" where
  "ex_conf names typ len =
     \<lparr>tc_Aliases = names, tc_Type = typ, tc_MaxLength = len, tc_Split = None, tc_Album = False, tc_SplitRx = None, tc_ExceptionsRx = None\<rparr>"

definition ex_tag_env :: "(string \<times> TagConf) list \<Rightarrow> tag_env" where
  "ex_tag_env mappings =
     \<lparr>is_word_rune = (\<lambda>r. 97 \<le> r \<and> r \<le> 122), parse_number = (\<lambda>_. None), uuid_parse = (\<lambda>_. None), range_keys = (\<lambda>_. []),
      te_exceptions = [''AC/DC''], te_main = mappings, te_additional = [], te_roles = ex_conf [] [] 0, te_artists = ex_conf [] [] 0\<rparr>"


section \<open>Values that are cut\<close>



section \<open>Types of values\<close>

definition date_ok :: "string \<Rightarrow> bool" where
  "date_ok v \<longleftrightarrow> (length v = 4 \<and> list_all is_digit v) \<or> month_layout v \<or> day_layout v"

definition value_ok :: "tag_env \<Rightarrow> TagConf \<Rightarrow> string \<Rightarrow> bool" where
  "value_ok env tag v \<longleftrightarrow>
     v \<noteq> [] \<and>
     (tc_Type tag \<noteq> ''uuid'' \<longrightarrow> int (length v) \<le> max_length tag) \<and>
     (tc_Type tag = ''date'' \<longrightarrow> date_ok v \<and> Date_Year v \<noteq> None) \<and>
     (tc_Type tag = ''int'' \<longrightarrow> atoi v \<noteq> None) \<and>
     (tc_Type tag = ''float'' \<longrightarrow> parse_number env v \<noteq> None) \<and>
     (tc_Type tag = ''uuid'' \<longrightarrow> (\<exists>u. uuid_parse env u = Some v))"

lemma find_year_ok: "find_year v = Some y \<Longrightarrow> length y = 4 \<and> list_all is_digit y \<and> 4 \<le> length v"
proof (induction v)
  case (Cons c v)
  have "is_digit (CHR ''1'')" "is_digit (CHR ''2'')" by code_simp+
  then show ?case using Cons by (auto split: if_splits)
qed simp

lemma date_ok_length: "date_ok v \<Longrightarrow> 4 \<le> length v"
  by (auto simp: date_ok_def month_layout_def day_layout_def)

lemma parseDate_ok: "parseDate v \<noteq> [] \<Longrightarrow> date_ok (parseDate v) \<and> length (parseDate v) \<le> length v"
  using find_year_ok [of v] by (auto simp: parseDate_def Let_def date_ok_def split: option.splits if_splits)

lemma Date_Year_ok: "date_ok v \<Longrightarrow> Date_Year v \<noteq> None"
  using date_ok_length [of v] by (simp add: Date_Year_def)

lemma truncate_value_length:
  assumes "truncate_value tag v = Some w" shows "int (length w) \<le> max_length tag"
proof (cases "int (length v) > max_length tag")
  case True
  then have "w = drop_partial 3 (take (nat (max_length tag)) v)" "0 \<le> max_length tag" using assms by (auto simp: truncate_value_def split: if_splits)
  then show ?thesis using prefix_length_le [OF drop_partial_prefix [of 3 "take (nat (max_length tag)) v"]] by (simp add: min_def split: if_splits)
qed (use assms in \<open>simp add: truncate_value_def\<close>)

lemma sanitize_ok:
  assumes "sanitize env tag v = Some w" and "w \<noteq> []" shows "value_ok env tag w"
proof -
  obtain t where t: "truncate_value tag v = Some t" using assms(1) by (auto simp: sanitize_def split: option.splits)
  have len: "int (length t) \<le> max_length tag" using truncate_value_length [OF t] .
  consider "tc_Type tag = ''date''" | "tc_Type tag = ''int''" | "tc_Type tag = ''float''" | "tc_Type tag = ''uuid''"
    | "tc_Type tag \<notin> {''date'', ''int'', ''float'', ''uuid''}" by blast
  then show ?thesis
  proof cases
    case 1
    then have "w = parseDate t" using assms(1) t by (simp add: sanitize_def)
    then show ?thesis using parseDate_ok [of t] Date_Year_ok len assms(2) 1 by (auto simp: value_ok_def)
  next
    case 4
    then show ?thesis using assms t by (auto simp: sanitize_def value_ok_def split: option.splits)
  qed (use assms t len in \<open>auto simp: sanitize_def value_ok_def split: if_splits\<close>)
qed

lemma sanitize_values_ok: "sanitize_values env tag vs = Some ws \<Longrightarrow> w \<in> set ws \<Longrightarrow> value_ok env tag w"
proof (induction vs arbitrary: ws)
  case (Cons v vs)
  then obtain u us where "sanitize env tag v = Some u" "sanitize_values env tag vs = Some us" "ws = (if u \<noteq> [] then u # us else us)"
    by (auto split: option.splits)
  then show ?case using Cons sanitize_ok by (auto split: if_splits)
qed simp

lemma sanitize_values_returns: "0 \<le> tc_MaxLength tag \<Longrightarrow> sanitize_values env tag vs \<noteq> None"
  by (induction vs) (auto simp: sanitize_def truncate_value_def max_length_def)

lemma clean_tags_eq:
  "clean_tags env raw = sanitizeAll env (filterEmptyTags
     (\<lambda>k. case map_of (TagMappings env) k of None \<Rightarrow> None | Some c \<Rightarrow> Some (mapping_values env k c (lowerTags raw))))"
  by (simp add: clean_tags_def)

lemma clean_tags_returns:
  assumes "\<forall>(k, tag) \<in> set (TagMappings env). 0 \<le> tc_MaxLength tag" shows "clean_tags env raw \<noteq> None"
proof -
  have "(case (u k, map_of (TagMappings env) k) of (Some vs, Some tag) \<Rightarrow> sanitize_values env tag vs | _ \<Rightarrow> Some []) \<noteq> None" for u :: tags and k
    using assms sanitize_values_returns by (fastforce split: option.splits dest: map_of_SomeD)
  then show ?thesis unfolding clean_tags_eq sanitizeAll_def Let_def by (simp add: list_all_iff split_beta)
qed

lemma clean_tags_kept:
  assumes "clean_tags env raw = Some t" and "t k = Some vs"
  shows "\<exists>tag. map_of (TagMappings env) k = Some tag \<and> vs \<noteq> [] \<and> (\<forall>v \<in> set vs. value_ok env tag v)"
  using assms sanitize_values_ok unfolding clean_tags_eq sanitizeAll_def Let_def
  by (auto split: if_splits option.splits)

text \<open>
  The cleaning of the tags of a file returns, for every file, as long as no limit is negative; every tag it keeps is in
  the mappings and has values, and every value is not empty, within the limit of its tag and of its type. Dates are a year, a month or a day of the
  calendar, so reading the year of one never goes past its end.
\<close>

lemma clean_tags_wf:
  assumes "\<forall>(k, tag) \<in> set (TagMappings env). 0 \<le> tc_MaxLength tag"
  shows "\<exists>t. clean_tags env raw = Some t \<and>
    (\<forall>k vs. t k = Some vs \<longrightarrow> (\<exists>tag. map_of (TagMappings env) k = Some tag \<and> vs \<noteq> [] \<and> (\<forall>v \<in> set vs. value_ok env tag v)))"
proof -
  obtain t where t: "clean_tags env raw = Some t" using clean_tags_returns [OF assms] by auto
  then show ?thesis using clean_tags_kept [OF t] by blast
qed

lemma clean_tags_wf_witness:
  "\<exists>t. clean_tags (ex_tag_env [(''releasedate'', ex_conf [''date''] ''date'' 0)]) [(''DATE'', [''2001-02-30''])] = Some t \<and>
    (\<forall>k vs. t k = Some vs \<longrightarrow> (\<exists>tag. map_of (TagMappings (ex_tag_env [(''releasedate'', ex_conf [''date''] ''date'' 0)])) k = Some tag \<and> vs \<noteq> [] \<and>
      (\<forall>v \<in> set vs. value_ok (ex_tag_env [(''releasedate'', ex_conf [''date''] ''date'' 0)]) tag v)))"
  by (rule clean_tags_wf) (simp add: TagMappings_def ex_tag_env_def ex_conf_def)

section \<open>Further facts\<close>

text \<open>Repeated values are removed before values are cut and dates shortened, which can make values equal.\<close>

lemma clean_tags_repeats:
  "map_option (\<lambda>t. t ''date'') (clean_tags (ex_tag_env [(''date'', ex_conf [''date''] ''date'' 0)]) [(''DATE'', [''2001-02-03T10'', ''2001-02-03T11''])]) =
     Some (Some [''2001-02-03'', ''2001-02-03''])"
  by code_simp

text \<open>Of two names that differ only in case, the one that is ranged over last is kept.\<close>

lemma lowerTags_overwrites:
  "lowerTags [(''Genre'', a), (''GENRE'', b)] ''genre'' = Some b" "lowerTags [(''GENRE'', b), (''Genre'', a)] ''genre'' = Some a"
proof -
  have "go_lower ''Genre'' = ''genre''" "go_lower ''GENRE'' = ''genre''" by code_simp+
  then show "lowerTags [(''Genre'', a), (''GENRE'', b)] ''genre'' = Some b" "lowerTags [(''GENRE'', b), (''Genre'', a)] ''genre'' = Some a"
    by (simp_all add: lowerTags_def)
qed

text \<open>A date tag whose type was changed in the configuration can hold a value whose year cannot be read.\<close>

lemma Date_Year_short:
  "map_option (\<lambda>t. Date_Year (first_value t ''releasedate'')) (clean_tags (ex_tag_env [(''releasedate'', ex_conf [''date''] ''string'' 0)]) [(''DATE'', [''99''])]) =
     Some None"
  by code_simp

lemma tagNumber_bounds: "0 \<le> tagNumber s \<and> tagNumber s < 2 ^ 31"
  by (simp add: tagNumber_def split: option.splits)

lemma tuple_bounds: "0 \<le> fst (tuple t key) \<and> fst (tuple t key) < 2 ^ 31 \<and> 0 \<le> snd (tuple t key) \<and> snd (tuple t key) < 2 ^ 31"
  using tagNumber_bounds by (simp add: tuple_def Let_def)

lemma has_prefix_append: "has_prefix (p @ s) p"
  by (induction p) simp_all

lemma str_cut_pair: "str_cut zwsp k = None \<Longrightarrow> str_cut zwsp (k @ zwsp @ v) = Some (k, v)"
proof (induction k)
  case Nil
  then show ?case by (simp add: zwsp_def)
next
  case (Cons c k)
  have none: "str_cut zwsp k = None" "\<not> has_prefix (c # k) zwsp" using Cons.prems by (auto split: if_splits)
  have "\<not> has_prefix (c # k @ zwsp @ v) zwsp"
  proof -
    consider "k = []" | d where "k = [d]" | d e k' where "k = d # e # k'" by (metis list.exhaust)
    then show ?thesis using none(2) by cases (simp_all add: zwsp_def)
  qed
  then show ?case using Cons.IH [OF none(1)] by simp
qed

lemma Pair_roundtrip: "str_cut zwsp k = None \<Longrightarrow> Pair_Key (NewPair k v) = k \<and> Pair_Value (NewPair k v) = v"
  using str_cut_pair [of k v] by (simp add: Pair_Key_def Pair_Value_def NewPair_def)

end
