(* ===== verification/Tag_Config.thy ===== *)
theory Tag_Config
  imports Tag_Values "HOL-Library.AList"
begin

text \<open>
  How the mappings of tags are put together from the built-in file and the configuration (\<open>loadTagMappings\<close> and
  \<open>parseMappings\<close> of \<open>model/tag_mappings.go\<close>).
\<close>

section \<open>Definitions\<close>

text \<open>\<open>conf.TagConf\<close>: what the configuration says of a tag.\<close>

record TagOverride =
  ov_Ignore :: bool
  ov_Aliases :: "string list"
  ov_Type :: string
  ov_MaxLength :: int
  ov_Split :: "string list option"
  ov_Album :: bool

record mappingsConf =
  mc_Main :: "(string \<times> TagConf) list"
  mc_Additional :: "(string \<times> TagConf) list"
  mc_Roles :: TagConf
  mc_Artists :: TagConf

definition zero_TagConf :: TagConf where
  "zero_TagConf = \<lparr>tc_Aliases = [], tc_Type = [], tc_MaxLength = 0, tc_Split = None, tc_Album = False, tc_SplitRx = None, tc_ExceptionsRx = None\<rparr>"

definition conf_of :: "TagConf option \<Rightarrow> TagConf" where
  "conf_of c = (case c of None \<Rightarrow> zero_TagConf | Some c \<Rightarrow> c)"

text \<open>\<open>strings.Split(s, "")\<close>: the characters of a text, a byte that belongs to none being one of its own.\<close>

lemma decode_rune_pos: "s \<noteq> [] \<Longrightarrow> 0 < snd (decode_rune s)"
  using encoded_length [of "take (rune_len (byte (hd s))) s"] by (auto simp: decode_rune_def Let_def)

function explode_runes :: "string \<Rightarrow> string list" where
  "explode_runes s = (if s = [] then [] else take (snd (decode_rune s)) s # explode_runes (drop (snd (decode_rune s)) s))"
  by pat_completeness auto
termination by (relation "measure length") (auto simp: decode_rune_pos)

declare explode_runes.simps [simp del]

definition genre_separators :: "string \<Rightarrow> (string \<times> TagOverride) list \<Rightarrow> mappingsConf \<Rightarrow> mappingsConf" where
  "genre_separators seps overrides m =
     (if seps \<noteq> [] \<and> (case map_of overrides ''genre'' of None \<Rightarrow> True | Some o1 \<Rightarrow> ov_Aliases o1 = []) then
        let g = conf_of (map_of (mc_Main m) ''genre'');
            g1 = g\<lparr>tc_Split := Some (explode_runes seps), tc_SplitRx := compileSplitRegex (explode_runes seps)\<rparr>
        in m\<lparr>mc_Main := AList.update ''genre'' g1 (mc_Main m)\<rparr>
      else m)"

definition overridden :: "TagOverride \<Rightarrow> TagConf \<Rightarrow> TagConf" where
  "overridden cfg oldValue =
     (let split = (if ov_Split cfg = None then tc_Split oldValue else ov_Split cfg)
      in \<lparr>tc_Aliases = (if ov_Aliases cfg = [] then tc_Aliases oldValue else ov_Aliases cfg),
          tc_Type = (if ov_Type cfg \<noteq> [] then ov_Type cfg else tc_Type oldValue),
          tc_MaxLength = (if ov_MaxLength cfg \<noteq> 0 then ov_MaxLength cfg else tc_MaxLength oldValue),
          tc_Split = split,
          tc_Album = (ov_Album cfg \<or> tc_Album oldValue),
          tc_SplitRx = compileSplitRegex (case split of None \<Rightarrow> [] | Some s \<Rightarrow> s),
          tc_ExceptionsRx = None\<rparr>)"

definition override_tag :: "mappingsConf \<Rightarrow> string \<times> TagOverride \<Rightarrow> mappingsConf" where
  "override_tag m e =
     (case e of (tag, cfg) \<Rightarrow>
        if ov_Ignore cfg then m\<lparr>mc_Main := AList.delete tag (mc_Main m), mc_Additional := AList.delete tag (mc_Additional m)\<rparr>
        else case map_of (mc_Main m) tag of
               Some oldValue \<Rightarrow> m\<lparr>mc_Main := AList.update tag (overridden cfg oldValue) (mc_Main m)\<rparr>
             | None \<Rightarrow>
                 m\<lparr>mc_Additional := AList.update tag (overridden cfg (conf_of (map_of (mc_Additional m) tag))) (mc_Additional m)\<rparr>)"

definition loadTagMappings :: "string \<Rightarrow> (string \<times> TagOverride) list \<Rightarrow> mappingsConf \<Rightarrow> mappingsConf" where
  "loadTagMappings genreSeparators overrides builtin = foldl override_tag (genre_separators genreSeparators overrides builtin) overrides"

definition with_split :: "TagConf \<Rightarrow> TagConf" where
  "with_split c = c\<lparr>tc_SplitRx := compileSplitRegex (case tc_Split c of None \<Rightarrow> [] | Some s \<Rightarrow> s)\<rparr>"

definition parseMappings :: "mappingsConf \<Rightarrow> mappingsConf" where
  "parseMappings m =
     m\<lparr>mc_Main := collectTags (mc_Main m), mc_Additional := collectTags (mc_Additional m),
       mc_Roles := with_split (mc_Roles m), mc_Artists := with_split (mc_Artists m)\<rparr>"

text \<open>The mappings that the cleaning of tags works with.\<close>

definition configure :: "tag_env \<Rightarrow> mappingsConf \<Rightarrow> tag_env" where
  "configure env m =
     env\<lparr>te_main := mc_Main (parseMappings m), te_additional := mc_Additional (parseMappings m),
         te_roles := mc_Roles (parseMappings m), te_artists := mc_Artists (parseMappings m)\<rparr>"

section \<open>Effect of the configuration\<close>

definition mapping_of :: "mappingsConf \<Rightarrow> string \<Rightarrow> TagConf option" where
  "mapping_of m tag = (case map_of (mc_Main m) tag of Some c \<Rightarrow> Some c | None \<Rightarrow> map_of (mc_Additional m) tag)"

lemma override_tag_other: "tag \<noteq> fst e \<Longrightarrow> mapping_of (override_tag m e) tag = mapping_of m tag"
  by (auto simp: override_tag_def mapping_of_def update_conv' delete_conv' split: prod.splits option.splits)

lemma override_tag_own:
  "mapping_of (override_tag m (tag, cfg)) tag = (if ov_Ignore cfg then None else Some (overridden cfg (conf_of (mapping_of m tag))))"
  by (auto simp: override_tag_def mapping_of_def update_conv' delete_conv' conf_of_def split: option.splits)

text \<open>
  The configuration of one tag does not touch another, whatever the order in which the tags are ranged over; a tag that is ignored is gone, and
  what is not given for a tag keeps its built-in value.
\<close>

lemma override_tags_mapping:
  "distinct (map fst overrides) \<Longrightarrow>
   mapping_of (foldl override_tag m overrides) tag =
     (case map_of overrides tag of
        None \<Rightarrow> mapping_of m tag
      | Some cfg \<Rightarrow> if ov_Ignore cfg then None else Some (overridden cfg (conf_of (mapping_of m tag))))"
proof (induction overrides arbitrary: m)
  case (Cons e overrides)
  obtain k cfg where e: "e = (k, cfg)" by fastforce
  show ?case
  proof (cases "tag = k")
    case True
    then have "map_of overrides tag = None" using Cons.prems e by (simp add: map_of_eq_None_iff)
    then show ?thesis using Cons e True override_tag_own by simp
  next
    case False
    then show ?thesis using Cons e override_tag_other [of tag "(k, cfg)" m] by (simp split: option.split)
  qed
qed simp

text \<open>
  Values of a tag that is not text are said not to be split. The compiled separators of a configured tag are kept all the same, and
  its values are split.
\<close>

lemma typed_tag_still_split:
  "SplitTagValue env (snd (hd (collectTags [(''bpm'',
       overridden \<lparr>ov_Ignore = False, ov_Aliases = [], ov_Type = ''int'', ov_MaxLength = 0, ov_Split = Some [''/''], ov_Album = False\<rparr> zero_TagConf)]))) [''1/2''] = [''1'', ''2'']"
proof -
  have "compileSplitRegex [''/''] = Some [''/'']" "find_all [''/''] 0 ''1/2'' = [(1, 2)]" "trim_space ''1'' = ''1''" "trim_space ''2'' = ''2''" by code_simp+
  then show ?thesis
    by (simp add: overridden_def zero_TagConf_def SplitTagValue_def splitValue_def protectedSpans_def overlapsAny_def go_slice_def Let_def)
qed

end
