(* ===== verification/Persistent_Ids.thy ===== *)
theory Persistent_Ids
  imports Tag_Values Go_Path
begin

text \<open>
  Persistent ids of tracks, albums and artists (\<open>model/metadata/persistent_ids.go\<close>, \<open>model/metadata/legacy_ids.go\<close>), computed from
  a specification that lists the attributes to use, the check of such a specification, and the specifications in effect
  for a library (\<open>model/library.go\<close>). The digest is a parameter.
\<close>

section \<open>Definitions\<close>

record pid_env =
  pe_md5 :: "string \<Rightarrow> 8 word list"
  pe_GroupAlbumReleases :: bool

text \<open>The fields of a track that an id is computed from.\<close>

record pid_file =
  pf_LibraryID :: int
  pf_Path :: string
  pf_AlbumArtist :: string
  pf_Title :: string

definition backslash :: char where "backslash = CHR 0x5C"

definition pid_hash :: "pid_env \<Rightarrow> string \<Rightarrow> string" where
  "pid_hash env s = NewHash (pe_md5 env) [s]"

definition DefaultLibraryID :: int where "DefaultLibraryID = 1"

definition UnknownArtist :: string where "UnknownArtist = ''[Unknown Artist]''"
definition UnknownAlbum :: string where "UnknownAlbum = ''[Unknown Album]''"
definition VariousArtists :: string where "VariousArtists = ''Various Artists''"
definition VariousArtistsMbzId :: string where "VariousArtistsMbzId = ''89ad4ac3-39f7-470e-963a-56509c546377''"

definition with_library :: "pid_file \<Rightarrow> string \<Rightarrow> string" where
  "with_library mf s = itoa (pf_LibraryID mf) @ [backslash] @ s"

definition legacyTrackID :: "pid_env \<Rightarrow> pid_file \<Rightarrow> bool \<Rightarrow> string" where
  "legacyTrackID env mf prependLibId =
     (let key = pf_Path mf
      in Encode (pe_md5 env (if prependLibId \<and> pf_LibraryID mf \<noteq> DefaultLibraryID then with_library mf key else key)))"

definition legacyMapAlbumArtistName :: "tags \<Rightarrow> string" where
  "legacyMapAlbumArtistName t =
     or_text [first_value t ''albumartist'', if md_Bool t ''compilation'' then VariousArtists else [], first_value t ''artist'', UnknownArtist]"

definition mapAlbumName :: "tags \<Rightarrow> string" where
  "mapAlbumName t = or_text [first_value t ''album'', UnknownAlbum]"

definition legacyMapAlbumName :: "tags \<Rightarrow> string" where
  "legacyMapAlbumName t = or_text [first_value t ''album'', UnknownAlbum]"

definition legacyAlbumID :: "pid_env \<Rightarrow> pid_file \<Rightarrow> tags \<Rightarrow> bool \<Rightarrow> string" where
  "legacyAlbumID env mf t prependLibId =
     (let releaseDate = snd (snd (mapDates t));
          albumPath = go_lower (legacyMapAlbumArtistName t @ [backslash] @ legacyMapAlbumName t);
          dated = (if \<not> pe_GroupAlbumReleases env \<and> releaseDate \<noteq> [] then albumPath @ [backslash] @ releaseDate else albumPath)
      in Encode (pe_md5 env (if prependLibId \<and> pf_LibraryID mf \<noteq> DefaultLibraryID then with_library mf dated else dated)))"

text \<open>
  The value of an attribute. The value of \<open>albumid\<close> is an argument: the id the album specification gives, and nothing where
  the specification is the album's own.
\<close>

definition pid_attr :: "string \<Rightarrow> string" where
  "pid_attr attr = trim_space (go_lower attr)"

definition getPIDAttr :: "pid_env \<Rightarrow> pid_file \<Rightarrow> tags \<Rightarrow> string \<Rightarrow> string \<Rightarrow> string" where
  "getPIDAttr env mf t albumID attr0 =
     (let attr = pid_attr attr0
      in if attr = ''albumid'' then albumID
         else if attr = ''folder'' then path_dir (pf_Path mf)
         else if attr = ''albumartistid'' then pid_hash env (Clear (go_lower (pf_AlbumArtist mf)))
         else if attr = ''title'' then pf_Title mf
         else if attr = ''album'' then Clear (go_lower (first_value t ''album''))
         else first_value t attr)"

definition field_values :: "(string \<Rightarrow> string) \<Rightarrow> string \<Rightarrow> string list" where
  "field_values getAttr field = map getAttr (split_on (CHR '','') field)"

fun first_field :: "(string \<Rightarrow> string) \<Rightarrow> string list \<Rightarrow> string" where
  "first_field getAttr [] = []"
| "first_field getAttr (field # rest) =
     (let vs = field_values getAttr field
      in if list_ex (\<lambda>v. v \<noteq> []) vs then join [backslash] vs else first_field getAttr rest)"

function computePID :: "pid_env \<Rightarrow> pid_file \<Rightarrow> tags \<Rightarrow> string \<Rightarrow> string \<Rightarrow> bool \<Rightarrow> string" where
  "computePID env mf t spec albumSpec prependLibId =
     (if spec = ''track_legacy'' then legacyTrackID env mf prependLibId
      else if spec = ''album_legacy'' then legacyAlbumID env mf t prependLibId
      else let albumID = (if spec = albumSpec then [] else computePID env mf t albumSpec albumSpec prependLibId);
               pid = first_field (getPIDAttr env mf t albumID) (split_on (CHR ''|'') spec)
           in pid_hash env (if prependLibId then with_library mf pid else pid))"
  by pat_completeness auto
termination by (relation "measure (\<lambda>(_, _, _, spec, albumSpec, _). if spec = albumSpec then 0 else 1)") auto

declare computePID.simps [simp del]

definition trackPID :: "pid_env \<Rightarrow> pid_file \<Rightarrow> tags \<Rightarrow> string \<Rightarrow> string \<Rightarrow> string" where
  "trackPID env mf t trackSpec albumSpec = computePID env mf t trackSpec albumSpec True"

definition md_albumID :: "pid_env \<Rightarrow> pid_file \<Rightarrow> tags \<Rightarrow> string \<Rightarrow> string" where
  "md_albumID env mf t pidConf = computePID env mf t pidConf pidConf True"

definition artistID :: "pid_env \<Rightarrow> tags \<Rightarrow> string \<Rightarrow> string" where
  "artistID env t name =
     computePID env \<lparr>pf_LibraryID = 0, pf_Path = [], pf_AlbumArtist = name, pf_Title = []\<rparr> t ''albumartistid'' [] False"

definition mapTrackTitle :: "tags \<Rightarrow> string \<Rightarrow> string" where
  "mapTrackTitle t filePath =
     (if first_value t ''title'' \<noteq> [] then first_value t ''title''
      else trim_suffix (path_base filePath) (path_ext (path_base filePath)))"

datatype pid_error = EmptyAttribute | AlbumIDInAlbum | UnknownAttribute string | UseTagName string string

definition check_attr :: "tag_env \<Rightarrow> bool \<Rightarrow> string \<Rightarrow> pid_error option" where
  "check_attr tenv isAlbum attr0 =
     (let attr = pid_attr attr0
      in if attr = [] then Some EmptyAttribute
         else if attr = ''albumid'' then (if isAlbum then Some AlbumIDInAlbum else None)
         else if attr = ''folder'' \<or> attr = ''albumartistid'' then None
         else case CanonicalTagName tenv attr of
                None \<Rightarrow> Some (UnknownAttribute attr)
              | Some name \<Rightarrow> if isAlbum \<and> name \<noteq> attr then Some (UseTagName name attr) else None)"

definition pid_attributes :: "string \<Rightarrow> string list" where
  "pid_attributes spec = concat (map (split_on (CHR '','')) (split_on (CHR ''|'') spec))"

definition ValidatePIDSpec :: "tag_env \<Rightarrow> string \<Rightarrow> bool \<Rightarrow> pid_error option" where
  "ValidatePIDSpec tenv spec isAlbum =
     (if spec = [] \<or> (isAlbum \<and> spec = ''album_legacy'') \<or> (\<not> isAlbum \<and> spec = ''track_legacy'') then None
      else case List.map_filter (check_attr tenv isAlbum) (pid_attributes spec) of [] \<Rightarrow> None | e # _ \<Rightarrow> Some e)"

record PIDConfig =
  pc_Track :: string
  pc_Album :: string

record pid_library =
  pl_PIDTrack :: string
  pl_PIDAlbum :: string
  pl_ScannedPIDTrack :: string
  pl_ScannedPIDAlbum :: string
  pl_Scanned :: bool

definition EffectivePID :: "PIDConfig \<Rightarrow> pid_library \<Rightarrow> PIDConfig" where
  "EffectivePID conf l = \<lparr>pc_Track = or_text [pl_PIDTrack l, pc_Track conf], pc_Album = or_text [pl_PIDAlbum l, pc_Album conf]\<rparr>"

definition PIDChanged :: "PIDConfig \<Rightarrow> pid_library \<Rightarrow> bool" where
  "PIDChanged conf l \<longleftrightarrow>
     (let pid = EffectivePID conf l
      in \<not> equal_fold (pl_ScannedPIDAlbum l) (pc_Album pid) \<or> \<not> equal_fold (pl_ScannedPIDTrack l) (pc_Track pid))"

definition NeedsPIDRescan :: "PIDConfig \<Rightarrow> pid_library \<Rightarrow> bool" where
  "NeedsPIDRescan conf l \<longleftrightarrow> pl_Scanned l \<and> PIDChanged conf l"

section \<open>The text an id is computed from\<close>

definition legacy_spec :: "string \<Rightarrow> bool" where
  "legacy_spec spec \<longleftrightarrow> spec = ''track_legacy'' \<or> spec = ''album_legacy''"

definition album_value :: "pid_env \<Rightarrow> pid_file \<Rightarrow> tags \<Rightarrow> string \<Rightarrow> string \<Rightarrow> string" where
  "album_value env mf t spec albumSpec = (if spec = albumSpec then [] else computePID env mf t albumSpec albumSpec True)"

text \<open>The field that decides: the first of the specification one of whose attributes has a value.\<close>

definition deciding_field :: "pid_env \<Rightarrow> pid_file \<Rightarrow> tags \<Rightarrow> string \<Rightarrow> string \<Rightarrow> string option" where
  "deciding_field env mf t spec albumSpec =
     find (\<lambda>f. \<exists>v \<in> set (field_values (getPIDAttr env mf t (album_value env mf t spec albumSpec)) f). v \<noteq> []) (split_on (CHR ''|'') spec)"

definition deciding_values :: "pid_env \<Rightarrow> pid_file \<Rightarrow> tags \<Rightarrow> string \<Rightarrow> string \<Rightarrow> string list" where
  "deciding_values env mf t spec albumSpec =
     (case deciding_field env mf t spec albumSpec of
        None \<Rightarrow> []
      | Some f \<Rightarrow> field_values (getPIDAttr env mf t (album_value env mf t spec albumSpec)) f)"

lemma first_field_find:
  "first_field g fs = (case find (\<lambda>f. \<exists>v \<in> set (field_values g f). v \<noteq> []) fs of None \<Rightarrow> [] | Some f \<Rightarrow> join [backslash] (field_values g f))"
  by (induction fs) (simp_all add: Let_def list_ex_iff)

lemma trackPID_text:
  assumes "\<not> legacy_spec spec"
  shows "trackPID env mf t spec albumSpec = pid_hash env (with_library mf (join [backslash] (deciding_values env mf t spec albumSpec)))"
proof -
  have "trackPID env mf t spec albumSpec =
      pid_hash env (with_library mf (first_field (getPIDAttr env mf t (album_value env mf t spec albumSpec)) (split_on (CHR ''|'') spec)))"
    unfolding trackPID_def album_value_def using assms by (subst computePID.simps) (simp add: legacy_spec_def)
  then show ?thesis unfolding first_field_find deciding_values_def deciding_field_def by (simp split: option.split)
qed

lemma backslash_not_itoa: "backslash \<notin> set (itoa n)"
  using itoa_chars [of backslash n] by (auto simp: backslash_def is_digit_def byte_def)

lemma with_library_inject: "with_library f x = with_library g y \<longleftrightarrow> pf_LibraryID f = pf_LibraryID g \<and> x = y"
  using sep_cut [of "itoa (pf_LibraryID f)" backslash x "itoa (pf_LibraryID g)" y] backslash_not_itoa itoa_inject
  by (auto simp: with_library_def)

lemma join_inject:
  "length xs = length ys \<Longrightarrow> \<forall>x \<in> set xs. sep \<notin> set x \<Longrightarrow> \<forall>y \<in> set ys. sep \<notin> set y \<Longrightarrow> join [sep] xs = join [sep] ys \<longleftrightarrow> xs = ys"
proof (induction xs arbitrary: ys)
  case (Cons x xs)
  then obtain y ys' where ys: "ys = y # ys'" by (cases ys) auto
  show ?case
  proof (cases xs)
    case Nil
    then show ?thesis using Cons.prems ys by simp
  next
    case (Cons x' xs')
    then obtain y' ys'' where y: "ys' = y' # ys''" using Cons.prems(1) ys by (cases ys') auto
    have "join [sep] (x # xs) = x @ sep # join [sep] xs" "join [sep] ys = y @ sep # join [sep] ys'" using Cons ys y by simp_all
    moreover have "join [sep] xs = join [sep] ys' \<longleftrightarrow> xs = ys'" using Cons.IH [of ys'] Cons.prems ys by simp
    ultimately show ?thesis using sep_cut [of x sep "join [sep] xs" y "join [sep] ys'"] Cons.prems ys by auto
  qed
qed simp

text \<open>
  C12 (functional): The id of a track is the hash of one text. For two tracks whose ids are decided by the same field of the
  specification, with no backslash in the values of its attributes, the texts are equal exactly when the tracks are in the
  same library and agree on every attribute of that field: nothing else of their tags counts, and no two values run together.
\<close>

theorem trackPID_separates:
  assumes "\<not> legacy_spec spec"
    and "deciding_field env f t spec albumSpec = Some a" and "deciding_field env g u spec albumSpec = Some a"
    and "\<forall>v \<in> set (deciding_values env f t spec albumSpec). backslash \<notin> set v" and "\<forall>v \<in> set (deciding_values env g u spec albumSpec). backslash \<notin> set v"
  shows "\<exists>x y. trackPID env f t spec albumSpec = pid_hash env x \<and> trackPID env g u spec albumSpec = pid_hash env y \<and>
    (x = y \<longleftrightarrow> pf_LibraryID f = pf_LibraryID g \<and> deciding_values env f t spec albumSpec = deciding_values env g u spec albumSpec)"
proof -
  have "length (deciding_values env f t spec albumSpec) = length (deciding_values env g u spec albumSpec)"
    using assms(2,3) by (simp add: deciding_values_def field_values_def)
  then have "with_library f (join [backslash] (deciding_values env f t spec albumSpec)) = with_library g (join [backslash] (deciding_values env g u spec albumSpec)) \<longleftrightarrow>
      pf_LibraryID f = pf_LibraryID g \<and> deciding_values env f t spec albumSpec = deciding_values env g u spec albumSpec"
    using join_inject [OF _ assms(4,5)] with_library_inject by simp
  then show ?thesis using trackPID_text [OF assms(1)] by blast
qed

lemma check_attr_None:
  "check_attr tenv isAlbum attr = None \<longleftrightarrow>
     (let a = pid_attr attr
      in a \<in> {''folder'', ''albumartistid''} \<or> (a = ''albumid'' \<and> \<not> isAlbum) \<or>
         (a \<noteq> [] \<and> a \<noteq> ''albumid'' \<and> (\<exists>name. CanonicalTagName tenv a = Some name \<and> (isAlbum \<longrightarrow> name = a))))"
  by (auto simp: check_attr_def Let_def split: option.splits)

lemma map_filter_Nil: "List.map_filter f xs = [] \<longleftrightarrow> (\<forall>x \<in> set xs. f x = None)"
  by (induction xs) (auto simp: List.map_filter_simps split: option.splits)

text \<open>
  An override is accepted exactly when it is empty, the legacy one of its kind, or every attribute of it is known. An
  album's may then name neither \<open>albumid\<close>, which would refer to itself, nor an alias, under which no value is stored.
\<close>

lemma ValidatePIDSpec_accepts:
  "ValidatePIDSpec tenv spec isAlbum = None \<longleftrightarrow>
     spec = [] \<or> spec = (if isAlbum then ''album_legacy'' else ''track_legacy'') \<or>
     (\<forall>attr \<in> set (pid_attributes spec). let a = pid_attr attr
        in a \<in> {''folder'', ''albumartistid''} \<or> (a = ''albumid'' \<and> \<not> isAlbum) \<or>
           (a \<noteq> [] \<and> a \<noteq> ''albumid'' \<and> (\<exists>name. CanonicalTagName tenv a = Some name \<and> (isAlbum \<longrightarrow> name = a))))"
proof -
  have "(case List.map_filter (check_attr tenv isAlbum) (pid_attributes spec) of [] \<Rightarrow> None | e # _ \<Rightarrow> Some e) = None \<longleftrightarrow>
      (\<forall>attr \<in> set (pid_attributes spec). check_attr tenv isAlbum attr = None)"
    unfolding map_filter_Nil [symmetric] by (simp split: list.split)
  then show ?thesis unfolding ValidatePIDSpec_def check_attr_None by simp
qed

theorem trackPID_separates_witness:
  "\<exists>x y. trackPID \<lparr>pe_md5 = \<lambda>_. [], pe_GroupAlbumReleases = False\<rparr> \<lparr>pf_LibraryID = 1, pf_Path = ''a/b'', pf_AlbumArtist = [], pf_Title = ''x''\<rparr> Map.empty ''folder,title'' ''album'' =
        pid_hash \<lparr>pe_md5 = \<lambda>_. [], pe_GroupAlbumReleases = False\<rparr> x \<and>
      trackPID \<lparr>pe_md5 = \<lambda>_. [], pe_GroupAlbumReleases = False\<rparr> \<lparr>pf_LibraryID = 1, pf_Path = ''a/b'', pf_AlbumArtist = [], pf_Title = ''y''\<rparr> Map.empty ''folder,title'' ''album'' =
        pid_hash \<lparr>pe_md5 = \<lambda>_. [], pe_GroupAlbumReleases = False\<rparr> y \<and> x \<noteq> y"
proof -
  define env where "env = \<lparr>pe_md5 = \<lambda>_. [] :: 8 word list, pe_GroupAlbumReleases = False\<rparr>"
  define f where "f title = \<lparr>pf_LibraryID = 1, pf_Path = ''a/b'', pf_AlbumArtist = [], pf_Title = title\<rparr>" for title
  have spec: "split_on (CHR ''|'') ''folder,title'' = [''folder,title'']" "split_on (CHR '','') ''folder,title'' = [''folder'', ''title'']"
    "pid_attr ''folder'' = ''folder''" "pid_attr ''title'' = ''title''" "path_dir ''a/b'' = ''a''" by code_simp+
  have vals: "field_values (getPIDAttr env (f title) Map.empty a) ''folder,title'' = [''a'', title]" for title a
    by (simp add: field_values_def spec getPIDAttr_def f_def)
  have field: "deciding_field env (f title) Map.empty ''folder,title'' ''album'' = Some ''folder,title''" for title
    by (simp add: deciding_field_def spec vals)
  have "deciding_values env (f title) Map.empty ''folder,title'' ''album'' = [''a'', title]" for title
    by (simp add: deciding_values_def field vals)
  moreover have "\<not> legacy_spec ''folder,title''" by (simp add: legacy_spec_def)
  ultimately have "\<exists>x y. trackPID env (f ''x'') Map.empty ''folder,title'' ''album'' = pid_hash env x \<and>
      trackPID env (f ''y'') Map.empty ''folder,title'' ''album'' = pid_hash env y \<and> x \<noteq> y"
    using trackPID_separates [OF _ field field, of "''x''" "''y''"] by (simp add: backslash_def)
  then show ?thesis unfolding env_def f_def .
qed

text \<open>
  A specification that differs from the one of the last scan only in case does not count as changed, though only the lower-case name
  selects the legacy ids.
\<close>

lemma PIDChanged_ignores_case:
  "\<not> PIDChanged conf \<lparr>pl_PIDTrack = ''Track_Legacy'', pl_PIDAlbum = ''folder'', pl_ScannedPIDTrack = ''track_legacy'', pl_ScannedPIDAlbum = ''folder'', pl_Scanned = True\<rparr> \<and>
   legacy_spec ''track_legacy'' \<and> \<not> legacy_spec ''Track_Legacy''"
proof -
  have "equal_fold ''track_legacy'' ''Track_Legacy''" by code_simp
  then show ?thesis by (simp add: PIDChanged_def EffectivePID_def or_text_def legacy_spec_def)
qed

end
