(* ===== verification/Tag_Participants.thy ===== *)
theory Tag_Participants
  imports Persistent_Ids Go_Slice
begin

text \<open>
  The artists credited on a track: the lists of participants by role (\<open>model/participants.go\<close>), and how they are read from the
  tags of a file (\<open>model/metadata/map_participants.go\<close>). Title case, the removal of accents and the digests are parameters;
  where the code ranges over a map of roles, the order is an argument.
\<close>

section \<open>Participants\<close>

record Artist =
  art_ID :: string
  art_Name :: string
  art_SortArtistName :: string
  art_OrderArtistName :: string
  art_MbzArtistID :: string

record Participant =
  pa_Artist :: Artist
  pa_SubRole :: string

type_synonym Participants = "string \<rightharpoonup> Participant list"

definition RoleFromString :: "string \<Rightarrow> string" where
  "RoleFromString role = (if role \<in> set AllRoles then role else ''invalid'')"

definition role_list :: "Participants \<Rightarrow> string \<Rightarrow> Participant list" where
  "role_list p role = (case p role of None \<Rightarrow> [] | Some l \<Rightarrow> l)"

definition participant_key :: "Participant \<Rightarrow> string" where
  "participant_key a = art_ID (pa_Artist a) @ pa_SubRole a"

fun unseen :: "string set \<Rightarrow> Participant list \<Rightarrow> Participant list" where
  "unseen seen [] = []"
| "unseen seen (a # as) =
     (if participant_key a \<in> seen then unseen seen as else a # unseen (insert (participant_key a) seen) as)"

definition add_participants :: "Participants \<Rightarrow> string \<Rightarrow> Participant list \<Rightarrow> Participants" where
  "add_participants p role as =
     (let new = unseen (participant_key ` set (role_list p role)) as
      in if new = [] then p else p(role \<mapsto> role_list p role @ new))"

definition Participants_Add :: "Participants \<Rightarrow> string \<Rightarrow> Artist list \<Rightarrow> Participants" where
  "Participants_Add p role artists = add_participants p role (map (\<lambda>a. \<lparr>pa_Artist = a, pa_SubRole = []\<rparr>) artists)"

definition AddWithSubRole :: "Participants \<Rightarrow> string \<Rightarrow> string \<Rightarrow> Artist list \<Rightarrow> Participants" where
  "AddWithSubRole p role subRole artists = add_participants p role (map (\<lambda>a. \<lparr>pa_Artist = a, pa_SubRole = subRole\<rparr>) artists)"

definition zero_Artist :: Artist where
  "zero_Artist = \<lparr>art_ID = [], art_Name = [], art_SortArtistName = [], art_OrderArtistName = [], art_MbzArtistID = []\<rparr>"

definition Participants_First :: "Participants \<Rightarrow> string \<Rightarrow> Artist" where
  "Participants_First p role = (case p role of Some (a # _) \<Rightarrow> pa_Artist a | _ \<Rightarrow> zero_Artist)"

definition Participants_Merge :: "string list \<Rightarrow> Participants \<Rightarrow> Participants \<Rightarrow> Participants" where
  "Participants_Merge roles p other = foldl (\<lambda>q role. add_participants q role (role_list other role)) p roles"

text \<open>The order of credits of the same name is not fixed by the code; they keep theirs here.\<close>

definition Participants_Sort :: "Participants \<Rightarrow> Participants" where
  "Participants_Sort p = (\<lambda>r. map_option (sort_key (\<lambda>a. map byte (art_Name (pa_Artist a)))) (p r))"

fun compact_ids :: "Artist list \<Rightarrow> Artist list" where
  "compact_ids (a # b # as) = (if art_ID a = art_ID b then compact_ids (a # as) else a # compact_ids (b # as))"
| "compact_ids as = as"

definition AllArtists :: "string list \<Rightarrow> Participants \<Rightarrow> Artist list" where
  "AllArtists roles p =
     compact_ids (sort_key (\<lambda>a. map byte (art_ID a)) (concat (map (\<lambda>r. map pa_Artist (role_list p r)) roles)))"

definition AllIDs :: "string list \<Rightarrow> Participants \<Rightarrow> string list" where
  "AllIDs roles p = map art_ID (AllArtists roles p)"

definition AllNames :: "string list \<Rightarrow> Participants \<Rightarrow> string list" where
  "AllNames roles p =
     Unique (concat (map (\<lambda>r. concat (map (\<lambda>a. art_Name (pa_Artist a) # (if art_SortArtistName (pa_Artist a) \<noteq> [] then [art_SortArtistName (pa_Artist a)] else []))
                                         (role_list p r))) roles))"

definition participant_text :: "Participant \<Rightarrow> string" where
  "participant_text a = pa_SubRole a @ '':'' @ art_ID (pa_Artist a)"

text \<open>The text that is hashed; the hash itself is a third-party function.\<close>

definition Participants_Hash :: "(string \<Rightarrow> 'h) \<Rightarrow> string list \<Rightarrow> Participants \<Rightarrow> 'h" where
  "Participants_Hash xxh3 roles p =
     xxh3 (join ''|'' (sort_key (map byte)
       (map (\<lambda>r. r @ '':'' @ join ''/'' (sort_key (map byte) (map participant_text (role_list p r)))) roles)))"

section \<open>Reading participants from tags\<close>

record part_env =
  pn_tags :: tag_env
  pn_pid :: pid_env
  pn_title :: "string \<Rightarrow> string"
  pn_accents :: "string \<Rightarrow> string"
  pn_IgnoredArticles :: string
  pn_ArtistJoiner :: string

definition splitParticipantValues :: "part_env \<Rightarrow> TagConf \<Rightarrow> string list \<Rightarrow> string list" where
  "splitParticipantValues env c vs =
     (if tc_Split c = None \<or> tc_Split c = Some [] then vs else filterDuplicatedOrEmptyValues (SplitTagValue (pn_tags env) c vs))"

text \<open>The configuration of a tag, or where it does not say how to split, a fallback.\<close>

definition conf_or :: "part_env \<Rightarrow> string \<Rightarrow> TagConf \<Rightarrow> TagConf" where
  "conf_or env tag fallback =
     WithParticipantExceptions (pn_tags env) tag
       (case TagMainMappings (pn_tags env) tag of Some c \<Rightarrow> if tc_Split c = None then fallback else c | None \<Rightarrow> fallback)"

definition getRoleValues :: "part_env \<Rightarrow> tags \<Rightarrow> string \<Rightarrow> string list" where
  "getRoleValues env t role =
     (let vs = md_Strings t role
      in if vs = [] then [] else splitParticipantValues env (conf_or env role (te_roles (pn_tags env))) vs)"

definition getArtistValues :: "part_env \<Rightarrow> tags \<Rightarrow> string \<Rightarrow> string \<Rightarrow> string list" where
  "getArtistValues env t single multi =
     (let vMulti = md_Strings t multi; vSingle = md_Strings t single
      in if vMulti \<noteq> [] then vMulti
         else if length vSingle \<noteq> 1 then vSingle
         else splitParticipantValues env (conf_or env single (te_artists (pn_tags env))) vSingle)"

definition new_artist :: "part_env \<Rightarrow> tags \<Rightarrow> string \<Rightarrow> string \<Rightarrow> string \<Rightarrow> Artist" where
  "new_artist env t name srt mbid =
     \<lparr>art_ID = artistID (pn_pid env) t name, art_Name = name, art_SortArtistName = srt,
      art_OrderArtistName = SanitizeFieldForSortingNoArticle (pn_accents env) (pn_IgnoredArticles env) name, art_MbzArtistID = mbid\<rparr>"

definition value_at :: "string list \<Rightarrow> nat \<Rightarrow> string" where
  "value_at vs i = (if i < length vs then vs ! i else [])"

definition buildArtists :: "part_env \<Rightarrow> tags \<Rightarrow> string list \<Rightarrow> string list \<Rightarrow> string list \<Rightarrow> Artist list" where
  "buildArtists env t names sorts mbids =
     map (\<lambda>(i, name). new_artist env t name (value_at sorts i) (value_at mbids i)) (List.enumerate 0 names)"

definition parseArtists :: "part_env \<Rightarrow> tags \<Rightarrow> string \<Rightarrow> string \<Rightarrow> string \<Rightarrow> string \<Rightarrow> string \<Rightarrow> Artist list" where
  "parseArtists env t name names srt sorts mbid =
     (let nameValues = getArtistValues env t name names; sortValues = getArtistValues env t srt sorts
      in buildArtists env t (if nameValues = [] then [UnknownArtist] else nameValues) sortValues (md_Strings t mbid))"

text \<open>Roles with a tag of their own, with the tags of their names, sort names and MusicBrainz ids.\<close>

definition roleMappings :: "(string \<times> string \<times> string \<times> string) list" where
  "roleMappings =
     [(''composer'', ''composer'', ''composersort'', ''musicbrainz_composerid''),
      (''lyricist'', ''lyricist'', ''lyricistsort'', ''musicbrainz_lyricistid''),
      (''conductor'', ''conductor'', [], ''musicbrainz_conductorid''),
      (''arranger'', ''arranger'', [], ''musicbrainz_arrangerid''),
      (''director'', ''director'', [], ''musicbrainz_directorid''),
      (''producer'', ''producer'', [], ''musicbrainz_producerid''),
      (''engineer'', ''engineer'', [], ''musicbrainz_engineerid''),
      (''mixer'', ''mixer'', [], ''musicbrainz_mixerid''),
      (''remixer'', ''remixer'', [], ''musicbrainz_remixerid''),
      (''djmixer'', ''djmixer'', [], ''musicbrainz_djmixerid'')]"

definition add_role :: "part_env \<Rightarrow> tags \<Rightarrow> Participants \<Rightarrow> string \<times> string \<times> string \<times> string \<Rightarrow> Participants" where
  "add_role env t p m =
     (case m of (role, name, srt, mbid) \<Rightarrow>
        let names = getRoleValues env t name
        in if names = [] then p else Participants_Add p role (buildArtists env t names (md_Strings t srt) (md_Strings t mbid)))"

definition buildRoleMbidMaps :: "part_env \<Rightarrow> tags \<Rightarrow> string \<Rightarrow> string list" where
  "buildRoleMbidMaps env t role =
     map Pair_Value (filter (\<lambda>m. pn_title env (Pair_Key m) = role) (md_Strings t ''musicbrainz_performerid''))"

definition getPerformerMbid :: "string \<Rightarrow> (string \<Rightarrow> string list) \<Rightarrow> (string \<Rightarrow> nat) \<Rightarrow> string \<times> (string \<Rightarrow> nat)" where
  "getPerformerMbid subRole mbids roleIdx =
     (if roleIdx subRole < length (mbids subRole) then (mbids subRole ! roleIdx subRole, roleIdx(subRole := roleIdx subRole + 1))
      else ([], roleIdx))"

fun add_performers :: "part_env \<Rightarrow> tags \<Rightarrow> (string \<Rightarrow> string list) \<Rightarrow> (string \<times> string) list \<Rightarrow> (string \<Rightarrow> nat) \<Rightarrow> Participants \<Rightarrow> Participants" where
  "add_performers env t mbids [] roleIdx p = p"
| "add_performers env t mbids ((subRole, name) # rest) roleIdx p =
     (case getPerformerMbid subRole mbids roleIdx of (mbid, roleIdx1) \<Rightarrow>
        add_performers env t mbids rest roleIdx1 (AddWithSubRole p ''performer'' subRole [new_artist env t name [] mbid]))"

definition performer_names :: "part_env \<Rightarrow> tags \<Rightarrow> (string \<times> string) list" where
  "performer_names env t =
     concat (map (\<lambda>m. map (Pair (pn_title env (Pair_Key m)))
                          (splitParticipantValues env (WithParticipantExceptions (pn_tags env) ''performer'' (te_roles (pn_tags env))) [Pair_Value m]))
                 (md_Strings t ''performer''))"

definition processPerformers :: "part_env \<Rightarrow> tags \<Rightarrow> Participants \<Rightarrow> Participants" where
  "processPerformers env t p = add_performers env t (buildRoleMbidMaps env t) (performer_names env t) (\<lambda>_. 0) p"

definition known_mbids :: "Participants \<Rightarrow> string \<rightharpoonup> string" where
  "known_mbids p =
     map_of (rev (map (\<lambda>a. (art_Name (pa_Artist a), art_MbzArtistID (pa_Artist a)))
                      (filter (\<lambda>a. art_MbzArtistID (pa_Artist a) \<noteq> []) (role_list p ''artist'' @ role_list p ''albumartist''))))"

definition fill_mbid :: "(string \<rightharpoonup> string) \<Rightarrow> Participant \<Rightarrow> Participant" where
  "fill_mbid known a =
     (if art_MbzArtistID (pa_Artist a) = [] then
        (case known (art_Name (pa_Artist a)) of
           None \<Rightarrow> a
         | Some mbid \<Rightarrow> a\<lparr>pa_Artist := (pa_Artist a)\<lparr>art_MbzArtistID := mbid\<rparr>\<rparr>)
      else a)"

definition syncMissingMbzIDs :: "Participants \<Rightarrow> Participants" where
  "syncMissingMbzIDs p = (\<lambda>r. map_option (map (fill_mbid (known_mbids p))) (p r))"

definition track_artists :: "part_env \<Rightarrow> tags \<Rightarrow> Artist list" where
  "track_artists env t = parseArtists env t ''artist'' ''artists'' ''artistsort'' ''artistssort'' ''musicbrainz_artistid''"

definition album_artists :: "part_env \<Rightarrow> tags \<Rightarrow> Artist list" where
  "album_artists env t =
     (let albumArtists = parseArtists env t ''albumartist'' ''albumartists'' ''albumartistsort'' ''albumartistssort'' ''musicbrainz_albumartistid''
      in if length albumArtists = 1 \<and> art_Name (hd albumArtists) = UnknownArtist then
           (if md_Bool t ''compilation'' then buildArtists env t [VariousArtists] [] [VariousArtistsMbzId] else track_artists env t)
         else albumArtists)"

definition mapParticipants :: "part_env \<Rightarrow> tags \<Rightarrow> Participants" where
  "mapParticipants env t =
     (let p1 = Participants_Add Map.empty ''artist'' (track_artists env t);
          p2 = Participants_Add p1 ''albumartist'' (album_artists env t);
          p3 = foldl (add_role env t) p2 roleMappings
      in syncMissingMbzIDs (processPerformers env t p3))"

definition mapDisplayName :: "part_env \<Rightarrow> tags \<Rightarrow> string \<Rightarrow> string \<Rightarrow> string" where
  "mapDisplayName env t singular plural =
     or_text [join (pn_ArtistJoiner env) (md_Strings t singular), join (pn_ArtistJoiner env) (md_Strings t plural)]"

definition mapDisplayArtist :: "part_env \<Rightarrow> tags \<Rightarrow> string" where
  "mapDisplayArtist env t = or_text [mapDisplayName env t ''artist'' ''artists'', UnknownArtist]"

definition mapDisplayAlbumArtist :: "part_env \<Rightarrow> tags \<Rightarrow> Participants \<Rightarrow> string" where
  "mapDisplayAlbumArtist env t p =
     or_text [mapDisplayName env t ''albumartist'' ''albumartists'', art_Name (Participants_First p ''albumartist''),
              if md_Bool t ''compilation'' then VariousArtists else UnknownArtist]"

section \<open>Lists of credits\<close>

definition credits_ok :: "Participant list \<Rightarrow> bool" where
  "credits_ok l \<longleftrightarrow> l \<noteq> [] \<and> distinct (map participant_key l)"

definition participants_ok :: "Participants \<Rightarrow> bool" where
  "participants_ok p \<longleftrightarrow> (\<forall>r l. p r = Some l \<longrightarrow> credits_ok l)"

definition credited :: "part_env \<Rightarrow> tags \<Rightarrow> Participants \<Rightarrow> bool" where
  "credited env t p \<longleftrightarrow> (\<forall>r l. p r = Some l \<longrightarrow> r \<in> set AllRoles \<and> (\<forall>a \<in> set l. art_ID (pa_Artist a) = artistID (pn_pid env) t (art_Name (pa_Artist a))))"

lemma unseen_props:
  "distinct (map participant_key (unseen seen as)) \<and> participant_key ` set (unseen seen as) = participant_key ` set as - seen \<and> set (unseen seen as) \<subseteq> set as"
  by (induction seen as rule: unseen.induct) auto

lemma unseen_none: "unseen seen as = [] \<longleftrightarrow> participant_key ` set as \<subseteq> seen"
  using unseen_props [of seen as] by (metis Diff_eq_empty_iff image_is_empty set_empty)

lemma role_list_ok: "participants_ok p \<Longrightarrow> distinct (map participant_key (role_list p r))"
  by (auto simp: participants_ok_def credits_ok_def role_list_def split: option.splits)

text \<open>Adding keeps the lists free of repeated credits, loses none, and adds just those whose key was not there.\<close>

lemma add_participants_ok: "participants_ok p \<Longrightarrow> participants_ok (add_participants p role as)"
proof -
  assume ok: "participants_ok p"
  have "credits_ok (role_list p role @ unseen (participant_key ` set (role_list p role)) as)"
    if "unseen (participant_key ` set (role_list p role)) as \<noteq> []"
    using that role_list_ok [OF ok, of role] unseen_props [of "participant_key ` set (role_list p role)" as]
    by (auto simp: credits_ok_def)
  then show ?thesis using ok by (auto simp: add_participants_def participants_ok_def Let_def)
qed

lemma add_participants_list:
  "role_list (add_participants p role as) r =
     role_list p r @ (if r = role then unseen (participant_key ` set (role_list p role)) as else [])"
  by (simp add: add_participants_def role_list_def Let_def)

lemma add_participants_keys:
  "participant_key ` set (role_list (add_participants p role as) role) = participant_key ` set (role_list p role) \<union> participant_key ` set as"
  using unseen_props [of "participant_key ` set (role_list p role)" as] unfolding add_participants_list by (auto simp: image_Un)

lemma add_participants_credited:
  assumes "credited env t p" and "role \<in> set AllRoles" and "\<forall>a \<in> set as. art_ID (pa_Artist a) = artistID (pn_pid env) t (art_Name (pa_Artist a))"
  shows "credited env t (add_participants p role as)"
proof -
  have "set (role_list p role) \<subseteq> {a. art_ID (pa_Artist a) = artistID (pn_pid env) t (art_Name (pa_Artist a))}"
    using assms(1) by (cases "p role") (auto simp: credited_def role_list_def)
  then show ?thesis
    using assms unseen_props [of "participant_key ` set (role_list p role)" as]
    by (auto simp: add_participants_def credited_def Let_def subset_iff)
qed

definition good :: "part_env \<Rightarrow> tags \<Rightarrow> Participants \<Rightarrow> bool" where
  "good env t p \<longleftrightarrow> participants_ok p \<and> credited env t p"

lemma new_artist_id: "art_ID (new_artist env t name s m) = artistID (pn_pid env) t (art_Name (new_artist env t name s m))"
  by (simp add: new_artist_def)

lemma buildArtists_id: "a \<in> set (buildArtists env t names sorts mbids) \<Longrightarrow> art_ID a = artistID (pn_pid env) t (art_Name a)"
  by (auto simp: buildArtists_def new_artist_def)

lemma parseArtists_id: "a \<in> set (parseArtists env t n ns s ss m) \<Longrightarrow> art_ID a = artistID (pn_pid env) t (art_Name a)"
  unfolding parseArtists_def Let_def by (rule buildArtists_id)

lemma track_artists_id: "a \<in> set (track_artists env t) \<Longrightarrow> art_ID a = artistID (pn_pid env) t (art_Name a)"
  unfolding track_artists_def by (rule parseArtists_id)

lemma album_artists_id: "a \<in> set (album_artists env t) \<Longrightarrow> art_ID a = artistID (pn_pid env) t (art_Name a)"
  unfolding album_artists_def Let_def using parseArtists_id buildArtists_id track_artists_id by (auto split: if_splits)

lemma parseArtists_nonempty: "parseArtists env t n ns s ss m \<noteq> []"
  by (simp add: parseArtists_def Let_def buildArtists_def enumerate_eq_zip)

lemma album_artists_nonempty: "album_artists env t \<noteq> []"
  using parseArtists_nonempty by (simp add: album_artists_def Let_def track_artists_def buildArtists_def enumerate_eq_zip)

lemma good_Add: "good env t p \<Longrightarrow> role \<in> set AllRoles \<Longrightarrow> \<forall>a \<in> set as. art_ID a = artistID (pn_pid env) t (art_Name a) \<Longrightarrow> good env t (Participants_Add p role as)"
  unfolding good_def Participants_Add_def by (intro conjI add_participants_ok add_participants_credited) auto

lemma good_AddWithSubRole: "good env t p \<Longrightarrow> role \<in> set AllRoles \<Longrightarrow> \<forall>a \<in> set as. art_ID a = artistID (pn_pid env) t (art_Name a) \<Longrightarrow> good env t (AddWithSubRole p role sub as)"
  unfolding good_def AddWithSubRole_def by (intro conjI add_participants_ok add_participants_credited) auto

lemma good_add_role: "good env t p \<Longrightarrow> fst m \<in> set AllRoles \<Longrightarrow> good env t (add_role env t p m)"
  unfolding add_role_def Let_def using good_Add buildArtists_id by (auto split: prod.splits)

lemma good_roles: "good env t p \<Longrightarrow> \<forall>m \<in> set ms. fst m \<in> set AllRoles \<Longrightarrow> good env t (foldl (add_role env t) p ms)"
  by (induction ms arbitrary: p) (simp_all add: good_add_role)

lemma good_performers: "good env t p \<Longrightarrow> good env t (add_performers env t mbids names idx p)"
proof (induction env t mbids names idx p rule: add_performers.induct)
  case (2 env t mbids subRole name rest roleIdx p)
  obtain m i where m: "getPerformerMbid subRole mbids roleIdx = (m, i)" by fastforce
  have "good env t (AddWithSubRole p ''performer'' subRole [new_artist env t name [] m])"
    using good_AddWithSubRole [OF "2.prems", of "''performer''"] new_artist_id by (simp add: AllRoles_def)
  then show ?case using "2.IH" m by simp
qed simp

text \<open>Filling in MusicBrainz ids changes nothing else.\<close>

lemma fill_mbid_frame: "art_ID (pa_Artist (fill_mbid k a)) = art_ID (pa_Artist a)" "art_Name (pa_Artist (fill_mbid k a)) = art_Name (pa_Artist a)"
    "pa_SubRole (fill_mbid k a) = pa_SubRole a"
  by (simp_all add: fill_mbid_def split: option.split)

lemma fill_mbid_key: "participant_key (fill_mbid k a) = participant_key a"
  by (simp add: participant_key_def fill_mbid_frame)

lemma good_sync: "good env t p \<Longrightarrow> good env t (syncMissingMbzIDs p)"
  by (auto simp: good_def participants_ok_def credits_ok_def credited_def syncMissingMbzIDs_def fill_mbid_key fill_mbid_frame comp_def)

lemma role_list_sync: "role_list (syncMissingMbzIDs p) r = map (fill_mbid (known_mbids p)) (role_list p r)"
  by (simp add: role_list_def syncMissingMbzIDs_def split: option.split)

lemma known_mbids_Some:
  assumes "a \<in> set (role_list p ''artist'' @ role_list p ''albumartist'')" and "art_MbzArtistID (pa_Artist a) \<noteq> []"
  shows "\<exists>m. known_mbids p (art_Name (pa_Artist a)) = Some m \<and> m \<noteq> []"
proof -
  have "art_Name (pa_Artist a) \<in> dom (known_mbids p)" using assms unfolding known_mbids_def dom_map_of_conv_image_fst by force
  then obtain m where m: "known_mbids p (art_Name (pa_Artist a)) = Some m" by auto
  then have "m \<noteq> []" unfolding known_mbids_def by (auto dest!: map_of_SomeD)
  then show ?thesis using m by simp
qed

text \<open>An id that is filled in comes from an artist or album artist that had one.\<close>

lemma known_mbids_source:
  assumes "known_mbids p n = Some m"
  shows "\<exists>a \<in> set (role_list p ''artist'' @ role_list p ''albumartist''). art_Name (pa_Artist a) = n \<and> art_MbzArtistID (pa_Artist a) = m \<and> m \<noteq> []"
  using map_of_SomeD [OF assms [unfolded known_mbids_def]] by auto

lemma sync_complete:
  assumes "a \<in> set (role_list (syncMissingMbzIDs p) r)" and "b \<in> set (role_list (syncMissingMbzIDs p) ''artist'' @ role_list (syncMissingMbzIDs p) ''albumartist'')"
    and "art_Name (pa_Artist a) = art_Name (pa_Artist b)" and "art_MbzArtistID (pa_Artist b) \<noteq> []"
  shows "art_MbzArtistID (pa_Artist a) \<noteq> []"
proof -
  obtain a0 where a0: "a0 \<in> set (role_list p r)" "a = fill_mbid (known_mbids p) a0" using assms(1) by (auto simp: role_list_sync)
  obtain b0 where b0: "b0 \<in> set (role_list p ''artist'' @ role_list p ''albumartist'')" "b = fill_mbid (known_mbids p) b0"
    using assms(2) by (auto simp: role_list_sync)
  have "\<exists>m. known_mbids p (art_Name (pa_Artist b0)) = Some m \<and> m \<noteq> []"
  proof (cases "art_MbzArtistID (pa_Artist b0) = []")
    case True
    then obtain m where "known_mbids p (art_Name (pa_Artist b0)) = Some m" using b0(2) assms(4) by (auto simp: fill_mbid_def split: option.splits)
    then show ?thesis using known_mbids_source by blast
  qed (use known_mbids_Some b0(1) in blast)
  moreover have "art_Name (pa_Artist a0) = art_Name (pa_Artist b0)" using assms(3) a0(2) b0(2) fill_mbid_frame by metis
  ultimately show ?thesis unfolding a0(2) by (auto simp: fill_mbid_def)
qed

definition has_credits :: "Participants \<Rightarrow> bool" where
  "has_credits p \<longleftrightarrow> role_list p ''artist'' \<noteq> [] \<and> role_list p ''albumartist'' \<noteq> []"

lemma has_credits_add: "has_credits p \<Longrightarrow> has_credits (add_participants p role as)"
  by (auto simp: has_credits_def add_participants_list)

lemma has_credits_roles: "has_credits p \<Longrightarrow> has_credits (foldl (add_role env t) p ms)"
  by (induction ms arbitrary: p) (auto simp: add_role_def Let_def Participants_Add_def has_credits_add split: prod.splits)

lemma has_credits_performers: "has_credits p \<Longrightarrow> has_credits (add_performers env t mbids names idx p)"
  by (induction env t mbids names idx p rule: add_performers.induct) (auto simp: AddWithSubRole_def has_credits_add split: prod.splits)

lemma mapParticipants_built: "\<exists>p. mapParticipants env t = syncMissingMbzIDs p \<and> good env t p \<and> has_credits p"
proof -
  define p1 where "p1 = Participants_Add Map.empty ''artist'' (track_artists env t)"
  define p2 where "p2 = Participants_Add p1 ''albumartist'' (album_artists env t)"
  define p3 where "p3 = foldl (add_role env t) p2 roleMappings"
  define p4 where "p4 = processPerformers env t p3"
  have result: "mapParticipants env t = syncMissingMbzIDs p4" by (simp add: mapParticipants_def p1_def p2_def p3_def p4_def)
  have "good env t Map.empty" by (simp add: good_def participants_ok_def credited_def)
  then have "good env t p1" unfolding p1_def using track_artists_id by (intro good_Add) (auto simp: AllRoles_def)
  then have "good env t p2" unfolding p2_def using album_artists_id by (intro good_Add) (auto simp: AllRoles_def)
  then have "good env t p3" unfolding p3_def by (rule good_roles) (simp add: roleMappings_def AllRoles_def)
  then have good: "good env t p4" unfolding p4_def processPerformers_def by (rule good_performers)
  have "role_list p1 ''artist'' \<noteq> []"
    using parseArtists_nonempty
    by (cases "role_list Map.empty ''artist'' = []") (simp_all add: p1_def Participants_Add_def add_participants_list unseen_none track_artists_def)
  moreover have "role_list p2 ''albumartist'' \<noteq> []"
    using album_artists_nonempty [of env t]
    by (cases "role_list p1 ''albumartist'' = []") (simp_all add: p2_def Participants_Add_def add_participants_list unseen_none)
  ultimately have "has_credits p2" by (simp add: has_credits_def p2_def Participants_Add_def add_participants_list)
  then have "has_credits p4" unfolding p4_def p3_def processPerformers_def by (intro has_credits_performers has_credits_roles)
  then show ?thesis using result good by blast
qed

lemma has_credits_sync: "has_credits p \<Longrightarrow> has_credits (syncMissingMbzIDs p)"
  by (simp add: has_credits_def role_list_sync)

text \<open>
  C16 (invariant): Whatever the tags of a file, its track has an artist and an album artist; in each role no credit is repeated, every credit
  carries the id of its name, and an artist known by a MusicBrainz id as artist or album artist is known by one in every role.
\<close>

theorem mapParticipants_wf:
  "good env t (mapParticipants env t) \<and> has_credits (mapParticipants env t) \<and>
   (\<forall>r. \<forall>a \<in> set (role_list (mapParticipants env t) r).
      \<forall>b \<in> set (role_list (mapParticipants env t) ''artist'' @ role_list (mapParticipants env t) ''albumartist'').
        art_Name (pa_Artist a) = art_Name (pa_Artist b) \<and> art_MbzArtistID (pa_Artist b) \<noteq> [] \<longrightarrow> art_MbzArtistID (pa_Artist a) \<noteq> [])"
proof -
  obtain p where p: "mapParticipants env t = syncMissingMbzIDs p" "good env t p" "has_credits p" using mapParticipants_built by blast
  then show ?thesis using good_sync [OF p(2)] has_credits_sync [OF p(3)] sync_complete by (simp only:) blast
qed

definition ex_plain_conf :: TagConf where
  "ex_plain_conf =
     \<lparr>tc_Aliases = [], tc_Type = [], tc_MaxLength = 0, tc_Split = None, tc_Album = False, tc_SplitRx = None, tc_ExceptionsRx = None\<rparr>"

definition ex_part_env :: part_env where
  "ex_part_env =
     \<lparr>pn_tags = \<lparr>is_word_rune = (\<lambda>_. False), parse_number = (\<lambda>_. None), uuid_parse = (\<lambda>_. None), range_keys = (\<lambda>_. []), te_exceptions = [],
                 te_main = [], te_additional = [], te_roles = ex_plain_conf, te_artists = ex_plain_conf\<rparr>,
      pn_pid = \<lparr>pe_md5 = (\<lambda>_. []), pe_GroupAlbumReleases = False\<rparr>, pn_title = (\<lambda>s. s), pn_accents = (\<lambda>s. s),
      pn_IgnoredArticles = [], pn_ArtistJoiner = '', ''\<rparr>"

text \<open>A file whose composer is its artist too, and only the artist comes with a MusicBrainz id.\<close>

definition ex_credit_tags :: tags where
  "ex_credit_tags = [''artist'' \<mapsto> [''Nina''], ''musicbrainz_artistid'' \<mapsto> [''m1''], ''composer'' \<mapsto> [''Nina'']]"

theorem mapParticipants_wf_witness:
  "has_credits (mapParticipants ex_part_env ex_credit_tags) \<and>
   role_list (mapParticipants ex_part_env ex_credit_tags) ''composer'' \<noteq> [] \<and>
   art_MbzArtistID (pa_Artist (hd (role_list (mapParticipants ex_part_env ex_credit_tags) ''composer''))) \<noteq> []"
proof -
  define p where "p = mapParticipants ex_part_env ex_credit_tags"
  have names: "map (\<lambda>a. art_Name (pa_Artist a)) (role_list (mapParticipants ex_part_env ex_credit_tags) ''composer'') = [''Nina'']"
    "map (\<lambda>a. (art_Name (pa_Artist a), art_MbzArtistID (pa_Artist a))) (role_list (mapParticipants ex_part_env ex_credit_tags) ''artist'') = [(''Nina'', ''m1'')]"
    by code_simp+
  obtain a where a: "role_list p ''composer'' = [a]" "art_Name (pa_Artist a) = ''Nina''" using names(1) unfolding p_def by blast
  obtain b where b: "role_list p ''artist'' = [b]" "art_Name (pa_Artist b) = ''Nina''" "art_MbzArtistID (pa_Artist b) = ''m1''"
    using names(2) unfolding p_def by blast
  have "art_MbzArtistID (pa_Artist a) \<noteq> []"
    using mapParticipants_wf [of ex_part_env ex_credit_tags, folded p_def] a b by (metis Un_iff list.set_intros(1) list.discI set_append)
  then show ?thesis using mapParticipants_wf [of ex_part_env ex_credit_tags] a(1) unfolding p_def by simp
qed

section \<open>All artists of a track\<close>

lemma compact_ids_set: "art_ID ` set (compact_ids as) = art_ID ` set as"
  by (induction as rule: compact_ids.induct) auto

lemma map_byte_inject [simp]: "map byte s = map byte u \<longleftrightarrow> s = u"
  using inj_map_eq_map [of byte] by (auto simp: inj_on_def)

lemma compact_ids_sorted:
  "sorted (map (\<lambda>a. map byte (art_ID a)) as) \<Longrightarrow> sorted_wrt (<) (map (\<lambda>a. map byte (art_ID a)) (compact_ids as))"
proof (induction as rule: compact_ids.induct)
  case (1 a b as)
  show ?case
  proof (cases "art_ID a = art_ID b")
    case True
    then show ?thesis using 1 by simp
  next
    case False
    have "map byte (art_ID a) < map byte (art_ID c)" if "c \<in> set (compact_ids (b # as))" for c
    proof -
      have "art_ID c \<in> art_ID ` set (compact_ids (b # as))" using that by (rule imageI)
      then have "art_ID c \<in> art_ID ` set (b # as)" by (simp only: compact_ids_set)
      then obtain d where "d \<in> set (b # as)" "art_ID d = art_ID c" by (elim imageE) simp
      then have "map byte (art_ID b) \<le> map byte (art_ID c)" using "1.prems" by auto
      moreover have "map byte (art_ID a) < map byte (art_ID b)" using False "1.prems" by (simp add: order_less_le)
      ultimately show ?thesis by simp
    qed
    moreover have "sorted_wrt (<) (map (\<lambda>a. map byte (art_ID a)) (compact_ids (b # as)))" using "1.IH"(2) [OF False] "1.prems" by simp
    ultimately show ?thesis using False by (simp del: map_eq_conv)
  qed
qed simp_all

lemma AllIDs_sorted: "sorted_wrt (<) (map (map byte) (AllIDs roles p))"
  unfolding AllIDs_def AllArtists_def map_map comp_def by (rule compact_ids_sorted) simp

lemma AllIDs_set: "set (AllIDs roles p) = (\<Union>r \<in> set roles. (\<lambda>a. art_ID (pa_Artist a)) ` set (role_list p r))"
  unfolding AllIDs_def AllArtists_def by (simp add: compact_ids_set image_UN image_image)

text \<open>The ids do not depend on the order in which the roles are ranged over.\<close>

lemma AllIDs_order: "set roles = set roles' \<Longrightarrow> AllIDs roles p = AllIDs roles' p"
proof -
  assume "set roles = set roles'"
  then have "set (map (map byte) (AllIDs roles p)) = set (map (map byte) (AllIDs roles' p))" by (simp add: AllIDs_set)
  then have "map (map byte) (AllIDs roles p) = map (map byte) (AllIDs roles' p)"
    using AllIDs_sorted by (metis sorted_distinct_set_unique strict_sorted_iff)
  then show ?thesis by (metis list.inj_map_strong map_byte_inject)
qed

lemma sort_bytes_mset: "mset xs = mset ys \<Longrightarrow> sort_key (map byte) xs = sort_key (map byte) ys"
proof -
  assume "mset xs = mset ys"
  then show ?thesis by (intro sort_key_inj_key_eq) (simp_all add: inj_on_def)
qed

text \<open>The hash depends neither on the order of the roles nor, within a role, on that of the credits.\<close>

lemma Participants_Hash_order:
  assumes "mset roles = mset roles'" and "\<And>r. r \<in> set roles \<Longrightarrow> mset (role_list p r) = mset (role_list q r)"
  shows "Participants_Hash xxh3 roles p = Participants_Hash xxh3 roles' q"
proof -
  define e where "e u r = r @ '':'' @ join ''/'' (sort_key (map byte) (map participant_text (role_list u r)))" for u r
  have "e p r = e q r" if "r \<in> set roles" for r
    using sort_bytes_mset [of "map participant_text (role_list p r)" "map participant_text (role_list q r)"] assms(2) [OF that] by (simp add: e_def)
  then have "map (e p) roles = map (e q) roles" by simp
  moreover have "mset (map (e q) roles) = mset (map (e q) roles')" using assms(1) by simp
  ultimately have "sort_key (map byte) (map (e p) roles) = sort_key (map byte) (map (e q) roles')" by (metis sort_bytes_mset)
  then show ?thesis unfolding Participants_Hash_def e_def [abs_def] by (simp only:)
qed

text \<open>Ids have a fixed length, so the key of a credit tells its id from its sub-role.\<close>

lemma participant_key_inject:
  "length (art_ID (pa_Artist a)) = length (art_ID (pa_Artist b)) \<Longrightarrow>
   participant_key a = participant_key b \<longleftrightarrow> art_ID (pa_Artist a) = art_ID (pa_Artist b) \<and> pa_SubRole a = pa_SubRole b"
  by (simp add: participant_key_def)

end
