(* ===== verification/Track_Mapping.thy ===== *)
theory Track_Mapping
  imports Tag_Participants Tag_Values_Props Lyrics_Parse Go_Float
begin

text \<open>
  From the tags of a file to the row of a track: \<open>New\<close> and the accessors of \<open>model/metadata/metadata.go\<close>, and \<open>ToMediaFile\<close> of
  \<open>model/metadata/map_mediafile.go\<close>, which put together the cleaning of tags, the participants, the lyrics and the persistent
  ids. The lyrics of a track are the list that the code writes as JSON.
\<close>

section \<open>Definitions\<close>

record map_env =
  me_part :: part_env
  me_lyrics :: lyrics_env
  me_pid :: PIDConfig

record AudioProperties =
  ap_Milliseconds :: int
  ap_BitRate :: int
  ap_BitDepth :: int
  ap_SampleRate :: int
  ap_Channels :: int
  ap_Codec :: string

record Metadata =
  m_filePath :: string
  m_Size :: int
  m_ModTime :: int
  m_BirthTime :: int
  m_tags :: tags
  m_audioProps :: AudioProperties
  m_hasPicture :: bool

text \<open>The information on a file, with the tags as they were read.\<close>

record file_info =
  fi_Size :: int
  fi_ModTime :: int
  fi_BirthTime :: int
  fi_Tags :: "(string \<times> string list) list"
  fi_AudioProperties :: AudioProperties
  fi_HasPicture :: bool

definition New :: "map_env \<Rightarrow> string \<Rightarrow> file_info \<Rightarrow> Metadata option" where
  "New env filePath info =
     map_option (\<lambda>t. \<lparr>m_filePath = filePath, m_Size = fi_Size info, m_ModTime = fi_ModTime info, m_BirthTime = fi_BirthTime info, m_tags = t,
                      m_audioProps = fi_AudioProperties info, m_hasPicture = fi_HasPicture info\<rparr>)
                (clean_tags (pn_tags (me_part env)) (fi_Tags info))"

definition md_Suffix :: "Metadata \<Rightarrow> string" where
  "md_Suffix md = go_lower (trim_prefix (path_ext (m_filePath md)) ''.'')"

definition md_Length :: "Metadata \<Rightarrow> rat" where
  "md_Length md = round_float 24 (round_float 24 (of_int (ap_Milliseconds (m_audioProps md))) / 1000)"

definition nullableFloat :: "tag_env \<Rightarrow> string \<Rightarrow> rat option" where
  "nullableFloat env v = (case parse_number env v of Some (Finite q) \<Rightarrow> Some q | _ \<Rightarrow> None)"

definition md_Gain :: "tag_env \<Rightarrow> tags \<Rightarrow> string \<Rightarrow> rat option" where
  "md_Gain env t key =
     (let v = first_value t key
      in nullableFloat env (trim_space (case str_cut ''dB'' v of None \<Rightarrow> v | Some (a, b) \<Rightarrow> a @ b)))"

definition mapGain :: "tag_env \<Rightarrow> tags \<Rightarrow> string \<Rightarrow> string \<Rightarrow> rat option" where
  "mapGain env t rg r128 =
     (case md_Gain env t rg of
        Some v \<Rightarrow> Some v
      | None \<Rightarrow>
          (if first_value t r128 = [] then None
           else map_option (\<lambda>v. round_float 53 (round_float 53 (of_int v) / 256 + 5)) (atoi (first_value t r128))))"

text \<open>\<open>math.Round\<close>: halves away from zero.\<close>

definition go_round :: "rat \<Rightarrow> int" where
  "go_round q = (if q < 0 then - \<lfloor>- q + 1 / 2\<rfloor> else \<lfloor>q + 1 / 2\<rfloor>)"

definition map_BPM :: "tag_env \<Rightarrow> tags \<Rightarrow> int option" where
  "map_BPM env t =
     (case nullableFloat env (first_value t ''bpm'') of
        None \<Rightarrow> None
      | Some f \<Rightarrow> let r = go_round f in if 0 < r \<and> r \<le> 2147483647 then Some r else None)"

definition mapLyrics :: "lyrics_env \<Rightarrow> tags \<Rightarrow> Lyrics list" where
  "mapLyrics env t =
     concat (map (\<lambda>raw. case ParseLyrics env [] (Pair_Key raw) (Pair_Value raw) of
                          Inl _ \<Rightarrow> []
                        | Inr ls \<Rightarrow> filter (\<lambda>l. ly_Line l \<noteq> []) ls)
                 (md_Strings t ''lyrics''))"

record MappedFile =
  mp_LibraryID :: int
  mp_FolderID :: string
  mp_Tags :: tags
  mp_Title :: string
  mp_Album :: string
  mp_SortTitle :: string
  mp_SortAlbumName :: string
  mp_OrderTitle :: string
  mp_OrderAlbumName :: string
  mp_Compilation :: bool
  mp_TrackNumber :: int
  mp_DiscNumber :: int
  mp_DiscSubtitle :: string
  mp_CatalogNum :: string
  mp_Comment :: string
  mp_BPM :: "int option"
  mp_Lyrics :: "Lyrics list"
  mp_ExplicitStatus :: string
  mp_OriginalYear :: int
  mp_OriginalDate :: string
  mp_ReleaseYear :: int
  mp_ReleaseDate :: string
  mp_Year :: int
  mp_Date :: string
  mp_MbzRecordingID :: string
  mp_MbzReleaseTrackID :: string
  mp_MbzAlbumID :: string
  mp_MbzReleaseGroupID :: string
  mp_MbzAlbumType :: string
  mp_RGAlbumPeak :: "rat option"
  mp_RGAlbumGain :: "rat option"
  mp_RGTrackPeak :: "rat option"
  mp_RGTrackGain :: "rat option"
  mp_HasCoverArt :: bool
  mp_Duration :: rat
  mp_BitRate :: int
  mp_SampleRate :: int
  mp_BitDepth :: "int option"
  mp_Channels :: int
  mp_Codec :: string
  mp_Path :: string
  mp_Suffix :: string
  mp_Size :: int
  mp_BirthTime :: int
  mp_UpdatedAt :: int
  mp_Participants :: Participants
  mp_Artist :: string
  mp_AlbumArtist :: string
  mp_PID :: string
  mp_AlbumID :: string
  mp_ArtistID :: string
  mp_AlbumArtistID :: string
  mp_OrderArtistName :: string
  mp_OrderAlbumArtistName :: string
  mp_SortArtistName :: string
  mp_SortAlbumArtistName :: string

definition first_class :: "tag_env \<Rightarrow> string \<Rightarrow> bool" where
  "first_class env k \<longleftrightarrow> (case TagMainMappings env k of None \<Rightarrow> False | Some c \<Rightarrow> \<not> tc_Album c)"

text \<open>The years, of which one that cannot be read is a panic.\<close>

definition map_years :: "tags \<Rightarrow> (int \<times> int \<times> int) option" where
  "map_years t =
     (case mapDates t of (date, origDate, relDate) \<Rightarrow>
        case (Date_Year date, Date_Year origDate, Date_Year relDate) of
          (Some y, Some oy, Some ry) \<Rightarrow> Some (y, oy, ry)
        | _ \<Rightarrow> None)"

definition ToMediaFile :: "map_env \<Rightarrow> int \<times> pid_library \<Rightarrow> string \<Rightarrow> Metadata \<Rightarrow> MappedFile option" where
  "ToMediaFile env lib folderID md =
     (let penv = me_part env; tenv = pn_tags penv; t = m_tags md; props = m_audioProps md; (date, origDate, relDate) = mapDates t;
          participants = mapParticipants penv t;
          title = mapTrackTitle t (m_filePath md);
          album = mapAlbumName t;
          albumArtist = mapDisplayAlbumArtist penv t participants;
          pf = \<lparr>pf_LibraryID = fst lib, pf_Path = m_filePath md, pf_AlbumArtist = albumArtist, pf_Title = title\<rparr>;
          pid = EffectivePID (me_pid env) (snd lib);
          artist = Participants_First participants ''artist'';
          albumArtist1 = Participants_First participants ''albumartist''
      in map_option (\<lambda>(y, oy, ry).
           \<lparr>mp_LibraryID = fst lib, mp_FolderID = folderID,
            mp_Tags = (\<lambda>k. if first_class tenv k then None else mapMovementNumbers t t k),
            mp_Title = title, mp_Album = album,
            mp_SortTitle = first_value t ''titlesort'', mp_SortAlbumName = first_value t ''albumsort'',
            mp_OrderTitle = SanitizeFieldForSorting (pn_accents penv) title,
            mp_OrderAlbumName = SanitizeFieldForSortingNoArticle (pn_accents penv) (pn_IgnoredArticles penv) album,
            mp_Compilation = md_Bool t ''compilation'',
            mp_TrackNumber = fst (tuple t ''track''), mp_DiscNumber = fst (tuple t ''disc''),
            mp_DiscSubtitle = first_value t ''discsubtitle'', mp_CatalogNum = first_value t ''catalognumber'', mp_Comment = first_value t ''comment'',
            mp_BPM = map_BPM tenv t, mp_Lyrics = mapLyrics (me_lyrics env) t, mp_ExplicitStatus = mapExplicitStatusTag t,
            mp_OriginalYear = oy, mp_OriginalDate = origDate, mp_ReleaseYear = ry, mp_ReleaseDate = relDate, mp_Year = y, mp_Date = date,
            mp_MbzRecordingID = first_value t ''musicbrainz_recordingid'', mp_MbzReleaseTrackID = first_value t ''musicbrainz_trackid'',
            mp_MbzAlbumID = first_value t ''musicbrainz_albumid'', mp_MbzReleaseGroupID = first_value t ''musicbrainz_releasegroupid'',
            mp_MbzAlbumType = first_value t ''releasetype'',
            mp_RGAlbumPeak = nullableFloat tenv (first_value t ''replaygain_album_peak''),
            mp_RGAlbumGain = mapGain tenv t ''replaygain_album_gain'' ''r128_album_gain'',
            mp_RGTrackPeak = nullableFloat tenv (first_value t ''replaygain_track_peak''),
            mp_RGTrackGain = mapGain tenv t ''replaygain_track_gain'' ''r128_track_gain'',
            mp_HasCoverArt = m_hasPicture md, mp_Duration = md_Length md, mp_BitRate = ap_BitRate props, mp_SampleRate = ap_SampleRate props,
            mp_BitDepth = (if 0 < ap_BitDepth props then Some (ap_BitDepth props) else None),
            mp_Channels = ap_Channels props, mp_Codec = ap_Codec props, mp_Path = m_filePath md, mp_Suffix = md_Suffix md, mp_Size = m_Size md,
            mp_BirthTime = m_BirthTime md, mp_UpdatedAt = m_ModTime md,
            mp_Participants = participants, mp_Artist = mapDisplayArtist penv t, mp_AlbumArtist = albumArtist,
            mp_PID = trackPID (pn_pid penv) pf t (pc_Track pid) (pc_Album pid), mp_AlbumID = md_albumID (pn_pid penv) pf t (pc_Album pid),
            mp_ArtistID = art_ID artist, mp_AlbumArtistID = art_ID albumArtist1,
            mp_OrderArtistName = art_OrderArtistName artist, mp_OrderAlbumArtistName = art_OrderArtistName albumArtist1,
            mp_SortArtistName = art_SortArtistName artist, mp_SortAlbumArtistName = art_SortArtistName albumArtist1\<rparr>)
         (map_years t))"

definition read_track :: "map_env \<Rightarrow> int \<times> pid_library \<Rightarrow> string \<Rightarrow> string \<Rightarrow> file_info \<Rightarrow> MappedFile option" where
  "read_track env lib folderID filePath info =
     (case New env filePath info of None \<Rightarrow> None | Some md \<Rightarrow> ToMediaFile env lib folderID md)"

section \<open>What a mapped track is like\<close>

definition dates_typed :: "tag_env \<Rightarrow> bool" where
  "dates_typed env \<longleftrightarrow>
     (\<forall>k \<in> {''recordingdate'', ''originaldate'', ''releasedate''}. case map_of (TagMappings env) k of None \<Rightarrow> True | Some c \<Rightarrow> tc_Type c = ''date'')"

lemma or_text_last: "v \<noteq> [] \<Longrightarrow> or_text (vs @ [v]) \<noteq> []"
  by (induction vs) (auto simp: or_text_def)

lemma first_value_date:
  assumes "clean_tags env raw = Some t" and "dates_typed env" and "k \<in> {''recordingdate'', ''originaldate'', ''releasedate''}"
  shows "Date_Year (first_value t k) \<noteq> None"
proof (cases "t k")
  case None
  then show ?thesis by (simp add: first_value_def Date_Year_def)
next
  case (Some vs)
  then obtain c where c: "map_of (TagMappings env) k = Some c" "vs \<noteq> []" "\<forall>v \<in> set vs. value_ok env c v" using clean_tags_kept [OF assms(1)] by blast
  then have "tc_Type c = ''date''" using bspec [OF assms(2) [unfolded dates_typed_def] assms(3)] by simp
  then show ?thesis using c(2,3) Some by (cases vs) (simp_all add: first_value_def value_ok_def)
qed

lemma map_years_returns:
  assumes "clean_tags env raw = Some t" and "dates_typed env" shows "map_years t \<noteq> None"
proof -
  have read: "Date_Year (first_value t k) \<noteq> None" if "k \<in> {''recordingdate'', ''originaldate'', ''releasedate''}" for k
    using first_value_date [OF assms that] .
  obtain d u r where m: "mapDates t = (d, u, r)" by (cases "mapDates t") auto
  have "{d, u, r} \<subseteq> {first_value t ''recordingdate'', first_value t ''originaldate'', first_value t ''releasedate'', []}"
    using m by (auto simp: mapDates_def or_text_def Let_def split: if_splits)
  moreover have "Date_Year [] \<noteq> None" by (simp add: Date_Year_def)
  ultimately have some: "Date_Year x \<noteq> None" if "x \<in> {d, u, r}" for x using that read by blast
  obtain y oy ry where "Date_Year d = Some y" "Date_Year u = Some oy" "Date_Year r = Some ry" using some [of d] some [of u] some [of r] by auto
  then show ?thesis by (simp add: map_years_def m)
qed

lemma mapLyrics_wf: "sorts env \<Longrightarrow> list_all (\<lambda>l. lyrics_wf l \<and> ly_Line l \<noteq> []) (mapLyrics env t)"
proof -
  assume s: "sorts env"
  have "list_all (\<lambda>l. lyrics_wf l \<and> ly_Line l \<noteq> []) (case ParseLyrics env [] a b of Inl _ \<Rightarrow> [] | Inr ls \<Rightarrow> filter (\<lambda>l. ly_Line l \<noteq> []) ls)" for a b
  proof -
    have "\<exists>ls. ParseLyrics env [] a b = Inr ls \<and> list_all lyrics_wf ls" unfolding ParseLyrics_def Let_def by (rule parseFirstMatch_wf [OF s formats_ok])
    then show ?thesis by (auto simp: list_all_iff)
  qed
  then show ?thesis by (auto simp: mapLyrics_def list_all_iff)
qed

lemma map_BPM_bounds: "map_BPM env t = Some b \<Longrightarrow> 0 < b \<and> b < 2 ^ 31"
  by (auto simp: map_BPM_def Let_def split: option.splits if_splits)

lemma first_in_list: "role_list p r \<noteq> [] \<Longrightarrow> Participants_First p r \<in> pa_Artist ` set (role_list p r)"
  by (auto simp: role_list_def Participants_First_def split: option.splits list.splits)

lemma first_credited: "good env t p \<Longrightarrow> role_list p r \<noteq> [] \<Longrightarrow> art_ID (Participants_First p r) = artistID (pn_pid env) t (art_Name (Participants_First p r))"
proof -
  assume g: "good env t p" and ne: "role_list p r \<noteq> []"
  obtain a where "a \<in> set (role_list p r)" "Participants_First p r = pa_Artist a" using first_in_list [OF ne] by blast
  then show ?thesis using g by (cases "p r") (auto simp: good_def credited_def role_list_def)
qed

definition track_ok :: "map_env \<Rightarrow> MappedFile \<Rightarrow> bool" where
  "track_ok env mf \<longleftrightarrow>
     mp_Album mf \<noteq> [] \<and> mp_Artist mf \<noteq> [] \<and> mp_AlbumArtist mf \<noteq> [] \<and>
     0 \<le> mp_TrackNumber mf \<and> mp_TrackNumber mf < 2 ^ 31 \<and> 0 \<le> mp_DiscNumber mf \<and> mp_DiscNumber mf < 2 ^ 31 \<and>
     (\<forall>b. mp_BPM mf = Some b \<longrightarrow> 0 < b \<and> b < 2 ^ 31) \<and>
     list_all (\<lambda>l. lyrics_wf l \<and> ly_Line l \<noteq> []) (mp_Lyrics mf) \<and>
     participants_ok (mp_Participants mf) \<and> has_credits (mp_Participants mf) \<and>
     mp_ArtistID mf = artistID (pn_pid (me_part env)) Map.empty (art_Name (Participants_First (mp_Participants mf) ''artist'')) \<and>
     mp_AlbumArtistID mf = artistID (pn_pid (me_part env)) Map.empty (art_Name (Participants_First (mp_Participants mf) ''albumartist'')) \<and>
     (\<forall>k. first_class (pn_tags (me_part env)) k \<longrightarrow> mp_Tags mf k = None)"

text \<open>The id of an artist depends on nothing but the name.\<close>

lemma artistID_name: "artistID env t name = artistID env u name"
proof -
  have attr: "pid_attr ''albumartistid'' = ''albumartistid''" "split_on (CHR ''|'') ''albumartistid'' = [''albumartistid'']"
    "split_on (CHR '','') ''albumartistid'' = [''albumartistid'']" by code_simp+
  have "computePID env mf t ''albumartistid'' [] False = pid_hash env (first_field (getPIDAttr env mf t a) [''albumartistid''])"
    if "a = computePID env mf t [] [] False" for mf t a
    using that by (subst computePID.simps) (simp add: attr del: first_field.simps)
  then show ?thesis by (simp add: artistID_def field_values_def attr getPIDAttr_def Let_def)
qed

lemma ToMediaFile_ok:
  assumes "sorts (me_lyrics env)" and "ToMediaFile env lib folder md = Some mf" shows "track_ok env mf"
proof -
  obtain d u r where dates: "mapDates (m_tags md) = (d, u, r)" by (cases "mapDates (m_tags md)") auto
  obtain y oy ry where years: "map_years (m_tags md) = Some (y, oy, ry)"
    using assms(2) by (cases "map_years (m_tags md)") (auto simp: ToMediaFile_def dates Let_def)
  obtain p where p: "mapParticipants (me_part env) (m_tags md) = syncMissingMbzIDs p" "good (me_part env) (m_tags md) p" "has_credits p"
    using mapParticipants_built by blast
  have good: "good (me_part env) (m_tags md) (mapParticipants (me_part env) (m_tags md))" "has_credits (mapParticipants (me_part env) (m_tags md))"
    using good_sync [OF p(2)] has_credits_sync [OF p(3)] p(1) by simp_all
  have ids: "art_ID (Participants_First (mapParticipants (me_part env) (m_tags md)) r) =
      artistID (pn_pid (me_part env)) Map.empty (art_Name (Participants_First (mapParticipants (me_part env) (m_tags md)) r))"
    if "r \<in> {''artist'', ''albumartist''}" for r
    using first_credited [OF good(1), of r] good(2) that artistID_name by (auto simp: has_credits_def)
  have "mapAlbumName (m_tags md) \<noteq> []" "mapDisplayArtist (me_part env) (m_tags md) \<noteq> []" "mapDisplayAlbumArtist (me_part env) (m_tags md) q \<noteq> []" for q
    using or_text_last [of UnknownAlbum "[first_value (m_tags md) ''album'']"]
      or_text_last [of UnknownArtist "[mapDisplayName (me_part env) (m_tags md) ''artist'' ''artists'']"]
      or_text_last [of "if md_Bool (m_tags md) ''compilation'' then VariousArtists else UnknownArtist"
        "[mapDisplayName (me_part env) (m_tags md) ''albumartist'' ''albumartists'', art_Name (Participants_First q ''albumartist'')]"]
    by (simp_all add: mapAlbumName_def mapDisplayArtist_def mapDisplayAlbumArtist_def UnknownAlbum_def UnknownArtist_def VariousArtists_def)
  then show ?thesis
    using assms good ids tuple_bounds map_BPM_bounds mapLyrics_wf
    by (auto simp: ToMediaFile_def dates years Let_def track_ok_def good_def)
qed


definition ex_map_env :: map_env where
  "ex_map_env =
     \<lparr>me_part = \<lparr>pn_tags = ex_tag_env [(''title'', ex_conf [''title''] [] 0), (''releasedate'', ex_conf [''date''] ''date'' 0)],
                 pn_pid = \<lparr>pe_md5 = \<lambda>_. [], pe_GroupAlbumReleases = False\<rparr>, pn_title = (\<lambda>s. s), pn_accents = (\<lambda>s. s),
                 pn_IgnoredArticles = ''The'', pn_ArtistJoiner = '' / ''\<rparr>,
      me_lyrics = ex_lyrics_env, me_pid = \<lparr>pc_Track = ''folder,title'', pc_Album = ''folder''\<rparr>\<rparr>"

definition ex_props :: AudioProperties where
  "ex_props = \<lparr>ap_Milliseconds = 1000, ap_BitRate = 320, ap_BitDepth = 0, ap_SampleRate = 44100, ap_Channels = 2, ap_Codec = ''mp3''\<rparr>"


end
