(* ===== verification/Spec2Isabelle.thy ===== *)
theory Spec2Isabelle
  imports
    Prelude Go_Float Media_Model
    Playback_Queue Playback_Device
    Stream_Codec Stream_Limits Stream_Decider Stream_Decider_Props Stream_Legacy Stream_Token
    Go_Concurrency Transcode_Limiter Throttle Auth_Limiter
    Artwork_Breaker Quick_Connect
    Scrobble_Buffer Play_Tracker
    Natural_Order
    Task_Queue
    Str_Util Track_Matcher
    Criteria Criteria_SQL Criteria_SQL_Props
    Go_Slice KV_Store Shell_Quote Json_Comment_Strip FFmpeg_Command
    Missing_Tracks Simple_Cache
    Go_Path Playlist_M3U
    Lyrics_Cues Lyrics_File Lyrics_Text Lyrics_Text_Props Lyrics_TTML Lyrics_TTML_Props Lyrics_Parse
    Entity_Ids Go_Utf8 Tag_Values Tag_Values_Props Tag_Config Persistent_Ids Tag_Participants Track_Mapping
begin

text \<open>
  A verification of parts of Noorify, a music server written in Go. The server scans a music library into a
  database and serves it to clients of three HTTP interfaces (Subsonic, Jellyfin and its own). A stream
  request is turned into a decision (send the file or transcode it), which may travel to the client and
  back in a signed token, and is then served under limits on transcodes and requests. What is played is
  reported to the play tracker, which counts plays and hands scrobbles to a buffer that is drained to
  external services. Lyrics are read from tags, files and plugins, in several formats. Smart playlists are rules that are translated to queries; songs that external agents
  recommend are matched to tracks; plugins queue background tasks and keep values in a store of their own. A scan
  recognises files that were moved. A jukebox plays on the server itself, through an external player. The development
  models the components that carry logic of their own; what they call outside the repository is a parameter.

  \<^bold>\<open>Theories and sources\<close> (paths under \<^verbatim>\<open>src/\<close>).

  \<^item> \<open>Prelude\<close>: generic lemmas and the parts of Go's library the sources use (integer parsing and printing,
    ASCII case, fields of a string), results with panics. \<open>Go_Float\<close>: rounding of \<^verbatim>\<open>float32\<close> and
    \<^verbatim>\<open>float64\<close> operations. \<open>Media_Model\<close>: the fields of \<^verbatim>\<open>model.MediaFile\<close>, \<^verbatim>\<open>Player\<close> and
    \<^verbatim>\<open>Transcoding\<close> the components read.
  \<^item> \<open>Playback_Queue\<close>, \<open>Playback_Device\<close>: \<^verbatim>\<open>core/playback/queue.go\<close> and \<^verbatim>\<open>device.go\<close>. The record
    \<open>Queue\<close> has the items and the index of the source (an \<open>int\<close>, \<open>-1\<close> for no track); operations return
    \<open>Inl\<close> where Go panics. The device is over an abstract track \<open>TrackOps\<close>, since the real one is
    an external process. Shown: every sequence of commands and track ends keeps the device invariant and never panics;
    removal and shuffle keep the current track; the next track follows the one that ended.
  \<^item> \<open>Stream_Codec\<close>, \<open>Stream_Limits\<close>, \<open>Stream_Decider\<close>, \<open>Stream_Decider_Props\<close>:
    \<^verbatim>\<open>core/stream/{codec,aliases,limitations,types,decider}.go\<close>. \<open>MakeDecision\<close> is composed as in the source;
    \<^verbatim>\<open>ffprobe\<close> and the table of transcodings are the record \<open>decider_env\<close>. Shown: when a file is played
    directly; that a transcoded stream respects source, profile, codec and limits; that a bitrate cap
    bounds every decision; that a decision has exactly one outcome.
  \<^item> \<open>Stream_Legacy\<close>, \<open>Stream_Token\<close>: \<^verbatim>\<open>legacy_client.go\<close> and \<^verbatim>\<open>token.go\<close>. Shown: the bounds of what a
    legacy request resolves to, and the round trip of a decision through its token. The JWT library is the
    record \<open>jwt_lib\<close> with the hypothesis \<open>jwt_faithful\<close>.
  \<^item> \<open>Go_Concurrency\<close>: reachable states of goroutines that run one after another in any interleaving, and
    the locale \<open>token_pool\<close> for a bounded channel used as a counter. \<open>Transcode_Limiter\<close>
    (\<^verbatim>\<open>core/stream/limiter.go\<close>), \<open>Throttle\<close> (\<^verbatim>\<open>server/throttle_backlog.go\<close>) and \<open>Auth_Limiter\<close>
    (\<^verbatim>\<open>server/subsonic/auth_limiter.go\<close>) interpret it; a step is what the source does under one lock or one
    channel operation. Shown: caps, conservation of tokens, and that releases never block.
  \<^item> \<open>Artwork_Breaker\<close>: the circuit breaker of \<^verbatim>\<open>core/artwork/gate.go\<close>, with when it opens, probes and closes
    over every interleaving of calls. \<open>Quick_Connect\<close>: \<^verbatim>\<open>core/quickconnect/quickconnect.go\<close>, with entries on
    a heap that both indexes point into; a secret is redeemed once, and a request always returns.
  \<^item> \<open>Scrobble_Buffer\<close>: \<^verbatim>\<open>core/scrobbler/buffered_scrobbler.go\<close> over the table of
    \<^verbatim>\<open>persistence/scrobble_buffer_repository.go\<close>, an interpretation of the locale \<open>scrobble_queue\<close>; the drain
    ends, keeps order and loses nothing, and the loop backs off. \<open>Play_Tracker\<close>:
    \<^verbatim>\<open>core/scrobbler/play_tracker.go\<close> with its two workers; when a play counts, what stays private, and what
    reports out of order do.
  \<^item> \<open>Natural_Order\<close>: the collation of \<^verbatim>\<open>utils/natural/natural.go\<close> is the order of a key, hence total and
    transitive.
  \<^item> \<open>Task_Queue\<close>: the task queues that plugins use, \<^verbatim>\<open>plugins/host_taskqueue.go\<close>. The tables are lists in a
    record, a worker is idle or executes a task, and a step is one statement or callback of one goroutine,
    which may fail. Shown: no task runs twice at once, the concurrency budget holds, attempts are numbered upwards,
    finished tasks stay as they are; what creating a queue and ending a task do on every branch.
  \<^item> \<open>Str_Util\<close>, \<open>Track_Matcher\<close>: \<^verbatim>\<open>utils/str\<close> and \<^verbatim>\<open>core/matcher/matcher.go\<close>. The loaders fill an association
    list from an index; the locale \<open>track_index\<close> states the law of an index and is interpreted on the three of the
    code. The database, the string metric and the configuration are the record \<open>matcher_env\<close>, with the hypothesis
    \<open>serves\<close>. Shown: exact matches come first and in order of priority, title matches credit an artist of the song,
    the best candidate is the maximum of a lexicographic score, and the list of results is what its description says.
  \<^item> \<open>Criteria\<close>, \<open>Criteria_SQL\<close>, \<open>Criteria_SQL_Props\<close>: smart playlists, \<^verbatim>\<open>model/criteria\<close> and
    \<^verbatim>\<open>persistence/criteria_sql.go\<close>. Rules are read from and written to trees of JSON values; conditions are a datatype
    with the constructors of the query builder and of the source, whose meaning is a three-valued evaluation on a row.
    Shown: the round trip through JSON and the form of what is read; that the translation selects exactly the tracks the
    specification \<open>matches\<close> describes, that merging conditions changes nothing, which rules are refused, and that every
    table a query reads is joined.
  \<^item> \<open>Missing_Tracks\<close>: the phase of a scan that finds moved files, \<^verbatim>\<open>scanner/phase_2_missing_tracks.go\<close>, with its queries
    in \<^verbatim>\<open>persistence/mediafile_repository.go\<close>. The table is the list of its rows; a failing query or transaction is
    an outcome of the parameters. Shown: within one library no file is lost or duplicated and ids survive; across
    libraries two ways in which they may not.
  \<^item> \<open>KV_Store\<close>: the key-value store of plugins, \<^verbatim>\<open>plugins/host_kvstore.go\<close>, and the schema migrations of
    \<^verbatim>\<open>plugins/migrate.go\<close>. The locale \<open>expiring_store\<close> is a map whose entries expire, and the table interprets it.
    Shown: a read returns the last live write, the quota holds for calls in sequence (and how it fails for concurrent
    ones), and what prefixes match. SQLite's clock, \<^verbatim>\<open>LIKE\<close> and dates are \<open>kv_env\<close>, with the hypothesis \<open>sqlite_ok\<close>.
  \<^item> \<open>Simple_Cache\<close>: \<^verbatim>\<open>utils/cache/simple_cache.go\<close>. Concurrent calls of \<^verbatim>\<open>GetWithLoader\<close> share one load per key; none
    waits in vain, also when a loader fails or panics.
  \<^item> \<open>FFmpeg_Command\<close>, \<open>Shell_Quote\<close>: the arguments of the external programs and what is read from them,
    \<^verbatim>\<open>core/ffmpeg\<close>, \<^verbatim>\<open>utils/shellquote\<close> and \<^verbatim>\<open>core/playback/mpv/mpv.go\<close>. Shown: quoted words are read back, where the
    placeholders of a template go, and which bits of a FLAC header are patched.
  \<^item> \<open>Go_Path\<close>, \<open>Playlist_M3U\<close>: Go's lexical operations on paths, and playlist files, \<^verbatim>\<open>core/playlists/parse_m3u.go\<close>
    with \<^verbatim>\<open>model/library_matcher.go\<close> and the export of \<^verbatim>\<open>model/playlist.go\<close>. Shown: whatever a playlist names stays inside a
    library, the library found is the innermost one, an import has the tracks its lines name, in order, and an export is
    read back. Media types and Unicode normal forms are the record \<open>m3u_env\<close>.
  \<^item> \<open>Lyrics_Cues\<close>, \<open>Lyrics_File\<close>, \<open>Lyrics_Text\<close>, \<open>Lyrics_TTML\<close> with their \<open>_Props\<close>, and \<open>Lyrics_Parse\<close>: lyrics,
    \<^verbatim>\<open>model/lyrics*.go\<close> and \<^verbatim>\<open>core/lyrics\<close>. \<open>Lyrics_Cues\<close> has the data and the normalisation of times, \<open>Lyrics_File\<close> the files of
    LRCLIB with the voices of overlapping lines, \<open>Lyrics_Text\<close> SRT and LRC with their regular expressions written out as matchers,
    \<open>Lyrics_TTML\<close> the XML format over the tokens of the decoder, and \<open>Lyrics_Parse\<close> the choice of the format and of the
    source; a parser is an interpretation of the locale \<open>lyric_format\<close>. Shown: whatever is parsed, words are where they
    say they are and name declared voices; voices are normalised apart; the voices given to lines are as few as possible; SRT
    and LRC are read back as printed; TTML is read to its end. The decoders of YAML and XML, the sanitiser, the parsing
    of floats and the sort are parameters.
  \<^item> \<open>Go_Utf8\<close>, \<open>Tag_Values\<close>, \<open>Tag_Values_Props\<close>, \<open>Tag_Config\<close>: the tags of a file, \<^verbatim>\<open>model/metadata/metadata.go\<close>, and their
    configuration, \<^verbatim>\<open>model/tag_mappings.go\<close>; \<open>Go_Utf8\<close> decodes UTF-8 forwards and backwards. The expressions that split values are lists of
    literal texts, and dates are read by the two layouts the code tries. Shown: names configured as exceptions are never
    split; a value that is cut stays well formed; every value that is kept is of its tag's type and within its limit; the
    settings of one tag leave the others alone.
  \<^item> \<open>Entity_Ids\<close>, \<open>Persistent_Ids\<close>: ids in base 62, \<^verbatim>\<open>model/id/id.go\<close>, ids of artwork, \<^verbatim>\<open>model/artwork_id.go\<close>, and the ids computed from
    a specification of attributes, \<^verbatim>\<open>model/metadata/persistent_ids.go\<close> and \<^verbatim>\<open>legacy_ids.go\<close>. Shown: ids are decoded to the bytes they were made
    of; which tracks are given the same id; which specifications are accepted. The digest is a parameter, and statements are about the text it is
    applied to.
  \<^item> \<open>Tag_Participants\<close>, \<open>Track_Mapping\<close>: the credits of a track, \<^verbatim>\<open>model/participants.go\<close> and \<^verbatim>\<open>model/metadata/map_participants.go\<close>, and the
    mapping of a file to a track, \<^verbatim>\<open>model/metadata/map_mediafile.go\<close>, which puts the tags, credits, lyrics and ids together. Shown: every
    file is mapped, with an artist, an album artist and ids that belong to their names, numbers within 32 bits and lyrics that are well
    formed. Title case and accents are parameters.
  \<^item> \<open>Go_Slice\<close>, \<open>Json_Comment_Strip\<close>: \<^verbatim>\<open>utils/slice\<close> and \<^verbatim>\<open>utils/jsoncommentstrip\<close>. Shown: the loops compute grouping,
    the most frequent element, chunks and lines as their specifications say; the reader strips comments whatever
    buffers it is called with. Both state where the cut of the input into pieces shows in the result.

  \<^bold>\<open>Bounds and loops.\<close> Indices, sizes, bitrates and times are unbounded \<open>int\<close> or \<open>nat\<close>; where the width
  matters the bound is stated (the shift of the retry delay, the numbers in a token). Loops that end by
  their data are functions with a termination proof; the search for a free code and the drain of a queue
  are \<open>partial_function (option)\<close> with a proof that they return. Times are nanoseconds passed to the
  operations. Only the parser of TTML has fuel, as many units as there are tokens and one more, and it is proved to
  be enough. The duration of a period in a smart playlist is computed on 64 bits and wraps
  around; the shift of a retry delay and the sample count of a FLAC header are on 64-bit words, the counter of moved
  files on 32 bits.

  \<^bold>\<open>Not modelled.\<close> Logging, HTTP handlers, the text of SQL statements, files, images, external services and the plugin
  runtime: they are input and output, or libraries. Left out for now: the scanner's walk of folders, the
  resolution of artwork and the remaining utilities.
\<close>

end
